(* ===== verification/Prelude.thy ===== *)
theory Prelude
  imports Main "HOL-Library.Word"
begin

unbundle bit_operations_syntax

text \<open>
  Shared vocabulary of the kernel model: the fixed-width integer types of the C sources, byte
  buffers as lists, the first-match loops over the kernel's fixed-size tables, C strings inside
  byte buffers, and the list and word lemmas that the component theories use.
\<close>

type_synonym u8 = "8 word"
type_synonym u16 = "16 word"
type_synonym u32 = "32 word"
type_synonym u64 = "64 word"
type_synonym bytes = "u8 list"

named_theorems table_simps \<open>facts on the first-match loops over fixed-size tables\<close>
named_theorems buffer_simps \<open>facts on writes into byte buffers\<close>

section \<open>First-match loops\<close>

text \<open>
  The loop shape \<open>for (i = 0; i < N; i++) if (P(t[i])) return i; return -1;\<close> is the index of the
  first element that satisfies the condition, or no index.
\<close>

fun find_idx :: "('a \<Rightarrow> bool) \<Rightarrow> 'a list \<Rightarrow> nat option" where
  "find_idx P [] = None"
| "find_idx P (x # xs) = (if P x then Some 0 else map_option Suc (find_idx P xs))"

lemma find_idx_None_iff [table_simps]: "find_idx P xs = None \<longleftrightarrow> (\<forall>x \<in> set xs. \<not> P x)"
  by (induction xs) auto

lemma find_idx_SomeD:
  "find_idx P xs = Some i \<Longrightarrow> i < length xs \<and> P (xs ! i) \<and> (\<forall>j < i. \<not> P (xs ! j))"
proof (induction xs arbitrary: i)
  case Nil
  then show ?case by simp
next
  case (Cons x xs)
  show ?case
  proof (cases "P x")
    case True
    with Cons.prems show ?thesis by simp
  next
    case False
    with Cons.prems obtain k where k: "find_idx P xs = Some k" "i = Suc k" by auto
    with Cons.IH [OF k(1)] False show ?thesis by (auto simp: less_Suc_eq_0_disj)
  qed
qed

lemma find_idx_SomeI:
  "i < length xs \<Longrightarrow> P (xs ! i) \<Longrightarrow> (\<And>j. j < i \<Longrightarrow> \<not> P (xs ! j)) \<Longrightarrow> find_idx P xs = Some i"
proof (induction xs arbitrary: i)
  case Nil
  then show ?case by simp
next
  case (Cons x xs)
  show ?case
  proof (cases i)
    case 0
    with Cons.prems show ?thesis by simp
  next
    case (Suc k)
    have "\<not> P x" using Cons.prems(3) [of 0] Suc by simp
    moreover have "find_idx P xs = Some k"
    proof (rule Cons.IH)
      show "\<not> P (xs ! j)" if "j < k" for j
        using Cons.prems(3) [of "Suc j"] that Suc by simp
    qed (use Cons.prems Suc in auto)
    ultimately show ?thesis using Suc by simp
  qed
qed

lemma find_idx_Some_iff [table_simps]:
  "find_idx P xs = Some i \<longleftrightarrow> i < length xs \<and> P (xs ! i) \<and> (\<forall>j < i. \<not> P (xs ! j))"
  by (auto dest: find_idx_SomeD intro: find_idx_SomeI)

lemma find_idx_lt [dest]: "find_idx P xs = Some i \<Longrightarrow> i < length xs"
  by (auto dest: find_idx_SomeD)

lemma find_idx_holds: "find_idx P xs = Some i \<Longrightarrow> P (xs ! i)"
  by (auto dest: find_idx_SomeD)

lemma find_idx_exists: "x \<in> set xs \<Longrightarrow> P x \<Longrightarrow> \<exists>i. find_idx P xs = Some i"
  by (metis find_idx_None_iff not_None_eq)

lemma find_idx_cong:
  "(\<And>x. x \<in> set xs \<Longrightarrow> P x = Q x) \<Longrightarrow> find_idx P xs = find_idx Q xs"
  by (induction xs) auto

section \<open>Byte buffers\<close>

text \<open>A copy loop that stores the bytes \<open>bs\<close> at offset \<open>i\<close> of a buffer.\<close>

definition put_at :: "nat \<Rightarrow> 'a list \<Rightarrow> 'a list \<Rightarrow> 'a list" where
  "put_at i bs xs = take i xs @ bs @ drop (i + length bs) xs"

text \<open>The \<open>n\<close> bytes of a buffer from offset \<open>i\<close>.\<close>

definition segment :: "nat \<Rightarrow> nat \<Rightarrow> 'a list \<Rightarrow> 'a list" where
  "segment i n xs = take n (drop i xs)"

lemma length_put_at [simp, buffer_simps]:
  "i + length bs \<le> length xs \<Longrightarrow> length (put_at i bs xs) = length xs"
  by (simp add: put_at_def)

lemma nth_put_at [buffer_simps]:
  "i + length bs \<le> length xs \<Longrightarrow> k < length xs \<Longrightarrow>
     put_at i bs xs ! k = (if i \<le> k \<and> k < i + length bs then bs ! (k - i) else xs ! k)"
  by (auto simp: put_at_def nth_append)

lemma put_at_Nil [simp, buffer_simps]: "put_at i [] xs = xs"
  by (simp add: put_at_def)

lemma length_segment [simp, buffer_simps]: "length (segment i n xs) = min n (length xs - i)"
  by (simp add: segment_def)

lemma nth_segment [buffer_simps]: "k < n \<Longrightarrow> i + k < length xs \<Longrightarrow> segment i n xs ! k = xs ! (i + k)"
  by (simp add: segment_def)

text \<open>Segments of a buffer that is put together from pieces.\<close>

lemma segment_app1: "i + n \<le> length xs \<Longrightarrow> segment i n (xs @ ys) = segment i n xs"
  by (simp add: segment_def)

lemma segment_app2: "length xs \<le> i \<Longrightarrow> segment i n (xs @ ys) = segment (i - length xs) n ys"
  by (simp add: segment_def)

lemma segment_all [simp]: "length xs = n \<Longrightarrow> segment 0 n xs = xs"
  by (simp add: segment_def)

lemma segment_prefix: "length xs = n \<Longrightarrow> segment 0 n (xs @ ys) = xs"
  by (simp add: segment_def)

lemma segment_Cons: "0 < i \<Longrightarrow> segment i n (x # xs) = segment (i - 1) n xs"
  by (cases i) (simp_all add: segment_def)

lemmas segment_split = segment_app1 segment_app2 segment_prefix segment_Cons

lemma segment_put_at_same [simp, buffer_simps]:
  "i + length bs \<le> length xs \<Longrightarrow> segment i (length bs) (put_at i bs xs) = bs"
  by (simp add: segment_def put_at_def)

lemma segment_put_at_other [buffer_simps]:
  "i + length bs \<le> length xs \<Longrightarrow> j + n \<le> length xs \<Longrightarrow> j + n \<le> i \<or> i + length bs \<le> j \<Longrightarrow>
     segment j n (put_at i bs xs) = segment j n xs"
  by (rule nth_equalityI) (auto simp: nth_segment nth_put_at)

lemma take_put_at_append:
  "i + length bs \<le> length xs \<Longrightarrow> take (i + length bs) (put_at i bs xs) = take i xs @ bs"
  by (simp add: put_at_def)

lemma put_at_append:
  assumes "i + length bs + length cs \<le> length xs"
  shows "put_at (i + length bs) cs (put_at i bs xs) = put_at i (bs @ cs) xs"
proof -
  have "bs = [] \<or> i < length xs" using assms by (cases bs) auto
  then show ?thesis using assms by (auto simp: put_at_def min_def add.commute add.left_commute)
qed

lemma segment_step:
  assumes "i + n \<le> k"
  shows "segment i (k - i) xs = segment i n xs @ segment (i + n) (k - (i + n)) xs"
proof -
  have "k - i = n + (k - (i + n))" using assms by simp
  then have "segment i (k - i) xs = take (n + (k - (i + n))) (drop i xs)" by (simp add: segment_def)
  then show ?thesis by (simp only: take_add drop_drop segment_def add.commute [of n i])
qed

lemma dvd_next: "n dvd len - i \<Longrightarrow> i + n \<le> len \<Longrightarrow> n dvd len - (i + n)" for n :: nat
  by (metis diff_diff_left dvd_diff_nat dvd_refl)

text \<open>Cutting a buffer into consecutive pieces of \<open>n\<close> elements, the last one possibly shorter.\<close>

function chunks :: "nat \<Rightarrow> 'a list \<Rightarrow> 'a list list" where
  "chunks n xs = (if n = 0 \<or> xs = [] then [] else take n xs # chunks n (drop n xs))"
  by pat_completeness auto
termination
  by (relation "measure (\<lambda>(n, xs). length xs)") auto

declare chunks.simps [simp del]

lemma chunks_Nil [simp]: "chunks n [] = []"
  by (simp add: chunks.simps)

lemma chunks_step: "0 < n \<Longrightarrow> xs \<noteq> [] \<Longrightarrow> chunks n xs = take n xs # chunks n (drop n xs)"
  by (simp add: chunks.simps)

lemma chunks_append:
  "0 < n \<Longrightarrow> length xs = n \<Longrightarrow> chunks n (xs @ ys) = xs # chunks n ys"
  by (subst chunks.simps) auto

lemma concat_chunks [simp]: "0 < n \<Longrightarrow> concat (chunks n xs) = xs"
proof (induction n xs rule: chunks.induct)
  case (1 n xs)
  then show ?case by (cases "xs = []") (simp_all add: chunks_step [of n xs])
qed

lemma chunks_lengths: "n dvd length xs \<Longrightarrow> b \<in> set (chunks n xs) \<Longrightarrow> length b = n"
proof (induction n xs rule: chunks.induct)
  case (1 n xs)
  show ?case
  proof (cases "n = 0 \<or> xs = []")
    case True
    with "1.prems" show ?thesis by (subst (asm) chunks.simps) simp
  next
    case False
    with "1.prems"(1) have le: "n \<le> length xs" by (simp add: dvd_imp_le)
    with "1.prems"(1) have "n dvd length (drop n xs)" by (simp add: dvd_diff_nat)
    moreover from "1.prems"(2) False have "b = take n xs \<or> b \<in> set (chunks n (drop n xs))"
      by (subst (asm) chunks.simps) auto
    ultimately show ?thesis using "1.IH" False le by auto
  qed
qed

lemma chunks_concat:
  "0 < n \<Longrightarrow> \<forall>b \<in> set bs. length b = n \<Longrightarrow> chunks n (concat bs) = bs"
  by (induction bs) (auto simp: chunks_append)

lemma chunks_append_whole:
  "0 < n \<Longrightarrow> n dvd length xs \<Longrightarrow> chunks n (xs @ ys) = chunks n xs @ chunks n ys"
proof (induction n xs rule: chunks.induct)
  case (1 n xs)
  show ?case
  proof (cases "xs = []")
    case False
    with "1.prems" have le: "n \<le> length xs" by (simp add: dvd_imp_le)
    moreover have "n dvd length (drop n xs)" using "1.prems"(2) le by (simp add: dvd_diff_nat)
    ultimately have "chunks n (drop n xs @ ys) = chunks n (drop n xs) @ chunks n ys"
      using "1.IH" "1.prems" False by simp
    moreover have "xs @ ys = take n xs @ drop n xs @ ys" by simp
    ultimately show ?thesis
      using "1.prems" False le chunks_append [of n "take n xs" "drop n xs @ ys"] chunks_step [of n xs]
      by (metis append_Cons length_take min.absorb2)
  qed simp
qed

lemma length_chunks: "0 < n \<Longrightarrow> n dvd length xs \<Longrightarrow> length (chunks n xs) = length xs div n"
proof (induction n xs rule: chunks.induct)
  case (1 n xs)
  show ?case
  proof (cases "xs = []")
    case False
    with "1.prems" have le: "n \<le> length xs" by (simp add: dvd_imp_le)
    then have "length xs = n + length (drop n xs)" by simp
    then have "length xs div n = Suc (length (drop n xs) div n)"
      using "1.prems"(1) by (metis add.commute div_add_self2 less_numeral_extra(3) plus_1_eq_Suc add.commute)
    moreover have "n dvd length (drop n xs)" using "1.prems"(2) le by (simp add: dvd_diff_nat)
    ultimately show ?thesis using "1.IH" "1.prems" False by (simp add: chunks_step [of n xs])
  qed simp
qed

section \<open>C strings\<close>

text \<open>
  A \<open>char\<close> array is a list of bytes; the string it holds is the part before the first NUL.
\<close>

definition cstr :: "bytes \<Rightarrow> bytes" where
  "cstr bs = takeWhile (\<lambda>b. b \<noteq> 0) bs"

definition of_string :: "string \<Rightarrow> bytes" where
  "of_string s = map of_char s"

lemma cstr_no_nul [simp]: "0 \<notin> set (cstr bs)"
  by (auto simp: cstr_def dest: set_takeWhileD)

lemma cstr_idem [simp]: "cstr (cstr bs) = cstr bs"
  by (simp add: cstr_def)

lemma length_cstr_le [simp]: "length (cstr bs) \<le> length bs"
  by (simp add: cstr_def length_takeWhile_le)

lemma cstr_append_nul: "0 \<notin> set s \<Longrightarrow> cstr (s @ 0 # r) = s"
  unfolding cstr_def by (subst takeWhile_append2) auto

lemma cstr_id: "0 \<notin> set s \<Longrightarrow> cstr s = s"
  by (auto simp: cstr_def takeWhile_eq_all_conv)

end
