(* ===== verification/Bytes.thy ===== *)
theory Bytes
  imports Prelude
begin

text \<open>
  Integers in memory: the little-endian encoding that the processor uses for every field of a C
  structure, the big-endian encoding of network headers, and byte-addressed memory with 64-bit
  addresses that wrap around.
\<close>

section \<open>Encodings\<close>

definition le_enc :: "nat \<Rightarrow> 'a :: len word \<Rightarrow> bytes" where
  "le_enc n w = map (\<lambda>i. ucast (drop_bit (8 * i) w)) [0..<n]"

primrec le_dec :: "bytes \<Rightarrow> 'a :: len word" where
  "le_dec [] = 0"
| "le_dec (b # bs) = ucast b OR push_bit 8 (le_dec bs)"

definition be_enc :: "nat \<Rightarrow> 'a :: len word \<Rightarrow> bytes" where
  "be_enc n w = rev (le_enc n w)"

definition be_dec :: "bytes \<Rightarrow> 'a :: len word" where
  "be_dec bs = le_dec (rev bs)"

lemma length_le_enc [simp]: "length (le_enc n w) = n"
  by (simp add: le_enc_def)

lemma length_be_enc [simp]: "length (be_enc n w) = n"
  by (simp add: be_enc_def)

lemma bit_le_dec:
  "bit (le_dec bs :: 'a :: len word) i \<longleftrightarrow>
     i < LENGTH('a) \<and> i div 8 < length bs \<and> bit (bs ! (i div 8)) (i mod 8)"
proof (induction bs arbitrary: i)
  case (Cons b bs)
  show ?case
  proof (cases "i < 8")
    case True
    then show ?thesis by (auto simp: bit_or_iff bit_ucast_iff bit_push_bit_iff possible_bit_def)
  next
    case False
    then have "\<not> bit b i" using bit_imp_le_length [of b i] by auto
    moreover have "i div 8 = Suc ((i - 8) div 8)" "i mod 8 = (i - 8) mod 8"
      using False by (simp_all add: le_div_geq le_mod_geq)
    ultimately show ?thesis using False Cons.IH [of "i - 8"]
      by (auto simp: bit_or_iff bit_ucast_iff bit_push_bit_iff possible_bit_def)
  qed
qed simp

lemma le_dec_enc [simp]:
  assumes "LENGTH('a) \<le> 8 * n"
  shows "le_dec (le_enc n (w :: 'a :: len word)) = w"
proof (rule bit_word_eqI)
  fix i
  assume i: "i < LENGTH('a)"
  then have "i div 8 < n" using assms by auto
  moreover have "8 * (i div 8) + i mod 8 = i" by simp
  ultimately show "bit (le_dec (le_enc n w) :: 'a word) i = bit w i"
    using i by (simp add: bit_le_dec le_enc_def bit_ucast_iff bit_drop_bit_eq)
qed

lemma le_enc_dec [simp]:
  assumes "length bs = n" "8 * n \<le> LENGTH('a)"
  shows "le_enc n (le_dec bs :: 'a :: len word) = bs"
proof (rule nth_equalityI)
  fix k
  assume k: "k < length (le_enc n (le_dec bs :: 'a word))"
  show "le_enc n (le_dec bs :: 'a word) ! k = bs ! k"
  proof (rule bit_word_eqI)
    fix i
    assume "i < LENGTH(8)"
    with k assms show "bit (le_enc n (le_dec bs :: 'a word) ! k) i = bit (bs ! k) i"
      by (simp add: le_enc_def bit_ucast_iff bit_drop_bit_eq bit_le_dec)
  qed
qed (simp add: assms)

lemma be_dec_enc [simp]: "LENGTH('a) \<le> 8 * n \<Longrightarrow> be_dec (be_enc n (w :: 'a :: len word)) = w"
  by (simp add: be_dec_def be_enc_def)

lemma be_enc_dec [simp]:
  "length bs = n \<Longrightarrow> 8 * n \<le> LENGTH('a) \<Longrightarrow> be_enc n (be_dec bs :: 'a :: len word) = bs"
  by (simp add: be_dec_def be_enc_def)

section \<open>Byte-addressed memory\<close>

type_synonym mem = "u64 \<Rightarrow> u8"

definition ld :: "mem \<Rightarrow> u64 \<Rightarrow> nat \<Rightarrow> bytes" where
  "ld m a n = map (\<lambda>i. m (a + of_nat i)) [0..<n]"

definition st :: "mem \<Rightarrow> u64 \<Rightarrow> bytes \<Rightarrow> mem" where
  "st m a bs = (\<lambda>x. if unat (x - a) < length bs then bs ! unat (x - a) else m x)"

definition ld64 :: "mem \<Rightarrow> u64 \<Rightarrow> u64" where
  "ld64 m a = le_dec (ld m a 8)"

definition st64 :: "mem \<Rightarrow> u64 \<Rightarrow> u64 \<Rightarrow> mem" where
  "st64 m a v = st m a (le_enc 8 v)"

definition ld32 :: "mem \<Rightarrow> u64 \<Rightarrow> u32" where
  "ld32 m a = le_dec (ld m a 4)"

definition st32 :: "mem \<Rightarrow> u64 \<Rightarrow> u32 \<Rightarrow> mem" where
  "st32 m a v = st m a (le_enc 4 v)"

text \<open>Two address ranges, modulo the size of the address space, do not meet.\<close>

definition apart :: "u64 \<Rightarrow> nat \<Rightarrow> u64 \<Rightarrow> nat \<Rightarrow> bool" where
  "apart a n b k \<longleftrightarrow> n \<le> unat (b - a) \<and> k \<le> unat (a - b)"

named_theorems mem_simps \<open>loads after stores\<close>

lemma length_ld [simp]: "length (ld m a n) = n"
  by (simp add: ld_def)

lemma unat_of_nat_lt: "i < 2 ^ 64 \<Longrightarrow> unat (of_nat i :: u64) = i"
  by (simp only: unat_of_nat) simp

lemma ld_st_same [simp, mem_simps]: "length bs < 2 ^ 64 \<Longrightarrow> ld (st m a bs) a (length bs) = bs"
proof (rule nth_equalityI)
  fix i
  assume l: "length bs < 2 ^ 64" and "i < length (ld (st m a bs) a (length bs))"
  then have i: "i < length bs" by simp
  with l have "unat (of_nat i :: u64) = i" by (intro unat_of_nat_lt) simp
  with i show "ld (st m a bs) a (length bs) ! i = bs ! i" by (simp add: ld_def st_def)
qed simp

lemma unat_add_u64: "unat a + unat b < 2 ^ 64 \<Longrightarrow> unat (a + b :: u64) = unat a + unat b"
  by (simp add: unat_add_lem [THEN iffD1])

lemma unat_uminus_u64: "unat (- w :: u64) = (if w = 0 then 0 else 2 ^ 64 - unat w)"
  using unat_sub_if' [of 0 w] by (auto simp: unat_eq_0)

lemma apart_cell:
  assumes ap: "apart a n b k" and "i < k" "k < 2 ^ 64"
  shows "n \<le> unat (b + of_nat i - a)"
proof -
  have i: "unat (of_nat i :: u64) = i" using assms by (intro unat_of_nat_lt) simp
  have ab: "unat (a - b) = (if b - a = 0 then 0 else 2 ^ 64 - unat (b - a))"
    using unat_uminus_u64 [of "b - a"] by (simp only: minus_diff_eq)
  show ?thesis
  proof (cases "b - a = 0")
    case True
    then show ?thesis using ap ab assms(2) by (simp add: apart_def)
  next
    case False
    then have "k \<le> 2 ^ 64 - unat (b - a)" using ap ab unfolding apart_def by simp
    moreover have "unat (b - a) < 2 ^ 64" using unsigned_less [of "b - a", where 'a = nat] by simp
    ultimately have "unat (b - a) + i < 2 ^ 64" using assms(2) by linarith
    then have "unat (b - a + of_nat i) = unat (b - a) + i"
      using i by (simp add: unat_add_lem [THEN iffD1])
    then show ?thesis using ap unfolding apart_def by (simp add: algebra_simps)
  qed
qed

lemma ld_st_apart [mem_simps]:
  assumes "apart a (length bs) b k" "k < 2 ^ 64"
  shows "ld (st m a bs) b k = ld m b k"
  unfolding ld_def
proof (rule map_cong [OF refl])
  fix i
  assume "i \<in> set [0..<k]"
  then have "length bs \<le> unat (b + of_nat i - a)" using apart_cell [OF assms(1) _ assms(2)] by simp
  then show "st m a bs (b + of_nat i) = m (b + of_nat i)" by (simp add: st_def)
qed

lemma ld64_st64 [simp, mem_simps]: "ld64 (st64 m a v) a = v"
  using ld_st_same [of "le_enc 8 v" m a] by (simp add: ld64_def st64_def)

lemma ld32_st32 [simp, mem_simps]: "ld32 (st32 m a v) a = v"
  using ld_st_same [of "le_enc 4 v" m a] by (simp add: ld32_def st32_def)

lemma ld64_st_apart [mem_simps]: "apart a (length bs) b 8 \<Longrightarrow> ld64 (st m a bs) b = ld64 m b"
  by (simp add: ld64_def ld_st_apart)

lemma ld32_st_apart [mem_simps]: "apart a (length bs) b 4 \<Longrightarrow> ld32 (st m a bs) b = ld32 m b"
  by (simp add: ld32_def ld_st_apart)

lemma apart_sym: "apart a n b k \<longleftrightarrow> apart b k a n"
  by (auto simp: apart_def)

text \<open>Ranges at small offsets of one address.\<close>

lemma apart_offsets:
  assumes "0 < n" "i + n \<le> j" "j + k \<le> i + 2 ^ 64" "j < 2 ^ 64"
  shows "apart (a + of_nat i) n (a + of_nat j) k" "apart (a + of_nat j) k (a + of_nat i) n"
proof -
  have d: "a + of_nat j - (a + of_nat i) = (of_nat (j - i) :: u64)"
    "a + of_nat i - (a + of_nat j) = - (of_nat (j - i) :: u64)" using assms by (simp_all add: of_nat_diff)
  have u: "unat (of_nat (j - i) :: u64) = j - i" using assms by (intro unat_of_nat_lt) simp
  then have "of_nat (j - i) \<noteq> (0 :: u64)" using assms by (auto simp del: of_nat_diff)
  then show "apart (a + of_nat i) n (a + of_nat j) k"
    unfolding apart_def d unat_uminus_u64 u using assms by (simp del: of_nat_diff) arith
  then show "apart (a + of_nat j) k (a + of_nat i) n" by (simp add: apart_sym)
qed

end
