(* ===== verification/AES256.thy ===== *)
theory AES256
  imports Prelude
begin

text \<open>
  The AES-256 code of \<open>src/kernel/Network/Cryptography/AES256.c\<close>: tables, field
  multiplication, key expansion, the four round transformations with their inverses, single block
  encryption and decryption, the CBC and CTR modes and PKCS#7 padding. A block is a list of sixteen
  bytes; the in-place loops over \<open>state[16]\<close> are sequences of list updates in the order of
  the code. The modes are proved over the interface \<open>block_cipher\<close> and interpreted on the
  code's own block functions.
\<close>

section \<open>Tables\<close>

definition sbox :: "u8 list" where
  "sbox = [
     0x63, 0x7c, 0x77, 0x7b, 0xf2, 0x6b, 0x6f, 0xc5, 0x30, 0x01, 0x67, 0x2b, 0xfe, 0xd7, 0xab, 0x76,
     0xca, 0x82, 0xc9, 0x7d, 0xfa, 0x59, 0x47, 0xf0, 0xad, 0xd4, 0xa2, 0xaf, 0x9c, 0xa4, 0x72, 0xc0,
     0xb7, 0xfd, 0x93, 0x26, 0x36, 0x3f, 0xf7, 0xcc, 0x34, 0xa5, 0xe5, 0xf1, 0x71, 0xd8, 0x31, 0x15,
     0x04, 0xc7, 0x23, 0xc3, 0x18, 0x96, 0x05, 0x9a, 0x07, 0x12, 0x80, 0xe2, 0xeb, 0x27, 0xb2, 0x75,
     0x09, 0x83, 0x2c, 0x1a, 0x1b, 0x6e, 0x5a, 0xa0, 0x52, 0x3b, 0xd6, 0xb3, 0x29, 0xe3, 0x2f, 0x84,
     0x53, 0xd1, 0x00, 0xed, 0x20, 0xfc, 0xb1, 0x5b, 0x6a, 0xcb, 0xbe, 0x39, 0x4a, 0x4c, 0x58, 0xcf,
     0xd0, 0xef, 0xaa, 0xfb, 0x43, 0x4d, 0x33, 0x85, 0x45, 0xf9, 0x02, 0x7f, 0x50, 0x3c, 0x9f, 0xa8,
     0x51, 0xa3, 0x40, 0x8f, 0x92, 0x9d, 0x38, 0xf5, 0xbc, 0xb6, 0xda, 0x21, 0x10, 0xff, 0xf3, 0xd2,
     0xcd, 0x0c, 0x13, 0xec, 0x5f, 0x97, 0x44, 0x17, 0xc4, 0xa7, 0x7e, 0x3d, 0x64, 0x5d, 0x19, 0x73,
     0x60, 0x81, 0x4f, 0xdc, 0x22, 0x2a, 0x90, 0x88, 0x46, 0xee, 0xb8, 0x14, 0xde, 0x5e, 0x0b, 0xdb,
     0xe0, 0x32, 0x3a, 0x0a, 0x49, 0x06, 0x24, 0x5c, 0xc2, 0xd3, 0xac, 0x62, 0x91, 0x95, 0xe4, 0x79,
     0xe7, 0xc8, 0x37, 0x6d, 0x8d, 0xd5, 0x4e, 0xa9, 0x6c, 0x56, 0xf4, 0xea, 0x65, 0x7a, 0xae, 0x08,
     0xba, 0x78, 0x25, 0x2e, 0x1c, 0xa6, 0xb4, 0xc6, 0xe8, 0xdd, 0x74, 0x1f, 0x4b, 0xbd, 0x8b, 0x8a,
     0x70, 0x3e, 0xb5, 0x66, 0x48, 0x03, 0xf6, 0x0e, 0x61, 0x35, 0x57, 0xb9, 0x86, 0xc1, 0x1d, 0x9e,
     0xe1, 0xf8, 0x98, 0x11, 0x69, 0xd9, 0x8e, 0x94, 0x9b, 0x1e, 0x87, 0xe9, 0xce, 0x55, 0x28, 0xdf,
     0x8c, 0xa1, 0x89, 0x0d, 0xbf, 0xe6, 0x42, 0x68, 0x41, 0x99, 0x2d, 0x0f, 0xb0, 0x54, 0xbb, 0x16]"

definition inv_sbox :: "u8 list" where
  "inv_sbox = [
     0x52, 0x09, 0x6a, 0xd5, 0x30, 0x36, 0xa5, 0x38, 0xbf, 0x40, 0xa3, 0x9e, 0x81, 0xf3, 0xd7, 0xfb,
     0x7c, 0xe3, 0x39, 0x82, 0x9b, 0x2f, 0xff, 0x87, 0x34, 0x8e, 0x43, 0x44, 0xc4, 0xde, 0xe9, 0xcb,
     0x54, 0x7b, 0x94, 0x32, 0xa6, 0xc2, 0x23, 0x3d, 0xee, 0x4c, 0x95, 0x0b, 0x42, 0xfa, 0xc3, 0x4e,
     0x08, 0x2e, 0xa1, 0x66, 0x28, 0xd9, 0x24, 0xb2, 0x76, 0x5b, 0xa2, 0x49, 0x6d, 0x8b, 0xd1, 0x25,
     0x72, 0xf8, 0xf6, 0x64, 0x86, 0x68, 0x98, 0x16, 0xd4, 0xa4, 0x5c, 0xcc, 0x5d, 0x65, 0xb6, 0x92,
     0x6c, 0x70, 0x48, 0x50, 0xfd, 0xed, 0xb9, 0xda, 0x5e, 0x15, 0x46, 0x57, 0xa7, 0x8d, 0x9d, 0x84,
     0x90, 0xd8, 0xab, 0x00, 0x8c, 0xbc, 0xd3, 0x0a, 0xf7, 0xe4, 0x58, 0x05, 0xb8, 0xb3, 0x45, 0x06,
     0xd0, 0x2c, 0x1e, 0x8f, 0xca, 0x3f, 0x0f, 0x02, 0xc1, 0xaf, 0xbd, 0x03, 0x01, 0x13, 0x8a, 0x6b,
     0x3a, 0x91, 0x11, 0x41, 0x4f, 0x67, 0xdc, 0xea, 0x97, 0xf2, 0xcf, 0xce, 0xf0, 0xb4, 0xe6, 0x73,
     0x96, 0xac, 0x74, 0x22, 0xe7, 0xad, 0x35, 0x85, 0xe2, 0xf9, 0x37, 0xe8, 0x1c, 0x75, 0xdf, 0x6e,
     0x47, 0xf1, 0x1a, 0x71, 0x1d, 0x29, 0xc5, 0x89, 0x6f, 0xb7, 0x62, 0x0e, 0xaa, 0x18, 0xbe, 0x1b,
     0xfc, 0x56, 0x3e, 0x4b, 0xc6, 0xd2, 0x79, 0x20, 0x9a, 0xdb, 0xc0, 0xfe, 0x78, 0xcd, 0x5a, 0xf4,
     0x1f, 0xdd, 0xa8, 0x33, 0x88, 0x07, 0xc7, 0x31, 0xb1, 0x12, 0x10, 0x59, 0x27, 0x80, 0xec, 0x5f,
     0x60, 0x51, 0x7f, 0xa9, 0x19, 0xb5, 0x4a, 0x0d, 0x2d, 0xe5, 0x7a, 0x9f, 0x93, 0xc9, 0x9c, 0xef,
     0xa0, 0xe0, 0x3b, 0x4d, 0xae, 0x2a, 0xf5, 0xb0, 0xc8, 0xeb, 0xbb, 0x3c, 0x83, 0x53, 0x99, 0x61,
     0x17, 0x2b, 0x04, 0x7e, 0xba, 0x77, 0xd6, 0x26, 0xe1, 0x69, 0x14, 0x63, 0x55, 0x21, 0x0c, 0x7d]"

definition rcon :: "u8 list" where
  "rcon = [
     0x00, 0x01, 0x02, 0x04, 0x08, 0x10, 0x20, 0x40, 0x80, 0x1b, 0x36, 0x6c, 0xd8, 0xab, 0x4d]"

section \<open>Field multiplication\<close>

text \<open>One iteration of the loop of \<open>gmul\<close> works on \<open>a\<close>, \<open>b\<close> and the product \<open>p\<close>.\<close>

definition gmul_double :: "u8 \<Rightarrow> u8" where
  "gmul_double a = (let hi = a AND 0x80; a = push_bit 1 a in if hi \<noteq> 0 then a XOR 0x1b else a)"

fun gmul_loop :: "nat \<Rightarrow> u8 \<Rightarrow> u8 \<Rightarrow> u8 \<Rightarrow> u8" where
  "gmul_loop 0 a b p = p"
| "gmul_loop (Suc n) a b p =
     (let p = (if b AND 1 \<noteq> 0 then p XOR a else p);
          a = gmul_double a;
          b = drop_bit 1 b
      in gmul_loop n a b p)"

definition gmul :: "u8 \<Rightarrow> u8 \<Rightarrow> u8" where
  "gmul a b = gmul_loop 8 a b 0"

section \<open>Key schedule\<close>

record aes256_ctx =
  round_keys :: "u32 list"
  nr :: nat

definition AES256_ROUNDS :: nat where
  "AES256_ROUNDS = 14"

definition AES256_BLOCK_SIZE :: nat where
  "AES256_BLOCK_SIZE = 16"

definition key_word :: "bytes \<Rightarrow> nat \<Rightarrow> u32" where
  "key_word key i =
     push_bit 24 (ucast (key ! (4 * i))) OR push_bit 16 (ucast (key ! (4 * i + 1)))
     OR push_bit 8 (ucast (key ! (4 * i + 2))) OR ucast (key ! (4 * i + 3))"

definition sub_word :: "u32 \<Rightarrow> u32" where
  "sub_word temp =
     push_bit 24 (ucast (sbox ! unat (drop_bit 24 temp AND 0xFF)))
     OR push_bit 16 (ucast (sbox ! unat (drop_bit 16 temp AND 0xFF)))
     OR push_bit 8 (ucast (sbox ! unat (drop_bit 8 temp AND 0xFF)))
     OR ucast (sbox ! unat (temp AND 0xFF))"

definition expand_step :: "nat \<Rightarrow> u32 list \<Rightarrow> u32 list" where
  "expand_step i rk =
     (let nk = 8;
          temp = rk ! (i - 1);
          temp = (if i mod nk = 0 then
                    (let temp = push_bit 8 temp OR drop_bit 24 temp;
                         temp = sub_word temp
                     in temp XOR push_bit 24 (ucast (rcon ! (i div nk))))
                  else if i mod nk = 4 then sub_word temp
                  else temp)
      in rk @ [rk ! (i - nk) XOR temp])"

definition aes256_init :: "bytes \<Rightarrow> aes256_ctx" where
  "aes256_init key =
     (let rk = map (key_word key) [0..<8];
          rk = fold expand_step [8..<4 * (AES256_ROUNDS + 1)] rk
      in \<lparr>round_keys = rk, nr = AES256_ROUNDS\<rparr>)"

section \<open>Round transformations\<close>

definition sub_bytes :: "bytes \<Rightarrow> bytes" where
  "sub_bytes state = map (\<lambda>b. sbox ! unat b) state"

definition inv_sub_bytes :: "bytes \<Rightarrow> bytes" where
  "inv_sub_bytes state = map (\<lambda>b. inv_sbox ! unat b) state"

definition shift_rows :: "bytes \<Rightarrow> bytes" where
  "shift_rows state =
     (let temp = state ! 1;
          state = state[1 := state ! 5];
          state = state[5 := state ! 9];
          state = state[9 := state ! 13];
          state = state[13 := temp];
          temp = state ! 2;
          state = state[2 := state ! 10];
          state = state[10 := temp];
          temp = state ! 6;
          state = state[6 := state ! 14];
          state = state[14 := temp];
          temp = state ! 15;
          state = state[15 := state ! 11];
          state = state[11 := state ! 7];
          state = state[7 := state ! 3];
          state = state[3 := temp]
      in state)"

definition inv_shift_rows :: "bytes \<Rightarrow> bytes" where
  "inv_shift_rows state =
     (let temp = state ! 13;
          state = state[13 := state ! 9];
          state = state[9 := state ! 5];
          state = state[5 := state ! 1];
          state = state[1 := temp];
          temp = state ! 2;
          state = state[2 := state ! 10];
          state = state[10 := temp];
          temp = state ! 6;
          state = state[6 := state ! 14];
          state = state[14 := temp];
          temp = state ! 3;
          state = state[3 := state ! 7];
          state = state[7 := state ! 11];
          state = state[11 := state ! 15];
          state = state[15 := temp]
      in state)"

definition mix_column :: "nat \<Rightarrow> bytes \<Rightarrow> bytes" where
  "mix_column i state =
     (let a0 = state ! i; a1 = state ! (i + 4); a2 = state ! (i + 8); a3 = state ! (i + 12);
          state = state[i := gmul a0 2 XOR gmul a1 3 XOR a2 XOR a3];
          state = state[i + 4 := a0 XOR gmul a1 2 XOR gmul a2 3 XOR a3];
          state = state[i + 8 := a0 XOR a1 XOR gmul a2 2 XOR gmul a3 3]
      in state[i + 12 := gmul a0 3 XOR a1 XOR a2 XOR gmul a3 2])"

definition mix_columns :: "bytes \<Rightarrow> bytes" where
  "mix_columns state = fold mix_column [0..<4] state"

definition inv_mix_column :: "nat \<Rightarrow> bytes \<Rightarrow> bytes" where
  "inv_mix_column i state =
     (let a0 = state ! i; a1 = state ! (i + 4); a2 = state ! (i + 8); a3 = state ! (i + 12);
          state = state[i := gmul a0 14 XOR gmul a1 11 XOR gmul a2 13 XOR gmul a3 9];
          state = state[i + 4 := gmul a0 9 XOR gmul a1 14 XOR gmul a2 11 XOR gmul a3 13];
          state = state[i + 8 := gmul a0 13 XOR gmul a1 9 XOR gmul a2 14 XOR gmul a3 11]
      in state[i + 12 := gmul a0 11 XOR gmul a1 13 XOR gmul a2 9 XOR gmul a3 14])"

definition inv_mix_columns :: "bytes \<Rightarrow> bytes" where
  "inv_mix_columns state = fold inv_mix_column [0..<4] state"

definition add_key_column :: "u32 list \<Rightarrow> nat \<Rightarrow> bytes \<Rightarrow> bytes" where
  "add_key_column key i state =
     (let state = state[i := state ! i XOR ucast (drop_bit 24 (key ! i) AND 0xFF)];
          state = state[i + 4 := state ! (i + 4) XOR ucast (drop_bit 16 (key ! i) AND 0xFF)];
          state = state[i + 8 := state ! (i + 8) XOR ucast (drop_bit 8 (key ! i) AND 0xFF)]
      in state[i + 12 := state ! (i + 12) XOR ucast (key ! i AND 0xFF)])"

definition add_round_key :: "u32 list \<Rightarrow> bytes \<Rightarrow> bytes" where
  "add_round_key key state = fold (add_key_column key) [0..<4] state"

section \<open>Single blocks\<close>

definition encrypt_round :: "aes256_ctx \<Rightarrow> nat \<Rightarrow> bytes \<Rightarrow> bytes" where
  "encrypt_round ctx round state =
     add_round_key (drop (round * 4) (round_keys ctx))
       (mix_columns (shift_rows (sub_bytes state)))"

definition aes256_encrypt_block :: "aes256_ctx \<Rightarrow> bytes \<Rightarrow> bytes" where
  "aes256_encrypt_block ctx inp =
     (let state = take 16 inp;
          state = add_round_key (round_keys ctx) state;
          state = fold (encrypt_round ctx) [1..<nr ctx] state;
          state = sub_bytes state;
          state = shift_rows state
      in add_round_key (drop (nr ctx * 4) (round_keys ctx)) state)"

definition decrypt_round :: "aes256_ctx \<Rightarrow> nat \<Rightarrow> bytes \<Rightarrow> bytes" where
  "decrypt_round ctx round state =
     inv_mix_columns (add_round_key (drop (round * 4) (round_keys ctx))
       (inv_sub_bytes (inv_shift_rows state)))"

definition aes256_decrypt_block :: "aes256_ctx \<Rightarrow> bytes \<Rightarrow> bytes" where
  "aes256_decrypt_block ctx inp =
     (let state = take 16 inp;
          state = add_round_key (drop (nr ctx * 4) (round_keys ctx)) state;
          state = fold (decrypt_round ctx) (rev [1..<nr ctx]) state;
          state = inv_shift_rows state;
          state = inv_sub_bytes state
      in add_round_key (round_keys ctx) state)"


section \<open>Field multiplication is linear\<close>

lemma and_0x80_iff: "(a AND 0x80 = 0) \<longleftrightarrow> \<not> bit a 7" for a :: u8
proof -
  have "(0x80 :: u8) = 2 ^ 7" by simp
  then show ?thesis by (metis and_exp_eq_0_iff_not_bit)
qed

lemma gmul_double_xor: "gmul_double (a XOR b) = gmul_double a XOR gmul_double b"
  by (auto simp: gmul_double_def Let_def and_0x80_iff bit_xor_iff push_bit_xor ac_simps)

lemma gmul_loop_xor:
  "gmul_loop n (a XOR a') b (p XOR p') = gmul_loop n a b p XOR gmul_loop n a' b p'"
proof (induction n arbitrary: a a' b p p')
  case 0
  show ?case by simp
next
  case (Suc n)
  show ?case
  proof (cases "b AND 1 = 0")
    case True
    then show ?thesis by (simp add: Let_def gmul_double_xor Suc.IH)
  next
    case False
    have "(p XOR p') XOR (a XOR a') = (p XOR a) XOR (p' XOR a')"
      by (simp add: xor.assoc xor.left_commute)
    with False show ?thesis by (simp add: Let_def gmul_double_xor Suc.IH)
  qed
qed

lemma gmul_xor: "gmul (x XOR y) c = gmul x c XOR gmul y c"
  using gmul_loop_xor [of 8 x y c 0 0] by (simp add: gmul_def)

text \<open>
  A byte is the exclusive or of its bits, so two additive functions that agree on the eight powers
  of two agree everywhere.
\<close>

definition bit_part :: "u8 \<Rightarrow> nat \<Rightarrow> u8" where
  "bit_part x i = (if bit x i then push_bit i 1 else 0)"

lemma byte_xor_bits:
  "x = bit_part x 0 XOR bit_part x 1 XOR bit_part x 2 XOR bit_part x 3 XOR
       bit_part x 4 XOR bit_part x 5 XOR bit_part x 6 XOR bit_part x 7"
proof (rule bit_eqI)
  fix n
  assume "possible_bit TYPE(u8) n"
  then have "n < 8" by (simp add: possible_bit_def)
  then have "n = 0 \<or> n = 1 \<or> n = 2 \<or> n = 3 \<or> n = 4 \<or> n = 5 \<or> n = 6 \<or> n = 7" by arith
  then show "bit x n = bit (bit_part x 0 XOR bit_part x 1 XOR bit_part x 2 XOR bit_part x 3 XOR
       bit_part x 4 XOR bit_part x 5 XOR bit_part x 6 XOR bit_part x 7) n"
    by (elim disjE) (simp_all add: bit_part_def bit_xor_iff bit_push_bit_iff bit_1_iff possible_bit_def)
qed

lemma additive_zero:
  assumes "\<And>x y. f (x XOR y) = f x XOR f y"
  shows "f 0 = (0 :: u8)"
  using assms [of 0 0] by simp

lemma byte_linear_eq:
  fixes f g :: "u8 \<Rightarrow> u8"
  assumes f: "\<And>x y. f (x XOR y) = f x XOR f y"
    and g: "\<And>x y. g (x XOR y) = g x XOR g y"
    and basis: "\<forall>i \<in> {0, 1, 2, 3, 4, 5, 6, 7 :: nat}. f (push_bit i 1) = g (push_bit i 1)"
  shows "f x = g x"
proof -
  have z: "f 0 = 0" "g 0 = 0" using f g additive_zero by blast+
  have part: "f (bit_part x i) = g (bit_part x i)" if "i \<in> {0, 1, 2, 3, 4, 5, 6, 7}" for i
    using that basis z by (auto simp: bit_part_def)
  show ?thesis
    by (subst (1 2) byte_xor_bits [of x]) (simp only: f g part insertI1 insertI2 simp_thms)
qed

section \<open>Every transformation has its inverse\<close>

lemma length_sbox [simp]: "length sbox = 256" and length_inv_sbox [simp]: "length inv_sbox = 256"
  by (simp_all add: sbox_def inv_sbox_def)

lemma inv_sbox_table: "map (\<lambda>s. inv_sbox ! unat s) sbox = map of_nat [0..<256]"
  by code_simp

lemma inv_sbox_sbox [simp]: "inv_sbox ! unat (sbox ! unat b) = b"
proof -
  have lt: "unat b < 256" using unsigned_less [of b] by simp
  have "inv_sbox ! unat (sbox ! unat b) = map (\<lambda>s. inv_sbox ! unat s) sbox ! unat b"
    using lt by simp
  also have "\<dots> = of_nat (unat b)" unfolding inv_sbox_table using lt by simp
  finally show ?thesis by simp
qed

lemma inv_sub_bytes_sub_bytes [simp]: "inv_sub_bytes (sub_bytes state) = state"
  by (simp add: inv_sub_bytes_def sub_bytes_def comp_def)

lemma length_16_iff:
  "length xs = 16 \<longleftrightarrow> (\<exists>a b c d e f g h i j k l m n p q. xs = [a,b,c,d,e,f,g,h,i,j,k,l,m,n,p,q])"
  by (auto simp: length_Suc_conv eval_nat_numeral)

lemma length_shift_rows [simp]: "length (shift_rows state) = length state"
  by (simp add: shift_rows_def Let_def)

lemma inv_shift_rows_shift_rows [simp]:
  "length state = 16 \<Longrightarrow> inv_shift_rows (shift_rows state) = state"
  unfolding length_16_iff by (auto simp: shift_rows_def inv_shift_rows_def Let_def)

lemma length_sub_bytes [simp]: "length (sub_bytes state) = length state"
  by (simp add: sub_bytes_def)


text \<open>The columns of the product of the two circulant matrices, on one byte.\<close>

lemma unmix_diag:
  "gmul (gmul x 2) 14 XOR gmul x 11 XOR gmul x 13 XOR gmul (gmul x 3) 9 = x"
proof (rule byte_linear_eq [where x = x and g = "\<lambda>x. x" and
      f = "\<lambda>x. gmul (gmul x 2) 14 XOR gmul x 11 XOR gmul x 13 XOR gmul (gmul x 3) 9"])
  show "\<forall>i \<in> {0, 1, 2, 3, 4, 5, 6, 7 :: nat}.
      (\<lambda>x. gmul (gmul x 2) 14 XOR gmul x 11 XOR gmul x 13 XOR gmul (gmul x 3) 9) (push_bit i 1)
      = (\<lambda>x. x) (push_bit i 1)"
    by code_simp
qed (simp_all add: gmul_xor ac_simps)

lemma unmix_off1:
  "gmul (gmul x 3) 14 XOR gmul (gmul x 2) 11 XOR gmul x 13 XOR gmul x 9 = 0"
proof (rule byte_linear_eq [where x = x and g = "\<lambda>x. 0" and
      f = "\<lambda>x. gmul (gmul x 3) 14 XOR gmul (gmul x 2) 11 XOR gmul x 13 XOR gmul x 9"])
  show "\<forall>i \<in> {0, 1, 2, 3, 4, 5, 6, 7 :: nat}.
      (\<lambda>x. gmul (gmul x 3) 14 XOR gmul (gmul x 2) 11 XOR gmul x 13 XOR gmul x 9) (push_bit i 1)
      = (\<lambda>x. 0) (push_bit i 1)"
    by code_simp
qed (simp_all add: gmul_xor ac_simps)

lemma unmix_off2:
  "gmul x 14 XOR gmul (gmul x 3) 11 XOR gmul (gmul x 2) 13 XOR gmul x 9 = 0"
proof (rule byte_linear_eq [where x = x and g = "\<lambda>x. 0" and
      f = "\<lambda>x. gmul x 14 XOR gmul (gmul x 3) 11 XOR gmul (gmul x 2) 13 XOR gmul x 9"])
  show "\<forall>i \<in> {0, 1, 2, 3, 4, 5, 6, 7 :: nat}.
      (\<lambda>x. gmul x 14 XOR gmul (gmul x 3) 11 XOR gmul (gmul x 2) 13 XOR gmul x 9) (push_bit i 1)
      = (\<lambda>x. 0) (push_bit i 1)"
    by code_simp
qed (simp_all add: gmul_xor ac_simps)

lemma unmix_off3:
  "gmul x 14 XOR gmul x 11 XOR gmul (gmul x 3) 13 XOR gmul (gmul x 2) 9 = 0"
proof (rule byte_linear_eq [where x = x and g = "\<lambda>x. 0" and
      f = "\<lambda>x. gmul x 14 XOR gmul x 11 XOR gmul (gmul x 3) 13 XOR gmul (gmul x 2) 9"])
  show "\<forall>i \<in> {0, 1, 2, 3, 4, 5, 6, 7 :: nat}.
      (\<lambda>x. gmul x 14 XOR gmul x 11 XOR gmul (gmul x 3) 13 XOR gmul (gmul x 2) 9) (push_bit i 1)
      = (\<lambda>x. 0) (push_bit i 1)"
    by code_simp
qed (simp_all add: gmul_xor ac_simps)

lemma xor_regroup4:
  "(a1 XOR b1 XOR c1 XOR d1) XOR (a2 XOR b2 XOR c2 XOR d2) XOR (a3 XOR b3 XOR c3 XOR d3) XOR
     (a4 XOR b4 XOR c4 XOR d4) =
   (a1 XOR a2 XOR a3 XOR a4) XOR (b1 XOR b2 XOR b3 XOR b4) XOR (c1 XOR c2 XOR c3 XOR c4) XOR
     (d1 XOR d2 XOR d3 XOR d4)" for a1 :: u8
  by (simp only: ac_simps)

lemma unmix_column:
  "gmul (gmul a0 2 XOR gmul a1 3 XOR a2 XOR a3) 14 XOR
   gmul (a0 XOR gmul a1 2 XOR gmul a2 3 XOR a3) 11 XOR
   gmul (a0 XOR a1 XOR gmul a2 2 XOR gmul a3 3) 13 XOR
   gmul (gmul a0 3 XOR a1 XOR a2 XOR gmul a3 2) 9 = a0"
  unfolding gmul_xor xor_regroup4 by (simp only: unmix_diag unmix_off1 unmix_off2 unmix_off3) simp


lemma length_mix_columns [simp]: "length (mix_columns state) = length state"
  by (simp add: mix_columns_def mix_column_def Let_def upt_rec)

lemma inv_mix_column_mix_column:
  assumes "i < 4" and "length state = 16"
  shows "inv_mix_column i (mix_column i state) = state"
proof (rule nth_equalityI)
  fix k
  assume k: "k < length (inv_mix_column i (mix_column i state))"
  have rot: "gmul (gmul a0 2 XOR gmul a1 3 XOR a2 XOR a3) 9 XOR
     gmul (a0 XOR gmul a1 2 XOR gmul a2 3 XOR a3) 14 XOR
     gmul (a0 XOR a1 XOR gmul a2 2 XOR gmul a3 3) 11 XOR
     gmul (gmul a0 3 XOR a1 XOR a2 XOR gmul a3 2) 13 = a1" for a0 a1 a2 a3
    using unmix_column [of a1 a2 a3 a0] by (simp only: ac_simps)
  have rot2: "gmul (gmul a0 2 XOR gmul a1 3 XOR a2 XOR a3) 13 XOR
     gmul (a0 XOR gmul a1 2 XOR gmul a2 3 XOR a3) 9 XOR
     gmul (a0 XOR a1 XOR gmul a2 2 XOR gmul a3 3) 14 XOR
     gmul (gmul a0 3 XOR a1 XOR a2 XOR gmul a3 2) 11 = a2" for a0 a1 a2 a3
    using unmix_column [of a2 a3 a0 a1] by (simp only: ac_simps)
  have rot3: "gmul (gmul a0 2 XOR gmul a1 3 XOR a2 XOR a3) 11 XOR
     gmul (a0 XOR gmul a1 2 XOR gmul a2 3 XOR a3) 13 XOR
     gmul (a0 XOR a1 XOR gmul a2 2 XOR gmul a3 3) 9 XOR
     gmul (gmul a0 3 XOR a1 XOR a2 XOR gmul a3 2) 14 = a3" for a0 a1 a2 a3
    using unmix_column [of a3 a0 a1 a2] by (simp only: ac_simps)
  show "inv_mix_column i (mix_column i state) ! k = state ! k"
    using assms k unfolding inv_mix_column_def mix_column_def Let_def
    by (simp add: nth_list_update unmix_column rot rot2 rot3)
qed (use assms in \<open>simp add: inv_mix_column_def mix_column_def Let_def\<close>)

lemma length_mix_column [simp]:
  "length (mix_column i state) = length state" "length (inv_mix_column i state) = length state"
  by (simp_all add: mix_column_def inv_mix_column_def Let_def)

text \<open>Different columns touch different bytes, so the column steps commute.\<close>

lemma mix_column_commute:
  assumes "i < 4" "j < 4" "i \<noteq> j" "length state = 16"
  shows "inv_mix_column i (mix_column j state) = mix_column j (inv_mix_column i state)"
proof -
  have ne: "i + 4 * a \<noteq> j + 4 * b" for a b using assms(1-3) by arith
  note nes = ne [of 0 0] ne [of 0 1] ne [of 0 2] ne [of 0 3] ne [of 1 0] ne [of 1 1] ne [of 1 2]
    ne [of 1 3] ne [of 2 0] ne [of 2 1] ne [of 2 2] ne [of 2 3] ne [of 3 0] ne [of 3 1]
    ne [of 3 2] ne [of 3 3]
  show ?thesis
    using nes nes [symmetric] assms(4) unfolding inv_mix_column_def mix_column_def Let_def
    by (simp add: list_update_swap)
qed

lemma inv_mix_columns_mix_columns [simp]:
  assumes "length state = 16"
  shows "inv_mix_columns (mix_columns state) = state"
proof -
  have "fold inv_mix_column [0, 1, 2, 3] (fold mix_column [0, 1, 2, 3] state) = state"
    using assms by (simp add: mix_column_commute inv_mix_column_mix_column)
  then show ?thesis
    by (simp add: inv_mix_columns_def mix_columns_def upt_rec eval_nat_numeral)
qed

lemma add_round_key_twice [simp]:
  "length state = 16 \<Longrightarrow> add_round_key key (add_round_key key state) = state"
  unfolding length_16_iff by (auto simp: add_round_key_def add_key_column_def Let_def upt_rec xor.assoc)

lemma length_add_round_key [simp]: "length (add_round_key key state) = length state"
  by (simp add: add_round_key_def add_key_column_def Let_def upt_rec)


section \<open>Decryption inverts encryption\<close>

lemma decrypt_round_encrypt_round:
  assumes "length state = 16"
  shows "inv_sub_bytes (inv_shift_rows (shift_rows (sub_bytes state))) = state"
    and "inv_mix_columns (add_round_key k (add_round_key k (mix_columns state))) = state"
  using assms by simp_all

lemma length_encrypt_round [simp]: "length (encrypt_round ctx r state) = length state"
  by (simp add: encrypt_round_def)

lemma length_fold_encrypt [simp]: "length (fold (encrypt_round ctx) rs state) = length state"
  by (induction rs arbitrary: state) auto

text \<open>
  The decryption rounds run in the opposite order and undo, from the outside in, the key addition
  and column mixing of a round and the row shift and substitution of the round after it.
\<close>

lemma fold_decrypt_encrypt:
  assumes "length state = 16"
  shows "fold (decrypt_round ctx) (rev rs)
           (shift_rows (sub_bytes (fold (encrypt_round ctx) rs state))) = shift_rows (sub_bytes state)"
  using assms
proof (induction rs arbitrary: state rule: rev_induct)
  case Nil
  then show ?case by simp
next
  case (snoc r rs)
  let ?s = "fold (encrypt_round ctx) rs state"
  have "decrypt_round ctx r (shift_rows (sub_bytes (encrypt_round ctx r ?s))) = shift_rows (sub_bytes ?s)"
    using snoc.prems by (simp add: decrypt_round_def encrypt_round_def)
  with snoc show ?case by simp
qed

lemma decrypt_encrypt_block:
  assumes "length b = 16"
  shows "aes256_decrypt_block ctx (aes256_encrypt_block ctx b) = b"
  using assms by (simp add: aes256_decrypt_block_def aes256_encrypt_block_def fold_decrypt_encrypt Let_def)

lemma length_encrypt_block [simp]:
  "length b = 16 \<Longrightarrow> length (aes256_encrypt_block ctx b) = 16"
  by (simp add: aes256_encrypt_block_def Let_def)

section \<open>Block modes\<close>

text \<open>
  The loops of the CBC and CTR functions, over the block function they call. \<open>None\<close> is an access
  outside the caller's buffers.
\<close>

definition xor_bytes :: "bytes \<Rightarrow> bytes \<Rightarrow> bytes" where
  "xor_bytes xs ys = map2 (XOR) xs ys"

function cbc_encrypt_loop ::
    "(bytes \<Rightarrow> bytes) \<Rightarrow> bytes \<Rightarrow> nat \<Rightarrow> nat \<Rightarrow> bytes \<Rightarrow> bytes \<Rightarrow> bytes option" where
  "cbc_encrypt_loop enc inp len i prev out =
     (if i < len then
        if i + 16 \<le> length inp \<and> i + 16 \<le> length out then
          let block = xor_bytes (segment i 16 inp) prev;
              out = put_at i (enc block) out;
              prev = segment i 16 out
          in cbc_encrypt_loop enc inp len (i + 16) prev out
        else None
      else Some out)"
  by pat_completeness auto
termination
  by (relation "measure (\<lambda>(enc, inp, len, i, prev, out). len - i)") auto

function cbc_decrypt_loop ::
    "(bytes \<Rightarrow> bytes) \<Rightarrow> bytes \<Rightarrow> nat \<Rightarrow> nat \<Rightarrow> bytes \<Rightarrow> bytes \<Rightarrow> bytes option" where
  "cbc_decrypt_loop dec inp len i prev out =
     (if i < len then
        if i + 16 \<le> length inp \<and> i + 16 \<le> length out then
          let block = dec (segment i 16 inp);
              out = put_at i (xor_bytes block prev) out;
              prev = segment i 16 inp
          in cbc_decrypt_loop dec inp len (i + 16) prev out
        else None
      else Some out)"
  by pat_completeness auto
termination
  by (relation "measure (\<lambda>(dec, inp, len, i, prev, out). len - i)") auto

declare cbc_encrypt_loop.simps [simp del] cbc_decrypt_loop.simps [simp del]

definition aes256_cbc_encrypt :: "aes256_ctx \<Rightarrow> bytes \<Rightarrow> bytes \<Rightarrow> bytes \<Rightarrow> nat \<Rightarrow> bytes option" where
  "aes256_cbc_encrypt ctx iv inp out len =
     cbc_encrypt_loop (aes256_encrypt_block ctx) inp len 0 (take 16 iv) out"

definition aes256_cbc_decrypt :: "aes256_ctx \<Rightarrow> bytes \<Rightarrow> bytes \<Rightarrow> bytes \<Rightarrow> nat \<Rightarrow> bytes option" where
  "aes256_cbc_decrypt ctx iv inp out len =
     cbc_decrypt_loop (aes256_decrypt_block ctx) inp len 0 (take 16 iv) out"

text \<open>The counter is incremented from its last byte, a carry moving to the byte before.\<close>

fun ctr_incr_from :: "nat \<Rightarrow> bytes \<Rightarrow> bytes" where
  "ctr_incr_from 0 counter = counter"
| "ctr_incr_from (Suc i) counter =
     (let counter = counter[i := counter ! i + 1]
      in if counter ! i \<noteq> 0 then counter else ctr_incr_from i counter)"

definition ctr_incr :: "bytes \<Rightarrow> bytes" where
  "ctr_incr counter = ctr_incr_from AES256_BLOCK_SIZE counter"

function ctr_loop :: "(bytes \<Rightarrow> bytes) \<Rightarrow> bytes \<Rightarrow> nat \<Rightarrow> nat \<Rightarrow> bytes \<Rightarrow> bytes \<Rightarrow> bytes option" where
  "ctr_loop enc inp len offset counter out =
     (if offset < len then
        let keystream = enc counter;
            n = (if len - offset < 16 then len - offset else 16)
        in if offset + n \<le> length inp \<and> offset + n \<le> length out then
             ctr_loop enc inp len (offset + n) (ctr_incr counter)
               (put_at offset (xor_bytes (segment offset n inp) (take n keystream)) out)
           else None
      else Some out)"
  by pat_completeness auto
termination
  by (relation "measure (\<lambda>(enc, inp, len, offset, counter, out). len - offset)")
    (auto simp: Let_def split: if_splits)

declare ctr_loop.simps [simp del]

definition aes256_ctr :: "aes256_ctx \<Rightarrow> bytes \<Rightarrow> bytes \<Rightarrow> bytes \<Rightarrow> nat \<Rightarrow> bytes option" where
  "aes256_ctr ctx nonce inp out len =
     ctr_loop (aes256_encrypt_block ctx) inp len 0 (take 16 nonce) out"


section \<open>The modes over the block cipher interface\<close>

text \<open>Reference definitions of the CBC mode on lists of blocks.\<close>

fun cbc_enc_blocks :: "(bytes \<Rightarrow> bytes) \<Rightarrow> bytes \<Rightarrow> bytes list \<Rightarrow> bytes list" where
  "cbc_enc_blocks enc prev [] = []"
| "cbc_enc_blocks enc prev (b # bs) =
     (let c = enc (xor_bytes b prev) in c # cbc_enc_blocks enc c bs)"

fun cbc_dec_blocks :: "(bytes \<Rightarrow> bytes) \<Rightarrow> bytes \<Rightarrow> bytes list \<Rightarrow> bytes list" where
  "cbc_dec_blocks dec prev [] = []"
| "cbc_dec_blocks dec prev (c # cs) = xor_bytes (dec c) prev # cbc_dec_blocks dec c cs"

lemma length_xor_bytes [simp]: "length (xor_bytes xs ys) = min (length xs) (length ys)"
  by (simp add: xor_bytes_def)

lemma nth_xor_bytes: "k < length xs \<Longrightarrow> k < length ys \<Longrightarrow> xor_bytes xs ys ! k = xs ! k XOR ys ! k"
  by (simp add: xor_bytes_def)

lemma xor_bytes_cancel [simp]:
  "length xs \<le> length ys \<Longrightarrow> xor_bytes (xor_bytes xs ys) ys = xs"
  by (rule nth_equalityI) (simp_all add: nth_xor_bytes xor.assoc)

lemma length_concat_const: "\<forall>b \<in> set bs. length b = n \<Longrightarrow> length (concat bs) = n * length bs"
  by (induction bs) auto

lemma length_ctr_incr_from [simp]: "length (ctr_incr_from i c) = length c"
  by (induction i arbitrary: c) (auto simp: Let_def)

lemma length_ctr_incr [simp]: "length (ctr_incr c) = length c"
  by (simp add: ctr_incr_def)

locale block_cipher =
  fixes enc :: "bytes \<Rightarrow> bytes" and dec :: "bytes \<Rightarrow> bytes"
  assumes enc_length: "length b = 16 \<Longrightarrow> length (enc b) = 16"
    and dec_enc: "length b = 16 \<Longrightarrow> dec (enc b) = b"
begin

lemma enc_blocks_lengths:
  "\<forall>b \<in> set bs. length b = 16 \<Longrightarrow> length prev = 16 \<Longrightarrow>
     \<forall>c \<in> set (cbc_enc_blocks enc prev bs). length c = 16"
proof (induction bs arbitrary: prev)
  case (Cons b bs)
  let ?c = "enc (xor_bytes b prev)"
  have c: "length ?c = 16" using Cons.prems by (simp add: enc_length)
  then have "\<forall>c \<in> set (cbc_enc_blocks enc ?c bs). length c = 16"
    using Cons.prems by (intro Cons.IH) simp_all
  with c show ?case by (simp add: Let_def)
qed simp

lemma length_enc_blocks: "length (cbc_enc_blocks enc prev bs) = length bs"
  by (induction bs arbitrary: prev) (auto simp: Let_def)

lemma dec_blocks_enc_blocks:
  "\<forall>b \<in> set bs. length b = 16 \<Longrightarrow> length prev = 16 \<Longrightarrow>
     cbc_dec_blocks dec prev (cbc_enc_blocks enc prev bs) = bs"
  by (induction bs arbitrary: prev) (auto simp: Let_def enc_length dec_enc)

lemma encrypt_loop_blocks:
  "i \<le> len \<Longrightarrow> 16 dvd len - i \<Longrightarrow> len \<le> length inp \<Longrightarrow> len \<le> length out \<Longrightarrow> length prev = 16 \<Longrightarrow>
     cbc_encrypt_loop enc inp len i prev out =
       Some (put_at i (concat (cbc_enc_blocks enc prev (chunks 16 (segment i (len - i) inp)))) out)"
proof (induction "len - i" arbitrary: i prev out rule: less_induct)
  case less
  show ?case
  proof (cases "i < len")
    case False
    with less.prems show ?thesis by (simp add: cbc_encrypt_loop.simps segment_def)
  next
    case True
    then have ge: "i + 16 \<le> len" using less.prems(2) by (auto dest: dvd_imp_le)
    define b c where "b = segment i 16 inp" and "c = enc (xor_bytes b prev)"
    define rest where "rest = segment (i + 16) (len - (i + 16)) inp"
    have len: "length b = 16" "length c = 16"
      using ge less.prems by (simp_all add: b_def c_def enc_length)
    have dvd: "16 dvd len - (i + 16)" using less.prems(2) ge by (rule dvd_next)
    have chunk: "chunks 16 (segment i (len - i) inp) = b # chunks 16 rest"
      using ge less.prems len by (simp add: segment_step [of i 16 len] b_def rest_def chunks_append)
    have bs: "\<forall>x \<in> set (chunks 16 rest). length x = 16"
      using dvd less.prems ge by (auto simp: rest_def intro!: chunks_lengths)
    have size: "length (concat (cbc_enc_blocks enc c (chunks 16 rest))) = len - (i + 16)"
      using dvd less.prems ge len enc_blocks_lengths [OF bs len(2)]
      by (simp add: length_concat_const [of _ 16] length_enc_blocks length_chunks rest_def)
    have prev: "segment i 16 (put_at i c out) = c"
      using len ge less.prems segment_put_at_same [of i c out] by simp
    have "cbc_encrypt_loop enc inp len i prev out =
        cbc_encrypt_loop enc inp len (i + 16) c (put_at i c out)"
      using True ge less.prems
      by (subst cbc_encrypt_loop.simps) (simp add: prev flip: b_def c_def)
    also have "\<dots> = Some (put_at (i + 16) (concat (cbc_enc_blocks enc c (chunks 16 rest))) (put_at i c out))"
      unfolding rest_def using True ge less.prems len dvd by (intro less.hyps) simp_all
    also have "\<dots> = Some (put_at i (c @ concat (cbc_enc_blocks enc c (chunks 16 rest))) out)"
      using put_at_append [of i c _ out] len size less.prems ge by simp
    finally show ?thesis unfolding chunk by (simp add: Let_def c_def)
  qed
qed

lemma decrypt_loop_blocks:
  "i \<le> len \<Longrightarrow> 16 dvd len - i \<Longrightarrow> len \<le> length inp \<Longrightarrow> len \<le> length out \<Longrightarrow> length prev = 16 \<Longrightarrow>
     \<forall>x \<in> set (chunks 16 (segment i (len - i) inp)). length (dec x) = 16 \<Longrightarrow>
     cbc_decrypt_loop dec inp len i prev out =
       Some (put_at i (concat (cbc_dec_blocks dec prev (chunks 16 (segment i (len - i) inp)))) out)"
proof (induction "len - i" arbitrary: i prev out rule: less_induct)
  case less
  show ?case
  proof (cases "i < len")
    case False
    with less.prems show ?thesis by (simp add: cbc_decrypt_loop.simps segment_def)
  next
    case True
    then have ge: "i + 16 \<le> len" using less.prems(2) by (auto dest: dvd_imp_le)
    define b c where "b = segment i 16 inp" and "c = xor_bytes (dec b) prev"
    define rest where "rest = segment (i + 16) (len - (i + 16)) inp"
    have lb: "length b = 16" using ge less.prems by (simp add: b_def)
    have dvd: "16 dvd len - (i + 16)" using less.prems(2) ge by (rule dvd_next)
    have chunk: "chunks 16 (segment i (len - i) inp) = b # chunks 16 rest"
      using ge less.prems lb by (simp add: segment_step [of i 16 len] b_def rest_def chunks_append)
    have len: "length c = 16" using less.prems(5,6) chunk by (simp add: c_def)
    have bs: "\<forall>x \<in> set (chunks 16 rest). length x = 16"
      using dvd less.prems ge by (auto simp: rest_def intro!: chunks_lengths)
    have ds: "\<forall>x \<in> set (chunks 16 rest). length (dec x) = 16"
      using less.prems(6) chunk by simp
    have dl: "length p = 16 \<Longrightarrow> \<forall>x \<in> set cs. length x = 16 \<Longrightarrow> \<forall>x \<in> set cs. length (dec x) = 16 \<Longrightarrow>
        length (concat (cbc_dec_blocks dec p cs)) = 16 * length cs" for p cs
      by (induction cs arbitrary: p) auto
    have size: "length (concat (cbc_dec_blocks dec b (chunks 16 rest))) = len - (i + 16)"
      using dl [OF lb bs ds] dvd less.prems ge by (simp add: length_chunks rest_def)
    have "cbc_decrypt_loop dec inp len i prev out =
        cbc_decrypt_loop dec inp len (i + 16) b (put_at i c out)"
      using True ge less.prems
      by (subst cbc_decrypt_loop.simps) (simp flip: b_def c_def)
    also have "\<dots> = Some (put_at (i + 16) (concat (cbc_dec_blocks dec b (chunks 16 rest))) (put_at i c out))"
      unfolding rest_def using True ge less.prems len lb dvd ds [unfolded rest_def]
      by (intro less.hyps) simp_all
    also have "\<dots> = Some (put_at i (c @ concat (cbc_dec_blocks dec b (chunks 16 rest))) out)"
      using put_at_append [of i c _ out] len size less.prems ge by simp
    finally show ?thesis unfolding chunk by (simp add: Let_def c_def)
  qed
qed

text \<open>Decrypting what the encryption loop produced gives the plain text back.\<close>

lemma cbc_roundtrip:
  assumes iv: "length iv = 16" and dvd: "16 dvd len"
    and inp: "length inp = len" and out: "length out = len" "length out' = len"
  shows "\<exists>c. cbc_encrypt_loop enc inp len 0 iv out = Some c \<and> length c = len \<and>
             cbc_decrypt_loop dec c len 0 iv out' = Some inp"
proof -
  define bs where "bs = chunks 16 inp"
  define c where "c = concat (cbc_enc_blocks enc iv bs)"
  have lens: "\<forall>b \<in> set bs. length b = 16"
    using chunks_lengths [of 16 inp] dvd inp by (auto simp: bs_def)
  note clens = enc_blocks_lengths [OF lens iv]
  have lc: "length c = len"
    unfolding c_def length_concat_const [OF clens] using dvd inp
    by (simp add: length_enc_blocks bs_def length_chunks)
  have cs: "chunks 16 c = cbc_enc_blocks enc iv bs"
    using clens by (simp add: c_def chunks_concat)
  have decs: "\<forall>x \<in> set (cbc_enc_blocks enc p xs). length (dec x) = 16"
    if "length p = 16" "\<forall>x \<in> set xs. length x = 16" for p xs
    using that
  proof (induction xs arbitrary: p)
    case (Cons b bs)
    let ?c = "enc (xor_bytes b p)"
    have c: "length ?c = 16" "length (dec ?c) = 16" using Cons.prems by (simp_all add: enc_length dec_enc)
    then have "\<forall>x \<in> set (cbc_enc_blocks enc ?c bs). length (dec x) = 16"
      using Cons.prems by (intro Cons.IH) simp_all
    with c show ?case by (simp add: Let_def)
  qed simp
  have e: "cbc_encrypt_loop enc inp len 0 iv out = Some c"
    using encrypt_loop_blocks [of 0 len inp out iv] iv dvd inp out lc
    by (simp add: segment_def put_at_def c_def bs_def)
  have "cbc_decrypt_loop dec c len 0 iv out' =
      Some (put_at 0 (concat (cbc_dec_blocks dec iv (chunks 16 c))) out')"
    using decrypt_loop_blocks [of 0 len c out' iv] iv dvd lc out decs [OF iv lens] cs
    by (simp add: segment_def)
  also have "\<dots> = Some inp"
    unfolding cs dec_blocks_enc_blocks [OF lens iv] using out inp by (simp add: put_at_def bs_def)
  finally show ?thesis using e lc by blast
qed

text \<open>Every byte of the CTR output is the input byte masked with its byte of the key stream.\<close>

lemma ctr_loop_bytes:
  "offset \<le> len \<Longrightarrow> len \<le> length inp \<Longrightarrow> len \<le> length out \<Longrightarrow> length counter = 16 \<Longrightarrow>
     \<exists>out'. ctr_loop enc inp len offset counter out = Some out' \<and> length out' = length out \<and>
       (\<forall>k < length out. out' ! k =
          (if offset \<le> k \<and> k < len
           then inp ! k XOR enc ((ctr_incr ^^ ((k - offset) div 16)) counter) ! ((k - offset) mod 16)
           else out ! k))"
proof (induction "len - offset" arbitrary: offset counter out rule: less_induct)
  case less
  show ?case
  proof (cases "offset < len")
    case False
    with less.prems show ?thesis by (auto simp: ctr_loop.simps)
  next
    case True
    define n where "n = (if len - offset < 16 then len - offset else 16)"
    have n: "0 < n" "n \<le> 16" "offset + n \<le> len" using True by (auto simp: n_def)
    define ks where "ks = enc counter"
    define out1 where "out1 = put_at offset (xor_bytes (segment offset n inp) (take n ks)) out"
    have ks: "length ks = 16" using less.prems(4) by (simp add: ks_def enc_length)
    have lx: "length (xor_bytes (segment offset n inp) (take n ks)) = n"
      using n ks less.prems by simp
    have lo: "length out1 = length out" using lx n less.prems by (simp add: out1_def)
    have step: "ctr_loop enc inp len offset counter out =
        ctr_loop enc inp len (offset + n) (ctr_incr counter) out1"
      using True n less.prems
      by (subst ctr_loop.simps) (simp add: n_def [symmetric] ks_def [symmetric] out1_def Let_def)
    have o1: "out1 ! k = (if offset \<le> k \<and> k < offset + n then inp ! k XOR ks ! (k - offset) else out ! k)"
      if "k < length out" for k
      using that n ks less.prems lx
      by (auto simp: out1_def nth_put_at nth_xor_bytes nth_segment)
    have dec: "len - (offset + n) < len - offset" using n by simp
    obtain out' where out': "ctr_loop enc inp len (offset + n) (ctr_incr counter) out1 = Some out'"
      "length out' = length out1"
      "\<And>k. k < length out \<Longrightarrow> out' ! k = (if offset + n \<le> k \<and> k < len
         then inp ! k XOR enc ((ctr_incr ^^ ((k - (offset + n)) div 16)) (ctr_incr counter)) !
                ((k - (offset + n)) mod 16)
         else out1 ! k)"
      using less.hyps [OF dec, of out1 "ctr_incr counter"] n less.prems lo by auto
    have "out' ! k = (if offset \<le> k \<and> k < len
        then inp ! k XOR enc ((ctr_incr ^^ ((k - offset) div 16)) counter) ! ((k - offset) mod 16)
        else out ! k)" if k: "k < length out" for k
    proof (cases "offset + n \<le> k \<and> k < len")
      case True
      then have full: "n = 16" by (auto simp: n_def split: if_splits)
      obtain m where "k = offset + 16 + m" using True full le_Suc_ex by blast
      then have "(k - offset) div 16 = Suc ((k - (offset + n)) div 16)"
        "(k - offset) mod 16 = (k - (offset + n)) mod 16" by (simp_all add: full)
      with out'(3) [OF k] True show ?thesis by (simp add: funpow_Suc_right del: funpow.simps)
    next
      case False
      with out'(3) [OF k] o1 [OF k] n show ?thesis by (auto simp: ks_def n_def split: if_splits)
    qed
    with step out' lo show ?thesis by auto
  qed
qed

lemma ctr_involution:
  assumes "length inp = len" "length out = len" "length out' = len" "length counter = 16"
  shows "\<exists>c. ctr_loop enc inp len 0 counter out = Some c \<and> length c = len \<and>
             ctr_loop enc c len 0 counter out' = Some inp"
proof -
  obtain c where c: "ctr_loop enc inp len 0 counter out = Some c" "length c = len"
    "\<And>k. k < len \<Longrightarrow> c ! k = inp ! k XOR enc ((ctr_incr ^^ (k div 16)) counter) ! (k mod 16)"
    using ctr_loop_bytes [of 0 len inp out counter] assms by auto
  obtain d where d: "ctr_loop enc c len 0 counter out' = Some d" "length d = len"
    "\<And>k. k < len \<Longrightarrow> d ! k = c ! k XOR enc ((ctr_incr ^^ (k div 16)) counter) ! (k mod 16)"
    using ctr_loop_bytes [of 0 len c out' counter] assms c(2) by auto
  have "d = inp"
    by (rule nth_equalityI) (use c d assms in \<open>simp_all add: xor.assoc\<close>)
  with c d show ?thesis by blast
qed

end

interpretation aes: block_cipher "aes256_encrypt_block ctx" "aes256_decrypt_block ctx" for ctx
  by unfold_locales (simp_all add: decrypt_encrypt_block)


section \<open>The counter of the CTR mode\<close>

text \<open>A buffer read as an unsigned big-endian number.\<close>

definition be_value :: "bytes \<Rightarrow> nat" where
  "be_value bs = foldl (\<lambda>v b. v * 256 + unat b) 0 bs"

lemma be_value_snoc [simp]: "be_value (bs @ [b]) = be_value bs * 256 + unat b"
  by (simp add: be_value_def)

lemma be_value_Nil [simp]: "be_value [] = 0"
  by (simp add: be_value_def)

lemma be_value_bound: "be_value bs < 256 ^ length bs"
proof (induction bs rule: rev_induct)
  case (snoc b bs)
  have "unat b < 256" using unsigned_less [of b] by simp
  then have "be_value bs * 256 + unat b < (be_value bs + 1) * 256" by simp
  also have "\<dots> \<le> 256 ^ length bs * 256" using snoc by (intro mult_right_mono) simp_all
  finally show ?case by simp
qed simp

lemma ctr_incr_from_value:
  "i \<le> length c \<Longrightarrow>
     be_value (take i (ctr_incr_from i c)) = (be_value (take i c) + 1) mod 256 ^ i \<and>
     drop i (ctr_incr_from i c) = drop i c"
proof (induction i arbitrary: c)
  case 0
  show ?case by simp
next
  case (Suc i)
  define d where "d = c[i := c ! i + 1]"
  have i: "i < length c" "i < length d" using Suc.prems by (simp_all add: d_def)
  have tc: "take (Suc i) c = take i c @ [c ! i]" "take (Suc i) d = take i c @ [c ! i + 1]"
    using i by (simp_all add: take_Suc_conv_app_nth d_def)
  have dd: "drop (Suc i) d = drop (Suc i) c" by (simp add: d_def)
  show ?case
  proof (cases "c ! i + 1 = 0")
    case False
    then have u: "unat (c ! i + 1) = unat (c ! i) + 1"
      by (simp add: unatSuc add.commute)
    have "be_value (take (Suc i) d) = be_value (take (Suc i) c) + 1"
      unfolding tc by (simp add: u)
    moreover have "be_value (take (Suc i) d) < 256 ^ Suc i"
      using be_value_bound [of "take (Suc i) d"] i by simp
    ultimately have "be_value (take (Suc i) d) = (be_value (take (Suc i) c) + 1) mod 256 ^ Suc i"
      by simp
    with False i dd show ?thesis by (simp add: Let_def d_def [symmetric]) (simp add: d_def)
  next
    case True
    then have "c ! i = -1" by (simp add: eq_neg_iff_add_eq_0)
    moreover have "(-1 :: u8) = 255" by simp
    ultimately have u: "unat (c ! i) = 255" by simp
    have rec: "ctr_incr_from (Suc i) c = ctr_incr_from i d"
      using True i by (simp add: Let_def d_def)
    have IH: "be_value (take i (ctr_incr_from i d)) = (be_value (take i d) + 1) mod 256 ^ i"
      "drop i (ctr_incr_from i d) = drop i d"
      using Suc.IH [of d] i by auto
    have nth: "ctr_incr_from i d ! i = 0"
      using IH(2) i True by (metis Cons_nth_drop_Suc d_def length_ctr_incr_from list.inject nth_list_update_eq)
    have "drop (Suc i) (ctr_incr_from i d) = drop (Suc i) d"
      using IH(2) by (metis drop_Suc tl_drop)
    moreover have "be_value (take (Suc i) (ctr_incr_from i d)) = ((be_value (take i c) + 1) mod 256 ^ i) * 256"
      using i IH(1) nth by (simp add: take_Suc_conv_app_nth d_def)
    moreover have "\<dots> = (be_value (take (Suc i) c) + 1) mod 256 ^ Suc i"
      unfolding tc be_value_snoc u by (simp add: mod_mult_mult1 [symmetric] algebra_simps)
    ultimately show ?thesis by (simp only: rec dd)
  qed
qed

section \<open>PKCS\#7 padding\<close>

definition aes256_pad_pkcs7 :: "bytes \<Rightarrow> u64 \<Rightarrow> u64 \<Rightarrow> (u64 \<times> bytes) option" where
  "aes256_pad_pkcs7 data len max_len =
     (let pad = 16 - (len mod 16)
      in if len + pad > max_len then Some (0, data)
         else if unat len + unat pad \<le> length data
           then Some (len + pad, put_at (unat len) (replicate (unat pad) (ucast pad)) data)
           else None)"

definition aes256_unpad_pkcs7 :: "bytes \<Rightarrow> u64 \<Rightarrow> u64 option" where
  "aes256_unpad_pkcs7 data len =
     (if len = 0 \<or> len mod 16 \<noteq> 0 then Some 0
      else if unat len \<le> length data then
        (let pad = data ! unat (len - 1)
         in if pad = 0 \<or> pad > 16 then Some 0
            else if \<exists>i \<in> set [unat (len - ucast pad)..<unat len]. data ! i \<noteq> pad then Some 0
            else Some (len - ucast pad))
      else None)"


lemma pad_size:
  fixes len :: u64
  shows "unat (16 - len mod 16) = 16 - unat len mod 16"
    and "ucast (ucast (16 - len mod 16) :: u8) = 16 - len mod 16"
    and "unat (ucast (16 - len mod 16) :: u8) = 16 - unat len mod 16"
proof -
  have m: "unat (len mod 16) = unat len mod 16" by (simp add: unat_mod)
  have lt: "unat len mod 16 < 16" by simp
  have "len mod 16 \<le> 16" unfolding word_le_nat_alt m by simp
  then show u: "unat (16 - len mod 16) = 16 - unat len mod 16"
    by (simp add: unat_sub m)
  then have "unat (16 - len mod 16) < 2 ^ 8" using lt by simp
  then show v: "unat (ucast (16 - len mod 16) :: u8) = 16 - unat len mod 16"
    using u by (simp add: unsigned_ucast_eq take_bit_nat_eq_self)
  show "ucast (ucast (16 - len mod 16) :: u8) = 16 - len mod 16"
    by (rule word_unat_eq_iff [THEN iffD2]) (simp add: unsigned_ucast_eq unsigned_take_bit_eq take_bit_nat_eq_self u)
qed


lemma unpad_pad:
  assumes len: "unat len + 16 < 2 ^ 64" and max: "unat max_len \<le> length data"
    and fits: "unat len + (16 - unat len mod 16) \<le> unat max_len"
  shows "\<exists>data'. aes256_pad_pkcs7 data len max_len = Some (len + (16 - len mod 16), data') \<and>
           take (unat len) data' = take (unat len) data \<and>
           aes256_unpad_pkcs7 data' (len + (16 - len mod 16)) = Some len"
proof -
  define p where "p = 16 - len mod 16"
  define np where "np = 16 - unat len mod 16"
  have np: "0 < np" "np \<le> 16" by (simp_all add: np_def)
  have p: "unat p = np" "ucast (ucast p :: u8) = p" "unat (ucast p :: u8) = np"
    using pad_size [of len] by (simp_all add: p_def np_def)
  have sum: "unat (len + p) = unat len + np"
    using len np p by (simp add: unat_add_lem [THEN iffD1])
  have le: "\<not> len + p > max_len"
    using fits by (simp add: word_less_nat_alt sum np_def)
  define data' where "data' = put_at (unat len) (replicate np (ucast p :: u8)) data"
  have pad: "aes256_pad_pkcs7 data len max_len = Some (len + p, data')"
    using le fits max by (simp add: aes256_pad_pkcs7_def Let_def p_def [symmetric] p data'_def np_def)
  have inb: "unat len + np \<le> length data" using fits max by (simp add: np_def)
  have nth: "data' ! k = ucast p" if "unat len \<le> k" "k < unat len + np" for k
    using that inb by (simp add: data'_def nth_put_at)
  have l': "length data' = length data" using inb by (simp add: data'_def)
  have dvd: "(unat len + np) mod 16 = 0"
    unfolding np_def by presburger
  have ne: "len + p \<noteq> 0" using sum np by (metis add_is_0 less_numeral_extra(3) unsigned_0)
  have m0: "(len + p) mod 16 = 0"
    by (rule word_unat_eq_iff [THEN iffD2]) (simp add: unat_mod sum dvd)
  have last: "unat (len + p - 1) = unat len + np - 1"
    using ne sum by (metis unat_minus_one)
  have lastb: "data' ! unat (len + p - 1) = ucast p" using np by (simp only: last) (intro nth; simp)
  have pad_ok: "(ucast p :: u8) \<noteq> 0" "\<not> (ucast p :: u8) > 16"
    using p(3) np by (metis less_numeral_extra(3) unsigned_0)
      (use p(3) np in \<open>simp add: word_less_nat_alt\<close>)
  have all: "\<not> (\<exists>i \<in> set [unat len..<unat (len + p)]. data' ! i \<noteq> ucast p)"
    using nth by (auto simp: sum)
  have "aes256_unpad_pkcs7 data' (len + p) = Some len"
    unfolding aes256_unpad_pkcs7_def lastb Let_def
    using ne m0 pad_ok all inb l' by (simp add: p sum)
  moreover have "take (unat len) data' = take (unat len) data"
    using inb by (simp add: data'_def put_at_def)
  ultimately show ?thesis using pad unfolding p_def by blast
qed


section \<open>The four byte lanes\<close>

text \<open>
  The bytes of a block whose index is \<open>r\<close> modulo four. \<open>shift_rows\<close> permutes inside
  these lanes, and \<open>mix_columns\<close> also combines bytes of one lane only.
\<close>

definition lane :: "nat \<Rightarrow> bytes \<Rightarrow> bytes" where
  "lane r state = [state ! r, state ! (r + 4), state ! (r + 8), state ! (r + 12)]"

lemma less_4_cases: "r < 4 \<Longrightarrow> r = 0 \<or> r = 1 \<or> r = 2 \<or> r = (3 :: nat)"
  by arith

lemma lane_sub_bytes:
  assumes "r < 4" "length x = 16"
  shows "lane r (sub_bytes x) = map (\<lambda>b. sbox ! unat b) (lane r x)"
  using assms by (simp add: lane_def sub_bytes_def)

lemma lane_shift_rows:
  assumes "r < 4" "length x = 16"
  shows "lane r (shift_rows x) = rotate r (lane r x)"
  using less_4_cases [OF assms(1)] assms(2) unfolding length_16_iff
  by (elim disjE) (auto simp: lane_def shift_rows_def Let_def rotate_def eval_nat_numeral)

lemma lane_mix_column_other:
  assumes "r < 4" "i < 4" "i \<noteq> r" "length x = 16"
  shows "lane r (mix_column i x) = lane r x"
proof -
  have ne: "i + 4 * a \<noteq> r + 4 * b" for a b using assms(1-3) by arith
  note nes = ne [of 0 0] ne [of 0 1] ne [of 0 2] ne [of 0 3] ne [of 1 0] ne [of 1 1] ne [of 1 2]
    ne [of 1 3] ne [of 2 0] ne [of 2 1] ne [of 2 2] ne [of 2 3] ne [of 3 0] ne [of 3 1]
    ne [of 3 2] ne [of 3 3]
  show ?thesis
    using nes assms(4) unfolding lane_def mix_column_def Let_def by (simp add: nth_list_update)
qed

lemma lane_mix_column_same:
  assumes "r < 4" "length x = 16" "length y = 16" "lane r x = lane r y"
  shows "lane r (mix_column r x) = lane r (mix_column r y)"
  using assms by (simp add: lane_def mix_column_def Let_def nth_list_update)

lemma lane_mix_column:
  assumes "r < 4" "i < 4" "length x = 16" "length y = 16" "lane r x = lane r y"
  shows "lane r (mix_column i x) = lane r (mix_column i y)"
proof (cases "i = r")
  case True
  then show ?thesis using lane_mix_column_same [OF assms(1,3-5)] by simp
next
  case False
  then show ?thesis
    using lane_mix_column_other [OF assms(1,2) False assms(3)]
      lane_mix_column_other [OF assms(1,2) False assms(4)] assms(5) by simp
qed

text \<open>A loop of steps that keep a lane independent of the other lanes does so as a whole.\<close>

lemma lane_fold:
  assumes "\<And>i x y. i \<in> set js \<Longrightarrow> length x = 16 \<Longrightarrow> length y = 16 \<Longrightarrow> lane r x = lane r y \<Longrightarrow>
             lane r (f i x) = lane r (f i y)"
    and "\<And>i x. length (f i x) = length x"
    and "length x = 16" "length y = 16" "lane r x = lane r y"
  shows "lane r (fold f js x) = lane r (fold f js y)"
  using assms(1,3-5)
proof (induction js arbitrary: x y)
  case (Cons i js)
  have "lane r (fold f js (f i x)) = lane r (fold f js (f i y))"
  proof (rule Cons.IH)
    show "lane r (f k a) = lane r (f k b)"
      if "k \<in> set js" "length a = 16" "length b = 16" "lane r a = lane r b" for k a b
      using that by (intro Cons.prems(1)) simp_all
    show "lane r (f i x) = lane r (f i y)"
      using Cons.prems(2-4) by (intro Cons.prems(1)) simp_all
  qed (simp_all add: assms(2) Cons.prems(2,3))
  then show ?case by simp
qed simp

lemma lane_mix_columns:
  assumes "r < 4" "length x = 16" "length y = 16" "lane r x = lane r y"
  shows "lane r (mix_columns x) = lane r (mix_columns y)"
  unfolding mix_columns_def
  by (rule lane_fold) (use assms in \<open>auto intro: lane_mix_column\<close>)

lemma lane_add_key_column:
  assumes "r < 4" "i < 4" "length x = 16" "length y = 16" "lane r x = lane r y"
  shows "lane r (add_key_column k i x) = lane r (add_key_column k i y)"
proof -
  have ne: "i + 4 * a \<noteq> r + 4 * b" if "i \<noteq> r" for a b using that assms(1,2) by arith
  show ?thesis
    using assms ne [of 0 1] ne [of 0 2] ne [of 0 3] ne [of 1 0] ne [of 1 2] ne [of 1 3] ne [of 2 0]
      ne [of 2 1] ne [of 2 3] ne [of 3 0] ne [of 3 1] ne [of 3 2]
    by (cases "i = r") (simp_all add: lane_def add_key_column_def Let_def nth_list_update)
qed

lemma length_add_key_column [simp]: "length (add_key_column k i x) = length x"
  by (simp add: add_key_column_def Let_def)

lemma lane_add_round_key:
  assumes "r < 4" "length x = 16" "length y = 16" "lane r x = lane r y"
  shows "lane r (add_round_key k x) = lane r (add_round_key k y)"
  unfolding add_round_key_def
  by (rule lane_fold) (use assms in \<open>auto intro: lane_add_key_column\<close>)

lemma lane_round:
  assumes "r < 4" "length x = 16" "length y = 16" "lane r x = lane r y"
  shows "lane r (encrypt_round ctx i x) = lane r (encrypt_round ctx i y)"
  unfolding encrypt_round_def using assms
  by (intro lane_add_round_key lane_mix_columns) (simp_all add: lane_shift_rows lane_sub_bytes)

lemma lane_rounds:
  assumes "r < 4" "length x = 16" "length y = 16" "lane r x = lane r y"
  shows "lane r (fold (encrypt_round ctx) js x) = lane r (fold (encrypt_round ctx) js y)"
  by (rule lane_fold) (use assms in \<open>auto intro: lane_round\<close>)

section \<open>Properties\<close>

text \<open>
  C20: decrypting an encrypted block with the same expanded key gives the block back.\<close>

theorem aes_block_roundtrip:
  assumes "length b = 16"
  shows "aes256_decrypt_block ctx (aes256_encrypt_block ctx b) = b"
  using assms by (rule decrypt_encrypt_block)

theorem aes_block_roundtrip_witness:
  "length (replicate 16 (7 :: u8)) = 16 \<and>
   aes256_decrypt_block (aes256_init (replicate 32 1))
     (aes256_encrypt_block (aes256_init (replicate 32 1)) (replicate 16 7)) = replicate 16 7"
proof -
  have h: "length (replicate 16 (7 :: u8)) = 16" by simp
  show ?thesis using h aes_block_roundtrip [OF h] by simp
qed

text \<open>
  C21: on a whole number of blocks CBC encryption stays inside buffers of the message's length, and
  CBC decryption of its output with the same key and initialisation vector restores the message.
\<close>

theorem aes_cbc_roundtrip:
  assumes "16 \<le> length iv" and "16 dvd len"
    and "length inp = len" and "length out = len" and "length out' = len"
  shows "\<exists>c. aes256_cbc_encrypt ctx iv inp out len = Some c \<and> length c = len \<and>
             aes256_cbc_decrypt ctx iv c out' len = Some inp"
  unfolding aes256_cbc_encrypt_def aes256_cbc_decrypt_def
  using assms by (intro aes.cbc_roundtrip) simp_all

theorem aes_cbc_roundtrip_witness:
  "16 \<le> length (replicate 16 (0 :: u8)) \<and>
   (\<exists>c. aes256_cbc_encrypt (aes256_init (replicate 32 1)) (replicate 16 0) (replicate 32 5) (replicate 32 0) 32 = Some c \<and>
        length c = 32 \<and>
        aes256_cbc_decrypt (aes256_init (replicate 32 1)) (replicate 16 0) c (replicate 32 9) 32 = Some (replicate 32 5))"
  using aes_cbc_roundtrip [of "replicate 16 0" 32 "replicate 32 5" "replicate 32 0" "replicate 32 9"
      "aes256_init (replicate 32 1)"] by simp

text \<open>
  CBC encryption of a length that is not a whole number of blocks reads past the end of a message
  buffer of exactly that length.
\<close>

theorem aes_cbc_partial_block:
  assumes "length inp = len" and "\<not> 16 dvd len"
  shows "aes256_cbc_encrypt ctx iv inp out len = None"
proof -
  have "cbc_encrypt_loop enc inp len i prev out' = None" if "16 dvd i" "i \<le> len" for enc i prev out'
    using that
  proof (induction "len - i" arbitrary: i prev out' rule: less_induct)
    case less
    have lt: "i < len" using less.prems assms(2) by (cases "i = len") auto
    show ?case
    proof (cases "i + 16 \<le> len")
      case True
      with less lt show ?thesis by (subst cbc_encrypt_loop.simps) (simp add: Let_def)
    next
      case False
      with lt assms(1) show ?thesis by (subst cbc_encrypt_loop.simps) simp
    qed
  qed
  then show ?thesis by (simp add: aes256_cbc_encrypt_def)
qed

theorem aes_cbc_partial_block_witness:
  "\<not> 16 dvd (20 :: nat) \<and>
   aes256_cbc_encrypt (aes256_init (replicate 32 1)) (replicate 16 0) (replicate 20 5) (replicate 32 0) 20 = None"
  using aes_cbc_partial_block [of "replicate 20 5" 20 "aes256_init (replicate 32 1)" "replicate 16 0" "replicate 32 0"]
  by simp

text \<open>
  CTR mode masks the message with a key stream: byte \<open>k\<close> of the output is byte \<open>k\<close> of
  the input combined with byte \<open>k mod 16\<close> of the encryption of the counter block number
  \<open>k div 16\<close>, and that counter block, read as a big-endian number, is the nonce plus
  \<open>k div 16\<close> modulo two to the 128.
\<close>

theorem aes_ctr_keystream:
  assumes "length nonce = 16" and "length inp = len" and "length out = len"
  shows "\<exists>c. aes256_ctr ctx nonce inp out len = Some c \<and> length c = len \<and>
           (\<forall>k < len. \<exists>block. length block = 16 \<and> be_value block = (be_value nonce + k div 16) mod 2 ^ 128 \<and>
              c ! k = inp ! k XOR aes256_encrypt_block ctx block ! (k mod 16))"
proof -
  have val: "be_value ((ctr_incr ^^ j) nonce) = (be_value nonce + j) mod 2 ^ 128 \<and>
      length ((ctr_incr ^^ j) nonce) = 16" for j
  proof (induction j)
    case 0
    show ?case using assms(1) be_value_bound [of nonce] by simp
  next
    case (Suc j)
    define d where "d = (ctr_incr ^^ j) nonce"
    have d: "be_value d = (be_value nonce + j) mod 2 ^ 128" "length d = 16"
      using Suc by (simp_all add: d_def)
    have "be_value (ctr_incr d) = (be_value d + 1) mod 2 ^ 128"
      using ctr_incr_from_value [of 16 d] d(2) by (simp add: ctr_incr_def AES256_BLOCK_SIZE_def)
    then show ?case using d by (simp add: mod_Suc_eq d_def [symmetric])
  qed
  obtain c where c: "aes256_ctr ctx nonce inp out len = Some c" "length c = len"
    "\<And>k. k < len \<Longrightarrow> c ! k = inp ! k XOR
        aes256_encrypt_block ctx ((ctr_incr ^^ (k div 16)) nonce) ! (k mod 16)"
    using aes.ctr_loop_bytes [of 0 len inp out nonce ctx] assms by (auto simp: aes256_ctr_def)
  then show ?thesis using val by blast
qed

theorem aes_ctr_keystream_witness:
  "length (replicate 16 (255 :: u8)) = 16 \<and>
   (\<exists>c. aes256_ctr (aes256_init (replicate 32 1)) (replicate 16 255) (replicate 20 5) (replicate 20 0) 20 = Some c \<and>
     length c = 20 \<and>
     (\<forall>k < 20. \<exists>block. length block = 16 \<and>
        be_value block = (be_value (replicate 16 255) + k div 16) mod 2 ^ 128 \<and>
        c ! k = replicate 20 5 ! k XOR aes256_encrypt_block (aes256_init (replicate 32 1)) block ! (k mod 16)))"
  using aes_ctr_keystream [of "replicate 16 255" "replicate 20 5" 20 "replicate 20 0"
      "aes256_init (replicate 32 1)"] by simp

text \<open>
  applying CTR mode twice with the same key and nonce restores the message, whatever its length.\<close>

theorem aes_ctr_roundtrip:
  assumes "length nonce = 16" and "length inp = len" and "length out = len" and "length out' = len"
  shows "\<exists>c. aes256_ctr ctx nonce inp out len = Some c \<and> aes256_ctr ctx nonce c out' len = Some inp"
  using aes.ctr_involution [of inp len out out' nonce ctx] assms by (auto simp: aes256_ctr_def)

theorem aes_ctr_roundtrip_witness:
  "length (replicate 16 (0 :: u8)) = 16 \<and>
   (\<exists>c. aes256_ctr (aes256_init (replicate 32 1)) (replicate 16 0) (replicate 5 5) (replicate 5 0) 5 = Some c \<and>
        aes256_ctr (aes256_init (replicate 32 1)) (replicate 16 0) c (replicate 5 9) 5 = Some (replicate 5 5))"
  using aes_ctr_roundtrip [of "replicate 16 0" "replicate 5 5" 5 "replicate 5 0" "replicate 5 9"
      "aes256_init (replicate 32 1)"] by simp

text \<open>
  when the padded message fits, PKCS\#7 padding keeps the message bytes, and removing the
  padding from the result gives the original length.
\<close>

theorem pkcs7_roundtrip:
  assumes "unat len + 16 < 2 ^ 64" and "unat max_len \<le> length data"
    and "unat len + (16 - unat len mod 16) \<le> unat max_len"
  shows "\<exists>data'. aes256_pad_pkcs7 data len max_len = Some (len + (16 - len mod 16), data') \<and>
           take (unat len) data' = take (unat len) data \<and>
           aes256_unpad_pkcs7 data' (len + (16 - len mod 16)) = Some len"
  using assms by (rule unpad_pad)

theorem pkcs7_roundtrip_witness:
  "unat (5 :: u64) + 16 < 2 ^ 64 \<and>
   (\<exists>data'. aes256_pad_pkcs7 (replicate 16 1) 5 16 = Some (16, data') \<and>
      take 5 data' = replicate 5 1 \<and> aes256_unpad_pkcs7 data' 16 = Some 5)"
  using pkcs7_roundtrip [of 5 16 "replicate 16 1"] by simp

text \<open>
  C22: the block cipher splits into four ciphers of four bytes: two blocks that agree on the bytes
  whose index is \<open>r\<close> modulo four are encrypted, under every key, to blocks that agree on
  those bytes, whatever the other twelve bytes are.
\<close>

theorem aes_lanes_independent:
  assumes "r < 4" and "length x = 16" and "length y = 16" and "lane r x = lane r y"
  shows "lane r (aes256_encrypt_block ctx x) = lane r (aes256_encrypt_block ctx y)"
proof -
  let ?f = "\<lambda>x. fold (encrypt_round ctx) [1..<nr ctx] (add_round_key (round_keys ctx) x)"
  have "lane r (?f x) = lane r (?f y)"
    using assms by (intro lane_rounds lane_add_round_key) simp_all
  then have "lane r (shift_rows (sub_bytes (?f x))) = lane r (shift_rows (sub_bytes (?f y)))"
    using assms by (simp add: lane_shift_rows lane_sub_bytes)
  then show ?thesis
    using assms unfolding aes256_encrypt_block_def Let_def
    by (intro lane_add_round_key) simp_all
qed

theorem aes_lanes_independent_witness:
  "lane 0 (replicate 16 0) = lane 0 ((replicate 16 0)[1 := 9 :: u8, 14 := 3]) \<and>
   lane 0 (aes256_encrypt_block (aes256_init (replicate 32 1)) (replicate 16 0)) =
   lane 0 (aes256_encrypt_block (aes256_init (replicate 32 1)) ((replicate 16 0)[1 := 9, 14 := 3]))"
proof -
  have h: "lane 0 (replicate 16 0) = lane 0 ((replicate 16 0)[1 := 9 :: u8, 14 := 3])"
    by (simp add: lane_def)
  show ?thesis
    using h aes_lanes_independent [OF _ _ _ h, of "aes256_init (replicate 32 1)"] by simp
qed

end
