(* ===== verification/SHA512.thy ===== *)
theory SHA512
  imports Prelude
begin

text \<open>
  The SHA-512 code of \<open>src/kernel/Network/Cryptography/SHA512.c\<close>: the compression function,
  the streaming context with its 128-byte buffer and its two-word bit counter, finalisation and
  HMAC. The streaming functions are proved to compute the one-shot definition of the standard:
  pad, cut into blocks, fold the compression function.
\<close>

text \<open>A 64-bit constant from its two halves.\<close>

definition halves :: "u32 \<times> u32 \<Rightarrow> u64" where
  "halves p = push_bit 32 (ucast (fst p)) OR ucast (snd p)"

definition sha512_K :: "u64 list" where
  "sha512_K = map halves [
     (0x428a2f98, 0xd728ae22), (0x71374491, 0x23ef65cd), (0xb5c0fbcf, 0xec4d3b2f),
     (0xe9b5dba5, 0x8189dbbc), (0x3956c25b, 0xf348b538), (0x59f111f1, 0xb605d019),
     (0x923f82a4, 0xaf194f9b), (0xab1c5ed5, 0xda6d8118), (0xd807aa98, 0xa3030242),
     (0x12835b01, 0x45706fbe), (0x243185be, 0x4ee4b28c), (0x550c7dc3, 0xd5ffb4e2),
     (0x72be5d74, 0xf27b896f), (0x80deb1fe, 0x3b1696b1), (0x9bdc06a7, 0x25c71235),
     (0xc19bf174, 0xcf692694), (0xe49b69c1, 0x9ef14ad2), (0xefbe4786, 0x384f25e3),
     (0x0fc19dc6, 0x8b8cd5b5), (0x240ca1cc, 0x77ac9c65), (0x2de92c6f, 0x592b0275),
     (0x4a7484aa, 0x6ea6e483), (0x5cb0a9dc, 0xbd41fbd4), (0x76f988da, 0x831153b5),
     (0x983e5152, 0xee66dfab), (0xa831c66d, 0x2db43210), (0xb00327c8, 0x98fb213f),
     (0xbf597fc7, 0xbeef0ee4), (0xc6e00bf3, 0x3da88fc2), (0xd5a79147, 0x930aa725),
     (0x06ca6351, 0xe003826f), (0x14292967, 0x0a0e6e70), (0x27b70a85, 0x46d22ffc),
     (0x2e1b2138, 0x5c26c926), (0x4d2c6dfc, 0x5ac42aed), (0x53380d13, 0x9d95b3df),
     (0x650a7354, 0x8baf63de), (0x766a0abb, 0x3c77b2a8), (0x81c2c92e, 0x47edaee6),
     (0x92722c85, 0x1482353b), (0xa2bfe8a1, 0x4cf10364), (0xa81a664b, 0xbc423001),
     (0xc24b8b70, 0xd0f89791), (0xc76c51a3, 0x0654be30), (0xd192e819, 0xd6ef5218),
     (0xd6990624, 0x5565a910), (0xf40e3585, 0x5771202a), (0x106aa070, 0x32bbd1b8),
     (0x19a4c116, 0xb8d2d0c8), (0x1e376c08, 0x5141ab53), (0x2748774c, 0xdf8eeb99),
     (0x34b0bcb5, 0xe19b48a8), (0x391c0cb3, 0xc5c95a63), (0x4ed8aa4a, 0xe3418acb),
     (0x5b9cca4f, 0x7763e373), (0x682e6ff3, 0xd6b2b8a3), (0x748f82ee, 0x5defb2fc),
     (0x78a5636f, 0x43172f60), (0x84c87814, 0xa1f0ab72), (0x8cc70208, 0x1a6439ec),
     (0x90befffa, 0x23631e28), (0xa4506ceb, 0xde82bde9), (0xbef9a3f7, 0xb2c67915),
     (0xc67178f2, 0xe372532b), (0xca273ece, 0xea26619c), (0xd186b8c7, 0x21c0c207),
     (0xeada7dd6, 0xcde0eb1e), (0xf57d4f7f, 0xee6ed178), (0x06f067aa, 0x72176fba),
     (0x0a637dc5, 0xa2c898a6), (0x113f9804, 0xbef90dae), (0x1b710b35, 0x131c471b),
     (0x28db77f5, 0x23047d84), (0x32caab7b, 0x40c72493), (0x3c9ebe0a, 0x15c9bebc),
     (0x431d67c4, 0x9c100d4c), (0x4cc5d4be, 0xcb3e42b6), (0x597f299c, 0xfc657e2a),
     (0x5fcb6fab, 0x3ad6faec), (0x6c44198c, 0x4a475817)]"

definition ROR64 :: "u64 \<Rightarrow> nat \<Rightarrow> u64" where
  "ROR64 x n = drop_bit n x OR push_bit (64 - n) x"

definition CH :: "u64 \<Rightarrow> u64 \<Rightarrow> u64 \<Rightarrow> u64" where
  "CH x y z = (x AND y) XOR (NOT x AND z)"

definition MAJ :: "u64 \<Rightarrow> u64 \<Rightarrow> u64 \<Rightarrow> u64" where
  "MAJ x y z = (x AND y) XOR (x AND z) XOR (y AND z)"

definition SIGMA0 :: "u64 \<Rightarrow> u64" where
  "SIGMA0 x = ROR64 x 28 XOR ROR64 x 34 XOR ROR64 x 39"

definition SIGMA1 :: "u64 \<Rightarrow> u64" where
  "SIGMA1 x = ROR64 x 14 XOR ROR64 x 18 XOR ROR64 x 41"

definition GAMMA0 :: "u64 \<Rightarrow> u64" where
  "GAMMA0 x = ROR64 x 1 XOR ROR64 x 8 XOR drop_bit 7 x"

definition GAMMA1 :: "u64 \<Rightarrow> u64" where
  "GAMMA1 x = ROR64 x 19 XOR ROR64 x 61 XOR drop_bit 6 x"

record sha512_ctx =
  sha_state :: "u64 list"
  sha_count0 :: u64
  sha_count1 :: u64
  sha_buffer :: bytes

definition SHA512_BLOCK_SIZE :: nat where
  "SHA512_BLOCK_SIZE = 128"

section \<open>Compression\<close>

definition load_word :: "bytes \<Rightarrow> nat \<Rightarrow> u64" where
  "load_word data i =
     push_bit 56 (ucast (data ! (i * 8 + 0))) OR push_bit 48 (ucast (data ! (i * 8 + 1)))
     OR push_bit 40 (ucast (data ! (i * 8 + 2))) OR push_bit 32 (ucast (data ! (i * 8 + 3)))
     OR push_bit 24 (ucast (data ! (i * 8 + 4))) OR push_bit 16 (ucast (data ! (i * 8 + 5)))
     OR push_bit 8 (ucast (data ! (i * 8 + 6))) OR ucast (data ! (i * 8 + 7))"

definition schedule_step :: "nat \<Rightarrow> u64 list \<Rightarrow> u64 list" where
  "schedule_step i W = W @ [GAMMA1 (W ! (i - 2)) + W ! (i - 7) + GAMMA0 (W ! (i - 15)) + W ! (i - 16)]"

definition message_schedule :: "bytes \<Rightarrow> u64 list" where
  "message_schedule data = fold schedule_step [16..<80] (map (load_word data) [0..<16])"

type_synonym sha_vars = "u64 \<times> u64 \<times> u64 \<times> u64 \<times> u64 \<times> u64 \<times> u64 \<times> u64"

fun round_step :: "u64 list \<Rightarrow> nat \<Rightarrow> sha_vars \<Rightarrow> sha_vars" where
  "round_step W i (a, b, c, d, e, f, g, h) =
     (let T1 = h + SIGMA1 e + CH e f g + sha512_K ! i + W ! i;
          T2 = SIGMA0 a + MAJ a b c
      in (T1 + T2, a, b, c, d + T1, e, f, g))"

definition sha512_transform :: "sha512_ctx \<Rightarrow> bytes \<Rightarrow> sha512_ctx" where
  "sha512_transform ctx data =
     (let W = message_schedule data;
          s = sha_state ctx;
          (a, b, c, d, e, f, g, h) =
            fold (round_step W) [0..<80] (s ! 0, s ! 1, s ! 2, s ! 3, s ! 4, s ! 5, s ! 6, s ! 7)
      in ctx\<lparr>sha_state := [s ! 0 + a, s ! 1 + b, s ! 2 + c, s ! 3 + d,
                           s ! 4 + e, s ! 5 + f, s ! 6 + g, s ! 7 + h]\<rparr>)"

section \<open>Streaming\<close>

definition sha512_IV :: "u64 list" where
  "sha512_IV = [0x6a09e667f3bcc908, 0xbb67ae8584caa73b, 0x3c6ef372fe94f82b, 0xa54ff53a5f1d36f1,
     0x510e527fade682d1, 0x9b05688c2b3e6c1f, 0x1f83d9abfb41bd6b, 0x5be0cd19137e2179]"

text \<open>Initialisation leaves the buffer as it was in memory.\<close>

definition sha512_init :: "sha512_ctx \<Rightarrow> sha512_ctx" where
  "sha512_init ctx = ctx\<lparr>sha_state := sha512_IV, sha_count0 := 0, sha_count1 := 0\<rparr>"

function update_blocks :: "sha512_ctx \<Rightarrow> bytes \<Rightarrow> nat \<Rightarrow> sha512_ctx \<times> nat" where
  "update_blocks ctx data i =
     (if i + SHA512_BLOCK_SIZE \<le> length data
      then update_blocks (sha512_transform ctx (drop i data)) data (i + SHA512_BLOCK_SIZE)
      else (ctx, i))"
  by pat_completeness auto
termination
  by (relation "measure (\<lambda>(ctx, data, i). length data - i)") (auto simp: SHA512_BLOCK_SIZE_def)

declare update_blocks.simps [simp del]

definition sha512_update :: "sha512_ctx \<Rightarrow> bytes \<Rightarrow> sha512_ctx" where
  "sha512_update ctx data =
     (let len = (of_nat (length data) :: u64);
          index = unat (drop_bit 3 (sha_count0 ctx)) mod SHA512_BLOCK_SIZE;
          count0 = sha_count0 ctx + push_bit 3 len;
          count1 = (if count0 < push_bit 3 len then sha_count1 ctx + 1 else sha_count1 ctx);
          count1 = count1 + drop_bit 61 len;
          ctx = ctx\<lparr>sha_count0 := count0, sha_count1 := count1\<rparr>;
          part_len = SHA512_BLOCK_SIZE - index;
          (ctx, i, index) =
            (if length data \<ge> part_len then
               let ctx = ctx\<lparr>sha_buffer := put_at index (take part_len data) (sha_buffer ctx)\<rparr>;
                   ctx = sha512_transform ctx (sha_buffer ctx);
                   (ctx, i) = update_blocks ctx data part_len
               in (ctx, i, 0)
             else (ctx, 0, index))
      in ctx\<lparr>sha_buffer := put_at index (drop i data) (sha_buffer ctx)\<rparr>)"

definition store_word :: "u64 \<Rightarrow> bytes" where
  "store_word w = map (\<lambda>i. ucast (drop_bit (56 - i * 8) w AND 0xFF)) [0..<8]"

definition sha512_final :: "sha512_ctx \<Rightarrow> sha512_ctx \<times> bytes" where
  "sha512_final ctx =
     (let bits = store_word (sha_count1 ctx) @ store_word (sha_count0 ctx);
          index = unat (drop_bit 3 (sha_count0 ctx)) mod SHA512_BLOCK_SIZE;
          pad_len = (if index < 112 then 112 - index else 240 - index);
          padding = 0x80 # replicate (pad_len - 1) 0;
          ctx = sha512_update ctx padding;
          ctx = sha512_update ctx bits
      in (ctx, concat (map store_word (sha_state ctx))))"

definition sha512_hash :: "sha512_ctx \<Rightarrow> bytes \<Rightarrow> bytes" where
  "sha512_hash ctx data = snd (sha512_final (sha512_update (sha512_init ctx) data))"

definition hmac_sha512 :: "sha512_ctx \<Rightarrow> bytes \<Rightarrow> bytes \<Rightarrow> bytes" where
  "hmac_sha512 ctx key data =
     (let k = (if length key > SHA512_BLOCK_SIZE then sha512_hash ctx key else key);
          k_pad = map (\<lambda>b. b XOR 0x36) k @ replicate (SHA512_BLOCK_SIZE - length k) 0x36;
          ctx = sha512_update (sha512_init ctx) k_pad;
          ctx = sha512_update ctx data;
          (ctx, hmac) = sha512_final ctx;
          k_pad = map (\<lambda>b. b XOR 0x5c) k @ replicate (SHA512_BLOCK_SIZE - length k) 0x5c;
          ctx = sha512_update (sha512_init ctx) k_pad;
          ctx = sha512_update ctx hmac
      in snd (sha512_final ctx))"

section \<open>The standard's one-shot definition\<close>

definition compress :: "u64 list \<Rightarrow> bytes \<Rightarrow> u64 list" where
  "compress s block = sha_state (sha512_transform \<lparr>sha_state = s, sha_count0 = 0, sha_count1 = 0, sha_buffer = []\<rparr> block)"

definition spec_pad :: "bytes \<Rightarrow> bytes" where
  "spec_pad m =
     (let r = length m mod 128;
          z = (if r < 112 then 111 - r else 239 - r)
      in m @ [0x80] @ replicate z 0 @ map (\<lambda>i. of_nat (8 * length m div 256 ^ (15 - i))) [0..<16])"

definition spec_hash :: "bytes \<Rightarrow> bytes" where
  "spec_hash m = concat (map store_word (foldl compress sha512_IV (chunks 128 (spec_pad m))))"

definition spec_hmac :: "bytes \<Rightarrow> bytes \<Rightarrow> bytes" where
  "spec_hmac key m =
     (let k0 = (if length key > 128 then spec_hash key else key);
          k = k0 @ replicate (128 - length k0) 0
      in spec_hash (map (\<lambda>b. b XOR 0x5c) k @ spec_hash (map (\<lambda>b. b XOR 0x36) k @ m)))"

section \<open>Transform touches the chaining state only\<close>

lemma transform_frame [simp]:
  "sha_count0 (sha512_transform ctx d) = sha_count0 ctx"
  "sha_count1 (sha512_transform ctx d) = sha_count1 ctx"
  "sha_buffer (sha512_transform ctx d) = sha_buffer ctx"
  by (simp_all add: sha512_transform_def Let_def split: prod.split)

lemma load_word_take: "i < 16 \<Longrightarrow> load_word (take 128 data) i = load_word data i"
  by (simp add: load_word_def)

lemma message_schedule_take [simp]: "message_schedule (take 128 data) = message_schedule data"
proof -
  have "map (load_word (take 128 data)) [0..<16] = map (load_word data) [0..<16]"
    by (rule map_cong) (auto intro: load_word_take)
  then show ?thesis by (simp only: message_schedule_def)
qed

lemma transform_state: "sha_state (sha512_transform ctx d) = compress (sha_state ctx) (take 128 d)"
  by (simp add: compress_def sha512_transform_def Let_def split: prod.split)

lemma length_compress [simp]: "length (compress s b) = 8"
  by (simp add: compress_def sha512_transform_def Let_def split: prod.split)


section \<open>What a streaming context stands for\<close>

text \<open>
  A context represents the message \<open>m\<close> fed to it so far: the whole blocks of \<open>m\<close>
  are folded into the state, the rest is at the start of the buffer, and the two counter words hold
  the length in bits.
\<close>

definition represents :: "sha512_ctx \<Rightarrow> bytes \<Rightarrow> bool" where
  "represents ctx m \<longleftrightarrow>
     length (sha_buffer ctx) = 128 \<and>
     sha_count0 ctx = of_nat (8 * length m) \<and> sha_count1 ctx = of_nat (8 * length m div 2 ^ 64) \<and>
     (\<exists>bs r. m = concat bs @ r \<and> (\<forall>b \<in> set bs. length b = 128) \<and> length r < 128 \<and>
        sha_state ctx = foldl compress sha512_IV bs \<and> take (length r) (sha_buffer ctx) = r)"

lemma represents_init: "length (sha_buffer ctx) = 128 \<Longrightarrow> represents (sha512_init ctx) []"
  unfolding represents_def sha512_init_def by (auto intro!: exI [of _ "[]"])

lemma concat_blocks_length: "\<forall>b \<in> set bs. length b = n \<Longrightarrow> length (concat bs) = n * length bs"
  by (induction bs) auto

lemma blocks_rest_mod:
  "\<forall>b \<in> set bs. length b = n \<Longrightarrow> length r < n \<Longrightarrow> length (concat bs @ r) mod n = length r"
  using concat_blocks_length [of bs n] by simp

lemma unat_of_nat_self: "of_nat (unat w) = (w :: u64)"
  by simp

lemma unat_drop_bit_u64: "unat (drop_bit k (c :: u64)) = unat c div 2 ^ k"
proof -
  have "take_bit 64 (unat c) = unat c" using unsigned_less [of c, where 'a = nat] by (simp add: take_bit_nat_eq_self)
  then have "unat (drop_bit k c) = drop_bit k (unat c)" by (simp add: unsigned_drop_bit_eq del: drop_bit_eq_div)
  then show ?thesis by (simp only: drop_bit_eq_div)
qed

lemma index_of_count:
  assumes "c = (of_nat (8 * n) :: u64)"
  shows "unat (drop_bit 3 c) mod 128 = n mod 128"
proof -
  have "unat c = 8 * n mod 2 ^ 64" unfolding assms by (simp only: unat_of_nat) simp
  then have "unat (drop_bit 3 c) = (8 * n mod 2 ^ 64) div 2 ^ 3" by (simp only: unat_drop_bit_u64)
  moreover have "(8 * n mod 2 ^ 64) div 2 ^ 3 = n mod 2 ^ 61"
    using mod_mult_mult1 [of 8 n "2 ^ 61"] by simp
  moreover have "(128 :: nat) dvd 2 ^ 61" using le_imp_power_dvd [of 7 61 "2 :: nat"] by simp
  ultimately show ?thesis by (simp only: mod_mod_cancel)
qed

lemma div_add_carry:
  fixes a b n :: nat
  assumes "0 < n"
  shows "(a + b) div n = a div n + b div n + (if (a + b) mod n < b mod n then 1 else 0)"
proof -
  have m: "(a + b) mod n = (a mod n + b mod n) mod n" by (simp add: mod_add_eq)
  have a: "a mod n < n" and b: "b mod n < n" using assms by simp_all
  show ?thesis
  proof (cases "a mod n + b mod n < n")
    case True
    then show ?thesis using m by (simp add: div_add1_eq [of a b])
  next
    case False
    moreover have "a mod n + b mod n - n < n" using a b by linarith
    ultimately have "(a mod n + b mod n) div n = 1" "(a mod n + b mod n) mod n = a mod n + b mod n - n"
      using assms by (simp_all add: le_div_geq le_mod_geq)
    then show ?thesis using m a False by (simp add: div_add1_eq [of a b])
  qed
qed

lemma counter_step:
  fixes m d :: nat and len c0 :: u64
  assumes d: "d < 2 ^ 64"
    and len: "len = of_nat d"
    and c0_def: "c0 = of_nat (8 * m) + push_bit 3 len"
  shows "c0 = of_nat (8 * (m + d))"
    and "(if c0 < push_bit 3 len then of_nat (8 * m div 2 ^ 64) + 1 else of_nat (8 * m div 2 ^ 64)) + drop_bit 61 len
         = (of_nat (8 * (m + d) div 2 ^ 64) :: u64)"
proof -
  have p: "push_bit 3 len = of_nat (8 * d)" by (simp add: len push_bit_eq_mult)
  then show c0: "c0 = of_nat (8 * (m + d))" by (simp add: c0_def algebra_simps)
  have "unat len = d" unfolding len using d by (simp only: unat_of_nat) simp
  then have "unat (drop_bit 61 len) = d div 2 ^ 61" by (simp only: unat_drop_bit_u64)
  then have "of_nat (unat (drop_bit 61 len)) = (of_nat (d div 2 ^ 61) :: u64)" by (simp only:)
  then have "drop_bit 61 len = of_nat (d div 2 ^ 61)" by (simp only: unat_of_nat_self)
  moreover have "d div 2 ^ 61 = 8 * d div 2 ^ 64"
    using div_mult_mult1 [of 8 d "2 ^ 61"] by simp
  ultimately have top: "drop_bit 61 len = of_nat (8 * d div 2 ^ 64)" by (simp only:)
  have carry: "c0 < push_bit 3 len \<longleftrightarrow> (8 * (m + d)) mod 2 ^ 64 < (8 * d) mod 2 ^ 64"
    unfolding c0 p word_less_nat_alt unat_of_nat by simp
  have "8 * (m + d) div 2 ^ 64 = 8 * m div 2 ^ 64 + 8 * d div 2 ^ 64 +
      (if (8 * (m + d)) mod 2 ^ 64 < (8 * d) mod 2 ^ 64 then 1 else 0)"
    using div_add_carry [of "2 ^ 64" "8 * m" "8 * d"] by (simp only: distrib_left) simp
  then show "(if c0 < push_bit 3 len then of_nat (8 * m div 2 ^ 64) + 1 else of_nat (8 * m div 2 ^ 64)) + drop_bit 61 len
         = (of_nat (8 * (m + d) div 2 ^ 64) :: u64)"
    unfolding carry top by (simp only: of_nat_add split: if_split) simp
qed

lemma update_blocks_fold:
  assumes "i \<le> length data"
  shows "update_blocks ctx data i =
    (ctx\<lparr>sha_state := foldl compress (sha_state ctx)
        (chunks 128 (take (128 * ((length data - i) div 128)) (drop i data)))\<rparr>,
     i + 128 * ((length data - i) div 128))"
  using assms
proof (induction "length data - i" arbitrary: i ctx rule: less_induct)
  case less
  show ?case
  proof (cases "i + 128 \<le> length data")
    case False
    then have "(length data - i) div 128 = 0" by simp
    with False show ?thesis by (simp add: update_blocks.simps SHA512_BLOCK_SIZE_def)
  next
    case True
    let ?k = "(length data - (i + 128)) div 128"
    have k: "(length data - i) div 128 = Suc ?k"
      using True by (simp add: le_div_geq)
    have ch: "chunks 128 (take (128 * Suc ?k) (drop i data)) =
        take 128 (drop i data) # chunks 128 (take (128 * ?k) (drop (i + 128) data))"
    proof -
      have "take (128 * Suc ?k) (drop i data) = take 128 (drop i data) @ take (128 * ?k) (drop (i + 128) data)"
        by (simp add: take_add add.commute)
      then show ?thesis using True by (simp add: chunks_append)
    qed
    have "update_blocks ctx data i = update_blocks (sha512_transform ctx (drop i data)) data (i + 128)"
      using True by (subst update_blocks.simps) (simp add: SHA512_BLOCK_SIZE_def)
    also have "\<dots> = ((sha512_transform ctx (drop i data))\<lparr>sha_state := foldl compress
        (compress (sha_state ctx) (take 128 (drop i data))) (chunks 128 (take (128 * ?k) (drop (i + 128) data)))\<rparr>,
        i + 128 + 128 * ?k)"
      using less.hyps [of "i + 128" "sha512_transform ctx (drop i data)"] True
      by (simp add: transform_state)
    also have "(sha512_transform ctx (drop i data))\<lparr>sha_state := s\<rparr> = ctx\<lparr>sha_state := s\<rparr>" for s
      by (rule sha512_ctx.equality) simp_all
    finally show ?thesis by (simp only: k ch foldl_Cons) simp
  qed
qed
section \<open>Feeding data\<close>

lemma represents_index:
  "represents ctx m \<Longrightarrow> unat (drop_bit 3 (sha_count0 ctx)) mod SHA512_BLOCK_SIZE = length m mod 128"
  unfolding represents_def SHA512_BLOCK_SIZE_def by (blast intro: index_of_count)

lemma representsI:
  assumes "length (sha_buffer ctx) = 128" "sha_count0 ctx = of_nat (8 * length m)"
    "sha_count1 ctx = of_nat (8 * length m div 2 ^ 64)" "m = concat bs @ r"
    "\<forall>b \<in> set bs. length b = 128" "length r < 128" "sha_state ctx = foldl compress sha512_IV bs"
    "take (length r) (sha_buffer ctx) = r"
  shows "represents ctx m"
  using assms unfolding represents_def by blast

text \<open>The counter words after an update, as the code computes them.\<close>

definition count_update :: "sha512_ctx \<Rightarrow> nat \<Rightarrow> sha512_ctx" where
  "count_update ctx n =
     (let len = (of_nat n :: u64);
          count0 = sha_count0 ctx + push_bit 3 len
      in ctx\<lparr>sha_count0 := count0,
             sha_count1 := (if count0 < push_bit 3 len then sha_count1 ctx + 1 else sha_count1 ctx) + drop_bit 61 len\<rparr>)"

lemma count_update_frame [simp]:
  "sha_state (count_update ctx n) = sha_state ctx" "sha_buffer (count_update ctx n) = sha_buffer ctx"
  by (simp_all add: count_update_def Let_def)

lemma count_update_counts:
  assumes "represents ctx m" "n < 2 ^ 64"
  shows "sha_count0 (count_update ctx n) = of_nat (8 * (length m + n))"
    and "sha_count1 (count_update ctx n) = of_nat (8 * (length m + n) div 2 ^ 64)"
proof -
  have c: "sha_count0 ctx = of_nat (8 * length m)" "sha_count1 ctx = of_nat (8 * length m div 2 ^ 64)"
    using assms(1) unfolding represents_def by auto
  note step = counter_step [OF assms(2) refl refl, of "length m"]
  show "sha_count0 (count_update ctx n) = of_nat (8 * (length m + n))"
    unfolding step(1) [symmetric] c(1) [symmetric] by (simp add: count_update_def Let_def)
  show "sha_count1 (count_update ctx n) = of_nat (8 * (length m + n) div 2 ^ 64)"
    unfolding step(2) [symmetric] c [symmetric] by (simp add: count_update_def Let_def)
qed

lemma sha512_update_alt:
  "sha512_update ctx data =
     (let index = unat (drop_bit 3 (sha_count0 ctx)) mod SHA512_BLOCK_SIZE;
          part_len = SHA512_BLOCK_SIZE - index;
          c = count_update ctx (length data)
      in if length data < part_len then c\<lparr>sha_buffer := put_at index data (sha_buffer c)\<rparr>
         else let c1 = c\<lparr>sha_buffer := put_at index (take part_len data) (sha_buffer c)\<rparr>;
                  (c2, i) = update_blocks (sha512_transform c1 (sha_buffer c1)) data part_len
              in c2\<lparr>sha_buffer := put_at 0 (drop i data) (sha_buffer c2)\<rparr>)"
  by (simp add: sha512_update_def count_update_def Let_def split: prod.split)

lemma represents_update_short:
  assumes rep: "represents ctx m" and n: "length d < 2 ^ 64" and short: "length d < 128 - length m mod 128"
  shows "represents (sha512_update ctx d) (m @ d)"
proof -
  obtain bs r where m: "m = concat bs @ r" "\<forall>b \<in> set bs. length b = 128" "length r < 128"
    "sha_state ctx = foldl compress sha512_IV bs" "take (length r) (sha_buffer ctx) = r"
    and buf: "length (sha_buffer ctx) = 128" using rep unfolding represents_def by blast
  have r: "length m mod 128 = length r" unfolding m(1) using m(2,3) by (rule blocks_rest_mod)
  have upd: "sha512_update ctx d =
      (count_update ctx (length d))\<lparr>sha_buffer := put_at (length r) d (sha_buffer ctx)\<rparr>"
    using short by (simp add: sha512_update_alt Let_def represents_index [OF rep] r)
      (simp add: SHA512_BLOCK_SIZE_def)
  show ?thesis
  proof (rule representsI [where bs = bs and r = "r @ d"])
    show "take (length (r @ d)) (sha_buffer (sha512_update ctx d)) = r @ d"
      using take_put_at_append [of "length r" d "sha_buffer ctx"] short r buf m(5) by (simp add: upd)
  qed (use m buf short r count_update_counts [OF rep n] in \<open>simp_all add: upd add.assoc\<close>)
qed

lemma represents_update_long:
  assumes rep: "represents ctx m" and n: "length d < 2 ^ 64" and long: "128 - length m mod 128 \<le> length d"
  shows "represents (sha512_update ctx d) (m @ d)"
proof -
  obtain bs r where m: "m = concat bs @ r" "\<forall>b \<in> set bs. length b = 128" "length r < 128"
    "sha_state ctx = foldl compress sha512_IV bs" "take (length r) (sha_buffer ctx) = r"
    and buf: "length (sha_buffer ctx) = 128" using rep unfolding represents_def by blast
  have r: "length m mod 128 = length r" unfolding m(1) using m(2,3) by (rule blocks_rest_mod)
  define p where "p = 128 - length r"
  define blk where "blk = r @ take p d"
  define k where "k = 128 * ((length d - p) div 128)"
  define mid where "mid = take k (drop p d)"
  have p: "p \<le> length d" "length r + p = 128" using long r m(3) by (simp_all add: p_def)
  have k: "p + k \<le> length d" using p by (simp add: k_def)
  have rest: "length (drop (p + k) d) < 128" using p by (simp add: k_def)
  have d: "d = take p d @ mid @ drop (p + k) d"
    unfolding mid_def by (metis append_take_drop_id drop_drop add.commute)
  have "put_at (length r) (take p d) (sha_buffer ctx) = blk"
    using m(5) p buf by (simp add: put_at_def blk_def)
  then have upd: "sha512_update ctx d = (count_update ctx (length d))\<lparr>
      sha_state := foldl compress (compress (sha_state ctx) blk) (chunks 128 mid),
      sha_buffer := put_at 0 (drop (p + k) d) blk\<rparr>"
    using p by (simp add: sha512_update_alt Let_def represents_index [OF rep] r)
      (simp add: SHA512_BLOCK_SIZE_def p_def [symmetric] update_blocks_fold transform_state
        k_def [symmetric] mid_def [symmetric] blk_def)
  show ?thesis
  proof (rule representsI [where bs = "bs @ [blk] @ chunks 128 mid" and r = "drop (p + k) d"])
    show "m @ d = concat (bs @ [blk] @ chunks 128 mid) @ drop (p + k) d"
      using m(1) d by (simp add: blk_def)
    have "length mid = k" using k by (simp add: mid_def)
    then have "128 dvd length mid" by (simp add: k_def)
    then show "\<forall>b \<in> set (bs @ [blk] @ chunks 128 mid). length b = 128"
      using m(2) p by (auto simp: blk_def dest: chunks_lengths)
    show "take (length (drop (p + k) d)) (sha_buffer (sha512_update ctx d)) = drop (p + k) d"
      using rest p by (simp add: upd put_at_def)
  qed (use m buf rest p count_update_counts [OF rep n] in \<open>simp_all add: upd blk_def put_at_def add.assoc\<close>)
qed

lemma represents_update:
  assumes "represents ctx m" "length d < 2 ^ 64"
  shows "represents (sha512_update ctx d) (m @ d)"
  using represents_update_short [OF assms] represents_update_long [OF assms] by linarith

section \<open>Finalisation\<close>

lemma length_store_word [simp]: "length (store_word w) = 8"
  by (simp add: store_word_def)

lemma byte_of_word:
  assumes "k + 8 \<le> 64"
  shows "(ucast (drop_bit k (of_nat N :: u64) AND 0xFF) :: u8) = of_nat (N div 2 ^ k)"
proof (rule bit_word_eqI)
  fix i
  assume i: "i < LENGTH(8)"
  have "bit (0xFF :: u64) i" using i bit_mask_iff [of 8 i, where 'a = u64] by (simp add: mask_eq_exp_minus_1)
  with i assms show "bit (ucast (drop_bit k (of_nat N :: u64) AND 0xFF) :: u8) i \<longleftrightarrow> bit (of_nat (N div 2 ^ k) :: u8) i"
    by (simp add: bit_ucast_iff bit_and_iff bit_drop_bit_eq bit_of_nat_iff flip: drop_bit_eq_div)
qed

lemma store_word_of_nat:
  "store_word (of_nat N) = map (\<lambda>i. of_nat (N div 256 ^ (7 - i))) [0..<8]"
  unfolding store_word_def
proof (rule map_cong [OF refl])
  fix i :: nat
  assume "i \<in> set [0..<8]"
  then have "(2 :: nat) ^ (56 - i * 8) = 256 ^ (7 - i)"
    using power_mult [of "2 :: nat" 8 "7 - i"] by (simp add: diff_mult_distrib2 mult.commute)
  then show "ucast (drop_bit (56 - i * 8) (of_nat N :: u64) AND 0xFF) = (of_nat (N div 256 ^ (7 - i)) :: u8)"
    using byte_of_word [of "56 - i * 8" N] by simp
qed

lemma length_field:
  "store_word (of_nat (N div 2 ^ 64)) @ store_word (of_nat N) = map (\<lambda>i. of_nat (N div 256 ^ (15 - i))) [0..<16]"
proof -
  have "[0..<16] = [0..<8] @ map (\<lambda>i. i + 8) [0..<8]"
    using upt_add_eq_append [of 0 8 8] map_add_upt [of 8 8] by simp
  moreover have "N div 2 ^ 64 div 256 ^ (7 - i) = N div 256 ^ (15 - i)" if "i < 8" for i
  proof -
    have "15 - i = 8 + (7 - i)" using that by simp
    then have "(256 :: nat) ^ (15 - i) = 256 ^ 8 * 256 ^ (7 - i)" by (simp only: power_add)
    then show ?thesis by (simp add: div_mult2_eq)
  qed
  ultimately show ?thesis unfolding store_word_of_nat by simp
qed

definition pad_tail :: "bytes \<Rightarrow> bytes" where
  "pad_tail m = 0x80 # replicate (if length m mod 128 < 112 then 111 - length m mod 128 else 239 - length m mod 128) 0"

lemma spec_pad_alt:
  "spec_pad m = m @ pad_tail m @ map (\<lambda>i. of_nat (8 * length m div 256 ^ (15 - i))) [0..<16]"
  unfolding spec_pad_def pad_tail_def Let_def by (simp only: append_Cons append_Nil append_assoc)

lemma spec_pad_length: "128 dvd length (spec_pad m)"
proof -
  have "length m mod 128 < 128" by simp
  then have "(length m mod 128 + length (pad_tail m) + 16) mod 128 = 0" unfolding pad_tail_def by auto
  then have "(length m + length (pad_tail m) + 16) mod 128 = 0" by (metis add.assoc mod_add_left_eq)
  then show ?thesis by (simp add: spec_pad_alt mod_0_imp_dvd add.assoc del: upt.simps)
qed

lemma represents_whole:
  assumes "represents ctx m" "128 dvd length m"
  shows "sha_state ctx = foldl compress sha512_IV (chunks 128 m)"
proof -
  obtain bs r where m: "m = concat bs @ r" "\<forall>b \<in> set bs. length b = 128" "length r < 128"
    "sha_state ctx = foldl compress sha512_IV bs" using assms(1) unfolding represents_def by blast
  have "length r = 0" using blocks_rest_mod [OF m(2,3)] assms(2) m(1) by simp
  then have "chunks 128 m = bs" using m(1,2) chunks_concat [of 128 bs] by simp
  with m(4) show ?thesis by simp
qed

lemma sha512_final_spec:
  assumes rep: "represents ctx m"
  shows "snd (sha512_final ctx) = spec_hash m" and "length (sha_buffer (fst (sha512_final ctx))) = 128"
proof -
  define bits where "bits = store_word (sha_count1 ctx) @ store_word (sha_count0 ctx)"
  have bits: "bits = map (\<lambda>i. of_nat (8 * length m div 256 ^ (15 - i))) [0..<16]"
    using rep length_field [of "8 * length m"] unfolding represents_def bits_def by simp
  let ?idx = "unat (drop_bit 3 (sha_count0 ctx)) mod SHA512_BLOCK_SIZE"
  have "0x80 # replicate ((if ?idx < 112 then 112 - ?idx else 240 - ?idx) - 1) 0 = pad_tail m"
    unfolding represents_index [OF rep] pad_tail_def by simp
  then have fin: "sha512_final ctx = (let c = sha512_update (sha512_update ctx (pad_tail m)) bits
      in (c, concat (map store_word (sha_state c))))"
    by (simp only: sha512_final_def Let_def bits_def)
  have "length (pad_tail m) < 2 ^ 64" by (auto simp: pad_tail_def)
  then have "represents (sha512_update ctx (pad_tail m)) (m @ pad_tail m)" by (rule represents_update [OF rep])
  moreover have "length bits < 2 ^ 64" by (simp add: bits_def)
  ultimately have "represents (sha512_update (sha512_update ctx (pad_tail m)) bits) ((m @ pad_tail m) @ bits)"
    by (rule represents_update)
  then have rep': "represents (sha512_update (sha512_update ctx (pad_tail m)) bits) (spec_pad m)"
    by (simp only: spec_pad_alt bits append_assoc)
  show "snd (sha512_final ctx) = spec_hash m"
    unfolding fin spec_hash_def Let_def snd_conv represents_whole [OF rep' spec_pad_length] ..
  show "length (sha_buffer (fst (sha512_final ctx))) = 128"
    using rep' unfolding fin Let_def fst_conv represents_def by blast
qed

lemma represents_stream:
  assumes "represents ctx m" "\<forall>d \<in> set ds. length d < 2 ^ 64"
  shows "represents (foldl sha512_update ctx ds) (m @ concat ds)"
  using assms
proof (induction ds arbitrary: ctx m)
  case (Cons d ds)
  then have "represents (sha512_update ctx d) (m @ d)" by (simp add: represents_update)
  with Cons.IH [of "sha512_update ctx d" "m @ d"] Cons.prems(2) show ?case by simp
qed simp

lemma length_spec_hash [simp]: "length (spec_hash m) = 64"
proof -
  have "length (foldl compress s bs) = 8" if "length s = 8" for s bs
    using that by (induction bs arbitrary: s) simp_all
  then have "length (foldl compress sha512_IV (chunks 128 (spec_pad m))) = 8"
    by (simp add: sha512_IV_def)
  moreover have "length (concat (map store_word ws)) = 8 * length ws" for ws
    by (induction ws) simp_all
  ultimately show ?thesis by (simp add: spec_hash_def)
qed

section \<open>Properties\<close>

text \<open>
  C5: Hashing a message in any sequence of updates, of any sizes, gives the digest of the standard's
  one-shot definition (pad, cut into 128-byte blocks, fold the compression function) of the
  concatenated message, whatever the buffer of the context held before.
\<close>

theorem sha512_streaming_correct:
  assumes "length (sha_buffer ctx) = 128" and "\<forall>d \<in> set ds. length d < 2 ^ 64"
  shows "snd (sha512_final (foldl sha512_update (sha512_init ctx) ds)) = spec_hash (concat ds)"
  using sha512_final_spec(1) [OF represents_stream [OF represents_init [OF assms(1)] assms(2)]] by simp

theorem sha512_streaming_correct_witness:
  "snd (sha512_final (foldl sha512_update
      (sha512_init \<lparr>sha_state = [], sha_count0 = 7, sha_count1 = 9, sha_buffer = replicate 128 1\<rparr>)
      [replicate 100 65, [], replicate 300 66])) = spec_hash (replicate 100 65 @ replicate 300 66)"
  using sha512_streaming_correct
    [of "\<lparr>sha_state = [], sha_count0 = 7, sha_count1 = 9, sha_buffer = replicate 128 1\<rparr>"
      "[replicate 100 65, [], replicate 300 66]"] by simp

lemma sha512_hash_spec:
  assumes "length (sha_buffer ctx) = 128" and "length d < 2 ^ 64"
  shows "sha512_hash ctx d = spec_hash d"
  using sha512_final_spec(1) [OF represents_update [OF represents_init [OF assms(1)] assms(2)]]
  by (simp add: sha512_hash_def)

text \<open>The one-shot use inside HMAC: absorb a block and a text, finalise.\<close>

lemma sha512_two_updates:
  assumes "length (sha_buffer ctx) = 128" "length a < 2 ^ 64" "length b < 2 ^ 64"
  shows "snd (sha512_final (sha512_update (sha512_update (sha512_init ctx) a) b)) = spec_hash (a @ b)"
    and "length (sha_buffer (fst (sha512_final (sha512_update (sha512_update (sha512_init ctx) a) b)))) = 128"
proof -
  have "represents (sha512_update (sha512_init ctx) a) ([] @ a)"
    using represents_update [OF represents_init [OF assms(1)] assms(2)] .
  then have rep: "represents (sha512_update (sha512_update (sha512_init ctx) a) b) (a @ b)"
    using represents_update [OF _ assms(3)] by simp
  show "snd (sha512_final (sha512_update (sha512_update (sha512_init ctx) a) b)) = spec_hash (a @ b)"
    by (rule sha512_final_spec(1) [OF rep])
  show "length (sha_buffer (fst (sha512_final (sha512_update (sha512_update (sha512_init ctx) a) b)))) = 128"
    by (rule sha512_final_spec(2) [OF rep])
qed

text \<open>
  HMAC-SHA512 is the HMAC construction over that digest: long keys are hashed first, the inner and
  outer keys are the zero-padded key combined with 0x36 and 0x5c.
\<close>

theorem hmac_sha512_correct:
  assumes "length (sha_buffer ctx) = 128" and "length key < 2 ^ 64" and "length data < 2 ^ 64"
  shows "hmac_sha512 ctx key data = spec_hmac key data"
proof -
  define k where "k = (if length key > 128 then spec_hash key else key)"
  have k: "length k \<le> 128" by (simp add: k_def)
  have keq: "(if length key > SHA512_BLOCK_SIZE then sha512_hash ctx key else key) = k"
    using sha512_hash_spec [OF assms(1,2)] by (simp add: k_def SHA512_BLOCK_SIZE_def)
  define ip where "ip = map (\<lambda>b. b XOR 0x36) k @ replicate (128 - length k) (0x36 :: u8)"
  define op where "op = map (\<lambda>b. b XOR 0x5c) k @ replicate (128 - length k) (0x5c :: u8)"
  have len: "length ip < 2 ^ 64" "length op < 2 ^ 64" using k by (simp_all add: ip_def op_def)
  note inner = sha512_two_updates [OF assms(1) len(1) assms(3)]
  have "length (spec_hash (ip @ data)) < 2 ^ 64" by simp
  note outer = sha512_two_updates(1) [OF inner(2) len(2) this]
  have "hmac_sha512 ctx key data = spec_hash (op @ spec_hash (ip @ data))"
    unfolding hmac_sha512_def Let_def keq
    unfolding SHA512_BLOCK_SIZE_def ip_def [symmetric] op_def [symmetric] case_prod_beta inner(1) outer ..
  also have "\<dots> = spec_hmac key data"
    by (simp add: spec_hmac_def k_def [symmetric] ip_def op_def Let_def)
  finally show ?thesis .
qed

theorem hmac_sha512_correct_witness:
  "hmac_sha512 \<lparr>sha_state = [], sha_count0 = 0, sha_count1 = 0, sha_buffer = replicate 128 0\<rparr>
     (replicate 200 11) [72, 105] = spec_hmac (replicate 200 11) [72, 105]"
  by (rule hmac_sha512_correct) simp_all

end
