(* ===== verification/Memory.thy ===== *)
theory Memory
  imports Bytes "HOL-Library.Monad_Syntax"
begin

text \<open>
  The memory manager of \<open>src/kernel/memory/memory.c\<close>: the physical page allocator, whose free list
  runs through the first word of every free page, and the kernel heap, whose block headers lie in
  front of the memory they describe. Both work on byte-addressed memory, so that a header is what the
  bytes say, whoever wrote them. Loops over linked lists that memory may make cyclic are partial.
\<close>

record memory_state =
  ram :: mem
  free_list :: u64
  total_pages :: u64
  used_pages :: u64
  kernel_heap_base :: u64
  kernel_heap_size :: u64
  kernel_heap_used :: u64
  heap_free_list :: u64
  kernel_stack_base :: u64
  kernel_stack_top :: u64
  alloc_count :: u64
  free_count :: u64
  split_count :: u64
  coalesce_count :: u64

section \<open>Physical pages\<close>

record efi_memory_descriptor =
  Type :: u32
  PhysicalStart :: u64
  NumberOfPages :: u64

definition EfiConventionalMemory :: u32 where
  "EfiConventionalMemory = 7"

definition pmm_push :: "u64 \<Rightarrow> memory_state \<Rightarrow> memory_state" where
  "pmm_push page s = s\<lparr>ram := st64 (ram s) page (free_list s), free_list := page\<rparr>"

definition pmm_add_page :: "u64 \<Rightarrow> nat \<Rightarrow> memory_state \<Rightarrow> memory_state" where
  "pmm_add_page base p s =
     (let s = pmm_push (base + of_nat p * 4096) s in s\<lparr>total_pages := total_pages s + 1\<rparr>)"

definition pmm_add_region :: "efi_memory_descriptor \<Rightarrow> memory_state \<Rightarrow> memory_state" where
  "pmm_add_region d s =
     (if Type d = EfiConventionalMemory
      then fold (pmm_add_page (PhysicalStart d)) [0..<unat (NumberOfPages d)] s else s)"

definition pmm_init :: "efi_memory_descriptor list \<Rightarrow> memory_state \<Rightarrow> memory_state" where
  "pmm_init descs s = fold pmm_add_region descs (s\<lparr>free_list := 0, total_pages := 0, used_pages := 0\<rparr>)"

definition pmm_alloc_page :: "memory_state \<Rightarrow> u64 \<times> memory_state" where
  "pmm_alloc_page s =
     (if free_list s = 0 then (0, s)
      else let page = free_list s
           in (page, s\<lparr>free_list := ld64 (ram s) page, used_pages := used_pages s + 1,
                       ram := st (ram s) page (replicate 4096 0)\<rparr>))"


fun pmm_alloc_rest :: "nat \<Rightarrow> memory_state \<Rightarrow> bool \<times> memory_state" where
  "pmm_alloc_rest 0 s = (True, s)"
| "pmm_alloc_rest (Suc n) s =
     (let (page, s) = pmm_alloc_page s in if page = 0 then (False, s) else pmm_alloc_rest n s)"

definition pmm_alloc_pages :: "u64 \<Rightarrow> memory_state \<Rightarrow> u64 \<times> memory_state" where
  "pmm_alloc_pages count s =
     (if count = 0 then (0, s)
      else let (first_page, s) = pmm_alloc_page s
           in if first_page = 0 then (0, s)
              else let (ok, s) = pmm_alloc_rest (unat count - 1) s
                   in (if ok then first_page else 0, s))"


text \<open>
  The kernel stack: the result code, the value loaded into the stack pointer when one is loaded, and
  the new state.
\<close>

definition stackalloc :: "int \<Rightarrow> int \<Rightarrow> memory_state \<Rightarrow> int \<times> u64 option \<times> memory_state" where
  "stackalloc pages page_size s =
     (if pages \<le> 0 \<or> page_size \<le> 0 then (-1, None, s)
      else let (base, s) = pmm_alloc_pages (of_int pages) s;
               s = s\<lparr>kernel_stack_base := base\<rparr>
           in if base = 0 then (-1, None, s)
              else let top = base + of_int pages * of_int page_size;
                       s = s\<lparr>kernel_stack_top := top\<rparr>
                   in (0, Some (top AND NOT 0xF), s))"

subsection \<open>The free list as a list of pages\<close>

primrec chain :: "(u64 \<Rightarrow> u64) \<Rightarrow> u64 \<Rightarrow> u64 list \<Rightarrow> bool" where
  "chain nxt p [] \<longleftrightarrow> p = 0"
| "chain nxt p (x # xs) \<longleftrightarrow> p = x \<and> x \<noteq> 0 \<and> chain nxt (nxt x) xs"

lemma chain_cong: "(\<And>x. x \<in> set xs \<Longrightarrow> f x = g x) \<Longrightarrow> chain f p xs = chain g p xs"
  by (induction xs arbitrary: p) auto

lemma chain_nonzero: "chain nxt p xs \<Longrightarrow> a \<in> set xs \<Longrightarrow> a \<noteq> 0"
  by (induction xs arbitrary: p) auto

lemma chain_0 [simp]: "chain nxt 0 xs \<longleftrightarrow> xs = []"
  by (cases xs) auto

definition pages_apart :: "u64 list \<Rightarrow> bool" where
  "pages_apart ps \<longleftrightarrow> sorted_wrt (\<lambda>p q. apart p 4096 q 4096) ps"

definition pmm_list :: "memory_state \<Rightarrow> u64 list \<Rightarrow> bool" where
  "pmm_list s ps \<longleftrightarrow> chain (ld64 (ram s)) (free_list s) ps \<and> pages_apart ps"

lemma apart_mono: "apart a n b k \<Longrightarrow> n' \<le> n \<Longrightarrow> k' \<le> k \<Longrightarrow> apart a n' b k'"
  by (auto simp: apart_def)

lemma st64_eq: "st64 m a v = st m a (le_enc 8 v)"
  by (simp add: st64_def)

lemma pmm_alloc_page_list:
  assumes "pmm_list s (p # ps)"
  shows "fst (pmm_alloc_page s) = p" and "pmm_list (snd (pmm_alloc_page s)) ps"
    and "used_pages (snd (pmm_alloc_page s)) = used_pages s + 1"
    and "total_pages (snd (pmm_alloc_page s)) = total_pages s"
    and "ld (ram (snd (pmm_alloc_page s))) p 4096 = replicate 4096 0"
proof -
  have p: "free_list s = p" "p \<noteq> 0" "chain (ld64 (ram s)) (ld64 (ram s) p) ps"
    and ap: "\<And>q. q \<in> set ps \<Longrightarrow> apart p 4096 q 4096" "pages_apart ps"
    using assms by (auto simp: pmm_list_def pages_apart_def)
  let ?m = "st (ram s) p (replicate 4096 0)"
  have alloc: "pmm_alloc_page s = (p, s\<lparr>free_list := ld64 (ram s) p, used_pages := used_pages s + 1, ram := ?m\<rparr>)"
    using p by (simp add: pmm_alloc_page_def Let_def)
  have "ld64 ?m q = ld64 (ram s) q" if "q \<in> set ps" for q
    using apart_mono [OF ap(1) [OF that], of 4096 8] by (intro ld64_st_apart) simp
  then have "chain (ld64 ?m) (ld64 (ram s) p) ps" using p(3) chain_cong [of ps "ld64 ?m" "ld64 (ram s)"] by simp
  then show "pmm_list (snd (pmm_alloc_page s)) ps" using ap(2) by (simp add: alloc pmm_list_def)
  show "fst (pmm_alloc_page s) = p" "used_pages (snd (pmm_alloc_page s)) = used_pages s + 1"
    "total_pages (snd (pmm_alloc_page s)) = total_pages s" by (simp_all add: alloc)
  show "ld (ram (snd (pmm_alloc_page s))) p 4096 = replicate 4096 0"
    using ld_st_same [of "replicate 4096 0" "ram s" p] by (simp add: alloc)
qed

lemma pmm_push_list:
  assumes "pmm_list s ps" "p \<noteq> 0" "\<forall>q \<in> set ps. apart p 4096 q 4096"
  shows "pmm_list (pmm_push p s) (p # ps)"
proof -
  let ?m = "st64 (ram s) p (free_list s)"
  have "ld64 ?m q = ld64 (ram s) q" if "q \<in> set ps" for q
    using apart_mono [of p 4096 q 4096 8 8] assms(3) that by (simp add: st64_eq ld64_st_apart)
  then have "chain (ld64 ?m) (free_list s) ps"
    using assms(1) chain_cong [of ps "ld64 ?m" "ld64 (ram s)"] by (simp add: pmm_list_def)
  then show ?thesis using assms by (simp add: pmm_list_def pmm_push_def pages_apart_def)
qed

lemma pmm_alloc_page_empty: "pmm_list s [] \<Longrightarrow> pmm_alloc_page s = (0, s)"
  by (simp add: pmm_list_def pmm_alloc_page_def)

lemma pmm_alloc_page_Cons:
  assumes "pmm_list s (p # ps)"
  obtains s' where "pmm_alloc_page s = (p, s')" "p \<noteq> 0" "pmm_list s' ps"
    "used_pages s' = used_pages s + 1" "total_pages s' = total_pages s"
proof -
  have "p \<noteq> 0" using assms by (simp add: pmm_list_def)
  with pmm_alloc_page_list [OF assms] show thesis using that by (metis prod.collapse)
qed

lemma pmm_alloc_rest_list:
  assumes "pmm_list s ps"
  shows "\<exists>s'. pmm_alloc_rest n s = (n \<le> length ps, s') \<and> pmm_list s' (drop n ps) \<and>
    used_pages s' = used_pages s + of_nat (min n (length ps)) \<and> total_pages s' = total_pages s"
  using assms
proof (induction n arbitrary: s ps)
  case (Suc n)
  show ?case
  proof (cases ps)
    case Nil
    with Suc.prems show ?thesis by (simp add: pmm_alloc_page_empty)
  next
    case (Cons p qs)
    with Suc.prems obtain s1 where s1: "pmm_alloc_page s = (p, s1)" "p \<noteq> 0" "pmm_list s1 qs"
      "used_pages s1 = used_pages s + 1" "total_pages s1 = total_pages s"
      by (auto elim: pmm_alloc_page_Cons)
    from Suc.IH [OF s1(3)] s1 Cons show ?thesis by auto
  qed
qed simp

lemma pmm_alloc_pages_list:
  assumes "pmm_list s ps" "0 < count"
  shows "\<exists>s'. pmm_alloc_pages count s = (if unat count \<le> length ps then hd ps else 0, s') \<and>
    pmm_list s' (drop (unat count) ps) \<and>
    used_pages s' = used_pages s + of_nat (min (unat count) (length ps)) \<and> total_pages s' = total_pages s"
proof -
  have c: "unat count = Suc (unat count - 1)" "count \<noteq> 0"
    using assms(2) by (auto simp: word_less_nat_alt)
  show ?thesis
  proof (cases ps)
    case Nil
    with assms c show ?thesis by (simp add: pmm_alloc_pages_def pmm_alloc_page_empty)
  next
    case (Cons p qs)
    with assms(1) obtain s1 where s1: "pmm_alloc_page s = (p, s1)" "p \<noteq> 0" "pmm_list s1 qs"
      "used_pages s1 = used_pages s + 1" "total_pages s1 = total_pages s"
      by (auto elim: pmm_alloc_page_Cons)
    obtain s' where s': "pmm_alloc_rest (unat count - 1) s1 = (unat count - 1 \<le> length qs, s')"
      "pmm_list s' (drop (unat count - 1) qs)"
      "used_pages s' = used_pages s1 + of_nat (min (unat count - 1) (length qs))"
      "total_pages s' = total_pages s1"
      using pmm_alloc_rest_list [OF s1(3)] by blast
    have "drop (unat count) ps = drop (unat count - 1) qs" using c Cons by (metis drop_Suc_Cons)
    moreover have "unat count \<le> length ps \<longleftrightarrow> unat count - 1 \<le> length qs"
      and "min (unat count) (length ps) = Suc (min (unat count - 1) (length qs))"
      using c Cons by auto
    ultimately show ?thesis using s1 s' c(2) Cons by (simp add: pmm_alloc_pages_def)
  qed
qed

subsection \<open>Boot\<close>

definition region_pages :: "efi_memory_descriptor \<Rightarrow> u64 list" where
  "region_pages d = (if Type d = EfiConventionalMemory
     then map (\<lambda>p. PhysicalStart d + of_nat p * 4096) [0..<unat (NumberOfPages d)] else [])"

lemma pmm_add_page_props:
  "pmm_list (pmm_add_page b p s) = pmm_list (pmm_push (b + of_nat p * 4096) s)"
  "total_pages (pmm_add_page b p s) = total_pages s + 1"
  "used_pages (pmm_add_page b p s) = used_pages s"
  by (auto simp: pmm_add_page_def Let_def pmm_list_def pmm_push_def)

lemma pmm_add_pages_list:
  assumes "pmm_list s ps" "pages_apart (rev (map (\<lambda>p. b + of_nat p * 4096) [0..<n]) @ ps)"
    "\<forall>p < n. b + of_nat p * 4096 \<noteq> 0"
  shows "pmm_list (fold (pmm_add_page b) [0..<n] s) (rev (map (\<lambda>p. b + of_nat p * 4096) [0..<n]) @ ps) \<and>
    total_pages (fold (pmm_add_page b) [0..<n] s) = total_pages s + of_nat n \<and>
    used_pages (fold (pmm_add_page b) [0..<n] s) = used_pages s"
  using assms
proof (induction n)
  case (Suc n)
  let ?s = "fold (pmm_add_page b) [0..<n] s" and ?p = "b + of_nat n * 4096"
  let ?ps = "rev (map (\<lambda>p. b + of_nat p * 4096) [0..<n]) @ ps"
  have IH: "pmm_list ?s ?ps" "total_pages ?s = total_pages s + of_nat n" "used_pages ?s = used_pages s"
    using Suc by (auto simp: pages_apart_def)
  have "\<forall>q \<in> set ?ps. apart ?p 4096 q 4096" using Suc.prems(2) by (simp add: pages_apart_def)
  then have "pmm_list (pmm_push ?p ?s) (?p # ?ps)" using Suc.prems(3) by (intro pmm_push_list [OF IH(1)]) auto
  then show ?case using IH(2,3) by (simp add: pmm_add_page_props)
qed simp

lemma pmm_add_regions_list:
  assumes "pmm_list s ps" "pages_apart (rev (concat (map region_pages ds)) @ ps)"
    "0 \<notin> set (concat (map region_pages ds))"
  shows "pmm_list (fold pmm_add_region ds s) (rev (concat (map region_pages ds)) @ ps) \<and>
    total_pages (fold pmm_add_region ds s) = total_pages s + of_nat (length (concat (map region_pages ds))) \<and>
    used_pages (fold pmm_add_region ds s) = used_pages s"
  using assms
proof (induction ds arbitrary: s ps)
  case (Cons d ds)
  have ap: "pages_apart (rev (region_pages d) @ ps)" using Cons.prems(2) by (simp add: pages_apart_def sorted_wrt_append)
  have nz: "0 \<notin> set (region_pages d)" using Cons.prems(3) by simp
  have "pmm_list (pmm_add_region d s) (rev (region_pages d) @ ps) \<and>
      total_pages (pmm_add_region d s) = total_pages s + of_nat (length (region_pages d)) \<and>
      used_pages (pmm_add_region d s) = used_pages s"
  proof (cases "Type d = EfiConventionalMemory")
    case True
    with ap nz Cons.prems(1) pmm_add_pages_list [of s ps "PhysicalStart d" "unat (NumberOfPages d)"]
    show ?thesis by (auto simp: pmm_add_region_def region_pages_def image_iff)
  qed (use Cons.prems(1) in \<open>simp add: pmm_add_region_def region_pages_def\<close>)
  with Cons.IH [of "pmm_add_region d s" "rev (region_pages d) @ ps"] Cons.prems(2,3)
  show ?case by simp
qed simp

lemma pmm_init_list:
  assumes "pages_apart (rev (concat (map region_pages ds)))" "0 \<notin> set (concat (map region_pages ds))"
  shows "pmm_list (pmm_init ds s) (rev (concat (map region_pages ds)))"
    and "total_pages (pmm_init ds s) = of_nat (length (concat (map region_pages ds)))"
    and "used_pages (pmm_init ds s) = 0"
  using assms pmm_add_regions_list [of "s\<lparr>free_list := 0, total_pages := 0, used_pages := 0\<rparr>" "[]" ds]
  by (simp_all add: pmm_init_def pmm_list_def pages_apart_def)

lemma sorted_wrt_upt_mono: "(\<And>i j. i < j \<Longrightarrow> j < n \<Longrightarrow> R i j) \<Longrightarrow> sorted_wrt R [0..<n]"
  by (induction n) (auto simp: sorted_wrt_append)

text \<open>The pages of one region that does not reach the end of the address space.\<close>

lemma region_pages_apart:
  assumes "unat b + n * 4096 \<le> 2 ^ 64"
  shows "pages_apart (rev (map (\<lambda>p. b + of_nat p * 4096) [0..<n]))"
  unfolding pages_apart_def sorted_wrt_rev sorted_wrt_map
proof (rule sorted_wrt_upt_mono)
  fix i j :: nat
  assume "i < j" "j < n"
  then have "i * 4096 + 4096 \<le> j * 4096" "j * 4096 + 4096 \<le> n * 4096" by simp_all
  then have "apart (b + of_nat (j * 4096)) 4096 (b + of_nat (i * 4096)) 4096"
    using assms by (intro apart_offsets(2)) simp_all
  then show "apart (b + of_nat j * 4096) 4096 (b + of_nat i * 4096) 4096" by simp
qed

section \<open>Page ownership\<close>







lemma pages_apartI:
  "distinct ps \<Longrightarrow> (\<And>p q. p \<in> set ps \<Longrightarrow> q \<in> set ps \<Longrightarrow> p \<noteq> q \<Longrightarrow> apart p 4096 q 4096) \<Longrightarrow> pages_apart ps"
  unfolding pages_apart_def by (induction ps) auto

lemma apart_inside:
  assumes "apart p n q k" "off + l \<le> n" "0 < l" "n < 2 ^ 64"
  shows "apart (p + of_nat off) l q k"
proof -
  have o: "unat (of_nat off :: u64) = off" using assms by (intro unat_of_nat_lt) simp
  have d: "n \<le> unat (q - p)" "k \<le> unat (p - q)" using assms(1) by (auto simp: apart_def)
  have "(of_nat off :: u64) \<le> q - p" using o d assms(2) by (simp add: word_le_nat_alt)
  then have "unat (q - p - of_nat off) = unat (q - p) - off" using o by (simp add: unat_sub)
  then have 1: "l \<le> unat (q - (p + of_nat off))" using d(1) assms(2) by (simp add: algebra_simps)
  have ne: "q - p \<noteq> 0" using d(1) assms(2,3) by (auto simp: unat_eq_0)
  then have "unat (p - q) = 2 ^ 64 - unat (q - p)" using unat_uminus_u64 [of "q - p"] by (simp only: minus_diff_eq) simp
  moreover have "unat (q - p) < 2 ^ 64" using unsigned_less [of "q - p", where 'a = nat] by simp
  ultimately have "unat (p - q) + off < 2 ^ 64" using d assms(2,3) by linarith
  then have "unat (p - q + of_nat off) = unat (p - q) + off" using o by (simp add: unat_add_lem [THEN iffD1])
  then have 2: "k \<le> unat (p + of_nat off - q)" using d(2) by (simp add: algebra_simps)
  from 1 2 show ?thesis by (simp add: apart_def)
qed




section \<open>The kernel heap\<close>

text \<open>
  A block header takes 24 bytes: the size and the link (8 bytes each), the free flag and the magic
  number (4 bytes each).
\<close>

definition HEAP_MAGIC :: u32 where
  "HEAP_MAGIC = 0xDEADBEEF"

definition HEAP_BLOCK_HEADER_SIZE :: u64 where
  "HEAP_BLOCK_HEADER_SIZE = 24"

definition MIN_BLOCK_SIZE :: u64 where
  "MIN_BLOCK_SIZE = 32"

definition HEAP_ALIGN :: u64 where
  "HEAP_ALIGN = 16"

record heap_block =
  hb_size :: u64
  hb_next :: u64
  hb_is_free :: u32
  hb_magic :: u32

definition block_at :: "mem \<Rightarrow> u64 \<Rightarrow> heap_block" where
  "block_at m a = \<lparr>hb_size = ld64 m a, hb_next = ld64 m (a + 8), hb_is_free = ld32 m (a + 16), hb_magic = ld32 m (a + 20)\<rparr>"

definition set_size :: "u64 \<Rightarrow> u64 \<Rightarrow> mem \<Rightarrow> mem" where
  "set_size a v m = st64 m a v"

definition set_next :: "u64 \<Rightarrow> u64 \<Rightarrow> mem \<Rightarrow> mem" where
  "set_next a v m = st64 m (a + 8) v"

definition set_is_free :: "u64 \<Rightarrow> u32 \<Rightarrow> mem \<Rightarrow> mem" where
  "set_is_free a v m = st32 m (a + 16) v"

definition set_magic :: "u64 \<Rightarrow> u32 \<Rightarrow> mem \<Rightarrow> mem" where
  "set_magic a v m = st32 m (a + 20) v"

text \<open>The four stores that initialise a header.\<close>

definition write_block :: "u64 \<Rightarrow> heap_block \<Rightarrow> mem \<Rightarrow> mem" where
  "write_block a b m =
     set_magic a (hb_magic b) (set_is_free a (hb_is_free b) (set_next a (hb_next b) (set_size a (hb_size b) m)))"

definition init_kernel_heap :: "memory_state \<Rightarrow> memory_state" where
  "init_kernel_heap s =
     (let initial_pages = 16;
          (base, s) = pmm_alloc_pages initial_pages s
      in if base = 0 then s
         else let sz = initial_pages * 4096
              in s\<lparr>kernel_heap_base := base, kernel_heap_size := sz, kernel_heap_used := 0,
                   heap_free_list := base,
                   ram := write_block base \<lparr>hb_size = sz - HEAP_BLOCK_HEADER_SIZE, hb_next = 0,
                            hb_is_free = 1, hb_magic = HEAP_MAGIC\<rparr> (ram s)\<rparr>)"

definition align_size :: "u64 \<Rightarrow> u64" where
  "align_size sz = (sz + HEAP_ALIGN - 1) AND NOT (HEAP_ALIGN - 1)"

definition split_block :: "u64 \<Rightarrow> u64 \<Rightarrow> memory_state \<Rightarrow> memory_state" where
  "split_block block sz s =
     (let remaining = hb_size (block_at (ram s) block) - sz - HEAP_BLOCK_HEADER_SIZE
      in if remaining \<ge> MIN_BLOCK_SIZE
         then let new_block = block + HEAP_BLOCK_HEADER_SIZE + sz;
                  m = set_size new_block remaining (ram s);
                  m = set_next new_block (hb_next (block_at m block)) m;
                  m = set_is_free new_block 1 m;
                  m = set_magic new_block HEAP_MAGIC m;
                  m = set_size block sz m;
                  m = set_next block new_block m
              in s\<lparr>ram := m, split_count := split_count s + 1\<rparr>
         else s)"

partial_function (option) coalesce_from :: "u64 \<Rightarrow> memory_state \<Rightarrow> memory_state option" where
  "coalesce_from current s =
     (if current < kernel_heap_base s + kernel_heap_used s then
        let b = block_at (ram s) current in
        if hb_magic b \<noteq> HEAP_MAGIC then Some s
        else
          let nxt = current + HEAP_BLOCK_HEADER_SIZE + hb_size b;
              n = block_at (ram s) nxt
          in if hb_is_free b \<noteq> 0 \<and> nxt < kernel_heap_base s + kernel_heap_used s \<and>
                hb_magic n = HEAP_MAGIC \<and> hb_is_free n \<noteq> 0
             then let m = set_size current (hb_size b + (HEAP_BLOCK_HEADER_SIZE + hb_size n)) (ram s);
                      m = set_next current (hb_next (block_at m nxt)) m
                  in coalesce_from current (s\<lparr>ram := m, coalesce_count := coalesce_count s + 1\<rparr>)
             else coalesce_from nxt s
      else Some s)"

definition coalesce_blocks :: "memory_state \<Rightarrow> memory_state option" where
  "coalesce_blocks s = coalesce_from (kernel_heap_base s) s"

text \<open>The walk along the free list: a corrupt header, the fitting block with its predecessor, or the end.\<close>

datatype heap_walk = Corrupt | Fits u64 u64 | Exhausted

partial_function (option) heap_find :: "memory_state \<Rightarrow> u64 \<Rightarrow> u64 \<Rightarrow> u64 \<Rightarrow> heap_walk option" where
  "heap_find s sz prev current =
     (if current = 0 then Some Exhausted
      else let b = block_at (ram s) current
           in if hb_magic b \<noteq> HEAP_MAGIC then Some Corrupt
              else if hb_is_free b \<noteq> 0 \<and> hb_size b \<ge> sz then Some (Fits prev current)
              else heap_find s sz current (hb_next b))"

definition heap_take :: "u64 \<Rightarrow> u64 \<Rightarrow> u64 \<Rightarrow> memory_state \<Rightarrow> u64 \<times> memory_state" where
  "heap_take sz prev current s =
     (let s = split_block current sz s;
          s = s\<lparr>ram := set_is_free current 0 (ram s)\<rparr>;
          nxt = hb_next (block_at (ram s) current);
          s = (if prev \<noteq> 0 then s\<lparr>ram := set_next prev nxt (ram s)\<rparr> else s\<lparr>heap_free_list := nxt\<rparr>)
      in (current + HEAP_BLOCK_HEADER_SIZE,
          s\<lparr>kernel_heap_used := kernel_heap_used s + (HEAP_BLOCK_HEADER_SIZE + sz),
            alloc_count := alloc_count s + 1\<rparr>))"

definition heap_grow :: "u64 \<Rightarrow> memory_state \<Rightarrow> bool \<times> memory_state" where
  "heap_grow sz s =
     (let new_pages = (sz + HEAP_BLOCK_HEADER_SIZE + 4095) div 4096;
          (new_mem, s) = pmm_alloc_pages new_pages s
      in if new_mem = 0 then (False, s)
         else (True, s\<lparr>ram := write_block new_mem \<lparr>hb_size = new_pages * 4096 - HEAP_BLOCK_HEADER_SIZE,
                                hb_next = heap_free_list s, hb_is_free = 1, hb_magic = HEAP_MAGIC\<rparr> (ram s),
                       heap_free_list := new_mem,
                       kernel_heap_size := kernel_heap_size s + new_pages * 4096\<rparr>))"

partial_function (option) kmalloc :: "u64 \<Rightarrow> memory_state \<Rightarrow> (u64 \<times> memory_state) option" where
  "kmalloc sz s =
     (if sz = 0 then Some (0, s)
      else let sz = align_size sz
           in Option.bind (heap_find s sz 0 (heap_free_list s)) (\<lambda>r.
             case r of
               Corrupt \<Rightarrow> Some (0, s)
             | Fits prev current \<Rightarrow> Some (heap_take sz prev current s)
             | Exhausted \<Rightarrow>
                 (let (ok, s) = heap_grow sz s in if ok then kmalloc sz s else Some (0, s))))"

definition kfree :: "u64 \<Rightarrow> memory_state \<Rightarrow> memory_state option" where
  "kfree ptr s =
     (if ptr = 0 then Some s
      else let block = ptr - HEAP_BLOCK_HEADER_SIZE
           in if hb_magic (block_at (ram s) block) \<noteq> HEAP_MAGIC then Some s
              else if hb_is_free (block_at (ram s) block) \<noteq> 0 then Some s
              else let s = s\<lparr>ram := set_next block (heap_free_list s) (set_is_free block 1 (ram s)),
                             heap_free_list := block\<rparr>;
                       s = s\<lparr>kernel_heap_used := kernel_heap_used s - (HEAP_BLOCK_HEADER_SIZE + hb_size (block_at (ram s) block)),
                             free_count := free_count s + 1\<rparr>
                   in coalesce_blocks s)"

definition kcalloc :: "u64 \<Rightarrow> u64 \<Rightarrow> memory_state \<Rightarrow> (u64 \<times> memory_state) option" where
  "kcalloc num sz s =
     (let total = num * sz
      in Option.bind (kmalloc total s) (\<lambda>(ptr, s).
        Some (ptr, if ptr \<noteq> 0 then s\<lparr>ram := st (ram s) ptr (replicate (unat total) 0)\<rparr> else s)))"

partial_function (option) krealloc_copy :: "u64 \<Rightarrow> u64 \<Rightarrow> u64 \<Rightarrow> u64 \<Rightarrow> mem \<Rightarrow> mem option" where
  "krealloc_copy block src dst i m =
     (if i < hb_size (block_at m block)
      then krealloc_copy block src dst (i + 1) (m(dst + i := m (src + i))) else Some m)"

definition krealloc :: "u64 \<Rightarrow> u64 \<Rightarrow> memory_state \<Rightarrow> (u64 \<times> memory_state) option" where
  "krealloc ptr new_size s =
     (if ptr = 0 then kmalloc new_size s
      else if new_size = 0 then Option.bind (kfree ptr s) (\<lambda>s. Some (0, s))
      else let block = ptr - HEAP_BLOCK_HEADER_SIZE
           in if hb_magic (block_at (ram s) block) \<noteq> HEAP_MAGIC then Some (0, s)
              else if hb_size (block_at (ram s) block) \<ge> new_size then Some (ptr, s)
              else Option.bind (kmalloc new_size s) (\<lambda>(new_ptr, s).
                if new_ptr = 0 then Some (0, s)
                else Option.bind (krealloc_copy block ptr new_ptr 0 (ram s)) (\<lambda>m.
                     Option.bind (kfree ptr (s\<lparr>ram := m\<rparr>)) (\<lambda>s. Some (new_ptr, s)))))"

fun mmset_loop :: "nat \<Rightarrow> u64 \<Rightarrow> u8 \<Rightarrow> mem \<Rightarrow> mem" where
  "mmset_loop 0 p v m = m"
| "mmset_loop (Suc n) p v m = mmset_loop n (p + 1) v (m(p := v))"

definition mmset :: "u64 \<Rightarrow> int \<Rightarrow> u64 \<Rightarrow> mem \<Rightarrow> mem" where
  "mmset ptr value num m = mmset_loop (unat num) ptr (of_int value) m"

fun mmcpy_loop :: "nat \<Rightarrow> u64 \<Rightarrow> u64 \<Rightarrow> mem \<Rightarrow> mem" where
  "mmcpy_loop 0 d p m = m"
| "mmcpy_loop (Suc n) d p m = mmcpy_loop n (d + 1) (p + 1) (m(d := m p))"

definition mmcpy :: "u64 \<Rightarrow> u64 \<Rightarrow> u64 \<Rightarrow> mem \<Rightarrow> mem" where
  "mmcpy dest src n m = mmcpy_loop (unat n) dest src m"

section \<open>Headers after stores\<close>

lemmas set_field_defs = set_size_def set_next_def set_is_free_def set_magic_def

lemma apart_field:
  assumes "apart a 24 b 24" "i + n \<le> 24" "j + k \<le> 24" "0 < n" "0 < k"
  shows "apart (a + of_nat i) n (b + of_nat j) k"
proof -
  have "apart (a + of_nat i) n b 24" using assms by (intro apart_inside [of a 24]) simp_all
  then have "apart b 24 (a + of_nat i) n" by (simp add: apart_sym)
  then have "apart (b + of_nat j) k (a + of_nat i) n" using assms by (intro apart_inside [of b 24]) simp_all
  then show ?thesis by (simp add: apart_sym)
qed

lemma block_at_st_apart:
  assumes "apart a n b 24" "length bs = n"
  shows "block_at (st m a bs) b = block_at m b"
proof -
  have *: "apart a n (b + of_nat j) k" if "j + k \<le> 24" "0 < k" for j k
  proof -
    have "apart b 24 a n" using assms(1) by (simp add: apart_sym)
    then have "apart (b + of_nat j) k a n" using that by (intro apart_inside [of b 24]) simp_all
    then show ?thesis by (simp add: apart_sym)
  qed
  show ?thesis
    using * [of 0 8] * [of 8 8] * [of 16 4] * [of 20 4] assms(2)
    by (simp add: block_at_def ld64_st_apart ld32_st_apart)
qed

lemma block_at_set_apart [mem_simps]:
  assumes "apart a 24 b 24"
  shows "block_at (set_size a v m) b = block_at m b" "block_at (set_next a v m) b = block_at m b"
    "block_at (set_is_free a w m) b = block_at m b" "block_at (set_magic a w m) b = block_at m b"
  using apart_field [OF assms, of 0 8 0 24] apart_field [OF assms, of 8 8 0 24]
    apart_field [OF assms, of 16 4 0 24] apart_field [OF assms, of 20 4 0 24]
  by (simp_all add: set_field_defs st64_def st32_def block_at_st_apart)

lemma ld_set_apart [mem_simps]:
  assumes "apart a 24 b k" "k < 2 ^ 64"
  shows "ld (set_size a v m) b k = ld m b k" "ld (set_next a v m) b k = ld m b k"
    "ld (set_is_free a w m) b k = ld m b k" "ld (set_magic a w m) b k = ld m b k"
  using apart_inside [OF assms(1), of 0 8] apart_inside [OF assms(1), of 8 8]
    apart_inside [OF assms(1), of 16 4] apart_inside [OF assms(1), of 20 4] assms(2)
  by (simp_all add: set_field_defs st64_def st32_def ld_st_apart)

lemma fields_apart:
  "apart a 8 (a + 8) 8" "apart a 8 (a + 16) 4" "apart a 8 (a + 20) 4"
  "apart (a + 8) 8 a 8" "apart (a + 8) 8 (a + 16) 4" "apart (a + 8) 8 (a + 20) 4"
  "apart (a + 16) 4 a 8" "apart (a + 16) 4 (a + 8) 8" "apart (a + 16) 4 (a + 20) 4"
  "apart (a + 20) 4 a 8" "apart (a + 20) 4 (a + 8) 8" "apart (a + 20) 4 (a + 16) 4"
  using apart_offsets [of 8 0 8 8 a] apart_offsets [of 8 0 16 4 a] apart_offsets [of 8 0 20 4 a]
    apart_offsets [of 8 8 16 4 a] apart_offsets [of 8 8 20 4 a] apart_offsets [of 4 16 20 4 a]
  by simp_all

lemma block_at_set_same [simp, mem_simps]:
  "block_at (set_size a v m) a = (block_at m a)\<lparr>hb_size := v\<rparr>"
  "block_at (set_next a v m) a = (block_at m a)\<lparr>hb_next := v\<rparr>"
  "block_at (set_is_free a w m) a = (block_at m a)\<lparr>hb_is_free := w\<rparr>"
  "block_at (set_magic a w m) a = (block_at m a)\<lparr>hb_magic := w\<rparr>"
  by (simp_all add: block_at_def set_field_defs st64_def st32_def ld64_st_apart ld32_st_apart fields_apart)
    (simp_all add: st64_def [symmetric] st32_def [symmetric])

lemma block_at_write [simp]: "block_at (write_block a b m) a = b"
  by (simp add: write_block_def)

section \<open>The heap invariant\<close>

definition blk_size :: "memory_state \<Rightarrow> u64 \<Rightarrow> u64" where
  "blk_size s a = hb_size (block_at (ram s) a)"

definition blk_next :: "memory_state \<Rightarrow> u64 \<Rightarrow> u64" where
  "blk_next s a = hb_next (block_at (ram s) a)"

text \<open>Two blocks, headers included, do not meet.\<close>

definition blocks_apart :: "memory_state \<Rightarrow> u64 \<Rightarrow> u64 \<Rightarrow> bool" where
  "blocks_apart s a b \<longleftrightarrow> apart a (24 + unat (blk_size s a)) b (24 + unat (blk_size s b))"

text \<open>
  The free list is \<open>fs\<close>, the blocks handed out are \<open>us\<close>; every header carries the magic number and
  the right flag, and no two blocks meet.
\<close>

definition heap_ok :: "memory_state \<Rightarrow> u64 list \<Rightarrow> u64 list \<Rightarrow> bool" where
  "heap_ok s fs us \<longleftrightarrow>
     chain (blk_next s) (heap_free_list s) fs \<and>
     (\<forall>a \<in> set fs \<union> set us. hb_magic (block_at (ram s) a) = HEAP_MAGIC \<and> unat a + 24 + unat (blk_size s a) < 2 ^ 64) \<and>
     (\<forall>a \<in> set fs. hb_is_free (block_at (ram s) a) \<noteq> 0) \<and>
     (\<forall>a \<in> set us. hb_is_free (block_at (ram s) a) = 0) \<and>
     sorted_wrt (blocks_apart s) (fs @ us)"

lemma blocks_apart_sym: "blocks_apart s a b = blocks_apart s b a"
  unfolding blocks_apart_def by (rule apart_sym)

lemma blocks_apart_irrefl: "\<not> blocks_apart s a a"
  by (simp add: blocks_apart_def apart_def)

lemma blocks_apart_header: "blocks_apart s a b \<Longrightarrow> apart a 24 b 24"
  unfolding blocks_apart_def by (erule apart_mono) simp_all

lemma sorted_wrt_distinct: "sorted_wrt R xs \<Longrightarrow> (\<And>x. \<not> R x x) \<Longrightarrow> distinct xs"
  by (induction xs) auto

lemma sorted_wrt_pair:
  "sorted_wrt R xs \<Longrightarrow> x \<in> set xs \<Longrightarrow> y \<in> set xs \<Longrightarrow> x \<noteq> y \<Longrightarrow> R x y \<or> R y x"
  by (induction xs) auto

lemma heap_ok_distinct: "heap_ok s fs us \<Longrightarrow> distinct (fs @ us)"
  using sorted_wrt_distinct [of "blocks_apart s" "fs @ us"] blocks_apart_irrefl [of s] unfolding heap_ok_def by blast

lemma heap_ok_extent:
  assumes "heap_ok s fs us" "a \<in> set (fs @ us)"
  shows "unat a + 24 + unat (blk_size s a) < 2 ^ 64" "24 + unat (blk_size s a) < 2 ^ 64"
proof -
  show "unat a + 24 + unat (blk_size s a) < 2 ^ 64" using assms unfolding heap_ok_def by auto
  then show "24 + unat (blk_size s a) < 2 ^ 64" by linarith
qed

lemma heap_ok_apart:
  "heap_ok s fs us \<Longrightarrow> a \<in> set (fs @ us) \<Longrightarrow> b \<in> set (fs @ us) \<Longrightarrow> a \<noteq> b \<Longrightarrow> blocks_apart s a b"
  unfolding heap_ok_def using sorted_wrt_pair [of "blocks_apart s" "fs @ us" a b] blocks_apart_sym by blast

lemma sorted_wrt_pairsI:
  "distinct xs \<Longrightarrow> (\<And>x y. x \<in> set xs \<Longrightarrow> y \<in> set xs \<Longrightarrow> x \<noteq> y \<Longrightarrow> R x y) \<Longrightarrow> sorted_wrt R xs"
  by (induction xs) auto

text \<open>The first fitting block is found, with its predecessor.\<close>

lemma heap_find_first:
  assumes "chain (blk_next s) p (pre @ f # post)"
    "\<forall>a \<in> set (pre @ [f]). hb_magic (block_at (ram s) a) = HEAP_MAGIC \<and> hb_is_free (block_at (ram s) a) \<noteq> 0"
    "\<forall>a \<in> set pre. blk_size s a < n" "n \<le> blk_size s f"
  shows "heap_find s n prev p = Some (Fits (last (prev # pre)) f)"
  using assms
proof (induction pre arbitrary: p prev)
  case Nil
  then show ?case by (subst heap_find.simps) (simp add: Let_def blk_size_def)
next
  case (Cons a pre)
  then have "heap_find s n a (blk_next s a) = Some (Fits (last (a # pre)) f)" by simp
  with Cons.prems show ?case
    by (subst heap_find.simps) (auto simp: Let_def blk_size_def blk_next_def)
qed

lemma heap_find_none:
  assumes "chain (blk_next s) p fs"
    "\<forall>a \<in> set fs. hb_magic (block_at (ram s) a) = HEAP_MAGIC \<and> blk_size s a < n"
  shows "heap_find s n prev p = Some Exhausted"
  using assms
proof (induction fs arbitrary: p prev)
  case (Cons a fs)
  then have "heap_find s n a (blk_next s a) = Some Exhausted" by simp
  with Cons.prems show ?case
    by (subst heap_find.simps) (auto simp: Let_def blk_size_def blk_next_def)
qed (simp add: heap_find.simps)

text \<open>Replacing a block in the middle of a chain.\<close>

lemma chain_replace:
  assumes "chain nxt p (pre @ f # post)" "distinct (pre @ f # post)"
    and "\<And>a. a \<in> set pre \<union> set post \<Longrightarrow> pre = [] \<or> a \<noteq> last pre \<Longrightarrow> nxt' a = nxt a"
    and "pre \<noteq> [] \<Longrightarrow> nxt' (last pre) = q" and "pre = [] \<Longrightarrow> p' = q" and "pre \<noteq> [] \<Longrightarrow> p' = p"
    and "chain nxt' q rest"
  shows "chain nxt' p' (pre @ rest)"
  using assms
proof (induction pre arbitrary: p p')
  case (Cons a pre)
  show ?case
  proof (cases "pre = []")
    case True
    with Cons.prems show ?thesis by auto
  next
    case False
    have "chain nxt' (nxt a) (pre @ rest)"
      by (rule Cons.IH [of "nxt a"]) (use Cons.prems False in \<open>auto\<close>)
    moreover have "nxt' a = nxt a" using Cons.prems(2) False by (intro Cons.prems(3)) auto
    ultimately show ?thesis using Cons.prems by simp
  qed
qed simp

section \<open>Taking a block\<close>

text \<open>The header of every block after the fitting block was split, and after it was not.\<close>

lemma word_le_sub: "(b :: u64) \<le> a \<Longrightarrow> unat (a - b) = unat a - unat b"
  by (simp add: unat_sub)

lemma split_headers:
  assumes ext: "24 + unat (blk_size s f) < 2 ^ 64"
    and room: "unat n + 56 \<le> unat (blk_size s f)"
  defines "new \<equiv> f + 24 + n"
  defines "s' \<equiv> split_block f n s"
  shows "block_at (ram s') f = (block_at (ram s) f)\<lparr>hb_size := n, hb_next := new\<rparr>"
    and "block_at (ram s') new = \<lparr>hb_size = blk_size s f - n - 24, hb_next = blk_next s f,
           hb_is_free = 1, hb_magic = HEAP_MAGIC\<rparr>"
    and "unat (blk_size s f - n - 24) = unat (blk_size s f) - unat n - 24"
    and "apart f (24 + unat n) new (24 + unat (blk_size s f - n - 24))"
    and "\<And>b k. apart f (24 + unat (blk_size s f)) b k \<Longrightarrow> apart new (24 + unat (blk_size s f - n - 24)) b k"
    and "\<And>b. apart f (24 + unat (blk_size s f)) b 24 \<Longrightarrow> block_at (ram s') b = block_at (ram s) b"
    and "\<And>b k. apart f (24 + unat (blk_size s f)) b k \<Longrightarrow> k < 2 ^ 64 \<Longrightarrow> ld (ram s') b k = ld (ram s) b k"
    and "heap_free_list s' = heap_free_list s"
proof -
  let ?S = "unat (blk_size s f)"
  have n: "unat n + 80 < 2 ^ 64" using ext room by simp
  have off: "new = f + of_nat (24 + unat n)" by (simp add: new_def)
  have le1: "n \<le> blk_size s f" using room by (simp add: word_le_nat_alt)
  have u1: "unat (blk_size s f - n) = ?S - unat n" by (rule word_le_sub [OF le1])
  have le2: "24 \<le> blk_size s f - n" using u1 room by (simp add: word_le_nat_alt)
  show rem: "unat (blk_size s f - n - 24) = ?S - unat n - 24" using word_le_sub [OF le2] u1 by simp
  have ge: "MIN_BLOCK_SIZE \<le> blk_size s f - n - 24"
    using rem room by (simp add: word_le_nat_alt MIN_BLOCK_SIZE_def)
  have ap: "apart new 24 f 24" "apart f 24 new 24"
    unfolding off using n apart_offsets [of 24 0 "24 + unat n" 24 f] by simp_all
  define m where "m = set_magic new HEAP_MAGIC (set_is_free new 1 (set_next new (blk_next s f)
      (set_size new (blk_size s f - n - 24) (ram s))))"
  have ram': "ram s' = set_next f new (set_size f n m)"
    using ge ap unfolding s'_def split_block_def m_def
    by (simp add: Let_def blk_size_def blk_next_def new_def HEAP_BLOCK_HEADER_SIZE_def block_at_set_apart)
  show "block_at (ram s') f = (block_at (ram s) f)\<lparr>hb_size := n, hb_next := new\<rparr>"
    unfolding ram' m_def by (simp add: block_at_set_apart ap)
  show "block_at (ram s') new = \<lparr>hb_size = blk_size s f - n - 24, hb_next = blk_next s f,
           hb_is_free = 1, hb_magic = HEAP_MAGIC\<rparr>"
    unfolding ram' m_def by (simp add: block_at_set_apart ap)
  show "apart f (24 + unat n) new (24 + unat (blk_size s f - n - 24))"
    unfolding off rem using ext room apart_offsets(1) [of "24 + unat n" 0 "24 + unat n" "24 + (?S - unat n - 24)" f]
    by simp
  show sub: "apart new (24 + unat (blk_size s f - n - 24)) b k" if "apart f (24 + ?S) b k" for b k
    unfolding off rem using ext room that by (intro apart_inside [of f "24 + ?S"]) simp_all
  have hdr: "apart f 24 b k \<and> apart new 24 b k" if "apart f (24 + ?S) b k" for b k
    using apart_mono [OF that, of 24 k] apart_mono [OF sub [OF that], of 24 k] by simp
  show "block_at (ram s') b = block_at (ram s) b" if "apart f (24 + ?S) b 24" for b
    unfolding ram' m_def using hdr [OF that] by (simp add: block_at_set_apart)
  show "ld (ram s') b k = ld (ram s) b k" if "apart f (24 + ?S) b k" "k < 2 ^ 64" for b k
    unfolding ram' m_def using hdr [OF that(1)] that(2) by (simp add: ld_set_apart)
  show "heap_free_list s' = heap_free_list s"
    unfolding s'_def split_block_def by (simp add: Let_def)
qed

lemma no_split:
  assumes "n \<le> blk_size s f" "24 \<le> blk_size s f - n" "blk_size s f - n - 24 < 32"
  shows "split_block f n s = s"
  using assms by (simp add: split_block_def Let_def blk_size_def HEAP_BLOCK_HEADER_SIZE_def MIN_BLOCK_SIZE_def)

text \<open>
  Marking a block as used and unlinking it keeps the invariant, whether the block was shrunk to make
  room for a remainder (\<open>rs = [r]\<close>) or not (\<open>rs = []\<close>).
\<close>

definition unlink_block :: "u64 \<Rightarrow> u64 \<Rightarrow> memory_state \<Rightarrow> memory_state" where
  "unlink_block prev f s =
     (let s = s\<lparr>ram := set_is_free f 0 (ram s)\<rparr>;
          nxt = hb_next (block_at (ram s) f)
      in if prev \<noteq> 0 then s\<lparr>ram := set_next prev nxt (ram s)\<rparr> else s\<lparr>heap_free_list := nxt\<rparr>)"

lemma unlink_headers:
  fixes s :: memory_state
  assumes "prev \<noteq> 0 \<Longrightarrow> apart prev 24 f 24"
  defines "s' \<equiv> unlink_block prev f s"
  shows "block_at (ram s') f = (block_at (ram s) f)\<lparr>hb_is_free := 0\<rparr>"
    and "prev \<noteq> 0 \<Longrightarrow> block_at (ram s') prev = (block_at (ram s) prev)\<lparr>hb_next := blk_next s f\<rparr>"
    and "\<And>b. apart f 24 b 24 \<Longrightarrow> prev = 0 \<or> apart prev 24 b 24 \<Longrightarrow> block_at (ram s') b = block_at (ram s) b"
    and "\<And>b k. apart f 24 b k \<Longrightarrow> prev = 0 \<or> apart prev 24 b k \<Longrightarrow> k < 2 ^ 64 \<Longrightarrow> ld (ram s') b k = ld (ram s) b k"
    and "heap_free_list s' = (if prev \<noteq> 0 then heap_free_list s else blk_next s f)"
  using assms(1) apart_sym [of prev 24 f 24] unfolding s'_def unlink_block_def blk_next_def
  by (auto simp: Let_def block_at_set_apart ld_set_apart)

lemma unlink_sizes:
  assumes "prev \<noteq> 0 \<Longrightarrow> apart prev 24 f 24"
    and "b = f \<or> apart f 24 b 24" "b = prev \<or> prev = 0 \<or> apart prev 24 b 24"
  shows "blk_size (unlink_block prev f s) b = blk_size s b"
    and "hb_magic (block_at (ram (unlink_block prev f s)) b) = hb_magic (block_at (ram s) b)"
    and "b \<noteq> f \<Longrightarrow> hb_is_free (block_at (ram (unlink_block prev f s)) b) = hb_is_free (block_at (ram s) b)"
    and "b \<noteq> prev \<Longrightarrow> blk_next (unlink_block prev f s) b = blk_next s b"
  using assms unlink_headers(1-3) [where prev = prev and f = f and s = s]
  by (cases "prev = 0"; auto simp: blk_size_def blk_next_def)+

lemma unlink_ok:
  assumes ok: "heap_ok s (pre @ f # post) us"
    and list1: "heap_free_list s1 = heap_free_list s"
    and f1: "hb_magic (block_at (ram s1) f) = HEAP_MAGIC" "unat (blk_size s1 f) \<le> unat (blk_size s f)"
    and same: "\<And>b. b \<in> set (pre @ post @ us) \<Longrightarrow> block_at (ram s1) b = block_at (ram s) b"
    and rs: "\<And>r. r \<in> set rs \<Longrightarrow> hb_magic (block_at (ram s1) r) = HEAP_MAGIC \<and>
        hb_is_free (block_at (ram s1) r) \<noteq> 0 \<and> unat r + 24 + unat (blk_size s1 r) < 2 ^ 64 \<and> blocks_apart s1 f r"
    and rs_in: "\<And>r b k. r \<in> set rs \<Longrightarrow> apart f (24 + unat (blk_size s f)) b k \<Longrightarrow> apart r (24 + unat (blk_size s1 r)) b k"
    and one: "length rs \<le> 1"
    and link: "chain (blk_next s1) (blk_next s1 f) (rs @ post)"
  defines "prev \<equiv> last (0 # pre)"
  defines "s2 \<equiv> unlink_block prev f s1"
  shows "heap_ok s2 (pre @ rs @ post) (f # us)"
proof -
  let ?old = "pre @ post @ us"
  have nz: "a \<noteq> 0" if "a \<in> set (pre @ f # post)" for a
    using ok that chain_nonzero unfolding heap_ok_def by blast
  have dist: "distinct (pre @ f # post @ us)" using heap_ok_distinct [OF ok] by simp
  have pair0: "blocks_apart s a b" if "a \<in> insert f (set ?old)" "b \<in> insert f (set ?old)" "a \<noteq> b" for a b
    using heap_ok_apart [OF ok, of a b] that by auto
  have size1: "blk_size s1 b = blk_size s b" if "b \<in> set ?old" for b using same [OF that] by (simp add: blk_size_def)
  have fr: "apart f (24 + unat (blk_size s f)) b (24 + unat (blk_size s1 b))" if "b \<in> set ?old" for b
    using pair0 [of f b] that dist size1 [OF that] by (auto simp: blocks_apart_def)
  have r_old: "blocks_apart s1 r b" if "r \<in> set rs" "b \<in> set ?old" for r b
    unfolding blocks_apart_def by (rule rs_in [OF that(1) fr [OF that(2)]])
  have fresh: "set rs \<inter> insert f (set ?old) = {}"
    using r_old rs blocks_apart_irrefl [of s1] by blast
  have pair1: "blocks_apart s1 a b" if "a \<in> insert f (set ?old \<union> set rs)" "b \<in> insert f (set ?old \<union> set rs)" "a \<noteq> b" for a b
  proof -
    have sub: "apart f (24 + unat (blk_size s1 f)) b (24 + unat (blk_size s1 b))" if "b \<in> set ?old" for b
      using fr [OF that] f1(2) by (auto intro: apart_mono)
    have old: "blocks_apart s1 a b" if "a \<in> set ?old" "b \<in> set ?old" "a \<noteq> b" for a b
      using pair0 [of a b] that size1 by (auto simp: blocks_apart_def)
    have rr: "a = b" if "a \<in> set rs" "b \<in> set rs" for a b
      using one that by (cases rs) auto
    have fo: "blocks_apart s1 f b" if "b \<in> set ?old" for b unfolding blocks_apart_def by (rule sub [OF that])
    show ?thesis using that rs r_old old fo rr blocks_apart_sym [of s1] by (auto; metis)
  qed
  have prev: "prev = 0 \<or> prev \<in> set pre" by (simp add: prev_def)
  have pf: "apart prev 24 f 24" if "prev \<noteq> 0"
    using prev that dist by (intro blocks_apart_header [OF pair1]) auto
  have sz: "blk_size s2 b = blk_size s1 b \<and> hb_magic (block_at (ram s2) b) = hb_magic (block_at (ram s1) b) \<and>
      (b \<noteq> f \<longrightarrow> hb_is_free (block_at (ram s2) b) = hb_is_free (block_at (ram s1) b)) \<and>
      (b \<noteq> prev \<longrightarrow> blk_next s2 b = blk_next s1 b)"
    if "b \<in> insert f (set ?old \<union> set rs)" for b
    using unlink_sizes [where prev = prev and f = f and b = b and s = s1] pf pair1 [of f b] pair1 [of prev b] that prev
      blocks_apart_header [of s1 f b] blocks_apart_header [of s1 prev b] unfolding s2_def by auto
  have chain2: "chain (blk_next s2) (heap_free_list s2) (pre @ rs @ post)"
  proof (rule chain_replace [where nxt = "blk_next s" and p = "heap_free_list s" and f = f and post = post and q = "blk_next s1 f"])
    show "chain (blk_next s) (heap_free_list s) (pre @ f # post)" using ok by (simp add: heap_ok_def)
    show "distinct (pre @ f # post)" using dist by auto
    show "blk_next s2 a = blk_next s a" if "a \<in> set pre \<union> set post" "pre = [] \<or> a \<noteq> last pre" for a
      using sz [of a] same [of a] that nz [of a] by (auto simp: prev_def blk_next_def split: if_splits)
    show "blk_next s2 (last pre) = blk_next s1 f" if "pre \<noteq> []"
      using unlink_headers(2) [where prev = prev and f = f and s = s1] pf that nz [of "last pre"]
      by (simp add: prev_def s2_def blk_next_def)
    show "heap_free_list s2 = blk_next s1 f" if "pre = []"
      using unlink_headers(5) [where prev = prev and f = f and s = s1] that by (simp add: prev_def s2_def)
    show "heap_free_list s2 = heap_free_list s" if "pre \<noteq> []"
      using unlink_headers(5) [where prev = prev and f = f and s = s1] pf that nz [of "last pre"] list1
      by (simp add: prev_def s2_def)
    have "prev \<notin> set rs \<union> set post"
      using prev fresh dist link chain_nonzero by fastforce
    then show "chain (blk_next s2) (blk_next s1 f) (rs @ post)"
      using link chain_cong [of "rs @ post" "blk_next s2" "blk_next s1"] sz by auto
  qed
  have dist2: "distinct ((pre @ rs @ post) @ f # us)"
    using dist fresh one by (cases rs) auto
  have "blocks_apart s2 a b" if "a \<in> set ((pre @ rs @ post) @ f # us)" "b \<in> set ((pre @ rs @ post) @ f # us)" "a \<noteq> b" for a b
    using pair1 [of a b] sz [of a] sz [of b] that by (auto simp: blocks_apart_def)
  then have "sorted_wrt (blocks_apart s2) ((pre @ rs @ post) @ f # us)" by (rule sorted_wrt_pairsI [OF dist2])
  moreover have "hb_magic (block_at (ram s2) a) = HEAP_MAGIC \<and> unat a + 24 + unat (blk_size s2 a) < 2 ^ 64"
    if "a \<in> set (pre @ rs @ post) \<union> set (f # us)" for a
    using that sz [of a] rs [of a] f1 same [of a] ok by (auto simp: heap_ok_def blk_size_def)
  moreover have "hb_is_free (block_at (ram s2) a) \<noteq> 0" if "a \<in> set (pre @ rs @ post)" for a
    using that sz [of a] rs [of a] same [of a] ok fresh dist by (auto simp: heap_ok_def)
  moreover have "hb_is_free (block_at (ram s2) a) = 0" if "a \<in> set (f # us)" for a
    using that sz [of a] same [of a] ok dist unlink_headers(1) [where prev = prev and f = f and s = s1] pf
    by (auto simp: heap_ok_def s2_def)
  ultimately show ?thesis using chain2 unfolding heap_ok_def by blast
qed

lemma heap_ok_cong:
  "ram s' = ram s \<Longrightarrow> heap_free_list s' = heap_free_list s \<Longrightarrow> heap_ok s' = heap_ok s"
  by (intro ext) (simp add: heap_ok_def blk_next_def [abs_def] blk_size_def blocks_apart_def [abs_def])

lemma heap_ok_same_headers:
  assumes ok: "heap_ok s fs us" and hd: "\<And>b. b \<in> set fs \<union> set us \<Longrightarrow> block_at (ram s') b = block_at (ram s) b"
    and "heap_free_list s' = heap_free_list s"
  shows "heap_ok s' fs us"
proof -
  have z: "blk_size s' b = blk_size s b" "blk_next s' b = blk_next s b" if "b \<in> set fs \<union> set us" for b
    using hd [OF that] by (simp_all add: blk_size_def blk_next_def)
  have "chain (blk_next s') p fs = chain (blk_next s) p fs" for p by (rule chain_cong) (simp add: z)
  moreover have "sorted_wrt (blocks_apart s') (fs @ us)"
    by (rule sorted_wrt_mono_rel [of _ "blocks_apart s"]) (use ok z in \<open>auto simp: heap_ok_def blocks_apart_def\<close>)
  ultimately show ?thesis using assms z unfolding heap_ok_def by auto
qed

lemma heap_take_eq:
  "heap_take n prev f s =
     (f + 24, (unlink_block prev f (split_block f n s))\<lparr>
        kernel_heap_used := kernel_heap_used s + (24 + n), alloc_count := alloc_count s + 1\<rparr>)"
  by (simp add: heap_take_def unlink_block_def split_block_def Let_def HEAP_BLOCK_HEADER_SIZE_def)

text \<open>The remainder that a split leaves, if any.\<close>

definition remainder :: "memory_state \<Rightarrow> u64 \<Rightarrow> u64 \<Rightarrow> u64 list" where
  "remainder s f n = (if blk_size s f - n - 24 \<ge> 32 then [f + 24 + n] else [])"

lemma fit_cases:
  assumes "n \<le> blk_size s f" "24 \<le> blk_size s f - n" "32 \<le> blk_size s f - n - 24"
  shows "unat n + 56 \<le> unat (blk_size s f)"
  using assms word_le_sub [OF assms(1)] word_le_sub [OF assms(2)] by (simp add: word_le_nat_alt)

lemma chain_after: "chain nxt p (pre @ f # post) \<Longrightarrow> chain nxt (nxt f) post"
  by (induction pre arbitrary: p) auto

lemma heap_take_ok:
  assumes ok: "heap_ok s (pre @ f # post) us" and fit: "n \<le> blk_size s f" "24 \<le> blk_size s f - n"
  defines "s2 \<equiv> unlink_block (last (0 # pre)) f (split_block f n s)"
  shows "heap_ok s2 (pre @ remainder s f n @ post) (f # us)"
proof (cases "32 \<le> blk_size s f - n - 24")
  case False
  then have sp: "split_block f n s = s" and rem: "remainder s f n = []"
    using fit no_split by (auto simp: remainder_def)
  show ?thesis unfolding s2_def sp rem
    using ok chain_after by (intro unlink_ok [where rs = "[]", OF ok]) (auto simp: heap_ok_def)
next
  case True
  let ?s1 = "split_block f n s" and ?new = "f + 24 + n"
  have rem: "remainder s f n = [?new]" using True by (simp add: remainder_def)
  have room: "unat n + 56 \<le> unat (blk_size s f)" by (rule fit_cases [OF fit True])
  have fx: "unat f + 24 + unat (blk_size s f) < 2 ^ 64" using ok by (simp add: heap_ok_def)
  then have ext: "24 + unat (blk_size s f) < 2 ^ 64" by simp
  note h = split_headers [OF ext room]
  have "unat (of_nat (24 + unat n) :: u64) = 24 + unat n" using ext room by (intro unat_of_nat_lt) simp
  then have "unat (f + of_nat (24 + unat n)) = unat f + (24 + unat n)"
    using fx room by (subst unat_add_lem [THEN iffD1]) simp_all
  then have unew: "unat ?new = unat f + 24 + unat n" by (simp add: add.assoc)
  have ap: "apart f (24 + unat (blk_size s f)) b (24 + unat (blk_size s b))" if "b \<in> set (pre @ post @ us)" for b
    using heap_ok_apart [OF ok, of f b] heap_ok_distinct [OF ok] that by (auto simp: blocks_apart_def)
  have same: "block_at (ram ?s1) b = block_at (ram s) b" if "b \<in> set (pre @ post @ us)" for b
    by (rule h(6)) (rule apart_mono [OF ap [OF that]], simp_all)
  have "chain (blk_next s) (blk_next s f) post" using ok chain_after unfolding heap_ok_def by blast
  then have link: "chain (blk_next ?s1) (blk_next s f) post"
    using chain_cong [of post "blk_next ?s1" "blk_next s"] same by (simp add: blk_next_def)
  show ?thesis unfolding s2_def rem
  proof (rule unlink_ok [OF ok])
    show "chain (blk_next ?s1) (blk_next ?s1 f) ([?new] @ post)"
      using link h(1,2) unew by (auto simp: blk_next_def unat_eq_0 [symmetric])
    show "hb_magic (block_at (ram ?s1) r) = HEAP_MAGIC \<and> hb_is_free (block_at (ram ?s1) r) \<noteq> 0 \<and>
        unat r + 24 + unat (blk_size ?s1 r) < 2 ^ 64 \<and> blocks_apart ?s1 f r" if "r \<in> set [?new]" for r
      using that h(1-4) unew fx room by (auto simp: blk_size_def blocks_apart_def)
    show "apart r (24 + unat (blk_size ?s1 r)) b k"
      if "r \<in> set [?new]" "apart f (24 + unat (blk_size s f)) b k" for r b k
      using h(5) [OF that(2)] h(2) that(1) by (simp add: blk_size_def)
  qed (use h(1,8) same ok room in \<open>auto simp: heap_ok_def blk_size_def\<close>)
qed

text \<open>A split changes nothing outside the block it splits.\<close>

lemma split_outside:
  assumes fit: "n \<le> blk_size s f" "24 \<le> blk_size s f - n" and ext: "24 + unat (blk_size s f) < 2 ^ 64"
  shows "apart f (24 + unat (blk_size s f)) b 24 \<Longrightarrow> block_at (ram (split_block f n s)) b = block_at (ram s) b"
    and "apart f (24 + unat (blk_size s f)) b k \<Longrightarrow> k < 2 ^ 64 \<Longrightarrow> ld (ram (split_block f n s)) b k = ld (ram s) b k"
    and "n \<le> blk_size (split_block f n s) f"
proof (atomize (full), cases "32 \<le> blk_size s f - n - 24")
  case True
  note h = split_headers [OF ext fit_cases [OF fit True]]
  show "(apart f (24 + unat (blk_size s f)) b 24 \<longrightarrow> block_at (ram (split_block f n s)) b = block_at (ram s) b) \<and>
      (apart f (24 + unat (blk_size s f)) b k \<longrightarrow> k < 2 ^ 64 \<longrightarrow> ld (ram (split_block f n s)) b k = ld (ram s) b k) \<and>
      n \<le> blk_size (split_block f n s) f"
    using h(1,6,7) by (auto simp: blk_size_def)
next
  case False
  then show "(apart f (24 + unat (blk_size s f)) b 24 \<longrightarrow> block_at (ram (split_block f n s)) b = block_at (ram s) b) \<and>
      (apart f (24 + unat (blk_size s f)) b k \<longrightarrow> k < 2 ^ 64 \<longrightarrow> ld (ram (split_block f n s)) b k = ld (ram s) b k) \<and>
      n \<le> blk_size (split_block f n s) f"
    using no_split [OF fit] fit by simp
qed

lemma apart_payload: "apart a (24 + k) b j \<Longrightarrow> 0 < k \<Longrightarrow> 24 + k < 2 ^ 64 \<Longrightarrow> apart (a + 24) k b j"
  using apart_inside [of a "24 + k" b j 24 k] by simp

lemma payload_far:
  assumes "blocks_apart s a c" "unat (blk_size s a) \<noteq> 0" "24 + unat (blk_size s a) < 2 ^ 64"
  shows "apart c (24 + unat (blk_size s c)) (a + 24) (unat (blk_size s a))"
    and "apart c 24 (a + 24) (unat (blk_size s a))"
proof -
  have "apart (a + 24) (unat (blk_size s a)) c (24 + unat (blk_size s c))"
    using assms by (intro apart_payload) (auto simp: blocks_apart_def)
  then show far: "apart c (24 + unat (blk_size s c)) (a + 24) (unat (blk_size s a))"
    by (subst apart_sym)
  show "apart c 24 (a + 24) (unat (blk_size s a))" by (rule apart_mono [OF far]) simp_all
qed

lemma heap_take_data:
  assumes ok: "heap_ok s (pre @ f # post) us" and fit: "n \<le> blk_size s f" "24 \<le> blk_size s f - n"
    and a: "a \<in> set us"
  defines "s2 \<equiv> unlink_block (last (0 # pre)) f (split_block f n s)"
  shows "blk_size s2 a = blk_size s a"
    and "ld (ram s2) (a + 24) (unat (blk_size s a)) = ld (ram s) (a + 24) (unat (blk_size s a))"
proof -
  let ?prev = "last (0 # pre)" and ?k = "unat (blk_size s a)" and ?s1 = "split_block f n s"
  have dist: "distinct ((pre @ f # post) @ us)" by (rule heap_ok_distinct [OF ok])
  have prev: "?prev = 0 \<or> ?prev \<in> set pre" by simp
  have ext: "24 + unat (blk_size s f) < 2 ^ 64" "24 + ?k < 2 ^ 64" using a by (intro heap_ok_extent(2) [OF ok]; simp)+
  have "a \<noteq> f" "?prev \<noteq> 0 \<Longrightarrow> ?prev \<in> set pre \<and> a \<noteq> ?prev \<and> ?prev \<noteq> f"
    using a dist prev by (auto simp del: last.simps)
  then have ap: "blocks_apart s a f" "?prev \<noteq> 0 \<Longrightarrow> blocks_apart s a ?prev" "?prev \<noteq> 0 \<Longrightarrow> blocks_apart s ?prev f"
    using a by (auto intro!: heap_ok_apart [OF ok] simp del: last.simps)
  note hdr = ap [THEN blocks_apart_header]
  have "apart f (24 + unat (blk_size s f)) a 24"
    using ap(1) unfolding blocks_apart_def apart_sym [of a] by (rule apart_mono) simp_all
  then have "blk_size ?s1 a = blk_size s a" using split_outside(1) [OF fit ext(1)] by (simp add: blk_size_def)
  then show "blk_size s2 a = blk_size s a"
    using unlink_sizes(1) [of ?prev f a ?s1] hdr apart_sym [of a] unfolding s2_def by metis
  show "ld (ram s2) (a + 24) ?k = ld (ram s) (a + 24) ?k"
  proof (cases "?k = 0")
    case False
    then have far: "apart f (24 + unat (blk_size s f)) (a + 24) ?k" "apart f 24 (a + 24) ?k"
      "?prev \<noteq> 0 \<Longrightarrow> apart ?prev 24 (a + 24) ?k"
      using payload_far [OF _ _ ext(2)] ap by blast+
    then show ?thesis using split_outside(2) [OF fit ext(1) far(1)] ext(2)
        unlink_headers(4) [of ?prev f "a + 24" ?k ?s1] hdr unfolding s2_def by (metis add_lessD1 add.commute)
  qed (simp add: ld_def)
qed

lemma heap_take_size:
  assumes ok: "heap_ok s (pre @ f # post) us" and fit: "n \<le> blk_size s f" "24 \<le> blk_size s f - n"
  shows "n \<le> blk_size (unlink_block (last (0 # pre)) f (split_block f n s)) f"
proof -
  let ?prev = "last (0 # pre)"
  have "?prev \<noteq> 0 \<Longrightarrow> ?prev \<in> set pre \<and> ?prev \<noteq> f"
    using heap_ok_distinct [OF ok] by (cases pre rule: rev_cases) auto
  then have "?prev \<noteq> 0 \<Longrightarrow> apart ?prev 24 f 24"
    by (intro blocks_apart_header [OF heap_ok_apart [OF ok]]) (auto simp del: last.simps)
  moreover have "n \<le> blk_size (split_block f n s) f"
    by (rule split_outside(3) [OF fit]) (rule heap_ok_extent(2) [OF ok], simp)
  ultimately show ?thesis using unlink_sizes(1) [of ?prev f f "split_block f n s"] by metis
qed

section \<open>Freeing\<close>

text \<open>The blocks of a region, one after the other, from an address to the end of the region.\<close>

fun tiles :: "memory_state \<Rightarrow> u64 \<Rightarrow> u64 list \<Rightarrow> u64 \<Rightarrow> bool" where
  "tiles s a [] e \<longleftrightarrow> a = e"
| "tiles s a (b # bs) e \<longleftrightarrow> a = b \<and> hb_magic (block_at (ram s) b) = HEAP_MAGIC \<and>
     tiles s (b + 24 + blk_size s b) bs e"

text \<open>No two consecutive blocks are both free.\<close>

fun no_free_pair :: "memory_state \<Rightarrow> u64 list \<Rightarrow> bool" where
  "no_free_pair s (a # b # bs) \<longleftrightarrow>
     (hb_is_free (block_at (ram s) a) = 0 \<or> hb_is_free (block_at (ram s) b) = 0) \<and> no_free_pair s (b # bs)"
| "no_free_pair s _ \<longleftrightarrow> True"

lemma coalesce_tiles:
  assumes "tiles s a bs e" "no_free_pair s bs" "\<not> e < kernel_heap_base s + kernel_heap_used s"
  shows "coalesce_from a s = Some s"
  using assms
proof (induction bs arbitrary: a)
  case Nil
  then show ?case by (subst coalesce_from.simps) simp
next
  case (Cons b bs)
  have IH: "coalesce_from (b + 24 + blk_size s b) s = Some s"
    using Cons.prems by (intro Cons.IH) (auto elim: no_free_pair.elims)
  have "hb_is_free (block_at (ram s) b) = 0 \<or>
      \<not> b + 24 + blk_size s b < kernel_heap_base s + kernel_heap_used s \<or>
      hb_is_free (block_at (ram s) (b + 24 + blk_size s b)) = 0"
    using Cons.prems by (cases bs) auto
  with IH Cons.prems(1) show ?case
    by (subst coalesce_from.simps) (auto simp: Let_def HEAP_BLOCK_HEADER_SIZE_def blk_size_def)
qed

definition give_back :: "u64 \<Rightarrow> memory_state \<Rightarrow> memory_state" where
  "give_back a s =
     (let s = s\<lparr>ram := set_next a (heap_free_list s) (set_is_free a 1 (ram s)), heap_free_list := a\<rparr>
      in s\<lparr>kernel_heap_used := kernel_heap_used s - (24 + blk_size s a), free_count := free_count s + 1\<rparr>)"

lemma kfree_eq:
  assumes "hb_magic (block_at (ram s) a) = HEAP_MAGIC" "hb_is_free (block_at (ram s) a) = 0" "a + 24 \<noteq> 0"
  shows "kfree (a + 24) s = coalesce_blocks (give_back a s)"
  using assms by (simp add: kfree_def give_back_def Let_def HEAP_BLOCK_HEADER_SIZE_def blk_size_def)

lemma give_back_headers:
  "block_at (ram (give_back a s)) a = (block_at (ram s) a)\<lparr>hb_is_free := 1, hb_next := heap_free_list s\<rparr>"
  "apart a 24 b 24 \<Longrightarrow> block_at (ram (give_back a s)) b = block_at (ram s) b"
  "apart a 24 b k \<Longrightarrow> k < 2 ^ 64 \<Longrightarrow> ld (ram (give_back a s)) b k = ld (ram s) b k"
  "heap_free_list (give_back a s) = a"
  by (simp_all add: give_back_def Let_def block_at_set_apart ld_set_apart)

lemma give_back_ok:
  assumes ok: "heap_ok s fs us" and a: "a \<in> set us" "a \<noteq> 0"
  shows "heap_ok (give_back a s) (a # fs) (remove1 a us)"
proof -
  let ?s = "give_back a s"
  have dist: "distinct (fs @ us)" by (rule heap_ok_distinct [OF ok])
  have far: "apart a 24 b 24" if "b \<in> set (fs @ us)" "b \<noteq> a" for b
    using heap_ok_apart [OF ok, of a b] a that by (auto intro: blocks_apart_header)
  have same: "block_at (ram ?s) b = block_at (ram s) b" if "b \<in> set (fs @ us)" "b \<noteq> a" for b
    using far [OF that] give_back_headers(2) by blast
  have size: "blk_size ?s b = blk_size s b \<and> hb_magic (block_at (ram ?s) b) = hb_magic (block_at (ram s) b)"
    if "b \<in> set (fs @ us)" for b
    using that same [of b] give_back_headers(1) [of a s] by (cases "b = a") (auto simp: blk_size_def)
  have nf: "a \<notin> set fs" using dist a by auto
  have "blk_next ?s b = blk_next s b" if "b \<in> set fs" for b
    using same [of b] that nf by (cases "b = a") (auto simp: blk_next_def)
  then have "chain (blk_next ?s) (heap_free_list s) fs"
    using ok chain_cong [of fs "blk_next ?s" "blk_next s"] unfolding heap_ok_def by blast
  then have "chain (blk_next ?s) (heap_free_list ?s) (a # fs)"
    using give_back_headers(1,4) [of a s] a(2) by (simp add: blk_next_def)
  moreover have "sorted_wrt (blocks_apart ?s) ((a # fs) @ remove1 a us)"
  proof (rule sorted_wrt_pairsI)
    show "distinct ((a # fs) @ remove1 a us)" using dist nf by (auto simp: distinct_remove1 dest: in_set_remove1 [THEN iffD1, rotated])
    show "blocks_apart ?s x y" if "x \<in> set ((a # fs) @ remove1 a us)" "y \<in> set ((a # fs) @ remove1 a us)" "x \<noteq> y" for x y
    proof -
      have "x \<in> set (fs @ us)" "y \<in> set (fs @ us)" using that a(1) by (auto dest: notin_set_remove1 [rotated] set_remove1_subset [THEN subsetD])
      then show ?thesis using heap_ok_apart [OF ok, of x y] size [of x] size [of y] that(3)
        by (simp add: blocks_apart_def)
    qed
  qed
  moreover have "hb_magic (block_at (ram ?s) b) = HEAP_MAGIC \<and> unat b + 24 + unat (blk_size ?s b) < 2 ^ 64"
    if "b \<in> set (a # fs) \<union> set (remove1 a us)" for b
    using that ok a(1) size [of b] heap_ok_extent [OF ok, of b] by (auto simp: heap_ok_def dest: set_remove1_subset [THEN subsetD])
  moreover have "hb_is_free (block_at (ram ?s) b) \<noteq> 0" if "b \<in> set (a # fs)" for b
    using that same [of b] give_back_headers(1) [of a s] ok nf by (cases "b = a") (auto simp: heap_ok_def)
  moreover have "hb_is_free (block_at (ram ?s) b) = 0" if "b \<in> set (remove1 a us)" for b
    using that same [of b] ok dist by (cases "b = a") (auto simp: heap_ok_def)
  ultimately show ?thesis unfolding heap_ok_def by blast
qed

section \<open>Properties of the page allocator\<close>


definition blank_state :: memory_state where
  "blank_state = \<lparr>ram = (\<lambda>_. 0), free_list = 0, total_pages = 0, used_pages = 0, kernel_heap_base = 0,
     kernel_heap_size = 0, kernel_heap_used = 0, heap_free_list = 0, kernel_stack_base = 0,
     kernel_stack_top = 0, alloc_count = 0, free_count = 0, split_count = 0, coalesce_count = 0\<rparr>"





lemma region_page_nonzero:
  fixes b :: u64
  assumes "unat b + n * 4096 \<le> 2 ^ 64" "b \<noteq> 0" "p < n"
  shows "unat (b + of_nat p * 4096) = unat b + p * 4096"
proof -
  have "unat (of_nat (p * 4096) :: u64) = p * 4096" using assms by (intro unat_of_nat_lt) simp
  moreover from this have "unat b + unat (of_nat (p * 4096) :: u64) < 2 ^ 64" using assms by simp
  then have "unat (b + of_nat (p * 4096)) = unat b + unat (of_nat (p * 4096) :: u64)"
    by (rule unat_add_u64)
  ultimately show ?thesis by simp
qed

text \<open>
  Right after boot on one usable region, a request for several pages returns the highest page of
  the region and takes the pages below it, so that the run of pages starting at the returned address
  leaves the region as soon as more than one page is asked for.
\<close>

theorem pmm_alloc_pages_descending:
  assumes "Type d = EfiConventionalMemory" and "PhysicalStart d \<noteq> 0"
    and "unat (PhysicalStart d) + unat (NumberOfPages d) * 4096 \<le> 2 ^ 64"
    and "0 < count" and "count \<le> NumberOfPages d"
  shows "unat (fst (pmm_alloc_pages count (pmm_init [d] s))) =
      unat (PhysicalStart d) + (unat (NumberOfPages d) - 1) * 4096 \<and>
    pmm_list (snd (pmm_alloc_pages count (pmm_init [d] s)))
      (rev (take (unat (NumberOfPages d) - unat count) (region_pages d)))"
proof -
  let ?b = "PhysicalStart d" and ?n = "unat (NumberOfPages d)"
  have rp: "region_pages d = map (\<lambda>p. ?b + of_nat p * 4096) [0..<?n]" using assms(1) by (simp add: region_pages_def)
  have c: "0 < unat count" "unat count \<le> ?n" using assms(4,5) by (simp_all add: word_le_nat_alt word_less_nat_alt)
  have "0 \<notin> set (region_pages d)"
    using region_page_nonzero [OF assms(3,2)] assms(2) by (auto simp: rp unat_eq_0 [symmetric])
  then have l: "pmm_list (pmm_init [d] s) (rev (region_pages d))"
    using pmm_init_list(1) [of "[d]" s] region_pages_apart [OF assms(3)] by (simp add: rp)
  obtain s' where s': "pmm_alloc_pages count (pmm_init [d] s) =
      (if unat count \<le> length (rev (region_pages d)) then hd (rev (region_pages d)) else 0, s')"
    "pmm_list s' (drop (unat count) (rev (region_pages d)))"
    using pmm_alloc_pages_list [OF l assms(4)] by blast
  have len: "length (region_pages d) = ?n" by (simp add: rp)
  have "hd (rev (region_pages d)) = ?b + of_nat (?n - 1) * 4096"
    using c by (cases ?n) (simp_all add: rp hd_rev)
  with s' c len region_page_nonzero [OF assms(3,2), of "?n - 1"] show ?thesis
    by (simp add: drop_rev)
qed

theorem pmm_alloc_pages_descending_witness:
  "unat (fst (pmm_alloc_pages 16 (pmm_init [\<lparr>Type = 7, PhysicalStart = 0x100000, NumberOfPages = 64\<rparr>] blank_state))) =
     0x100000 + 63 * 4096"
  using pmm_alloc_pages_descending [of "\<lparr>Type = 7, PhysicalStart = 0x100000, NumberOfPages = 64\<rparr>" 16 blank_state]
  by (simp add: EfiConventionalMemory_def)

section \<open>Properties of the heap\<close>

text \<open>
  C4: With a sound heap, when the first free block whose size reaches the aligned request exceeds it by at least 24
  bytes, the room of another header, an allocation returns the payload of that block; the heap stays sound with that
  block in use, its size is at least the aligned request, and the sizes and contents of all blocks in use are
  unchanged. On a tighter fit the size of the remainder wraps around.
\<close>

theorem kmalloc_first_fit:
  assumes "heap_ok s (pre @ f # post) us" and "n \<noteq> 0"
    and "\<forall>a \<in> set pre. blk_size s a < align_size n"
    and "align_size n \<le> blk_size s f" and "24 \<le> blk_size s f - align_size n"
  shows "\<exists>s'. kmalloc n s = Some (f + 24, s') \<and> heap_ok s' (pre @ remainder s f (align_size n) @ post) (f # us) \<and>
    align_size n \<le> blk_size s' f \<and> kernel_heap_used s' = kernel_heap_used s + (24 + align_size n) \<and>
    (\<forall>a \<in> set us. blk_size s' a = blk_size s a \<and>
       ld (ram s') (a + 24) (unat (blk_size s a)) = ld (ram s) (a + 24) (unat (blk_size s a)))"
proof -
  let ?k = "align_size n" and ?prev = "last (0 # pre)"
  let ?t = "unlink_block ?prev f (split_block f ?k s)"
  have "heap_find s ?k 0 (heap_free_list s) = Some (Fits ?prev f)"
    using assms by (intro heap_find_first [where post = post]) (auto simp: heap_ok_def)
  then have "kmalloc n s = Some (heap_take ?k ?prev f s)"
    using assms(2) by (subst kmalloc.simps) (simp add: Let_def)
  moreover have "heap_ok ?t (pre @ remainder s f ?k @ post) (f # us)"
    by (rule heap_take_ok [OF assms(1,4,5)])
  moreover have "?k \<le> blk_size ?t f" by (rule heap_take_size [OF assms(1,4,5)])
  moreover have "\<forall>a \<in> set us. blk_size ?t a = blk_size s a \<and>
      ld (ram ?t) (a + 24) (unat (blk_size s a)) = ld (ram s) (a + 24) (unat (blk_size s a))"
    using heap_take_data [OF assms(1,4,5)] by blast
  moreover have "heap_take ?k ?prev f s = (f + 24, ?t\<lparr>kernel_heap_used := kernel_heap_used s + (24 + ?k), alloc_count := alloc_count s + 1\<rparr>)"
    by (rule heap_take_eq)
  ultimately show ?thesis
    using heap_ok_cong [of "?t\<lparr>kernel_heap_used := kernel_heap_used s + (24 + ?k), alloc_count := alloc_count s + 1\<rparr>" ?t]
    by (simp add: blk_size_def)
qed

text \<open>A heap as the initialisation leaves it, at a given base address.\<close>

definition fresh_heap :: "u64 \<Rightarrow> memory_state" where
  "fresh_heap base = blank_state\<lparr>kernel_heap_base := base, kernel_heap_size := 65536, heap_free_list := base,
     ram := write_block base \<lparr>hb_size = 65512, hb_next = 0, hb_is_free = 1, hb_magic = HEAP_MAGIC\<rparr> (\<lambda>_. 0)\<rparr>"

lemma fresh_heap_block:
  "block_at (ram (fresh_heap base)) base = \<lparr>hb_size = 65512, hb_next = 0, hb_is_free = 1, hb_magic = HEAP_MAGIC\<rparr>"
  by (simp add: fresh_heap_def)

lemma fresh_heap_ok: "base \<noteq> 0 \<Longrightarrow> unat base + 65536 < 2 ^ 64 \<Longrightarrow> heap_ok (fresh_heap base) [base] []"
  unfolding heap_ok_def blk_size_def blk_next_def using fresh_heap_block [of base]
  by (simp add: fresh_heap_def blank_state_def)

theorem kmalloc_first_fit_witness:
  "\<exists>s'. kmalloc 100 (fresh_heap 0x100000) = Some (0x100018, s') \<and>
     heap_ok s' [0x100088] [0x100000] \<and> 112 \<le> blk_size s' 0x100000"
proof -
  have a: "align_size 100 = 112" by (simp add: align_size_def HEAP_ALIGN_def)
  have z: "blk_size (fresh_heap 0x100000) 0x100000 = 65512" by (simp add: blk_size_def fresh_heap_block)
  have "heap_ok (fresh_heap 0x100000) ([] @ 0x100000 # []) []" using fresh_heap_ok [of "0x100000"] by simp
  from kmalloc_first_fit [OF this, where n = 100] show ?thesis by (auto simp: a z remainder_def)
qed

text \<open>
  C10: With a sound heap whose blocks, once the block is marked free, lie one behind the other from the base of the heap to
  at least the end of its used part, and among which no two neighbours are then both free, anywhere in the heap: freeing a block in
  use returns (the coalescing loop ends without merging anything), puts the block at the head of the free list, keeps the heap sound
  and leaves the sizes and contents of the other blocks in use alone. When two neighbours are free, merging them
  leaves a cycle in the free list.
\<close>

theorem kfree_sound:
  assumes "heap_ok s fs us" and "a \<in> set us" and "a \<noteq> 0"
    and "tiles (give_back a s) (kernel_heap_base s) bs e"
    and "no_free_pair (give_back a s) bs"
    and "\<not> e < kernel_heap_base s + (kernel_heap_used s - (24 + blk_size s a))"
  shows "\<exists>s'. kfree (a + 24) s = Some s' \<and> heap_ok s' (a # fs) (remove1 a us) \<and>
    (\<forall>b \<in> set us. b \<noteq> a \<longrightarrow> blk_size s' b = blk_size s b \<and>
       ld (ram s') (b + 24) (unat (blk_size s b)) = ld (ram s) (b + 24) (unat (blk_size s b)))"
proof -
  let ?s = "give_back a s"
  have hd: "hb_magic (block_at (ram s) a) = HEAP_MAGIC" "hb_is_free (block_at (ram s) a) = 0"
    using assms(1,2) by (auto simp: heap_ok_def)
  have "unat (a + 24) = unat a + 24" using heap_ok_extent [OF assms(1), of a] assms(2) unat_add_u64 [of a 24] by simp
  then have nz: "a + 24 \<noteq> 0" by (auto simp: unat_eq_0 [symmetric])
  have base: "kernel_heap_base ?s = kernel_heap_base s"
    "kernel_heap_used ?s = kernel_heap_used s - (24 + blk_size s a)"
    by (simp_all add: give_back_def Let_def blk_size_def)
  have "coalesce_blocks ?s = Some ?s" unfolding coalesce_blocks_def base
    by (rule coalesce_tiles [OF assms(4,5)]) (use assms(6) base in simp)
  then have "kfree (a + 24) s = Some ?s" using kfree_eq [OF hd nz] by simp
  moreover have "blk_size ?s b = blk_size s b \<and>
      ld (ram ?s) (b + 24) (unat (blk_size s b)) = ld (ram s) (b + 24) (unat (blk_size s b))"
    if "b \<in> set us" "b \<noteq> a" for b
  proof -
    have ap: "blocks_apart s b a" using heap_ok_apart [OF assms(1), of b a] that assms(2) by simp
    then have "apart a 24 b 24" using blocks_apart_header apart_sym by blast
    moreover have "apart a 24 (b + 24) (unat (blk_size s b)) \<or> unat (blk_size s b) = 0"
      using payload_far(2) [OF ap] heap_ok_extent(2) [OF assms(1), of b] that by auto
    ultimately show ?thesis
      using give_back_headers(2) [of a b s] give_back_headers(3) [of a "b + 24" "unat (blk_size s b)" s]
        heap_ok_extent(2) [OF assms(1), of b] that by (auto simp: blk_size_def ld_def)
  qed
  ultimately show ?thesis using give_back_ok [OF assms(1-3)] by blast
qed

text \<open>
  A client that writes inside the block it was given never disturbs the heap: every header, the
  free list and the soundness of the heap are unchanged.
\<close>

theorem heap_client_writes:
  assumes "heap_ok s fs us" and "a \<in> set us" and "off + length bs \<le> unat (blk_size s a)"
  shows "heap_ok (s\<lparr>ram := st (ram s) (a + 24 + of_nat off) bs\<rparr>) fs us"
proof (cases "bs = []")
  case True
  then have "st (ram s) (a + 24 + of_nat off) bs = ram s" by (simp add: st_def)
  with assms(1) show ?thesis by simp
next
  case False
  let ?k = "unat (blk_size s a)" and ?m = "st (ram s) (a + 24 + of_nat off) bs"
  have ext: "24 + ?k < 2 ^ 64" using heap_ok_extent(2) [OF assms(1), of a] assms(2) by simp
  have pos: "0 < ?k" using False assms(3) by (cases bs) auto
  have in_block: "apart (a + 24 + of_nat off) (length bs) b j" if "apart (a + 24) ?k b j" for b j
    using that assms(3) False ext by (intro apart_inside) auto
  have own: "apart (a + 24) ?k a 24" using apart_offsets(2) [of 24 0 24 ?k a] ext by simp
  have "block_at ?m b = block_at (ram s) b" if "b \<in> set fs \<union> set us" for b
  proof (rule block_at_st_apart [OF in_block refl])
    show "apart (a + 24) ?k b 24"
    proof (cases "b = a")
      case False
      then have "blocks_apart s a b" using heap_ok_apart [OF assms(1), of a b] assms(2) that by auto
      from payload_far(2) [OF this _ ext] pos show ?thesis by (subst apart_sym) simp
    qed (use own in simp)
  qed
  then have "block_at (ram (s\<lparr>ram := ?m\<rparr>)) b = block_at (ram s) b" if "b \<in> set fs \<union> set us" for b
    using that by simp
  then show ?thesis using heap_ok_same_headers [OF assms(1)] by simp
qed

section \<open>Cyclic free lists\<close>

lemma heap_find_cycle:
  assumes "a \<noteq> 0" "hb_magic (block_at (ram s) a) = HEAP_MAGIC" "blk_size s a < n" "blk_next s a = a"
  shows "heap_find s n prev a = None"
proof -
  have "heap_find s n prev a \<noteq> Some y" for y
  proof
    assume some: "heap_find s n prev a = Some y"
    have "t = s \<and> k = n \<and> c = a \<longrightarrow> False" if "heap_find t k p c = Some y" for t k p c y
      using that
    proof (rule heap_find.raw_induct [rotated])
      fix f t k p c y
      assume IH: "\<And>t k p c y. f t k p c = Some y \<Longrightarrow> t = s \<and> k = n \<and> c = a \<longrightarrow> False"
        and step: "(if c = 0 then Some Exhausted else let b = block_at (ram t) c in
            if hb_magic b \<noteq> HEAP_MAGIC then Some Corrupt
            else if hb_is_free b \<noteq> 0 \<and> k \<le> hb_size b then Some (Fits p c) else f t k c (hb_next b)) = Some y"
      show "t = s \<and> k = n \<and> c = a \<longrightarrow> False"
        using assms step IH [of s n a a y] by (auto simp: Let_def blk_size_def blk_next_def split: if_splits)
    qed
    with some show False by blast
  qed
  then show ?thesis by auto
qed

text \<open>One merge of the coalescing loop.\<close>

definition merge_block :: "u64 \<Rightarrow> u64 \<Rightarrow> memory_state \<Rightarrow> memory_state" where
  "merge_block a b s =
     s\<lparr>ram := set_next a (blk_next s b) (set_size a (blk_size s a + (24 + blk_size s b)) (ram s)),
       coalesce_count := coalesce_count s + 1\<rparr>"

lemma coalesce_merge:
  assumes "b = a + 24 + blk_size s a" "a < kernel_heap_base s + kernel_heap_used s"
    "b < kernel_heap_base s + kernel_heap_used s" "apart a 24 b 24"
    "hb_magic (block_at (ram s) a) = HEAP_MAGIC" "hb_is_free (block_at (ram s) a) \<noteq> 0"
    "hb_magic (block_at (ram s) b) = HEAP_MAGIC" "hb_is_free (block_at (ram s) b) \<noteq> 0"
  shows "coalesce_from a s = coalesce_from a (merge_block a b s)"
  using assms by (subst coalesce_from.simps)
    (simp add: Let_def merge_block_def HEAP_BLOCK_HEADER_SIZE_def blk_size_def blk_next_def block_at_set_apart)

text \<open>
  C24: When the first block of the heap is at the head of the free list and its neighbour in memory is
  freed below the coalescing limit, the merge makes the first block its own successor: the free list
  becomes cyclic, and every later allocation too big for the two blocks never returns.
\<close>

theorem kfree_adjacent_cycle:
  assumes "heap_ok s (a # fs) us" and "b \<in> set us" and "b \<noteq> 0" and "kernel_heap_base s = a"
    and "b = a + 24 + blk_size s a"
    and "a < a + (kernel_heap_used s - (24 + blk_size s b))" and "b < a + (kernel_heap_used s - (24 + blk_size s b))"
    and "tiles (merge_block a b (give_back b s)) a bs e" and "no_free_pair (merge_block a b (give_back b s)) bs"
    and "\<not> e < a + (kernel_heap_used s - (24 + blk_size s b))"
    and "n \<noteq> 0" and "blk_size s b < align_size n" and "blk_size s a + (24 + blk_size s b) < align_size n"
  shows "\<exists>s'. kfree (b + 24) s = Some s' \<and> heap_free_list s' = b \<and> blk_next s' b = a \<and> blk_next s' a = a \<and>
    kmalloc n s' = None"
proof -
  let ?s1 = "give_back b s" and ?s2 = "merge_block a b (give_back b s)"
  have ok1: "heap_ok ?s1 (b # a # fs) (remove1 b us)" by (rule give_back_ok [OF assms(1-3)])
  have ap: "apart a 24 b 24" using heap_ok_apart [OF ok1, of a b] heap_ok_distinct [OF ok1] blocks_apart_header by auto
  have hd: "hb_magic (block_at (ram s) b) = HEAP_MAGIC" "hb_is_free (block_at (ram s) b) = 0" "heap_free_list s = a" "a \<noteq> 0"
    using assms(1,2) by (auto simp: heap_ok_def)
  have "unat (b + 24) = unat b + 24" using heap_ok_extent [OF assms(1), of b] assms(2) unat_add_u64 [of b 24] by simp
  then have nz: "b + 24 \<noteq> 0" by (auto simp: unat_eq_0 [symmetric])
  have ba: "block_at (ram ?s1) a = block_at (ram s) a" using give_back_headers(2) ap apart_sym by blast
  have bb: "block_at (ram ?s1) b = (block_at (ram s) b)\<lparr>hb_is_free := 1, hb_next := a\<rparr>"
    using give_back_headers(1) hd(3) by simp
  have glob: "kernel_heap_base ?s1 = a" "kernel_heap_used ?s1 = kernel_heap_used s - (24 + blk_size s b)"
    using assms(4) by (simp_all add: give_back_def Let_def blk_size_def)
  have glob2: "kernel_heap_base ?s2 = a" "kernel_heap_used ?s2 = kernel_heap_used s - (24 + blk_size s b)"
    using glob by (simp_all add: merge_block_def)
  have "coalesce_from a ?s1 = coalesce_from a ?s2"
  proof (rule coalesce_merge)
    show "hb_is_free (block_at (ram ?s1) a) \<noteq> 0" "hb_magic (block_at (ram ?s1) a) = HEAP_MAGIC"
      using ok1 by (simp_all add: heap_ok_def)
  qed (use assms ap glob ba bb hd in \<open>simp_all add: blk_size_def\<close>)
  also have "\<dots> = Some ?s2" by (rule coalesce_tiles [OF assms(8,9)]) (use assms(10) glob2 in simp)
  finally have k: "kfree (b + 24) s = Some ?s2"
    using kfree_eq [OF hd(1,2) nz] glob(1) by (simp add: coalesce_blocks_def)
  have a2: "block_at (ram ?s2) a = (block_at (ram s) a)\<lparr>hb_size := blk_size s a + (24 + blk_size s b), hb_next := a\<rparr>"
    using ba bb by (simp add: merge_block_def blk_size_def blk_next_def)
  have b2: "block_at (ram ?s2) b = block_at (ram ?s1) b" using ap by (simp add: merge_block_def block_at_set_apart)
  have fl: "heap_free_list ?s2 = b" by (simp add: merge_block_def give_back_headers(4))
  have ma: "hb_magic (block_at (ram s) a) = HEAP_MAGIC" using assms(1) by (simp add: heap_ok_def)
  have "heap_find ?s2 (align_size n) b a = None"
    using a2 ma hd(4) assms(13) by (intro heap_find_cycle) (simp_all add: blk_size_def blk_next_def)
  then have "heap_find ?s2 (align_size n) 0 b = None"
    using b2 bb hd(1) assms(3,12) by (subst heap_find.simps) (simp add: Let_def blk_size_def)
  then have "kmalloc n ?s2 = None" using fl assms(11) by (subst kmalloc.simps) (simp add: Let_def)
  then show ?thesis using k fl a2 b2 bb by (auto simp: blk_next_def)
qed

section \<open>Concrete heaps\<close>

text \<open>
  Three consecutive blocks at 0x1000, 0x1038 and 0x1070; the first one is free or in use, the others
  are in use.
\<close>

definition three_blocks :: "bool \<Rightarrow> memory_state" where
  "three_blocks free = blank_state\<lparr>kernel_heap_base := 0x1000, kernel_heap_size := 65536,
     kernel_heap_used := (if free then 1104 else 1160), heap_free_list := (if free then 0x1000 else 0),
     ram := write_block 0x1070 \<lparr>hb_size = 1024, hb_next = 0, hb_is_free = 0, hb_magic = HEAP_MAGIC\<rparr>
           (write_block 0x1038 \<lparr>hb_size = 32, hb_next = 0, hb_is_free = 0, hb_magic = HEAP_MAGIC\<rparr>
           (write_block 0x1000 \<lparr>hb_size = 32, hb_next = 0, hb_is_free = (if free then 1 else 0), hb_magic = HEAP_MAGIC\<rparr> (\<lambda>_. 0)))\<rparr>"

lemma headers_apart [simp]:
  "apart 0x1000 24 0x1038 24" "apart 0x1000 24 0x1070 24" "apart 0x1038 24 0x1000 24"
  "apart 0x1038 24 0x1070 24" "apart 0x1070 24 0x1000 24" "apart 0x1070 24 0x1038 24"
  by (simp_all add: apart_def)

lemma write_block_other: "apart a 24 b 24 \<Longrightarrow> block_at (write_block a h m) b = block_at m b"
  by (simp add: write_block_def block_at_set_apart)

lemma three_blocks_headers [simp]:
  "block_at (ram (three_blocks free)) 0x1000 =
     \<lparr>hb_size = 32, hb_next = 0, hb_is_free = (if free then 1 else 0), hb_magic = HEAP_MAGIC\<rparr>"
  "block_at (ram (three_blocks free)) 0x1038 = \<lparr>hb_size = 32, hb_next = 0, hb_is_free = 0, hb_magic = HEAP_MAGIC\<rparr>"
  "block_at (ram (three_blocks free)) 0x1070 = \<lparr>hb_size = 1024, hb_next = 0, hb_is_free = 0, hb_magic = HEAP_MAGIC\<rparr>"
  "heap_free_list (three_blocks free) = (if free then 0x1000 else 0)"
  "kernel_heap_base (three_blocks free) = 0x1000" "kernel_heap_used (three_blocks free) = (if free then 1104 else 1160)"
  by (simp_all add: three_blocks_def write_block_other)

lemma three_blocks_ok:
  "heap_ok (three_blocks False) [] [0x1000, 0x1038, 0x1070]"
  "heap_ok (three_blocks True) [0x1000] [0x1038, 0x1070]"
  by (simp_all add: heap_ok_def blk_size_def blk_next_def blocks_apart_def apart_def)

lemma three_blocks_given_back [simp]:
  "block_at (ram (give_back 0x1038 (three_blocks free))) 0x1000 = block_at (ram (three_blocks free)) 0x1000"
  "block_at (ram (give_back 0x1038 (three_blocks free))) 0x1038 =
     \<lparr>hb_size = 32, hb_next = (if free then 0x1000 else 0), hb_is_free = 1, hb_magic = HEAP_MAGIC\<rparr>"
  "block_at (ram (give_back 0x1038 (three_blocks free))) 0x1070 = block_at (ram (three_blocks free)) 0x1070"
  by (simp_all add: give_back_headers)

theorem kfree_sound_witness:
  "\<exists>s'. kfree 0x1050 (three_blocks False) = Some s' \<and> heap_ok s' [0x1038] [0x1000, 0x1070]"
  using kfree_sound [OF three_blocks_ok(1), where a = "0x1038" and bs = "[0x1000, 0x1038, 0x1070]" and e = "0x1488"]
  by (auto simp: blk_size_def)

theorem heap_client_writes_witness:
  "heap_ok ((three_blocks False)\<lparr>ram := st (ram (three_blocks False)) (0x1038 + 24 + of_nat 8) (replicate 24 65)\<rparr>)
     [] [0x1000, 0x1038, 0x1070]"
  by (rule heap_client_writes [OF three_blocks_ok(1)]) (simp_all add: blk_size_def)

theorem kfree_adjacent_cycle_witness:
  "\<exists>s'. kfree 0x1050 (three_blocks True) = Some s' \<and> heap_free_list s' = 0x1038 \<and>
     blk_next s' 0x1038 = 0x1000 \<and> blk_next s' 0x1000 = 0x1000 \<and> kmalloc 200 s' = None"
proof -
  have al: "align_size 200 = 208" by (simp add: align_size_def HEAP_ALIGN_def)
  have m: "block_at (ram (merge_block 0x1000 0x1038 (give_back 0x1038 (three_blocks True)))) 0x1000 =
      \<lparr>hb_size = 88, hb_next = 0x1000, hb_is_free = 1, hb_magic = HEAP_MAGIC\<rparr>"
    "block_at (ram (merge_block 0x1000 0x1038 (give_back 0x1038 (three_blocks True)))) 0x1070 =
      block_at (ram (three_blocks True)) 0x1070"
    by (simp_all add: merge_block_def blk_size_def blk_next_def block_at_set_apart)
  have "\<exists>s'. kfree (0x1038 + 24) (three_blocks True) = Some s' \<and> heap_free_list s' = 0x1038 \<and>
     blk_next s' 0x1038 = 0x1000 \<and> blk_next s' 0x1000 = 0x1000 \<and> kmalloc 200 s' = None"
    by (rule kfree_adjacent_cycle [OF three_blocks_ok(2), where bs = "[0x1000, 0x1070]" and e = "0x1488"])
      (simp_all add: m blk_size_def al)
  then show ?thesis by simp
qed

text \<open>
  When the first free block is less than 24 bytes larger than the aligned request, the size of the
  remainder wraps around: the allocation puts a block of almost 2^64 bytes on the free list, whose
  header lies on memory behind the allocated block.
\<close>

theorem kmalloc_tight_fit_wraps:
  assumes "heap_ok s (f # post) us" and "n \<noteq> 0"
    and "align_size n \<le> blk_size s f" and "blk_size s f - align_size n < 24" and "24 \<le> f"
  shows "\<exists>s'. kmalloc n s = Some (f + 24, s') \<and> heap_free_list s' = f + 24 + align_size n \<and>
    unat (blk_size s' (f + 24 + align_size n)) = 2 ^ 64 - 24 + (unat (blk_size s f) - unat (align_size n))"
proof -
  let ?k = "align_size n" and ?new = "f + 24 + align_size n"
  let ?r = "blk_size s f - ?k - 24"
  have fx: "unat f + 24 + unat (blk_size s f) < 2 ^ 64" using heap_ok_extent(1) [OF assms(1), of f] by simp
  have u: "unat (blk_size s f - ?k) = unat (blk_size s f) - unat ?k" by (rule word_le_sub [OF assms(3)])
  have lt: "unat (blk_size s f - ?k) < 24" using assms(4) by (simp add: word_less_nat_alt)
  then have r: "unat ?r = 2 ^ 64 - 24 + (unat (blk_size s f) - unat ?k)"
    using unat_sub_if' [of "blk_size s f - ?k" 24] u by simp
  have ge: "MIN_BLOCK_SIZE \<le> ?r" unfolding word_le_nat_alt r by (simp add: MIN_BLOCK_SIZE_def)
  have off: "?new = f + of_nat (24 + unat ?k)" by simp
  have "unat ?k + 48 < 2 ^ 64" using fx assms(3,5) by (simp add: word_le_nat_alt)
  then have ap: "apart ?new 24 f 24" "apart f 24 ?new 24"
    unfolding off using apart_offsets [of 24 0 "24 + unat ?k" 24 f] by simp_all
  define m where "m = set_magic ?new HEAP_MAGIC (set_is_free ?new 1 (set_next ?new (blk_next s f) (set_size ?new ?r (ram s))))"
  have ram1: "ram (split_block f ?k s) = set_next f ?new (set_size f ?k m)"
    using ge ap unfolding split_block_def m_def
    by (simp add: Let_def blk_size_def blk_next_def HEAP_BLOCK_HEADER_SIZE_def block_at_set_apart)
  have "heap_find s ?k 0 (heap_free_list s) = Some (Fits 0 f)"
    using assms heap_find_first [of s "heap_free_list s" "[]" f post ?k 0] by (simp add: heap_ok_def)
  then have km: "kmalloc n s = Some (heap_take ?k 0 f s)"
    using assms(2) by (subst kmalloc.simps) (simp add: Let_def)
  have "heap_free_list (unlink_block 0 f (split_block f ?k s)) = ?new"
    using unlink_headers(5) [of 0 f "split_block f ?k s"] ap by (simp add: ram1 blk_next_def)
  moreover have "blk_size (unlink_block 0 f (split_block f ?k s)) ?new = ?r"
    using unlink_headers(3) [of 0 f ?new "split_block f ?k s"] ap
    by (simp add: blk_size_def ram1 m_def block_at_set_apart)
  ultimately show ?thesis unfolding km heap_take_eq using r by (simp add: blk_size_def)
qed

theorem kmalloc_tight_fit_wraps_witness:
  "\<exists>s'. kmalloc 30 (three_blocks True) = Some (0x1018, s') \<and> heap_free_list s' = 0x1038 \<and>
     unat (blk_size s' 0x1038) = 2 ^ 64 - 24"
proof -
  have al: "align_size 30 = 32" by (simp add: align_size_def HEAP_ALIGN_def)
  show ?thesis using kmalloc_tight_fit_wraps [OF three_blocks_ok(2), of 30] by (simp add: blk_size_def al)
qed

section \<open>Copying\<close>

lemma mmcpy_loop_byte:
  assumes "apart d n p n" "n < 2 ^ 64"
  shows "mmcpy_loop n d p m x = (if unat (x - d) < n then m (p + (x - d)) else m x)"
  using assms
proof (induction n arbitrary: d p m)
  case (Suc n)
  have ap: "Suc n \<le> unat (p - d)" "Suc n \<le> unat (d - p)" using Suc.prems(1) by (auto simp: apart_def)
  then have IH: "mmcpy_loop n (d + 1) (p + 1) (m(d := m p)) x =
      (if unat (x - (d + 1)) < n then (m(d := m p)) (p + 1 + (x - (d + 1))) else (m(d := m p)) x)"
    using Suc.prems by (intro Suc.IH) (auto simp: apart_def)
  show ?case
  proof (cases "x = d")
    case True
    have "unat (- 1 :: u64) = 2 ^ 64 - 1" by (simp add: unat_uminus_u64)
    then have "\<not> unat (x - (d + 1)) < n" using True Suc.prems(2) by simp
    with IH True show ?thesis by simp
  next
    case False
    have eq: "x - (d + 1) = x - d - 1" by (simp add: algebra_simps)
    from False have nz: "x - d \<noteq> 0" by simp
    then have u: "unat (x - (d + 1)) = unat (x - d) - 1" "0 < unat (x - d)"
      unfolding eq by (simp_all add: unat_minus_one unat_gt_0)
    have "p + (x - d) \<noteq> d" if "unat (x - d) < Suc n"
    proof
      assume "p + (x - d) = d"
      then have "x - d = d - p" by (simp add: algebra_simps)
      with that ap(2) show False by simp
    qed
    moreover have "p + 1 + (x - (d + 1)) = p + (x - d)" by (simp add: algebra_simps)
    ultimately show ?thesis using IH u False by auto
  qed
qed simp

text \<open>
  Copying between ranges that do not overlap makes the destination equal to the source and
  changes nothing else.
\<close>

theorem mmcpy_correct:
  assumes "apart dest (unat n) src (unat n)"
  shows "ld (mmcpy dest src n m) dest (unat n) = ld m src (unat n) \<and>
    (\<forall>x. unat n \<le> unat (x - dest) \<longrightarrow> mmcpy dest src n m x = m x)"
proof -
  have n: "unat n < 2 ^ 64" using unsigned_less [of n, where 'a = nat] by simp
  note byte = mmcpy_loop_byte [OF assms n]
  have "mmcpy dest src n m (dest + of_nat i) = m (src + of_nat i)" if "i < unat n" for i
    using that n by (simp add: mmcpy_def byte unat_of_nat_lt)
  then show ?thesis by (auto simp: ld_def mmcpy_def byte)
qed

theorem mmcpy_correct_witness:
  "ld (mmcpy 0x2000 0x1000 16 (\<lambda>x. ucast x)) 0x2000 16 = ld (\<lambda>x. ucast x) 0x1000 16"
proof -
  have "apart 0x2000 (unat (16 :: u64)) 0x1000 (unat (16 :: u64))" by (simp add: apart_def)
  from mmcpy_correct [OF this] show ?thesis by simp
qed

end
