(* ===== verification/Block_Dev.thy ===== *)
theory Block_Dev
  imports Bytes "HOL-Library.Monad_Syntax"
begin

text \<open>
  Sector storage. The file system reads and writes 512-byte sectors through two functions with the C
  signature (first sector, count, buffer); their contract is the locale \<open>block_device\<close>. The RAM disk
  of \<open>src/kernel/memory/ramdisk.c\<close> is modelled here and shown to satisfy the contract. A result
  \<open>None\<close> stands for an access outside the storage or the buffer.
\<close>

record 'd block_ops =
  blk_read :: "u32 \<Rightarrow> u8 \<Rightarrow> bytes \<Rightarrow> 'd \<Rightarrow> (int \<times> bytes \<times> 'd) option"
  blk_write :: "u32 \<Rightarrow> u8 \<Rightarrow> bytes \<Rightarrow> 'd \<Rightarrow> (int \<times> 'd) option"

text \<open>
  A device of 1024 sectors in a good state: reading a sector fills the buffer with its content,
  writing one replaces exactly that sector.
\<close>

locale block_device =
  fixes ops :: "'d block_ops" and ok :: "'d \<Rightarrow> bool" and content :: "'d \<Rightarrow> u32 \<Rightarrow> bytes"
  assumes content_length: "ok d \<Longrightarrow> lba < 1024 \<Longrightarrow> length (content d lba) = 512"
    and read_sector: "ok d \<Longrightarrow> lba < 1024 \<Longrightarrow> length buf = 512 \<Longrightarrow>
      \<exists>d'. blk_read ops lba 1 buf d = Some (0, content d lba, d') \<and> ok d' \<and> content d' = content d"
    and write_sector: "ok d \<Longrightarrow> lba < 1024 \<Longrightarrow> length buf = 512 \<Longrightarrow>
      \<exists>d'. blk_write ops lba 1 buf d = Some (0, d') \<and> ok d' \<and> content d' = (content d)(lba := buf)"

section \<open>The RAM disk\<close>

definition RAMDISK_SIZE :: u32 where
  "RAMDISK_SIZE = 1024 * 512"

record ramdisk =
  ramdisk_data :: bytes
  ramdisk_initialized :: bool

text \<open>Initialisation; the argument is the memory that the allocator returned, if any.\<close>

definition ramdisk_init :: "bytes option \<Rightarrow> ramdisk \<Rightarrow> ramdisk" where
  "ramdisk_init mem rd =
     (if ramdisk_initialized rd then rd
      else case mem of
        None \<Rightarrow> rd\<lparr>ramdisk_data := []\<rparr>
      | Some m \<Rightarrow> rd\<lparr>ramdisk_data := put_at 0 (replicate (unat RAMDISK_SIZE) 0) m, ramdisk_initialized := True\<rparr>)"

definition ramdisk_read_sectors :: "u32 \<Rightarrow> u8 \<Rightarrow> bytes \<Rightarrow> ramdisk \<Rightarrow> (int \<times> bytes \<times> ramdisk) option" where
  "ramdisk_read_sectors lba sector_count buffer rd =
     (if \<not> ramdisk_initialized rd \<or> sector_count = 0 then Some (-1, buffer, rd)
      else let offset = lba * 512;
               sz = ucast sector_count * 512
           in if offset + sz > RAMDISK_SIZE then Some (-1, buffer, rd)
              else if unat offset + unat sz \<le> length (ramdisk_data rd) \<and> unat sz \<le> length buffer
                then Some (0, put_at 0 (segment (unat offset) (unat sz) (ramdisk_data rd)) buffer, rd)
              else None)"

definition ramdisk_write_sectors :: "u32 \<Rightarrow> u8 \<Rightarrow> bytes \<Rightarrow> ramdisk \<Rightarrow> (int \<times> ramdisk) option" where
  "ramdisk_write_sectors lba sector_count buffer rd =
     (if \<not> ramdisk_initialized rd \<or> sector_count = 0 then Some (-1, rd)
      else let offset = lba * 512;
               sz = ucast sector_count * 512
           in if offset + sz > RAMDISK_SIZE then Some (-1, rd)
              else if unat offset + unat sz \<le> length (ramdisk_data rd) \<and> unat sz \<le> length buffer
                then Some (0, rd\<lparr>ramdisk_data := put_at (unat offset) (take (unat sz) buffer) (ramdisk_data rd)\<rparr>)
              else None)"

definition ramdisk_is_available :: "ramdisk \<Rightarrow> bool" where
  "ramdisk_is_available rd = ramdisk_initialized rd"

definition ramdisk_ops :: "ramdisk block_ops" where
  "ramdisk_ops = \<lparr>blk_read = ramdisk_read_sectors, blk_write = ramdisk_write_sectors\<rparr>"

section \<open>The RAM disk as a block device\<close>

definition ramdisk_ok :: "ramdisk \<Rightarrow> bool" where
  "ramdisk_ok rd \<longleftrightarrow> ramdisk_initialized rd \<and> length (ramdisk_data rd) = 524288"

definition ramdisk_content :: "ramdisk \<Rightarrow> u32 \<Rightarrow> bytes" where
  "ramdisk_content rd lba = (if lba < 1024 then segment (unat lba * 512) 512 (ramdisk_data rd) else [])"

lemma sector_offset:
  assumes "lba < (1024 :: u32)"
  shows "unat (lba * 512) = unat lba * 512" "unat lba * 512 + 512 \<le> 524288" "lba * 512 + 512 \<le> RAMDISK_SIZE"
proof -
  have l: "unat lba < 1024" using assms by (simp add: word_less_nat_alt)
  then have "unat lba * unat (512 :: u32) < 2 ^ LENGTH(32)" by simp
  then show u: "unat (lba * 512) = unat lba * 512" by (simp add: unat_mult_lem [THEN iffD1])
  show le: "unat lba * 512 + 512 \<le> 524288" using l by simp
  have "unat (lba * 512) + unat (512 :: u32) < 2 ^ LENGTH(32)" using u l by simp
  then have "unat (lba * 512 + 512) = unat lba * 512 + 512" using u by (simp add: unat_add_lem [THEN iffD1])
  then show "lba * 512 + 512 \<le> RAMDISK_SIZE" using le by (simp add: word_le_nat_alt RAMDISK_SIZE_def)
qed

lemma ramdisk_content_write:
  assumes "length xs = 524288" "unat lba * 512 + 512 \<le> 524288" "length buf = 512" "unat k * 512 + 512 \<le> 524288"
  shows "segment (unat (k :: u32) * 512) 512 (put_at (unat lba * 512) buf xs) =
    (if k = lba then buf else segment (unat k * 512) 512 xs)"
proof (cases "k = lba")
  case True
  then show ?thesis using segment_put_at_same [of "unat lba * 512" buf xs] assms by simp
next
  case False
  then have "unat k \<noteq> unat lba" by (simp add: word_unat_eq_iff)
  then have "unat k * 512 + 512 \<le> unat lba * 512 \<or> unat lba * 512 + 512 \<le> unat k * 512" by linarith
  then show ?thesis using False assms by (simp add: segment_put_at_other)
qed

interpretation rdisk: block_device ramdisk_ops ramdisk_ok ramdisk_content
proof
  fix d :: ramdisk and lba :: u32 and buf :: bytes
  assume ok: "ramdisk_ok d" and l: "lba < 1024"
  note off = sector_offset [OF l]
  have len: "length (ramdisk_data d) = 524288" "ramdisk_initialized d" using ok by (auto simp: ramdisk_ok_def)
  show "length (ramdisk_content d lba) = 512" using off len l by (simp add: ramdisk_content_def)
  assume buf: "length buf = 512"
  show "\<exists>d'. blk_read ramdisk_ops lba 1 buf d = Some (0, ramdisk_content d lba, d') \<and>
      ramdisk_ok d' \<and> ramdisk_content d' = ramdisk_content d"
    using off len l buf ok
    by (simp add: ramdisk_ops_def ramdisk_read_sectors_def Let_def ramdisk_content_def put_at_def not_less [symmetric])
  let ?d = "d\<lparr>ramdisk_data := put_at (unat lba * 512) buf (ramdisk_data d)\<rparr>"
  have "blk_write ramdisk_ops lba 1 buf d = Some (0, ?d)"
    using off len l buf by (simp add: ramdisk_ops_def ramdisk_write_sectors_def Let_def not_less [symmetric])
  moreover have "ramdisk_ok ?d" using len off buf by (simp add: ramdisk_ok_def)
  moreover have "ramdisk_content ?d = (ramdisk_content d)(lba := buf)"
    using ramdisk_content_write [OF len(1) off(2) buf] sector_offset(2) l by (auto simp: fun_eq_iff ramdisk_content_def)
  ultimately show "\<exists>d'. blk_write ramdisk_ops lba 1 buf d = Some (0, d') \<and> ramdisk_ok d' \<and>
      ramdisk_content d' = (ramdisk_content d)(lba := buf)" by blast
qed

text \<open>
  The bounds check of the RAM disk is computed modulo 2^32: a request that ends exactly at sector
  2^23 passes it, whatever its length, and reads memory outside the disk.
\<close>

theorem ramdisk_read_wraps:
  assumes "ramdisk_ok rd" and "n \<noteq> 0" and "lba = 0x800000 - ucast n"
  shows "ramdisk_read_sectors lba n buf rd = None"
proof -
  have n: "0 < unat n" "unat n < 256"
    using assms(2) unsigned_less [of n, where 'a = nat] by (auto simp: unat_gt_0)
  have c: "unat (ucast n :: u32) = unat n" using n by (simp add: unsigned_ucast_eq take_bit_nat_eq_self)
  have "(2 :: u32) ^ 23 * 2 ^ 9 = 2 ^ 32" by (simp only: power_add [symmetric]) simp
  moreover have "(2 :: u32) ^ 32 = 0" by (subst exp_eq_zero_iff) simp
  ultimately have top: "(0x800000 :: u32) * 512 = 0" by simp
  have "lba * 512 + ucast n * 512 = 0x800000 * 512" by (simp only: assms(3) left_diff_distrib diff_add_cancel)
  then have sum: "lba * 512 + ucast n * 512 = 0" by (simp only: top)
  have "unat lba = 0x800000 - unat n"
    using c n unat_sub_if' [of "0x800000 :: u32" "ucast n"] by (simp add: assms(3))
  then have "unat lba * unat (512 :: u32) < 2 ^ LENGTH(32)" "524288 < unat lba * 512" using n by simp_all
  then have "524288 < unat (lba * 512)" by (simp add: unat_mult_lem [THEN iffD1])
  then show ?thesis using assms(1,2) sum
    by (simp add: ramdisk_read_sectors_def Let_def ramdisk_ok_def)
qed

theorem ramdisk_read_wraps_witness:
  "ramdisk_read_sectors 0x7FFFFF 1 (replicate 512 0) \<lparr>ramdisk_data = replicate 524288 0, ramdisk_initialized = True\<rparr> = None"
  by (rule ramdisk_read_wraps) (simp_all add: ramdisk_ok_def)

end
