(* ===== verification/TinyFS.thy ===== *)
theory TinyFS
  imports Block_Dev
begin

text \<open>
  The TinyFS file system of \<open>src/kernel/VFS/tinyfs.c\<close>: on-disk layout, block allocation in the file
  allocation table, format, mount, unmount, reading and writing files, directory lookup, creation
  and removal. The functions work on the in-memory copy of the tables and on a block device given by
  its two sector operations. \<open>None\<close> stands for an access outside a table or a buffer.
\<close>

section \<open>Data\<close>

definition TINYFS_MAGIC :: u32 where
  "TINYFS_MAGIC = 0x54494E59"

text \<open>The end-of-chain mark is the colour constant that the source uses for it.\<close>

definition EOF :: u32 where
  "EOF = 0xFFFFFF"

definition TINYFS_MAX_FILES :: nat where
  "TINYFS_MAX_FILES = 256"

definition TINYFS_MAX_FILENAME :: nat where
  "TINYFS_MAX_FILENAME = 32"

definition MAX_FILENAME :: nat where
  "MAX_FILENAME = 256"

definition FILE_TYPE_REGULAR :: u8 where
  "FILE_TYPE_REGULAR = 1"

definition FILE_TYPE_DIRECTORY :: u8 where
  "FILE_TYPE_DIRECTORY = 2"

record superblock =
  sb_magic :: u32
  total_blocks :: u32
  fat_start :: u32
  dir_start :: u32
  data_start :: u32
  free_blocks :: u32

text \<open>A directory entry with the padding bytes that the compiler puts into the structure.\<close>

record dirent =
  d_name :: bytes
  first_block :: u32
  d_size :: u32
  is_directory :: u8
  used :: u8
  d_gap :: bytes
  parent_inode :: u32
  d_padding :: bytes

record tinyfs_data =
  sb :: superblock
  fat :: "u32 list"
  dirents :: "dirent list"
  device :: bytes

record vfs_node =
  n_name :: bytes
  n_type :: u8
  n_permissions :: u32
  n_size :: u32
  n_inode :: u32
  n_dirent :: "nat option"

section \<open>Strings\<close>

definition strcpy_safe :: "bytes \<Rightarrow> bytes \<Rightarrow> nat \<Rightarrow> bytes" where
  "strcpy_safe dest src max_len = put_at 0 (take (max_len - 1) (cstr src) @ [0]) dest"

text \<open>The end of a list counts as the terminating NUL.\<close>

fun strcmp_safe :: "bytes \<Rightarrow> bytes \<Rightarrow> int" where
  "strcmp_safe (a # s1) (b # s2) = (if a \<noteq> 0 \<and> a = b then strcmp_safe s1 s2 else uint a - uint b)"
| "strcmp_safe (a # s1) [] = uint a"
| "strcmp_safe [] (b # s2) = - uint b"
| "strcmp_safe [] [] = 0"

section \<open>On-disk encodings\<close>

definition sb_enc :: "superblock \<Rightarrow> bytes" where
  "sb_enc b = le_enc 4 (sb_magic b) @ le_enc 4 (total_blocks b) @ le_enc 4 (fat_start b) @
     le_enc 4 (dir_start b) @ le_enc 4 (data_start b) @ le_enc 4 (free_blocks b)"

definition sb_dec :: "bytes \<Rightarrow> superblock" where
  "sb_dec bs = \<lparr>sb_magic = le_dec (segment 0 4 bs), total_blocks = le_dec (segment 4 4 bs),
     fat_start = le_dec (segment 8 4 bs), dir_start = le_dec (segment 12 4 bs),
     data_start = le_dec (segment 16 4 bs), free_blocks = le_dec (segment 20 4 bs)\<rparr>"

definition dirent_enc :: "dirent \<Rightarrow> bytes" where
  "dirent_enc e = d_name e @ le_enc 4 (first_block e) @ le_enc 4 (d_size e) @ [is_directory e, used e] @
     d_gap e @ le_enc 4 (parent_inode e) @ d_padding e"

definition dirent_dec :: "bytes \<Rightarrow> dirent" where
  "dirent_dec bs = \<lparr>d_name = segment 0 32 bs, first_block = le_dec (segment 32 4 bs),
     d_size = le_dec (segment 36 4 bs), is_directory = bs ! 40, used = bs ! 41, d_gap = segment 42 2 bs,
     parent_inode = le_dec (segment 44 4 bs), d_padding = segment 48 4 bs\<rparr>"

text \<open>One sector of the superblock, the allocation table and the directory (9 entries of 52 bytes).\<close>

definition sb_block :: "superblock \<Rightarrow> bytes" where
  "sb_block b = put_at 0 (sb_enc b) (replicate 512 0)"

definition fat_block :: "u32 list \<Rightarrow> nat \<Rightarrow> bytes" where
  "fat_block f i = concat (map (\<lambda>j. let idx = i * 128 + j in if idx < 1024 then le_enc 4 (f ! idx) else replicate 4 0) [0..<128])"

definition dir_block :: "dirent list \<Rightarrow> nat \<Rightarrow> bytes" where
  "dir_block ds i =
     concat (map (\<lambda>j. let idx = i * 9 + j in if idx < TINYFS_MAX_FILES then dirent_enc (ds ! idx) else replicate 52 0) [0..<9])
     @ replicate 44 0"

section \<open>Writing the tables\<close>

text \<open>Consecutive sector writes that stop at the first failure.\<close>

fun write_run :: "'d block_ops \<Rightarrow> u32 \<Rightarrow> (nat \<Rightarrow> bytes) \<Rightarrow> nat list \<Rightarrow> 'd \<Rightarrow> (int \<times> 'd) option" where
  "write_run ops start f [] d = Some (0, d)"
| "write_run ops start f (i # is) d = do {
     (r, d) \<leftarrow> blk_write ops (start + of_nat i) 1 (f i) d;
     if r \<noteq> 0 then Some (-1, d) else write_run ops start f is d }"

definition write_superblock :: "'d block_ops \<Rightarrow> tinyfs_data \<Rightarrow> 'd \<Rightarrow> (int \<times> 'd) option" where
  "write_superblock ops data d = do {
     (r, d) \<leftarrow> blk_write ops 0 1 (sb_block (sb data)) d;
     Some (if r \<noteq> 0 then -1 else 0, d) }"

definition write_fat :: "'d block_ops \<Rightarrow> tinyfs_data \<Rightarrow> 'd \<Rightarrow> (int \<times> 'd) option" where
  "write_fat ops data d = write_run ops (fat_start (sb data)) (fat_block (fat data)) [0..<10] d"

definition write_directory :: "'d block_ops \<Rightarrow> tinyfs_data \<Rightarrow> 'd \<Rightarrow> (int \<times> 'd) option" where
  "write_directory ops data d = write_run ops (dir_start (sb data)) (dir_block (dirents data)) [0..<90] d"

section \<open>Block allocation\<close>

text \<open>The scan of \<open>allocate_block\<close> from \<open>i\<close> on: an access outside the table, no free block, or a free one.\<close>

function scan_free :: "u32 list \<Rightarrow> nat \<Rightarrow> nat \<Rightarrow> nat option option" where
  "scan_free f i n =
     (if i < n then
        if length f \<le> i then None
        else if f ! i = 0 then Some (Some i) else scan_free f (Suc i) n
      else Some None)"
  by pat_completeness auto
termination
  by (relation "measure (\<lambda>(f, i, n). n - i)") auto

declare scan_free.simps [simp del]

definition allocate_block :: "tinyfs_data \<Rightarrow> (int \<times> tinyfs_data) option" where
  "allocate_block data = do {
     r \<leftarrow> scan_free (fat data) (unat (data_start (sb data))) (unat (total_blocks (sb data)));
     case r of
       None \<Rightarrow> Some (-1, data)
     | Some i \<Rightarrow> Some (int i, data\<lparr>fat := (fat data)[i := EOF], sb := (sb data)\<lparr>free_blocks := free_blocks (sb data) - 1\<rparr>\<rparr>) }"

definition release_block :: "tinyfs_data \<Rightarrow> nat \<Rightarrow> tinyfs_data" where
  "release_block data i =
     data\<lparr>fat := (fat data)[i := 0], sb := (sb data)\<lparr>free_blocks := free_blocks (sb data) + 1\<rparr>\<rparr>"

definition used_entries :: "u32 list \<Rightarrow> nat" where
  "used_entries f = length (filter (\<lambda>x. x \<noteq> 0) f)"

lemma used_entries_clear: "i < length f \<Longrightarrow> f ! i \<noteq> 0 \<Longrightarrow> used_entries (f[i := 0]) < used_entries f"
proof (induction f arbitrary: i)
  case (Cons x f)
  then show ?case by (cases i) (auto simp: used_entries_def)
qed simp

lemma used_entries_clear_le: "used_entries (f[i := 0]) \<le> used_entries f"
proof (induction f arbitrary: i)
  case (Cons x f)
  then show ?case by (cases i) (auto simp: used_entries_def intro: le_SucI)
qed simp

text \<open>
  The loop ends because it clears the entry it leaves: either that entry was in use, or it was
  already 0 and the loop stops.
\<close>

function free_block_chain :: "tinyfs_data \<Rightarrow> u32 \<Rightarrow> tinyfs_data option" where
  "free_block_chain data current =
     (if current \<noteq> EOF \<and> current \<noteq> 0 then
        if length (fat data) \<le> unat current then None
        else let nxt = fat data ! unat current
             in free_block_chain (release_block data (unat current)) nxt
      else Some data)"
  by pat_completeness auto
termination
proof (relation "measure (\<lambda>(data, current). 2 * used_entries (fat data) + (if current = 0 then 0 else 1))", goal_cases)
  case (2 data current x)
  then show ?case
    using used_entries_clear [of "unat current" "fat data"] used_entries_clear_le [of "fat data" "unat current"]
    by (cases "x = 0") (auto simp: release_block_def)
qed simp

declare free_block_chain.simps [simp del]

definition find_free_dirent :: "tinyfs_data \<Rightarrow> int" where
  "find_free_dirent data =
     (case find_idx (\<lambda>e. used e = 0) (drop 1 (take TINYFS_MAX_FILES (dirents data))) of
        Some i \<Rightarrow> int i + 1 | None \<Rightarrow> -1)"

section \<open>Format, mount, unmount\<close>

definition tinyfs_format :: "'d block_ops \<Rightarrow> 'd \<Rightarrow> (int \<times> 'd) option" where
  "tinyfs_format ops d = do {
     let b = \<lparr>sb_magic = TINYFS_MAGIC, total_blocks = 1024, fat_start = 1, dir_start = 11, data_start = 101, free_blocks = 1024 - 101\<rparr>;
     (r, d) \<leftarrow> blk_write ops 0 1 (sb_block b) d;
     if r \<noteq> 0 then Some (-1, d)
     else do {
       (r, d) \<leftarrow> write_run ops 0 (\<lambda>i. concat (map (\<lambda>j. let block_num = (i - 1) * 128 + j in
           if block_num < 1024 \<and> block_num < 101 then le_enc 4 EOF else replicate 4 0) [0..<128])) [1..<11] d;
       if r \<noteq> 0 then Some (-1, d)
       else write_run ops 0 (\<lambda>i. replicate 512 0) [11..<101] d }}"

text \<open>Consecutive sector reads into one buffer; \<open>load\<close> stores what block \<open>i\<close> holds.\<close>

fun read_run :: "'d block_ops \<Rightarrow> u32 \<Rightarrow> (nat \<Rightarrow> bytes \<Rightarrow> 'a \<Rightarrow> 'a) \<Rightarrow> nat list \<Rightarrow> bytes \<Rightarrow> 'a \<Rightarrow> 'd \<Rightarrow> (int \<times> bytes \<times> 'a \<times> 'd) option" where
  "read_run ops start load [] buf x d = Some (0, buf, x, d)"
| "read_run ops start load (i # is) buf x d = do {
     (r, buf, d) \<leftarrow> blk_read ops (start + of_nat i) 1 buf d;
     if r \<noteq> 0 then Some (-1, buf, x, d) else read_run ops start load is buf (load i buf x) d }"

definition load_fat :: "nat \<Rightarrow> bytes \<Rightarrow> u32 list \<Rightarrow> u32 list" where
  "load_fat i buf f =
     fold (\<lambda>j f. let idx = i * 128 + j in if idx < 1024 then f[idx := le_dec (segment (4 * j) 4 buf)] else f) [0..<128] f"

definition load_dir :: "nat \<Rightarrow> bytes \<Rightarrow> dirent list \<Rightarrow> dirent list" where
  "load_dir i buf ds =
     fold (\<lambda>j ds. let idx = i * 9 + j in if idx < TINYFS_MAX_FILES then ds[idx := dirent_dec (segment (52 * j) 52 buf)] else ds) [0..<9] ds"

text \<open>
  Mounting. \<open>mem\<close> is the uninitialised structure that the allocator returned, if any, and \<open>buf\<close> the
  uninitialised sector buffer on the stack; the result holds the mounted data on success.
\<close>

definition tinyfs_mount :: "'d block_ops \<Rightarrow> tinyfs_data option \<Rightarrow> bytes \<Rightarrow> bytes \<Rightarrow> 'd \<Rightarrow> (int \<times> tinyfs_data option \<times> 'd) option" where
  "tinyfs_mount ops mem buf dev d =
     (case mem of
        None \<Rightarrow> Some (-1, None, d)
      | Some data \<Rightarrow> do {
          let data = data\<lparr>device := strcpy_safe (device data) dev 32\<rparr>;
          (r, buf, d) \<leftarrow> blk_read ops 0 1 buf d;
          if r \<noteq> 0 then Some (-1, None, d)
          else if sb_magic (sb_dec buf) \<noteq> TINYFS_MAGIC then Some (-1, None, d)
          else do {
            let data = data\<lparr>sb := sb_dec buf\<rparr>;
            (r, buf, f, d) \<leftarrow> read_run ops (fat_start (sb data)) load_fat [0..<10] buf (fat data) d;
            if r \<noteq> 0 then Some (-1, None, d)
            else do {
              (r, buf, ds, d) \<leftarrow> read_run ops (dir_start (sb data)) load_dir [0..<90] buf (dirents data) d;
              if r \<noteq> 0 then Some (-1, None, d)
              else Some (0, Some (data\<lparr>fat := f, dirents := ds\<rparr>), d) }}})"

definition tinyfs_unmount :: "'d block_ops \<Rightarrow> tinyfs_data option \<Rightarrow> 'd \<Rightarrow> (int \<times> tinyfs_data option \<times> 'd) option" where
  "tinyfs_unmount ops pd d =
     (case pd of
        None \<Rightarrow> Some (0, None, d)
      | Some data \<Rightarrow> do {
          (_, d) \<leftarrow> write_superblock ops data d;
          (_, d) \<leftarrow> write_fat ops data d;
          (_, d) \<leftarrow> write_directory ops data d;
          Some (0, None, d) })"

definition tinyfs_get_root :: "vfs_node option \<Rightarrow> vfs_node option" where
  "tinyfs_get_root mem =
     (case mem of
        None \<Rightarrow> None
      | Some root \<Rightarrow> Some (root\<lparr>n_name := strcpy_safe (n_name root) [47] MAX_FILENAME, n_type := FILE_TYPE_DIRECTORY,
          n_permissions := 3, n_size := 0, n_inode := 0, n_dirent := None\<rparr>))"

definition tinyfs_get_stats :: "tinyfs_data option \<Rightarrow> int \<times> (u32 \<times> u32 \<times> u32) option" where
  "tinyfs_get_stats pd =
     (case pd of None \<Rightarrow> (-1, None)
      | Some data \<Rightarrow> (0, Some (total_blocks (sb data), free_blocks (sb data), 512)))"

section \<open>Reading\<close>

definition fat_next :: "u32 list \<Rightarrow> u32 \<Rightarrow> u32 option" where
  "fat_next f b = (if unat b < length f then Some (f ! unat b) else None)"

fun skip_blocks :: "u32 list \<Rightarrow> nat \<Rightarrow> u32 \<Rightarrow> u32 option" where
  "skip_blocks f 0 current = Some current"
| "skip_blocks f (Suc n) current =
     (if current = EOF then Some current else do { nxt \<leftarrow> fat_next f current; skip_blocks f n nxt })"

text \<open>A store of bytes into a buffer that must hold them.\<close>

definition put_checked :: "nat \<Rightarrow> bytes \<Rightarrow> bytes \<Rightarrow> bytes option" where
  "put_checked i bs buf = (if i + length bs \<le> length buf then Some (put_at i bs buf) else None)"

function read_loop :: "'d block_ops \<Rightarrow> u32 list \<Rightarrow> nat \<Rightarrow> nat \<Rightarrow> nat \<Rightarrow> u32 \<Rightarrow> bytes \<Rightarrow> bytes \<Rightarrow> 'd \<Rightarrow> (int \<times> bytes \<times> 'd) option" where
  "read_loop ops f sz bytes_read byte_offset current block_buffer buffer d =
     (if bytes_read < sz \<and> current \<noteq> EOF \<and> byte_offset < 512 then do {
        (r, block_buffer, d) \<leftarrow> blk_read ops current 1 block_buffer d;
        if r \<noteq> 0 then Some (-1, buffer, d)
        else do {
          let to_copy = min (512 - byte_offset) (sz - bytes_read);
          buffer \<leftarrow> put_checked bytes_read (segment byte_offset to_copy block_buffer) buffer;
          nxt \<leftarrow> fat_next f current;
          read_loop ops f sz (bytes_read + to_copy) 0 nxt block_buffer buffer d }}
      else Some (int bytes_read, buffer, d))"
  by pat_completeness auto
termination
  by (relation "measure (\<lambda>(ops, f, sz, n, _). sz - n)") auto

declare read_loop.simps [simp del]

definition tinyfs_read :: "'d block_ops \<Rightarrow> tinyfs_data option \<Rightarrow> vfs_node option \<Rightarrow> bytes \<Rightarrow> u32 \<Rightarrow> u32 \<Rightarrow> bytes \<Rightarrow> 'd \<Rightarrow> (int \<times> bytes \<times> 'd) option" where
  "tinyfs_read ops pd node buffer sz offset block_buffer d =
     (case (node, pd) of
        (Some n, Some data) \<Rightarrow>
          (case n_dirent n of
             None \<Rightarrow> Some (0, buffer, d)
           | Some i \<Rightarrow> let e = dirents data ! i in
               if offset \<ge> d_size e then Some (0, buffer, d)
               else do {
                 let sz = (if offset + sz > d_size e then d_size e - offset else sz);
                 current \<leftarrow> skip_blocks (fat data) (unat (offset div 512)) (first_block e);
                 (r, buffer, d) \<leftarrow> read_loop ops (fat data) (unat sz) 0 (unat (offset mod 512)) current block_buffer buffer d;
                 Some (if r < 0 then -1 else sint (of_int r :: u32), buffer, d) })
      | _ \<Rightarrow> Some (-1, buffer, d))"

section \<open>Writing\<close>

text \<open>The block after \<open>current\<close>, allocated and linked when the chain ends there; \<open>None\<close> inside when the disk is full.\<close>

definition next_or_alloc :: "tinyfs_data \<Rightarrow> u32 \<Rightarrow> (u32 option \<times> tinyfs_data) option" where
  "next_or_alloc data current = do {
     nxt \<leftarrow> fat_next (fat data) current;
     if nxt = EOF then do {
       (new_block, data) \<leftarrow> allocate_block data;
       if new_block < 0 then Some (None, data)
       else do {
         let data = data\<lparr>fat := (fat data)[unat current := of_int new_block]\<rparr>;
         Some (Some (fat data ! unat current), data) }}
     else Some (Some nxt, data) }"

fun seek_blocks :: "nat \<Rightarrow> tinyfs_data \<Rightarrow> u32 \<Rightarrow> (u32 option \<times> tinyfs_data) option" where
  "seek_blocks 0 data current = Some (Some current, data)"
| "seek_blocks (Suc n) data current = do {
     (r, data) \<leftarrow> next_or_alloc data current;
     case r of None \<Rightarrow> Some (None, data) | Some nxt \<Rightarrow> seek_blocks n data nxt }"

text \<open>The write loop: the result code (-1 on a failed write), the bytes written, the tables and the device.\<close>

function write_loop :: "'d block_ops \<Rightarrow> bytes \<Rightarrow> nat \<Rightarrow> nat \<Rightarrow> u32 \<Rightarrow> bytes \<Rightarrow> tinyfs_data \<Rightarrow> 'd \<Rightarrow> (int \<times> nat \<times> tinyfs_data \<times> 'd) option" where
  "write_loop ops buffer written byte_offset current block_buffer data d =
     (if written < length buffer \<and> byte_offset < 512 then do {
        (_, block_buffer, d) \<leftarrow> (if byte_offset > 0 \<or> length buffer - written < 512
                                 then blk_read ops current 1 block_buffer d else Some (0, block_buffer, d));
        let to_write = min (512 - byte_offset) (length buffer - written);
        let block_buffer = put_at byte_offset (segment written to_write buffer) block_buffer;
        (r, d) \<leftarrow> blk_write ops current 1 block_buffer d;
        if r \<noteq> 0 then Some (-1, written, data, d)
        else do {
          let written = written + to_write;
          if written < length buffer then do {
            (nxt, data) \<leftarrow> next_or_alloc data current;
            case nxt of
              None \<Rightarrow> Some (0, written, data, d)
            | Some b \<Rightarrow> write_loop ops buffer written 0 b block_buffer data d }
          else Some (0, written, data, d) }}
      else Some (0, written, data, d))"
  by pat_completeness auto
termination
  by (relation "measure (\<lambda>(ops, buffer, written, _). length buffer - written)") auto

declare write_loop.simps [simp del]

definition set_dirent :: "nat \<Rightarrow> (dirent \<Rightarrow> dirent) \<Rightarrow> tinyfs_data \<Rightarrow> tinyfs_data" where
  "set_dirent i g data = data\<lparr>dirents := (dirents data)[i := g (dirents data ! i)]\<rparr>"

definition tinyfs_write :: "'d block_ops \<Rightarrow> tinyfs_data option \<Rightarrow> vfs_node option \<Rightarrow> bytes \<Rightarrow> u32 \<Rightarrow> bytes \<Rightarrow> 'd \<Rightarrow> (int \<times> tinyfs_data option \<times> vfs_node option \<times> 'd) option" where
  "tinyfs_write ops pd node buffer offset block_buffer d =
     (case (node, pd) of
        (Some n, Some data) \<Rightarrow>
          (case n_dirent n of
             None \<Rightarrow> Some (-1, pd, node, d)
           | Some i \<Rightarrow> do {
               (ok, data) \<leftarrow> (if first_block (dirents data ! i) = 0 then do {
                   (block, data) \<leftarrow> allocate_block data;
                   if block < 0 then Some (False, data)
                   else Some (True, set_dirent i (\<lambda>e. e\<lparr>first_block := of_int block\<rparr>) data) }
                 else Some (True, data));
               if \<not> ok then Some (-1, Some data, node, d)
               else do {
                 (r, data) \<leftarrow> seek_blocks (unat (offset div 512)) data (first_block (dirents data ! i));
                 case r of
                   None \<Rightarrow> Some (0, Some data, node, d)
                 | Some current \<Rightarrow> do {
                     (r, written, data, d) \<leftarrow> write_loop ops buffer 0 (unat (offset mod 512)) current block_buffer data d;
                     if r < 0 then Some (-1, Some data, node, d)
                     else do {
                       let end_pos = offset + of_nat written;
                       let (data, n) = (if end_pos > d_size (dirents data ! i)
                         then (set_dirent i (\<lambda>e. e\<lparr>d_size := end_pos\<rparr>) data, n\<lparr>n_size := end_pos\<rparr>) else (data, n));
                       (_, d) \<leftarrow> write_directory ops data d;
                       (_, d) \<leftarrow> write_fat ops data d;
                       (_, d) \<leftarrow> write_superblock ops data d;
                       Some (sint (of_nat written :: u32), Some data, Some n, d) }}}})
      | _ \<Rightarrow> Some (-1, pd, node, d))"

section \<open>Directories\<close>

definition dirent_node :: "tinyfs_data \<Rightarrow> nat \<Rightarrow> vfs_node \<Rightarrow> vfs_node" where
  "dirent_node data i n =
     (let e = dirents data ! i
      in n\<lparr>n_name := strcpy_safe (n_name n) (d_name e) MAX_FILENAME,
           n_type := (if is_directory e \<noteq> 0 then FILE_TYPE_DIRECTORY else FILE_TYPE_REGULAR),
           n_permissions := 3, n_size := d_size e, n_inode := of_nat i, n_dirent := Some i\<rparr>)"

definition in_dir :: "u32 \<Rightarrow> dirent \<Rightarrow> bool" where
  "in_dir inode e \<longleftrightarrow> used e \<noteq> 0 \<and> parent_inode e = inode"

fun nth_in_dir :: "u32 \<Rightarrow> dirent list \<Rightarrow> nat \<Rightarrow> nat \<Rightarrow> nat \<Rightarrow> nat option" where
  "nth_in_dir inode [] i count index = None"
| "nth_in_dir inode (e # es) i count index =
     (if in_dir inode e then if count = index then Some i else nth_in_dir inode es (Suc i) (Suc count) index
      else nth_in_dir inode es (Suc i) count index)"

text \<open>\<open>mem\<close> is the uninitialised node that the allocator returns when an entry is found.\<close>

definition tinyfs_readdir :: "tinyfs_data option \<Rightarrow> vfs_node option \<Rightarrow> u32 \<Rightarrow> vfs_node option \<Rightarrow> vfs_node option" where
  "tinyfs_readdir pd node index mem =
     (case (node, pd) of
        (Some n, Some data) \<Rightarrow>
          if n_type n \<noteq> FILE_TYPE_DIRECTORY then None
          else case nth_in_dir (n_inode n) (take TINYFS_MAX_FILES (dirents data)) 0 0 (unat index) of
            None \<Rightarrow> None | Some i \<Rightarrow> map_option (dirent_node data i) mem
      | _ \<Rightarrow> None)"

definition named_in :: "u32 \<Rightarrow> bytes \<Rightarrow> dirent \<Rightarrow> bool" where
  "named_in inode name e \<longleftrightarrow> used e \<noteq> 0 \<and> parent_inode e = inode \<and> strcmp_safe (d_name e) name = 0"

definition tinyfs_finddir :: "tinyfs_data option \<Rightarrow> vfs_node option \<Rightarrow> bytes \<Rightarrow> vfs_node option \<Rightarrow> vfs_node option" where
  "tinyfs_finddir pd node name mem =
     (case (node, pd) of
        (Some n, Some data) \<Rightarrow>
          if n_type n \<noteq> FILE_TYPE_DIRECTORY then None
          else case find_idx (named_in (n_inode n) name) (take TINYFS_MAX_FILES (dirents data)) of
            None \<Rightarrow> None | Some i \<Rightarrow> map_option (dirent_node data i) mem
      | _ \<Rightarrow> None)"

definition tinyfs_create_node :: "'d block_ops \<Rightarrow> tinyfs_data option \<Rightarrow> vfs_node option \<Rightarrow> bytes \<Rightarrow> u8 \<Rightarrow> u32 \<Rightarrow> 'd \<Rightarrow> (int \<times> tinyfs_data option \<times> 'd) option" where
  "tinyfs_create_node ops pd parent name typ permissions d =
     (case (parent, pd) of
        (Some p, Some data) \<Rightarrow>
          if n_type p \<noteq> FILE_TYPE_DIRECTORY then Some (-1, pd, d)
          else if find_idx (named_in (n_inode p) name) (take TINYFS_MAX_FILES (dirents data)) \<noteq> None then Some (-1, pd, d)
          else let free_idx = find_free_dirent data in
            if free_idx < 0 then Some (-1, pd, d)
            else do {
              let i = nat free_idx;
              let data = set_dirent i (\<lambda>e. e\<lparr>d_name := strcpy_safe (d_name e) name TINYFS_MAX_FILENAME,
                first_block := 0, d_size := 0, is_directory := (if typ = FILE_TYPE_DIRECTORY then 1 else 0),
                used := 1, parent_inode := n_inode p\<rparr>) data;
              (r, d) \<leftarrow> write_directory ops data d;
              if r \<noteq> 0 then Some (-1, Some (set_dirent i (\<lambda>e. e\<lparr>used := 0\<rparr>) data), d)
              else Some (0, Some data, d) }
      | _ \<Rightarrow> Some (-1, pd, d))"

definition tinyfs_unlink :: "'d block_ops \<Rightarrow> tinyfs_data option \<Rightarrow> vfs_node option \<Rightarrow> bytes \<Rightarrow> 'd \<Rightarrow> (int \<times> tinyfs_data option \<times> 'd) option" where
  "tinyfs_unlink ops pd parent name d =
     (case (parent, pd) of
        (Some p, Some data) \<Rightarrow>
          if n_type p \<noteq> FILE_TYPE_DIRECTORY then Some (-1, pd, d)
          else case find_idx (\<lambda>e. used e \<noteq> 0 \<and> strcmp_safe (d_name e) name = 0) (take TINYFS_MAX_FILES (dirents data)) of
            None \<Rightarrow> Some (-1, pd, d)
          | Some i \<Rightarrow> do {
              data \<leftarrow> (if first_block (dirents data ! i) \<noteq> 0
                       then free_block_chain data (first_block (dirents data ! i)) else Some data);
              let data = set_dirent i (\<lambda>e. e\<lparr>used := 0, d_name := (d_name e)[0 := 0], first_block := 0, d_size := 0\<rparr>) data;
              (_, d) \<leftarrow> write_fat ops data d;
              (_, d) \<leftarrow> write_directory ops data d;
              (_, d) \<leftarrow> write_superblock ops data d;
              Some (0, Some data, d) }
      | _ \<Rightarrow> Some (-1, pd, d))"

end
