(* ===== verification/TinyFS_Tables.thy ===== *)
theory TinyFS_Tables
  imports TinyFS
begin

text \<open>
  The tables of TinyFS on disk: encodings are invertible, a formatted or saved device holds exactly
  the tables in memory, and mounting it brings them back.
\<close>

declare upt_rec_numeral [simp del]

section \<open>Encodings\<close>

lemma sb_enc_length [simp]: "length (sb_enc b) = 24"
  by (simp add: sb_enc_def)

lemma sb_dec_block [simp]: "sb_dec (sb_block b) = b"
  by (simp add: sb_dec_def sb_block_def sb_enc_def put_at_def segment_split)

lemma length_sb_block [simp]: "length (sb_block b) = 512"
  by (simp add: sb_block_def)

definition dirent_ok :: "dirent \<Rightarrow> bool" where
  "dirent_ok e \<longleftrightarrow> length (d_name e) = 32 \<and> length (d_gap e) = 2 \<and> length (d_padding e) = 4"

lemma dirent_enc_length: "dirent_ok e \<Longrightarrow> length (dirent_enc e) = 52"
  by (simp add: dirent_enc_def dirent_ok_def)

lemma dirent_dec_enc: "dirent_ok e \<Longrightarrow> dirent_dec (dirent_enc e) = e"
  by (simp add: dirent_dec_def dirent_enc_def dirent_ok_def segment_split nth_append)

text \<open>Pieces of equal length laid out one after the other.\<close>

lemma concat_pieces_length: "(\<And>j. j < n \<Longrightarrow> length (g j) = k) \<Longrightarrow> length (concat (map g [0..<n])) = n * k"
  by (induction n) auto

lemma segment_pieces:
  assumes "\<And>j. j < n \<Longrightarrow> length (g j) = k" "j < n"
  shows "segment (k * j) k (concat (map g [0..<n]) @ r) = g j"
proof -
  have "[0..<n] = [0..<j] @ j # [Suc j..<n]" using assms(2) upt_add_eq_append [of 0 j "n - j"] by (simp add: upt_rec)
  then have "concat (map g [0..<n]) = concat (map g [0..<j]) @ g j @ concat (map g [Suc j..<n])" by simp
  moreover have "length (concat (map g [0..<j])) = k * j"
    using assms by (subst concat_pieces_length [where k = k]) auto
  ultimately show ?thesis using assms by (simp add: segment_def)
qed

lemma length_fat_block [simp]: "length (fat_block f i) = 512"
  unfolding fat_block_def by (subst concat_pieces_length [where k = 4]) (auto simp: Let_def)

lemma fat_block_entry:
  assumes "j < 128" "i * 128 + j < 1024"
  shows "le_dec (segment (4 * j) 4 (fat_block f i)) = f ! (i * 128 + j)"
  using segment_pieces [of 128 "\<lambda>j. let idx = i * 128 + j in if idx < 1024 then le_enc 4 (f ! idx) else replicate 4 0" 4 j "[]"] assms
  by (simp add: fat_block_def Let_def)

definition dirents_ok :: "dirent list \<Rightarrow> bool" where
  "dirents_ok ds \<longleftrightarrow> length ds = 256 \<and> (\<forall>e \<in> set ds. dirent_ok e)"

lemma dir_piece_length:
  "dirents_ok ds \<Longrightarrow> length (let idx = i * 9 + j in if idx < TINYFS_MAX_FILES then dirent_enc (ds ! idx) else replicate 52 0) = 52"
  by (simp add: Let_def dirents_ok_def TINYFS_MAX_FILES_def dirent_enc_length)

lemma length_dir_block [simp]:
  assumes "dirents_ok ds"
  shows "length (dir_block ds i) = 512"
proof -
  have "length (concat (map (\<lambda>j. let idx = i * 9 + j in if idx < TINYFS_MAX_FILES then dirent_enc (ds ! idx) else replicate 52 0) [0..<9])) = 9 * 52"
    by (rule concat_pieces_length) (rule dir_piece_length [OF assms])
  then show ?thesis unfolding dir_block_def length_append length_replicate by linarith
qed

lemma dir_block_entry:
  assumes "dirents_ok ds" "j < 9" "i * 9 + j < 256"
  shows "dirent_dec (segment (52 * j) 52 (dir_block ds i)) = ds ! (i * 9 + j)"
proof -
  let ?g = "\<lambda>j. let idx = i * 9 + j in if idx < TINYFS_MAX_FILES then dirent_enc (ds ! idx) else replicate 52 0"
  have "segment (52 * j) 52 (concat (map ?g [0..<9]) @ replicate 44 0) = ?g j"
    by (rule segment_pieces [OF dir_piece_length [OF assms(1)] assms(2)])
  then have "segment (52 * j) 52 (dir_block ds i) = dirent_enc (ds ! (i * 9 + j))"
    unfolding dir_block_def using assms(3) by (simp add: Let_def TINYFS_MAX_FILES_def)
  then show ?thesis using assms(1,3) by (simp add: dirent_dec_enc dirents_ok_def)
qed

text \<open>Loading a table block by block: after the blocks below \<open>k\<close>, the entries below \<open>k * p\<close> are set.\<close>

lemma fold_update_run:
  assumes "length xs = m" "\<And>j. j < p \<Longrightarrow> b + j < m \<Longrightarrow> g j = ys ! (b + j)"
  shows "fold (\<lambda>j xs. if b + j < m then xs[b + j := g j] else xs) [0..<p] xs =
    map (\<lambda>i. if b \<le> i \<and> i < b + p then ys ! i else xs ! i) [0..<m]"
  using assms
proof (induction p)
  case 0
  then show ?case by (auto simp: list_eq_iff_nth_eq)
next
  case (Suc p)
  have "fold (\<lambda>j xs. if b + j < m then xs[b + j := g j] else xs) [0..<p] xs =
      map (\<lambda>i. if b \<le> i \<and> i < b + p then ys ! i else xs ! i) [0..<m]" using Suc by simp
  moreover have "b + p < m \<Longrightarrow> g p = ys ! (b + p)" using Suc.prems(2) by simp
  ultimately show ?case
    by (auto simp: list_eq_iff_nth_eq nth_list_update)
qed

lemma fold_cong_index: "(\<And>j xs. j \<in> set js \<Longrightarrow> F j xs = G j xs) \<Longrightarrow> fold F js xs = fold G js xs"
  by (induction js arbitrary: xs) auto

lemma load_fat_block:
  assumes "length f = 1024"
  shows "load_fat i (fat_block ys i) f = map (\<lambda>k. if i * 128 \<le> k \<and> k < i * 128 + 128 then ys ! k else f ! k) [0..<1024]"
  unfolding load_fat_def Let_def
  by (rule fold_update_run [OF assms]) (rule fat_block_entry)

lemma load_dir_block:
  assumes "length ds = 256" "dirents_ok es"
  shows "load_dir i (dir_block es i) ds = map (\<lambda>k. if i * 9 \<le> k \<and> k < i * 9 + 9 then es ! k else ds ! k) [0..<256]"
  unfolding load_dir_def Let_def TINYFS_MAX_FILES_def
  by (rule fold_update_run [OF assms(1)]) (rule dir_block_entry [OF assms(2)])

text \<open>Loading all blocks of a table of \<open>m\<close> entries, \<open>p\<close> per block.\<close>

lemma load_table:
  assumes "\<And>xs i. i < n \<Longrightarrow> length xs = m \<Longrightarrow>
      load i xs = map (\<lambda>k. if i * p \<le> k \<and> k < i * p + p then ys ! k else xs ! k) [0..<m]"
    and "length xs = m" "length ys = m" "m \<le> n * p"
  shows "fold load [0..<n] xs = ys"
proof -
  have "k \<le> n \<Longrightarrow> fold load [0..<k] xs = map (\<lambda>i. if i < k * p then ys ! i else xs ! i) [0..<m]" for k
  proof (induction k)
    case 0
    then show ?case using assms(2) by (auto simp: list_eq_iff_nth_eq)
  next
    case (Suc k)
    then show ?case using assms(1) [of k] by (auto simp: list_eq_iff_nth_eq)
  qed
  from this [of n] show ?thesis using assms(3,4) by (auto simp: list_eq_iff_nth_eq)
qed

lemma load_whole_fat:
  assumes "length f = 1024" "length ys = 1024"
  shows "fold (\<lambda>i. load_fat i (fat_block ys i)) [0..<10] f = ys"
  by (rule load_table [where p = 128 and m = 1024]) (simp_all add: assms load_fat_block)

lemma load_whole_dir:
  assumes "length ds = 256" "dirents_ok es"
  shows "fold (\<lambda>i. load_dir i (dir_block es i)) [0..<90] ds = es"
  by (rule load_table [where p = 9 and m = 256]) (use assms in \<open>simp_all add: load_dir_block dirents_ok_def\<close>)

section \<open>Runs of sectors\<close>

text \<open>The sectors \<open>start + i\<close> for \<open>i\<close> in a list, replaced by the blocks \<open>f i\<close>.\<close>

definition put_run :: "u32 \<Rightarrow> (nat \<Rightarrow> bytes) \<Rightarrow> nat list \<Rightarrow> (u32 \<Rightarrow> bytes) \<Rightarrow> u32 \<Rightarrow> bytes" where
  "put_run start f is c = fold (\<lambda>i c. c(start + of_nat i := f i)) is c"

lemma put_run_Nil [simp]: "put_run start f [] c = c"
  by (simp add: put_run_def)

lemma put_run_Cons: "put_run start f (i # is) c = put_run start f is (c(start + of_nat i := f i))"
  by (simp add: put_run_def)

context block_device
begin

lemma write_run_ok:
  assumes "ok d" "\<forall>i \<in> set is. start + of_nat i < 1024 \<and> length (f i) = 512"
  shows "\<exists>d'. write_run ops start f is d = Some (0, d') \<and> ok d' \<and> content d' = put_run start f is (content d)"
  using assms
proof (induction "is" arbitrary: d)
  case (Cons i "is")
  then obtain d1 where "blk_write ops (start + of_nat i) 1 (f i) d = Some (0, d1)" "ok d1"
    "content d1 = (content d)(start + of_nat i := f i)"
    using write_sector [of d "start + of_nat i" "f i"] by auto
  with Cons.IH [of d1] Cons.prems show ?case by (simp add: put_run_Cons del: fun_upd_apply)
qed simp

lemma read_run_ok:
  assumes "ok d" "\<forall>i \<in> set is. start + of_nat i < 1024" "length buf = 512"
  shows "\<exists>buf' d'. read_run ops start load is buf x d =
      Some (0, buf', fold (\<lambda>i. load i (content d (start + of_nat i))) is x, d') \<and>
    length buf' = 512 \<and> ok d' \<and> content d' = content d"
  using assms
proof (induction "is" arbitrary: d buf x)
  case (Cons i "is")
  then obtain d1 where d1: "blk_read ops (start + of_nat i) 1 buf d = Some (0, content d (start + of_nat i), d1)" "ok d1"
    "content d1 = content d" using read_sector [of d "start + of_nat i" buf] by auto
  have "length (content d (start + of_nat i)) = 512" using Cons.prems by (intro content_length) auto
  with Cons.IH [of d1 "content d (start + of_nat i)" "load i (content d (start + of_nat i)) x"] Cons.prems d1
  show ?case by auto
qed simp

end

lemma put_run_other: "(\<And>i. i \<in> set is \<Longrightarrow> a \<noteq> start + of_nat i) \<Longrightarrow> put_run start f is c a = c a"
  unfolding put_run_def by (induction "is" arbitrary: c) auto

lemma put_run_same:
  assumes "i \<in> set is" "inj_on (\<lambda>i. start + of_nat i :: u32) (set is)" "distinct is"
  shows "put_run start f is c (start + of_nat i) = f i"
  using assms
proof (induction "is" arbitrary: c)
  case (Cons k "is")
  show ?case
  proof (cases "i = k")
    case True
    have "start + of_nat i \<noteq> start + (of_nat j :: u32)" if "j \<in> set is" for j
      using Cons.prems(2,3) True that inj_onD [of "\<lambda>i. start + of_nat i :: u32" "set (k # is)" i j] by auto
    then have "put_run start f is (c(start + of_nat k := f k)) (start + of_nat i) = f k"
      using True by (subst put_run_other) auto
    then show ?thesis using True by (simp add: put_run_def)
  next
    case False
    with Cons show ?thesis by (simp add: put_run_def inj_on_def)
  qed
qed simp

section \<open>Consistency of memory and disk\<close>

text \<open>The layout that formatting gives: superblock, 10 sectors of table, 90 of directory, data from 101.\<close>

definition layout_ok :: "superblock \<Rightarrow> bool" where
  "layout_ok b \<longleftrightarrow> sb_magic b = TINYFS_MAGIC \<and> total_blocks b = 1024 \<and> fat_start b = 1 \<and> dir_start b = 11 \<and> data_start b = 101"

definition tables_ok :: "tinyfs_data \<Rightarrow> bool" where
  "tables_ok data \<longleftrightarrow> layout_ok (sb data) \<and> length (fat data) = 1024 \<and> dirents_ok (dirents data)"

text \<open>The sectors of a device hold the tables.\<close>

definition sb_synced :: "tinyfs_data \<Rightarrow> (u32 \<Rightarrow> bytes) \<Rightarrow> bool" where
  "sb_synced data c \<longleftrightarrow> c 0 = sb_block (sb data)"

definition fat_synced :: "tinyfs_data \<Rightarrow> (u32 \<Rightarrow> bytes) \<Rightarrow> bool" where
  "fat_synced data c \<longleftrightarrow> (\<forall>i < 10. c (1 + of_nat i) = fat_block (fat data) i)"

definition dir_synced :: "tinyfs_data \<Rightarrow> (u32 \<Rightarrow> bytes) \<Rightarrow> bool" where
  "dir_synced data c \<longleftrightarrow> (\<forall>i < 90. c (11 + of_nat i) = dir_block (dirents data) i)"

definition synced :: "tinyfs_data \<Rightarrow> (u32 \<Rightarrow> bytes) \<Rightarrow> bool" where
  "synced data c \<longleftrightarrow> sb_synced data c \<and> fat_synced data c \<and> dir_synced data c"

lemmas synced_defs = synced_def sb_synced_def fat_synced_def dir_synced_def

lemma unat_sector: "i < 1024 \<Longrightarrow> unat (of_nat i :: u32) = i"
  by (simp only: unat_of_nat) simp

lemma sector_sum: "k + i < 1024 \<Longrightarrow> unat (of_nat k + of_nat i :: u32) = k + i"
  using unat_sector [of "k + i"] by simp

lemma run_sector_lt: "k + n \<le> 1024 \<Longrightarrow> i < n \<Longrightarrow> of_nat k + of_nat i < (1024 :: u32)"
  using sector_sum [of k i] by (simp add: word_less_nat_alt)

lemma run_sectors_inj:
  assumes "k + n \<le> 1024"
  shows "inj_on (\<lambda>i. of_nat k + of_nat i :: u32) (set [0..<n])"
proof (rule inj_onI)
  fix i j
  assume "i \<in> set [0..<n]" "j \<in> set [0..<n]" and eq: "of_nat k + of_nat i = (of_nat k + of_nat j :: u32)"
  then have "k + i < 1024" "k + j < 1024" using assms by auto
  then have "k + i = k + j" using sector_sum [of k i] sector_sum [of k j] unfolding eq by (simp only:)
  then show "i = j" by (rule add_left_imp_eq)
qed

text \<open>A run written at sector \<open>k\<close> is readable there and leaves the other sectors alone.\<close>

lemma put_run_in: "k + n \<le> 1024 \<Longrightarrow> i < n \<Longrightarrow> put_run (of_nat k) f [0..<n] c (of_nat k + of_nat i) = f i"
  by (rule put_run_same [OF _ run_sectors_inj]) simp_all

lemma put_run_out:
  assumes "k + n \<le> 1024" "unat a < k \<or> k + n \<le> unat a"
  shows "put_run (of_nat k) f [0..<n] c a = c a"
proof (rule put_run_other)
  fix i
  assume "i \<in> set [0..<n]"
  then show "a \<noteq> of_nat k + of_nat i" using sector_sum [of k i] assms by auto
qed

lemma fat_run_in: "i < 10 \<Longrightarrow> put_run 1 f [0..<10] c (1 + of_nat i) = f i"
  using put_run_in [of 1 10 i f c] by simp

lemma fat_run_out: "a < 1 \<or> 11 \<le> a \<Longrightarrow> put_run 1 f [0..<10] c a = c a"
  using put_run_out [of 1 10 a f c] by (auto simp: word_less_nat_alt word_le_nat_alt)

lemma dir_run_in: "i < 90 \<Longrightarrow> put_run 11 f [0..<90] c (11 + of_nat i) = f i"
  using put_run_in [of 11 90 i f c] by simp

lemma dir_run_out: "a < 11 \<or> 101 \<le> a \<Longrightarrow> put_run 11 f [0..<90] c a = c a"
  using put_run_out [of 11 90 a f c] by (auto simp: word_less_nat_alt word_le_nat_alt)

lemma run_bounds:
  "i < 10 \<Longrightarrow> 1 + of_nat i < (11 :: u32) \<and> 1 \<le> 1 + (of_nat i :: u32)"
  "i < 90 \<Longrightarrow> 11 + of_nat i < (101 :: u32) \<and> 11 \<le> 11 + (of_nat i :: u32)"
  using sector_sum [of 1 i] sector_sum [of 11 i] by (auto simp: word_less_nat_alt word_le_nat_alt)

lemma run_nonzero: "i < 10 \<Longrightarrow> 1 + of_nat i \<noteq> (0 :: u32)" "i < 90 \<Longrightarrow> 11 + of_nat i \<noteq> (0 :: u32)"
  using sector_sum [of 1 i] sector_sum [of 11 i] by (auto simp: unat_eq_0 [symmetric] simp del: unat_eq_0)

context block_device
begin

lemma write_superblock_ok:
  assumes "ok d"
  shows "\<exists>d'. write_superblock ops data d = Some (0, d') \<and> ok d' \<and> content d' = (content d)(0 := sb_block (sb data))"
  using write_sector [OF assms, of 0 "sb_block (sb data)"] by (auto simp: write_superblock_def simp del: fun_upd_apply)

lemma write_fat_ok:
  assumes "ok d" "tables_ok data"
  shows "\<exists>d'. write_fat ops data d = Some (0, d') \<and> ok d' \<and> content d' = put_run 1 (fat_block (fat data)) [0..<10] (content d)"
  using write_run_ok [OF assms(1), of "[0..<10]" 1 "fat_block (fat data)"] run_sector_lt [of 1 10] assms(2)
  by (simp add: write_fat_def tables_ok_def layout_ok_def del: upt.simps upt_rec_numeral)

lemma write_directory_ok:
  assumes "ok d" "tables_ok data"
  shows "\<exists>d'. write_directory ops data d = Some (0, d') \<and> ok d' \<and> content d' = put_run 11 (dir_block (dirents data)) [0..<90] (content d)"
  using write_run_ok [OF assms(1), of "[0..<90]" 11 "dir_block (dirents data)"] run_sector_lt [of 11 90] assms(2)
  by (simp add: write_directory_def tables_ok_def layout_ok_def del: upt.simps upt_rec_numeral)

end

lemma fold_loads:
  assumes "\<And>i. i \<in> set is \<Longrightarrow> c i = b i"
  shows "fold (\<lambda>i. load i (c i)) is x = fold (\<lambda>i. load i (b i)) is x"
  using assms by (induction "is" arbitrary: x) auto

lemma save_sb_synced: "sb_synced data (c(0 := sb_block (sb data)))"
  by (simp add: sb_synced_def)

lemma save_fat_synced: "fat_synced data (put_run 1 (fat_block (fat data)) [0..<10] c)"
  by (simp add: fat_synced_def fat_run_in)

lemma save_dir_synced: "dir_synced data (put_run 11 (dir_block (dirents data)) [0..<90] c)"
  by (simp add: dir_synced_def dir_run_in)

lemma save_keeps:
  "fat_synced data (c(0 := x)) = fat_synced data c" "dir_synced data (c(0 := x)) = dir_synced data c"
  "sb_synced data (put_run 1 f [0..<10] c) = sb_synced data c" "dir_synced data (put_run 1 f [0..<10] c) = dir_synced data c"
  "sb_synced data (put_run 11 f [0..<90] c) = sb_synced data c" "fat_synced data (put_run 11 f [0..<90] c) = fat_synced data c"
  by (auto simp: synced_defs fat_run_out dir_run_out run_bounds run_nonzero)

context block_device
begin

lemma mount_synced:
  assumes ok: "ok d" and data: "tables_ok data" and sync: "synced data (content d)" and buf: "length buf = 512"
    and mem: "length (fat mem) = 1024" "length (dirents mem) = 256"
  shows "\<exists>d'. tinyfs_mount ops (Some mem) buf dev d =
      Some (0, Some (data\<lparr>device := strcpy_safe (device mem) dev 32\<rparr>), d') \<and> ok d' \<and> content d' = content d"
proof -
  have lay: "sb_magic (sb data) = TINYFS_MAGIC" "fat_start (sb data) = 1" "dir_start (sb data) = 11"
    using data by (auto simp: tables_ok_def layout_ok_def)
  obtain d1 where d1: "blk_read ops 0 1 buf d = Some (0, sb_block (sb data), d1)" "ok d1" "content d1 = content d"
    using read_sector [OF ok, of 0 buf] buf sync by (auto simp: synced_defs)
  obtain b2 d2 where d2: "read_run ops 1 load_fat [0..<10] (sb_block (sb data)) (fat mem) d1 =
      Some (0, b2, fold (\<lambda>i. load_fat i (content d1 (1 + of_nat i))) [0..<10] (fat mem), d2)"
    "length b2 = 512" "ok d2" "content d2 = content d1"
    using read_run_ok [OF d1(2), of "[0..<10]" 1 "sb_block (sb data)" load_fat "fat mem"] run_sector_lt [of 1 10] by auto
  have f: "fold (\<lambda>i. load_fat i (content d1 (1 + of_nat i))) [0..<10] (fat mem) = fat data"
    using load_whole_fat [OF mem(1), of "fat data"] data sync d1(3)
      fold_loads [of "[0..<10]" "\<lambda>i. content d1 (1 + of_nat i)" "fat_block (fat data)" load_fat "fat mem"]
    by (simp add: tables_ok_def synced_defs)
  obtain b3 d3 where d3: "read_run ops 11 load_dir [0..<90] b2 (dirents mem) d2 =
      Some (0, b3, fold (\<lambda>i. load_dir i (content d2 (11 + of_nat i))) [0..<90] (dirents mem), d3)"
    "ok d3" "content d3 = content d2"
    using read_run_ok [OF d2(3), of "[0..<90]" 11 b2 load_dir "dirents mem"] run_sector_lt [of 11 90] d2(2) by auto
  have e: "fold (\<lambda>i. load_dir i (content d2 (11 + of_nat i))) [0..<90] (dirents mem) = dirents data"
    using load_whole_dir [OF mem(2), of "dirents data"] data sync d1(3) d2(4)
      fold_loads [of "[0..<90]" "\<lambda>i. content d2 (11 + of_nat i)" "dir_block (dirents data)" load_dir "dirents mem"]
    by (simp add: tables_ok_def synced_defs)
  have "mem\<lparr>device := x, sb := sb data, fat := fat data, dirents := dirents data\<rparr> = data\<lparr>device := x\<rparr>" for x
    by (rule tinyfs_data.equality) simp_all
  then show ?thesis using d1 d2(2-4) d3(2,3) lay d2(1) [unfolded f] d3(1) [unfolded e] by (simp add: tinyfs_mount_def)
qed

lemma unmount_saves:
  assumes "ok d" "tables_ok data"
  shows "\<exists>d'. tinyfs_unmount ops (Some data) d = Some (0, None, d') \<and> ok d' \<and> synced data (content d')"
proof -
  obtain d1 where d1: "write_superblock ops data d = Some (0, d1)" "ok d1" "content d1 = (content d)(0 := sb_block (sb data))"
    using write_superblock_ok [OF assms(1)] by blast
  obtain d2 where d2: "write_fat ops data d1 = Some (0, d2)" "ok d2" "content d2 = put_run 1 (fat_block (fat data)) [0..<10] (content d1)"
    using write_fat_ok [OF d1(2) assms(2)] by blast
  obtain d3 where d3: "write_directory ops data d2 = Some (0, d3)" "ok d3"
    "content d3 = put_run 11 (dir_block (dirents data)) [0..<90] (content d2)"
    using write_directory_ok [OF d2(2) assms(2)] by blast
  have "synced data (content d3)"
    unfolding synced_def d1(3) d2(3) d3(3) by (simp add: save_keeps save_sb_synced save_fat_synced save_dir_synced del: fun_upd_apply)
  then show ?thesis using d1(1) d2(1) d3(1,2) by (simp add: tinyfs_unmount_def)
qed

end

section \<open>A freshly formatted disk\<close>

definition empty_dirent :: dirent where
  "empty_dirent = dirent_dec (replicate 52 0)"

definition empty_fs :: "bytes \<Rightarrow> tinyfs_data" where
  "empty_fs dev = \<lparr>sb = \<lparr>sb_magic = TINYFS_MAGIC, total_blocks = 1024, fat_start = 1, dir_start = 11, data_start = 101, free_blocks = 923\<rparr>,
     fat = replicate 101 EOF @ replicate 923 0, dirents = replicate 256 empty_dirent, device = dev\<rparr>"

lemma empty_dirent_enc: "dirent_enc empty_dirent = replicate 52 0"
proof -
  have "0 # 0 # replicate 50 (0 :: u8) = replicate 52 0" using replicate_add [of 2 50 "0 :: u8"] by (simp add: numeral_2_eq_2)
  then show ?thesis
    by (simp add: empty_dirent_def dirent_dec_def dirent_enc_def segment_def le_enc_dec replicate_app_Cons_same
      flip: replicate_add)
qed

lemma empty_fs_ok: "tables_ok (empty_fs dev)"
  by (simp add: tables_ok_def layout_ok_def empty_fs_def dirents_ok_def dirent_ok_def empty_dirent_def dirent_dec_def)

definition format_fat_block :: "nat \<Rightarrow> bytes" where
  "format_fat_block i = concat (map (\<lambda>j. let block_num = (i - 1) * 128 + j in
     if block_num < 1024 \<and> block_num < 101 then le_enc 4 EOF else replicate 4 0) [0..<128])"

lemma format_fat_block_eq: "format_fat_block (Suc i) = fat_block (fat (empty_fs dev)) i"
proof -
  have z: "le_enc 4 (0 :: u32) = replicate 4 0" by (simp add: le_enc_def map_replicate_const)
  show ?thesis unfolding format_fat_block_def fat_block_def
    by (intro arg_cong [where f = concat] map_cong refl) (auto simp: Let_def empty_fs_def nth_append z)
qed

lemma length_format_fat_block [simp]: "length (format_fat_block i) = 512"
  unfolding format_fat_block_def by (subst concat_pieces_length [where k = 4]) (auto simp: Let_def)

lemma concat_replicate_pieces: "concat (map (\<lambda>j. replicate k x) [0..<n]) = replicate (n * k) x"
  by (induction n) (simp_all add: replicate_add [symmetric] add.commute)

lemma empty_dir_block: "dir_block (dirents (empty_fs dev)) i = replicate 512 0"
proof -
  have "dir_block (dirents (empty_fs dev)) i = concat (map (\<lambda>j. replicate 52 0) [0..<9]) @ replicate 44 0"
    unfolding dir_block_def
    by (intro arg_cong [where f = "\<lambda>x. concat x @ replicate 44 0"] map_cong refl)
      (auto simp: Let_def empty_fs_def empty_dirent_enc TINYFS_MAX_FILES_def)
  also have "\<dots> = replicate (9 * 52 + 44) 0"
    unfolding concat_replicate_pieces by (rule replicate_add [symmetric])
  finally show ?thesis by simp
qed

lemma range_run_in:
  assumes "m \<le> i" "i < n" "n \<le> 1024"
  shows "put_run 0 f [m..<n] c (of_nat i) = f i"
proof -
  have "inj_on (\<lambda>i. 0 + of_nat i :: u32) (set [m..<n])"
    using inj_on_subset [OF run_sectors_inj [of 0 n]] assms(3) by auto
  from put_run_same [OF _ this, of i] assms show ?thesis by simp
qed

lemma range_run_out: "n \<le> 1024 \<Longrightarrow> i < 1024 \<Longrightarrow> i < m \<or> n \<le> i \<Longrightarrow> put_run 0 f [m..<n] c (of_nat i) = c (of_nat i)"
proof (rule put_run_other)
  fix j
  assume "n \<le> 1024" "i < 1024" "i < m \<or> n \<le> i" "j \<in> set [m..<n]"
  then have "unat (of_nat i :: u32) \<noteq> unat (of_nat j :: u32)" using unat_sector [of i] unat_sector [of j] by auto
  then show "of_nat i \<noteq> 0 + (of_nat j :: u32)" by auto
qed

context block_device
begin

lemma format_synced:
  assumes "ok d"
  shows "\<exists>d'. tinyfs_format ops d = Some (0, d') \<and> ok d' \<and> synced (empty_fs dev) (content d')"
proof -
  let ?b = "sb (empty_fs dev)"
  obtain d1 where d1: "blk_write ops 0 1 (sb_block ?b) d = Some (0, d1)" "ok d1" "content d1 = (content d)(0 := sb_block ?b)"
    using write_sector [OF assms, of 0 "sb_block ?b"] by auto
  obtain d2 where d2: "write_run ops 0 format_fat_block [1..<11] d1 = Some (0, d2)" "ok d2"
    "content d2 = put_run 0 format_fat_block [1..<11] (content d1)"
    using write_run_ok [OF d1(2), of "[1..<11]" 0 format_fat_block] run_sector_lt [of 0 11] by auto
  obtain d3 where d3: "write_run ops 0 (\<lambda>_. replicate 512 0) [11..<101] d2 = Some (0, d3)" "ok d3"
    "content d3 = put_run 0 (\<lambda>_. replicate 512 0) [11..<101] (content d2)"
    using write_run_ok [OF d2(2), of "[11..<101]" 0 "\<lambda>_. replicate 512 0"] run_sector_lt [of 0 101] by auto
  have run: "tinyfs_format ops d = Some (0, d3)"
    using d1(1) d2(1) d3(1) unfolding tinyfs_format_def format_fat_block_def [abs_def] by (simp add: empty_fs_def Let_def)
  have at: "content d3 (of_nat i) = (if i = 0 then sb_block ?b else if i < 11 then format_fat_block i else replicate 512 0)"
    if "i < 101" for i
    using that range_run_in [of 11 i 101] range_run_out [of 101 i 11] range_run_in [of 1 i 11] range_run_out [of 11 i 1]
    unfolding d1(3) d2(3) d3(3) by auto
  have "content d3 (1 + of_nat i) = fat_block (fat (empty_fs dev)) i" if "i < 10" for i
    using at [of "Suc i"] that by (simp add: format_fat_block_eq [of i dev])
  moreover have "content d3 (11 + of_nat i) = dir_block (dirents (empty_fs dev)) i" if "i < 90" for i
    using at [of "11 + i"] that by (simp add: empty_dir_block)
  ultimately have "synced (empty_fs dev) (content d3)" using at [of 0] by (simp add: synced_defs)
  with run d3(2) show ?thesis by blast
qed

end

section \<open>Properties\<close>

text \<open>
  Mounting a device that was just formatted succeeds and yields an empty file system: 923 free
  blocks, the first 101 blocks reserved, no directory entry in use.
\<close>

theorem tinyfs_format_mount:
  assumes "block_device ops ok content" and "ok d" and "length buf = 512"
    and "length (fat mem) = 1024" and "length (dirents mem) = 256"
  shows "\<exists>d' d''. tinyfs_format ops d = Some (0, d') \<and>
    tinyfs_mount ops (Some mem) buf dev d' = Some (0, Some (empty_fs (strcpy_safe (device mem) dev 32)), d'')"
proof -
  obtain d' where d': "tinyfs_format ops d = Some (0, d')" "ok d'" "synced (empty_fs []) (content d')"
    using block_device.format_synced [OF assms(1,2)] by blast
  have "(empty_fs [])\<lparr>device := x\<rparr> = empty_fs x" for x by (simp add: empty_fs_def)
  then show ?thesis using d' block_device.mount_synced [OF assms(1) d'(2) empty_fs_ok d'(3) assms(3-5)] by metis
qed

definition scratch_mem :: tinyfs_data where
  "scratch_mem = \<lparr>sb = \<lparr>sb_magic = 9, total_blocks = 9, fat_start = 9, dir_start = 9, data_start = 9, free_blocks = 9\<rparr>,
     fat = replicate 1024 7, dirents = replicate 256 empty_dirent, device = replicate 32 7\<rparr>"

definition blank_disk :: ramdisk where
  "blank_disk = \<lparr>ramdisk_data = replicate 524288 0, ramdisk_initialized = True\<rparr>"

lemma blank_disk_ok: "ramdisk_ok blank_disk"
  by (simp add: blank_disk_def ramdisk_ok_def)

theorem tinyfs_format_mount_witness:
  "\<exists>d' d''. tinyfs_format ramdisk_ops blank_disk = Some (0, d') \<and>
    tinyfs_mount ramdisk_ops (Some scratch_mem) (replicate 512 0) [104, 100, 97] d' =
      Some (0, Some (empty_fs (strcpy_safe (device scratch_mem) [104, 100, 97] 32)), d'')"
  by (rule tinyfs_format_mount [OF rdisk.block_device_axioms blank_disk_ok]) (simp_all add: scratch_mem_def)

text \<open>
  C9: Unmounting saves the superblock, the allocation table and the directory so that mounting the
  device again yields the very same tables.
\<close>

theorem tinyfs_unmount_mount:
  assumes "block_device ops ok content" and "ok d" and "tables_ok data" and "length buf = 512"
    and "length (fat mem) = 1024" and "length (dirents mem) = 256"
  shows "\<exists>d' d''. tinyfs_unmount ops (Some data) d = Some (0, None, d') \<and>
    tinyfs_mount ops (Some mem) buf dev d' = Some (0, Some (data\<lparr>device := strcpy_safe (device mem) dev 32\<rparr>), d'')"
proof -
  obtain d' where d': "tinyfs_unmount ops (Some data) d = Some (0, None, d')" "ok d'" "synced data (content d')"
    using block_device.unmount_saves [OF assms(1-3)] by blast
  then show ?thesis using block_device.mount_synced [OF assms(1) d'(2) assms(3) d'(3) assms(4-6)] by metis
qed

theorem tinyfs_unmount_mount_witness:
  "\<exists>d' d''. tinyfs_unmount ramdisk_ops (Some (empty_fs [1, 2])) blank_disk = Some (0, None, d') \<and>
    tinyfs_mount ramdisk_ops (Some scratch_mem) (replicate 512 0) [] d' =
      Some (0, Some ((empty_fs [1, 2])\<lparr>device := strcpy_safe (device scratch_mem) [] 32\<rparr>), d'')"
  by (rule tinyfs_unmount_mount [OF rdisk.block_device_axioms blank_disk_ok empty_fs_ok]) (simp_all add: scratch_mem_def)

end
