(* ===== verification/TinyFS_Files.thy ===== *)
theory TinyFS_Files
  imports TinyFS_Tables
begin

text \<open>
  Files of TinyFS: block chains in the allocation table, the count of free blocks, and the contents of
  a file as the concatenation of its blocks. Reading returns the contents, writing replaces a segment
  of them, and neither touches the blocks of other files.
\<close>

section \<open>Free blocks\<close>

definition free_set :: "u32 list \<Rightarrow> nat set" where
  "free_set f = {i. 101 \<le> i \<and> i < 1024 \<and> f ! i = 0}"

definition count_ok :: "tinyfs_data \<Rightarrow> bool" where
  "count_ok data \<longleftrightarrow> free_blocks (sb data) = of_nat (card (free_set (fat data)))"

lemma finite_free_set [simp]: "finite (free_set f)"
  by (rule finite_subset [of _ "{..<1024}"]) (auto simp: free_set_def)

lemma scan_free_spec:
  assumes "n \<le> length f"
  shows "(scan_free f i n = Some None \<and> (\<forall>j. i \<le> j \<and> j < n \<longrightarrow> f ! j \<noteq> 0)) \<or>
    (\<exists>j. scan_free f i n = Some (Some j) \<and> i \<le> j \<and> j < n \<and> f ! j = 0)"
  using assms
proof (induction f i n rule: scan_free.induct)
  case (1 f i n)
  show ?case
  proof (cases "i < n \<and> f ! i \<noteq> 0")
    case True
    then have eq: "scan_free f i n = scan_free f (Suc i) n" using "1.prems" by (subst scan_free.simps) simp
    have all: "(\<forall>j. Suc i \<le> j \<and> j < n \<longrightarrow> f ! j \<noteq> 0) \<Longrightarrow> (\<forall>j. i \<le> j \<and> j < n \<longrightarrow> f ! j \<noteq> 0)"
      using True by (metis Suc_leI le_neq_implies_less)
    have "\<not> length f \<le> i" using True "1.prems" by simp
    with "1.IH" True "1.prems" consider "scan_free f (Suc i) n = Some None" "\<forall>j. Suc i \<le> j \<and> j < n \<longrightarrow> f ! j \<noteq> 0"
      | j where "scan_free f (Suc i) n = Some (Some j)" "Suc i \<le> j" "j < n" "f ! j = 0" by blast
    then show ?thesis using eq all by cases auto
  next
    case False
    then have "scan_free f i n = (if i < n then Some (Some i) else Some None)"
      using "1.prems" by (subst scan_free.simps) auto
    with False show ?thesis by auto
  qed
qed

definition take_block :: "tinyfs_data \<Rightarrow> nat \<Rightarrow> tinyfs_data" where
  "take_block data i =
     data\<lparr>fat := (fat data)[i := EOF], sb := (sb data)\<lparr>free_blocks := free_blocks (sb data) - 1\<rparr>\<rparr>"

lemma allocate_block_spec:
  assumes "tables_ok data"
  shows "(free_set (fat data) = {} \<and> allocate_block data = Some (-1, data)) \<or>
    (\<exists>i \<in> free_set (fat data). allocate_block data = Some (int i, take_block data i))"
proof -
  have l: "length (fat data) = 1024" "unat (data_start (sb data)) = 101" "unat (total_blocks (sb data)) = 1024"
    using assms by (auto simp: tables_ok_def layout_ok_def)
  show ?thesis using scan_free_spec [of 1024 "fat data" 101] l
    by (auto simp: allocate_block_def free_set_def take_block_def)
qed

lemma EOF_nonzero [simp]: "EOF \<noteq> 0" "0 \<noteq> EOF"
  by (simp_all add: EOF_def)

lemma free_set_update:
  assumes "i < 1024" "length f = 1024"
  shows "free_set (f[i := v]) = (if v = 0 \<and> 101 \<le> i then insert i (free_set f) else free_set f - {i})"
  using assms by (auto simp: free_set_def nth_list_update)

lemma tables_ok_update:
  "tables_ok data \<Longrightarrow> length f = 1024 \<Longrightarrow> tables_ok (data\<lparr>fat := f, sb := (sb data)\<lparr>free_blocks := n\<rparr>\<rparr>)"
  "tables_ok data \<Longrightarrow> length f = 1024 \<Longrightarrow> tables_ok (data\<lparr>fat := f\<rparr>)"
  by (simp_all add: tables_ok_def layout_ok_def)

lemma take_block_ok:
  assumes "tables_ok data" "i \<in> free_set (fat data)"
  shows "tables_ok (take_block data i)" "free_set (fat (take_block data i)) = free_set (fat data) - {i}"
    "count_ok data \<Longrightarrow> count_ok (take_block data i)" "dirents (take_block data i) = dirents data"
proof -
  have l: "length (fat data) = 1024" "i < 1024" using assms by (auto simp: tables_ok_def free_set_def)
  show "tables_ok (take_block data i)" using assms l by (simp add: take_block_def tables_ok_update)
  show fs: "free_set (fat (take_block data i)) = free_set (fat data) - {i}"
    using l by (simp add: take_block_def free_set_update)
  show "dirents (take_block data i) = dirents data" by (simp add: take_block_def)
  have "card (free_set (fat data)) = Suc (card (free_set (fat data) - {i}))"
    by (rule card.remove [OF finite_free_set assms(2)])
  moreover assume "count_ok data"
  ultimately have "free_blocks (sb data) = 1 + of_nat (card (free_set (fat data) - {i}))"
    by (simp only: count_ok_def of_nat_Suc)
  moreover have "free_blocks (sb (take_block data i)) = free_blocks (sb data) - 1" by (simp add: take_block_def)
  ultimately show "count_ok (take_block data i)" by (simp only: count_ok_def fs add_diff_cancel_left')
qed

section \<open>Chains\<close>

primrec fchain :: "u32 list \<Rightarrow> u32 \<Rightarrow> u32 list \<Rightarrow> bool" where
  "fchain f b [] \<longleftrightarrow> b = EOF"
| "fchain f b (x # xs) \<longleftrightarrow> b = x \<and> 101 \<le> x \<and> x < 1024 \<and> fchain f (f ! unat x) xs"

lemma fchain_block:
  assumes "fchain f b bs" "x \<in> set bs"
  shows "101 \<le> unat x" "unat x < 1024" "x < 1024" "x \<noteq> 0" "x \<noteq> EOF"
proof -
  have "101 \<le> x \<and> x < 1024" using assms by (induction bs arbitrary: b) auto
  then show "101 \<le> unat x" "unat x < 1024" "x < 1024" "x \<noteq> 0" "x \<noteq> EOF"
    by (auto simp: word_le_nat_alt word_less_nat_alt EOF_def)
qed

lemma fchain_entry_nonzero: "fchain f b bs \<Longrightarrow> x \<in> set bs \<Longrightarrow> f ! unat x \<noteq> 0"
proof (induction bs arbitrary: b)
  case (Cons y bs)
  then show ?case using fchain_block(4) [of f "f ! unat y" bs] by (cases bs) auto
qed simp

lemma fchain_cong: "(\<And>x. x \<in> set bs \<Longrightarrow> f ! unat x = g ! unat x) \<Longrightarrow> fchain f b bs = fchain g b bs"
  by (induction bs arbitrary: b) auto

lemma fchain_drop: "fchain f b bs \<Longrightarrow> k \<le> length bs \<Longrightarrow> skip_blocks f k b = Some c \<Longrightarrow> length f = 1024 \<Longrightarrow> fchain f c (drop k bs)"
proof (induction k arbitrary: b bs)
  case (Suc k)
  then show ?case
    by (cases bs) (auto simp: fat_next_def EOF_def word_less_nat_alt split: if_splits)
qed simp

lemma skip_blocks_chain:
  "fchain f b bs \<Longrightarrow> k \<le> length bs \<Longrightarrow> length f = 1024 \<Longrightarrow> \<exists>c. skip_blocks f k b = Some c \<and> fchain f c (drop k bs)"
proof (induction k arbitrary: b bs)
  case (Suc k)
  then show ?case
    by (cases bs) (auto simp: fat_next_def EOF_def word_less_nat_alt)
qed simp

definition file_bytes :: "(u32 \<Rightarrow> bytes) \<Rightarrow> u32 list \<Rightarrow> bytes" where
  "file_bytes c bs = concat (map c bs)"

lemma file_bytes_simps [simp]: "file_bytes c [] = []" "file_bytes c (x # xs) = c x @ file_bytes c xs"
  "file_bytes c (xs @ ys) = file_bytes c xs @ file_bytes c ys"
  by (simp_all add: file_bytes_def)

context block_device
begin

lemma file_bytes_length: "ok d \<Longrightarrow> \<forall>x \<in> set bs. x < 1024 \<Longrightarrow> length (file_bytes (content d) bs) = 512 * length bs"
  by (induction bs) (auto simp: content_length)

text \<open>The read loop copies the next bytes of the chain into the buffer.\<close>

lemma read_loop_spec:
  assumes "ok d" "fchain f cur bs" "length f = 1024" "bo < 512" "n \<le> sz" "bo + (sz - n) \<le> 512 * length bs"
    "sz \<le> length buffer" "length bb = 512"
  shows "\<exists>d'. read_loop ops f sz n bo cur bb buffer d =
      Some (int sz, put_at n (segment bo (sz - n) (file_bytes (content d) bs)) buffer, d') \<and> ok d' \<and> content d' = content d"
  using assms
proof (induction bs arbitrary: cur n bo bb buffer d)
  case Nil
  then have "n = sz" by simp
  then show ?case using Nil by (subst read_loop.simps) (simp add: segment_def)
next
  case (Cons x bs)
  show ?case
  proof (cases "n = sz")
    case True
    then show ?thesis using Cons.prems by (subst read_loop.simps) (simp add: segment_def)
  next
    case False
    let ?c = "content d x"
    define k where "k = min (512 - bo) (sz - n)"
    have k: "k \<le> 512 - bo" "n + k \<le> sz" "0 < k" "k = 512 - bo \<or> n + k = sz"
      using False Cons.prems(4,5) by (auto simp: k_def)
    have x: "x = cur" "x < 1024" "unat x < 1024" "x \<noteq> EOF" "fchain f (f ! unat x) bs"
      using Cons.prems(2) by (auto simp: word_less_nat_alt EOF_def)
    have len: "length ?c = 512" using Cons.prems(1) x by (intro content_length)
    have vb: "\<forall>y \<in> set bs. y < 1024" using fchain_block(3) [OF x(5)] by blast
    obtain d1 where d1: "blk_read ops cur 1 bb d = Some (0, ?c, d1)" "ok d1" "content d1 = content d"
      using read_sector [of d x bb] Cons.prems(1,8) x by auto
    define A where "A = segment bo k ?c"
    define b where "b = put_at n A buffer"
    have A: "length A = k" using len Cons.prems(4) k by (simp add: A_def)
    have put: "put_checked n A buffer = Some b" "length b = length buffer"
      using A k Cons.prems(7) by (simp_all add: put_checked_def b_def)
    have step: "read_loop ops f sz n bo cur bb buffer d = read_loop ops f sz (n + k) 0 (f ! unat x) ?c b d1"
      using d1 x put(1) False Cons.prems(3-5) by (subst read_loop.simps) (simp add: fat_next_def Let_def A_def k_def)
    have rem: "0 + (sz - (n + k)) \<le> 512 * length bs" using Cons.prems(4,6) k by auto
    have "\<exists>d'. read_loop ops f sz (n + k) 0 (f ! unat x) ?c b d1 =
        Some (int sz, put_at (n + k) (segment 0 (sz - (n + k)) (file_bytes (content d1) bs)) b, d') \<and> ok d' \<and> content d' = content d1"
      by (rule Cons.IH [OF d1(2) x(5) Cons.prems(3) _ k(2) rem]) (simp, simp add: put(2) Cons.prems(7), rule len)
    then obtain d2 where d2: "read_loop ops f sz (n + k) 0 (f ! unat x) ?c b d1 =
        Some (int sz, put_at (n + k) (segment 0 (sz - (n + k)) (file_bytes (content d1) bs)) b, d2)" "ok d2" "content d2 = content d1"
      by blast
    define B where "B = segment 0 (sz - (n + k)) (file_bytes (content d) bs)"
    have "length (file_bytes (content d) bs) = 512 * length bs" by (rule file_bytes_length [OF Cons.prems(1) vb])
    then have "length B = sz - (n + k)" using rem by (simp add: B_def)
    then have "n + length A + length B \<le> length buffer" using A k Cons.prems(7) by simp
    then have "put_at (n + k) B b = put_at n (A @ B) buffer" unfolding A [symmetric] b_def by (rule put_at_append)
    moreover have "A @ B = segment bo (sz - n) (?c @ file_bytes (content d) bs)"
      using len Cons.prems(4) k by (auto simp: segment_def A_def B_def)
    ultimately show ?thesis using step d2 d1(3) by (simp add: B_def)
  qed
qed

end

section \<open>Growing a chain\<close>

definition link_block :: "tinyfs_data \<Rightarrow> u32 \<Rightarrow> nat \<Rightarrow> tinyfs_data" where
  "link_block data cur i = (take_block data i)\<lparr>fat := (fat (take_block data i))[unat cur := of_nat i]\<rparr>"

text \<open>
  The allocation table after a chain \<open>bs\<close> was extended by the blocks \<open>new\<close>: they were free, every
  entry outside the chain is unchanged.
\<close>

definition grown :: "tinyfs_data \<Rightarrow> tinyfs_data \<Rightarrow> u32 \<Rightarrow> u32 list \<Rightarrow> u32 list \<Rightarrow> bool" where
  "grown data data' cur bs new \<longleftrightarrow>
     tables_ok data' \<and> dirents data' = dirents data \<and> (count_ok data \<longrightarrow> count_ok data') \<and>
     fchain (fat data') cur (bs @ new) \<and> distinct (bs @ new) \<and> unat ` set new \<subseteq> free_set (fat data) \<and>
     (\<forall>x < 1024. x \<notin> unat ` set (bs @ new) \<longrightarrow> fat data' ! x = fat data ! x) \<and>
     free_set (fat data') = free_set (fat data) - unat ` set new"

lemma grown_refl: "tables_ok data \<Longrightarrow> fchain (fat data) cur bs \<Longrightarrow> distinct bs \<Longrightarrow> grown data data cur bs []"
  by (simp add: grown_def)

lemma unat_block: "i \<in> free_set f \<Longrightarrow> unat (of_nat i :: u32) = i"
  using unat_sector [of i] by (simp add: free_set_def)

lemma block_of_free:
  assumes "i \<in> free_set f"
  shows "101 \<le> (of_nat i :: u32)" "(of_nat i :: u32) < 1024" "of_nat i \<noteq> EOF"
proof -
  have "101 \<le> unat (of_nat i :: u32)" "unat (of_nat i :: u32) < 1024"
    using assms unat_block [OF assms] by (auto simp: free_set_def)
  then show "101 \<le> (of_nat i :: u32)" "(of_nat i :: u32) < 1024" "of_nat i \<noteq> EOF"
    by (auto simp: word_le_nat_alt word_less_nat_alt EOF_def)
qed

lemma link_block_grown:
  assumes ok: "tables_ok data" and ch: "fchain (fat data) cur [cur]" and i: "i \<in> free_set (fat data)"
  shows "grown data (link_block data cur i) cur [cur] [of_nat i]"
    and "fchain (fat (link_block data cur i)) (of_nat i) [of_nat i]"
proof -
  let ?d = "link_block data cur i"
  note t = take_block_ok [OF ok i]
  have len: "length (fat data) = 1024" "length (fat (take_block data i)) = 1024"
    using ok t(1) by (auto simp: tables_ok_def)
  have cur: "unat cur < 1024" "101 \<le> cur" "cur < 1024" "fat data ! unat cur = EOF"
    using ch by (auto simp: word_less_nat_alt)
  have i': "i < 1024" "101 \<le> i" "fat data ! i = 0" using i by (auto simp: free_set_def)
  have ne: "unat cur \<noteq> i" using cur(4) i'(3) by auto
  have fat: "fat ?d = (fat data)[i := EOF, unat cur := of_nat i]" by (simp add: link_block_def take_block_def)
  have nz: "(of_nat i :: u32) \<noteq> 0" using block_of_free [OF i] by (auto simp: word_le_nat_alt)
  have fs: "free_set (fat ?d) = free_set (fat data) - {i}"
    using cur(1) i' len(1) cur(4) nz by (auto simp: fat free_set_def nth_list_update)
  have cnt: "count_ok ?d = count_ok (take_block data i)"
    using fs t(2) by (simp add: count_ok_def link_block_def)
  show "fchain (fat ?d) (of_nat i) [of_nat i]"
    using block_of_free [OF i] unat_block [OF i] ne len(1) i' by (simp add: fat nth_list_update)
  then have "fchain (fat ?d) cur ([cur] @ [of_nat i])" using cur len(1) by (simp add: fat nth_list_update)
  moreover have "tables_ok ?d" unfolding link_block_def using t(1) len(2) by (simp add: tables_ok_update)
  moreover have "cur \<noteq> of_nat i" using ne unat_block [OF i] by auto
  moreover have "\<forall>x < 1024. x \<notin> unat ` set ([cur] @ [of_nat i]) \<longrightarrow> fat ?d ! x = fat data ! x"
    using unat_block [OF i] by (simp add: fat nth_list_update)
  moreover have "dirents ?d = dirents data" by (simp add: link_block_def take_block_def)
  ultimately show "grown data ?d cur [cur] [of_nat i]"
    using fs i unat_block [OF i] cnt t(3) by (simp add: grown_def)
qed

lemma next_or_alloc_spec:
  assumes ok: "tables_ok data" and ch: "fchain (fat data) cur (cur # rest)"
  obtains y ys where "rest = y # ys" "next_or_alloc data cur = Some (Some y, data)"
  | "rest = []" "free_set (fat data) = {}" "next_or_alloc data cur = Some (None, data)"
  | i where "rest = []" "i \<in> free_set (fat data)" "next_or_alloc data cur = Some (Some (of_nat i), link_block data cur i)"
proof (cases rest)
  case (Cons y ys)
  have "next_or_alloc data cur = Some (Some y, data)"
    using ch ok fchain_block(5) [OF ch, of y] Cons
    by (simp add: next_or_alloc_def fat_next_def tables_ok_def word_less_nat_alt)
  with Cons that(1) show thesis by blast
next
  case Nil
  have cur: "unat cur < length (fat data)" "fat data ! unat cur = EOF" "unat cur < length (fat data)"
    using ch ok Nil by (auto simp: word_less_nat_alt tables_ok_def)
  have eof: "fat_next (fat data) cur = Some EOF" using cur by (simp add: fat_next_def)
  from allocate_block_spec [OF ok] show thesis
  proof (elim disjE conjE bexE)
    assume "free_set (fat data) = {}" "allocate_block data = Some (-1, data)"
    then show thesis using that(2) Nil eof by (simp add: next_or_alloc_def)
  next
    fix i
    assume "i \<in> free_set (fat data)" "allocate_block data = Some (int i, take_block data i)"
    then show thesis using that(3) Nil eof cur by (simp add: next_or_alloc_def link_block_def take_block_def)
  qed
qed

text \<open>Growth of the rest of a chain is growth of the chain.\<close>

lemma grown_Cons:
  assumes g: "grown data data' y rest new" and ch: "fchain (fat data) cur (cur # rest)"
    and ne: "cur \<notin> set rest" and rest: "rest \<noteq> []"
  shows "grown data data' cur (cur # rest) new"
proof -
  have c: "unat cur < 1024" "101 \<le> cur" "cur < 1024" "fchain (fat data) (fat data ! unat cur) rest"
    using ch by (auto simp: word_less_nat_alt)
  have "fat data ! unat cur \<noteq> 0" using fchain_entry_nonzero [OF ch] by simp
  then have new: "cur \<notin> set new" using g by (auto simp: grown_def free_set_def)
  then have "unat cur \<notin> unat ` set (rest @ new)" using ne by (auto simp: inj_image_mem_iff)
  then have "fat data' ! unat cur = fat data ! unat cur" using g c(1) by (simp add: grown_def)
  moreover have "y = fat data ! unat cur" using g c(4) rest by (cases rest) (auto simp: grown_def)
  ultimately show ?thesis using g c ne new by (auto simp: grown_def)
qed

lemma grown_link:
  assumes g: "grown (link_block data cur i) data' (of_nat i) [of_nat i] new"
    and ok: "tables_ok data" and ch: "fchain (fat data) cur [cur]" and i: "i \<in> free_set (fat data)"
  shows "grown data data' cur [cur] (of_nat i # new)"
proof -
  let ?d = "link_block data cur i"
  note l = link_block_grown(1) [OF ok ch i]
  have cur: "unat cur < 1024" "101 \<le> cur" "cur < 1024" using ch by (auto simp: word_less_nat_alt)
  have "fat ?d ! unat cur = of_nat i" using l by (simp add: grown_def)
  moreover have "fat ?d ! unat cur \<noteq> 0" using fchain_entry_nonzero [of "fat ?d" cur "[cur, of_nat i]" cur] l by (simp add: grown_def)
  then have new: "cur \<notin> set new" using g by (auto simp: grown_def free_set_def)
  moreover have ne: "cur \<noteq> of_nat i" using l by (auto simp: grown_def)
  ultimately have at: "unat cur \<notin> unat ` set ([of_nat i] @ new)" "fat ?d ! unat cur = of_nat i"
    by (auto dest: word_unat_eq_iff [THEN iffD2])
  have "\<forall>x < 1024. x \<notin> unat ` set ([of_nat i] @ new) \<longrightarrow> fat data' ! x = fat ?d ! x" using g unfolding grown_def by blast
  with at cur(1) have "fat data' ! unat cur = of_nat i" by simp
  then have "fchain (fat data') cur (cur # of_nat i # new)" using g cur by (auto simp: grown_def)
  then show ?thesis using g l new ne i unat_block [OF i] by (auto simp: grown_def)
qed

section \<open>The write loop\<close>

lemma put_at_app1: "i + length bs \<le> length xs \<Longrightarrow> put_at i bs (xs @ ys) = put_at i bs xs @ ys"
  by (simp add: put_at_def)

lemma put_at_app2:
  assumes "i + length as = length xs"
  shows "put_at i (as @ bs) (xs @ ys) = put_at i as xs @ put_at 0 bs ys"
proof -
  have "drop (i + length (as @ bs)) (xs @ ys) = drop (length bs) ys" using assms by (simp add: add.assoc [symmetric])
  then show ?thesis using assms by (simp only: put_at_def) simp
qed

lemma segment_glue: "w + k \<le> w' \<Longrightarrow> segment w k xs @ segment (w + k) (w' - (w + k)) xs = segment w (w' - w) xs"
  using segment_step [of w k w' xs] by simp

text \<open>What the write loop achieves from position \<open>w\<close> on, in chain \<open>bs\<close> at byte \<open>bo\<close>.\<close>

definition written_to :: "('d \<Rightarrow> u32 \<Rightarrow> bytes) \<Rightarrow> bytes \<Rightarrow> nat \<Rightarrow> nat \<Rightarrow> nat \<Rightarrow> u32 list \<Rightarrow> 'd \<Rightarrow> 'd \<Rightarrow> bool" where
  "written_to content buffer w w' bo bs d d' \<longleftrightarrow>
     file_bytes (content d') bs = put_at bo (segment w (w' - w) buffer) (file_bytes (content d) bs) \<and>
     (\<forall>x. x \<notin> set bs \<longrightarrow> content d' x = content d x) \<and>
     w \<le> w' \<and> w' \<le> length buffer \<and> bo + (w' - w) \<le> 512 * length bs"

lemma file_bytes_cong: "(\<And>x. x \<in> set bs \<Longrightarrow> c x = c' x) \<Longrightarrow> file_bytes c bs = file_bytes c' bs"
  by (simp add: file_bytes_def cong: map_cong)

lemma file_bytes_update: "x \<notin> set bs \<Longrightarrow> file_bytes (c(x := v)) bs = file_bytes c bs"
  by (rule file_bytes_cong) auto

text \<open>One block at the end of a chain, and one block followed by the rest of the chain.\<close>

lemma written_to_last:
  assumes "content d' = (content d)(cur := put_at bo (segment w k buffer) (content d cur))" "cur \<notin> set rest"
    "length (content d cur) = 512" "bo + k \<le> 512" "w + k \<le> length buffer"
  shows "written_to content buffer w (w + k) bo (cur # rest) d d'"
  using assms put_at_app1 [of bo "segment w k buffer" "content d cur" "file_bytes (content d) rest"]
  by (simp add: written_to_def file_bytes_update)

lemma written_to_step:
  assumes c: "content d1 = (content d)(cur := put_at bo (segment w k buffer) (content d cur))" and "cur \<notin> set bs"
    and "length (content d cur) = 512" "bo + k = 512" "w + k \<le> length buffer"
    and rest: "written_to content buffer (w + k) w' 0 bs d1 d'"
  shows "written_to content buffer w w' bo (cur # bs) d d'"
proof -
  have w': "w + k \<le> w'" "w' \<le> length buffer" "w' - (w + k) \<le> 512 * length bs" using rest by (auto simp: written_to_def)
  have cur: "content d' cur = put_at bo (segment w k buffer) (content d cur)"
    using rest assms(2) c by (simp add: written_to_def)
  have "file_bytes (content d1) bs = file_bytes (content d) bs" unfolding c by (rule file_bytes_update [OF assms(2)])
  then have "file_bytes (content d') bs = put_at 0 (segment (w + k) (w' - (w + k)) buffer) (file_bytes (content d) bs)"
    using rest by (simp add: written_to_def)
  moreover have "bo + length (segment w k buffer) = length (content d cur)" using assms(3-5) by simp
  ultimately have "file_bytes (content d') (cur # bs) =
      put_at bo (segment w k buffer @ segment (w + k) (w' - (w + k)) buffer) (file_bytes (content d) (cur # bs))"
    using cur put_at_app2 [of bo "segment w k buffer" "content d cur"] by simp
  then show ?thesis using rest c assms(2,4) w' segment_glue [OF w'(1), of buffer]
    by (auto simp: written_to_def)
qed

context block_device
begin

text \<open>The sector after one turn of the loop, whether its old content was read first or not.\<close>

lemma write_turn:
  assumes ok: "ok d" and cur: "cur < 1024" and bb: "length bb = 512" and k: "k = min (512 - bo) (length buffer - w)"
    and w: "w < length buffer" and bo: "bo < 512"
  obtains bb' d0 d1 r where
    "(if bo > 0 \<or> length buffer - w < 512 then blk_read ops cur 1 bb d else Some (0, bb, d)) = Some (r, bb', d0)"
    "blk_write ops cur 1 (put_at bo (segment w k buffer) bb') d0 = Some (0, d1)" "ok d1"
    "content d1 = (content d)(cur := put_at bo (segment w k buffer) (content d cur))"
    "length (put_at bo (segment w k buffer) bb') = 512"
proof -
  have c: "length (content d cur) = 512" using content_length [OF ok cur] .
  have sl: "length (segment w k buffer) = k" using k w by simp
  obtain r bb' d0 where r: "(if bo > 0 \<or> length buffer - w < 512 then blk_read ops cur 1 bb d else Some (0, bb, d)) = Some (r, bb', d0)"
    "ok d0" "content d0 = content d" "length bb' = 512"
    "put_at bo (segment w k buffer) bb' = put_at bo (segment w k buffer) (content d cur)"
  proof (cases "bo > 0 \<or> length buffer - w < 512")
    case True
    obtain d' where "blk_read ops cur 1 bb d = Some (0, content d cur, d')" "ok d'" "content d' = content d"
      using read_sector [OF ok cur bb] by blast
    with True c that show thesis by simp
  next
    case False
    then have "bo = 0" "k = 512" using k by auto
    then have "put_at bo (segment w k buffer) bb = put_at bo (segment w k buffer) (content d cur)"
      using sl bb c by (simp add: put_at_def)
    with False ok bb that show thesis by simp
  qed
  have len: "length (put_at bo (segment w k buffer) bb') = 512" using r(4) sl k bo by (subst length_put_at) simp_all
  obtain d1 where d1: "blk_write ops cur 1 (put_at bo (segment w k buffer) bb') d0 = Some (0, d1)" "ok d1"
    "content d1 = (content d0)(cur := put_at bo (segment w k buffer) bb')"
    using write_sector [OF r(2) cur len] by blast
  from d1(3) have "content d1 = (content d)(cur := put_at bo (segment w k buffer) (content d cur))"
    unfolding r(3,5) .
  from that [OF r(1) d1(1,2) this len] show thesis .
qed

lemma write_loop_spec:
  assumes "ok d" "tables_ok data" "fchain (fat data) cur bs" "distinct bs" "bs \<noteq> []" "bo < 512" "w < length buffer" "length bb = 512"
  shows "\<exists>w' data' d' new. write_loop ops buffer w bo cur bb data d = Some (0, w', data', d') \<and> ok d' \<and>
    grown data data' cur bs new \<and> written_to content buffer w w' bo (bs @ new) d d' \<and>
    (w' < length buffer \<longrightarrow> free_set (fat data') = {} \<and> bo + (w' - w) = 512 * length (bs @ new))"
  using assms
proof (induction "length buffer - w" arbitrary: w bo cur bs bb data d rule: less_induct)
  case less
  obtain rest where bs: "bs = cur # rest" using less.prems(3,5) by (cases bs) auto
  have ch: "fchain (fat data) cur (cur # rest)" and cur: "cur < 1024" using less.prems(3) bs by auto
  define k where "k = min (512 - bo) (length buffer - w)"
  have k: "0 < k" "bo + k \<le> 512" "w + k \<le> length buffer" "w + k < length buffer \<Longrightarrow> bo + k = 512"
    using less.prems(6,7) by (auto simp: k_def)
  have c: "length (content d cur) = 512" using content_length [OF less.prems(1) cur] .
  obtain bb' d0 d1 r where t:
    "(if bo > 0 \<or> length buffer - w < 512 then blk_read ops cur 1 bb d else Some (0, bb, d)) = Some (r, bb', d0)"
    "blk_write ops cur 1 (put_at bo (segment w k buffer) bb') d0 = Some (0, d1)" "ok d1"
    "content d1 = (content d)(cur := put_at bo (segment w k buffer) (content d cur))"
    "length (put_at bo (segment w k buffer) bb') = 512"
    by (rule write_turn [OF less.prems(1) cur less.prems(8) k_def less.prems(7,6)])
  let ?bb = "put_at bo (segment w k buffer) bb'"
  have step: "write_loop ops buffer w bo cur bb data d =
      (if w + k < length buffer then do {
         (nxt, data) \<leftarrow> next_or_alloc data cur;
         case nxt of None \<Rightarrow> Some (0, w + k, data, d1) | Some b \<Rightarrow> write_loop ops buffer (w + k) 0 b ?bb data d1 }
       else Some (0, w + k, data, d1))"
    using t(1,2) less.prems(6,7) by (subst write_loop.simps) (simp add: Let_def flip: k_def)
  have last: "written_to content buffer w (w + k) bo (cur # rest) d d1"
    using written_to_last [OF t(4) _ c k(2,3)] less.prems(4) bs by simp
  show ?case
  proof (cases "w + k < length buffer")
    case False
    then show ?thesis using step t(3) last grown_refl [OF less.prems(2,3,4)] k(3) bs
      by (intro exI [of _ "w + k"] exI [of _ data] exI [of _ d1] exI [of _ "[]"]) simp
  next
    case True
    have "length buffer - (w + k) < length buffer - w" using True k(1) by simp
    note IH = less.hyps [OF this t(3)]
    from less.prems(2) ch show ?thesis
    proof (rule next_or_alloc_spec)
      fix y ys
      assume a: "rest = y # ys" "next_or_alloc data cur = Some (Some y, data)"
      obtain w' data' d' new where r: "write_loop ops buffer (w + k) 0 y ?bb data d1 = Some (0, w', data', d')" "ok d'"
        "grown data data' y rest new" "written_to content buffer (w + k) w' 0 (rest @ new) d1 d'"
        "w' < length buffer \<longrightarrow> free_set (fat data') = {} \<and> 0 + (w' - (w + k)) = 512 * length (rest @ new)"
        using IH [of data y rest 0 ?bb] less.prems(2,4) ch a(1) bs True k(1) t(5) by auto
      have g: "grown data data' cur (cur # rest) new" using grown_Cons [OF r(3) ch] less.prems(4) bs a(1) by simp
      then have "cur \<notin> set (rest @ new)" by (auto simp: grown_def)
      then have "written_to content buffer w w' bo (cur # (rest @ new)) d d'"
        by (rule written_to_step [OF t(4) _ c k(4) [OF True] k(3) r(4)])
      moreover have "w + k \<le> w'" using r(4) by (simp add: written_to_def)
      ultimately show ?thesis using r(1,2,5) g a(2) step True bs k(4)
        by (intro exI [of _ w'] exI [of _ data'] exI [of _ d'] exI [of _ new]) auto
    next
      assume a: "rest = []" "free_set (fat data) = {}" "next_or_alloc data cur = Some (None, data)"
      then show ?thesis using step True t(3) last grown_refl [OF less.prems(2,3,4)] bs k(4)
        by (intro exI [of _ "w + k"] exI [of _ data] exI [of _ d1] exI [of _ "[]"]) simp
    next
      fix i
      assume a: "rest = []" "i \<in> free_set (fat data)"
        "next_or_alloc data cur = Some (Some (of_nat i), link_block data cur i)"
      have ch1: "fchain (fat data) cur [cur]" using ch a(1) by simp
      note l = link_block_grown [OF less.prems(2) ch1 a(2)]
      have ok1: "tables_ok (link_block data cur i)" using l(1) by (simp add: grown_def)
      obtain w' data' d' new where r: "write_loop ops buffer (w + k) 0 (of_nat i) ?bb (link_block data cur i) d1 = Some (0, w', data', d')" "ok d'"
        "grown (link_block data cur i) data' (of_nat i) [of_nat i] new"
        "written_to content buffer (w + k) w' 0 ([of_nat i] @ new) d1 d'"
        "w' < length buffer \<longrightarrow> free_set (fat data') = {} \<and> 0 + (w' - (w + k)) = 512 * length ([of_nat i] @ new)"
        using IH [OF ok1 l(2) _ _ _ True t(5), of 0] by auto
      have g: "grown data data' cur [cur] (of_nat i # new)" by (rule grown_link [OF r(3) less.prems(2) ch1 a(2)])
      then have "cur \<notin> set ([of_nat i] @ new)" by (auto simp: grown_def)
      then have "written_to content buffer w w' bo (cur # ([of_nat i] @ new)) d d'"
        by (rule written_to_step [OF t(4) _ c k(4) [OF True] k(3) r(4)])
      moreover have "w + k \<le> w'" using r(4) by (simp add: written_to_def)
      ultimately show ?thesis using r(1,2,5) g a(1,3) step True bs k(4)
        by (intro exI [of _ w'] exI [of _ data'] exI [of _ d'] exI [of _ "of_nat i # new"]) auto
    qed
  qed
qed

end

section \<open>Seeking\<close>

lemma grown_trans:
  assumes "grown data data1 cur bs new1" "grown data1 data2 cur (bs @ new1) new2"
  shows "grown data data2 cur bs (new1 @ new2)"
  using assms unfolding grown_def by (auto simp: image_Un)

lemma grown_suffix:
  assumes "grown data data' c (drop n bs) new" "fchain (fat data) cur bs" "distinct bs" "n < length bs"
  shows "grown data data' cur bs new"
  using assms
proof (induction n arbitrary: cur bs)
  case 0
  then obtain x xs where "bs = x # xs" by (cases bs) auto
  with 0 show ?case by (auto simp: grown_def)
next
  case (Suc n)
  obtain xs where bs: "bs = cur # xs" using Suc.prems(2,4) by (cases bs) auto
  have xs: "xs \<noteq> []" using Suc.prems(4) bs by auto
  have "grown data data' (fat data ! unat cur) xs new"
    using Suc.IH [of xs "fat data ! unat cur"] Suc.prems bs by auto
  then show ?case using grown_Cons [of data data' "fat data ! unat cur" xs new cur] Suc.prems bs xs by auto
qed

lemma seek_blocks_spec:
  assumes "tables_ok data" "fchain (fat data) cur bs" "distinct bs" "bs \<noteq> []"
  shows "\<exists>r data' new. seek_blocks n data cur = Some (r, data') \<and> grown data data' cur bs new \<and>
    (case r of None \<Rightarrow> free_set (fat data') = {} \<and> length (bs @ new) \<le> n
     | Some c \<Rightarrow> n < length (bs @ new) \<and> fchain (fat data') c (drop n (bs @ new)))"
  using assms
proof (induction n arbitrary: data cur bs)
  case 0
  then show ?case using grown_refl [OF 0(1-3)] by (intro exI [of _ "Some cur"] exI [of _ data] exI [of _ "[]"]) simp
next
  case (Suc n)
  obtain rest where bs: "bs = cur # rest" using Suc.prems(2,4) by (cases bs) auto
  have ch: "fchain (fat data) cur (cur # rest)" using Suc.prems(2) bs by simp
  from Suc.prems(1) ch show ?case
  proof (rule next_or_alloc_spec)
    fix y ys
    assume a: "rest = y # ys" "next_or_alloc data cur = Some (Some y, data)"
    obtain r data' new where r: "seek_blocks n data y = Some (r, data')" "grown data data' y rest new"
      "case r of None \<Rightarrow> free_set (fat data') = {} \<and> length (rest @ new) \<le> n
       | Some c \<Rightarrow> n < length (rest @ new) \<and> fchain (fat data') c (drop n (rest @ new))"
      using Suc.IH [of data y rest] Suc.prems(1,3) ch a(1) bs by auto
    have "grown data data' cur (cur # rest) new" using grown_Cons [OF r(2) ch] Suc.prems(3) bs a(1) by simp
    with r a(2) bs show ?thesis
      by (intro exI [of _ r] exI [of _ data'] exI [of _ new]) (auto split: option.splits)
  next
    assume "rest = []" "free_set (fat data) = {}" "next_or_alloc data cur = Some (None, data)"
    then show ?thesis using grown_refl [OF Suc.prems(1-3)] bs
      by (intro exI [of _ None] exI [of _ data] exI [of _ "[]"]) simp
  next
    fix i
    assume a: "rest = []" "i \<in> free_set (fat data)" "next_or_alloc data cur = Some (Some (of_nat i), link_block data cur i)"
    have ch1: "fchain (fat data) cur [cur]" using ch a(1) by simp
    note l = link_block_grown [OF Suc.prems(1) ch1 a(2)]
    have ok1: "tables_ok (link_block data cur i)" using l(1) by (simp add: grown_def)
    obtain r data' new where r: "seek_blocks n (link_block data cur i) (of_nat i) = Some (r, data')"
      "grown (link_block data cur i) data' (of_nat i) [of_nat i] new"
      "case r of None \<Rightarrow> free_set (fat data') = {} \<and> length ([of_nat i] @ new) \<le> n
       | Some c \<Rightarrow> n < length ([of_nat i] @ new) \<and> fchain (fat data') c (drop n ([of_nat i] @ new))"
      using Suc.IH [OF ok1 l(2)] by auto
    have "grown data data' cur [cur] (of_nat i # new)" by (rule grown_link [OF r(2) Suc.prems(1) ch1 a(2)])
    with r a bs show ?thesis
      by (intro exI [of _ r] exI [of _ data'] exI [of _ "of_nat i # new"]) (auto split: option.splits)
  qed
qed

section \<open>Writing a file\<close>

text \<open>The blocks of the file in entry \<open>i\<close>: none when nothing was written yet.\<close>

definition file_chain :: "tinyfs_data \<Rightarrow> nat \<Rightarrow> u32 list \<Rightarrow> bool" where
  "file_chain data i bs \<longleftrightarrow>
     (first_block (dirents data ! i) = 0 \<and> bs = []) \<or>
     (fchain (fat data) (first_block (dirents data ! i)) bs \<and> distinct bs \<and> bs \<noteq> [])"

text \<open>
  The part of the tables that a write to entry \<open>i\<close>, now with blocks \<open>bs @ new\<close>, leaves alone: of the entry itself
  everything but the first block and the size.
\<close>

definition entry_kept :: "dirent \<Rightarrow> dirent \<Rightarrow> bool" where
  "entry_kept e e' \<longleftrightarrow> e' = e\<lparr>first_block := first_block e', d_size := d_size e'\<rparr>"

lemma entry_kept_simps [simp]: "entry_kept e e" "entry_kept e (e\<lparr>first_block := b\<rparr>)" "entry_kept e (e\<lparr>d_size := z\<rparr>)"
  by (simp_all add: entry_kept_def)

lemma entry_kept_trans: "entry_kept e e' \<Longrightarrow> entry_kept e' e'' \<Longrightarrow> entry_kept e e''"
  by (cases e; cases e'; cases e'') (simp add: entry_kept_def)

definition others_kept :: "tinyfs_data \<Rightarrow> tinyfs_data \<Rightarrow> nat \<Rightarrow> u32 list \<Rightarrow> u32 list \<Rightarrow> bool" where
  "others_kept data data' i bs new \<longleftrightarrow>
     tables_ok data' \<and> (count_ok data \<longrightarrow> count_ok data') \<and>
     (\<forall>j. j \<noteq> i \<longrightarrow> dirents data' ! j = dirents data ! j) \<and> entry_kept (dirents data ! i) (dirents data' ! i) \<and>
     (\<forall>x < 1024. x \<notin> unat ` set (bs @ new) \<longrightarrow> fat data' ! x = fat data ! x) \<and>
     unat ` set new \<subseteq> free_set (fat data) \<and> distinct (bs @ new) \<and>
     free_set (fat data') = free_set (fat data) - unat ` set new"

lemma tables_ok_dirent:
  assumes "tables_ok data" "\<And>e. dirent_ok e \<Longrightarrow> dirent_ok (g e)"
  shows "tables_ok (set_dirent i g data)"
proof -
  have "dirent_ok e" if "e \<in> set ((dirents data)[i := g (dirents data ! i)])" for e
  proof (cases "i < length (dirents data)")
    case True
    with that assms show ?thesis
      using set_update_subset_insert [of "dirents data" i "g (dirents data ! i)"] nth_mem [OF True]
      by (auto simp: tables_ok_def dirents_ok_def)
  qed (use that assms in \<open>auto simp: tables_ok_def dirents_ok_def list_update_beyond\<close>)
  then show ?thesis using assms(1) by (simp add: tables_ok_def set_dirent_def dirents_ok_def)
qed

definition ensure_first :: "tinyfs_data \<Rightarrow> nat \<Rightarrow> (bool \<times> tinyfs_data) option" where
  "ensure_first data i =
     (if first_block (dirents data ! i) = 0 then do {
        (block, data) \<leftarrow> allocate_block data;
        if block < 0 then Some (False, data)
        else Some (True, set_dirent i (\<lambda>e. e\<lparr>first_block := of_int block\<rparr>) data) }
      else Some (True, data))"

lemma ensure_first_spec:
  assumes ok: "tables_ok data" and i: "i < 256" and ch: "file_chain data i bs" and room: "bs \<noteq> [] \<or> free_set (fat data) \<noteq> {}"
  shows "\<exists>data' new. ensure_first data i = Some (True, data') \<and> others_kept data data' i bs new \<and>
    file_chain data' i (bs @ new) \<and> bs @ new \<noteq> [] \<and> d_size (dirents data' ! i) = d_size (dirents data ! i)"
proof (cases "first_block (dirents data ! i) = 0")
  case False
  then have c: "fchain (fat data) (first_block (dirents data ! i)) bs" "distinct bs" "bs \<noteq> []"
    using ch by (auto simp: file_chain_def)
  with False ok ch show ?thesis
    by (intro exI [of _ data] exI [of _ "[]"]) (simp add: ensure_first_def others_kept_def)
next
  case True
  then have "bs = []" using ch fchain_block(4) [of "fat data" "first_block (dirents data ! i)" bs]
    by (cases bs) (auto simp: file_chain_def)
  with room have "free_set (fat data) \<noteq> {}" by simp
  then obtain j where j: "j \<in> free_set (fat data)" "allocate_block data = Some (int j, take_block data j)"
    using allocate_block_spec [OF ok] by blast
  let ?d = "set_dirent i (\<lambda>e. e\<lparr>first_block := of_nat j\<rparr>) (take_block data j)"
  note t = take_block_ok [OF ok j(1)]
  have len: "length (dirents data) = 256" "length (fat data) = 1024" "j < 1024"
    using ok j(1) by (auto simp: tables_ok_def dirents_ok_def free_set_def)
  have fat: "fat ?d = (fat data)[j := EOF]" by (simp add: set_dirent_def take_block_def)
  have e: "dirents ?d = (dirents data)[i := (dirents data ! i)\<lparr>first_block := of_nat j\<rparr>]"
    by (simp add: set_dirent_def take_block_def)
  have run: "ensure_first data i = Some (True, ?d)" using True j(2) by (simp add: ensure_first_def)
  have "fchain (fat ?d) (of_nat j) [of_nat j]"
    using block_of_free [OF j(1)] unat_block [OF j(1)] len by (simp add: fat)
  then have chain: "file_chain ?d i [of_nat j]" using i len by (simp add: file_chain_def e)
  have "tables_ok ?d" by (rule tables_ok_dirent [OF t(1)]) (simp add: dirent_ok_def)
  moreover have "count_ok ?d = count_ok (take_block data j)" by (simp add: count_ok_def set_dirent_def)
  moreover have "free_set (fat ?d) = free_set (fat data) - {j}" using t(2) by (simp add: set_dirent_def)
  ultimately have "others_kept data ?d i [] [of_nat j]"
    using j(1) unat_block [OF j(1)] t(3) i len by (auto simp: others_kept_def e fat)
  with run chain \<open>bs = []\<close> i len show ?thesis
    by (intro exI [of _ ?d] exI [of _ "[of_nat j]"]) (simp add: e)
qed

lemma others_kept_grown:
  assumes "others_kept data data1 i bs new1" "grown data1 data2 cur (bs @ new1) new2"
  shows "others_kept data data2 i bs (new1 @ new2)"
  using assms unfolding others_kept_def grown_def by (auto simp: image_Un)

text \<open>A write into the tail of a chain, seen on the whole chain.\<close>

lemma written_to_whole:
  assumes "written_to content buffer 0 w bo bs d d'" "distinct (pre @ bs)" "\<forall>x \<in> set pre. length (content d x) = 512"
  shows "file_bytes (content d') (pre @ bs) = put_at (512 * length pre + bo) (take w buffer) (file_bytes (content d) (pre @ bs))"
proof -
  have "file_bytes (content d') pre = file_bytes (content d) pre"
    using assms(1,2) by (intro file_bytes_cong) (auto simp: written_to_def)
  moreover have "length (file_bytes (content d) pre) = 512 * length pre"
    using assms(3) by (induction pre) auto
  ultimately show ?thesis using assms(1)
    by (simp add: written_to_def put_at_def segment_def)
qed

lemma capacity_kept:
  assumes "free_set (fat data') = free_set (fat data) - unat ` set new" "unat ` set new \<subseteq> free_set (fat data)" "distinct new"
  shows "length (bs @ new) + card (free_set (fat data')) = length bs + card (free_set (fat data))"
proof -
  have "card (unat ` set new) = length new" using assms(3) distinct_card [of new] card_image [of unat "set new"] by (metis inj_on_def word_unat_eq_iff)
  moreover have "card (free_set (fat data) - unat ` set new) = card (free_set (fat data)) - card (unat ` set new)"
    using assms(2) by (intro card_Diff_subset) auto
  moreover have "card (unat ` set new) \<le> card (free_set (fat data))" using assms(2) by (intro card_mono) auto
  ultimately show ?thesis using assms(1) by simp
qed

text \<open>The number of bytes that go into the blocks of a file and the free blocks, from an offset on.\<close>

definition fitting :: "nat \<Rightarrow> nat \<Rightarrow> nat \<Rightarrow> nat" where
  "fitting cap off n = min n (512 * cap - off)"

context block_device
begin

lemma save_tables:
  assumes "ok d" "tables_ok data"
  shows "\<exists>d1 d2 d3. write_directory ops data d = Some (0, d1) \<and> write_fat ops data d1 = Some (0, d2) \<and>
    write_superblock ops data d2 = Some (0, d3) \<and> ok d3 \<and> synced data (content d3) \<and>
    (\<forall>x. 101 \<le> x \<longrightarrow> content d3 x = content d x)"
proof -
  obtain d1 where d1: "write_directory ops data d = Some (0, d1)" "ok d1"
    "content d1 = put_run 11 (dir_block (dirents data)) [0..<90] (content d)"
    using write_directory_ok [OF assms] by blast
  obtain d2 where d2: "write_fat ops data d1 = Some (0, d2)" "ok d2" "content d2 = put_run 1 (fat_block (fat data)) [0..<10] (content d1)"
    using write_fat_ok [OF d1(2) assms(2)] by blast
  obtain d3 where d3: "write_superblock ops data d2 = Some (0, d3)" "ok d3" "content d3 = (content d2)(0 := sb_block (sb data))"
    using write_superblock_ok [OF d2(2)] by blast
  have "synced data (content d3)"
    unfolding synced_def d1(3) d2(3) d3(3) by (simp add: save_keeps save_sb_synced save_fat_synced save_dir_synced del: fun_upd_apply)
  moreover have "content d3 x = content d x" if "101 \<le> x" for x
  proof -
    have "x \<noteq> 0" "11 \<le> x" using that by (auto simp: word_le_nat_alt)
    then show ?thesis using that unfolding d1(3) d2(3) d3(3) by (simp add: dir_run_out fat_run_out)
  qed
  ultimately show ?thesis using d1(1) d2(1) d3(1,2) by blast
qed

lemma write_data_spec:
  assumes ok: "ok d" and t: "tables_ok data" and ch: "fchain (fat data) cur bs" "distinct bs" "bs \<noteq> []" and bb: "length bb = 512"
    and cap: "cap = length bs + card (free_set (fat data))" and room: "off < 512 * cap" and w: "w = fitting cap off (length buffer)"
  shows "\<exists>c data1 data' d' new. seek_blocks (off div 512) data cur = Some (Some c, data1) \<and>
    write_loop ops buffer 0 (off mod 512) c bb data1 d = Some (0, w, data', d') \<and> ok d' \<and>
    grown data data' cur bs new \<and> off + w \<le> 512 * length (bs @ new) \<and>
    file_bytes (content d') (bs @ new) = put_at off (take w buffer) (file_bytes (content d) (bs @ new)) \<and>
    (\<forall>x. x \<notin> set (bs @ new) \<longrightarrow> content d' x = content d x)"
proof -
  let ?n = "off div 512" and ?bo = "off mod 512"
  have off: "512 * ?n + ?bo = off" by simp
  obtain r data1 new1 where s: "seek_blocks ?n data cur = Some (r, data1)" "grown data data1 cur bs new1"
    "case r of None \<Rightarrow> free_set (fat data1) = {} \<and> length (bs @ new1) \<le> ?n
     | Some c \<Rightarrow> ?n < length (bs @ new1) \<and> fchain (fat data1) c (drop ?n (bs @ new1))"
    using seek_blocks_spec [OF t ch] by blast
  have kept: "length (bs @ new) + card (free_set (fat data')) = cap" if "grown data data' cur bs new" for data' new
    unfolding cap using that by (intro capacity_kept) (auto simp: grown_def)
  obtain c where r: "r = Some c"
  proof (cases r)
    case None
    then have "cap \<le> ?n" using s kept [OF s(2)] by auto
    then have "512 * cap \<le> off" using off by linarith
    then show thesis using room by simp
  qed
  have c: "?n < length (bs @ new1)" "fchain (fat data1) c (drop ?n (bs @ new1))" using s(3) r by auto
  have d1: "tables_ok data1" "distinct (bs @ new1)" "fchain (fat data1) cur (bs @ new1)" using s(2) by (auto simp: grown_def)
  show ?thesis
  proof (cases "buffer = []")
    case True
    then have "w = 0" using w by (simp add: fitting_def)
    moreover have "write_loop ops buffer 0 ?bo c bb data1 d = Some (0, 0, data1, d)" using True by (subst write_loop.simps) simp
    moreover have "off \<le> 512 * length (bs @ new1)" using c(1) by simp
    moreover have "put_at off [] xs = xs" for xs :: bytes by (simp add: put_at_def)
    ultimately show ?thesis using s(1,2) r ok True
      by (intro exI [of _ c] exI [of _ data1] exI [of _ data1] exI [of _ d] exI [of _ new1]) (simp del: file_bytes_simps)
  next
    case False
    have ne: "drop ?n (bs @ new1) \<noteq> []" using c(1) by (simp only: drop_eq_Nil not_le)
    have bo: "?bo < 512" and pos: "0 < length buffer" using False by simp_all
    obtain w' data' d' new2 where l: "write_loop ops buffer 0 ?bo c bb data1 d = Some (0, w', data', d')" "ok d'"
      "grown data1 data' c (drop ?n (bs @ new1)) new2" "written_to content buffer 0 w' ?bo (drop ?n (bs @ new1) @ new2) d d'"
      "w' < length buffer \<longrightarrow> free_set (fat data') = {} \<and> ?bo + (w' - 0) = 512 * length (drop ?n (bs @ new1) @ new2)"
      using write_loop_spec [OF ok d1(1) c(2) distinct_drop [OF d1(2)] ne bo pos bb] by blast
    have g2: "grown data1 data' cur (bs @ new1) new2" by (rule grown_suffix [OF l(3) d1(3,2) c(1)])
    have g: "grown data data' cur bs (new1 @ new2)" by (rule grown_trans [OF s(2) g2])
    let ?all = "bs @ new1 @ new2"
    have split: "?all = take ?n (bs @ new1) @ (drop ?n (bs @ new1) @ new2)" by (simp only: append_assoc [symmetric] append_take_drop_id)
    have tk: "length (take ?n (bs @ new1)) = ?n" using c(1) by simp
    have len: "length ?all = ?n + length (drop ?n (bs @ new1) @ new2)" by (subst split) (simp only: length_append tk)
    have fits: "off + w' \<le> 512 * length ?all" using l(4) off unfolding len written_to_def distrib_left by linarith
    have full: "w' = w"
    proof (cases "w' < length buffer")
      case True
      then have "?bo + w' = 512 * length (drop ?n (bs @ new1) @ new2)" "free_set (fat data') = {}" using l(5) by (simp_all only: simp_thms minus_nat.diff_0)
      then have "off + w' = 512 * length ?all" "length ?all = cap" using off kept [OF g] unfolding len distrib_left by (linarith, simp)
      then show ?thesis using w True by (simp add: fitting_def)
    next
      case False
      then have "w' = length buffer" using l(4) by (simp add: written_to_def)
      moreover have "length ?all \<le> cap" using kept [OF g] by linarith
      then have "512 * length ?all \<le> 512 * cap" by simp
      ultimately show ?thesis using w fits by (simp add: fitting_def)
    qed
    have valid: "\<forall>x \<in> set (take ?n (bs @ new1)). length (content d x) = 512"
      using fchain_block(3) [OF d1(3)] content_length [OF ok] by (meson in_set_takeD)
    have dist: "distinct (take ?n (bs @ new1) @ (drop ?n (bs @ new1) @ new2))"
      using g unfolding split [symmetric] by (simp add: grown_def)
    have "file_bytes (content d') ?all = put_at off (take w buffer) (file_bytes (content d) ?all)"
      using written_to_whole [OF l(4) dist valid] unfolding split [symmetric] tk off full by simp
    moreover have "\<forall>x. x \<notin> set ?all \<longrightarrow> content d' x = content d x"
      using l(4) by (subst split) (auto simp: written_to_def)
    ultimately show ?thesis using s(1) r l(1,2) g fits full by blast
  qed
qed

end

section \<open>Properties of files\<close>

text \<open>
  The effect of writing \<open>buffer\<close> at \<open>off\<close> into entry \<open>i\<close>: the file has the blocks \<open>bs @ new\<close>, its
  contents are the old ones with the buffer put at the offset, the tables in memory and on disk agree,
  and the entries, the chains and the data blocks of all other files are untouched.
\<close>

definition file_written ::
  "('d \<Rightarrow> u32 \<Rightarrow> bytes) \<Rightarrow> tinyfs_data \<Rightarrow> 'd \<Rightarrow> nat \<Rightarrow> u32 list \<Rightarrow> nat \<Rightarrow> bytes \<Rightarrow> u32 list \<Rightarrow> tinyfs_data \<Rightarrow> 'd \<Rightarrow> bool" where
  "file_written content data d i bs off buffer new data' d' \<longleftrightarrow>
     others_kept data data' i bs new \<and> file_chain data' i (bs @ new) \<and> bs @ new \<noteq> [] \<and>
     unat (d_size (dirents data' ! i)) = max (unat (d_size (dirents data ! i))) (off + length buffer) \<and>
     off + length buffer \<le> 512 * length (bs @ new) \<and> synced data' (content d') \<and>
     file_bytes (content d') (bs @ new) = put_at off buffer (file_bytes (content d) (bs @ new)) \<and>
     (\<forall>x. 101 \<le> x \<longrightarrow> x \<notin> set (bs @ new) \<longrightarrow> content d' x = content d x)"

lemma end_pos:
  assumes "unat (offset :: u32) + n < 2 ^ 31"
  shows "unat (offset + of_nat n) = unat offset + n" "sint (of_nat n :: u32) = int n"
proof -
  have n: "unat (of_nat n :: u32) = n" using assms by (simp only: unat_of_nat) simp
  then have "unat offset + unat (of_nat n :: u32) < 2 ^ LENGTH(32)" using assms by simp
  then show "unat (offset + of_nat n) = unat offset + n" using n by (simp add: unat_add_lem [THEN iffD1])
  have "uint (of_nat n :: u32) = int n" using n by (simp add: uint_nat)
  moreover have "sint (of_nat n :: u32) = signed_take_bit 31 (uint (of_nat n :: u32))" by (simp add: sint_uint)
  ultimately show "sint (of_nat n :: u32) = int n" using assms by (simp add: signed_take_bit_int_eq_self)
qed

definition set_end :: "nat \<Rightarrow> u32 \<Rightarrow> tinyfs_data \<Rightarrow> tinyfs_data" where
  "set_end i p data = (if p > d_size (dirents data ! i) then set_dirent i (\<lambda>e. e\<lparr>d_size := p\<rparr>) data else data)"

lemma set_end_props:
  assumes "tables_ok data" "i < 256"
  shows "tables_ok (set_end i p data)" "fat (set_end i p data) = fat data" "count_ok (set_end i p data) = count_ok data"
    "d_size (dirents (set_end i p data) ! i) = max (d_size (dirents data ! i)) p"
    "first_block (dirents (set_end i p data) ! i) = first_block (dirents data ! i)"
    "j \<noteq> i \<Longrightarrow> dirents (set_end i p data) ! j = dirents data ! j" "entry_kept (dirents data ! i) (dirents (set_end i p data) ! i)"
  using assms tables_ok_dirent [OF assms(1), of "\<lambda>e. e\<lparr>d_size := p\<rparr>" i]
  by (auto simp: set_end_def set_dirent_def count_ok_def tables_ok_def dirents_ok_def dirent_ok_def max_def)

context block_device
begin

lemma tinyfs_write_spec:
  assumes ok: "ok d" and t: "tables_ok data" and i: "i < 256" "n_dirent n = Some i" and ch: "file_chain data i bs"
    and bb: "length bb = 512" and small: "unat offset + length buffer < 2 ^ 31"
    and cap: "cap = length bs + card (free_set (fat data))" and room: "unat offset < 512 * cap" and w: "w = fitting cap (unat offset) (length buffer)"
  shows "\<exists>data' n' d' new. tinyfs_write ops (Some data) (Some n) buffer offset bb d = Some (int w, Some data', Some n', d') \<and>
    n_dirent n' = Some i \<and> ok d' \<and> file_written content data d i bs (unat offset) (take w buffer) new data' d'"
proof -
  have wl: "length (take w buffer) = w" "unat offset + w < 2 ^ 31" using w small by (auto simp: fitting_def)
  have "bs \<noteq> [] \<or> free_set (fat data) \<noteq> {}" using room cap by auto
  then obtain data1 new1 where e: "ensure_first data i = Some (True, data1)" "others_kept data data1 i bs new1"
    "file_chain data1 i (bs @ new1)" "bs @ new1 \<noteq> []" "d_size (dirents data1 ! i) = d_size (dirents data ! i)"
    using ensure_first_spec [OF t i(1) ch] by blast
  let ?cur = "first_block (dirents data1 ! i)"
  have c: "fchain (fat data1) ?cur (bs @ new1)" "distinct (bs @ new1)" using e(3,4) by (auto simp: file_chain_def)
  have t1: "tables_ok data1" using e(2) by (simp add: others_kept_def)
  have cap1: "cap = length (bs @ new1) + card (free_set (fat data1))"
    unfolding cap using e(2) by (intro capacity_kept [symmetric]) (auto simp: others_kept_def)
  obtain cu data2 data3 d1 new2 where w: "seek_blocks (unat offset div 512) data1 ?cur = Some (Some cu, data2)"
    "write_loop ops buffer 0 (unat offset mod 512) cu bb data2 d = Some (0, w, data3, d1)" "ok d1"
    "grown data1 data3 ?cur (bs @ new1) new2" "unat offset + w \<le> 512 * length ((bs @ new1) @ new2)"
    "file_bytes (content d1) ((bs @ new1) @ new2) = put_at (unat offset) (take w buffer) (file_bytes (content d) ((bs @ new1) @ new2))"
    "\<forall>x. x \<notin> set ((bs @ new1) @ new2) \<longrightarrow> content d1 x = content d x"
    using write_data_spec [OF ok t1 c e(4) bb cap1 room w] by blast
  have k3: "others_kept data data3 i bs (new1 @ new2)" by (rule others_kept_grown [OF e(2) w(4)])
  have t3: "tables_ok data3" and dd: "dirents data3 = dirents data1" using w(4) by (auto simp: grown_def)
  let ?p = "offset + of_nat w"
  let ?data = "set_end i ?p data3"
  note se = set_end_props [OF t3 i(1), where p = ?p]
  obtain d2 d3 d4 where v: "write_directory ops ?data d1 = Some (0, d2)" "write_fat ops ?data d2 = Some (0, d3)"
    "write_superblock ops ?data d3 = Some (0, d4)" "ok d4" "synced ?data (content d4)"
    "\<forall>x. 101 \<le> x \<longrightarrow> content d4 x = content d1 x" using save_tables [OF w(3) se(1)] by blast
  have div: "unat (offset div 512) = unat offset div 512" "unat (offset mod 512) = unat offset mod 512"
    by (simp_all add: unat_div unat_mod)
  let ?n = "if ?p > d_size (dirents data3 ! i) then n\<lparr>n_size := ?p\<rparr> else n"
  have run: "tinyfs_write ops (Some data) (Some n) buffer offset bb d = Some (int w, Some ?data, Some ?n, d4)"
    using i(2) e(1) w(1,2) v(1-3) end_pos(2) [OF wl(2)] unfolding tinyfs_write_def ensure_first_def [symmetric]
    by (cases "?p > d_size (dirents data3 ! i)") (simp_all add: div set_end_def Let_def)
  have chain: "fchain (fat data3) ?cur (bs @ (new1 @ new2))" using w(4) by (simp add: grown_def)
  have blocks: "content d4 x = content d1 x" if "x \<in> set (bs @ new1 @ new2)" for x
    using v(6) fchain_block(1) [OF chain, of x] that by (simp add: word_le_nat_alt)
  have "file_bytes (content d4) (bs @ new1 @ new2) = file_bytes (content d1) (bs @ new1 @ new2)"
    by (rule file_bytes_cong) (rule blocks)
  moreover have "file_chain ?data i (bs @ new1 @ new2)"
    using chain k3 e(4) by (auto simp: file_chain_def se(2,5) dd others_kept_def)
  moreover have "others_kept data ?data i bs (new1 @ new2)" using k3 se entry_kept_trans [of "dirents data ! i" "dirents data3 ! i"] by (simp add: others_kept_def)
  moreover have "unat (d_size (dirents ?data ! i)) = max (unat (d_size (dirents data ! i))) (unat offset + w)"
    using end_pos(1) [OF wl(2)] e(5) by (simp add: se(4) dd max_def word_le_nat_alt)
  ultimately have "file_written content data d i bs (unat offset) (take w buffer) (new1 @ new2) ?data d4"
    using w(5-7) v(5,6) e(4) unfolding file_written_def wl(1) append_assoc by (simp del: file_bytes_simps) blast
  with run v(4) i(2) show ?thesis by auto
qed

text \<open>
  When even the offset is beyond the room, all free blocks are linked to the file in memory, and the device is not written at all.
\<close>

lemma tinyfs_write_full:
  assumes t: "tables_ok data" and i: "i < 256" "n_dirent n = Some i" and ch: "file_chain data i bs"
    and cap: "cap = length bs + card (free_set (fat data))" and full: "512 * cap \<le> unat offset"
  shows "\<exists>data' new. tinyfs_write ops (Some data) (Some n) buffer offset bb d = Some (if cap = 0 then -1 else 0, Some data', Some n, d) \<and>
    others_kept data data' i bs new \<and> file_chain data' i (bs @ new) \<and> free_set (fat data') = {}"
proof (cases "cap = 0")
  case True
  then have z: "bs = []" "free_set (fat data) = {}" using cap by auto
  then have "first_block (dirents data ! i) = 0" using ch by (simp add: file_chain_def)
  moreover have "allocate_block data = Some (-1, data)" using allocate_block_spec [OF t] z by auto
  ultimately have "tinyfs_write ops (Some data) (Some n) buffer offset bb d = Some (-1, Some data, Some n, d)" using i(2) by (simp add: tinyfs_write_def)
  then show ?thesis using True t ch z by (intro exI [of _ data] exI [of _ "[]"]) (simp add: others_kept_def)
next
  case False
  then have "bs \<noteq> [] \<or> free_set (fat data) \<noteq> {}" using cap by auto
  then obtain data1 new1 where e: "ensure_first data i = Some (True, data1)" "others_kept data data1 i bs new1"
    "file_chain data1 i (bs @ new1)" "bs @ new1 \<noteq> []" using ensure_first_spec [OF t i(1) ch] by blast
  let ?cur = "first_block (dirents data1 ! i)" and ?k = "unat offset div 512"
  have c: "fchain (fat data1) ?cur (bs @ new1)" "distinct (bs @ new1)" using e(3,4) by (auto simp: file_chain_def)
  have t1: "tables_ok data1" using e(2) by (simp add: others_kept_def)
  obtain r data2 new2 where s: "seek_blocks ?k data1 ?cur = Some (r, data2)" "grown data1 data2 ?cur (bs @ new1) new2"
    "case r of None \<Rightarrow> free_set (fat data2) = {} \<and> length ((bs @ new1) @ new2) \<le> ?k
     | Some c \<Rightarrow> ?k < length ((bs @ new1) @ new2) \<and> fchain (fat data2) c (drop ?k ((bs @ new1) @ new2))"
    using seek_blocks_spec [OF t1 c e(4)] by blast
  have k: "others_kept data data2 i bs (new1 @ new2)" by (rule others_kept_grown [OF e(2) s(2)])
  have "length (bs @ new1 @ new2) + card (free_set (fat data2)) = cap" unfolding cap using k by (intro capacity_kept) (auto simp: others_kept_def)
  moreover have "cap \<le> ?k" using full by simp
  ultimately have r: "r = None" "free_set (fat data2) = {}" using s(3) by (auto split: option.splits)
  have "unat (offset div 512) = ?k" by (simp add: unat_div)
  then have "tinyfs_write ops (Some data) (Some n) buffer offset bb d = Some (0, Some data2, Some n, d)"
    using i(2) e(1) s(1) r unfolding tinyfs_write_def ensure_first_def [symmetric] by simp
  moreover have "file_chain data2 i (bs @ (new1 @ new2))" using s(2) e(4) by (auto simp: file_chain_def grown_def)
  ultimately show ?thesis using False k r(2) by auto
qed

text \<open>The write of a buffer for which there is room.\<close>

lemma tinyfs_write_room:
  assumes "ok d" "tables_ok data" "i < 256" "n_dirent n = Some i" "file_chain data i bs" "length bb = 512" "unat offset + length buffer < 2 ^ 31"
    "unat offset + max 1 (length buffer) \<le> 512 * (length bs + card (free_set (fat data)))"
  shows "\<exists>data' n' d' new. tinyfs_write ops (Some data) (Some n) buffer offset bb d = Some (int (length buffer), Some data', Some n', d') \<and>
    n_dirent n' = Some i \<and> ok d' \<and> file_written content data d i bs (unat offset) buffer new data' d'"
proof -
  have "fitting (length bs + card (free_set (fat data))) (unat offset) (length buffer) = length buffer" using assms(8) by (simp add: fitting_def)
  then show ?thesis using tinyfs_write_spec [OF assms(1-7) refl _ refl] assms(8) by simp
qed

end

context block_device
begin

lemma tinyfs_read_spec:
  assumes ok: "ok d" and t: "tables_ok data" and i: "n_dirent n = Some i" and ch: "file_chain data i bs" "bs \<noteq> []"
    and sz: "0 < sz" "unat offset + unat sz \<le> unat (d_size (dirents data ! i))" "unat offset + unat sz \<le> 512 * length bs"
    and small: "unat offset + unat sz < 2 ^ 31" and buf: "unat sz \<le> length buffer" "length bb = 512"
  shows "\<exists>d'. tinyfs_read ops (Some data) (Some n) buffer sz offset bb d =
      Some (int (unat sz), put_at 0 (segment (unat offset) (unat sz) (file_bytes (content d) bs)) buffer, d') \<and>
    ok d' \<and> content d' = content d"
proof -
  let ?e = "dirents data ! i" and ?k = "unat offset div 512" and ?bo = "unat offset mod 512"
  have c: "fchain (fat data) (first_block ?e) bs" "length (fat data) = 1024"
    using ch t by (auto simp: file_chain_def tables_ok_def)
  have pos: "0 < unat sz" using sz(1) by (simp add: word_less_nat_alt)
  have off: "512 * ?k + ?bo = unat offset" by simp
  have u: "unat (offset + sz) = unat offset + unat sz"
    using small by (intro unat_add_lem [THEN iffD1]) simp
  have cond: "\<not> d_size ?e \<le> offset" "\<not> d_size ?e < offset + sz"
    using sz(2) pos u by (simp_all add: word_le_nat_alt word_less_nat_alt)
  have kl: "?k \<le> length bs" using sz(3) off pos by linarith
  obtain b where b: "skip_blocks (fat data) ?k (first_block ?e) = Some b" "fchain (fat data) b (drop ?k bs)"
    using skip_blocks_chain [OF c(1) kl c(2)] by blast
  have "512 * length bs = 512 * ?k + 512 * length (drop ?k bs)" using kl by (simp add: diff_mult_distrib2)
  then have cap: "?bo + (unat sz - 0) \<le> 512 * length (drop ?k bs)" using sz(3) off by linarith
  obtain d' where r: "read_loop ops (fat data) (unat sz) 0 ?bo b bb buffer d =
      Some (int (unat sz), put_at 0 (segment ?bo (unat sz - 0) (file_bytes (content d) (drop ?k bs))) buffer, d')" "ok d'" "content d' = content d"
    using read_loop_spec [OF ok b(2) c(2) _ _ cap buf] by auto
  have tk: "length (file_bytes (content d) (take ?k bs)) = 512 * ?k"
    using file_bytes_length [OF ok, of "take ?k bs"] fchain_block(3) [OF c(1)] kl by (auto dest: in_set_takeD)
  have "file_bytes (content d) bs = file_bytes (content d) (take ?k bs) @ file_bytes (content d) (drop ?k bs)"
    by (simp flip: file_bytes_simps(3))
  then have "segment (unat offset) (unat sz) (file_bytes (content d) bs) = segment ?bo (unat sz) (file_bytes (content d) (drop ?k bs))"
    using segment_app2 [of "file_bytes (content d) (take ?k bs)" "unat offset" "unat sz" "file_bytes (content d) (drop ?k bs)"] tk off
    by (simp add: minus_mult_div_eq_mod)
  moreover have "sint (of_int (int (unat sz)) :: u32) = int (unat sz)" using end_pos(2) [OF small] by simp
  ultimately show ?thesis using i cond b(1) r
    by (simp add: tinyfs_read_def unat_div unat_mod Let_def)
qed

end

text \<open>
  C2: Writing a buffer of any length, the empty one included, at any offset of a file, with any number of free blocks left. If the offset
  lies within the blocks of the file and the free ones, as many bytes are written as go into them, and the call reports that number:
  the contents of the file are the old ones with these bytes put at the offset, the size grows to the end of the write, the free count
  stays exact, memory and disk agree, and of the directory only the first block and the size of the entry, and no chain or data block
  of another file, change. If the offset lies beyond, the call reports 0 bytes, or -1 when there is no block at all; then
  every free block has become a block of the file in memory, and the disk is not written, so that memory and disk differ.
\<close>

theorem tinyfs_write_correct:
  assumes "block_device ops ok content" and "ok d" and "tables_ok data" and "i < 256" and "n_dirent n = Some i"
    and "file_chain data i bs" and "length bb = 512" and "unat offset + length buffer < 2 ^ 31"
  shows "let cap = length bs + card (free_set (fat data)); w = fitting cap (unat offset) (length buffer) in
    if unat offset < 512 * cap then
      \<exists>data' n' d' new. tinyfs_write ops (Some data) (Some n) buffer offset bb d = Some (int w, Some data', Some n', d') \<and>
        n_dirent n' = Some i \<and> ok d' \<and> file_written content data d i bs (unat offset) (take w buffer) new data' d'
    else
      \<exists>data' new. tinyfs_write ops (Some data) (Some n) buffer offset bb d = Some (if cap = 0 then -1 else 0, Some data', Some n, d) \<and>
        others_kept data data' i bs new \<and> file_chain data' i (bs @ new) \<and> free_set (fat data') = {}"
  using block_device.tinyfs_write_spec [OF assms refl _ refl] block_device.tinyfs_write_full [OF assms(1,3-6) refl] by (simp add: Let_def)

lemma write_then_read:
  assumes "block_device ops ok content" and "ok d" and "tables_ok data" and "i < 256" and "n_dirent n = Some i"
    and "file_chain data i bs" and "buffer \<noteq> []" and "length bb = 512" and "unat offset + length buffer < 2 ^ 31"
    and "unat offset + length buffer \<le> 512 * (length bs + card (free_set (fat data)))"
    and "length out = length buffer"
  shows "\<exists>data' n' d' d''.
    tinyfs_write ops (Some data) (Some n) buffer offset bb d = Some (int (length buffer), Some data', Some n', d') \<and>
    tinyfs_read ops (Some data') (Some n') out (of_nat (length buffer)) offset bb d' =
      Some (int (length buffer), buffer, d'')"
proof -
  obtain data' n' d' new where w: "tinyfs_write ops (Some data) (Some n) buffer offset bb d =
      Some (int (length buffer), Some data', Some n', d')" "n_dirent n' = Some i" "ok d'"
    "file_written content data d i bs (unat offset) buffer new data' d'"
    using block_device.tinyfs_write_room [OF assms(1-6,8,9)] assms(7,10) by (cases buffer) auto
  have l: "unat (of_nat (length buffer) :: u32) = length buffer" using assms(9) by (simp only: unat_of_nat) simp
  have f: "others_kept data data' i bs new" "file_chain data' i (bs @ new)" "bs @ new \<noteq> []"
    "unat offset + length buffer \<le> unat (d_size (dirents data' ! i))" "unat offset + length buffer \<le> 512 * length (bs @ new)"
    "file_bytes (content d') (bs @ new) = put_at (unat offset) buffer (file_bytes (content d) (bs @ new))"
    using w(4) by (auto simp: file_written_def)
  have t': "tables_ok data'" using f(1) by (simp add: others_kept_def)
  have pos: "0 < (of_nat (length buffer) :: u32)" using assms(7) l by (simp add: word_less_nat_alt)
  obtain d'' where r: "tinyfs_read ops (Some data') (Some n') out (of_nat (length buffer)) offset bb d' =
      Some (int (length buffer), put_at 0 (segment (unat offset) (length buffer) (file_bytes (content d') (bs @ new))) out, d'')"
    using block_device.tinyfs_read_spec [OF assms(1) w(3) t' w(2) f(2,3) pos, of offset out bb] f(4,5) assms(8,9,11) l by auto
  have "fchain (fat data') (first_block (dirents data' ! i)) (bs @ new)" using f(2,3) by (auto simp: file_chain_def)
  then have "length (file_bytes (content d) (bs @ new)) = 512 * length (bs @ new)"
    using block_device.file_bytes_length [OF assms(1,2)] fchain_block(3) by blast
  then have seg: "segment (unat offset) (length buffer) (file_bytes (content d') (bs @ new)) = buffer"
    unfolding f(6) using f(5) by (intro segment_put_at_same) simp
  have "put_at 0 buffer out = buffer" using assms(11) by (simp add: put_at_def)
  with r [unfolded seg] w(1) show ?thesis by auto
qed

text \<open>
  Reading back at the offset just written returns exactly the bytes written.
\<close>

theorem tinyfs_write_read:
  assumes "block_device ops ok content" and "ok d" and "tables_ok data" and "i < 256" and "n_dirent n = Some i"
    and "file_chain data i bs" and "buffer \<noteq> []" and "length bb = 512" and "unat offset + length buffer < 2 ^ 31"
    and "unat offset + length buffer \<le> 512 * (length bs + card (free_set (fat data)))"
    and "length out = length buffer"
  shows "\<exists>data' n' d' d''.
    tinyfs_write ops (Some data) (Some n) buffer offset bb d = Some (int (length buffer), Some data', Some n', d') \<and>
    tinyfs_read ops (Some data') (Some n') out (of_nat (length buffer)) offset bb d' =
      Some (int (length buffer), buffer, d'')"
  by (rule write_then_read [OF assms])

definition demo_node :: "nat \<Rightarrow> vfs_node" where
  "demo_node i = \<lparr>n_name = replicate 256 0, n_type = FILE_TYPE_REGULAR, n_permissions = 3, n_size = 0, n_inode = of_nat i, n_dirent = Some i\<rparr>"

lemma empty_fs_free: "free_set (fat (empty_fs dev)) = {101..<1024}"
  by (auto simp: free_set_def empty_fs_def nth_append)

lemma le_dec_zeros: "le_dec (replicate n 0) = 0"
  by (induction n) simp_all

lemma empty_fs_chain: "i < 256 \<Longrightarrow> file_chain (empty_fs dev) i []"
  by (simp add: file_chain_def empty_fs_def empty_dirent_def dirent_dec_def segment_def le_dec_zeros)

theorem tinyfs_write_correct_witness:
  "(\<exists>data' n' d' new. tinyfs_write ramdisk_ops (Some (empty_fs [])) (Some (demo_node 5)) (replicate 700 65) 1000 (replicate 512 0) blank_disk =
      Some (700, Some data', Some n', d') \<and> n_dirent n' = Some 5 \<and> ramdisk_ok d' \<and>
    file_written ramdisk_content (empty_fs []) blank_disk 5 [] 1000 (replicate 700 65) new data' d') \<and>
   (\<exists>data' new. tinyfs_write ramdisk_ops (Some (empty_fs [])) (Some (demo_node 5)) [65] 600000 (replicate 512 0) blank_disk =
      Some (0, Some data', Some (demo_node 5), blank_disk) \<and>
    others_kept (empty_fs []) data' 5 [] new \<and> file_chain data' 5 new \<and> free_set (fat data') = {})"
  using tinyfs_write_correct [OF rdisk.block_device_axioms blank_disk_ok empty_fs_ok [of "[]"], of 5 "demo_node 5" "[]" "replicate 512 0" 1000 "replicate 700 65"]
    tinyfs_write_correct [OF rdisk.block_device_axioms blank_disk_ok empty_fs_ok [of "[]"], of 5 "demo_node 5" "[]" "replicate 512 0" 600000 "[65]"]
  by (simp add: demo_node_def empty_fs_chain empty_fs_free fitting_def)

theorem tinyfs_write_read_witness:
  "\<exists>data' n' d' d''.
    tinyfs_write ramdisk_ops (Some (empty_fs [])) (Some (demo_node 5)) [72, 105] 510 (replicate 512 0) blank_disk = Some (2, Some data', Some n', d') \<and>
    tinyfs_read ramdisk_ops (Some data') (Some n') [0, 0] 2 510 (replicate 512 0) d' = Some (2, [72, 105], d'')"
  using tinyfs_write_read [OF rdisk.block_device_axioms blank_disk_ok empty_fs_ok [of "[]"], of 5 "demo_node 5" "[]" "[72, 105]" "replicate 512 0" 510 "[0, 0]"]
  by (simp add: demo_node_def empty_fs_chain empty_fs_free)

end
