(* ===== verification/TinyFS_Dirs.thy ===== *)
theory TinyFS_Dirs
  imports TinyFS_Files
begin

text \<open>
  Directory entries of TinyFS: comparing and copying names, creating, finding and removing entries.
\<close>

section \<open>Names\<close>

lemma strcmp_safe_0: "strcmp_safe s t = 0 \<longleftrightarrow> cstr s = cstr t"
proof (induction s t rule: strcmp_safe.induct)
  case (1 a s b t)
  have "uint a - uint b = 0 \<longleftrightarrow> a = b" by (auto simp: word_uint_eq_iff)
  with 1 show ?case by (auto simp: cstr_def)
qed (auto simp: cstr_def uint_0_iff)

lemma cstr_strcpy_safe:
  assumes "n \<le> length dest" "0 < n"
  shows "cstr (strcpy_safe dest src n) = take (n - 1) (cstr src)"
proof -
  have "0 \<notin> set (take (n - 1) (cstr src))" using cstr_no_nul by (auto dest: in_set_takeD)
  then show ?thesis by (simp add: strcpy_safe_def put_at_def cstr_append_nul)
qed

lemma length_strcpy_safe: "n \<le> length dest \<Longrightarrow> 0 < n \<Longrightarrow> length (strcpy_safe dest src n) = length dest"
  by (simp add: strcpy_safe_def)

section \<open>Releasing a chain\<close>

lemma release_block_ok:
  assumes t: "tables_ok data" and x: "101 \<le> unat x" "unat x < 1024" "fat data ! unat x \<noteq> 0"
  defines "data' \<equiv> release_block data (unat (x :: u32))"
  shows "tables_ok data'" "free_set (fat data') = insert (unat x) (free_set (fat data))"
    "count_ok data \<Longrightarrow> count_ok data'" "dirents data' = dirents data"
proof -
  have len: "length (fat data) = 1024" using t by (simp add: tables_ok_def)
  show "tables_ok data'" using t len by (simp add: data'_def release_block_def tables_ok_update)
  show fs: "free_set (fat data') = insert (unat x) (free_set (fat data))"
    using x len by (simp add: data'_def release_block_def free_set_update)
  show "dirents data' = dirents data" by (simp add: data'_def release_block_def)
  assume "count_ok data"
  moreover have "unat x \<notin> free_set (fat data)" using x(3) by (simp add: free_set_def)
  then have "card (free_set (fat data')) = Suc (card (free_set (fat data)))" unfolding fs by simp
  moreover have "free_blocks (sb data') = free_blocks (sb data) + 1" by (simp add: data'_def release_block_def)
  ultimately show "count_ok data'" by (simp add: count_ok_def add.commute)
qed

lemma free_block_chain_spec:
  assumes "tables_ok data" "fchain (fat data) b bs" "distinct bs"
  shows "\<exists>data'. free_block_chain data b = Some data' \<and> tables_ok data' \<and> dirents data' = dirents data \<and>
    (count_ok data \<longrightarrow> count_ok data') \<and> free_set (fat data') = free_set (fat data) \<union> unat ` set bs \<and>
    (\<forall>x < 1024. x \<notin> unat ` set bs \<longrightarrow> fat data' ! x = fat data ! x)"
  using assms
proof (induction bs arbitrary: data b)
  case Nil
  then show ?case by (subst free_block_chain.simps) simp
next
  case (Cons x bs)
  note v = fchain_block [OF Cons.prems(2), of x, simplified]
  have nz: "fat data ! unat x \<noteq> 0" using fchain_entry_nonzero [OF Cons.prems(2)] by simp
  have len: "length (fat data) = 1024" using Cons.prems(1) by (simp add: tables_ok_def)
  let ?d = "release_block data (unat x)"
  note r = release_block_ok [OF Cons.prems(1) v(1,2) nz]
  have same: "fat ?d ! unat y = fat data ! unat y" if "y \<noteq> x" for y
    using that by (auto simp: release_block_def nth_list_update word_unat_eq_iff)
  have "fchain (fat ?d) (fat data ! unat x) bs = fchain (fat data) (fat data ! unat x) bs"
    by (rule fchain_cong, rule same) (use Cons.prems(3) in auto)
  then have ch: "fchain (fat ?d) (fat data ! unat x) bs" using Cons.prems(2) by simp
  obtain data' where IH: "free_block_chain ?d (fat data ! unat x) = Some data'" "tables_ok data'" "dirents data' = dirents ?d"
    "count_ok ?d \<longrightarrow> count_ok data'" "free_set (fat data') = free_set (fat ?d) \<union> unat ` set bs"
    "\<forall>y < 1024. y \<notin> unat ` set bs \<longrightarrow> fat data' ! y = fat ?d ! y"
    using Cons.IH [OF r(1) ch] Cons.prems(3) by auto
  have "free_block_chain data b = Some data'"
    using IH(1) Cons.prems(2) v len by (subst free_block_chain.simps) (simp add: Let_def)
  moreover have "\<forall>y < 1024. y \<notin> unat ` set (x # bs) \<longrightarrow> fat data' ! y = fat data ! y"
    using IH(6) by (simp add: release_block_def)
  ultimately show ?case using IH r by auto
qed

section \<open>Lookup\<close>

lemma find_named:
  assumes "find_idx (named_in p name) es = None" "i < length es"
    "used e \<noteq> 0" "parent_inode e = p" "cstr (d_name e) = cstr name"
  shows "find_idx (named_in p name) (es[i := e]) = Some i"
proof (rule find_idx_SomeI)
  show "\<not> named_in p name (es[i := e] ! j)" if "j < i" for j
    using assms(1,2) that nth_mem [of j es] by (auto simp: find_idx_None_iff)
qed (use assms in \<open>auto simp: named_in_def strcmp_safe_0\<close>)

lemma find_free_dirent_spec:
  assumes "dirents_ok (dirents data)"
  shows "find_free_dirent data = -1 \<and> (\<forall>j. 1 \<le> j \<and> j < 256 \<longrightarrow> used (dirents data ! j) \<noteq> 0) \<or>
    (\<exists>i. find_free_dirent data = int i \<and> 1 \<le> i \<and> i < 256 \<and> used (dirents data ! i) = 0)"
proof (cases "find_idx (\<lambda>e. used e = 0) (drop 1 (take TINYFS_MAX_FILES (dirents data)))")
  case None
  have l: "length (dirents data) = 256" using assms by (simp add: dirents_ok_def)
  have "used (dirents data ! j) \<noteq> 0" if "1 \<le> j" "j < 256" for j
  proof -
    have "dirents data ! j = drop 1 (take 256 (dirents data)) ! (j - 1)" using that l by simp
    moreover have "j - 1 < length (drop 1 (take 256 (dirents data)))" using that l by simp
    ultimately have "dirents data ! j \<in> set (drop 1 (take 256 (dirents data)))" by (metis nth_mem)
    with None show ?thesis by (auto simp: find_idx_None_iff TINYFS_MAX_FILES_def)
  qed
  with None show ?thesis by (simp add: find_free_dirent_def)
next
  case (Some i)
  have "length (dirents data) = 256" using assms by (simp add: dirents_ok_def)
  with find_idx_SomeD [OF Some] Some show ?thesis
    by (intro disjI2 exI [of _ "Suc i"]) (simp add: find_free_dirent_def TINYFS_MAX_FILES_def)
qed

context block_device
begin

lemma write_directory_synced:
  assumes "ok d" "tables_ok data'" "synced data (content d)" "fat data' = fat data" "sb data' = sb data"
  shows "\<exists>d'. write_directory ops data' d = Some (0, d') \<and> ok d' \<and> synced data' (content d') \<and>
    (\<forall>x. 101 \<le> x \<longrightarrow> content d' x = content d x)"
proof -
  obtain d' where d': "write_directory ops data' d = Some (0, d')" "ok d'"
    "content d' = put_run 11 (dir_block (dirents data')) [0..<90] (content d)"
    using write_directory_ok [OF assms(1,2)] by blast
  have "sb_synced data' (content d)" "fat_synced data' (content d)" using assms(3-5) by (simp_all add: synced_defs)
  then have "synced data' (content d')" by (simp add: synced_def d'(3) save_keeps save_dir_synced)
  with d' show ?thesis by (auto simp: dir_run_out)
qed

end

lemma create_then_find:
  assumes "block_device ops ok content" and "ok d" and "tables_ok data" and "synced data (content d)"
    and "n_type p = FILE_TYPE_DIRECTORY" and "length (cstr name) < 32"
    and "find_idx (named_in (n_inode p) name) (dirents data) = None"
    and "\<exists>j. 1 \<le> j \<and> j < 256 \<and> used (dirents data ! j) = 0"
  shows "\<exists>data' d' node i. tinyfs_create_node ops (Some data) (Some p) name typ perm d = Some (0, Some data', d') \<and>
    ok d' \<and> tables_ok data' \<and> synced data' (content d') \<and>
    tinyfs_finddir (Some data') (Some p) name (Some mem) = Some node \<and> n_dirent node = Some i \<and> n_size node = 0 \<and> i < 256 \<and> file_chain data' i [] \<and>
    n_type node = (if typ = FILE_TYPE_DIRECTORY then FILE_TYPE_DIRECTORY else FILE_TYPE_REGULAR) \<and>
    fat data' = fat data \<and> (\<forall>j. j \<noteq> i \<longrightarrow> dirents data' ! j = dirents data ! j) \<and>
    (\<forall>x. 101 \<le> x \<longrightarrow> content d' x = content d x)"
proof -
  have l: "length (dirents data) = 256" "\<And>e. e \<in> set (dirents data) \<Longrightarrow> dirent_ok e"
    using assms(3) by (auto simp: tables_ok_def dirents_ok_def)
  obtain i where i: "find_free_dirent data = int i" "i < 256" "used (dirents data ! i) = 0"
    using find_free_dirent_spec [of data] assms(3,8) by (auto simp: tables_ok_def)
  let ?e = "dirents data ! i"
  let ?new = "?e\<lparr>d_name := strcpy_safe (d_name ?e) name 32, first_block := 0, d_size := 0,
    is_directory := (if typ = FILE_TYPE_DIRECTORY then 1 else 0), used := 1, parent_inode := n_inode p\<rparr>"
  let ?data = "set_dirent i (\<lambda>e. e\<lparr>d_name := strcpy_safe (d_name e) name TINYFS_MAX_FILENAME, first_block := 0, d_size := 0,
    is_directory := (if typ = FILE_TYPE_DIRECTORY then 1 else 0), used := 1, parent_inode := n_inode p\<rparr>) data"
  have eq: "dirents ?data = (dirents data)[i := ?new]" by (simp add: set_dirent_def TINYFS_MAX_FILENAME_def)
  have nm: "length (d_name ?e) = 32" using l i(2) by (simp add: dirent_ok_def)
  have t': "tables_ok ?data"
    by (rule tables_ok_dirent [OF assms(3)]) (simp add: dirent_ok_def length_strcpy_safe TINYFS_MAX_FILENAME_def)
  obtain d' where d': "write_directory ops ?data d = Some (0, d')" "ok d'" "synced ?data (content d')"
    "\<forall>x. 101 \<le> x \<longrightarrow> content d' x = content d x"
    using block_device.write_directory_synced [OF assms(1,2) t' assms(4)] by (auto simp: set_dirent_def)
  have run: "tinyfs_create_node ops (Some data) (Some p) name typ perm d = Some (0, Some ?data, d')"
    using assms(5,7) i(1) d'(1) l(1) by (simp add: tinyfs_create_node_def Let_def TINYFS_MAX_FILES_def)
  have "cstr (d_name ?new) = cstr name" using assms(6) nm by (simp add: cstr_strcpy_safe)
  then have "find_idx (named_in (n_inode p) name) (dirents ?data) = Some i"
    unfolding eq using assms(7) i(2) l(1) by (intro find_named) simp_all
  then have find: "tinyfs_finddir (Some ?data) (Some p) name (Some mem) = Some (dirent_node ?data i mem)"
    using assms(5) l(1) by (simp add: tinyfs_finddir_def TINYFS_MAX_FILES_def eq)
  have "n_size (dirent_node ?data i mem) = 0" "n_dirent (dirent_node ?data i mem) = Some i"
    "n_type (dirent_node ?data i mem) = (if typ = FILE_TYPE_DIRECTORY then FILE_TYPE_DIRECTORY else FILE_TYPE_REGULAR)"
    using i(2) l(1) by (simp_all add: dirent_node_def Let_def eq)
  moreover have "file_chain ?data i []" using i(2) l(1) by (simp add: file_chain_def eq)
  moreover have "fat ?data = fat data" "\<forall>j. j \<noteq> i \<longrightarrow> dirents ?data ! j = dirents data ! j"
    by (simp add: set_dirent_def) (simp add: eq)
  ultimately show ?thesis using run d'(2-4) t' find i(2) by blast
qed

text \<open>
  C25: Creating an entry under a name of at most 31 characters that the directory does not have, while
  an entry is free, succeeds; looking the name up in the directory then finds it, with the requested
  type and size 0; memory and disk agree, and no other entry, chain or data block changes. A longer
  name is cut to 31 characters when it is stored, so that it is not found under itself.
\<close>

theorem tinyfs_create_find:
  assumes "block_device ops ok content" and "ok d" and "tables_ok data" and "synced data (content d)"
    and "n_type p = FILE_TYPE_DIRECTORY" and "length (cstr name) < 32"
    and "find_idx (named_in (n_inode p) name) (dirents data) = None"
    and "\<exists>j. 1 \<le> j \<and> j < 256 \<and> used (dirents data ! j) = 0"
  shows "\<exists>data' d' node i. tinyfs_create_node ops (Some data) (Some p) name typ perm d = Some (0, Some data', d') \<and>
    ok d' \<and> tables_ok data' \<and> synced data' (content d') \<and>
    tinyfs_finddir (Some data') (Some p) name (Some mem) = Some node \<and> n_dirent node = Some i \<and> n_size node = 0 \<and>
    n_type node = (if typ = FILE_TYPE_DIRECTORY then FILE_TYPE_DIRECTORY else FILE_TYPE_REGULAR) \<and>
    fat data' = fat data \<and> (\<forall>j. j \<noteq> i \<longrightarrow> dirents data' ! j = dirents data ! j) \<and>
    (\<forall>x. 101 \<le> x \<longrightarrow> content d' x = content d x)"
  using create_then_find [OF assms] by metis

lemma format_blank: "\<exists>d. ramdisk_ok d \<and> synced (empty_fs []) (ramdisk_content d)"
  using rdisk.format_synced [OF blank_disk_ok] by blast

lemma find_empty: "find_idx P (dirents (empty_fs dev)) = None" if "\<not> P empty_dirent"
  using that by (simp add: empty_fs_def find_idx_None_iff)

definition root_node :: vfs_node where
  "root_node = (demo_node 0)\<lparr>n_type := FILE_TYPE_DIRECTORY, n_inode := 0, n_dirent := None\<rparr>"

theorem tinyfs_create_find_witness:
  "\<exists>d data' d' node. tinyfs_create_node ramdisk_ops (Some (empty_fs [])) (Some root_node) [104, 105, 0] FILE_TYPE_REGULAR 0 d = Some (0, Some data', d') \<and>
    tinyfs_finddir (Some data') (Some root_node) [104, 105, 0] (Some (demo_node 0)) = Some node"
proof -
  obtain d where d: "ramdisk_ok d" "synced (empty_fs []) (ramdisk_content d)" using format_blank by blast
  have "find_idx (named_in (n_inode root_node) [104, 105, 0]) (dirents (empty_fs [])) = None"
    by (rule find_empty) (simp add: named_in_def empty_dirent_def dirent_dec_def segment_def)
  moreover have "\<exists>j. 1 \<le> j \<and> j < 256 \<and> used (dirents (empty_fs []) ! j) = 0"
    by (rule exI [of _ 1]) (simp add: empty_fs_def empty_dirent_def dirent_dec_def segment_def)
  ultimately show ?thesis
    using tinyfs_create_find [OF rdisk.block_device_axioms d(1) empty_fs_ok d(2), of root_node "[104, 105, 0]" FILE_TYPE_REGULAR 0 "demo_node 0"]
    by (simp add: root_node_def cstr_def) blast
qed

section \<open>Removal\<close>

context block_device
begin

lemma save_tables_unlink:
  assumes "ok d" "tables_ok data"
  shows "\<exists>d1 d2 d3. write_fat ops data d = Some (0, d1) \<and> write_directory ops data d1 = Some (0, d2) \<and>
    write_superblock ops data d2 = Some (0, d3) \<and> ok d3 \<and> synced data (content d3) \<and>
    (\<forall>x. 101 \<le> x \<longrightarrow> content d3 x = content d x)"
proof -
  obtain d1 where d1: "write_fat ops data d = Some (0, d1)" "ok d1" "content d1 = put_run 1 (fat_block (fat data)) [0..<10] (content d)"
    using write_fat_ok [OF assms] by blast
  obtain d2 where d2: "write_directory ops data d1 = Some (0, d2)" "ok d2"
    "content d2 = put_run 11 (dir_block (dirents data)) [0..<90] (content d1)"
    using write_directory_ok [OF d1(2) assms(2)] by blast
  obtain d3 where d3: "write_superblock ops data d2 = Some (0, d3)" "ok d3" "content d3 = (content d2)(0 := sb_block (sb data))"
    using write_superblock_ok [OF d2(2)] by blast
  have "synced data (content d3)"
    unfolding synced_def d1(3) d2(3) d3(3) by (simp add: save_keeps save_sb_synced save_fat_synced save_dir_synced del: fun_upd_apply)
  moreover have "content d3 x = content d x" if "101 \<le> x" for x
  proof -
    have "x \<noteq> 0" "11 \<le> x" using that by (auto simp: word_le_nat_alt)
    then show ?thesis using that unfolding d1(3) d2(3) d3(3) by (simp add: dir_run_out fat_run_out)
  qed
  ultimately show ?thesis using d1(1) d2(1) d3(1,2) by blast
qed

end

text \<open>What removing entry \<open>i\<close> with blocks \<open>bs\<close> does to the tables and the disk.\<close>

definition entry_removed :: "('d \<Rightarrow> u32 \<Rightarrow> bytes) \<Rightarrow> tinyfs_data \<Rightarrow> 'd \<Rightarrow> nat \<Rightarrow> u32 list \<Rightarrow> tinyfs_data \<Rightarrow> 'd \<Rightarrow> bool" where
  "entry_removed content data d i bs data' d' \<longleftrightarrow>
     tables_ok data' \<and> (count_ok data \<longrightarrow> count_ok data') \<and> synced data' (content d') \<and>
     used (dirents data' ! i) = 0 \<and> (\<forall>j. j \<noteq> i \<longrightarrow> dirents data' ! j = dirents data ! j) \<and>
     free_set (fat data') = free_set (fat data) \<union> unat ` set bs \<and>
     (\<forall>x < 1024. x \<notin> unat ` set bs \<longrightarrow> fat data' ! x = fat data ! x) \<and>
     (\<forall>x. 101 \<le> x \<longrightarrow> content d' x = content d x)"

lemma release_file:
  assumes "tables_ok data" "file_chain data i bs"
  shows "\<exists>data'. (if first_block (dirents data ! i) \<noteq> 0 then free_block_chain data (first_block (dirents data ! i)) else Some data) = Some data' \<and>
    tables_ok data' \<and> dirents data' = dirents data \<and>
    (count_ok data \<longrightarrow> count_ok data') \<and> free_set (fat data') = free_set (fat data) \<union> unat ` set bs \<and>
    (\<forall>x < 1024. x \<notin> unat ` set bs \<longrightarrow> fat data' ! x = fat data ! x)"
proof (cases "first_block (dirents data ! i) = 0")
  case True
  then have "bs = []" using assms(2) fchain_block(4) by (cases bs) (auto simp: file_chain_def)
  with True assms(1) show ?thesis by simp
next
  case False
  then show ?thesis using free_block_chain_spec [OF assms(1)] assms(2) by (simp add: file_chain_def)
qed

lemma unlink_removes:
  assumes "block_device ops ok content" and "ok d" and "tables_ok data" and "n_type p = FILE_TYPE_DIRECTORY"
    and "find_idx (\<lambda>e. used e \<noteq> 0 \<and> strcmp_safe (d_name e) name = 0) (dirents data) = Some i"
    and "file_chain data i bs"
  shows "\<exists>data' d'. tinyfs_unlink ops (Some data) (Some p) name d = Some (0, Some data', d') \<and> ok d' \<and>
    entry_removed content data d i bs data' d'"
proof -
  have l: "length (dirents data) = 256" using assms(3) by (simp add: tables_ok_def dirents_ok_def)
  have i: "i < 256" using find_idx_SomeD [OF assms(5)] l by simp
  obtain d1 where d1: "(if first_block (dirents data ! i) \<noteq> 0 then free_block_chain data (first_block (dirents data ! i)) else Some data) = Some d1"
    "tables_ok d1" "dirents d1 = dirents data" "count_ok data \<longrightarrow> count_ok d1" "free_set (fat d1) = free_set (fat data) \<union> unat ` set bs"
    "\<forall>x < 1024. x \<notin> unat ` set bs \<longrightarrow> fat d1 ! x = fat data ! x"
    using release_file [OF assms(3,6)] by blast
  define g where "g = (\<lambda>e :: dirent. e\<lparr>used := 0, d_name := (d_name e)[0 := 0], first_block := 0, d_size := 0\<rparr>)"
  have t: "tables_ok (set_dirent i g d1)" by (rule tables_ok_dirent [OF d1(2)]) (simp add: g_def dirent_ok_def)
  obtain da db d' where s: "write_fat ops (set_dirent i g d1) d = Some (0, da)" "write_directory ops (set_dirent i g d1) da = Some (0, db)"
    "write_superblock ops (set_dirent i g d1) db = Some (0, d')" "ok d'" "synced (set_dirent i g d1) (content d')"
    "\<forall>x. 101 \<le> x \<longrightarrow> content d' x = content d x"
    using block_device.save_tables_unlink [OF assms(1,2) t] by blast
  have run: "tinyfs_unlink ops (Some data) (Some p) name d = Some (0, Some (set_dirent i g d1), d')"
    using assms(4,5) l d1(1) s(1-3) unfolding tinyfs_unlink_def g_def [symmetric] by (simp add: TINYFS_MAX_FILES_def Let_def)
  have "used (dirents (set_dirent i g d1) ! i) = 0" using i l d1(3) by (simp add: set_dirent_def g_def)
  moreover have "count_ok d1 \<Longrightarrow> count_ok (set_dirent i g d1)" by (simp add: count_ok_def set_dirent_def)
  moreover have "\<forall>j. j \<noteq> i \<longrightarrow> dirents (set_dirent i g d1) ! j = dirents data ! j" using d1(3) by (simp add: set_dirent_def)
  ultimately have "entry_removed content data d i bs (set_dirent i g d1) d'"
    using t s(5,6) d1(4-6) by (simp add: entry_removed_def set_dirent_def)
  with run s(4) show ?thesis by blast
qed

text \<open>
  C26: Removing a file returns exactly the blocks of its chain to the free set and keeps the free
  counter exact; the entry becomes unused, every other entry and every other link of the table stay
  as they were, and memory and disk agree.
\<close>

theorem tinyfs_unlink_frees:
  assumes "block_device ops ok content" and "ok d" and "tables_ok data" and "n_type p = FILE_TYPE_DIRECTORY"
    and "find_idx (\<lambda>e. used e \<noteq> 0 \<and> strcmp_safe (d_name e) name = 0) (dirents data) = Some i"
    and "file_chain data i bs"
  shows "\<exists>data' d'. tinyfs_unlink ops (Some data) (Some p) name d = Some (0, Some data', d') \<and> ok d' \<and>
    entry_removed content data d i bs data' d'"
  using unlink_removes [OF assms] .

definition one_file_fs :: tinyfs_data where
  "one_file_fs = (empty_fs [])\<lparr>sb := (sb (empty_fs []))\<lparr>free_blocks := 921\<rparr>,
     fat := (fat (empty_fs []))[200 := 300, 300 := EOF],
     dirents := (dirents (empty_fs []))[7 := empty_dirent\<lparr>d_name := 97 # replicate 31 0, used := 1, first_block := 200, d_size := 600, parent_inode := 4\<rparr>]\<rparr>"

lemma one_file_ok: "tables_ok one_file_fs"
proof -
  have e: "length (dirents (empty_fs [])) = 256" "\<And>e. e \<in> set (dirents (empty_fs [])) \<Longrightarrow> dirent_ok e" "length (fat (empty_fs [])) = 1024"
    using empty_fs_ok [of "[]"] by (auto simp: tables_ok_def dirents_ok_def)
  have n: "dirent_ok (empty_dirent\<lparr>d_name := 97 # replicate 31 0, used := 1, first_block := 200, d_size := 600, parent_inode := 4\<rparr>)"
    by (simp add: dirent_ok_def empty_dirent_def dirent_dec_def)
  have "dirents_ok (dirents one_file_fs)"
    using e(1,2) n set_update_subset_insert [of "dirents (empty_fs [])" 7]
    unfolding dirents_ok_def one_file_fs_def by fastforce
  then show ?thesis by (simp add: tables_ok_def one_file_fs_def e(3)) (simp add: layout_ok_def empty_fs_def)
qed

lemma one_file_found: "find_idx (\<lambda>e. used e \<noteq> 0 \<and> strcmp_safe (d_name e) [97, 0] = 0) (dirents one_file_fs) = Some 7"
proof (rule find_idx_SomeI)
  show "\<not> (used (dirents one_file_fs ! j) \<noteq> 0 \<and> strcmp_safe (d_name (dirents one_file_fs ! j)) [97, 0] = 0)" if "j < 7" for j
    using that by (simp add: one_file_fs_def empty_fs_def empty_dirent_def dirent_dec_def segment_def)
qed (simp_all add: one_file_fs_def empty_fs_def strcmp_safe_0 cstr_def)

lemma one_file_chain: "file_chain one_file_fs 7 [200, 300]"
  by (simp add: file_chain_def one_file_fs_def empty_fs_def)

theorem tinyfs_unlink_frees_witness:
  "\<exists>data' d'. tinyfs_unlink ramdisk_ops (Some one_file_fs) (Some root_node) [97, 0] blank_disk = Some (0, Some data', d') \<and> ramdisk_ok d' \<and>
    entry_removed ramdisk_content one_file_fs blank_disk 7 [200, 300] data' d'"
  using tinyfs_unlink_frees [OF rdisk.block_device_axioms blank_disk_ok one_file_ok _ one_file_found one_file_chain, of root_node]
  by (simp add: root_node_def)

text \<open>
  C27: Removal matches names without regard to the directory: a name that the given directory does not
  contain, but some other directory does, is removed from that other directory.
\<close>

theorem tinyfs_unlink_other_directory:
  assumes "block_device ops ok content" and "ok d" and "tables_ok data" and "n_type p = FILE_TYPE_DIRECTORY"
    and "tinyfs_finddir (Some data) (Some p) name (Some mem) = None"
    and "find_idx (\<lambda>e. used e \<noteq> 0 \<and> strcmp_safe (d_name e) name = 0) (dirents data) = Some i"
    and "file_chain data i bs"
  shows "parent_inode (dirents data ! i) \<noteq> n_inode p \<and> (\<exists>data' d'.
    tinyfs_unlink ops (Some data) (Some p) name d = Some (0, Some data', d') \<and> used (dirents data' ! i) = 0)"
proof -
  have l: "length (dirents data) = 256" using assms(3) by (simp add: tables_ok_def dirents_ok_def)
  have "find_idx (named_in (n_inode p) name) (dirents data) = None"
    using assms(4,5) l by (simp add: tinyfs_finddir_def TINYFS_MAX_FILES_def split: option.splits)
  then have "\<not> named_in (n_inode p) name (dirents data ! i)"
    using find_idx_SomeD [OF assms(6)] by (auto simp: find_idx_None_iff)
  then have "parent_inode (dirents data ! i) \<noteq> n_inode p"
    using find_idx_SomeD [OF assms(6)] by (auto simp: named_in_def)
  then show ?thesis using unlink_removes [OF assms(1-4,6,7)] by (auto simp: entry_removed_def)
qed

theorem tinyfs_unlink_other_directory_witness:
  "parent_inode (dirents one_file_fs ! 7) \<noteq> n_inode root_node \<and> (\<exists>data' d'.
    tinyfs_unlink ramdisk_ops (Some one_file_fs) (Some root_node) [97, 0] blank_disk = Some (0, Some data', d') \<and> used (dirents data' ! 7) = 0)"
proof -
  have "find_idx (named_in 0 [97, 0]) (dirents one_file_fs) = None"
    unfolding find_idx_None_iff
  proof
    fix e
    assume "e \<in> set (dirents one_file_fs)"
    then have "e = empty_dirent \<or> parent_inode e = 4"
      using set_update_subset_insert by (fastforce simp: one_file_fs_def empty_fs_def)
    then show "\<not> named_in 0 [97, 0] e" by (auto simp: named_in_def empty_dirent_def dirent_dec_def segment_def)
  qed
  then have "tinyfs_finddir (Some one_file_fs) (Some root_node) [97, 0] (Some (demo_node 0)) = None"
    using one_file_ok by (simp add: tinyfs_finddir_def root_node_def TINYFS_MAX_FILES_def tables_ok_def dirents_ok_def)
  from tinyfs_unlink_other_directory [OF rdisk.block_device_axioms blank_disk_ok one_file_ok _ this one_file_found one_file_chain]
  show ?thesis by (simp add: root_node_def)
qed

end
