(* ===== verification/VFS.thy ===== *)
theory VFS
  imports TinyFS_Dirs
begin

text \<open>
  The virtual file system (\<open>VFS/VFS.c\<close>): the registered file systems, the root, the working
  directory, the table of open files, path resolution and the operations on paths and descriptors.
  File systems are reached through their operation tables, which are arguments of the model in the
  form of records of optional functions; a null entry is \<open>None\<close>. Nodes live on a heap of nodes, so
  that a node shared by several pointers is one object. An access outside an array is \<open>None\<close>.
\<close>

section \<open>Data\<close>

definition MAX_OPEN_FILES :: nat where
  "MAX_OPEN_FILES = 256"

definition SEEK_SET :: int where
  "SEEK_SET = 0"

definition SEEK_CUR :: int where
  "SEEK_CUR = 1"

definition SEEK_END :: int where
  "SEEK_END = 2"

text \<open>
  A call through an operation table gets the node, the private data of its file system and the
  device, and may change all three.
\<close>

type_synonym ('r, 's, 'd) node_call = "vfs_node \<Rightarrow> 's \<Rightarrow> 'd \<Rightarrow> ('r \<times> vfs_node \<times> 's \<times> 'd) option"

record ('s, 'd) vfs_operations =
  op_open :: "(u32 \<Rightarrow> (int, 's, 'd) node_call) option"
  op_close :: "(int, 's, 'd) node_call option"
  op_read :: "(bytes \<Rightarrow> u32 \<Rightarrow> u32 \<Rightarrow> (int \<times> bytes, 's, 'd) node_call) option"
  op_write :: "(bytes \<Rightarrow> u32 \<Rightarrow> (int, 's, 'd) node_call) option"
  op_readdir :: "(u32 \<Rightarrow> vfs_node option \<Rightarrow> (vfs_node option, 's, 'd) node_call) option"
  op_finddir :: "(bytes \<Rightarrow> vfs_node option \<Rightarrow> (vfs_node option, 's, 'd) node_call) option"
  op_create :: "(bytes \<Rightarrow> u8 \<Rightarrow> u32 \<Rightarrow> (int, 's, 'd) node_call) option"
  op_unlink :: "(bytes \<Rightarrow> (int, 's, 'd) node_call) option"

type_synonym fs_stats = "u32 \<times> u32 \<times> u32"

record ('s, 'd) filesystem_operations =
  fs_mount :: "bytes \<Rightarrow> 's \<Rightarrow> 'd \<Rightarrow> (int \<times> 's \<times> 'd) option"
  fs_unmount :: "'s \<Rightarrow> 'd \<Rightarrow> (int \<times> 's \<times> 'd) option"
  fs_get_root :: "vfs_node option \<Rightarrow> vfs_node option"
  fs_get_stats :: "('s \<Rightarrow> int \<times> fs_stats option) option"

text \<open>
  A file system. Its nodes all carry its one table of node operations, so the table is a field of
  the file system here.
\<close>

record ('s, 'd) filesystem =
  fs_name :: bytes
  fs_ops :: "('s, 'd) filesystem_operations"
  fs_private_data :: 's
  fs_node_ops :: "('s, 'd) vfs_operations option"

record file_descriptor =
  fd_used :: bool
  fd_node :: "nat option"
  fd_position :: u32
  fd_flags :: u32

text \<open>
  Pointers to nodes and to file systems are indices into the heaps \<open>vnodes\<close> (each node with its file
  system) and \<open>filesystems\<close>. \<open>node_mem n\<close> is what the allocator returns for the \<open>n\<close>-th node.
\<close>

record ('s, 'd) vfs =
  root_ptr :: "nat option"
  current_dir :: "nat option"
  current_path :: bytes
  vfs_fd_table :: "file_descriptor list"
  registered_filesystems :: "nat option list"
  num_filesystems :: nat
  vnodes :: "(vfs_node \<times> nat) list"
  filesystems :: "('s, 'd) filesystem list"
  dev :: 'd
  node_mem :: "nat \<Rightarrow> vfs_node option"

section \<open>Strings\<close>

definition str_len :: "bytes \<Rightarrow> nat" where
  "str_len s = length (cstr s)"

fun str_cmp :: "bytes \<Rightarrow> bytes \<Rightarrow> int" where
  "str_cmp (a # s1) (b # s2) = (if a \<noteq> 0 \<and> a = b then str_cmp s1 s2 else uint a - uint b)"
| "str_cmp (a # s1) [] = uint a"
| "str_cmp [] (b # s2) = - uint b"
| "str_cmp [] [] = 0"

text \<open>\<open>str_cpy\<close> as a string: what \<open>dest\<close> holds afterwards, up to its NUL.\<close>

definition str_cpy :: "bytes \<Rightarrow> nat \<Rightarrow> bytes" where
  "str_cpy src max_len = take (max_len - 1) (cstr src)"

section \<open>Initialisation and mounting\<close>

definition closed_fd :: file_descriptor where
  "closed_fd = \<lparr>fd_used = False, fd_node = None, fd_position = 0, fd_flags = 0\<rparr>"

definition vfs_init :: "('s, 'd) vfs \<Rightarrow> ('s, 'd) vfs" where
  "vfs_init s = s\<lparr>root_ptr := None, num_filesystems := 0, vfs_fd_table := replicate MAX_OPEN_FILES closed_fd,
     registered_filesystems := replicate 16 None\<rparr>"

definition vfs_register_filesystem :: "nat option \<Rightarrow> ('s, 'd) vfs \<Rightarrow> int \<times> ('s, 'd) vfs" where
  "vfs_register_filesystem fs s =
     (if fs = None then (-1, s)
      else if num_filesystems s \<ge> 16 then (-1, s)
      else (0, s\<lparr>registered_filesystems := (registered_filesystems s)[num_filesystems s := fs], num_filesystems := num_filesystems s + 1\<rparr>))"

definition vfs_get_root :: "('s, 'd) vfs \<Rightarrow> nat option" where
  "vfs_get_root s = root_ptr s"

text \<open>A fresh node on the heap.\<close>

definition new_node :: "vfs_node \<Rightarrow> nat \<Rightarrow> ('s, 'd) vfs \<Rightarrow> nat \<times> ('s, 'd) vfs" where
  "new_node n fs s = (length (vnodes s), s\<lparr>vnodes := vnodes s @ [(n, fs)]\<rparr>)"

definition set_fs :: "nat \<Rightarrow> 's \<Rightarrow> 'd \<Rightarrow> ('s, 'd) vfs \<Rightarrow> ('s, 'd) vfs" where
  "set_fs i priv d s = s\<lparr>filesystems := (filesystems s)[i := (filesystems s ! i)\<lparr>fs_private_data := priv\<rparr>], dev := d\<rparr>"

text \<open>
  The scan for the file system type; the messages it prints read the name of every registered file
  system, so a null entry is an invalid access.
\<close>

definition find_filesystem :: "bytes \<Rightarrow> ('s, 'd) vfs \<Rightarrow> nat option option" where
  "find_filesystem fs_type s =
     (if \<exists>p \<in> set (take (num_filesystems s) (registered_filesystems s)). p = None then None
      else Some (map_option (\<lambda>i. the (registered_filesystems s ! i))
        (find_idx (\<lambda>p. str_cmp fs_type (fs_name (filesystems s ! the p)) = 0) (take (num_filesystems s) (registered_filesystems s)))))"

definition vfs_mount :: "bytes \<Rightarrow> bytes \<Rightarrow> bytes \<Rightarrow> ('s, 'd) vfs \<Rightarrow> (int \<times> ('s, 'd) vfs) option" where
  "vfs_mount fs_type devname mountpoint s = do {
     r \<leftarrow> find_filesystem fs_type s;
     case r of
       None \<Rightarrow> Some (-1, s)
     | Some i \<Rightarrow> do {
         let fs = filesystems s ! i;
         (r, priv, d) \<leftarrow> fs_mount (fs_ops fs) devname (fs_private_data fs) (dev s);
         let s = set_fs i priv d s;
         if r \<noteq> 0 then Some (-1, s)
         else if cstr mountpoint = [47] then
           case fs_get_root (fs_ops fs) (node_mem s (length (vnodes s))) of
             None \<Rightarrow> Some (-1, s\<lparr>root_ptr := None\<rparr>)
           | Some n \<Rightarrow> do {
               let (p, s) = new_node n i s;
               Some (0, s\<lparr>root_ptr := Some p, current_dir := Some p\<rparr>) }
         else Some (0, s) }}"

section \<open>Descriptors\<close>

definition set_fd :: "nat \<Rightarrow> (file_descriptor \<Rightarrow> file_descriptor) \<Rightarrow> ('s, 'd) vfs \<Rightarrow> ('s, 'd) vfs" where
  "set_fd i g s = s\<lparr>vfs_fd_table := (vfs_fd_table s)[i := g (vfs_fd_table s ! i)]\<rparr>"

definition allocate_fd :: "('s, 'd) vfs \<Rightarrow> int \<times> ('s, 'd) vfs" where
  "allocate_fd s =
     (case find_idx (\<lambda>f. \<not> fd_used f) (drop 3 (take MAX_OPEN_FILES (vfs_fd_table s))) of
        None \<Rightarrow> (-1, s)
      | Some i \<Rightarrow> (int (i + 3), set_fd (i + 3) (\<lambda>f. f\<lparr>fd_used := True\<rparr>) s))"

text \<open>The guard of every operation on a descriptor.\<close>

definition open_fd :: "int \<Rightarrow> ('s, 'd) vfs \<Rightarrow> bool" where
  "open_fd fd s \<longleftrightarrow> \<not> (fd < 0 \<or> fd \<ge> int MAX_OPEN_FILES \<or> \<not> fd_used (vfs_fd_table s ! nat fd))"

section \<open>Calls through the operation tables\<close>

definition node_ops :: "nat \<Rightarrow> ('s, 'd) vfs \<Rightarrow> ('s, 'd) vfs_operations option" where
  "node_ops p s = fs_node_ops (filesystems s ! snd (vnodes s ! p))"

definition call_node :: "('r, 's, 'd) node_call \<Rightarrow> nat \<Rightarrow> ('s, 'd) vfs \<Rightarrow> ('r \<times> ('s, 'd) vfs) option" where
  "call_node f p s = do {
     let (n, i) = vnodes s ! p;
     (r, n, priv, d) \<leftarrow> f n (fs_private_data (filesystems s ! i)) (dev s);
     Some (r, (set_fs i priv d s)\<lparr>vnodes := (vnodes s)[p := (n, i)]\<rparr>) }"

text \<open>A call that returns a fresh node puts it on the heap, in the file system of the node it came from.\<close>

definition call_lookup :: "(vfs_node option \<Rightarrow> (vfs_node option, 's, 'd) node_call) \<Rightarrow> nat \<Rightarrow> ('s, 'd) vfs \<Rightarrow> (nat option \<times> ('s, 'd) vfs) option" where
  "call_lookup f p s = do {
     (r, s) \<leftarrow> call_node (f (node_mem s (length (vnodes s)))) p s;
     case r of
       None \<Rightarrow> Some (None, s)
     | Some n \<Rightarrow> let (q, s) = new_node n (snd (vnodes s ! p)) s in Some (Some q, s) }"

definition node_type :: "nat \<Rightarrow> ('s, 'd) vfs \<Rightarrow> u8" where
  "node_type p s = n_type (fst (vnodes s ! p))"

definition vfs_readdir :: "nat option \<Rightarrow> u32 \<Rightarrow> ('s, 'd) vfs \<Rightarrow> (nat option \<times> ('s, 'd) vfs) option" where
  "vfs_readdir node index s =
     (case node of
        None \<Rightarrow> Some (None, s)
      | Some p \<Rightarrow>
          if node_type p s \<noteq> FILE_TYPE_DIRECTORY then Some (None, s)
          else case Option.bind (node_ops p s) op_readdir of
            None \<Rightarrow> Some (None, s) | Some f \<Rightarrow> call_lookup (f index) p s)"

definition vfs_finddir :: "nat option \<Rightarrow> bytes \<Rightarrow> ('s, 'd) vfs \<Rightarrow> (nat option \<times> ('s, 'd) vfs) option" where
  "vfs_finddir node name s =
     (case node of
        None \<Rightarrow> Some (None, s)
      | Some p \<Rightarrow>
          if node_type p s \<noteq> FILE_TYPE_DIRECTORY then Some (None, s)
          else case Option.bind (node_ops p s) op_finddir of
            None \<Rightarrow> Some (None, s) | Some f \<Rightarrow> call_lookup (f name) p s)"

section \<open>Paths\<close>

text \<open>
  The tokenizer's loop over the characters of the path: the finished tokens and the characters of
  the token in progress. The array has 32 rows of 256 characters.
\<close>

fun tokenize_loop :: "bytes \<Rightarrow> bytes list \<Rightarrow> bytes \<Rightarrow> bytes list option" where
  "tokenize_loop [] tokens cur = (if cur \<noteq> [] then Some (tokens @ [cur]) else Some tokens)"
| "tokenize_loop (c # cs) tokens cur =
     (if c = 47 then if cur \<noteq> [] then tokenize_loop cs (tokens @ [cur]) [] else tokenize_loop cs tokens cur
      else if length cur < MAX_FILENAME - 1
        then if length tokens < 32 then tokenize_loop cs tokens (cur @ [c]) else None
        else tokenize_loop cs tokens cur)"

definition tokenize_path :: "bytes \<Rightarrow> bytes list option" where
  "tokenize_path path =
     (let p = cstr path in tokenize_loop (if p \<noteq> [] \<and> hd p = 47 then tl p else p) [] [])"

fun resolve_tokens :: "bytes list \<Rightarrow> nat option \<Rightarrow> ('s, 'd) vfs \<Rightarrow> (nat option \<times> ('s, 'd) vfs) option" where
  "resolve_tokens [] current s = Some (current, s)"
| "resolve_tokens (t # ts) current s =
     (case current of
        None \<Rightarrow> Some (None, s)
      | Some p \<Rightarrow>
          if node_type p s \<noteq> FILE_TYPE_DIRECTORY then Some (None, s)
          else do {
            (r, s) \<leftarrow> vfs_finddir current t s;
            case r of None \<Rightarrow> Some (None, s) | Some q \<Rightarrow> resolve_tokens ts (Some q) s })"

definition vfs_resolve_path :: "bytes option \<Rightarrow> ('s, 'd) vfs \<Rightarrow> (nat option \<times> ('s, 'd) vfs) option" where
  "vfs_resolve_path path s =
     (case (root_ptr s, path) of
        (Some r, Some p) \<Rightarrow>
          if cstr p = [47] then Some (Some r, s)
          else if cstr p = [] \<or> hd (cstr p) \<noteq> 47 then Some (None, s)
          else do { tokens \<leftarrow> tokenize_path p; resolve_tokens tokens (Some r) s }
      | _ \<Rightarrow> Some (None, s))"

text \<open>
  Splitting a path at its last slash into the parent, which must fit into \<open>parent_path[256]\<close>, and the
  last component, cut at 255 characters.
\<close>

fun last_slash :: "bytes \<Rightarrow> int \<Rightarrow> int \<Rightarrow> int" where
  "last_slash [] i r = r"
| "last_slash (c # cs) i r = last_slash cs (i + 1) (if c = 47 then i else r)"

definition parent_path :: "bytes \<Rightarrow> int \<Rightarrow> bytes option" where
  "parent_path path ls = (if ls = 0 then Some [47] else if ls < 256 then Some (take (nat ls) path) else None)"

definition base_name :: "bytes \<Rightarrow> int \<Rightarrow> bytes" where
  "base_name path ls = take (MAX_FILENAME - 1) (drop (nat (ls + 1)) path)"

section \<open>Operations on open files\<close>

text \<open>
  The node of a descriptor together with an entry of its operation table; \<open>None\<close> when the node, the
  table or the entry is null.
\<close>

definition fd_target :: "int \<Rightarrow> (('s, 'd) vfs_operations \<Rightarrow> 'f option) \<Rightarrow> ('s, 'd) vfs \<Rightarrow> (nat \<times> 'f) option" where
  "fd_target fd entry s = do {
     p \<leftarrow> fd_node (vfs_fd_table s ! nat fd);
     t \<leftarrow> node_ops p s;
     f \<leftarrow> entry t;
     Some (p, f) }"

text \<open>The position moves by the number of bytes transferred, when that is positive.\<close>

definition advance :: "int \<Rightarrow> int \<Rightarrow> ('s, 'd) vfs \<Rightarrow> ('s, 'd) vfs" where
  "advance fd n s = (if n > 0 then set_fd (nat fd) (\<lambda>f. f\<lparr>fd_position := fd_position f + of_int n\<rparr>) s else s)"

definition vfs_open :: "bytes option \<Rightarrow> u32 \<Rightarrow> ('s, 'd) vfs \<Rightarrow> (int \<times> ('s, 'd) vfs) option" where
  "vfs_open path flags s = do {
     (r, s) \<leftarrow> vfs_resolve_path path s;
     case r of
       None \<Rightarrow> Some (-1, s)
     | Some node \<Rightarrow> do {
         let (fd, s) = allocate_fd s;
         if fd < 0 then Some (-1, s)
         else do {
           let s = set_fd (nat fd) (\<lambda>f. f\<lparr>fd_node := Some node, fd_position := 0, fd_flags := flags\<rparr>) s;
           case Option.bind (node_ops node s) op_open of
             None \<Rightarrow> Some (fd, s)
           | Some f \<Rightarrow> do { (_, s) \<leftarrow> call_node (f flags) node s; Some (fd, s) }}}}"

definition vfs_close :: "int \<Rightarrow> ('s, 'd) vfs \<Rightarrow> (int \<times> ('s, 'd) vfs) option" where
  "vfs_close fd s =
     (if \<not> open_fd fd s then Some (-1, s)
      else do {
        s \<leftarrow> (case fd_target fd op_close s of
               None \<Rightarrow> Some s
             | Some (p, f) \<Rightarrow> do { (_, s) \<leftarrow> call_node f p s; Some s });
        Some (0, set_fd (nat fd) (\<lambda>f. f\<lparr>fd_used := False, fd_node := None, fd_position := 0\<rparr>) s) })"

text \<open>\<open>buffer\<close> is the caller's buffer of at least \<open>sz\<close> bytes; the result holds its new contents.\<close>

definition vfs_read :: "int \<Rightarrow> bytes \<Rightarrow> u32 \<Rightarrow> ('s, 'd) vfs \<Rightarrow> (int \<times> bytes \<times> ('s, 'd) vfs) option" where
  "vfs_read fd buffer sz s =
     (if \<not> open_fd fd s then Some (-1, buffer, s)
      else case fd_target fd op_read s of
        None \<Rightarrow> Some (-1, buffer, s)
      | Some (p, f) \<Rightarrow> do {
          ((bytes_read, buffer), s) \<leftarrow> call_node (f buffer sz (fd_position (vfs_fd_table s ! nat fd))) p s;
          Some (bytes_read, buffer, advance fd bytes_read s) })"

text \<open>\<open>buffer\<close> holds the \<open>size\<close> bytes to write.\<close>

definition vfs_write :: "int \<Rightarrow> bytes \<Rightarrow> ('s, 'd) vfs \<Rightarrow> (int \<times> ('s, 'd) vfs) option" where
  "vfs_write fd buffer s =
     (if \<not> open_fd fd s then Some (-1, s)
      else case fd_target fd op_write s of
        None \<Rightarrow> Some (-1, s)
      | Some (p, f) \<Rightarrow> do {
          (bytes_written, s) \<leftarrow> call_node (f buffer (fd_position (vfs_fd_table s ! nat fd))) p s;
          Some (bytes_written, advance fd bytes_written s) })"

definition vfs_seek :: "int \<Rightarrow> int \<Rightarrow> int \<Rightarrow> ('s, 'd) vfs \<Rightarrow> (int \<times> ('s, 'd) vfs) option" where
  "vfs_seek fd offset whence s =
     (if \<not> open_fd fd s then Some (-1, s)
      else do {
        let f = vfs_fd_table s ! nat fd;
        new_pos \<leftarrow> (if whence = SEEK_SET then Some (Some (of_int offset))
                    else if whence = SEEK_CUR then Some (Some (fd_position f + of_int offset))
                    else if whence = SEEK_END then map_option (\<lambda>p. Some (n_size (fst (vnodes s ! p)) + of_int offset)) (fd_node f)
                    else Some None);
        case new_pos of
          None \<Rightarrow> Some (-1, s)
        | Some pos \<Rightarrow> Some (sint (pos :: u32), set_fd (nat fd) (\<lambda>f. f\<lparr>fd_position := pos\<rparr>) s) })"

section \<open>Operations on paths\<close>

text \<open>\<open>vfs_create\<close> and \<open>vfs_mkdir\<close> differ in the type they pass down.\<close>

definition vfs_create_node :: "u8 \<Rightarrow> bytes option \<Rightarrow> u32 \<Rightarrow> ('s, 'd) vfs \<Rightarrow> (int \<times> ('s, 'd) vfs) option" where
  "vfs_create_node typ path permissions s =
     (case path of
        None \<Rightarrow> Some (-1, s)
      | Some path \<Rightarrow> let p = cstr path in
          if p = [] \<or> hd p \<noteq> 47 then Some (-1, s)
          else do {
            let ls = last_slash p 0 (-1);
            if ls < 0 then Some (-1, s)
            else do {
              parent \<leftarrow> parent_path p ls;
              (r, s) \<leftarrow> vfs_resolve_path (Some parent) s;
              case r of
                None \<Rightarrow> Some (-1, s)
              | Some n \<Rightarrow>
                  if node_type n s \<noteq> FILE_TYPE_DIRECTORY then Some (-1, s)
                  else case Option.bind (node_ops n s) op_create of
                    None \<Rightarrow> Some (-1, s)
                  | Some f \<Rightarrow> call_node (f (base_name p ls) typ permissions) n s }})"

definition vfs_create :: "bytes option \<Rightarrow> u32 \<Rightarrow> ('s, 'd) vfs \<Rightarrow> (int \<times> ('s, 'd) vfs) option" where
  "vfs_create = vfs_create_node FILE_TYPE_REGULAR"

definition vfs_mkdir :: "bytes option \<Rightarrow> u32 \<Rightarrow> ('s, 'd) vfs \<Rightarrow> (int \<times> ('s, 'd) vfs) option" where
  "vfs_mkdir = vfs_create_node FILE_TYPE_DIRECTORY"

definition vfs_unlink :: "bytes option \<Rightarrow> ('s, 'd) vfs \<Rightarrow> (int \<times> ('s, 'd) vfs) option" where
  "vfs_unlink path s =
     (case path of
        None \<Rightarrow> Some (-1, s)
      | Some path \<Rightarrow> let p = cstr path in
          if p = [] \<or> hd p \<noteq> 47 then Some (-1, s)
          else do {
            let ls = last_slash p 0 (-1);
            if ls < 0 then Some (-1, s)
            else do {
              parent \<leftarrow> parent_path p ls;
              (r, s) \<leftarrow> vfs_resolve_path (Some parent) s;
              case r of
                None \<Rightarrow> Some (-1, s)
              | Some n \<Rightarrow>
                  if node_type n s \<noteq> FILE_TYPE_DIRECTORY then Some (-1, s)
                  else case Option.bind (node_ops n s) op_unlink of
                    None \<Rightarrow> Some (-1, s)
                  | Some f \<Rightarrow> call_node (f (base_name p ls)) n s }})"

text \<open>
  The listing of a directory: the entries in the order of their index, each freed after it is
  printed, here (type letter, name, size). The loop ends with the first index without an entry.
\<close>

partial_function (option) list_entries :: "nat \<Rightarrow> u32 \<Rightarrow> ('s, 'd) vfs \<Rightarrow> ((u8 \<times> bytes \<times> u32) list \<times> ('s, 'd) vfs) option" where
  "list_entries dir i s = Option.bind (vfs_readdir (Some dir) i s) (\<lambda>(r, s).
     case r of
       None \<Rightarrow> Some ([], s)
     | Some p \<Rightarrow>
         Option.bind (list_entries dir (i + 1) (s\<lparr>vnodes := butlast (vnodes s)\<rparr>)) (\<lambda>(es, s').
         Some (((if node_type p s = FILE_TYPE_DIRECTORY then 100 else 102), cstr (n_name (fst (vnodes s ! p))), n_size (fst (vnodes s ! p))) # es, s')))"

definition vfs_list_directory :: "bytes option \<Rightarrow> ('s, 'd) vfs \<Rightarrow> ((u8 \<times> bytes \<times> u32) list option \<times> ('s, 'd) vfs) option" where
  "vfs_list_directory path s = do {
     (r, s) \<leftarrow> vfs_resolve_path path s;
     case r of
       None \<Rightarrow> Some (None, s)
     | Some dir \<Rightarrow>
         if node_type dir s \<noteq> FILE_TYPE_DIRECTORY then Some (None, s)
         else do { (es, s) \<leftarrow> list_entries dir 0 s; Some (Some es, s) }}"

definition vfs_statfs :: "bytes option \<Rightarrow> ('s, 'd) vfs \<Rightarrow> (int \<times> fs_stats option \<times> ('s, 'd) vfs) option" where
  "vfs_statfs path s = do {
     (r, s) \<leftarrow> vfs_resolve_path path s;
     case r of
       None \<Rightarrow> Some (-1, None, s)
     | Some p \<Rightarrow> let fs = filesystems s ! snd (vnodes s ! p) in
         case fs_get_stats (fs_ops fs) of
           None \<Rightarrow> Some (-1, None, s)
         | Some f \<Rightarrow> let (r, stats) = f (fs_private_data fs) in Some (r, stats, s) }"

section \<open>The working directory\<close>

definition vfs_get_cwd :: "('s, 'd) vfs \<Rightarrow> nat option" where
  "vfs_get_cwd s = (if current_dir s \<noteq> None then current_dir s else root_ptr s)"

definition vfs_get_cwd_path :: "('s, 'd) vfs \<Rightarrow> bytes" where
  "vfs_get_cwd_path s = current_path s"

text \<open>
  The path that a relative argument stands for, built in \<open>full_path[256]\<close>; a working directory of 255
  characters without a final slash leaves the terminating NUL outside the array.
\<close>

definition full_path :: "bytes \<Rightarrow> bytes \<Rightarrow> bytes option" where
  "full_path cwd path =
     (let p = take 255 cwd;
          p = (if p \<noteq> [] \<and> last p \<noteq> 47 then p @ [47] else p);
          p = p @ take (255 - length p) path
      in if length p < 256 then Some p else None)"

definition vfs_chdir :: "bytes option \<Rightarrow> ('s, 'd) vfs \<Rightarrow> (int \<times> ('s, 'd) vfs) option" where
  "vfs_chdir path s =
     (case path of
        None \<Rightarrow> Some (-1, s)
      | Some path \<Rightarrow> do {
          let p = cstr path;
          full \<leftarrow> (if p \<noteq> [] \<and> hd p = 47 then Some (str_cpy path 256) else full_path (current_path s) p);
          (r, s) \<leftarrow> vfs_resolve_path (Some (if p \<noteq> [] \<and> hd p = 47 then path else full)) s;
          case r of
            None \<Rightarrow> Some (-1, s)
          | Some target \<Rightarrow>
              if node_type target s \<noteq> FILE_TYPE_DIRECTORY then Some (-1, s)
              else do {
                let new_path = take 255 full;
                let new_path = (if length new_path > 1 \<and> last new_path = 47 then butlast new_path else new_path);
                Some (0, s\<lparr>current_dir := Some target, current_path := new_path\<rparr>) }})"

end
