(* ===== verification/VFS_Table.thy ===== *)
theory VFS_Table
  imports VFS
begin

text \<open>
  The tokenizer against the usual splitting of a path, the well-formedness of the state of the virtual
  file system as an invariant of all its operations, and the table of open files as an implementation
  of a finite map from descriptors to nodes and positions.
\<close>

section \<open>Path components\<close>

fun split_slash :: "bytes \<Rightarrow> bytes \<Rightarrow> bytes list" where
  "split_slash [] cur = [cur]"
| "split_slash (c # cs) cur = (if c = 47 then cur # split_slash cs [] else split_slash cs (cur @ [c]))"

text \<open>The non-empty components of a path, each cut at 255 characters.\<close>

definition path_components :: "bytes \<Rightarrow> bytes list" where
  "path_components p = map (take 255) (filter (\<lambda>t. t \<noteq> []) (split_slash p []))"

lemma split_slash_pending: "cur \<noteq> [] \<Longrightarrow> filter (\<lambda>t. t \<noteq> []) (split_slash cs cur) \<noteq> []"
  by (induction cs arbitrary: cur) auto

lemma tokenize_loop_components:
  assumes "length tokens \<le> 32" "cur \<noteq> [] \<Longrightarrow> length tokens < 32"
  shows "tokenize_loop cs tokens (take 255 cur) =
    (let ts = tokens @ map (take 255) (filter (\<lambda>t. t \<noteq> []) (split_slash cs cur)) in if length ts \<le> 32 then Some ts else None)"
  using assms
proof (induction cs arbitrary: tokens cur)
  case Nil
  then show ?case by (auto simp: Let_def)
next
  case (Cons c cs)
  consider "c = 47" "cur = []" | "c = 47" "cur \<noteq> []" | "c \<noteq> 47" "length cur < 255" | "c \<noteq> 47" "\<not> length cur < 255" by blast
  then show ?case
  proof cases
    case 1
    then show ?thesis using Cons.IH [of tokens "[]"] Cons.prems by simp
  next
    case 2
    then show ?thesis using Cons.IH [of "tokens @ [take 255 cur]" "[]"] Cons.prems
      by (auto simp: Let_def)
  next
    case 3
    show ?thesis
    proof (cases "length tokens < 32")
      case True
      then show ?thesis using 3 Cons.IH [of tokens "cur @ [c]"] Cons.prems by (simp add: MAX_FILENAME_def)
    next
      case False
      then show ?thesis using 3 Cons.prems split_slash_pending [of "cur @ [c]" cs]
        by (cases "filter (\<lambda>t. t \<noteq> []) (split_slash cs (cur @ [c]))") (auto simp: MAX_FILENAME_def Let_def)
    qed
  next
    case 4
    then have "cur \<noteq> []" by auto
    with 4 show ?thesis using Cons.IH [of tokens "cur @ [c]"] Cons.prems by (simp add: MAX_FILENAME_def)
  qed
qed


text \<open>
  C29: The tokenizer yields the non-empty components of the path in order, each cut at 255 characters,
  when there are at most 32 of them; with more components it writes outside its array.
\<close>

theorem tokenize_path_components:
  "tokenize_path (47 # path) =
    (if length (path_components (cstr path)) \<le> 32 then Some (path_components (cstr path)) else None)"
proof -
  have "cstr (47 # path) = 47 # cstr path" by (simp add: cstr_def)
  then show ?thesis
    using tokenize_loop_components [of "[]" "[]" "cstr path"] by (simp add: tokenize_path_def path_components_def Let_def)
qed

section \<open>Well-formed states\<close>

definition valid_ptr :: "nat option \<Rightarrow> 'a list \<Rightarrow> bool" where
  "valid_ptr p heap \<longleftrightarrow> (\<forall>i. p = Some i \<longrightarrow> i < length heap)"

definition fd_ok :: "(vfs_node \<times> nat) list \<Rightarrow> file_descriptor \<Rightarrow> bool" where
  "fd_ok heap f \<longleftrightarrow> (if fd_used f then fd_node f \<noteq> None \<and> valid_ptr (fd_node f) heap
     else fd_node f = None \<and> fd_position f = 0)"

definition path_ok :: "bytes \<Rightarrow> bool" where
  "path_ok p \<longleftrightarrow> p \<noteq> [] \<and> hd p = 47 \<and> length p \<le> 255 \<and> 0 \<notin> set p"

definition fds_ok :: "file_descriptor list \<Rightarrow> (vfs_node \<times> nat) list \<Rightarrow> bool" where
  "fds_ok t heap \<longleftrightarrow> length t = 256 \<and> (\<forall>f \<in> set t. fd_ok heap f) \<and> (\<forall>i < 3. \<not> fd_used (t ! i))"

definition heap_ok :: "('s, 'd) vfs \<Rightarrow> bool" where
  "heap_ok s \<longleftrightarrow> (\<forall>(n, i) \<in> set (vnodes s). i < length (filesystems s)) \<and>
     valid_ptr (root_ptr s) (vnodes s) \<and> valid_ptr (current_dir s) (vnodes s)"

definition registry_ok :: "('s, 'd) vfs \<Rightarrow> bool" where
  "registry_ok s \<longleftrightarrow> length (registered_filesystems s) = 16 \<and> num_filesystems s \<le> 16 \<and>
     (\<forall>i < num_filesystems s. \<exists>j. registered_filesystems s ! i = Some j \<and> j < length (filesystems s))"

definition vfs_ok :: "('s, 'd) vfs \<Rightarrow> bool" where
  "vfs_ok s \<longleftrightarrow> heap_ok s \<and> registry_ok s \<and> fds_ok (vfs_fd_table s) (vnodes s) \<and> path_ok (current_path s)"

text \<open>The state may have grown its heap and changed file system contents, and nothing else.\<close>

definition grown_from :: "('s, 'd) vfs \<Rightarrow> ('s, 'd) vfs \<Rightarrow> bool" where
  "grown_from s s' \<longleftrightarrow> length (vnodes s) \<le> length (vnodes s') \<and> length (filesystems s') = length (filesystems s) \<and>
     (\<forall>(n, i) \<in> set (vnodes s'). i < length (filesystems s)) \<and>
     root_ptr s' = root_ptr s \<and> current_dir s' = current_dir s \<and> current_path s' = current_path s \<and>
     vfs_fd_table s' = vfs_fd_table s \<and> registered_filesystems s' = registered_filesystems s \<and>
     num_filesystems s' = num_filesystems s"

lemma valid_ptr_mono: "valid_ptr p h \<Longrightarrow> length h \<le> length h' \<Longrightarrow> valid_ptr p h'"
  by (auto simp: valid_ptr_def)

lemma fds_ok_mono: "fds_ok t h \<Longrightarrow> length h \<le> length h' \<Longrightarrow> fds_ok t h'"
  unfolding fds_ok_def fd_ok_def by (metis valid_ptr_mono)

lemma grown_vfs_ok: "vfs_ok s \<Longrightarrow> grown_from s s' \<Longrightarrow> vfs_ok s'"
  unfolding vfs_ok_def heap_ok_def grown_from_def registry_ok_def by (metis fds_ok_mono valid_ptr_mono)

lemma grown_from_trans: "grown_from s s' \<Longrightarrow> grown_from s' s'' \<Longrightarrow> grown_from s s''"
  unfolding grown_from_def by simp

lemma grown_from_refl: "vfs_ok s \<Longrightarrow> grown_from s s"
  by (auto simp: grown_from_def vfs_ok_def heap_ok_def)

lemma call_node_grown:
  assumes "call_node f p s = Some (r, s')" "vfs_ok s" "p < length (vnodes s)"
  shows "grown_from s s' \<and> length (vnodes s') = length (vnodes s)"
proof -
  obtain n i where ni: "vnodes s ! p = (n, i)" by (cases "vnodes s ! p")
  then have i: "i < length (filesystems s)" using assms(2,3) nth_mem [of p "vnodes s"] by (auto simp: vfs_ok_def heap_ok_def)
  obtain n' priv d where s': "s' = (set_fs i priv d s)\<lparr>vnodes := (vnodes s)[p := (n', i)]\<rparr>"
    using assms(1) ni by (auto simp: call_node_def split: bind_splits)
  have "\<forall>(n, j) \<in> set ((vnodes s)[p := (n', i)]). j < length (filesystems s)"
    using i assms(2) set_update_subset_insert [of "vnodes s" p "(n', i)"] by (fastforce simp: vfs_ok_def heap_ok_def)
  then show ?thesis by (simp add: s' grown_from_def set_fs_def)
qed


text \<open>The result of a lookup is a valid pointer into the grown heap.\<close>

definition lookup_ok :: "('s, 'd) vfs \<Rightarrow> nat option \<Rightarrow> ('s, 'd) vfs \<Rightarrow> bool" where
  "lookup_ok s r s' \<longleftrightarrow> grown_from s s' \<and> valid_ptr r (vnodes s')"

lemma lookup_ok_none: "vfs_ok s \<Longrightarrow> lookup_ok s None s"
  by (simp add: lookup_ok_def grown_from_refl valid_ptr_def)

lemma call_lookup_ok:
  assumes "call_lookup f p s = Some (r, s')" "vfs_ok s" "p < length (vnodes s)"
  shows "lookup_ok s r s'"
proof -
  obtain r1 s1 where c: "call_node (f (node_mem s (length (vnodes s)))) p s = Some (r1, s1)"
    "(case r1 of None \<Rightarrow> Some (None, s1) | Some n \<Rightarrow> let (q, s) = new_node n (snd (vnodes s1 ! p)) s1 in Some (Some q, s)) = Some (r, s')"
    using assms(1) by (auto simp: call_lookup_def split: bind_splits)
  note g = call_node_grown [OF c(1) assms(2,3)]
  then have "snd (vnodes s1 ! p) < length (filesystems s)"
    using assms(3) nth_mem [of p "vnodes s1"] by (auto simp: grown_from_def split_beta)
  with g c(2) show ?thesis
    by (cases r1) (auto simp: lookup_ok_def valid_ptr_def new_node_def grown_from_def)
qed

lemma vfs_finddir_ok: "vfs_finddir node name s = Some (r, s') \<Longrightarrow> vfs_ok s \<Longrightarrow> valid_ptr node (vnodes s) \<Longrightarrow> lookup_ok s r s'"
  by (auto simp: vfs_finddir_def valid_ptr_def split: option.splits if_splits dest: call_lookup_ok intro: lookup_ok_none)

lemma vfs_readdir_ok: "vfs_readdir node i s = Some (r, s') \<Longrightarrow> vfs_ok s \<Longrightarrow> valid_ptr node (vnodes s) \<Longrightarrow> lookup_ok s r s'"
  by (auto simp: vfs_readdir_def valid_ptr_def split: option.splits if_splits dest: call_lookup_ok intro: lookup_ok_none)

lemma resolve_tokens_ok:
  "resolve_tokens ts cur s = Some (r, s') \<Longrightarrow> vfs_ok s \<Longrightarrow> valid_ptr cur (vnodes s) \<Longrightarrow> lookup_ok s r s'"
proof (induction ts arbitrary: cur s)
  case Nil
  then show ?case by (simp add: lookup_ok_def grown_from_refl)
next
  case (Cons t ts)
  show ?case
  proof (cases "cur = None \<or> node_type (the cur) s \<noteq> FILE_TYPE_DIRECTORY")
    case True
    with Cons.prems show ?thesis by (cases cur) (auto intro: lookup_ok_none)
  next
    case False
    then obtain q s1 where q: "vfs_finddir cur t s = Some (q, s1)"
      "(case q of None \<Rightarrow> Some (None, s1) | Some q \<Rightarrow> resolve_tokens ts (Some q) s1) = Some (r, s')"
      using Cons.prems(1) by (auto split: bind_splits)
    note l = vfs_finddir_ok [OF q(1) Cons.prems(2,3)]
    show ?thesis
    proof (cases q)
      case None
      with q l show ?thesis by simp
    next
      case (Some a)
      then have "lookup_ok s1 r s'"
        using Cons.IH [of q s1] q(2) l grown_vfs_ok [OF Cons.prems(2)] by (auto simp: lookup_ok_def)
      with l show ?thesis by (auto simp: lookup_ok_def intro: grown_from_trans)
    qed
  qed
qed

lemma vfs_resolve_path_ok: "vfs_resolve_path path s = Some (r, s') \<Longrightarrow> vfs_ok s \<Longrightarrow> lookup_ok s r s'"
proof -
  assume a: "vfs_resolve_path path s = Some (r, s')" "vfs_ok s"
  then have root: "valid_ptr (root_ptr s) (vnodes s)" by (simp add: vfs_ok_def heap_ok_def)
  then have "lookup_ok s (root_ptr s) s" using grown_from_refl [OF a(2)] by (simp add: lookup_ok_def)
  with root a lookup_ok_none show ?thesis
    by (auto simp: vfs_resolve_path_def split: option.splits if_splits bind_splits dest!: resolve_tokens_ok)
qed

section \<open>Every operation keeps the state well formed\<close>

lemma set_fd_ok:
  assumes "vfs_ok s" "3 \<le> i \<or> \<not> fd_used (g (vfs_fd_table s ! i))" "fd_ok (vnodes s) (g (vfs_fd_table s ! i))"
  shows "vfs_ok (set_fd i g s)"
proof -
  define t where "t = (vfs_fd_table s)[i := g (vfs_fd_table s ! i)]"
  have old: "length (vfs_fd_table s) = 256" "\<forall>f \<in> set (vfs_fd_table s). fd_ok (vnodes s) f" "\<forall>i < 3. \<not> fd_used (vfs_fd_table s ! i)"
    using assms(1) by (simp_all add: vfs_ok_def fds_ok_def)
  have "set t \<subseteq> insert (g (vfs_fd_table s ! i)) (set (vfs_fd_table s))"
    unfolding t_def by (rule set_update_subset_insert)
  then have "\<forall>f \<in> set t. fd_ok (vnodes s) f" using old(2) assms(3) by blast
  moreover have "\<not> fd_used (t ! j)" if "j < 3" for j
    using old(1,3) assms(2) that by (cases "j = i") (simp_all add: t_def)
  ultimately have "fds_ok ((vfs_fd_table s)[i := g (vfs_fd_table s ! i)]) (vnodes s)"
    using old(1) by (simp add: fds_ok_def t_def)
  then show ?thesis using assms(1) by (auto simp: vfs_ok_def set_fd_def heap_ok_def registry_ok_def)
qed

text \<open>A used descriptor is at least 3 and has a node.\<close>

lemma open_fdD:
  assumes "open_fd fd s" "vfs_ok s"
  shows "3 \<le> fd" "fd < 256" "fd_used (vfs_fd_table s ! nat fd)" "\<exists>p. fd_node (vfs_fd_table s ! nat fd) = Some p \<and> p < length (vnodes s)"
proof -
  show u: "fd_used (vfs_fd_table s ! nat fd)" and b: "fd < 256" using assms(1) by (auto simp: open_fd_def MAX_OPEN_FILES_def)
  show "3 \<le> fd"
  proof (rule ccontr)
    assume "\<not> 3 \<le> fd"
    then have "nat fd < 3" by auto
    then show False using u assms(2) by (auto simp: vfs_ok_def fds_ok_def)
  qed
  have "vfs_fd_table s ! nat fd \<in> set (vfs_fd_table s)" using assms b by (auto simp: vfs_ok_def fds_ok_def open_fd_def)
  then have "fd_ok (vnodes s) (vfs_fd_table s ! nat fd)" using assms(2) by (auto simp: vfs_ok_def fds_ok_def)
  with u show "\<exists>p. fd_node (vfs_fd_table s ! nat fd) = Some p \<and> p < length (vnodes s)" by (auto simp: fd_ok_def valid_ptr_def)
qed

lemma set_position_ok:
  assumes "open_fd fd s" "vfs_ok s"
  shows "vfs_ok (set_fd (nat fd) (\<lambda>f. f\<lparr>fd_position := pos f\<rparr>) s)"
  using open_fdD [OF assms] by (intro set_fd_ok [OF assms(2)]) (auto simp: fd_ok_def valid_ptr_def)

lemma open_fd_grown: "grown_from s s' \<Longrightarrow> open_fd fd s' = open_fd fd s"
  by (simp add: open_fd_def grown_from_def)

lemma fd_target_node: "fd_target fd entry s = Some (p, f) \<Longrightarrow> fd_node (vfs_fd_table s ! nat fd) = Some p"
  by (auto simp: fd_target_def split: bind_splits)

lemma fd_call_grown:
  assumes "fd_target fd entry s = Some (p, f)" "call_node g p s = Some (r, s')" "open_fd fd s" "vfs_ok s"
  shows "grown_from s s'"
  using assms call_node_grown [OF assms(2,4)] fd_target_node [OF assms(1)] open_fdD(4) [OF assms(3,4)] by auto

lemma fd_call_ok:
  "fd_target fd entry s = Some (p, f) \<Longrightarrow> call_node g p s = Some (r, s') \<Longrightarrow> open_fd fd s \<Longrightarrow> vfs_ok s \<Longrightarrow> vfs_ok s'"
  by (rule grown_vfs_ok [OF _ fd_call_grown])

lemma advance_ok: "open_fd fd s \<Longrightarrow> vfs_ok s \<Longrightarrow> vfs_ok (advance fd n s)"
  by (simp add: advance_def set_position_ok)

lemma vfs_seek_ok: "vfs_seek fd off wh s = Some (r, s') \<Longrightarrow> vfs_ok s \<Longrightarrow> vfs_ok s'"
  by (auto simp: vfs_seek_def Let_def split: if_splits bind_splits option.splits intro: set_position_ok)

lemma fd_call_advance_ok:
  assumes "fd_target fd entry s = Some (p, f)" "call_node g p s = Some (r, s1)" "open_fd fd s" "vfs_ok s"
  shows "vfs_ok (advance fd n s1)"
proof -
  note g = fd_call_grown [OF assms]
  show ?thesis using advance_ok open_fd_grown [OF g] grown_vfs_ok [OF assms(4) g] assms(3) by blast
qed

lemma vfs_read_ok: "vfs_read fd buf sz s = Some (r, buf', s') \<Longrightarrow> vfs_ok s \<Longrightarrow> vfs_ok s'"
  by (auto simp: vfs_read_def split: if_splits option.splits bind_splits dest: fd_call_advance_ok)

lemma vfs_write_ok: "vfs_write fd buf s = Some (r, s') \<Longrightarrow> vfs_ok s \<Longrightarrow> vfs_ok s'"
  by (auto simp: vfs_write_def split: if_splits option.splits bind_splits dest: fd_call_advance_ok)

lemma release_fd_ok: "vfs_ok s \<Longrightarrow> vfs_ok (set_fd i (\<lambda>f. f\<lparr>fd_used := False, fd_node := None, fd_position := 0\<rparr>) s)"
  by (rule set_fd_ok) (simp_all add: fd_ok_def)

lemma vfs_close_ok: "vfs_close fd s = Some (r, s') \<Longrightarrow> vfs_ok s \<Longrightarrow> vfs_ok s'"
  by (auto simp: vfs_close_def split: if_splits option.splits bind_splits
    intro!: release_fd_ok intro: fd_call_ok)


lemma allocate_fd_cases:
  assumes "vfs_ok s"
  shows "(allocate_fd s = (-1, s) \<and> (\<forall>i. 3 \<le> i \<longrightarrow> i < 256 \<longrightarrow> fd_used (vfs_fd_table s ! i))) \<or>
    (\<exists>i. allocate_fd s = (int i, set_fd i (\<lambda>f. f\<lparr>fd_used := True\<rparr>) s) \<and> 3 \<le> i \<and> i < 256 \<and>
       \<not> fd_used (vfs_fd_table s ! i) \<and> (\<forall>j. 3 \<le> j \<longrightarrow> j < i \<longrightarrow> fd_used (vfs_fd_table s ! j)))"
proof (cases "find_idx (\<lambda>f. \<not> fd_used f) (drop 3 (take MAX_OPEN_FILES (vfs_fd_table s)))")
  case None
  have l: "length (vfs_fd_table s) = 256" using assms by (simp add: vfs_ok_def fds_ok_def)
  have "fd_used (vfs_fd_table s ! i)" if "3 \<le> i" "i < 256" for i
  proof -
    have "vfs_fd_table s ! i = drop 3 (vfs_fd_table s) ! (i - 3)" "i - 3 < length (drop 3 (vfs_fd_table s))"
      using that l by simp_all
    then have "vfs_fd_table s ! i \<in> set (drop 3 (vfs_fd_table s))" by (metis nth_mem)
    with None l show ?thesis by (simp add: find_idx_None_iff MAX_OPEN_FILES_def)
  qed
  with None show ?thesis by (simp add: allocate_fd_def)
next
  case (Some i)
  have l: "length (vfs_fd_table s) = 256" using assms by (simp add: vfs_ok_def fds_ok_def)
  note f = find_idx_SomeD [OF Some]
  have "fd_used (vfs_fd_table s ! j)" if "3 \<le> j" "j < i + 3" for j
  proof -
    have "j - 3 < i" using that by simp
    with f l that show ?thesis by (auto simp: MAX_OPEN_FILES_def)
  qed
  with f l Some show ?thesis
    by (intro disjI2 exI [of _ "i + 3"]) (simp add: allocate_fd_def MAX_OPEN_FILES_def add.commute)
qed

text \<open>The descriptor that \<open>vfs_open\<close> fills in.\<close>

definition opened :: "nat \<Rightarrow> u32 \<Rightarrow> file_descriptor" where
  "opened node flags = \<lparr>fd_used = True, fd_node = Some node, fd_position = 0, fd_flags = flags\<rparr>"

lemma opened_eq: "f\<lparr>fd_used := True, fd_node := Some node, fd_position := 0, fd_flags := flags\<rparr> = opened node flags"
  by (cases f) (simp add: opened_def)

lemma set_fd_twice: "i < length (vfs_fd_table s) \<Longrightarrow> set_fd i g (set_fd i h s) = set_fd i (\<lambda>f. g (h f)) s"
  by (simp add: set_fd_def)

lemma vfs_open_cases:
  assumes "vfs_open path flags s = Some (fd, s')" "vfs_ok s"
  shows "\<exists>r s1. vfs_resolve_path path s = Some (r, s1) \<and> lookup_ok s r s1 \<and>
    (fd = -1 \<and> s' = s1 \<and> (r = None \<or> (\<forall>i. 3 \<le> i \<longrightarrow> i < 256 \<longrightarrow> fd_used (vfs_fd_table s ! i))) \<or>
     (\<exists>node i s2. r = Some node \<and> fd = int i \<and> 3 \<le> i \<and> i < 256 \<and>
        \<not> fd_used (vfs_fd_table s ! i) \<and> (\<forall>j. 3 \<le> j \<longrightarrow> j < i \<longrightarrow> fd_used (vfs_fd_table s ! j)) \<and>
        s2 = set_fd i (\<lambda>_. opened node flags) s1 \<and> (s' = s2 \<or> (\<exists>f r :: int. call_node f node s2 = Some (r, s')))))"
proof -
  obtain r s1 where r: "vfs_resolve_path path s = Some (r, s1)" using assms(1) by (auto simp: vfs_open_def split: bind_splits)
  note l = vfs_resolve_path_ok [OF r assms(2)]
  then have ok1: "vfs_ok s1" and t: "vfs_fd_table s1 = vfs_fd_table s"
    using grown_vfs_ok [OF assms(2)] by (auto simp: lookup_ok_def grown_from_def)
  show ?thesis
  proof (cases r)
    case None
    then show ?thesis using r l assms(1) by (auto simp: vfs_open_def)
  next
    case (Some node)
    from allocate_fd_cases [OF ok1] show ?thesis
    proof (elim disjE conjE exE)
      assume "allocate_fd s1 = (-1, s1)" "\<forall>i. 3 \<le> i \<longrightarrow> i < 256 \<longrightarrow> fd_used (vfs_fd_table s1 ! i)"
      then show ?thesis using r l assms(1) Some t by (auto simp: vfs_open_def)
    next
      fix i
      assume i: "allocate_fd s1 = (int i, set_fd i (\<lambda>f. f\<lparr>fd_used := True\<rparr>) s1)" "3 \<le> i" "i < 256"
        "\<not> fd_used (vfs_fd_table s1 ! i)" "\<forall>j. 3 \<le> j \<longrightarrow> j < i \<longrightarrow> fd_used (vfs_fd_table s1 ! j)"
      let ?s2 = "set_fd i (\<lambda>_. opened node flags) s1"
      have len: "length (vfs_fd_table s1) = 256" using ok1 by (simp add: vfs_ok_def fds_ok_def)
      have s2: "set_fd i (\<lambda>f. f\<lparr>fd_node := Some node, fd_position := 0, fd_flags := flags\<rparr>) (set_fd i (\<lambda>f. f\<lparr>fd_used := True\<rparr>) s1) = ?s2"
        using i(3) len by (simp add: set_fd_twice opened_eq)
      have "fd = int i \<and> (s' = ?s2 \<or> (\<exists>f r :: int. call_node f node ?s2 = Some (r, s')))"
        using assms(1) r Some i(1) by (auto simp: vfs_open_def s2 Let_def split: option.splits bind_splits)
      then show ?thesis using r l Some i(2-5) t by auto
    qed
  qed
qed


lemma opened_ok: "vfs_ok s \<Longrightarrow> p < length (vnodes s) \<Longrightarrow> 3 \<le> i \<Longrightarrow> vfs_ok (set_fd i (\<lambda>_. opened p flags) s)"
  using set_fd_ok [of s i "\<lambda>_. opened p flags"] by (simp add: fd_ok_def opened_def valid_ptr_def)

lemma call_node_ok: "call_node f p s = Some (r, s') \<Longrightarrow> vfs_ok s \<Longrightarrow> p < length (vnodes s) \<Longrightarrow> vfs_ok s'"
  by (rule grown_vfs_ok [OF _ conjunct1 [OF call_node_grown]])

lemma lookup_vfs_ok: "lookup_ok s r s' \<Longrightarrow> vfs_ok s \<Longrightarrow> vfs_ok s'"
  by (auto simp: lookup_ok_def intro: grown_vfs_ok)

lemma vfs_open_ok:
  assumes "vfs_open path flags s = Some (fd, s')" "vfs_ok s"
  shows "vfs_ok s'"
proof -
  obtain r s1 where r: "lookup_ok s r s1"
    "s' = s1 \<or> (\<exists>node i. r = Some node \<and> 3 \<le> i \<and> (s' = set_fd i (\<lambda>_. opened node flags) s1 \<or>
      (\<exists>f r :: int. call_node f node (set_fd i (\<lambda>_. opened node flags) s1) = Some (r, s'))))"
    using vfs_open_cases [OF assms] by blast
  note ok1 = lookup_vfs_ok [OF r(1) assms(2)]
  from r(2) show ?thesis
  proof (elim disjE exE conjE)
    fix node i f q
    assume n: "r = Some node" "3 \<le> i" "call_node f node (set_fd i (\<lambda>_. opened node flags) s1) = Some (q, s')"
    then have "node < length (vnodes s1)" using r(1) by (simp add: lookup_ok_def valid_ptr_def)
    then show ?thesis using call_node_ok [OF n(3) opened_ok [OF ok1 _ n(2)]] by (simp add: set_fd_def)
  next
    fix node i
    assume "r = Some node" "3 \<le> i" "s' = set_fd i (\<lambda>_. opened node flags) s1"
    then show ?thesis using opened_ok [OF ok1] r(1) by (simp add: lookup_ok_def valid_ptr_def)
  qed (use ok1 in simp)
qed

lemma resolve_vfs_ok: "vfs_resolve_path path s = Some (r, s') \<Longrightarrow> vfs_ok s \<Longrightarrow> vfs_ok s'"
  by (rule lookup_vfs_ok [OF vfs_resolve_path_ok])

lemma resolve_call_ok:
  "vfs_resolve_path path s = Some (Some n, s1) \<Longrightarrow> call_node f n s1 = Some (r, s') \<Longrightarrow> vfs_ok s \<Longrightarrow> vfs_ok s'"
  using vfs_resolve_path_ok [of path s "Some n" s1] resolve_vfs_ok [of path s "Some n" s1] call_node_ok [of f n s1 r s']
  by (simp add: lookup_ok_def valid_ptr_def)

lemma vfs_create_node_ok: "vfs_create_node typ path perm s = Some (r, s') \<Longrightarrow> vfs_ok s \<Longrightarrow> vfs_ok s'"
  by (auto simp: vfs_create_node_def Let_def split: option.split_asm if_split_asm bind_split_asm intro: resolve_vfs_ok resolve_call_ok)

lemma vfs_unlink_ok: "vfs_unlink path s = Some (r, s') \<Longrightarrow> vfs_ok s \<Longrightarrow> vfs_ok s'"
  by (auto simp: vfs_unlink_def Let_def split: option.split_asm if_split_asm bind_split_asm intro: resolve_vfs_ok resolve_call_ok)


lemma full_path_ok: "path_ok cwd \<Longrightarrow> 0 \<notin> set p \<Longrightarrow> full_path cwd p = Some q \<Longrightarrow> path_ok q"
  by (cases cwd) (auto simp: path_ok_def full_path_def Let_def split: if_splits dest: in_set_takeD)

lemma strip_slash_ok: "path_ok p \<Longrightarrow> path_ok (if length p > 1 \<and> last p = 47 then butlast p else p)"
  by (cases p) (auto simp: path_ok_def dest: in_set_butlastD)

lemma str_cpy_ok: "cstr p \<noteq> [] \<Longrightarrow> hd (cstr p) = 47 \<Longrightarrow> path_ok (str_cpy p 256)"
  using cstr_no_nul [of p] by (cases "cstr p") (auto simp: path_ok_def str_cpy_def dest: in_set_takeD)

lemma vfs_chdir_ok:
  assumes "vfs_chdir path s = Some (r, s')" "vfs_ok s"
  shows "vfs_ok s'"
proof (cases path)
  case None
  with assms show ?thesis by (simp add: vfs_chdir_def)
next
  case (Some q)
  let ?abs = "cstr q \<noteq> [] \<and> hd (cstr q) = 47"
  obtain full t s1 where f: "(if ?abs then Some (str_cpy q 256) else full_path (current_path s) (cstr q)) = Some full"
    "vfs_resolve_path (Some (if ?abs then q else full)) s = Some (t, s1)"
    "s' = s1 \<or> (\<exists>target. t = Some target \<and> s' = s1\<lparr>current_dir := Some target,
      current_path := (if length (take 255 full) > 1 \<and> last (take 255 full) = 47 then butlast (take 255 full) else take 255 full)\<rparr>)"
    using assms(1) Some unfolding vfs_chdir_def Let_def
    by (auto split: bind_split_asm option.split_asm if_split_asm)
  have p: "path_ok full"
    using f(1) assms(2) full_path_ok [of "current_path s" "cstr q" full] str_cpy_ok [of q]
    by (auto simp: vfs_ok_def split: if_splits)
  then have t: "take 255 full = full" by (simp add: path_ok_def)
  note l = vfs_resolve_path_ok [OF f(2) assms(2)]
  note ok1 = resolve_vfs_ok [OF f(2) assms(2)]
  have "vfs_ok (s1\<lparr>current_dir := t, current_path := x\<rparr>)" if "path_ok x" for x
    using ok1 l that by (simp add: vfs_ok_def heap_ok_def registry_ok_def lookup_ok_def)
  then show ?thesis using f(3) ok1 strip_slash_ok [OF p] unfolding t by blast
qed

lemma set_fs_ok: "vfs_ok s \<Longrightarrow> vfs_ok (set_fs i priv d s)"
  by (simp add: vfs_ok_def heap_ok_def registry_ok_def set_fs_def)

lemma find_filesystem_valid:
  assumes "find_filesystem t s = Some (Some i)" "vfs_ok s"
  shows "i < length (filesystems s)"
proof -
  obtain k where k: "k < num_filesystems s" "k < length (registered_filesystems s)" "i = the (registered_filesystems s ! k)"
    using assms(1) by (auto simp: find_filesystem_def split: if_splits dest!: find_idx_lt)
  with assms(2) show ?thesis by (auto simp: vfs_ok_def registry_ok_def)
qed

lemma new_root_ok:
  assumes "vfs_ok s" "i < length (filesystems s)"
  shows "vfs_ok ((snd (new_node n i s))\<lparr>root_ptr := Some (length (vnodes s)), current_dir := Some (length (vnodes s))\<rparr>)"
proof -
  have "grown_from s (snd (new_node n i s))"
    using assms by (auto simp: grown_from_def new_node_def vfs_ok_def heap_ok_def)
  then have "vfs_ok (snd (new_node n i s))" by (rule grown_vfs_ok [OF assms(1)])
  then show ?thesis by (simp add: vfs_ok_def heap_ok_def registry_ok_def new_node_def valid_ptr_def)
qed

lemma vfs_mount_ok:
  assumes "vfs_mount t dv m s = Some (r, s')" "vfs_ok s"
  shows "vfs_ok s'"
proof -
  obtain q where q: "find_filesystem t s = Some q" using assms(1) by (auto simp: vfs_mount_def split: bind_splits)
  show ?thesis
  proof (cases q)
    case None
    with q assms show ?thesis by (simp add: vfs_mount_def)
  next
    case (Some i)
    obtain priv d where s': "s' = set_fs i priv d s \<or> s' = (set_fs i priv d s)\<lparr>root_ptr := None\<rparr> \<or>
      (\<exists>n. s' = (snd (new_node n i (set_fs i priv d s)))\<lparr>root_ptr := Some (length (vnodes s)), current_dir := Some (length (vnodes s))\<rparr>)"
      using assms(1) q Some unfolding vfs_mount_def Let_def
      by (auto simp: new_node_def set_fs_def split: bind_split_asm option.split_asm if_split_asm prod.split_asm)
    have ok: "vfs_ok (set_fs i priv d s)" using assms(2) by (rule set_fs_ok)
    then have "vfs_ok ((set_fs i priv d s)\<lparr>root_ptr := None\<rparr>)" by (simp add: vfs_ok_def heap_ok_def registry_ok_def valid_ptr_def)
    moreover have "i < length (filesystems (set_fs i priv d s))" "vnodes (set_fs i priv d s) = vnodes s"
      using find_filesystem_valid [of t s i] q Some assms(2) by (simp_all add: set_fs_def)
    ultimately show ?thesis using s' ok new_root_ok [OF ok] by metis
  qed
qed

lemma vfs_register_ok:
  assumes "vfs_register_filesystem p s = (r, s')" "vfs_ok s" "valid_ptr p (filesystems s)"
  shows "vfs_ok s'"
proof (cases "p = None \<or> num_filesystems s \<ge> 16")
  case True
  with assms show ?thesis by (auto simp: vfs_register_filesystem_def split: if_splits)
next
  case False
  then obtain j where j: "p = Some j" "j < length (filesystems s)" using assms(3) by (auto simp: valid_ptr_def)
  have s': "s' = s\<lparr>registered_filesystems := (registered_filesystems s)[num_filesystems s := p], num_filesystems := num_filesystems s + 1\<rparr>"
    using False assms(1) by (auto simp: vfs_register_filesystem_def)
  have "registry_ok s'"
    using assms(2) False j unfolding vfs_ok_def registry_ok_def s'
    by (auto simp: nth_list_update less_Suc_eq)
  then show ?thesis using assms(2) by (simp add: vfs_ok_def s' heap_ok_def)
qed

lemma readdir_freed:
  assumes "vfs_readdir (Some dir) i s = Some (Some p, s1)" "vfs_ok s" "dir < length (vnodes s)"
  shows "grown_from s (s1\<lparr>vnodes := butlast (vnodes s1)\<rparr>)"
proof -
  obtain f n s0 where c: "call_node f dir s = Some (Some n, s0)" "s1 = snd (new_node n (snd (vnodes s0 ! dir)) s0)"
    using assms(1) by (auto simp: vfs_readdir_def call_lookup_def new_node_def split: option.splits if_splits bind_splits)
  have "s1\<lparr>vnodes := butlast (vnodes s1)\<rparr> = s0" by (simp add: c(2) new_node_def)
  then show ?thesis using call_node_grown [OF c(1) assms(2,3)] by simp
qed

lemma list_entries_grown:
  assumes "list_entries dir i s = Some y" "vfs_ok s" "dir < length (vnodes s)"
  shows "grown_from s (snd y)"
proof -
  have "vfs_ok s \<longrightarrow> dir < length (vnodes s) \<longrightarrow> grown_from s (snd y)"
  proof (rule list_entries.raw_induct [OF _ assms(1)])
    fix rec dir i and s :: "('c, 'd) vfs" and y
    assume IH: "\<And>dir i s y. rec dir i s = Some y \<Longrightarrow> vfs_ok s \<longrightarrow> dir < length (vnodes s) \<longrightarrow> grown_from s (snd y)"
      and step: "Option.bind (vfs_readdir (Some dir) i s) (\<lambda>(r, s).
        case r of None \<Rightarrow> Some ([], s)
        | Some p \<Rightarrow> Option.bind (rec dir (i + 1) (s\<lparr>vnodes := butlast (vnodes s)\<rparr>)) (\<lambda>(es, s').
            Some (((if node_type p s = FILE_TYPE_DIRECTORY then 100 else 102), cstr (n_name (fst (vnodes s ! p))), n_size (fst (vnodes s ! p))) # es, s'))) = Some y"
    show "vfs_ok s \<longrightarrow> dir < length (vnodes s) \<longrightarrow> grown_from s (snd y)"
    proof (intro impI)
      assume ok: "vfs_ok s" "dir < length (vnodes s)"
      obtain r s1 where r: "vfs_readdir (Some dir) i s = Some (r, s1)" using step by (auto split: bind_splits)
      show "grown_from s (snd y)"
      proof (cases r)
        case None
        then show ?thesis using step r vfs_readdir_ok [OF r ok(1)] ok(2) by (auto simp: lookup_ok_def valid_ptr_def)
      next
        case (Some p)
        let ?s = "s1\<lparr>vnodes := butlast (vnodes s1)\<rparr>"
        have g: "grown_from s ?s" using readdir_freed [of dir i s p s1] r Some ok by simp
        obtain es s' where "rec dir (i + 1) ?s = Some (es, s')" "snd y = s'"
          using step r Some by (auto split: bind_splits)
        then have "grown_from ?s (snd y)" using IH [of dir "i + 1" ?s "(es, s')"] grown_vfs_ok [OF ok(1) g] g ok(2)
          by (simp add: grown_from_def)
        then show ?thesis by (rule grown_from_trans [OF g])
      qed
    qed
  qed
  with assms show ?thesis by simp
qed

lemma vfs_list_directory_ok:
  assumes "vfs_list_directory path s = Some (r, s')" "vfs_ok s"
  shows "vfs_ok s'"
proof -
  obtain d s1 where d: "vfs_resolve_path path s = Some (d, s1)" using assms(1) by (auto simp: vfs_list_directory_def split: bind_splits)
  note ok1 = resolve_vfs_ok [OF d assms(2)]
  have "s' = s1 \<or> (\<exists>dir es. d = Some dir \<and> list_entries dir 0 s1 = Some (es, s'))"
    using assms(1) d by (auto simp: vfs_list_directory_def split: option.splits if_splits bind_splits)
  then show ?thesis
  proof (elim disjE exE conjE)
    fix dir es
    assume "d = Some dir" "list_entries dir 0 s1 = Some (es, s')"
    then show ?thesis
      using list_entries_grown [of dir 0 s1 "(es, s')"] ok1 vfs_resolve_path_ok [OF d assms(2)] grown_vfs_ok
      by (auto simp: lookup_ok_def valid_ptr_def)
  qed (use ok1 in simp)
qed

lemma vfs_statfs_ok: "vfs_statfs path s = Some (r, stats, s') \<Longrightarrow> vfs_ok s \<Longrightarrow> vfs_ok s'"
  by (auto simp: vfs_statfs_def Let_def split: option.splits bind_splits prod.splits intro: resolve_vfs_ok)

lemmas vfs_operations_ok = vfs_mount_ok vfs_open_ok vfs_close_ok vfs_read_ok vfs_write_ok vfs_seek_ok
  vfs_create_node_ok vfs_unlink_ok vfs_chdir_ok vfs_list_directory_ok vfs_statfs_ok

section \<open>Steps of the system and the map of open files\<close>

text \<open>
  What a call does to the set of open files, as its caller sees it: a descriptor appears, disappears,
  moves forward by the bytes transferred, or is positioned; every other call is silent.
\<close>

datatype fd_event = Quiet | Opened int nat | Closed int | Transferred int int | Sought int u32

definition fd_at :: "('s, 'd) vfs \<Rightarrow> int \<Rightarrow> file_descriptor" where
  "fd_at s fd = vfs_fd_table s ! nat fd"

inductive vfs_step :: "('s, 'd) vfs \<Rightarrow> fd_event \<Rightarrow> ('s, 'd) vfs \<Rightarrow> bool" where
  register: "vfs_register_filesystem p s = (r, s') \<Longrightarrow> valid_ptr p (filesystems s) \<Longrightarrow> vfs_step s Quiet s'"
| mount: "vfs_mount t dv m s = Some (r, s') \<Longrightarrow> vfs_step s Quiet s'"
| "open": "vfs_open path flags s = Some (fd, s') \<Longrightarrow> vfs_step s (if fd < 0 then Quiet else Opened fd (the (fd_node (fd_at s' fd)))) s'"
| close: "vfs_close fd s = Some (r, s') \<Longrightarrow> vfs_step s (if r < 0 then Quiet else Closed fd) s'"
| read: "vfs_read fd buf sz s = Some (r, buf', s') \<Longrightarrow> vfs_step s (if r > 0 then Transferred fd r else Quiet) s'"
| "write": "vfs_write fd buf s = Some (r, s') \<Longrightarrow> vfs_step s (if r > 0 then Transferred fd r else Quiet) s'"
| seek: "vfs_seek fd off wh s = Some (r, s') \<Longrightarrow>
    vfs_step s (if open_fd fd s \<and> wh \<in> {SEEK_SET, SEEK_CUR, SEEK_END} then Sought fd (fd_position (fd_at s' fd)) else Quiet) s'"
| create: "vfs_create path perm s = Some (r, s') \<Longrightarrow> vfs_step s Quiet s'"
| mkdir: "vfs_mkdir path perm s = Some (r, s') \<Longrightarrow> vfs_step s Quiet s'"
| unlink: "vfs_unlink path s = Some (r, s') \<Longrightarrow> vfs_step s Quiet s'"
| chdir: "vfs_chdir path s = Some (r, s') \<Longrightarrow> vfs_step s Quiet s'"
| list: "vfs_list_directory path s = Some (es, s') \<Longrightarrow> vfs_step s Quiet s'"
| statfs: "vfs_statfs path s = Some (r, stats, s') \<Longrightarrow> vfs_step s Quiet s'"

inductive vfs_reachable :: "('s, 'd) vfs \<Rightarrow> ('s, 'd) vfs \<Rightarrow> bool" for s0 where
  start: "vfs_reachable s0 s0"
| step: "vfs_reachable s0 s \<Longrightarrow> vfs_step s e s' \<Longrightarrow> vfs_reachable s0 s'"

lemma vfs_step_ok: "vfs_step s e s' \<Longrightarrow> vfs_ok s \<Longrightarrow> vfs_ok s'"
  by (induction rule: vfs_step.induct) (auto simp: vfs_create_def vfs_mkdir_def intro: vfs_operations_ok vfs_register_ok)

text \<open>The state before initialisation: the static variables of the source, with given file systems and device.\<close>

definition vfs_boot :: "('s, 'd) filesystem list \<Rightarrow> 'd \<Rightarrow> (nat \<Rightarrow> vfs_node option) \<Rightarrow> ('s, 'd) vfs" where
  "vfs_boot fss d mem = \<lparr>root_ptr = None, current_dir = None, current_path = [47], vfs_fd_table = replicate 256 closed_fd,
     registered_filesystems = replicate 16 None, num_filesystems = 0, vnodes = [], filesystems = fss, dev = d, node_mem = mem\<rparr>"

text \<open>
  C28: From initialisation on, whatever sequence of calls is made and whatever the file systems do, the
  state stays well formed: descriptors 0 to 2 are never handed out, every open descriptor has a valid
  node and every closed one none, the registry holds only registered file systems, and the working
  directory path is absolute, at most 255 characters long and free of NULs.
\<close>

theorem vfs_reachable_ok:
  assumes "vfs_reachable (vfs_init (vfs_boot fss d mem)) s"
  shows "vfs_ok s"
  using assms
proof induction
  case start
  show ?case
    by (simp add: vfs_ok_def heap_ok_def registry_ok_def fds_ok_def path_ok_def vfs_init_def vfs_boot_def fd_ok_def
      closed_fd_def valid_ptr_def MAX_OPEN_FILES_def)
next
  case (step s e s')
  then show ?case by (blast intro: vfs_step_ok)
qed


section \<open>The table implements a finite map\<close>

type_synonym fd_map = "int \<Rightarrow> (nat \<times> u32) option"

definition abs_fds :: "('s, 'd) vfs \<Rightarrow> fd_map" where
  "abs_fds s fd = (if open_fd fd s then Some (the (fd_node (fd_at s fd)), fd_position (fd_at s fd)) else None)"

definition lowest_free :: "fd_map \<Rightarrow> int option" where
  "lowest_free m = find (\<lambda>fd. m fd = None) (map int [3..<256])"

inductive fd_step :: "fd_map \<Rightarrow> fd_event \<Rightarrow> fd_map \<Rightarrow> bool" where
  quiet: "fd_step m Quiet m"
| opened: "lowest_free m = Some fd \<Longrightarrow> fd_step m (Opened fd node) (m(fd \<mapsto> (node, 0)))"
| closed: "m fd \<noteq> None \<Longrightarrow> fd_step m (Closed fd) (m(fd := None))"
| transferred: "m fd = Some (node, pos) \<Longrightarrow> 0 < n \<Longrightarrow> fd_step m (Transferred fd n) (m(fd \<mapsto> (node, pos + of_int n)))"
| sought: "m fd = Some (node, pos) \<Longrightarrow> fd_step m (Sought fd pos') (m(fd \<mapsto> (node, pos')))"

lemma abs_fds_cong: "vfs_fd_table s' = vfs_fd_table s \<Longrightarrow> abs_fds s' = abs_fds s"
  by (simp add: abs_fds_def open_fd_def fd_at_def fun_eq_iff)

lemma abs_fds_grown: "grown_from s s' \<Longrightarrow> abs_fds s' = abs_fds s"
  by (rule abs_fds_cong) (simp add: grown_from_def)

lemma abs_fds_set:
  assumes "length (vfs_fd_table s) = 256" "0 \<le> fd" "fd < 256"
  shows "abs_fds (set_fd (nat fd) g s) = (abs_fds s)(fd :=
    (if fd_used (g (fd_at s fd)) then Some (the (fd_node (g (fd_at s fd))), fd_position (g (fd_at s fd))) else None))"
proof
  fix k
  have "nat k = nat fd \<longleftrightarrow> k = fd" if "0 \<le> k" using that assms(2) by auto
  then show "abs_fds (set_fd (nat fd) g s) k = ((abs_fds s)(fd :=
    (if fd_used (g (fd_at s fd)) then Some (the (fd_node (g (fd_at s fd))), fd_position (g (fd_at s fd))) else None))) k"
    using assms by (cases "k < 0") (auto simp: abs_fds_def open_fd_def fd_at_def set_fd_def MAX_OPEN_FILES_def)
qed

lemma vfs_ok_length [simp]: "vfs_ok s \<Longrightarrow> length (vfs_fd_table s) = 256"
  by (simp add: vfs_ok_def fds_ok_def)

lemma find_append_None: "find P xs = None \<Longrightarrow> find P (xs @ ys) = find P ys"
  by (induction xs) (auto split: if_splits)

lemma find_first:
  assumes "3 \<le> i" "i < 256" "P (int i)" "\<And>j. 3 \<le> j \<Longrightarrow> j < i \<Longrightarrow> \<not> P (int j)"
  shows "find P (map int [3..<256]) = Some (int i)"
proof -
  have "[3..<256] = [3..<i] @ i # [Suc i..<256]"
    using assms(1,2) upt_add_eq_append [of 3 i "256 - i"] by (simp add: upt_rec [of i] del: upt_rec_numeral)
  then have split: "map int [3..<256] = map int [3..<i] @ int i # map int [Suc i..<256]" by simp
  have "find P (map int [3..<i]) = None" using assms(4) by (auto simp: find_None_iff)
  with assms(3) show ?thesis unfolding split by (simp add: find_append_None)
qed

lemma lowest_free_fd:
  assumes "3 \<le> i" "i < 256" "\<not> fd_used (vfs_fd_table s ! i)" "\<forall>j. 3 \<le> j \<longrightarrow> j < i \<longrightarrow> fd_used (vfs_fd_table s ! j)"
  shows "lowest_free (abs_fds s) = Some (int i)"
  unfolding lowest_free_def
  by (rule find_first [OF assms(1,2)]) (use assms in \<open>auto simp: abs_fds_def open_fd_def MAX_OPEN_FILES_def\<close>)

lemma call_table: "call_node f p s = Some (r, s1) \<Longrightarrow> vfs_fd_table s1 = vfs_fd_table s"
  by (auto simp: call_node_def set_fs_def split: bind_splits prod.splits)

lemma open_simulates:
  assumes "vfs_open path flags s = Some (fd, s')" "vfs_ok s"
  shows "fd_step (abs_fds s) (if fd < 0 then Quiet else Opened fd (the (fd_node (fd_at s' fd)))) (abs_fds s')"
proof -
  obtain r s1 where r: "lookup_ok s r s1"
    "fd = -1 \<and> s' = s1 \<or> (\<exists>node i s2. r = Some node \<and> fd = int i \<and> 3 \<le> i \<and> i < 256 \<and>
        \<not> fd_used (vfs_fd_table s ! i) \<and> (\<forall>j. 3 \<le> j \<longrightarrow> j < i \<longrightarrow> fd_used (vfs_fd_table s ! j)) \<and>
        s2 = set_fd i (\<lambda>_. opened node flags) s1 \<and> (s' = s2 \<or> (\<exists>f r :: int. call_node f node s2 = Some (r, s'))))"
    using vfs_open_cases [OF assms] by blast
  have a1: "abs_fds s1 = abs_fds s" using r(1) by (simp add: lookup_ok_def abs_fds_grown)
  note ok1 = lookup_vfs_ok [OF r(1) assms(2)]
  show ?thesis
  proof (cases "fd = -1 \<and> s' = s1")
    case True
    then show ?thesis using a1 fd_step.quiet by simp
  next
    case False
    then obtain node i s2 where n: "r = Some node" "fd = int i" "3 \<le> i" "i < 256" "\<not> fd_used (vfs_fd_table s ! i)"
      "\<forall>j. 3 \<le> j \<longrightarrow> j < i \<longrightarrow> fd_used (vfs_fd_table s ! j)" "s2 = set_fd i (\<lambda>_. opened node flags) s1"
      and s': "s' = s2 \<or> (\<exists>f r :: int. call_node f node s2 = Some (r, s'))"
      using r(2) by blast
    have p: "node < length (vnodes s1)" using r(1) n(1) by (simp add: lookup_ok_def valid_ptr_def)
    have tab: "vfs_fd_table s' = vfs_fd_table s2" using s' by (auto dest: call_table)
    have "abs_fds s' = (abs_fds s)(fd \<mapsto> (node, 0))"
      using abs_fds_cong [OF tab] abs_fds_set [of s1 "int i" "\<lambda>_. opened node flags"] ok1 n(2-4) a1
      by (simp add: n(7) opened_def)
    moreover have "fd_node (fd_at s' fd) = Some node"
      using tab n(2-4) ok1 by (simp add: fd_at_def n(7) set_fd_def opened_def)
    ultimately show ?thesis using fd_step.opened [OF lowest_free_fd [OF n(3-6)]] n(2) by simp
  qed
qed

lemma close_simulates:
  assumes "vfs_close fd s = Some (r, s')" "vfs_ok s"
  shows "fd_step (abs_fds s) (if r < 0 then Quiet else Closed fd) (abs_fds s')"
proof (cases "open_fd fd s")
  case False
  with assms show ?thesis by (simp add: vfs_close_def fd_step.quiet)
next
  case True
  note b = open_fdD [OF True assms(2)]
  obtain s1 where s1: "s1 = s \<or> (\<exists>p f r. fd_target fd op_close s = Some (p, f) \<and> call_node f p s = Some (r, s1))"
    "r = 0" "s' = set_fd (nat fd) (\<lambda>f. f\<lparr>fd_used := False, fd_node := None, fd_position := 0\<rparr>) s1"
  proof (cases "fd_target fd op_close s")
    case None
    with assms(1) True that [of s] show ?thesis by (auto simp: vfs_close_def)
  next
    case (Some a)
    with assms(1) True that show ?thesis by (cases a) (auto simp: vfs_close_def split: bind_splits)
  qed
  from s1(1) have g: "grown_from s s1"
    by (elim disjE exE conjE) (simp add: grown_from_refl assms(2), erule (1) fd_call_grown [OF _ _ True assms(2)])
  have "abs_fds s' = (abs_fds s)(fd := None)"
    using abs_fds_set [of s1 fd] grown_vfs_ok [OF assms(2) g] b(1,2) abs_fds_grown [OF g] by (simp add: s1(3))
  moreover have "abs_fds s fd \<noteq> None" using True by (simp add: abs_fds_def)
  ultimately show ?thesis using fd_step.closed [of "abs_fds s" fd] s1(2) by simp
qed

lemma transfer_simulates:
  assumes "fd_target fd entry s = Some (p, f)" "call_node g p s = Some (x, s1)" "open_fd fd s" "vfs_ok s"
  shows "fd_step (abs_fds s) (if r > 0 then Transferred fd r else Quiet) (abs_fds (advance fd r s1))"
proof -
  note g = fd_call_grown [OF assms]
  note b = open_fdD [OF assms(3,4)]
  have at: "fd_at s1 fd = fd_at s fd" using g by (simp add: fd_at_def grown_from_def)
  obtain node where node: "abs_fds s fd = Some (node, fd_position (fd_at s fd))" "fd_node (fd_at s fd) = Some node"
    using assms(3) b(4) by (auto simp: abs_fds_def fd_at_def)
  have "abs_fds (advance fd r s1) = (if r > 0 then (abs_fds s)(fd \<mapsto> (node, fd_position (fd_at s fd) + of_int r)) else abs_fds s)"
    using abs_fds_set [of s1 fd] grown_vfs_ok [OF assms(4) g] b(1-3) abs_fds_grown [OF g] node(2)
    by (simp add: advance_def at) (simp add: fd_at_def)
  then show ?thesis using fd_step.transferred [of "abs_fds s" fd, OF node(1), of r] fd_step.quiet by simp
qed


lemma seek_simulates:
  assumes "vfs_seek fd off wh s = Some (r, s')" "vfs_ok s"
  shows "fd_step (abs_fds s) (if open_fd fd s \<and> wh \<in> {SEEK_SET, SEEK_CUR, SEEK_END} then Sought fd (fd_position (fd_at s' fd)) else Quiet) (abs_fds s')"
proof (cases "open_fd fd s \<and> wh \<in> {SEEK_SET, SEEK_CUR, SEEK_END}")
  case False
  with assms(1) have "s' = s" by (auto simp: vfs_seek_def split: if_splits)
  with False show ?thesis unfolding if_not_P [OF False] by (simp add: fd_step.quiet)
next
  case True
  note b = open_fdD [OF conjunct1 [OF True] assms(2)]
  obtain pos where s': "s' = set_fd (nat fd) (\<lambda>f. f\<lparr>fd_position := pos\<rparr>) s"
    using assms(1) True by (auto simp: vfs_seek_def Let_def split: if_splits bind_splits)
  obtain node where node: "abs_fds s fd = Some (node, fd_position (fd_at s fd))" "fd_node (fd_at s fd) = Some node"
    using True b(4) by (auto simp: abs_fds_def fd_at_def)
  have "abs_fds s' = (abs_fds s)(fd \<mapsto> (node, pos))" "fd_position (fd_at s' fd) = pos"
    using abs_fds_set [of s fd "\<lambda>f. f\<lparr>fd_position := pos\<rparr>"] b(1-3) assms(2) node(2)
    by (simp_all add: s' fd_at_def set_fd_def)
  then show ?thesis using True fd_step.sought [of "abs_fds s" fd, OF node(1), of pos] by simp
qed

lemma read_simulates:
  assumes "vfs_read fd buf sz s = Some (r, buf', s')" "vfs_ok s"
  shows "fd_step (abs_fds s) (if r > 0 then Transferred fd r else Quiet) (abs_fds s')"
proof (cases "open_fd fd s \<and> fd_target fd op_read s \<noteq> None")
  case False
  with assms(1) show ?thesis by (cases "fd_target fd op_read s") (auto simp: vfs_read_def fd_step.quiet split: if_splits)
next
  case True
  then obtain p f where t: "fd_target fd op_read s = Some (p, f)" by auto
  then obtain s1 where s1: "call_node (f buf sz (fd_position (vfs_fd_table s ! nat fd))) p s = Some ((r, buf'), s1)" "s' = advance fd r s1"
    using assms(1) True by (auto simp: vfs_read_def split: bind_splits)
  show ?thesis unfolding s1(2) by (rule transfer_simulates [OF t s1(1) conjunct1 [OF True] assms(2)])
qed

lemma write_simulates:
  assumes "vfs_write fd buf s = Some (r, s')" "vfs_ok s"
  shows "fd_step (abs_fds s) (if r > 0 then Transferred fd r else Quiet) (abs_fds s')"
proof (cases "open_fd fd s \<and> fd_target fd op_write s \<noteq> None")
  case False
  with assms(1) show ?thesis by (cases "fd_target fd op_write s") (auto simp: vfs_write_def fd_step.quiet split: if_splits)
next
  case True
  then obtain p f where t: "fd_target fd op_write s = Some (p, f)" by auto
  then obtain s1 where s1: "call_node (f buf (fd_position (vfs_fd_table s ! nat fd))) p s = Some (r, s1)" "s' = advance fd r s1"
    using assms(1) True by (auto simp: vfs_write_def split: bind_splits)
  show ?thesis unfolding s1(2) by (rule transfer_simulates [OF t s1(1) conjunct1 [OF True] assms(2)])
qed

text \<open>The remaining operations leave the table of open files alone.\<close>

lemma resolve_table: "vfs_resolve_path path s = Some (r, s1) \<Longrightarrow> vfs_ok s \<Longrightarrow> vfs_fd_table s1 = vfs_fd_table s"
  by (drule vfs_resolve_path_ok) (simp_all add: lookup_ok_def grown_from_def)

lemma mount_table: "vfs_mount t dv m s = Some (r, s') \<Longrightarrow> vfs_fd_table s' = vfs_fd_table s"
  by (auto simp: vfs_mount_def Let_def new_node_def set_fs_def split: bind_splits option.splits if_splits)

lemma create_table: "vfs_create_node typ path perm s = Some (r, s') \<Longrightarrow> vfs_ok s \<Longrightarrow> vfs_fd_table s' = vfs_fd_table s"
  by (auto simp: vfs_create_node_def Let_def split: option.split_asm if_split_asm bind_split_asm dest!: resolve_table call_table)

lemma unlink_table: "vfs_unlink path s = Some (r, s') \<Longrightarrow> vfs_ok s \<Longrightarrow> vfs_fd_table s' = vfs_fd_table s"
  by (auto simp: vfs_unlink_def Let_def split: option.split_asm if_split_asm bind_split_asm dest!: resolve_table call_table)

lemma chdir_table: "vfs_chdir path s = Some (r, s') \<Longrightarrow> vfs_ok s \<Longrightarrow> vfs_fd_table s' = vfs_fd_table s"
  by (auto simp: vfs_chdir_def Let_def split: option.split_asm if_split_asm bind_split_asm dest!: resolve_table)

lemma statfs_table: "vfs_statfs path s = Some (r, stats, s') \<Longrightarrow> vfs_ok s \<Longrightarrow> vfs_fd_table s' = vfs_fd_table s"
  by (auto simp: vfs_statfs_def Let_def split: option.split_asm bind_split_asm prod.splits dest!: resolve_table)

lemma list_table:
  assumes "vfs_list_directory path s = Some (r, s')" "vfs_ok s"
  shows "vfs_fd_table s' = vfs_fd_table s"
proof -
  obtain d s1 where d: "vfs_resolve_path path s = Some (d, s1)" using assms(1) by (auto simp: vfs_list_directory_def split: bind_splits)
  note l = vfs_resolve_path_ok [OF d assms(2)] and ok1 = resolve_vfs_ok [OF d assms(2)]
  have "s' = s1 \<or> (\<exists>dir es. d = Some dir \<and> list_entries dir 0 s1 = Some (es, s'))"
    using assms(1) d by (auto simp: vfs_list_directory_def split: option.splits if_splits bind_splits)
  then have "grown_from s1 s'"
    using list_entries_grown [OF _ ok1] grown_from_refl [OF ok1] l by (fastforce simp: lookup_ok_def valid_ptr_def)
  then show ?thesis using l by (simp add: lookup_ok_def grown_from_def)
qed

lemmas quiet_tables = mount_table create_table unlink_table chdir_table statfs_table list_table

lemma quiet_simulates: "vfs_fd_table s' = vfs_fd_table s \<Longrightarrow> fd_step (abs_fds s) Quiet (abs_fds s')"
  by (drule abs_fds_cong) (simp add: fd_step.quiet)

text \<open>
  C6: The table of open files implements the abstract map from descriptors to nodes and positions: every
  call of the virtual file system is matched by the abstract step of its event, in which opening takes
  the lowest free descriptor from 3 on, closing removes exactly that descriptor, transfers advance
  only its position, and every failing or other call changes nothing.
\<close>

theorem fd_table_refinement:
  assumes "vfs_step s e s'" and "vfs_ok s"
  shows "fd_step (abs_fds s) e (abs_fds s')"
  using assms
proof induction
  case (register p s r s')
  then show ?case by (auto simp: vfs_register_filesystem_def intro!: quiet_simulates split: if_splits)
next
  case (seek fd off wh s r s')
  then show ?case by (intro seek_simulates)
next
  case (list path s es s')
  then show ?case by (intro quiet_simulates list_table)
qed (simp_all add: open_simulates close_simulates read_simulates write_simulates
  quiet_simulates quiet_tables vfs_create_def vfs_mkdir_def)


section \<open>A small instance\<close>

definition demo_fs :: "(unit, unit) filesystem" where
  "demo_fs = \<lparr>fs_name = [114, 0], fs_ops = \<lparr>fs_mount = (\<lambda>_ p d. Some (0, p, d)), fs_unmount = (\<lambda>p d. Some (0, p, d)),
     fs_get_root = (\<lambda>_. Some root_node), fs_get_stats = None\<rparr>, fs_private_data = (), fs_node_ops = None\<rparr>"

definition demo_registered :: "(unit, unit) vfs" where
  "demo_registered = snd (vfs_register_filesystem (Some 0) (vfs_init (vfs_boot [demo_fs] () (\<lambda>_. None))))"

definition demo_mounted :: "(unit, unit) vfs" where
  "demo_mounted = demo_registered\<lparr>root_ptr := Some 0, current_dir := Some 0, vnodes := [(root_node, 0)]\<rparr>"

lemma demo_mount: "vfs_mount [114, 0] [] [47, 0] demo_registered = Some (0, demo_mounted)"
proof -
  have r: "take (num_filesystems demo_registered) (registered_filesystems demo_registered) = [Some 0]" "registered_filesystems demo_registered ! 0 = Some 0"
    by (simp_all add: demo_registered_def vfs_register_filesystem_def vfs_init_def vfs_boot_def numeral_eq_Suc)
  have f: "filesystems demo_registered = [demo_fs]"
    by (simp add: demo_registered_def vfs_register_filesystem_def vfs_init_def vfs_boot_def)
  have "find_filesystem [114, 0] demo_registered = Some (Some 0)"
    by (simp add: find_filesystem_def r f demo_fs_def)
  then show ?thesis
    by (simp add: vfs_mount_def f demo_mounted_def demo_fs_def set_fs_def new_node_def cstr_def Let_def)
      (simp add: demo_registered_def vfs_register_filesystem_def vfs_init_def vfs_boot_def demo_fs_def)
qed

lemma demo_reachable: "vfs_reachable (vfs_init (vfs_boot [demo_fs] () (\<lambda>_. None))) demo_mounted"
proof (rule vfs_reachable.step)
  show "vfs_reachable (vfs_init (vfs_boot [demo_fs] () (\<lambda>_. None))) demo_registered"
    by (rule vfs_reachable.step [OF vfs_reachable.start vfs_step.register [of "Some 0" _ 0]])
      (simp_all add: demo_registered_def vfs_register_filesystem_def vfs_init_def vfs_boot_def valid_ptr_def)
qed (rule vfs_step.mount [OF demo_mount])

theorem vfs_reachable_ok_witness: "vfs_ok demo_mounted"
  by (rule vfs_reachable_ok [OF demo_reachable])

lemma demo_open: "vfs_open (Some [47, 0]) 1 demo_mounted = Some (3, set_fd 3 (\<lambda>_. opened 0 1) demo_mounted)"
proof -
  have "allocate_fd demo_mounted = (3, set_fd 3 (\<lambda>f. f\<lparr>fd_used := True\<rparr>) demo_mounted)"
    by (simp add: allocate_fd_def demo_mounted_def demo_registered_def vfs_register_filesystem_def vfs_init_def vfs_boot_def
      MAX_OPEN_FILES_def closed_fd_def numeral_eq_Suc)
  moreover have "length (vfs_fd_table demo_mounted) = 256"
    by (simp add: demo_mounted_def demo_registered_def vfs_register_filesystem_def vfs_init_def vfs_boot_def MAX_OPEN_FILES_def)
  moreover have "vfs_resolve_path (Some [47, 0]) demo_mounted = Some (Some 0, demo_mounted)"
    by (simp add: vfs_resolve_path_def demo_mounted_def cstr_def)
  moreover have "node_ops 0 (set_fd 3 (\<lambda>_. opened 0 1) demo_mounted) = None"
    by (simp add: node_ops_def set_fd_def demo_mounted_def demo_registered_def vfs_register_filesystem_def vfs_init_def vfs_boot_def demo_fs_def)
  ultimately show ?thesis by (simp add: vfs_open_def set_fd_twice opened_eq Let_def)
qed

lemma demo_ok: "vfs_ok demo_mounted"
  by (simp add: vfs_ok_def heap_ok_def registry_ok_def fds_ok_def path_ok_def vfs_init_def vfs_boot_def fd_ok_def
    closed_fd_def valid_ptr_def MAX_OPEN_FILES_def demo_mounted_def demo_registered_def vfs_register_filesystem_def)

theorem fd_table_refinement_witness:
  "fd_step (abs_fds demo_mounted) (Opened 3 0) (abs_fds (set_fd 3 (\<lambda>_. opened 0 1) demo_mounted))"
  using fd_table_refinement [OF vfs_step.open [OF demo_open] demo_ok] demo_ok
  by (simp add: fd_at_def set_fd_def opened_def)

end
