(* ===== verification/VFS_TinyFS.thy ===== *)
theory VFS_TinyFS
  imports VFS_Table
begin

text \<open>
  TinyFS behind the virtual file system: its operation tables, and the operations on paths and
  descriptors composed with the file system and a block device.
\<close>

section \<open>The operation tables\<close>

definition tinyfs_open :: "vfs_node \<Rightarrow> u32 \<Rightarrow> int" where
  "tinyfs_open node flags = 0"

definition tinyfs_close :: "vfs_node \<Rightarrow> int" where
  "tinyfs_close node = 0"

text \<open>\<open>bb\<close> is the uninitialised block buffer on the stack of \<open>tinyfs_read\<close> and \<open>tinyfs_write\<close>.\<close>

definition tinyfs_vfs_ops :: "'d block_ops \<Rightarrow> bytes \<Rightarrow> (tinyfs_data option, 'd) vfs_operations" where
  "tinyfs_vfs_ops ops bb = \<lparr>
     op_open = Some (\<lambda>flags n pd d. Some (tinyfs_open n flags, n, pd, d)),
     op_close = Some (\<lambda>n pd d. Some (tinyfs_close n, n, pd, d)),
     op_read = Some (\<lambda>buffer sz off n pd d. map_option (\<lambda>(r, buffer, d). ((r, buffer), n, pd, d)) (tinyfs_read ops pd (Some n) buffer sz off bb d)),
     op_write = Some (\<lambda>buffer off n pd d. map_option (\<lambda>(r, pd, n', d). (r, case n' of None \<Rightarrow> n | Some n' \<Rightarrow> n', pd, d)) (tinyfs_write ops pd (Some n) buffer off bb d)),
     op_readdir = Some (\<lambda>i mem n pd d. Some (tinyfs_readdir pd (Some n) i mem, n, pd, d)),
     op_finddir = Some (\<lambda>name mem n pd d. Some (tinyfs_finddir pd (Some n) name mem, n, pd, d)),
     op_create = Some (\<lambda>name typ perm n pd d. map_option (\<lambda>(r, pd, d). (r, n, pd, d)) (tinyfs_create_node ops pd (Some n) name typ perm d)),
     op_unlink = Some (\<lambda>name n pd d. map_option (\<lambda>(r, pd, d). (r, n, pd, d)) (tinyfs_unlink ops pd (Some n) name d))\<rparr>"

text \<open>\<open>mem\<close> and \<open>buf\<close> are the fresh structure and the sector buffer of \<open>tinyfs_mount\<close>; a failed mount leaves the private data alone.\<close>

definition tinyfs_fs_ops :: "'d block_ops \<Rightarrow> tinyfs_data option \<Rightarrow> bytes \<Rightarrow> (tinyfs_data option, 'd) filesystem_operations" where
  "tinyfs_fs_ops ops mem buf = \<lparr>
     fs_mount = (\<lambda>devname pd d. map_option (\<lambda>(r, data, d). (r, if r = 0 then data else pd, d)) (tinyfs_mount ops mem buf devname d)),
     fs_unmount = tinyfs_unmount ops,
     fs_get_root = tinyfs_get_root,
     fs_get_stats = Some tinyfs_get_stats\<rparr>"

definition tinyfs_create :: "'d block_ops \<Rightarrow> tinyfs_data option \<Rightarrow> bytes \<Rightarrow> bytes \<Rightarrow> bool \<Rightarrow> (tinyfs_data option, 'd) filesystem option" where
  "tinyfs_create ops mem buf bb allocated =
     (if \<not> allocated then None
      else Some \<lparr>fs_name = strcpy_safe (replicate 32 0) (of_string ''tinyfs'') 32, fs_ops = tinyfs_fs_ops ops mem buf,
        fs_private_data = None, fs_node_ops = Some (tinyfs_vfs_ops ops bb)\<rparr>)"

section \<open>Calls on a mounted TinyFS\<close>

text \<open>The state has TinyFS as file system \<open>k\<close>, mounted with the given tables.\<close>

definition tinyfs_at :: "'d block_ops \<Rightarrow> bytes \<Rightarrow> nat \<Rightarrow> tinyfs_data \<Rightarrow> 'd \<Rightarrow> (tinyfs_data option, 'd) vfs \<Rightarrow> bool" where
  "tinyfs_at ops bb k data d s \<longleftrightarrow> k < length (filesystems s) \<and> fs_private_data (filesystems s ! k) = Some data \<and>
     fs_node_ops (filesystems s ! k) = Some (tinyfs_vfs_ops ops bb) \<and> dev s = d"

text \<open>The root directory is node \<open>r\<close>.\<close>

definition root_at :: "nat \<Rightarrow> vfs_node \<Rightarrow> nat \<Rightarrow> ('s, 'd) vfs \<Rightarrow> bool" where
  "root_at r n k s \<longleftrightarrow> root_ptr s = Some r \<and> r < length (vnodes s) \<and> vnodes s ! r = (n, k) \<and> n_type n = FILE_TYPE_DIRECTORY"

lemma tinyfs_at_set_fs: "tinyfs_at ops bb k data d s \<Longrightarrow> tinyfs_at ops bb k data' d' (set_fs k (Some data') d' s)"
  by (simp add: tinyfs_at_def set_fs_def)

lemma tinyfs_at_cong:
  "filesystems s' = filesystems s \<Longrightarrow> dev s' = dev s \<Longrightarrow> tinyfs_at ops bb k data d s' = tinyfs_at ops bb k data d s"
  by (simp add: tinyfs_at_def)

lemma call_node_at:
  assumes "vnodes s ! p = (n, k)" "f n (fs_private_data (filesystems s ! k)) (dev s) = Some (r, n', priv, d)"
  shows "call_node f p s = Some (r, (set_fs k priv d s)\<lparr>vnodes := (vnodes s)[p := (n', k)]\<rparr>)"
  using assms by (simp add: call_node_def)

lemma last_slash_plain: "47 \<notin> set cs \<Longrightarrow> last_slash cs i r = r"
  by (induction cs arbitrary: i r) auto

lemma split_slash_plain: "47 \<notin> set cs \<Longrightarrow> split_slash cs cur = [cur @ cs]"
  by (induction cs arbitrary: cur) auto

lemma tokenize_plain:
  assumes "name \<noteq> []" "0 \<notin> set name" "47 \<notin> set name" "length name \<le> 255"
  shows "tokenize_path (47 # name) = Some [name]"
proof -
  have "path_components name = [name]" using assms by (simp add: path_components_def split_slash_plain)
  then show ?thesis
    using tokenize_loop_components [of "[]" "[]" name] assms(2) by (simp add: tokenize_path_def path_components_def cstr_id Let_def)
qed

lemma root_resolves: "root_at r n k s \<Longrightarrow> vfs_resolve_path (Some [47]) s = Some (Some r, s)"
  by (simp add: vfs_resolve_path_def root_at_def cstr_def)

lemma plain_parent:
  assumes "0 \<notin> set name" "47 \<notin> set name"
  shows "cstr (47 # name) = 47 # name" "last_slash (47 # name) 0 (-1) = 0" "parent_path (47 # name) 0 = Some [47]"
    "length name \<le> 255 \<Longrightarrow> base_name (47 # name) 0 = name"
  using assms by (simp_all add: cstr_id last_slash_plain parent_path_def base_name_def MAX_FILENAME_def)

lemma list_update_same: "xs ! i = x \<Longrightarrow> xs[i := x] = xs"
  by auto

lemma vfs_create_at:
  assumes "tinyfs_at ops bb k data d s" "root_at r n k s"
    and "0 \<notin> set name" "47 \<notin> set name" "length name \<le> 255"
    and "tinyfs_create_node ops (Some data) (Some n) name typ perm d = Some (x, Some data', d')"
  shows "vfs_create_node typ (Some (47 # name)) perm s = Some (x, set_fs k (Some data') d' s)"
proof -
  let ?f = "\<lambda>n pd d. map_option (\<lambda>(r, pd, d). (r, n, pd, d)) (tinyfs_create_node ops pd (Some n) name typ perm d)"
  have "call_node ?f r s = Some (x, (set_fs k (Some data') d' s)\<lparr>vnodes := (vnodes s)[r := (n, k)]\<rparr>)"
    by (rule call_node_at) (use assms in \<open>auto simp: root_at_def tinyfs_at_def\<close>)
  moreover have "(set_fs k (Some data') d' s)\<lparr>vnodes := (vnodes s)[r := (n, k)]\<rparr> = set_fs k (Some data') d' s"
    using assms(2) by (simp add: root_at_def set_fs_def list_update_same)
  moreover have "node_ops r s = Some (tinyfs_vfs_ops ops bb)" "node_type r s = FILE_TYPE_DIRECTORY"
    using assms(1,2) by (simp_all add: node_ops_def node_type_def root_at_def tinyfs_at_def)
  ultimately show ?thesis
    using plain_parent [OF assms(3,4)] assms(5) root_resolves [OF assms(2)]
    by (simp add: vfs_create_node_def Let_def tinyfs_vfs_ops_def)
qed

text \<open>A call that changes neither the node, the tables nor the device leaves the state as it was.\<close>

lemma call_unchanged:
  assumes "tinyfs_at ops bb k data d s" "root_at r n k s"
  shows "(set_fs k (Some data) d s)\<lparr>vnodes := (vnodes s)[r := (n, k)]\<rparr> = s"
proof -
  have "(filesystems s)[k := (filesystems s ! k)\<lparr>fs_private_data := Some data\<rparr>] = filesystems s"
    using assms(1) by (intro list_update_same) (simp add: tinyfs_at_def)
  moreover have "(vnodes s)[r := (n, k)] = vnodes s" using assms(2) by (intro list_update_same) (simp add: root_at_def)
  ultimately show ?thesis using assms(1) by (simp add: set_fs_def tinyfs_at_def)
qed

text \<open>Resolving a name in the root directory puts the node that the file system finds on the heap.\<close>

lemma vfs_resolve_at:
  assumes "tinyfs_at ops bb k data d s" "root_at r n k s"
    and "name \<noteq> []" "0 \<notin> set name" "47 \<notin> set name" "length name \<le> 255"
    and "tinyfs_finddir (Some data) (Some n) name (node_mem s (length (vnodes s))) = Some node"
  shows "vfs_resolve_path (Some (47 # name)) s = Some (Some (length (vnodes s)), s\<lparr>vnodes := vnodes s @ [(node, k)]\<rparr>)"
proof -
  let ?m = "node_mem s (length (vnodes s))"
  let ?f = "\<lambda>n pd d. Some (tinyfs_finddir pd (Some n) name ?m, n, pd, d)"
  have c: "call_node ?f r s = Some (Some node, (set_fs k (Some data) d s)\<lparr>vnodes := (vnodes s)[r := (n, k)]\<rparr>)"
    by (rule call_node_at) (use assms in \<open>auto simp: root_at_def tinyfs_at_def\<close>)
  have same: "(set_fs k (Some data) d s)\<lparr>vnodes := (vnodes s)[r := (n, k)]\<rparr> = s" by (rule call_unchanged [OF assms(1,2)])
  have "vfs_finddir (Some r) name s = Some (Some (length (vnodes s)), s\<lparr>vnodes := vnodes s @ [(node, k)]\<rparr>)"
    using assms(1,2) c same
    by (simp add: vfs_finddir_def node_type_def node_ops_def root_at_def tinyfs_at_def call_lookup_def tinyfs_vfs_ops_def new_node_def)
  moreover have "cstr (47 # name) \<noteq> [47]" "hd (cstr (47 # name)) = 47" "cstr (47 # name) \<noteq> []"
    using plain_parent(1) [OF assms(4,5)] assms(3) by simp_all
  ultimately show ?thesis using assms(2) tokenize_plain [OF assms(3-6)]
    by (simp add: vfs_resolve_path_def root_at_def node_type_def)
qed


text \<open>Descriptor \<open>i\<close> is open on node \<open>p\<close>, at the given position.\<close>

definition file_at :: "nat \<Rightarrow> nat \<Rightarrow> vfs_node \<Rightarrow> nat \<Rightarrow> u32 \<Rightarrow> ('s, 'd) vfs \<Rightarrow> bool" where
  "file_at i p n k pos s \<longleftrightarrow> i < 256 \<and> length (vfs_fd_table s) = 256 \<and> fd_used (vfs_fd_table s ! i) \<and>
     fd_node (vfs_fd_table s ! i) = Some p \<and> fd_position (vfs_fd_table s ! i) = pos \<and> p < length (vnodes s) \<and> vnodes s ! p = (n, k)"

lemma file_at_open: "file_at i p n k pos s \<Longrightarrow> open_fd (int i) s"
  by (simp add: file_at_def open_fd_def MAX_OPEN_FILES_def)

lemma file_at_target:
  "file_at i p n k pos s \<Longrightarrow> tinyfs_at ops bb k data d s \<Longrightarrow> fd_target (int i) entry s = map_option (Pair p) (entry (tinyfs_vfs_ops ops bb))"
  by (cases "entry (tinyfs_vfs_ops ops bb)") (simp_all add: fd_target_def file_at_def tinyfs_at_def node_ops_def)

lemma call_file:
  assumes "file_at i p n k pos s" "tinyfs_at ops bb k data d s" "f n (Some data) d = Some (x, n', Some data', d')"
  shows "\<exists>s'. call_node f p s = Some (x, s') \<and> file_at i p n' k pos s' \<and> tinyfs_at ops bb k data' d' s'"
proof -
  have "call_node f p s = Some (x, (set_fs k (Some data') d' s)\<lparr>vnodes := (vnodes s)[p := (n', k)]\<rparr>)"
    by (rule call_node_at) (use assms in \<open>auto simp: file_at_def tinyfs_at_def\<close>)
  then show ?thesis using assms(1,2) by (simp add: file_at_def tinyfs_at_def set_fs_def)
qed

lemma advance_at:
  assumes "file_at i p n k pos s" "tinyfs_at ops bb k data d s" "0 \<le> x"
  shows "file_at i p n k (pos + of_int x) (advance (int i) x s) \<and> tinyfs_at ops bb k data d (advance (int i) x s)"
  using assms by (simp add: advance_def set_fd_def file_at_def tinyfs_at_def)

lemma vfs_write_at:
  assumes "file_at i p n k pos s" "tinyfs_at ops bb k data d s" "0 \<le> x"
    and "tinyfs_write ops (Some data) (Some n) buffer pos bb d = Some (x, Some data', Some n', d')"
  shows "\<exists>s'. vfs_write (int i) buffer s = Some (x, s') \<and> file_at i p n' k (pos + of_int x) s' \<and> tinyfs_at ops bb k data' d' s'"
proof -
  let ?f = "\<lambda>n pd d. map_option (\<lambda>(r, pd, n', d). (r, case n' of None \<Rightarrow> n | Some n' \<Rightarrow> n', pd, d)) (tinyfs_write ops pd (Some n) buffer pos bb d)"
  obtain s' where s': "call_node ?f p s = Some (x, s')" "file_at i p n' k pos s'" "tinyfs_at ops bb k data' d' s'"
    using call_file [OF assms(1,2), of ?f] assms(4) by auto
  have "fd_position (vfs_fd_table s ! i) = pos" using assms(1) by (simp add: file_at_def)
  then have "vfs_write (int i) buffer s = Some (x, advance (int i) x s')"
    using s'(1) file_at_open [OF assms(1)] file_at_target [OF assms(1,2), of op_write]
    by (simp add: vfs_write_def tinyfs_vfs_ops_def)
  then show ?thesis using advance_at [OF s'(2,3) assms(3)] by blast
qed

lemma vfs_read_at:
  assumes "file_at i p n k pos s" "tinyfs_at ops bb k data d s" "0 \<le> x"
    and "tinyfs_read ops (Some data) (Some n) buffer sz pos bb d = Some (x, buffer', d')"
  shows "\<exists>s'. vfs_read (int i) buffer sz s = Some (x, buffer', s') \<and> file_at i p n k (pos + of_int x) s' \<and> tinyfs_at ops bb k data d' s'"
proof -
  let ?f = "\<lambda>n pd d. map_option (\<lambda>(r, buffer, d). ((r, buffer), n, pd, d)) (tinyfs_read ops pd (Some n) buffer sz pos bb d)"
  obtain s' where s': "call_node ?f p s = Some ((x, buffer'), s')" "file_at i p n k pos s'" "tinyfs_at ops bb k data d' s'"
    using call_file [OF assms(1,2), of ?f] assms(4) by auto
  have "fd_position (vfs_fd_table s ! i) = pos" using assms(1) by (simp add: file_at_def)
  then have "vfs_read (int i) buffer sz s = Some (x, buffer', advance (int i) x s')"
    using s'(1) file_at_open [OF assms(1)] file_at_target [OF assms(1,2), of op_read]
    by (simp add: vfs_read_def tinyfs_vfs_ops_def)
  then show ?thesis using advance_at [OF s'(2,3) assms(3)] by blast
qed

lemma vfs_rewind_at:
  assumes "file_at i p n k pos s" "tinyfs_at ops bb k data d s"
  shows "\<exists>s'. vfs_seek (int i) 0 SEEK_SET s = Some (0, s') \<and> file_at i p n k 0 s' \<and> tinyfs_at ops bb k data d s'"
  using assms file_at_open [OF assms(1)]
  by (simp add: vfs_seek_def SEEK_SET_def set_fd_def file_at_def tinyfs_at_def)

lemma vfs_open_at:
  assumes "vfs_ok s" "vfs_resolve_path path s = Some (Some p, s1)" "tinyfs_at ops bb k data d s1" "vnodes s1 ! p = (n, k)"
    and "\<exists>j. 3 \<le> j \<and> j < 256 \<and> \<not> fd_used (vfs_fd_table s ! j)"
  shows "\<exists>i s'. vfs_open path flags s = Some (int i, s') \<and> 3 \<le> i \<and> file_at i p n k 0 s' \<and> tinyfs_at ops bb k data d s'"
proof -
  note ok1 = resolve_vfs_ok [OF assms(2,1)] and l = vfs_resolve_path_ok [OF assms(2,1)]
  have tab: "vfs_fd_table s1 = vfs_fd_table s" by (rule resolve_table [OF assms(2,1)])
  have pl: "p < length (vnodes s1)" using l by (simp add: lookup_ok_def valid_ptr_def)
  obtain i where i: "allocate_fd s1 = (int i, set_fd i (\<lambda>f. f\<lparr>fd_used := True\<rparr>) s1)" "3 \<le> i" "i < 256"
    using allocate_fd_cases [OF ok1] assms(5) tab by auto
  let ?s2 = "set_fd i (\<lambda>_. opened p flags) s1"
  have s2: "set_fd i (\<lambda>f. f\<lparr>fd_node := Some p, fd_position := 0, fd_flags := flags\<rparr>) (set_fd i (\<lambda>f. f\<lparr>fd_used := True\<rparr>) s1) = ?s2"
    using i(3) ok1 by (simp add: set_fd_twice opened_eq)
  have at: "file_at i p n k 0 ?s2" "tinyfs_at ops bb k data d ?s2"
    using i(3) ok1 pl assms(3,4) by (simp_all add: file_at_def tinyfs_at_def set_fd_def opened_def)
  obtain s' where "call_node (\<lambda>n pd d. Some (tinyfs_open n flags, n, pd, d)) p ?s2 = Some (0, s')"
    "file_at i p n k 0 s'" "tinyfs_at ops bb k data d s'"
    using call_file [OF at, of "\<lambda>n pd d. Some (tinyfs_open n flags, n, pd, d)"] by (auto simp: tinyfs_open_def)
  moreover have "node_ops p ?s2 = Some (tinyfs_vfs_ops ops bb)" using at by (simp add: node_ops_def file_at_def tinyfs_at_def)
  ultimately show ?thesis using assms(2) i(1,2) s2 by (simp add: vfs_open_def Let_def tinyfs_vfs_ops_def)
qed

text \<open>
  C1: End to end: on a mounted TinyFS with a free directory entry, a free descriptor and room for the
  data, creating a file in the root directory, opening it, writing a buffer, seeking back to the start
  and reading returns exactly the bytes written, every call reporting success.
\<close>

theorem vfs_file_roundtrip:
  assumes "block_device ops ok content" and "vfs_ok s"
    and "tinyfs_at ops bb k data d s" and "root_at r n k s"
    and "ok d" and "tables_ok data" and "synced data (content d)" and "length bb = 512"
    and "name \<noteq> []" and "0 \<notin> set name" and "47 \<notin> set name" and "length name < 32"
    and "find_idx (named_in (n_inode n) name) (dirents data) = None"
    and "\<exists>j. 1 \<le> j \<and> j < 256 \<and> used (dirents data ! j) = 0"
    and "\<exists>j. 3 \<le> j \<and> j < 256 \<and> \<not> fd_used (vfs_fd_table s ! j)"
    and "node_mem s (length (vnodes s)) \<noteq> None"
    and "buffer \<noteq> []" and "length buffer < 2 ^ 31" and "length buffer \<le> 512 * card (free_set (fat data))"
    and "length out = length buffer"
  shows "\<exists>s1 s2 s3 s4 s5 fd. vfs_create (Some (47 # name)) perm s = Some (0, s1) \<and>
    vfs_open (Some (47 # name)) flags s1 = Some (fd, s2) \<and> 3 \<le> fd \<and>
    vfs_write fd buffer s2 = Some (int (length buffer), s3) \<and>
    vfs_seek fd 0 SEEK_SET s3 = Some (0, s4) \<and>
    vfs_read fd out (of_nat (length buffer)) s4 = Some (int (length buffer), buffer, s5)"
proof -
  obtain mem where mem: "node_mem s (length (vnodes s)) = Some mem" using assms(16) by blast
  have ty: "n_type n = FILE_TYPE_DIRECTORY" using assms(4) by (simp add: root_at_def)
  have cn: "cstr name = name" using assms(10) by (rule cstr_id)
  obtain data1 d1 node i where c: "tinyfs_create_node ops (Some data) (Some n) name FILE_TYPE_REGULAR perm d = Some (0, Some data1, d1)"
    "ok d1" "tables_ok data1" "tinyfs_finddir (Some data1) (Some n) name (Some mem) = Some node" "n_dirent node = Some i"
    "i < 256" "file_chain data1 i []" "fat data1 = fat data"
    using create_then_find [OF assms(1,5,6,7) ty _ assms(13,14), of FILE_TYPE_REGULAR perm mem] assms(12) cn by auto
  define s1 where "s1 = set_fs k (Some data1) d1 s"
  have create: "vfs_create (Some (47 # name)) perm s = Some (0, s1)"
    unfolding vfs_create_def s1_def using assms(12) by (intro vfs_create_at [OF assms(3,4,10,11) _ c(1)]) simp
  have at1: "tinyfs_at ops bb k data1 d1 s1" "root_at r n k s1" "vnodes s1 = vnodes s" "node_mem s1 = node_mem s"
    using assms(3,4) by (simp_all add: s1_def tinyfs_at_def root_at_def set_fs_def)
  let ?s = "s1\<lparr>vnodes := vnodes s1 @ [(node, k)]\<rparr>"
  have res: "vfs_resolve_path (Some (47 # name)) s1 = Some (Some (length (vnodes s1)), ?s)"
    using assms(12) c(4) mem at1(3,4) by (intro vfs_resolve_at [OF at1(1,2) assms(9-11)]) simp_all
  have ok1: "vfs_ok s1" unfolding s1_def using assms(2) by (rule set_fs_ok)
  have tat: "tinyfs_at ops bb k data1 d1 ?s" using at1(1) by (simp add: tinyfs_at_def)
  have nn: "vnodes ?s ! length (vnodes s1) = (node, k)" by simp
  have fr: "\<exists>j. 3 \<le> j \<and> j < 256 \<and> \<not> fd_used (vfs_fd_table s1 ! j)" using assms(15) by (simp add: s1_def set_fs_def)
  obtain j s2 where op: "vfs_open (Some (47 # name)) flags s1 = Some (int j, s2)" "3 \<le> j"
    "file_at j (length (vnodes s1)) node k 0 s2" "tinyfs_at ops bb k data1 d1 s2"
    using vfs_open_at [OF ok1 res tat nn fr] by blast
  have room: "unat (0 :: u32) + length buffer \<le> 512 * (length ([] :: u32 list) + card (free_set (fat data1)))"
    using assms(19) c(8) by simp
  obtain data2 n2 d2 d3 where w: "tinyfs_write ops (Some data1) (Some node) buffer 0 bb d1 = Some (int (length buffer), Some data2, Some n2, d2)"
    "tinyfs_read ops (Some data2) (Some n2) out (of_nat (length buffer)) 0 bb d2 = Some (int (length buffer), buffer, d3)"
    using write_then_read [OF assms(1) c(2,3,6,5,7) assms(17,8) _ room assms(20)] assms(18) by auto
  have pos: "0 \<le> int (length buffer)" by simp
  obtain s3 where s3: "vfs_write (int j) buffer s2 = Some (int (length buffer), s3)"
    "file_at j (length (vnodes s1)) n2 k (of_int (int (length buffer))) s3" "tinyfs_at ops bb k data2 d2 s3"
    using vfs_write_at [OF op(3,4) pos w(1)] by auto
  obtain s4 where s4: "vfs_seek (int j) 0 SEEK_SET s3 = Some (0, s4)" "file_at j (length (vnodes s1)) n2 k 0 s4" "tinyfs_at ops bb k data2 d2 s4"
    using vfs_rewind_at [OF s3(2,3)] by blast
  obtain s5 where "vfs_read (int j) out (of_nat (length buffer)) s4 = Some (int (length buffer), buffer, s5)"
    using vfs_read_at [OF s4(2,3) pos w(2)] by blast
  then show ?thesis using create op(1,2) s3(1) s4(1) by force
qed


definition demo_tinyfs :: "ramdisk \<Rightarrow> (tinyfs_data option, ramdisk) vfs" where
  "demo_tinyfs d = (vfs_init (vfs_boot [\<lparr>fs_name = [], fs_ops = tinyfs_fs_ops ramdisk_ops None [], fs_private_data = Some (empty_fs []),
     fs_node_ops = Some (tinyfs_vfs_ops ramdisk_ops (replicate 512 0))\<rparr>] d (\<lambda>_. Some (demo_node 0))))\<lparr>root_ptr := Some 0, vnodes := [(root_node, 0)]\<rparr>"

lemma demo_tinyfs_ok: "vfs_ok (demo_tinyfs d)" "tinyfs_at ramdisk_ops (replicate 512 0) 0 (empty_fs []) d (demo_tinyfs d)"
  "root_at 0 root_node 0 (demo_tinyfs d)"
  by (simp_all add: demo_tinyfs_def vfs_ok_def heap_ok_def registry_ok_def fds_ok_def path_ok_def vfs_init_def vfs_boot_def fd_ok_def
    closed_fd_def valid_ptr_def MAX_OPEN_FILES_def tinyfs_at_def root_at_def root_node_def)

theorem vfs_file_roundtrip_witness:
  "\<exists>d s1 s2 s3 s4 s5 fd. vfs_create (Some [47, 97]) 3 (demo_tinyfs d) = Some (0, s1) \<and>
    vfs_open (Some [47, 97]) 3 s1 = Some (fd, s2) \<and> 3 \<le> fd \<and> vfs_write fd [1, 2, 3] s2 = Some (3, s3) \<and>
    vfs_seek fd 0 SEEK_SET s3 = Some (0, s4) \<and> vfs_read fd [0, 0, 0] 3 s4 = Some (3, [1, 2, 3], s5)"
proof -
  obtain d where d: "ramdisk_ok d" "synced (empty_fs []) (ramdisk_content d)" using format_blank by blast
  have none: "find_idx (named_in (n_inode root_node) [97]) (dirents (empty_fs [])) = None"
    by (rule find_empty) (simp add: named_in_def empty_dirent_def dirent_dec_def segment_def)
  have free: "\<exists>j. 1 \<le> j \<and> j < 256 \<and> used (dirents (empty_fs []) ! j) = 0"
    by (rule exI [of _ 1]) (simp add: empty_fs_def empty_dirent_def dirent_dec_def segment_def)
  have fd: "\<exists>j. 3 \<le> j \<and> j < 256 \<and> \<not> fd_used (vfs_fd_table (demo_tinyfs d) ! j)"
    by (rule exI [of _ 3]) (simp add: demo_tinyfs_def vfs_init_def closed_fd_def MAX_OPEN_FILES_def)
  show ?thesis
    using vfs_file_roundtrip [OF rdisk.block_device_axioms demo_tinyfs_ok d(1) empty_fs_ok d(2) _ _ _ _ _ none free fd, of "[1, 2, 3]" "[0, 0, 0]" 3 3]
    by (simp add: demo_tinyfs_def vfs_boot_def vfs_init_def empty_fs_free) blast
qed

section \<open>Listing\<close>

definition entry_line :: "tinyfs_data \<Rightarrow> nat \<Rightarrow> u8 \<times> bytes \<times> u32" where
  "entry_line data i = (let e = dirents data ! i in
     (if is_directory e \<noteq> 0 then 100 else 102, cstr (d_name e), d_size e))"

definition entries_of :: "u32 \<Rightarrow> tinyfs_data \<Rightarrow> nat list" where
  "entries_of inode data = filter (\<lambda>i. in_dir inode (dirents data ! i)) [0..<length (dirents data)]"

lemma nth_in_dir_spec:
  assumes "count \<le> index"
  shows "nth_in_dir inode es i count index =
    (let xs = filter (\<lambda>j. in_dir inode (es ! j)) [0..<length es] in if index - count < length xs then Some (i + xs ! (index - count)) else None)"
  using assms
proof (induction es arbitrary: i count)
  case Nil
  then show ?case by simp
next
  case (Cons e es)
  have shift: "filter (\<lambda>j. in_dir inode ((e # es) ! j)) [0..<length (e # es)] =
    (if in_dir inode e then [0] else []) @ map Suc (filter (\<lambda>j. in_dir inode (es ! j)) [0..<length es])"
    by (simp add: upt_conv_Cons map_Suc_upt [symmetric] filter_map o_def del: upt_Suc)
  show ?case
  proof (cases "in_dir inode e")
    case False
    then show ?thesis using Cons.IH [OF Cons.prems, of "Suc i"] unfolding shift by (simp add: Let_def)
  next
    case True
    show ?thesis
    proof (cases "count = index")
      case False
      then have "index - count = Suc (index - Suc count)" using Cons.prems by simp
      then show ?thesis using True False Cons.IH [of "Suc count" "Suc i"] Cons.prems unfolding shift by (simp add: Let_def)
    qed (use True in \<open>unfold shift, simp\<close>)
  qed
qed


lemma vfs_readdir_at:
  assumes "tinyfs_at ops bb k data d s" "root_at r n k s" "length (dirents data) = 256"
    and "node_mem s (length (vnodes s)) = Some mem" "j < 2 ^ 32"
  shows "vfs_readdir (Some r) (of_nat j) s =
    (let es = entries_of (n_inode n) data in
     if j < length es then Some (Some (length (vnodes s)), s\<lparr>vnodes := vnodes s @ [(dirent_node data (es ! j) mem, k)]\<rparr>) else Some (None, s))"
proof -
  let ?x = "tinyfs_readdir (Some data) (Some n) (of_nat j) (Some mem)"
  let ?f = "\<lambda>n pd d. Some (tinyfs_readdir pd (Some n) (of_nat j) (Some mem), n, pd, d)"
  have c: "call_node ?f r s = Some (?x, (set_fs k (Some data) d s)\<lparr>vnodes := (vnodes s)[r := (n, k)]\<rparr>)"
    by (rule call_node_at) (use assms in \<open>auto simp: root_at_def tinyfs_at_def\<close>)
  have same: "(set_fs k (Some data) d s)\<lparr>vnodes := (vnodes s)[r := (n, k)]\<rparr> = s" by (rule call_unchanged [OF assms(1,2)])
  have "unat (of_nat j :: u32) = j" using assms(5) by (simp add: unat_of_nat)
  then have x: "?x = (let es = entries_of (n_inode n) data in if j < length es then Some (dirent_node data (es ! j) mem) else None)"
    using assms(2,3) nth_in_dir_spec [of 0 j "n_inode n" "dirents data" 0]
    by (simp add: tinyfs_readdir_def root_at_def TINYFS_MAX_FILES_def entries_of_def Let_def)
  show ?thesis
    using assms(1,2,4) c same x
    by (auto simp: vfs_readdir_def node_type_def node_ops_def root_at_def tinyfs_at_def call_lookup_def tinyfs_vfs_ops_def new_node_def Let_def)
qed

lemma entry_node_line:
  assumes "256 \<le> length (n_name mem)" "length (d_name (dirents data ! i)) = 32"
  shows "((if n_type (dirent_node data i mem) = FILE_TYPE_DIRECTORY then 100 else 102), cstr (n_name (dirent_node data i mem)), n_size (dirent_node data i mem)) =
    entry_line data i"
proof -
  have "length (cstr (d_name (dirents data ! i))) \<le> 32" using assms(2) length_cstr_le [of "d_name (dirents data ! i)"] by simp
  then have "cstr (strcpy_safe (n_name mem) (d_name (dirents data ! i)) 256) = cstr (d_name (dirents data ! i))"
    using assms(1) by (simp add: cstr_strcpy_safe)
  then show ?thesis
    by (simp add: dirent_node_def entry_line_def Let_def MAX_FILENAME_def FILE_TYPE_DIRECTORY_def FILE_TYPE_REGULAR_def)
qed

lemma list_entries_at:
  assumes "tinyfs_at ops bb k data d s" "root_at r n k s" "tables_ok data"
    and "node_mem s (length (vnodes s)) = Some mem" "256 \<le> length (n_name mem)"
  shows "j \<le> length (entries_of (n_inode n) data) \<Longrightarrow>
    list_entries r (of_nat j) s = Some (map (entry_line data) (drop j (entries_of (n_inode n) data)), s)"
proof (induction "length (entries_of (n_inode n) data) - j" arbitrary: j)
  case 0
  let ?es = "entries_of (n_inode n) data"
  have len: "length (dirents data) = 256" using assms(3) by (simp add: tables_ok_def dirents_ok_def)
  have "length ?es \<le> 256" using length_filter_le [of _ "[0..<length (dirents data)]"] len unfolding entries_of_def by fastforce
  with 0 have "vfs_readdir (Some r) (of_nat j) s = Some (None, s)"
    using vfs_readdir_at [OF assms(1,2) len assms(4), of j] by (simp add: Let_def)
  then show ?case using 0 by (subst list_entries.simps) simp
next
  case (Suc m)
  let ?es = "entries_of (n_inode n) data"
  have len: "length (dirents data) = 256" using assms(3) by (simp add: tables_ok_def dirents_ok_def)
  have le: "length ?es \<le> 256" using length_filter_le [of _ "[0..<length (dirents data)]"] len unfolding entries_of_def by fastforce
  have j: "j < length ?es" using Suc.hyps(2) by simp
  define node where "node = dirent_node data (?es ! j) mem"
  have r: "vfs_readdir (Some r) (of_nat j) s = Some (Some (length (vnodes s)), s\<lparr>vnodes := vnodes s @ [(node, k)]\<rparr>)"
    using vfs_readdir_at [OF assms(1,2) len assms(4), of j] j le by (simp add: Let_def node_def)
  have rest: "list_entries r (of_nat j + 1) s = Some (map (entry_line data) (drop (Suc j) ?es), s)"
    using Suc.hyps(1) [of "Suc j"] Suc.hyps(2) j by (simp add: add.commute)
  have "?es ! j \<in> set ?es" using j by simp
  then have "?es ! j < 256" using len by (simp add: entries_of_def)
  then have "length (d_name (dirents data ! (?es ! j))) = 32" using assms(3) len by (simp add: tables_ok_def dirents_ok_def dirent_ok_def)
  then have line: "((if n_type node = FILE_TYPE_DIRECTORY then 100 else 102), cstr (n_name node), n_size node) = entry_line data (?es ! j)"
    using entry_node_line [OF assms(5)] by (simp add: node_def)
  have "list_entries r (of_nat j) s = Some (entry_line data (?es ! j) # map (entry_line data) (drop (Suc j) ?es), s)"
    using r rest line by (subst list_entries.simps) (simp add: node_type_def)
  then show ?case using j by (simp add: Cons_nth_drop_Suc [symmetric])
qed

text \<open>
  C30: Listing the root directory of a mounted TinyFS ends and prints exactly the used entries whose
  parent is the root, in the order of the directory table, with their type, name and size; the state
  of the virtual file system is unchanged.
\<close>

theorem vfs_list_root:
  assumes "tinyfs_at ops bb k data d s" and "root_at r n k s" and "tables_ok data"
    and "node_mem s (length (vnodes s)) = Some mem" and "256 \<le> length (n_name mem)"
  shows "vfs_list_directory (Some [47]) s = Some (Some (map (entry_line data) (entries_of (n_inode n) data)), s)"
  using list_entries_at [OF assms, of 0] root_resolves [OF assms(2)] assms(2)
  by (simp add: vfs_list_directory_def node_type_def root_at_def)

theorem vfs_list_root_witness:
  "vfs_list_directory (Some [47]) (demo_tinyfs blank_disk) =
    Some (Some (map (entry_line (empty_fs [])) (entries_of (n_inode root_node) (empty_fs []))), demo_tinyfs blank_disk)"
  by (rule vfs_list_root [OF demo_tinyfs_ok(2,3) empty_fs_ok, of _ "demo_node 0"])
    (simp_all add: demo_tinyfs_def vfs_init_def vfs_boot_def demo_node_def)

section \<open>The working directory buffer\<close>

text \<open>
  A working directory path of 255 characters that does not end in a slash makes every relative
  change of directory write past the end of \<open>full_path\<close>.
\<close>

theorem vfs_chdir_overflow:
  assumes "length (current_path s) = 255" and "last (current_path s) \<noteq> 47" and "cstr path = [] \<or> hd (cstr path) \<noteq> 47"
  shows "vfs_chdir (Some path) s = None"
proof -
  have "current_path s \<noteq> []" using assms(1) by auto
  then have "full_path (current_path s) (cstr path) = None" using assms(1,2) by (simp add: full_path_def Let_def)
  with assms(3) show ?thesis by (auto simp: vfs_chdir_def Let_def)
qed

theorem vfs_chdir_overflow_witness:
  "vfs_chdir (Some [97]) (demo_mounted\<lparr>current_path := 47 # replicate 254 98\<rparr>) = None"
  by (rule vfs_chdir_overflow) (simp_all add: cstr_def)

end
