(* ===== verification/VFS_Files.thy ===== *)
theory VFS_Files
  imports VFS_TinyFS
begin

text \<open>
  Sequences of calls on one file: opening a file of the root directory, writing to it in pieces, closing it and reading it from the
  start, with the contents of the file as a list of bytes.
\<close>

section \<open>What a call on one node leaves alone\<close>

definition beside :: "nat \<Rightarrow> ('s, 'd) vfs \<Rightarrow> ('s, 'd) vfs \<Rightarrow> bool" where
  "beside p s s' \<longleftrightarrow> root_ptr s' = root_ptr s \<and> node_mem s' = node_mem s \<and> length (vnodes s') = length (vnodes s) \<and>
     (\<forall>q < length (vnodes s). q \<noteq> p \<longrightarrow> vnodes s' ! q = vnodes s ! q)"

lemma beside_refl [simp]: "beside p s s"
  by (simp add: beside_def)

lemma beside_trans: "beside p s s' \<Longrightarrow> beside p s' s'' \<Longrightarrow> beside p s s''"
  by (simp add: beside_def)

lemma beside_root: "beside p s s' \<Longrightarrow> root_at r n k s \<Longrightarrow> r \<noteq> p \<Longrightarrow> root_at r n k s'"
  by (simp add: beside_def root_at_def)

lemma beside_call: "call_node f p s = Some (x, s') \<Longrightarrow> beside p s s'"
  by (auto simp: call_node_def beside_def set_fs_def bind_eq_Some_conv split: prod.splits)

lemma beside_set_fd [simp]: "beside p s (set_fd i g s)" "beside p s (advance fd x s)"
  by (simp_all add: beside_def set_fd_def advance_def)

lemma beside_write: "vfs_write fd buf s = Some (x, s') \<Longrightarrow> fd_node (vfs_fd_table s ! nat fd) = Some p \<Longrightarrow> beside p s s'"
  by (auto simp: vfs_write_def bind_eq_Some_conv split: if_splits option.splits dest!: fd_target_node beside_call intro: beside_trans [OF _ beside_set_fd(2)])

lemma beside_read: "vfs_read fd buf sz s = Some (x, buf', s') \<Longrightarrow> fd_node (vfs_fd_table s ! nat fd) = Some p \<Longrightarrow> beside p s s'"
  by (auto simp: vfs_read_def bind_eq_Some_conv split: if_splits option.splits dest!: fd_target_node beside_call intro: beside_trans [OF _ beside_set_fd(2)])

section \<open>The contents of a file\<close>

definition contents :: "('d \<Rightarrow> u32 \<Rightarrow> bytes) \<Rightarrow> tinyfs_data \<Rightarrow> 'd \<Rightarrow> nat \<Rightarrow> u32 list \<Rightarrow> bytes \<Rightarrow> bool" where
  "contents content data d i bs xs \<longleftrightarrow> length xs = unat (d_size (dirents data ! i)) \<and> length xs \<le> 512 * length bs \<and>
     take (length xs) (file_bytes (content d) bs) = xs"

text \<open>
  The file \<open>name\<close> of the directory \<open>dir\<close> is entry \<open>i\<close>; it has the contents \<open>xs\<close> and, with the free blocks, room for \<open>512 * cap\<close> bytes.
\<close>

definition stored :: "('d \<Rightarrow> bool) \<Rightarrow> ('d \<Rightarrow> u32 \<Rightarrow> bytes) \<Rightarrow> u32 \<Rightarrow> bytes \<Rightarrow> nat \<Rightarrow> nat \<Rightarrow> bytes \<Rightarrow> tinyfs_data \<Rightarrow> 'd \<Rightarrow> bool" where
  "stored ok content dir name i cap xs data d \<longleftrightarrow> ok d \<and> tables_ok data \<and> find_idx (named_in dir name) (dirents data) = Some i \<and>
     (\<exists>bs. file_chain data i bs \<and> cap = length bs + card (free_set (fat data)) \<and> contents content data d i bs xs)"

lemma stored_index: "stored ok content dir name i cap xs data d \<Longrightarrow> i < 256"
  by (auto simp: stored_def tables_ok_def dirents_ok_def dest!: find_idx_SomeD)

lemma named_kept:
  assumes "find_idx (named_in dir name) (dirents data) = Some i" "others_kept data data' i bs new" "tables_ok data"
  shows "find_idx (named_in dir name) (dirents data') = Some i"
proof -
  have l: "length (dirents data') = 256" "length (dirents data) = 256" using assms(2,3) by (auto simp: others_kept_def tables_ok_def dirents_ok_def)
  have e: "dirents data' ! i = (dirents data ! i)\<lparr>first_block := first_block (dirents data' ! i), d_size := d_size (dirents data' ! i)\<rparr>"
    using assms(2) by (simp add: others_kept_def entry_kept_def)
  have "named_in dir name (dirents data' ! j) = named_in dir name (dirents data ! j)" for j
  proof (cases "j = i")
    case True
    then show ?thesis using e by (metis (no_types, lifting) dirent.select_convs dirent.surjective dirent.update_convs named_in_def)
  qed (use assms(2) in \<open>simp add: others_kept_def\<close>)
  then show ?thesis using find_idx_SomeD [OF assms(1)] l by (intro find_idx_SomeI) auto
qed

text \<open>Bytes put at a position within the contents, or at their end.\<close>

definition overwrite :: "nat \<Rightarrow> bytes \<Rightarrow> bytes \<Rightarrow> bytes" where
  "overwrite pos c xs = take pos xs @ c @ drop (pos + length c) xs"

lemma length_overwrite: "pos \<le> length xs \<Longrightarrow> length (overwrite pos c xs) = max (length xs) (pos + length c)"
  by (auto simp: overwrite_def max_def)

lemma overwrite_app:
  assumes "pos \<le> length xs"
  shows "overwrite (pos + length c) c' (overwrite pos c xs) = overwrite pos (c @ c') xs"
proof -
  have "drop (pos + length c + length c') (overwrite pos c xs) = drop (length c') (drop (pos + length c) xs)"
    using assms by (simp add: overwrite_def min_def)
  then show ?thesis using assms by (simp add: overwrite_def add.assoc add.commute [of "length c'"])
qed

lemma overwrite_put:
  assumes "take (length xs) F = xs" "pos \<le> length xs" "length xs \<le> length F" "pos + length c \<le> length F"
  shows "take (max (length xs) (pos + length c)) (put_at pos c F) = overwrite pos c xs"
proof (rule nth_equalityI)
  have l: "length (put_at pos c F) = length F" using assms(4) by (simp add: put_at_def)
  then show "length (take (max (length xs) (pos + length c)) (put_at pos c F)) = length (overwrite pos c xs)"
    using assms(3,4) length_overwrite [OF assms(2), of c] by simp
  fix j
  assume "j < length (take (max (length xs) (pos + length c)) (put_at pos c F))"
  then have j: "j < max (length xs) (pos + length c)" "j < length F" using l assms(3,4) by auto
  have x: "xs ! j = F ! j" if "j < length xs" using that assms(1) by (metis nth_take)
  show "take (max (length xs) (pos + length c)) (put_at pos c F) ! j = overwrite pos c xs ! j"
    using j x assms(2,4) by (auto simp: put_at_def overwrite_def nth_append min_def)
qed

lemma write_contents:
  assumes "block_device ops ok content" "stored ok content dir name i cap xs data d" "n_dirent n = Some i" "length bb = 512"
    "unat pos \<le> length xs" "unat pos + length c < 2 ^ 31" "unat pos + max 1 (length c) \<le> 512 * cap"
  shows "\<exists>data' n' d'. tinyfs_write ops (Some data) (Some n) c pos bb d = Some (int (length c), Some data', Some n', d') \<and> n_dirent n' = Some i \<and>
    stored ok content dir name i cap (overwrite (unat pos) c xs) data' d'"
proof -
  obtain bs where s: "ok d" "tables_ok data" "find_idx (named_in dir name) (dirents data) = Some i" "file_chain data i bs"
    "cap = length bs + card (free_set (fat data))" "contents content data d i bs xs" using assms(2) by (auto simp: stored_def)
  obtain data' n' d' new where w: "tinyfs_write ops (Some data) (Some n) c pos bb d = Some (int (length c), Some data', Some n', d')"
    "n_dirent n' = Some i" "ok d'" "file_written content data d i bs (unat pos) c new data' d'"
    using block_device.tinyfs_write_room [OF assms(1) s(1,2) stored_index [OF assms(2)] assms(3) s(4) assms(4,6)] assms(7) s(5) by blast
  have f: "others_kept data data' i bs new" "file_chain data' i (bs @ new)"
    "unat (d_size (dirents data' ! i)) = max (unat (d_size (dirents data ! i))) (unat pos + length c)" "unat pos + length c \<le> 512 * length (bs @ new)"
    "file_bytes (content d') (bs @ new) = put_at (unat pos) c (file_bytes (content d) (bs @ new))" "bs @ new \<noteq> []"
    using w(4) by (auto simp: file_written_def)
  have c: "length xs = unat (d_size (dirents data ! i))" "length xs \<le> 512 * length bs" "take (length xs) (file_bytes (content d) bs) = xs"
    using s(6) by (auto simp: contents_def)
  have len: "length (file_bytes (content d) (bs @ new)) = 512 * length (bs @ new)"
    using f(2,6) fchain_block(3) block_device.file_bytes_length [OF assms(1) s(1)] by (auto simp: file_chain_def)
  have "length (file_bytes (content d) bs) = 512 * length bs"
    using s(4) fchain_block(3) block_device.file_bytes_length [OF assms(1) s(1)] by (auto simp: file_chain_def)
  then have "take (length xs) (file_bytes (content d) (bs @ new)) = xs" using c(2,3) by simp
  then have "take (max (length xs) (unat pos + length c)) (file_bytes (content d') (bs @ new)) = overwrite (unat pos) c xs"
    unfolding f(5) by (rule overwrite_put) (use assms(5) c(2) len f(4) in auto)
  then have "contents content data' d' i (bs @ new) (overwrite (unat pos) c xs)"
    using length_overwrite [OF assms(5), of c] f(3,4) c(1,2) by (simp only: contents_def) simp
  moreover have "cap = length (bs @ new) + card (free_set (fat data'))"
    unfolding s(5) using f(1) by (intro capacity_kept [symmetric]) (auto simp: others_kept_def)
  ultimately have "stored ok content dir name i cap (overwrite (unat pos) c xs) data' d'"
    using w(3) f(1,2) named_kept [OF s(3) f(1) s(2)] unfolding stored_def others_kept_def by blast
  then show ?thesis using w(1,2) by blast
qed

text \<open>A read of more than there is reads all of it.\<close>

lemma read_contents:
  assumes "block_device ops ok content" "stored ok content dir name i cap xs data d" "n_dirent n = Some i" "length bb = 512"
    "length xs < 2 ^ 31" "unat sz \<le> length buffer" "0 < sz" "unat sz < 2 ^ 31"
  shows "\<exists>d'. tinyfs_read ops (Some data) (Some n) buffer sz 0 bb d =
      Some (int (min (unat sz) (length xs)), put_at 0 (take (unat sz) xs) buffer, d') \<and> stored ok content dir name i cap xs data d'"
proof -
  obtain bs where s: "ok d" "tables_ok data" "file_chain data i bs" "contents content data d i bs xs" using assms(2) by (auto simp: stored_def)
  have c: "length xs = unat (d_size (dirents data ! i))" "length xs \<le> 512 * length bs" "take (length xs) (file_bytes (content d) bs) = xs"
    using s(4) by (auto simp: contents_def)
  show ?thesis
  proof (cases "xs = []")
    case True
    then have "d_size (dirents data ! i) = 0" using c(1) by (simp add: unat_eq_0)
    then show ?thesis using assms(2,3) True by (simp add: tinyfs_read_def Let_def put_at_def)
  next
    case False
    define z where "z = (if sz > d_size (dirents data ! i) then d_size (dirents data ! i) else sz)"
    have z: "unat z = min (unat sz) (length xs)" using c(1) by (auto simp: z_def word_less_nat_alt min_def)
    have zp: "0 < z" using z False assms(7) by (simp add: word_less_nat_alt)
    have clip: "tinyfs_read ops (Some data) (Some n) buffer sz 0 bb d = tinyfs_read ops (Some data) (Some n) buffer z 0 bb d"
      using assms(3) by (simp add: tinyfs_read_def Let_def z_def)
    have bs: "bs \<noteq> []" using False c(2) by auto
    obtain d' where d': "tinyfs_read ops (Some data) (Some n) buffer z 0 bb d =
        Some (int (unat z), put_at 0 (segment 0 (unat z) (file_bytes (content d) bs)) buffer, d')" "ok d'" "content d' = content d"
    proof -
      have "unat z \<le> unat (d_size (dirents data ! i))" "unat z \<le> 512 * length bs" "unat z < 2 ^ 31" "unat z \<le> length buffer" using z c(1,2) assms(5,6) by auto
      then show thesis using block_device.tinyfs_read_spec [OF assms(1) s(1,2) assms(3) s(3) bs zp, of 0 buffer bb] assms(4) that by auto
    qed
    have "segment 0 (unat z) (file_bytes (content d) bs) = take (unat z) (take (length xs) (file_bytes (content d) bs))"
      using z by (simp add: segment_def min_def)
    also have "\<dots> = take (unat sz) xs" unfolding c(3) z by (simp add: min_def)
    finally have seg: "segment 0 (unat z) (file_bytes (content d) bs) = take (unat sz) xs" .
    have "stored ok content dir name i cap xs data d'" using assms(2) d'(2,3) by (simp add: stored_def contents_def)
    then show ?thesis using clip d'(1) seg z by simp
  qed
qed

section \<open>Calls through a descriptor\<close>

text \<open>Descriptor \<open>j\<close> is open at \<open>pos\<close> on node \<open>p\<close>, which stands for the file.\<close>

definition open_file ::
  "'d block_ops \<Rightarrow> ('d \<Rightarrow> bool) \<Rightarrow> ('d \<Rightarrow> u32 \<Rightarrow> bytes) \<Rightarrow> bytes \<Rightarrow> nat \<Rightarrow> u32 \<Rightarrow> bytes \<Rightarrow> nat \<Rightarrow> nat \<Rightarrow> nat \<Rightarrow> nat \<Rightarrow> u32 \<Rightarrow> bytes \<Rightarrow> (tinyfs_data option, 'd) vfs \<Rightarrow> bool" where
  "open_file ops ok content bb k dir name i cap j p pos xs s \<longleftrightarrow> vfs_ok s \<and> 3 \<le> j \<and>
     (\<exists>n data d. file_at j p n k pos s \<and> n_dirent n = Some i \<and> tinyfs_at ops bb k data d s \<and> stored ok content dir name i cap xs data d)"

lemma open_file_node: "open_file ops ok content bb k dir name i cap j p pos xs s \<Longrightarrow> fd_node (vfs_fd_table s ! nat (int j)) = Some p"
  by (auto simp: open_file_def file_at_def)

lemma write_piece:
  assumes "block_device ops ok content" "open_file ops ok content bb k dir name i cap j p pos xs s" "length bb = 512"
    "unat pos \<le> length xs" "unat pos + length c < 2 ^ 31" "unat pos + max 1 (length c) \<le> 512 * cap"
  shows "\<exists>s'. vfs_write (int j) c s = Some (int (length c), s') \<and> beside p s s' \<and>
    open_file ops ok content bb k dir name i cap j p (pos + of_nat (length c)) (overwrite (unat pos) c xs) s'"
proof -
  obtain n data d where f: "vfs_ok s" "3 \<le> j" "file_at j p n k pos s" "n_dirent n = Some i" "tinyfs_at ops bb k data d s"
    "stored ok content dir name i cap xs data d" using assms(2) by (auto simp: open_file_def)
  obtain data' n' d' where w: "tinyfs_write ops (Some data) (Some n) c pos bb d = Some (int (length c), Some data', Some n', d')" "n_dirent n' = Some i"
    "stored ok content dir name i cap (overwrite (unat pos) c xs) data' d'"
    using write_contents [OF assms(1) f(6,4) assms(3-6)] by blast
  obtain s' where s': "vfs_write (int j) c s = Some (int (length c), s')" "file_at j p n' k (pos + of_int (int (length c))) s'" "tinyfs_at ops bb k data' d' s'"
    using vfs_write_at [OF f(3,5) _ w(1)] by auto
  moreover have "vfs_ok s'" by (rule vfs_write_ok [OF s'(1) f(1)])
  moreover have "beside p s s'" using beside_write [OF s'(1)] open_file_node [OF assms(2)] by simp
  ultimately show ?thesis using w(2,3) f(2) by (auto simp: open_file_def)
qed

lemma read_from_start:
  assumes "block_device ops ok content" "open_file ops ok content bb k dir name i cap j p 0 xs s" "length bb = 512"
    "length xs < 2 ^ 31" "unat sz \<le> length buffer" "0 < sz" "unat sz < 2 ^ 31"
  shows "\<exists>s'. vfs_read (int j) buffer sz s = Some (int (min (unat sz) (length xs)), put_at 0 (take (unat sz) xs) buffer, s') \<and> beside p s s' \<and>
    open_file ops ok content bb k dir name i cap j p (of_nat (min (unat sz) (length xs))) xs s'"
proof -
  obtain n data d where f: "vfs_ok s" "3 \<le> j" "file_at j p n k 0 s" "n_dirent n = Some i" "tinyfs_at ops bb k data d s"
    "stored ok content dir name i cap xs data d" using assms(2) by (auto simp: open_file_def)
  obtain d' where w: "tinyfs_read ops (Some data) (Some n) buffer sz 0 bb d = Some (int (min (unat sz) (length xs)), put_at 0 (take (unat sz) xs) buffer, d')"
    "stored ok content dir name i cap xs data d'" using read_contents [OF assms(1) f(6,4) assms(3-7)] by blast
  obtain s' where s': "vfs_read (int j) buffer sz s = Some (int (min (unat sz) (length xs)), put_at 0 (take (unat sz) xs) buffer, s')"
    "file_at j p n k (0 + of_int (int (min (unat sz) (length xs)))) s'" "tinyfs_at ops bb k data d' s'"
    using vfs_read_at [OF f(3,5) _ w(1)] by auto
  moreover have "vfs_ok s'" by (rule vfs_read_ok [OF s'(1) f(1)])
  moreover have "beside p s s'" using beside_read [OF s'(1)] open_file_node [OF assms(2)] by simp
  ultimately show ?thesis using w(2) f(2,4) unfolding open_file_def of_int_of_nat_eq add_0 by blast
qed

text \<open>After closing, the descriptor is free and the file is as it was.\<close>

lemma close_file:
  assumes "open_file ops ok content bb k dir name i cap j p pos xs s"
  shows "\<exists>s' data d. vfs_close (int j) s = Some (0, s') \<and> beside p s s' \<and> vfs_ok s' \<and> \<not> fd_used (vfs_fd_table s' ! j) \<and>
    tinyfs_at ops bb k data d s' \<and> stored ok content dir name i cap xs data d"
proof -
  obtain n data d where f: "vfs_ok s" "3 \<le> j" "file_at j p n k pos s" "n_dirent n = Some i" "tinyfs_at ops bb k data d s"
    "stored ok content dir name i cap xs data d" using assms by (auto simp: open_file_def)
  let ?f = "\<lambda>n pd d. Some (tinyfs_close n, n, pd, d)"
  obtain s1 where s1: "call_node ?f p s = Some (0, s1)" "file_at j p n k pos s1" "tinyfs_at ops bb k data d s1"
    using call_file [OF f(3,5), of ?f] by (auto simp: tinyfs_close_def)
  let ?s = "set_fd j (\<lambda>f. f\<lparr>fd_used := False, fd_node := None, fd_position := 0\<rparr>) s1"
  have "vfs_close (int j) s = Some (0, ?s)"
    using s1(1) file_at_open [OF f(3)] file_at_target [OF f(3,5), of op_close] by (simp add: vfs_close_def tinyfs_vfs_ops_def)
  moreover have "beside p s ?s" by (rule beside_trans [OF beside_call [OF s1(1)]]) simp
  moreover have "\<not> fd_used (vfs_fd_table ?s ! j)" using s1(2) by (simp add: file_at_def set_fd_def)
  moreover have "tinyfs_at ops bb k data d ?s" using s1(3) by (simp add: tinyfs_at_def set_fd_def)
  ultimately show ?thesis using f(6) vfs_close_ok f(1) by blast
qed

text \<open>Opening a file of the root directory.\<close>

lemma open_stored:
  assumes "vfs_ok s" "tinyfs_at ops bb k data d s" "root_at r rn k s" "stored ok content (n_inode rn) name i cap xs data d"
    "name \<noteq> []" "0 \<notin> set name" "47 \<notin> set name" "length name \<le> 255" "\<exists>j. 3 \<le> j \<and> j < 256 \<and> \<not> fd_used (vfs_fd_table s ! j)"
    "node_mem s (length (vnodes s)) \<noteq> None"
  shows "\<exists>j s'. vfs_open (Some (47 # name)) flags s = Some (int j, s') \<and> open_file ops ok content bb k (n_inode rn) name i cap j (length (vnodes s)) 0 xs s' \<and>
    root_at r rn k s' \<and> r < length (vnodes s) \<and> j < 256 \<and> length (vnodes s') = Suc (length (vnodes s)) \<and> node_mem s' = node_mem s"
proof -
  obtain mem where mem: "node_mem s (length (vnodes s)) = Some mem" using assms(10) by blast
  let ?p = "length (vnodes s)" and ?n = "dirent_node data i mem"
  have dl: "length (dirents data) = 256" using assms(4) by (auto simp: stored_def tables_ok_def dirents_ok_def)
  have fi: "find_idx (named_in (n_inode rn) name) (dirents data) = Some i" using assms(4) by (simp add: stored_def)
  have find: "tinyfs_finddir (Some data) (Some rn) name (node_mem s ?p) = Some ?n"
    using assms(3) fi dl mem by (simp add: tinyfs_finddir_def root_at_def TINYFS_MAX_FILES_def)
  let ?s = "s\<lparr>vnodes := vnodes s @ [(?n, k)]\<rparr>"
  have res: "vfs_resolve_path (Some (47 # name)) s = Some (Some ?p, ?s)" by (rule vfs_resolve_at [OF assms(2,3,5-8) find])
  have at: "tinyfs_at ops bb k data d ?s" using assms(2) by (simp add: tinyfs_at_def)
  obtain j s' where j: "vfs_open (Some (47 # name)) flags s = Some (int j, s')" "3 \<le> j" "file_at j ?p ?n k 0 s'" "tinyfs_at ops bb k data d s'"
    using vfs_open_at [OF assms(1) res at _ assms(9), of ?n flags] by auto
  have r: "root_at r rn k ?s" "r < ?p" using assms(3) by (auto simp: root_at_def nth_append)
  have "beside ?p ?s s'" using j(1) res by (auto simp: vfs_open_def bind_eq_Some_conv Let_def beside_def set_fd_def allocate_fd_def call_node_def set_fs_def nth_append split: option.splits if_splits prod.splits)
  moreover have "vfs_ok s'" by (rule vfs_open_ok [OF j(1) assms(1)])
  moreover have "n_dirent ?n = Some i" by (simp add: dirent_node_def Let_def)
  ultimately show ?thesis using j assms(4) r beside_root [of ?p ?s s'] unfolding open_file_def by (auto simp: beside_def file_at_def)
qed

end
