(* ===== verification/Sched.thy ===== *)
theory Sched
  imports Memory
begin

text \<open>
  Processes, threads and the round-robin scheduler (\<open>Processes/process.c\<close>, \<open>Processes/scheduler.c\<close>).
  Pointers into the process and thread tables are indices; the ready queue is the linked list through
  the threads that the source keeps. Stacks live in the memory of the kernel heap, so that creating
  and leaving threads allocates and frees them there.
\<close>

section \<open>Data\<close>

definition MAX_PROCESSES :: nat where
  "MAX_PROCESSES = 64"

definition MAX_THREADS_PER_PROCESS :: nat where
  "MAX_THREADS_PER_PROCESS = 16"

definition MAX_THREADS_GLOBAL :: nat where
  "MAX_THREADS_GLOBAL = 256"

datatype thread_state = THREAD_STATE_READY | THREAD_STATE_RUNNING | THREAD_STATE_BLOCKED | THREAD_STATE_TERMINATED

datatype process_state = PROCESS_STATE_READY | PROCESS_STATE_RUNNING | PROCESS_STATE_BLOCKED | PROCESS_STATE_TERMINATED

record cpu_context =
  c_rsp :: u64
  c_rbp :: u64
  c_rbx :: u64
  c_r12 :: u64
  c_r13 :: u64
  c_r14 :: u64
  c_r15 :: u64
  c_rip :: u64
  c_rflags :: u64
  c_cs :: u64
  c_ss :: u64

record deadline_params =
  dl_runtime :: u64
  dl_deadline :: u64
  dl_period :: u64
  dl_absolute_deadline :: u64
  dl_remaining_runtime :: u64

record thread =
  t_tid :: u32
  t_parent :: "nat option"
  t_state :: thread_state
  t_context :: cpu_context
  t_stack_base :: u64
  t_stack_size :: u32
  t_stack_pointer :: u64
  t_sched :: deadline_params
  t_last_scheduled :: u64
  t_next :: "nat option"
  t_used :: bool
  t_private_data :: u64
  t_entry_point :: u64
  t_sleep_until :: u64

record process =
  p_pid :: u32
  p_memory_space :: u64
  p_state :: process_state
  p_threads :: "nat option list"
  p_thread_count :: nat
  p_used :: bool
  p_name :: bytes

record sched =
  process_table :: "process list"
  next_pid :: u32
  thread_table :: "thread list"
  current_thread :: "nat option"
  idle_thread :: "nat option"
  next_tid :: u32
  scheduler_enabled :: bool
  in_scheduler :: bool
  ready_queue_head :: "nat option"
  ready_queue_tail :: "nat option"
  kmem :: memory_state

definition upd_thread :: "nat \<Rightarrow> (thread \<Rightarrow> thread) \<Rightarrow> sched \<Rightarrow> sched" where
  "upd_thread t g s = s\<lparr>thread_table := (thread_table s)[t := g (thread_table s ! t)]\<rparr>"

definition upd_process :: "nat \<Rightarrow> (process \<Rightarrow> process) \<Rightarrow> sched \<Rightarrow> sched" where
  "upd_process p g s = s\<lparr>process_table := (process_table s)[p := g (process_table s ! p)]\<rparr>"

section \<open>Processes\<close>

definition process_init :: "sched \<Rightarrow> sched" where
  "process_init s = s\<lparr>process_table := map (\<lambda>p. p\<lparr>p_used := False, p_pid := 0, p_thread_count := 0,
     p_state := PROCESS_STATE_TERMINATED, p_memory_space := 0,
     p_threads := replicate MAX_THREADS_PER_PROCESS None, p_name := replicate 64 0\<rparr>) (process_table s)\<rparr>"

definition find_free_process :: "sched \<Rightarrow> int" where
  "find_free_process s =
     (case find_idx (\<lambda>p. \<not> p_used p) (take MAX_PROCESSES (process_table s)) of None \<Rightarrow> -1 | Some i \<Rightarrow> int i)"

definition process_create :: "bytes \<Rightarrow> u64 \<Rightarrow> sched \<Rightarrow> int \<times> sched" where
  "process_create name memory_space s =
     (let idx = find_free_process s in
      if idx < 0 then (-1, s)
      else let pid = next_pid s;
               s = upd_process (nat idx) (\<lambda>p. p\<lparr>p_pid := pid, p_memory_space := memory_space, p_state := PROCESS_STATE_READY,
                 p_thread_count := 0, p_used := True, p_name := put_at 0 (take 63 (cstr name) @ [0]) (p_name p)\<rparr>) s
           in (sint pid, s\<lparr>next_pid := pid + 1\<rparr>))"

definition get_process :: "u32 \<Rightarrow> sched \<Rightarrow> nat option" where
  "get_process pid s = find_idx (\<lambda>p. p_used p \<and> p_pid p = pid) (take MAX_PROCESSES (process_table s))"

section \<open>The ready queue\<close>

text \<open>
  The code links a thread behind the tail whenever the queue has a head. A head without a tail, where
  it would follow a null pointer, does not occur in states that satisfy the invariant; the model then
  only sets the tail.
\<close>

definition ready_queue_add :: "nat option \<Rightarrow> sched \<Rightarrow> sched" where
  "ready_queue_add thread s =
     (case thread of
        None \<Rightarrow> s
      | Some t \<Rightarrow>
          let s = upd_thread t (\<lambda>x. x\<lparr>t_next := None\<rparr>) s in
          if ready_queue_head s = None then s\<lparr>ready_queue_head := Some t, ready_queue_tail := Some t\<rparr>
          else (case ready_queue_tail s of
                  None \<Rightarrow> s
                | Some l \<Rightarrow> upd_thread l (\<lambda>x. x\<lparr>t_next := Some t\<rparr>) s)\<lparr>ready_queue_tail := Some t\<rparr>)"

text \<open>The walk of \<open>ready_queue_remove\<close>; on a cyclic queue that does not hold the thread it never ends.\<close>

partial_function (option) remove_walk :: "nat \<Rightarrow> nat \<Rightarrow> sched \<Rightarrow> sched option" where
  "remove_walk t current s =
     (case t_next (thread_table s ! current) of
        None \<Rightarrow> Some s
      | Some n \<Rightarrow>
          if n = t then
            let s = upd_thread current (\<lambda>x. x\<lparr>t_next := t_next (thread_table s ! t)\<rparr>) s;
                s = (if ready_queue_tail s = Some t then s\<lparr>ready_queue_tail := Some current\<rparr> else s)
            in Some (upd_thread t (\<lambda>x. x\<lparr>t_next := None\<rparr>) s)
          else remove_walk t n s)"

definition ready_queue_remove :: "nat option \<Rightarrow> sched \<Rightarrow> sched option" where
  "ready_queue_remove thread s =
     (case (thread, ready_queue_head s) of
        (Some t, Some h) \<Rightarrow>
          if h = t then
            let s = s\<lparr>ready_queue_head := t_next (thread_table s ! t)\<rparr>;
                s = (if ready_queue_tail s = Some t then s\<lparr>ready_queue_tail := None\<rparr> else s)
            in Some (upd_thread t (\<lambda>x. x\<lparr>t_next := None\<rparr>) s)
          else remove_walk t h s
      | _ \<Rightarrow> Some s)"

section \<open>Scheduling\<close>

text \<open>
  Where control goes when \<open>schedule\<close> leaves: back to the caller, to a thread whose context is loaded
  while nothing is saved, from one thread to another with both contexts exchanged, or nowhere: the
  processor is halted until an interrupt.
\<close>

datatype control = Stay | Halted | Start nat | Switch nat nat

text \<open>A running current thread goes to the end of the queue; the head of the queue is taken off and set running.\<close>

definition requeue :: "sched \<Rightarrow> sched" where
  "requeue s =
     (case current_thread s of
        None \<Rightarrow> s
      | Some p \<Rightarrow> if t_state (thread_table s ! p) = THREAD_STATE_RUNNING
                  then ready_queue_add (Some p) (upd_thread p (\<lambda>x. x\<lparr>t_state := THREAD_STATE_READY\<rparr>) s) else s)"

definition dispatch :: "nat \<Rightarrow> sched \<Rightarrow> sched" where
  "dispatch n s =
     (let s = s\<lparr>ready_queue_head := t_next (thread_table s ! n)\<rparr>;
          s = (if ready_queue_tail s = Some n then s\<lparr>ready_queue_tail := None\<rparr> else s)
      in upd_thread n (\<lambda>x. x\<lparr>t_next := None, t_state := THREAD_STATE_RUNNING\<rparr>) s)"

definition schedule_once :: "sched \<Rightarrow> control \<times> sched" where
  "schedule_once s =
     (if \<not> scheduler_enabled s then (Stay, s)
      else if in_scheduler s then (Stay, s)
      else
        let prev = current_thread s;
            s = requeue (s\<lparr>in_scheduler := True\<rparr>)
        in case ready_queue_head s of
             None \<Rightarrow>
               let s = s\<lparr>in_scheduler := False\<rparr> in
               (case prev of
                  None \<Rightarrow> (Stay, s)
                | Some p \<Rightarrow> if t_state (thread_table s ! p) = THREAD_STATE_BLOCKED then (Halted, s\<lparr>current_thread := None\<rparr>) else (Stay, s))
           | Some n \<Rightarrow>
               let s = dispatch n s
               in (case prev of
                     None \<Rightarrow> (Start n, s\<lparr>current_thread := Some n, in_scheduler := False\<rparr>)
                   | Some p \<Rightarrow> if p = n then (Stay, s\<lparr>in_scheduler := False\<rparr>)
                               else (Switch p n, s\<lparr>current_thread := Some n, in_scheduler := False\<rparr>)))"

text \<open>
  While the processor is halted, interrupt handlers run; \<open>irqs\<close> are their effects, one per wake-up, and
  \<open>schedule\<close> tries again after each. When they are used up, it is still halted.
\<close>

fun schedule :: "(sched \<Rightarrow> sched) list \<Rightarrow> sched \<Rightarrow> control \<times> sched" where
  "schedule irqs s =
     (case schedule_once s of
        (Halted, s) \<Rightarrow> (case irqs of [] \<Rightarrow> (Halted, s) | f # fs \<Rightarrow> schedule fs ((f s)\<lparr>in_scheduler := False\<rparr>))
      | r \<Rightarrow> r)"

declare schedule.simps [simp del]

definition get_scheduler_enabled :: "sched \<Rightarrow> bool" where
  "get_scheduler_enabled s = scheduler_enabled s"

definition scheduler_init :: "sched \<Rightarrow> sched" where
  "scheduler_init s = s\<lparr>thread_table := map (\<lambda>x. x\<lparr>t_used := False, t_tid := 0, t_parent := None, t_state := THREAD_STATE_TERMINATED,
     t_next := None, t_stack_base := 0, t_stack_pointer := 0, t_stack_size := 0, t_private_data := 0, t_entry_point := 0\<rparr>) (thread_table s),
     ready_queue_head := None, ready_queue_tail := None, current_thread := None, idle_thread := None,
     scheduler_enabled := False, in_scheduler := False\<rparr>"

definition scheduler_enable :: "(sched \<Rightarrow> sched) list \<Rightarrow> sched \<Rightarrow> control \<times> sched" where
  "scheduler_enable irqs s =
     (let s = s\<lparr>scheduler_enabled := True\<rparr>
      in if current_thread s = None \<and> ready_queue_head s \<noteq> None then schedule irqs s else (Stay, s))"

definition scheduler_disable :: "sched \<Rightarrow> sched" where
  "scheduler_disable s = s\<lparr>scheduler_enabled := False\<rparr>"

definition find_free_thread_slot :: "sched \<Rightarrow> int" where
  "find_free_thread_slot s =
     (case find_idx (\<lambda>x. \<not> t_used x) (take MAX_THREADS_GLOBAL (thread_table s)) of None \<Rightarrow> -1 | Some i \<Rightarrow> int i)"

section \<open>Threads\<close>

text \<open>
  The initial stack frame, from the top down: the address of \<open>thread_wrapper\<close>, six zero registers and
  the flags, in the order in which a switch to the thread pops them.
\<close>

definition zero_context :: cpu_context where
  "zero_context = \<lparr>c_rsp = 0, c_rbp = 0, c_rbx = 0, c_r12 = 0, c_r13 = 0, c_r14 = 0, c_r15 = 0, c_rip = 0, c_rflags = 0, c_cs = 0, c_ss = 0\<rparr>"

definition push_words :: "u64 list \<Rightarrow> u64 \<times> mem \<Rightarrow> u64 \<times> mem" where
  "push_words vs = fold (\<lambda>v (sp, m). (sp - 8, st64 m (sp - 8) v)) vs"

definition setup_thread_context :: "u64 \<Rightarrow> nat \<Rightarrow> sched \<Rightarrow> sched" where
  "setup_thread_context wrapper t s =
     (let x = thread_table s ! t;
          stack_top = (t_stack_base x + ucast (t_stack_size x)) AND NOT 0xF;
          (sp, m) = push_words [wrapper, 0, 0, 0, 0, 0, 0, 0x202] (stack_top, ram (kmem s))
      in (upd_thread t (\<lambda>x. x\<lparr>t_context := zero_context\<lparr>c_rsp := sp, c_rip := wrapper, c_rflags := 0x202, c_cs := 0x08, c_ss := 0x10\<rparr>\<rparr>) s)
           \<lparr>kmem := (kmem s)\<lparr>ram := m\<rparr>\<rparr>)"

text \<open>
  Filling in the thread in slot \<open>t\<close>, with its stack at \<open>base\<close>, and entering it into the array of its
  process \<open>proc\<close>.
\<close>

definition init_thread :: "u64 \<Rightarrow> nat \<Rightarrow> nat \<Rightarrow> u64 \<Rightarrow> u64 \<Rightarrow> u32 \<Rightarrow> u64 \<Rightarrow> u64 \<Rightarrow> u64 \<Rightarrow> sched \<Rightarrow> sched" where
  "init_thread wrapper t proc base entry stack_size runtime deadline period s =
     (let s = s\<lparr>kmem := (kmem s)\<lparr>ram := st (ram (kmem s)) base (replicate (unat stack_size) 0xCC)\<rparr>\<rparr>;
          tid = next_tid s;
          s = s\<lparr>next_tid := tid + 1\<rparr>;
          s = upd_thread t (\<lambda>x. x\<lparr>t_tid := tid, t_parent := Some proc, t_state := THREAD_STATE_READY, t_used := True,
                t_next := None, t_private_data := 0, t_entry_point := entry\<rparr>) s;
          s = setup_thread_context wrapper t s;
          s = upd_thread t (\<lambda>x. x\<lparr>t_sched := \<lparr>dl_runtime = runtime, dl_deadline = deadline, dl_period = period,
                dl_absolute_deadline = 0, dl_remaining_runtime = runtime\<rparr>, t_last_scheduled := 0\<rparr>) s
      in upd_process proc (\<lambda>p. p\<lparr>p_threads := (p_threads p)[p_thread_count p := Some t], p_thread_count := p_thread_count p + 1\<rparr>) s)"

text \<open>\<open>entry\<close> is the entry point, 0 for a null pointer; \<open>None\<close> when the allocator does not return.\<close>

definition thread_create :: "u64 \<Rightarrow> (sched \<Rightarrow> sched) list \<Rightarrow> u32 \<Rightarrow> u64 \<Rightarrow> u32 \<Rightarrow> u64 \<Rightarrow> u64 \<Rightarrow> u64 \<Rightarrow> sched \<Rightarrow> (int \<times> control \<times> sched) option" where
  "thread_create wrapper irqs pid entry stack_size runtime deadline period s =
     (if entry = 0 then Some (-1, Stay, s)
      else case get_process pid s of
        None \<Rightarrow> Some (-1, Stay, s)
      | Some proc \<Rightarrow>
          if p_thread_count (process_table s ! proc) \<ge> MAX_THREADS_PER_PROCESS then Some (-1, Stay, s)
          else let slot = find_free_thread_slot s in
            if slot < 0 then Some (-1, Stay, s)
            else let t = nat slot in
              Option.bind (kmalloc (ucast stack_size) (kmem s)) (\<lambda>(base, k).
              let s = upd_thread t (\<lambda>x. x\<lparr>t_stack_size := stack_size, t_stack_base := base\<rparr>) (s\<lparr>kmem := k\<rparr>) in
              if base = 0 then Some (-1, Stay, s)
              else
                let tid = next_tid s;
                    s = ready_queue_add (Some t) (init_thread wrapper t proc base entry stack_size runtime deadline period s);
                    (c, s) = (if scheduler_enabled s \<and> current_thread s = None then schedule irqs s else (Stay, s))
                in Some (sint tid, c, s)))"

definition get_thread :: "u32 \<Rightarrow> sched \<Rightarrow> nat option" where
  "get_thread tid s = find_idx (\<lambda>x. t_used x \<and> t_tid x = tid) (take MAX_THREADS_GLOBAL (thread_table s))"

definition get_current_thread :: "sched \<Rightarrow> nat option" where
  "get_current_thread s = current_thread s"

definition thread_block :: "(sched \<Rightarrow> sched) list \<Rightarrow> u32 \<Rightarrow> sched \<Rightarrow> (control \<times> sched) option" where
  "thread_block irqs tid s =
     (case get_thread tid s of
        None \<Rightarrow> Some (Stay, s)
      | Some t \<Rightarrow>
          if t_state (thread_table s ! t) = THREAD_STATE_BLOCKED then Some (Stay, s)
          else Option.bind (ready_queue_remove (Some t) (upd_thread t (\<lambda>x. x\<lparr>t_state := THREAD_STATE_BLOCKED\<rparr>) s)) (\<lambda>s.
            Some (if current_thread s = Some t then schedule irqs s else (Stay, s))))"

definition thread_unblock :: "u32 \<Rightarrow> sched \<Rightarrow> sched" where
  "thread_unblock tid s =
     (case get_thread tid s of
        None \<Rightarrow> s
      | Some t \<Rightarrow>
          if t_state (thread_table s ! t) \<noteq> THREAD_STATE_BLOCKED then s
          else ready_queue_add (Some t) (upd_thread t (\<lambda>x. x\<lparr>t_state := THREAD_STATE_READY\<rparr>) s))"

text \<open>Removing a thread from the array of its process.\<close>

definition drop_thread :: "nat \<Rightarrow> process \<Rightarrow> process" where
  "drop_thread t p =
     (let p = (case find_idx (\<lambda>x. x = Some t) (take (p_thread_count p) (p_threads p)) of
                 None \<Rightarrow> p
               | Some i \<Rightarrow>
                   let n = p_thread_count p;
                       ts = fold (\<lambda>j ts. ts[j := ts ! (j + 1)]) [i..<n - 1] (p_threads p)
                   in p\<lparr>p_threads := ts[n - 1 := None], p_thread_count := n - 1\<rparr>)
      in if p_thread_count p = 0 then p\<lparr>p_state := PROCESS_STATE_TERMINATED\<rparr> else p)"

text \<open>Leaving the current thread; with no current thread, and when \<open>schedule\<close> comes back, the processor halts for good.\<close>

definition thread_exit :: "(sched \<Rightarrow> sched) list \<Rightarrow> sched \<Rightarrow> (control \<times> sched) option" where
  "thread_exit irqs s =
     (case current_thread s of
        None \<Rightarrow> Some (Halted, s)
      | Some t \<Rightarrow>
          let s = upd_thread t (\<lambda>x. x\<lparr>t_state := THREAD_STATE_TERMINATED, t_used := False\<rparr>) s in
          Option.bind (if t_stack_base (thread_table s ! t) \<noteq> 0 then
              map_option (\<lambda>k. upd_thread t (\<lambda>x. x\<lparr>t_stack_base := 0\<rparr>) (s\<lparr>kmem := k\<rparr>)) (kfree (t_stack_base (thread_table s ! t)) (kmem s))
            else Some s) (\<lambda>s.
          let s = (case t_parent (thread_table s ! t) of None \<Rightarrow> s | Some p \<Rightarrow> upd_process p (drop_thread t) s);
              (c, s) = schedule irqs (s\<lparr>current_thread := None\<rparr>)
          in Some (if c = Stay then Halted else c, s)))"

definition thread_yield :: "(sched \<Rightarrow> sched) list \<Rightarrow> sched \<Rightarrow> control \<times> sched" where
  "thread_yield irqs s =
     (if \<not> scheduler_enabled s then (Stay, s)
      else if current_thread s = None then if ready_queue_head s \<noteq> None then schedule irqs s else (Stay, s)
      else schedule irqs s)"

definition scheduler_tick :: "(sched \<Rightarrow> sched) list \<Rightarrow> sched \<Rightarrow> control \<times> sched" where
  "scheduler_tick irqs s =
     (if \<not> scheduler_enabled s then (Stay, s)
      else if in_scheduler s then (Stay, s)
      else if ready_queue_head s \<noteq> None then schedule irqs s else (Stay, s))"

section \<open>The context switch\<close>

text \<open>
  The registers that the assembly of \<open>switch_to_thread\<close> saves. \<open>rip\<close> is where the caller continues: the
  call pushed it, the final \<open>ret\<close> pops it.
\<close>

record cpu =
  rsp :: u64
  rbx :: u64
  rbp :: u64
  r12 :: u64
  r13 :: u64
  r14 :: u64
  r15 :: u64
  rflags :: u64
  rip :: u64

definition save_frame :: "cpu \<Rightarrow> mem \<Rightarrow> u64 \<times> mem" where
  "save_frame c m = push_words [rip c, r15 c, r14 c, r13 c, r12 c, rbp c, rbx c, rflags c] (rsp c, m)"

definition load_frame :: "u64 \<Rightarrow> mem \<Rightarrow> cpu" where
  "load_frame sp m = \<lparr>rsp = sp + 64, rbx = ld64 m (sp + 8), rbp = ld64 m (sp + 16), r12 = ld64 m (sp + 24), r13 = ld64 m (sp + 32),
     r14 = ld64 m (sp + 40), r15 = ld64 m (sp + 48), rflags = ld64 m sp, rip = ld64 m (sp + 56)\<rparr>"

definition switch_to_thread :: "nat \<Rightarrow> nat \<Rightarrow> cpu \<Rightarrow> sched \<Rightarrow> cpu \<times> sched" where
  "switch_to_thread old new c s =
     (let (sp, m) = save_frame c (ram (kmem s));
          s = (upd_thread old (\<lambda>x. x\<lparr>t_context := (t_context x)\<lparr>c_rsp := sp\<rparr>\<rparr>) s)\<lparr>kmem := (kmem s)\<lparr>ram := m\<rparr>\<rparr>
      in (load_frame (c_rsp (t_context (thread_table s ! new))) m, s))"

text \<open>Loading a thread's frame without saving anything, as \<open>schedule\<close> does when no thread is current; interrupts are enabled on the way.\<close>

definition start_thread :: "nat \<Rightarrow> sched \<Rightarrow> cpu" where
  "start_thread n s =
     (let c = load_frame (c_rsp (t_context (thread_table s ! n))) (ram (kmem s)) in c\<lparr>rflags := rflags c OR 0x200\<rparr>)"

end
