(* ===== verification/Sched_Queue.thy ===== *)
theory Sched_Queue
  imports Sched
begin

text \<open>
  The ready queue as an implementation of a list: the interface of a first-in first-out queue with
  removal from any place, and the scheduler's linked list as an instance of it.
\<close>

section \<open>The interface\<close>

locale fifo_queue =
  fixes rep :: "'s \<Rightarrow> 't list \<Rightarrow> bool"
    and valid :: "'t \<Rightarrow> bool"
    and frame :: "'s \<Rightarrow> 's \<Rightarrow> bool"
    and enqueue :: "'t \<Rightarrow> 's \<Rightarrow> 's"
    and remove :: "'t \<Rightarrow> 's \<Rightarrow> 's option"
    and front :: "'s \<Rightarrow> 't option"
  assumes enqueue_rep: "rep s q \<Longrightarrow> valid t \<Longrightarrow> t \<notin> set q \<Longrightarrow> rep (enqueue t s) (q @ [t]) \<and> frame s (enqueue t s)"
    and remove_rep: "rep s q \<Longrightarrow> valid t \<Longrightarrow> \<exists>s'. remove t s = Some s' \<and> rep s' (remove1 t q) \<and> frame s s'"
    and front_rep: "rep s q \<Longrightarrow> front s = (if q = [] then None else Some (hd q))"
    and rep_distinct: "rep s q \<Longrightarrow> distinct q"
    and rep_valid: "rep s q \<Longrightarrow> t \<in> set q \<Longrightarrow> valid t"
    and frame_trans: "frame s s' \<Longrightarrow> frame s' s'' \<Longrightarrow> frame s s''"
begin

lemma pop_front:
  assumes "rep s (x # q)"
  shows "front s = Some x \<and> (\<exists>s'. remove x s = Some s' \<and> rep s' q \<and> frame s s')"
  using remove_rep [OF assms, of x] front_rep [OF assms] rep_valid [OF assms, of x] by simp

lemma rotate:
  assumes "rep s q" "valid t" "t \<notin> set q"
  shows "\<exists>s'. remove (hd (q @ [t])) (enqueue t s) = Some s' \<and> rep s' (if q = [] then [] else tl q @ [t]) \<and> frame s s'"
proof -
  note e = enqueue_rep [OF assms]
  have "remove1 (hd (q @ [t])) (q @ [t]) = (if q = [] then [] else tl q @ [t])" by (cases q) simp_all
  moreover have "valid (hd (q @ [t]))" using assms(2) rep_valid [OF assms(1)] by (cases q) simp_all
  moreover obtain s' where "remove (hd (q @ [t])) (enqueue t s) = Some s'" "rep s' (remove1 (hd (q @ [t])) (q @ [t]))" "frame (enqueue t s) s'"
    using remove_rep [OF conjunct1 [OF e], of "hd (q @ [t])"] calculation(2) by blast
  ultimately show ?thesis using frame_trans [OF conjunct2 [OF e]] by auto
qed

end

section \<open>The linked list\<close>

fun linked :: "thread list \<Rightarrow> nat option \<Rightarrow> nat list \<Rightarrow> bool" where
  "linked tt h [] \<longleftrightarrow> h = None"
| "linked tt h (x # xs) \<longleftrightarrow> h = Some x \<and> linked tt (t_next (tt ! x)) xs"

definition queue_rep :: "sched \<Rightarrow> nat list \<Rightarrow> bool" where
  "queue_rep s q \<longleftrightarrow> length (thread_table s) = 256 \<and> linked (thread_table s) (ready_queue_head s) q \<and> distinct q \<and>
     set q \<subseteq> {..<256} \<and> ready_queue_tail s = (if q = [] then None else Some (last q))"

text \<open>Two states that differ in the links of the queue only.\<close>

definition unlinked :: "sched \<Rightarrow> sched" where
  "unlinked s = s\<lparr>thread_table := map (\<lambda>x. x\<lparr>t_next := None\<rparr>) (thread_table s), ready_queue_head := None, ready_queue_tail := None\<rparr>"

definition same_threads :: "sched \<Rightarrow> sched \<Rightarrow> bool" where
  "same_threads s s' \<longleftrightarrow> unlinked s' = unlinked s"

lemma linked_cong: "(\<And>x. x \<in> set q \<Longrightarrow> t_next (tt' ! x) = t_next (tt ! x)) \<Longrightarrow> linked tt' h q = linked tt h q"
  by (induction q arbitrary: h) auto

lemma linked_snoc:
  "linked tt h (q @ [l]) \<Longrightarrow> distinct (q @ [l]) \<Longrightarrow> l < length tt \<Longrightarrow> t \<notin> set (q @ [l]) \<Longrightarrow> t < length tt \<Longrightarrow> t_next (tt ! t) = None \<Longrightarrow>
     linked (tt[l := (tt ! l)\<lparr>t_next := Some t\<rparr>]) h (q @ [l, t])"
proof (induction q arbitrary: h)
  case (Cons x q)
  then have "x \<noteq> l" by auto
  then show ?case using Cons by simp
qed auto

lemma unlinked_upd_next: "unlinked (upd_thread t (\<lambda>x. x\<lparr>t_next := n x\<rparr>) s) = unlinked s"
proof -
  have "map (\<lambda>x. x\<lparr>t_next := None\<rparr>) ((thread_table s)[t := (thread_table s ! t)\<lparr>t_next := n (thread_table s ! t)\<rparr>]) =
    map (\<lambda>x. x\<lparr>t_next := None\<rparr>) (thread_table s)"
    by (cases "t < length (thread_table s)") (simp_all add: map_update list_update_same_conv list_update_beyond)
  then show ?thesis by (simp add: unlinked_def upd_thread_def)
qed

lemma unlinked_ends: "unlinked (s\<lparr>ready_queue_head := h\<rparr>) = unlinked s" "unlinked (s\<lparr>ready_queue_tail := l\<rparr>) = unlinked s"
  by (simp_all add: unlinked_def)

lemmas unlinked_simps = unlinked_upd_next unlinked_ends

lemma upd_thread_simps [simp]:
  "ready_queue_head (upd_thread t g s) = ready_queue_head s" "ready_queue_tail (upd_thread t g s) = ready_queue_tail s"
  "length (thread_table (upd_thread t g s)) = length (thread_table s)"
  "t < length (thread_table s) \<Longrightarrow> thread_table (upd_thread t g s) ! t = g (thread_table s ! t)"
  "x \<noteq> t \<Longrightarrow> thread_table (upd_thread t g s) ! x = thread_table s ! x"
  "current_thread (upd_thread t g s) = current_thread s" "scheduler_enabled (upd_thread t g s) = scheduler_enabled s"
  "in_scheduler (upd_thread t g s) = in_scheduler s" "process_table (upd_thread t g s) = process_table s"
  "kmem (upd_thread t g s) = kmem s" "next_tid (upd_thread t g s) = next_tid s" "next_pid (upd_thread t g s) = next_pid s"
  by (simp_all add: upd_thread_def)

lemma linked_upd: "t \<notin> set q \<Longrightarrow> linked (thread_table (upd_thread t g s)) h q = linked (thread_table s) h q"
  by (rule linked_cong) (metis upd_thread_simps(5))

lemma add_rep:
  assumes "queue_rep s q" "t < 256" "t \<notin> set q"
  shows "queue_rep (ready_queue_add (Some t) s) (q @ [t])"
proof (cases "q = []")
  case True
  with assms show ?thesis by (simp add: queue_rep_def ready_queue_add_def Let_def)
next
  case False
  then obtain p l where q: "q = p @ [l]" by (cases q rule: rev_cases) auto
  let ?s = "upd_thread t (\<lambda>x. x\<lparr>t_next := None\<rparr>) s"
  have len: "length (thread_table s) = 256" and dist: "distinct (p @ [l])" and tail: "ready_queue_tail s = Some l"
    and l: "l < 256" "l \<noteq> t" and h: "linked (thread_table s) (ready_queue_head s) (p @ [l])"
    using assms by (auto simp: queue_rep_def q)
  have "linked (thread_table ?s) (ready_queue_head s) (p @ [l])"
    using h assms(3) by (simp add: linked_upd q)
  then have "linked ((thread_table ?s)[l := (thread_table ?s ! l)\<lparr>t_next := Some t\<rparr>]) (ready_queue_head s) (p @ [l, t])"
    using dist assms(2,3) len l by (intro linked_snoc) (auto simp: q)
  moreover have "ready_queue_head s \<noteq> None" using h by (cases p) auto
  ultimately show ?thesis using assms len tail
    by (auto simp: queue_rep_def ready_queue_add_def Let_def q upd_thread_def)
qed

lemma add_frame: "same_threads s (ready_queue_add (Some t) s)"
  by (auto simp: same_threads_def ready_queue_add_def Let_def unlinked_simps split: option.splits)

lemma last_hd: "distinct (x # q) \<Longrightarrow> (last (x # q) = x) = (q = [])"
  by (cases q rule: rev_cases) auto

lemma remove_head_rep:
  assumes "queue_rep s (t # q)"
  shows "\<exists>s'. ready_queue_remove (Some t) s = Some s' \<and> queue_rep s' q \<and> same_threads s s'"
proof -
  define s1 where "s1 = s\<lparr>ready_queue_head := t_next (thread_table s ! t)\<rparr>"
  define s2 where "s2 = (if ready_queue_tail s1 = Some t then s1\<lparr>ready_queue_tail := None\<rparr> else s1)"
  have a: "length (thread_table s) = 256" "ready_queue_head s = Some t" "linked (thread_table s) (t_next (thread_table s ! t)) q"
    "distinct (t # q)" "set q \<subseteq> {..<256}" "t < 256" "ready_queue_tail s = Some (last (t # q))"
    using assms by (auto simp: queue_rep_def)
  have run: "ready_queue_remove (Some t) s = Some (upd_thread t (\<lambda>x. x\<lparr>t_next := None\<rparr>) s2)"
    using a(2) by (simp add: ready_queue_remove_def s1_def s2_def Let_def)
  have "linked (thread_table (upd_thread t (\<lambda>x. x\<lparr>t_next := None\<rparr>) s)) (t_next (thread_table s ! t)) q"
    using a(3,4) by (simp add: linked_upd)
  moreover have "(last (t # q) = t) = (q = [])" by (rule last_hd [OF a(4)])
  moreover have "thread_table (upd_thread t g s2) = thread_table (upd_thread t g s)" for g by (simp add: s1_def s2_def upd_thread_def)
  moreover have "ready_queue_head s2 = t_next (thread_table s ! t)" by (simp add: s1_def s2_def)
  moreover have "ready_queue_tail s2 = (if last (t # q) = t then None else Some (last (t # q)))" using a(7) by (simp add: s1_def s2_def)
  ultimately have "queue_rep (upd_thread t (\<lambda>x. x\<lparr>t_next := None\<rparr>) s2) q"
    using a(1,4,5) by (simp add: queue_rep_def)
  moreover have "same_threads s (upd_thread t (\<lambda>x. x\<lparr>t_next := None\<rparr>) s2)"
    by (simp add: same_threads_def unlinked_simps s1_def s2_def)
  ultimately show ?thesis using run by blast
qed


lemma remove_walk_absent: "linked tt h (c # q) \<Longrightarrow> tt = thread_table s \<Longrightarrow> t \<notin> set q \<Longrightarrow> remove_walk t c s = Some s"
proof (induction q arbitrary: c h)
  case Nil
  then show ?case by (subst remove_walk.simps) simp
next
  case (Cons x q)
  then have "remove_walk t x s = Some s" by (intro Cons.IH) auto
  with Cons.prems show ?case by (subst remove_walk.simps) auto
qed

lemma remove_walk_found:
  "linked (thread_table s) h (c # p @ t # q) \<Longrightarrow> t \<notin> set p \<Longrightarrow>
    remove_walk t c s = Some (let l = last (c # p); s = upd_thread l (\<lambda>x. x\<lparr>t_next := t_next (thread_table s ! t)\<rparr>) s;
      s = (if ready_queue_tail s = Some t then s\<lparr>ready_queue_tail := Some l\<rparr> else s)
      in upd_thread t (\<lambda>x. x\<lparr>t_next := None\<rparr>) s)"
proof (induction p arbitrary: c h)
  case Nil
  then show ?case by (subst remove_walk.simps) (simp add: Let_def)
next
  case (Cons x p)
  have "remove_walk t c s = remove_walk t x s" using Cons.prems by (subst remove_walk.simps) auto
  also have "\<dots> = Some (let l = last (x # p); s = upd_thread l (\<lambda>x. x\<lparr>t_next := t_next (thread_table s ! t)\<rparr>) s;
      s = (if ready_queue_tail s = Some t then s\<lparr>ready_queue_tail := Some l\<rparr> else s)
      in upd_thread t (\<lambda>x. x\<lparr>t_next := None\<rparr>) s)"
    using Cons.prems by (intro Cons.IH [of "t_next (thread_table s ! c)"]) auto
  finally show ?case by simp
qed

lemma linked_drop:
  assumes "linked (thread_table s) h (c # p @ t # q)" "distinct (c # p @ t # q)" "last (c # p) < length (thread_table s)"
  shows "linked (thread_table (upd_thread (last (c # p)) (\<lambda>x. x\<lparr>t_next := t_next (thread_table s ! t)\<rparr>) s)) h (c # p @ q)"
  using assms
proof (induction p arbitrary: h c)
  case Nil
  then show ?case by (simp add: linked_upd)
next
  case (Cons x p)
  have "last (x # p) \<in> set (x # p)" by simp
  then have "c \<noteq> last (x # p)" using Cons.prems(2) by (metis append_Cons distinct.simps(2) in_set_conv_decomp_first Un_iff set_append)
  moreover have "linked (thread_table (upd_thread (last (x # p)) (\<lambda>x. x\<lparr>t_next := t_next (thread_table s ! t)\<rparr>) s)) (t_next (thread_table s ! c)) (x # p @ q)"
    using Cons.prems by (intro Cons.IH) simp_all
  ultimately show ?case using Cons.prems(1) by simp
qed


lemma remove_inner_rep:
  assumes "queue_rep s (c # p @ t # q)"
  shows "\<exists>s'. ready_queue_remove (Some t) s = Some s' \<and> queue_rep s' (c # p @ q) \<and> same_threads s s'"
proof -
  define l where "l = last (c # p)"
  define s1 where "s1 = upd_thread l (\<lambda>x. x\<lparr>t_next := t_next (thread_table s ! t)\<rparr>) s"
  define s2 where "s2 = (if ready_queue_tail s1 = Some t then s1\<lparr>ready_queue_tail := Some l\<rparr> else s1)"
  define s3 where "s3 = upd_thread t (\<lambda>x. x\<lparr>t_next := None\<rparr>) s2"
  have a: "length (thread_table s) = 256" "ready_queue_head s = Some c" "linked (thread_table s) (Some c) (c # p @ t # q)"
    "distinct (c # p @ t # q)" "set (c # p @ t # q) \<subseteq> {..<256}" "ready_queue_tail s = Some (last (t # q))"
    using assms by (auto simp: queue_rep_def)
  have l: "l \<in> set (c # p)" unfolding l_def by (rule last_in_set) simp
  then have "l < length (thread_table s)" using a(1,5) by auto
  then have lk: "linked (thread_table s1) (Some c) (c # p @ q)"
    using linked_drop [OF a(3,4)] by (simp add: s1_def l_def)
  have t: "t \<notin> set (c # p @ q)" "c \<noteq> t" using a(4) by auto
  have tab: "thread_table s3 = thread_table (upd_thread t (\<lambda>x. x\<lparr>t_next := None\<rparr>) s1)" by (simp add: s3_def s2_def upd_thread_def)
  have "linked (thread_table s3) (Some c) (c # p @ q)" unfolding tab by (simp only: linked_upd [OF t(1)] lk)
  moreover have "(last (t # q) = t) = (q = [])" by (rule last_hd) (use a(4) in simp)
  then have "ready_queue_tail s3 = Some (last (c # p @ q))"
    using a(6) by (auto simp: s3_def s2_def s1_def l_def)
  moreover have "ready_queue_head s3 = Some c" "length (thread_table s3) = 256" using a(1,2) by (simp_all add: s3_def s2_def s1_def)
  ultimately have "queue_rep s3 (c # p @ q)" using a(4,5) by (simp add: queue_rep_def)
  moreover have "ready_queue_remove (Some t) s = Some s3"
    using remove_walk_found [OF a(3)] a(2) t by (simp add: ready_queue_remove_def s3_def s2_def s1_def l_def Let_def)
  moreover have "same_threads s s3" by (simp add: same_threads_def unlinked_simps s3_def s2_def s1_def)
  ultimately show ?thesis by blast
qed

lemma remove_absent_rep:
  assumes "queue_rep s q" "t \<notin> set q"
  shows "ready_queue_remove (Some t) s = Some s"
proof (cases q)
  case Nil
  with assms show ?thesis by (simp add: ready_queue_remove_def queue_rep_def)
next
  case (Cons c r)
  then have "linked (thread_table s) (Some c) (c # r)" "ready_queue_head s = Some c" using assms(1) by (auto simp: queue_rep_def)
  then show ?thesis using remove_walk_absent assms(2) Cons by (simp add: ready_queue_remove_def)
qed

lemma remove_rep_list:
  assumes "queue_rep s q"
  shows "\<exists>s'. ready_queue_remove (Some t) s = Some s' \<and> queue_rep s' (remove1 t q) \<and> same_threads s s'"
proof (cases "t \<in> set q")
  case False
  then show ?thesis using assms remove_absent_rep by (simp add: remove1_idem same_threads_def)
next
  case True
  then obtain p r where q: "q = p @ t # r" "t \<notin> set p" by (meson split_list_first)
  then have "remove1 t q = p @ r" by (simp add: remove1_append)
  then show ?thesis using remove_head_rep [of s t r] remove_inner_rep [of s _ _ t r] assms q by (cases p) simp_all
qed

interpretation rq: fifo_queue queue_rep "\<lambda>t. t < 256" same_threads "\<lambda>t. ready_queue_add (Some t)" "\<lambda>t. ready_queue_remove (Some t)" ready_queue_head
proof
  fix s q t
  show "queue_rep s q \<Longrightarrow> t < 256 \<Longrightarrow> t \<notin> set q \<Longrightarrow> queue_rep (ready_queue_add (Some t) s) (q @ [t]) \<and> same_threads s (ready_queue_add (Some t) s)"
    using add_rep add_frame by blast
  show "queue_rep s q \<Longrightarrow> t < 256 \<Longrightarrow> \<exists>s'. ready_queue_remove (Some t) s = Some s' \<and> queue_rep s' (remove1 t q) \<and> same_threads s s'"
    using remove_rep_list by blast
  show "queue_rep s q \<Longrightarrow> ready_queue_head s = (if q = [] then None else Some (hd q))"
    by (cases q) (auto simp: queue_rep_def)
  show "queue_rep s q \<Longrightarrow> distinct q" by (simp add: queue_rep_def)
  show "queue_rep s q \<Longrightarrow> t \<in> set q \<Longrightarrow> t < 256" by (auto simp: queue_rep_def)
next
  fix s s' s''
  show "same_threads s s' \<Longrightarrow> same_threads s' s'' \<Longrightarrow> same_threads s s''" by (simp add: same_threads_def)
qed

text \<open>What the operations on the queue leave alone.\<close>

lemma same_threadsD:
  assumes "same_threads s s'"
  shows "current_thread s' = current_thread s" "scheduler_enabled s' = scheduler_enabled s" "in_scheduler s' = in_scheduler s"
    "process_table s' = process_table s" "kmem s' = kmem s" "length (thread_table s') = length (thread_table s)"
    "next_tid s' = next_tid s" "next_pid s' = next_pid s"
    "t < length (thread_table s) \<Longrightarrow> (thread_table s' ! t)\<lparr>t_next := None\<rparr> = (thread_table s ! t)\<lparr>t_next := None\<rparr>"
proof -
  have e: "unlinked s' = unlinked s" using assms by (simp add: same_threads_def)
  show "current_thread s' = current_thread s" "scheduler_enabled s' = scheduler_enabled s" "in_scheduler s' = in_scheduler s"
    "process_table s' = process_table s" "kmem s' = kmem s" "next_tid s' = next_tid s" "next_pid s' = next_pid s"
    using arg_cong [OF e, of current_thread] arg_cong [OF e, of scheduler_enabled] arg_cong [OF e, of in_scheduler]
      arg_cong [OF e, of process_table] arg_cong [OF e, of kmem] arg_cong [OF e, of next_tid] arg_cong [OF e, of next_pid]
    by (simp_all add: unlinked_def)
  have m: "map (\<lambda>x. x\<lparr>t_next := None\<rparr>) (thread_table s') = map (\<lambda>x. x\<lparr>t_next := None\<rparr>) (thread_table s)"
    using arg_cong [OF e, of thread_table] by (simp add: unlinked_def)
  then show len: "length (thread_table s') = length (thread_table s)" by (metis length_map)
  show "(thread_table s' ! t)\<lparr>t_next := None\<rparr> = (thread_table s ! t)\<lparr>t_next := None\<rparr>" if "t < length (thread_table s)"
    using arg_cong [OF m, of "\<lambda>xs. xs ! t"] that len by simp
qed

end
