(* ===== verification/Sched_Inv.thy ===== *)
theory Sched_Inv
  imports Sched_Queue
begin

text \<open>
  Invariants of the scheduler: the ready queue holds exactly the ready threads, at most one thread
  runs and it is the current one, and the processes list exactly their threads. They are kept by
  every operation, and give the round-robin order and its liveness.
\<close>

section \<open>Threads in their states\<close>

definition state_at :: "sched \<Rightarrow> nat \<Rightarrow> thread_state \<Rightarrow> bool" where
  "state_at s t ts \<longleftrightarrow> t_used (thread_table s ! t) \<and> t_state (thread_table s ! t) = ts"

definition ready_ok :: "sched \<Rightarrow> nat list \<Rightarrow> bool" where
  "ready_ok s q \<longleftrightarrow> queue_rep s q \<and> (\<forall>t < 256. t \<in> set q \<longleftrightarrow> state_at s t THREAD_STATE_READY)"

definition sched_ok :: "sched \<Rightarrow> nat list \<Rightarrow> bool" where
  "sched_ok s q \<longleftrightarrow> ready_ok s q \<and> \<not> in_scheduler s \<and>
     (\<forall>t < 256. state_at s t THREAD_STATE_RUNNING \<longleftrightarrow> current_thread s = Some t) \<and>
     (\<forall>t. current_thread s = Some t \<longrightarrow> t < 256)"

lemma same_attrs:
  assumes "same_threads s s'" "t < length (thread_table s)"
  shows "t_used (thread_table s' ! t) = t_used (thread_table s ! t)" "t_state (thread_table s' ! t) = t_state (thread_table s ! t)"
    "t_parent (thread_table s' ! t) = t_parent (thread_table s ! t)" "t_tid (thread_table s' ! t) = t_tid (thread_table s ! t)"
    "t_context (thread_table s' ! t) = t_context (thread_table s ! t)"
proof -
  note e = same_threadsD(9) [OF assms]
  show "t_used (thread_table s' ! t) = t_used (thread_table s ! t)" using arg_cong [OF e, of t_used] by simp
  show "t_state (thread_table s' ! t) = t_state (thread_table s ! t)" using arg_cong [OF e, of t_state] by simp
  show "t_parent (thread_table s' ! t) = t_parent (thread_table s ! t)" using arg_cong [OF e, of t_parent] by simp
  show "t_tid (thread_table s' ! t) = t_tid (thread_table s ! t)" using arg_cong [OF e, of t_tid] by simp
  show "t_context (thread_table s' ! t) = t_context (thread_table s ! t)" using arg_cong [OF e, of t_context] by simp
qed

lemma state_at_same: "same_threads s s' \<Longrightarrow> t < length (thread_table s) \<Longrightarrow> state_at s' t ts = state_at s t ts"
  by (simp add: state_at_def same_attrs)

lemma ready_ok_len: "ready_ok s q \<Longrightarrow> length (thread_table s) = 256"
  by (simp add: ready_ok_def queue_rep_def)

text \<open>Changing attributes of one thread other than its link keeps the queue.\<close>

lemma queue_rep_upd:
  assumes "queue_rep s q" "t_next (g (thread_table s ! t)) = t_next (thread_table s ! t)"
  shows "queue_rep (upd_thread t g s) q"
proof -
  have "t_next (thread_table (upd_thread t g s) ! x) = t_next (thread_table s ! x)" for x
  proof (cases "x = t \<and> t < length (thread_table s)")
    case True
    then show ?thesis using assms(2) by simp
  next
    case False
    then show ?thesis by (auto simp: upd_thread_def list_update_beyond)
  qed
  then have "linked (thread_table (upd_thread t g s)) h q = linked (thread_table s) h q" for h by (intro linked_cong) simp
  then show ?thesis using assms(1) by (simp add: queue_rep_def)
qed

lemma state_at_upd:
  assumes "t < length (thread_table s)"
  shows "state_at (upd_thread t g s) x ts = (if x = t then t_used (g (thread_table s ! t)) \<and> t_state (g (thread_table s ! t)) = ts else state_at s x ts)"
  using assms by (simp add: state_at_def)

lemma state_at_unique: "state_at s t a \<Longrightarrow> state_at s t b \<Longrightarrow> a = b"
  by (auto simp: state_at_def)

lemma state_at_cong [simp]:
  "state_at (s\<lparr>in_scheduler := b\<rparr>) t ts = state_at s t ts" "state_at (s\<lparr>current_thread := c\<rparr>) t ts = state_at s t ts"
  "state_at (s\<lparr>scheduler_enabled := b\<rparr>) t ts = state_at s t ts" "state_at (s\<lparr>kmem := k\<rparr>) t ts = state_at s t ts"
  "state_at (upd_process p f s) t ts = state_at s t ts" "state_at (s\<lparr>next_tid := n\<rparr>) t ts = state_at s t ts"
  "state_at (s\<lparr>next_pid := n\<rparr>) t ts = state_at s t ts"
  by (simp_all add: state_at_def upd_process_def)

lemma queue_rep_cong [simp]:
  "queue_rep (s\<lparr>in_scheduler := b\<rparr>) q = queue_rep s q" "queue_rep (s\<lparr>current_thread := c\<rparr>) q = queue_rep s q"
  "queue_rep (s\<lparr>scheduler_enabled := b\<rparr>) q = queue_rep s q" "queue_rep (s\<lparr>kmem := k\<rparr>) q = queue_rep s q"
  "queue_rep (upd_process p f s) q = queue_rep s q" "queue_rep (s\<lparr>next_tid := n\<rparr>) q = queue_rep s q" "queue_rep (s\<lparr>next_pid := n\<rparr>) q = queue_rep s q"
  by (simp_all add: queue_rep_def upd_process_def)

lemma ready_ok_cong [simp]:
  "ready_ok (s\<lparr>in_scheduler := b\<rparr>) q = ready_ok s q" "ready_ok (s\<lparr>current_thread := c\<rparr>) q = ready_ok s q"
  "ready_ok (s\<lparr>scheduler_enabled := b\<rparr>) q = ready_ok s q" "ready_ok (s\<lparr>kmem := k\<rparr>) q = ready_ok s q"
  "ready_ok (upd_process p f s) q = ready_ok s q" "ready_ok (s\<lparr>next_tid := n\<rparr>) q = ready_ok s q" "ready_ok (s\<lparr>next_pid := n\<rparr>) q = ready_ok s q"
  by (simp_all add: ready_ok_def)

lemma upd_process_simps [simp]:
  "current_thread (upd_process p f s) = current_thread s" "in_scheduler (upd_process p f s) = in_scheduler s"
  "thread_table (upd_process p f s) = thread_table s" "scheduler_enabled (upd_process p f s) = scheduler_enabled s"
  "kmem (upd_process p f s) = kmem s"
  by (simp_all add: upd_process_def)

lemma ready_head: "ready_ok s q \<Longrightarrow> ready_queue_head s = (case q of [] \<Rightarrow> None | x # _ \<Rightarrow> Some x)"
  using rq.front_rep [of s q] by (simp add: ready_ok_def split: list.splits)

section \<open>Queueing and dispatching\<close>

lemma enqueue_ready:
  assumes "ready_ok s q" "t < 256" "t \<notin> set q" "\<And>x. t_next (g x) = t_next x" "t_used (g (thread_table s ! t))"
    "t_state (g (thread_table s ! t)) = THREAD_STATE_READY"
  shows "ready_ok (ready_queue_add (Some t) (upd_thread t g s)) (q @ [t])"
    "same_threads (upd_thread t g s) (ready_queue_add (Some t) (upd_thread t g s))"
proof -
  note len = ready_ok_len [OF assms(1)]
  have "queue_rep (upd_thread t g s) q" using assms(1,4) by (simp add: ready_ok_def queue_rep_upd)
  note e = rq.enqueue_rep [OF this assms(2,3)]
  show "same_threads (upd_thread t g s) (ready_queue_add (Some t) (upd_thread t g s))" using e by blast
  have "state_at (ready_queue_add (Some t) (upd_thread t g s)) x THREAD_STATE_READY = (x \<in> set (q @ [t]))" if "x < 256" for x
    using state_at_same [OF conjunct2 [OF e], of x] that len assms by (auto simp: state_at_upd ready_ok_def)
  with e show "ready_ok (ready_queue_add (Some t) (upd_thread t g s)) (q @ [t])" by (simp add: ready_ok_def)
qed

lemma dispatch_remove:
  assumes "ready_queue_head s = Some n" "n < length (thread_table s)"
  shows "\<exists>s1. ready_queue_remove (Some n) s = Some s1 \<and> dispatch n s = upd_thread n (\<lambda>x. x\<lparr>t_state := THREAD_STATE_RUNNING\<rparr>) s1"
  using assms by (simp add: ready_queue_remove_def dispatch_def Let_def upd_thread_def)

lemma dispatch_ready:
  assumes "ready_ok s (n # q)"
  shows "ready_ok (dispatch n s) q" "n < 256"
    "\<And>x ts. x < 256 \<Longrightarrow> state_at (dispatch n s) x ts = (if x = n then ts = THREAD_STATE_RUNNING else state_at s x ts)"
    "current_thread (dispatch n s) = current_thread s" "scheduler_enabled (dispatch n s) = scheduler_enabled s"
    "process_table (dispatch n s) = process_table s" "kmem (dispatch n s) = kmem s"
proof -
  have r: "queue_rep s (n # q)" and len: "length (thread_table s) = 256" using assms by (auto simp: ready_ok_def queue_rep_def)
  show n: "n < 256" using r by (simp add: queue_rep_def)
  obtain s1 where s1: "ready_queue_remove (Some n) s = Some s1" "dispatch n s = upd_thread n (\<lambda>x. x\<lparr>t_state := THREAD_STATE_RUNNING\<rparr>) s1"
    using dispatch_remove [of s n] rq.front_rep [OF r] n len by auto
  then have s1': "queue_rep s1 q" "same_threads s s1" using rq.pop_front [OF r] by auto
  note same = same_threadsD [OF s1'(2)]
  show ts: "state_at (dispatch n s) x ts = (if x = n then ts = THREAD_STATE_RUNNING else state_at s x ts)" if "x < 256" for x ts
  proof -
    have "t_used (thread_table s ! n)" using assms n unfolding ready_ok_def state_at_def by (metis list.set_intros(1))
    then show ?thesis using that same(6) len n state_at_same [OF s1'(2)] same_attrs [OF s1'(2)] by (auto simp: s1(2) state_at_upd)
  qed
  have "queue_rep (dispatch n s) q" unfolding s1(2) by (rule queue_rep_upd [OF s1'(1)]) simp
  moreover have "x \<in> set q \<longleftrightarrow> state_at (dispatch n s) x THREAD_STATE_READY" if "x < 256" for x
    using ts [OF that] assms that r by (auto simp: ready_ok_def queue_rep_def)
  ultimately show "ready_ok (dispatch n s) q" by (simp add: ready_ok_def)
  show "current_thread (dispatch n s) = current_thread s" "scheduler_enabled (dispatch n s) = scheduler_enabled s"
    "process_table (dispatch n s) = process_table s" "kmem (dispatch n s) = kmem s"
    using same by (simp_all add: s1(2))
qed


section \<open>One pass of the scheduler\<close>

text \<open>The current thread just before the choice: running, or blocked by its own request.\<close>

definition sched_pre :: "sched \<Rightarrow> nat list \<Rightarrow> bool" where
  "sched_pre s q \<longleftrightarrow> ready_ok s q \<and> \<not> in_scheduler s \<and>
     (\<forall>t < 256. state_at s t THREAD_STATE_RUNNING \<longrightarrow> current_thread s = Some t) \<and>
     (\<forall>t. current_thread s = Some t \<longrightarrow> t < 256 \<and> (state_at s t THREAD_STATE_RUNNING \<or> state_at s t THREAD_STATE_BLOCKED))"

lemma sched_ok_pre: "sched_ok s q \<Longrightarrow> sched_pre s q"
  by (auto simp: sched_ok_def sched_pre_def)

text \<open>Round robin: the control transfer, the new queue and the new current thread.\<close>

definition round_robin :: "nat option \<Rightarrow> bool \<Rightarrow> nat list \<Rightarrow> control \<times> nat list \<times> nat option" where
  "round_robin cur blocked q =
     (case (cur, q) of
        (None, []) \<Rightarrow> (Stay, [], None)
      | (None, x # xs) \<Rightarrow> (Start x, xs, Some x)
      | (Some p, []) \<Rightarrow> if blocked then (Halted, [], None) else (Stay, [], Some p)
      | (Some p, x # xs) \<Rightarrow> (Switch p x, if blocked then xs else xs @ [p], Some x))"

definition cur_blocked :: "sched \<Rightarrow> bool" where
  "cur_blocked s \<longleftrightarrow> (\<exists>t. current_thread s = Some t \<and> state_at s t THREAD_STATE_BLOCKED)"

lemma dispatch_ok:
  assumes "ready_ok s (x # q)" "\<And>t. t < 256 \<Longrightarrow> \<not> state_at s t THREAD_STATE_RUNNING"
  shows "sched_ok ((dispatch x s)\<lparr>current_thread := Some x, in_scheduler := False\<rparr>) q"
  using dispatch_ready [OF assms(1)] assms(2) by (simp add: sched_ok_def)

lemma dispatch_self:
  assumes "current_thread s = Some x" "ready_ok s [x]" "\<And>t. t < 256 \<Longrightarrow> \<not> state_at s t THREAD_STATE_RUNNING"
  shows "sched_ok ((dispatch x s)\<lparr>in_scheduler := False\<rparr>) []"
  using dispatch_ready [OF assms(2)] assms(1,3) by (auto simp: sched_ok_def)

text \<open>The requeueing of a running thread.\<close>

lemma requeue_running:
  assumes "sched_pre s q" "current_thread s = Some p" "state_at s p THREAD_STATE_RUNNING"
  defines "s1 \<equiv> ready_queue_add (Some p) (upd_thread p (\<lambda>x. x\<lparr>t_state := THREAD_STATE_READY\<rparr>) (s\<lparr>in_scheduler := True\<rparr>))"
  shows "ready_ok s1 (q @ [p])" "\<And>t. t < 256 \<Longrightarrow> \<not> state_at s1 t THREAD_STATE_RUNNING" "current_thread s1 = Some p"
proof -
  have p: "p < 256" and r: "ready_ok s q" and len: "length (thread_table s) = 256"
    using assms(1,2) ready_ok_len by (auto simp: sched_pre_def)
  have np: "p \<notin> set q" using r p assms(3) state_at_unique unfolding ready_ok_def by fastforce
  have u: "t_used (thread_table s ! p)" using assms(3) by (simp add: state_at_def)
  let ?g = "\<lambda>x :: thread. x\<lparr>t_state := THREAD_STATE_READY\<rparr>"
  have r': "ready_ok (s\<lparr>in_scheduler := True\<rparr>) q" using r by simp
  have e1: "ready_ok s1 (q @ [p])" "same_threads (upd_thread p ?g (s\<lparr>in_scheduler := True\<rparr>)) s1"
    unfolding s1_def using enqueue_ready [OF r' p np, of ?g] u by auto
  show "ready_ok s1 (q @ [p])" by (rule e1(1))
  show "current_thread s1 = Some p" using same_threadsD(1) [OF e1(2)] assms(2) by simp
  show "\<not> state_at s1 t THREAD_STATE_RUNNING" if "t < 256" for t
  proof -
    have "state_at s1 t THREAD_STATE_RUNNING = (t \<noteq> p \<and> state_at s t THREAD_STATE_RUNNING)"
      using state_at_same [OF e1(2), of t THREAD_STATE_RUNNING] that len p by (simp add: state_at_upd)
    moreover have "state_at s t THREAD_STATE_RUNNING \<Longrightarrow> current_thread s = Some t" using assms(1) that unfolding sched_pre_def by blast
    ultimately show ?thesis using assms(2) by auto
  qed
qed

lemma schedule_once_running:
  assumes "sched_pre s q" "scheduler_enabled s" "current_thread s = Some p" "state_at s p THREAD_STATE_RUNNING"
  shows "\<exists>s'. schedule_once s = (fst (round_robin (Some p) False q), s') \<and>
    sched_ok s' (fst (snd (round_robin (Some p) False q))) \<and> current_thread s' = snd (snd (round_robin (Some p) False q))"
proof -
  define s1 where "s1 = ready_queue_add (Some p) (upd_thread p (\<lambda>x. x\<lparr>t_state := THREAD_STATE_READY\<rparr>) (s\<lparr>in_scheduler := True\<rparr>))"
  note r = requeue_running [OF assms(1,3,4), folded s1_def]
  have p: "t_state (thread_table s ! p) = THREAD_STATE_RUNNING" "\<not> in_scheduler s" using assms by (auto simp: state_at_def sched_pre_def)
  show ?thesis
  proof (cases q)
    case Nil
    then have "ready_queue_head s1 = Some p" using ready_head [OF r(1)] by simp
    then have "schedule_once s = (Stay, (dispatch p s1)\<lparr>in_scheduler := False\<rparr>)"
      using assms(2,3) p by (simp add: schedule_once_def Let_def s1_def requeue_def)
    moreover have "current_thread (dispatch p s1) = Some p" using dispatch_ready(4) [of s1 p "[]"] r Nil by simp
    ultimately show ?thesis using dispatch_self [OF r(3) _ r(2)] r(1) Nil by (simp add: round_robin_def)
  next
    case (Cons x xs)
    then have h: "ready_queue_head s1 = Some x" using ready_head [OF r(1)] by simp
    have "p \<noteq> x" using r(1) Cons by (auto simp: ready_ok_def queue_rep_def)
    then have "schedule_once s = (Switch p x, (dispatch x s1)\<lparr>current_thread := Some x, in_scheduler := False\<rparr>)"
      using assms(2,3) p h by (simp add: schedule_once_def Let_def s1_def requeue_def)
    then show ?thesis using dispatch_ok [OF _ r(2)] r(1) Cons by (simp add: round_robin_def)
  qed
qed

lemma schedule_once_not_running:
  assumes "sched_pre s q" "scheduler_enabled s" "\<And>t. t < 256 \<Longrightarrow> \<not> state_at s t THREAD_STATE_RUNNING"
  shows "\<exists>s'. schedule_once s = (fst (round_robin (current_thread s) True q), s') \<and>
    sched_ok s' (fst (snd (round_robin (current_thread s) True q))) \<and> current_thread s' = snd (snd (round_robin (current_thread s) True q))"
proof -
  let ?s = "s\<lparr>in_scheduler := True\<rparr>"
  have r: "ready_ok ?s q" "\<not> in_scheduler s" using assms(1) by (auto simp: sched_pre_def)
  have b: "t_state (thread_table s ! p) = THREAD_STATE_BLOCKED \<and> p < 256 \<and> state_at s p THREAD_STATE_BLOCKED" if "current_thread s = Some p" for p
    using assms(1,3) that by (auto simp: sched_pre_def state_at_def)
  show ?thesis
  proof (cases q)
    case Nil
    then have h: "ready_queue_head ?s = None" using ready_head [OF r(1)] by simp
    have "sched_ok (s\<lparr>in_scheduler := False, current_thread := None\<rparr>) []" using r assms(3) Nil by (auto simp: sched_ok_def)
    moreover have "s\<lparr>in_scheduler := False, current_thread := None\<rparr> = s\<lparr>in_scheduler := False\<rparr>" if "current_thread s = None" using that by simp
    ultimately show ?thesis using h assms(2) r(2) b Nil
      by (cases "current_thread s") (auto simp: schedule_once_def Let_def requeue_def round_robin_def)
  next
    case (Cons x xs)
    then have h: "ready_queue_head ?s = Some x" using ready_head [OF r(1)] by simp
    have x: "state_at s x THREAD_STATE_READY" "x < 256" using r(1) Cons by (auto simp: ready_ok_def queue_rep_def)
    then have "current_thread s \<noteq> Some x" using b [of x] state_at_unique by blast
    then have "schedule_once s = (fst (round_robin (current_thread s) True q), (dispatch x ?s)\<lparr>current_thread := Some x, in_scheduler := False\<rparr>)"
      using assms(2) r(2) h b Cons
      by (cases "current_thread s") (auto simp: schedule_once_def Let_def requeue_def round_robin_def)
    then show ?thesis using dispatch_ok [of ?s x xs] r(1) assms(3) Cons by (cases "current_thread s") (simp_all add: round_robin_def)
  qed
qed


lemma schedule_once_spec:
  assumes "sched_pre s q" "scheduler_enabled s" "round_robin (current_thread s) (cur_blocked s) q = (c, q', cur)"
  shows "\<exists>s'. schedule_once s = (c, s') \<and> sched_ok s' q' \<and> current_thread s' = cur"
proof (cases "\<exists>p. current_thread s = Some p \<and> state_at s p THREAD_STATE_RUNNING")
  case True
  then obtain p where p: "current_thread s = Some p" "state_at s p THREAD_STATE_RUNNING" by blast
  then have "\<not> cur_blocked s" by (auto simp: cur_blocked_def dest: state_at_unique)
  then show ?thesis using schedule_once_running [OF assms(1,2) p] assms(3) p(1) by simp
next
  case False
  have "\<not> state_at s t THREAD_STATE_RUNNING" if "t < 256" for t
    using assms(1) False that unfolding sched_pre_def by blast
  moreover have "round_robin (current_thread s) True q = (c, q', cur)"
  proof (cases "current_thread s")
    case None
    with assms(3) show ?thesis by (cases q) (simp_all add: round_robin_def)
  next
    case (Some p)
    then have "cur_blocked s" using assms(1) False unfolding sched_pre_def cur_blocked_def by blast
    with assms(3) show ?thesis by simp
  qed
  ultimately show ?thesis using schedule_once_not_running [OF assms(1,2)] by simp
qed

lemma sched_ok_not_blocked: "sched_ok s q \<Longrightarrow> \<not> cur_blocked s"
  by (auto simp: sched_ok_def cur_blocked_def dest: state_at_unique)

section \<open>What scheduling leaves alone\<close>

definition attrs :: "thread \<Rightarrow> bool \<times> nat option \<times> u32 \<times> cpu_context" where
  "attrs x = (t_used x, t_parent x, t_tid x, t_context x)"

definition keeps :: "sched \<Rightarrow> sched \<Rightarrow> bool" where
  "keeps s s' \<longleftrightarrow> map attrs (thread_table s') = map attrs (thread_table s) \<and> process_table s' = process_table s \<and>
     kmem s' = kmem s \<and> scheduler_enabled s' = scheduler_enabled s"

lemma keeps_refl [simp]: "keeps s s"
  by (simp add: keeps_def)

lemma keeps_trans: "keeps s s' \<Longrightarrow> keeps s' s'' \<Longrightarrow> keeps s s''"
  by (simp add: keeps_def)

lemma keeps_upd: "(\<And>x. attrs (g x) = attrs x) \<Longrightarrow> keeps s (upd_thread t g s)"
  by (cases "t < length (thread_table s)") (simp_all add: keeps_def upd_thread_def map_update list_update_same_conv list_update_beyond)

lemma keeps_links [simp]: "keeps s (s\<lparr>ready_queue_head := h\<rparr>)" "keeps s (s\<lparr>ready_queue_tail := h\<rparr>)"
  "keeps s (s\<lparr>current_thread := c\<rparr>)" "keeps s (s\<lparr>in_scheduler := b\<rparr>)"
  by (simp_all add: keeps_def)

lemma keeps_add: "keeps s (ready_queue_add t s)"
proof (cases t)
  case (Some x)
  let ?s = "upd_thread x (\<lambda>y. y\<lparr>t_next := None\<rparr>) s"
  have a: "keeps s ?s" by (rule keeps_upd) (simp add: attrs_def)
  show ?thesis
  proof (cases "ready_queue_head ?s = None")
    case True
    have "keeps ?s (?s\<lparr>ready_queue_head := Some x, ready_queue_tail := Some x\<rparr>)" by (simp add: keeps_def)
    with True show ?thesis using Some a keeps_trans by (simp add: ready_queue_add_def Let_def)
  next
    case False
    have b: "keeps ?s (case ready_queue_tail ?s of None \<Rightarrow> ?s | Some l \<Rightarrow> upd_thread l (\<lambda>y. y\<lparr>t_next := Some x\<rparr>) ?s)" (is "keeps ?s ?s2")
      by (auto split: option.split intro: keeps_upd simp: attrs_def)
    have "keeps ?s2 (?s2\<lparr>ready_queue_tail := Some x\<rparr>)" by simp
    then have "keeps s (?s2\<lparr>ready_queue_tail := Some x\<rparr>)" by (intro keeps_trans [OF a keeps_trans [OF b]])
    moreover have "ready_queue_add t s = ?s2\<lparr>ready_queue_tail := Some x\<rparr>" using False Some by (auto simp: ready_queue_add_def Let_def)
    ultimately show ?thesis by simp
  qed
qed (simp add: ready_queue_add_def)

lemma keeps_dispatch: "keeps s (dispatch n s)"
proof -
  let ?s = "let s = s\<lparr>ready_queue_head := t_next (thread_table s ! n)\<rparr> in if ready_queue_tail s = Some n then s\<lparr>ready_queue_tail := None\<rparr> else s"
  have "keeps s ?s" by (simp add: keeps_def Let_def)
  moreover have "keeps ?s (upd_thread n (\<lambda>x. x\<lparr>t_next := None, t_state := THREAD_STATE_RUNNING\<rparr>) ?s)" by (rule keeps_upd) (simp add: attrs_def)
  ultimately show ?thesis unfolding dispatch_def Let_def by (rule keeps_trans)
qed

lemma keeps_requeue: "keeps s (requeue s)"
proof (cases "current_thread s")
  case (Some p)
  have "keeps s (upd_thread p (\<lambda>x. x\<lparr>t_state := THREAD_STATE_READY\<rparr>) s)" by (rule keeps_upd) (simp add: attrs_def)
  then show ?thesis using Some keeps_trans [OF _ keeps_add] by (simp add: requeue_def)
qed (simp add: requeue_def)

lemma keeps_schedule_once:
  assumes a: "schedule_once s = (c, s')"
  shows "keeps s s'"
proof (cases "\<not> scheduler_enabled s \<or> in_scheduler s")
  case False
  let ?s = "requeue (s\<lparr>in_scheduler := True\<rparr>)"
  have k: "keeps s ?s" by (rule keeps_trans [OF _ keeps_requeue]) simp
  have "s' = ?s\<lparr>in_scheduler := False\<rparr> \<or> s' = ?s\<lparr>in_scheduler := False, current_thread := None\<rparr> \<or>
    (\<exists>n. s' = (dispatch n ?s)\<lparr>in_scheduler := False\<rparr> \<or> s' = (dispatch n ?s)\<lparr>current_thread := Some n, in_scheduler := False\<rparr>)"
    using a False unfolding schedule_once_def Let_def
    by (auto split: option.splits if_splits)
  moreover have "keeps x (x\<lparr>in_scheduler := False, current_thread := d\<rparr>)" "keeps x (x\<lparr>current_thread := d, in_scheduler := False\<rparr>)" for x d
    by (simp_all add: keeps_def)
  ultimately show ?thesis using keeps_trans [OF k] keeps_trans [OF keeps_dispatch] keeps_links by metis
next
  case True
  with a show ?thesis by (auto simp: schedule_once_def split: if_splits)
qed

section \<open>Scheduling with interrupts\<close>

text \<open>An interrupt that wakes threads.\<close>

definition wake :: "u32 list \<Rightarrow> sched \<Rightarrow> sched" where
  "wake = fold thread_unblock"

lemma get_thread_valid: "get_thread tid s = Some t \<Longrightarrow> t < 256 \<and> t < length (thread_table s) \<and> t_used (thread_table s ! t)"
  by (auto simp: get_thread_def MAX_THREADS_GLOBAL_def dest!: find_idx_SomeD)

lemma unblock_spec:
  assumes "sched_ok s q" "get_thread tid s = Some t" "t_state (thread_table s ! t) = THREAD_STATE_BLOCKED"
  shows "sched_ok (thread_unblock tid s) (q @ [t])" "current_thread (thread_unblock tid s) = current_thread s"
proof -
  note v = get_thread_valid [OF assms(2)]
  let ?g = "\<lambda>x :: thread. x\<lparr>t_state := THREAD_STATE_READY\<rparr>"
  have r: "ready_ok s q" and len: "length (thread_table s) = 256" using assms(1) ready_ok_len by (auto simp: sched_ok_def)
  have b: "state_at s t THREAD_STATE_BLOCKED" using assms(3) v by (simp add: state_at_def)
  have nq: "t \<notin> set q" using r v state_at_unique [OF b] unfolding ready_ok_def by blast
  define s' where "s' = thread_unblock tid s"
  have s': "s' = ready_queue_add (Some t) (upd_thread t ?g s)" using assms(2,3) by (simp add: s'_def thread_unblock_def)
  have e: "ready_ok s' (q @ [t])" "same_threads (upd_thread t ?g s) s'"
    unfolding s' using enqueue_ready [OF r _ nq, of ?g] v by auto
  have run: "state_at s' x THREAD_STATE_RUNNING = (current_thread s = Some x)" if "x < 256" for x
  proof -
    have "state_at s' x THREAD_STATE_RUNNING = (x \<noteq> t \<and> state_at s x THREAD_STATE_RUNNING)"
      using state_at_same [OF e(2), of x THREAD_STATE_RUNNING] that len v by (simp add: state_at_upd)
    moreover have "\<not> state_at s t THREAD_STATE_RUNNING" using state_at_unique [OF b] by blast
    moreover have "state_at s x THREAD_STATE_RUNNING = (current_thread s = Some x)" using assms(1) that unfolding sched_ok_def by blast
    ultimately show ?thesis by blast
  qed
  show "sched_ok (thread_unblock tid s) (q @ [t])" "current_thread (thread_unblock tid s) = current_thread s"
    using e(1) run assms(1) same_threadsD(1,3) [OF e(2)] unfolding s'_def [symmetric] by (simp_all add: sched_ok_def)
qed

lemma unblock_keeps: "keeps s (thread_unblock tid s)"
proof (cases "get_thread tid s")
  case (Some t)
  have "keeps s (upd_thread t (\<lambda>x. x\<lparr>t_state := THREAD_STATE_READY\<rparr>) s)" by (rule keeps_upd) (simp add: attrs_def)
  then show ?thesis using Some keeps_trans [OF _ keeps_add] by (simp add: thread_unblock_def)
qed (simp add: thread_unblock_def)

lemma unblock_ok:
  assumes "sched_ok s q"
  shows "\<exists>q'. sched_ok (thread_unblock tid s) q'" "keeps s (thread_unblock tid s)"
proof -
  show "keeps s (thread_unblock tid s)" by (rule unblock_keeps)
  show "\<exists>q'. sched_ok (thread_unblock tid s) q'"
  proof (cases "\<exists>t. get_thread tid s = Some t \<and> t_state (thread_table s ! t) = THREAD_STATE_BLOCKED")
    case False
    then have "thread_unblock tid s = s" by (auto simp: thread_unblock_def split: option.splits)
    with assms show ?thesis by auto
  next
    case True
    with unblock_spec(1) [OF assms] show ?thesis by blast
  qed
qed

lemma wake_ok: "sched_ok s q \<Longrightarrow> (\<exists>q'. sched_ok (wake tids s) q') \<and> keeps s (wake tids s)"
  unfolding wake_def
proof (induction tids arbitrary: s q)
  case (Cons tid tids)
  obtain q1 where "sched_ok (thread_unblock tid s) q1" using unblock_ok(1) [OF Cons.prems] by blast
  from Cons.IH [OF this] show ?case using keeps_trans [OF unblock_ok(2) [OF Cons.prems, of tid]] by auto
qed auto

lemma schedule_ok:
  assumes "sched_pre s q" "scheduler_enabled s" "schedule (map wake ws) s = (c, s')"
  shows "(\<exists>q'. sched_ok s' q') \<and> keeps s s'"
  using assms
proof (induction ws arbitrary: s q)
  case Nil
  obtain c1 q1 cur s1 where s1: "schedule_once s = (c1, s1)" "sched_ok s1 q1"
    using schedule_once_spec [OF Nil.prems(1,2)] by (metis prod_cases3)
  then have "s' = s1" using Nil.prems(3) by (subst (asm) schedule.simps) (auto split: control.splits)
  with s1 show ?case using keeps_schedule_once [OF s1(1)] by blast
next
  case (Cons w ws)
  obtain c1 q1 cur s1 where s1: "schedule_once s = (c1, s1)" "sched_ok s1 q1"
    using schedule_once_spec [OF Cons.prems(1,2)] by (metis prod_cases3)
  note k = keeps_schedule_once [OF s1(1)]
  show ?case
  proof (cases "c1 = Halted")
    case False
    then have "s' = s1" using Cons.prems(3) s1(1) by (subst (asm) schedule.simps) (auto split: control.splits)
    with s1 k show ?thesis by blast
  next
    case True
    obtain q2 where q2: "sched_ok (wake w s1) q2" "keeps s1 (wake w s1)" using wake_ok [OF s1(2)] by blast
    let ?s = "(wake w s1)\<lparr>in_scheduler := False\<rparr>"
    have "?s = wake w s1" using q2(1) by (simp add: sched_ok_def)
    then have "schedule (map wake ws) (wake w s1) = (c, s')"
      using Cons.prems(3) s1(1) True by (subst (asm) schedule.simps) simp
    moreover have "scheduler_enabled (wake w s1)" using k q2(2) Cons.prems(2) by (simp add: keeps_def)
    ultimately have "(\<exists>q'. sched_ok s' q') \<and> keeps (wake w s1) s'" by (intro Cons.IH [OF sched_ok_pre [OF q2(1)]])
    then show ?thesis using keeps_trans [OF k keeps_trans [OF q2(2)]] by blast
  qed
qed

lemma schedule_disabled: "\<not> scheduler_enabled s \<Longrightarrow> schedule irqs s = (Stay, s)"
  by (subst schedule.simps) (simp add: schedule_once_def)

lemma schedule_keeps_ok:
  assumes "sched_ok s q" "schedule (map wake ws) s = (c, s')"
  shows "(\<exists>q'. sched_ok s' q') \<and> keeps s s'"
  using schedule_ok [OF sched_ok_pre [OF assms(1)] _ assms(2)] schedule_disabled [of s "map wake ws"] assms
  by (cases "scheduler_enabled s") auto


section \<open>Threads and their processes\<close>

definition threads_of :: "sched \<Rightarrow> nat \<Rightarrow> nat set" where
  "threads_of s p = {t. t < 256 \<and> t_used (thread_table s ! t) \<and> t_parent (thread_table s ! t) = Some p}"

definition lists_threads :: "process \<Rightarrow> nat set \<Rightarrow> bool" where
  "lists_threads p T \<longleftrightarrow> length (p_threads p) = 16 \<and> p_thread_count p \<le> 16 \<and> (\<not> p_used p \<longrightarrow> p_thread_count p = 0) \<and>
     (\<exists>ts. take (p_thread_count p) (p_threads p) = map Some ts \<and> distinct ts \<and> set ts = T)"

definition procs_ok :: "sched \<Rightarrow> bool" where
  "procs_ok s \<longleftrightarrow> length (process_table s) = 64 \<and> (\<forall>p < 64. lists_threads (process_table s ! p) (threads_of s p)) \<and>
     (\<forall>t < 256. t_used (thread_table s ! t) \<longrightarrow> (\<exists>p < 64. t_parent (thread_table s ! t) = Some p))"

lemma keeps_attrs:
  assumes "keeps s s'" "t < length (thread_table s)"
  shows "t_used (thread_table s' ! t) = t_used (thread_table s ! t)" "t_parent (thread_table s' ! t) = t_parent (thread_table s ! t)"
    "t_tid (thread_table s' ! t) = t_tid (thread_table s ! t)" "t_context (thread_table s' ! t) = t_context (thread_table s ! t)"
proof -
  have m: "map attrs (thread_table s') = map attrs (thread_table s)" using assms(1) by (simp add: keeps_def)
  then have "length (thread_table s') = length (thread_table s)" by (metis length_map)
  then have "attrs (thread_table s' ! t) = attrs (thread_table s ! t)" using assms(2) arg_cong [OF m, of "\<lambda>xs. xs ! t"] by simp
  then show "t_used (thread_table s' ! t) = t_used (thread_table s ! t)" "t_parent (thread_table s' ! t) = t_parent (thread_table s ! t)"
    "t_tid (thread_table s' ! t) = t_tid (thread_table s ! t)" "t_context (thread_table s' ! t) = t_context (thread_table s ! t)"
    by (simp_all add: attrs_def)
qed

lemma keeps_procs:
  assumes "keeps s s'" "length (thread_table s) = 256" "procs_ok s"
  shows "procs_ok s'"
proof -
  have "threads_of s' p = threads_of s p" for p using keeps_attrs [OF assms(1)] assms(2) by (auto simp: threads_of_def)
  moreover have "process_table s' = process_table s" using assms(1) by (simp add: keeps_def)
  ultimately show ?thesis using assms(2,3) keeps_attrs [OF assms(1)] by (simp add: procs_ok_def)
qed

lemma same_keeps: "same_threads s s' \<Longrightarrow> keeps s s'"
proof -
  assume a: "same_threads s s'"
  have "map attrs (thread_table s') = map attrs (thread_table s)"
    using same_attrs [OF a] same_threadsD(6) [OF a] by (intro nth_equalityI) (simp_all add: attrs_def)
  then show ?thesis using same_threadsD [OF a] by (simp add: keeps_def)
qed

lemma sched_ok_len: "sched_ok s q \<Longrightarrow> length (thread_table s) = 256"
  unfolding sched_ok_def using ready_ok_len by blast

definition system_ok :: "sched \<Rightarrow> bool" where
  "system_ok s \<longleftrightarrow> (\<exists>q. sched_ok s q) \<and> procs_ok s"

lemma keeps_system: "sched_ok s q \<Longrightarrow> procs_ok s \<Longrightarrow> (\<exists>q'. sched_ok s' q') \<and> keeps s s' \<Longrightarrow> system_ok s'"
  using keeps_procs [of s s'] sched_ok_len [of s q] by (auto simp: system_ok_def)

lemma block_pre:
  assumes "sched_ok s q" "t < 256" "t_used (thread_table s ! t)"
  defines "s1 \<equiv> upd_thread t (\<lambda>x. x\<lparr>t_state := THREAD_STATE_BLOCKED\<rparr>) s"
  shows "\<exists>s2. ready_queue_remove (Some t) s1 = Some s2 \<and> keeps s s2 \<and> current_thread s2 = current_thread s \<and>
    sched_pre s2 (remove1 t q) \<and> (current_thread s \<noteq> Some t \<longrightarrow> sched_ok s2 (remove1 t q))"
proof -
  have r: "ready_ok s q" and len: "length (thread_table s) = 256" using assms(1) sched_ok_len by (auto simp: sched_ok_def)
  have q1: "queue_rep s1 q" unfolding s1_def using r by (intro queue_rep_upd) (simp_all add: ready_ok_def)
  obtain s2 where s2: "ready_queue_remove (Some t) s1 = Some s2" "queue_rep s2 (remove1 t q)" "same_threads s1 s2"
    using rq.remove_rep [OF q1 assms(2)] by blast
  have k: "keeps s s1" unfolding s1_def by (rule keeps_upd) (simp add: attrs_def)
  have st: "state_at s2 x ts = (if x = t then ts = THREAD_STATE_BLOCKED else state_at s x ts)" if "x < 256" for x ts
    using state_at_same [OF s2(3), of x] that len assms(2,3) by (auto simp: s1_def state_at_upd)
  have d: "distinct q" using r by (simp add: ready_ok_def queue_rep_def)
  have qm: "x \<in> set q \<longleftrightarrow> state_at s x THREAD_STATE_READY" if "x < 256" for x using r that by (simp add: ready_ok_def)
  have rd: "ready_ok s2 (remove1 t q)"
    unfolding ready_ok_def using s2(2) st qm d by simp
  have cur: "current_thread s2 = current_thread s" "in_scheduler s2 = in_scheduler s" using same_threadsD [OF s2(3)] by (simp_all add: s1_def)
  have rn: "state_at s x THREAD_STATE_RUNNING = (current_thread s = Some x)" if "x < 256" for x
    using assms(1) that unfolding sched_ok_def by blast
  have in_s: "\<not> in_scheduler s" "\<And>x. current_thread s = Some x \<Longrightarrow> x < 256" using assms(1) by (auto simp: sched_ok_def)
  have "sched_pre s2 (remove1 t q)"
    unfolding sched_pre_def using rd cur in_s st rn by auto
  moreover have "sched_ok s2 (remove1 t q)" if "current_thread s \<noteq> Some t"
    unfolding sched_ok_def using rd cur in_s st rn that by auto
  ultimately show ?thesis using s2(1) keeps_trans [OF k same_keeps [OF s2(3)]] cur(1) by blast
qed

lemma thread_block_ok:
  assumes "thread_block (map wake ws) tid s = Some (c, s')" "sched_ok s q"
    and "scheduler_enabled s \<or> get_thread tid s \<noteq> current_thread s"
  shows "(\<exists>q'. sched_ok s' q') \<and> keeps s s'"
proof (cases "\<exists>t. get_thread tid s = Some t \<and> t_state (thread_table s ! t) \<noteq> THREAD_STATE_BLOCKED")
  case False
  then have "s' = s" using assms(1) by (auto simp: thread_block_def split: option.splits)
  with assms(2) show ?thesis by auto
next
  case True
  then obtain t where t: "get_thread tid s = Some t" "t_state (thread_table s ! t) \<noteq> THREAD_STATE_BLOCKED" by blast
  note v = get_thread_valid [OF t(1)]
  obtain s2 where s2: "ready_queue_remove (Some t) (upd_thread t (\<lambda>x. x\<lparr>t_state := THREAD_STATE_BLOCKED\<rparr>) s) = Some s2" "keeps s s2"
    "current_thread s2 = current_thread s" "sched_pre s2 (remove1 t q)" "current_thread s \<noteq> Some t \<longrightarrow> sched_ok s2 (remove1 t q)"
    using block_pre [OF assms(2), of t] v by blast
  have run: "(c, s') = (if current_thread s2 = Some t then schedule (map wake ws) s2 else (Stay, s2))"
    using assms(1) t s2(1) by (simp add: thread_block_def)
  show ?thesis
  proof (cases "current_thread s = Some t")
    case False
    then show ?thesis using run s2 by auto
  next
    case True
    then have "scheduler_enabled s2" using assms(3) t(1) s2(2) by (simp add: keeps_def)
    moreover have "schedule (map wake ws) s2 = (c, s')" using run True s2(3) by simp
    ultimately show ?thesis using schedule_ok [OF s2(4)] keeps_trans [OF s2(2)] by blast
  qed
qed


section \<open>Leaving a thread\<close>

lemma shift_down:
  assumes "m < length xs"
  shows "length (fold (\<lambda>j ts. ts[j := ts ! (j + 1)]) [i..<m] xs) = length xs"
    "j < length xs \<Longrightarrow> fold (\<lambda>j ts. ts[j := ts ! (j + 1)]) [i..<m] xs ! j = (if i \<le> j \<and> j < m then xs ! (j + 1) else xs ! j)"
  using assms
proof (induction m arbitrary: j)
  case (Suc m)
  case 1
  then show ?case using Suc.IH(1) by simp
next
  case (Suc m)
  case 2
  show ?case
  proof (cases "i \<le> m")
    case False
    then show ?thesis by auto
  next
    case True
    then show ?thesis using 2 Suc.IH(1) Suc.IH(2) [of j] Suc.IH(2) [of "Suc m"] by (auto simp: nth_list_update less_Suc_eq)
  qed
qed simp_all

lemma lists_threads_state [simp]: "lists_threads (p\<lparr>p_state := x\<rparr>) T = lists_threads p T"
  by (simp add: lists_threads_def)

lemma drop_thread_lists:
  assumes "lists_threads p T" "t \<in> T"
  shows "lists_threads (drop_thread t p) (T - {t})"
proof -
  define n where "n = p_thread_count p"
  obtain ts where ts: "take n (p_threads p) = map Some ts" "distinct ts" "set ts = T"
    using assms(1) by (auto simp: lists_threads_def n_def)
  have len: "length (p_threads p) = 16" "n \<le> 16" using assms(1) by (auto simp: lists_threads_def n_def)
  have lt: "length ts = n" using arg_cong [OF ts(1), of length] len by simp
  have "\<exists>x \<in> set (map Some ts). x = Some t" using assms(2) ts(3) by auto
  then obtain i where i: "find_idx (\<lambda>x. x = Some t) (map Some ts) = Some i"
    by (metis (mono_tags, lifting) find_idx_exists)
  have it: "i < n" "ts ! i = t" using find_idx_SomeD [OF i] lt by auto
  define xs where "xs = (fold (\<lambda>j ts. ts[j := ts ! (j + 1)]) [i..<n - 1] (p_threads p))[n - 1 := None]"
  have b: "n - 1 < length (p_threads p)" using it len by simp
  have nth: "p_threads p ! j = Some (ts ! j)" if "j < n" for j
    using arg_cong [OF ts(1), of "\<lambda>xs. xs ! j"] that lt by simp
  have "take (n - 1) xs = map Some (take i ts @ drop (Suc i) ts)"
  proof (rule nth_equalityI)
    show "length (take (n - 1) xs) = length (map Some (take i ts @ drop (Suc i) ts))"
      using shift_down(1) [OF b, of i] len lt it by (simp add: xs_def)
  next
    fix j
    assume "j < length (take (n - 1) xs)"
    then have j: "j < n - 1" by simp
    then show "take (n - 1) xs ! j = map Some (take i ts @ drop (Suc i) ts) ! j"
      using shift_down [OF b] len lt it nth [of j] nth [of "Suc j"] by (simp add: xs_def nth_append)
  qed
  moreover have "take i ts @ drop (Suc i) ts = remove1 t ts"
    using id_take_nth_drop [of i ts] it lt ts(2)
    by (metis remove1_append remove1.simps(2) distinct_append not_distinct_conv_prefix disjoint_insert(1) list.set(2))
  ultimately have l: "take (n - 1) xs = map Some (remove1 t ts)" by simp
  have lx: "length xs = 16" using shift_down(1) [OF b, of i] len by (simp add: xs_def)
  let ?p = "p\<lparr>p_threads := xs, p_thread_count := n - 1\<rparr>"
  have "lists_threads ?p (T - {t})"
    unfolding lists_threads_def using l lx len ts(2,3) assms(1) it
    by (auto simp: lists_threads_def n_def intro!: exI [of _ "remove1 t ts"])
  moreover have "drop_thread t p = (if n - 1 = 0 then ?p\<lparr>p_state := PROCESS_STATE_TERMINATED\<rparr> else ?p)"
    using i ts(1) by (simp add: drop_thread_def n_def [symmetric] Let_def xs_def)
  ultimately show ?thesis by (cases "n - 1 = 0") simp_all
qed

text \<open>The state in which \<open>thread_exit\<close> looks for the next thread.\<close>

lemma thread_exit_ok:
  assumes "thread_exit (map wake ws) s = Some (c, s')" "sched_ok s q" "procs_ok s"
  shows "system_ok s'"
proof (cases "current_thread s")
  case None
  with assms show ?thesis by (auto simp: thread_exit_def system_ok_def)
next
  case (Some t)
  let ?g = "\<lambda>x :: thread. x\<lparr>t_state := THREAD_STATE_TERMINATED, t_used := False\<rparr>"
  let ?b = "\<lambda>x :: thread. x\<lparr>t_stack_base := 0\<rparr>"
  have t: "t < 256" "state_at s t THREAD_STATE_RUNNING" using assms(2) Some unfolding sched_ok_def by blast+
  have len: "length (thread_table s) = 256" using assms(2) by (rule sched_ok_len)
  define s1 where "s1 = upd_thread t ?g s"
  obtain s2 where s2: "s2 = s1 \<or> (\<exists>k. s2 = upd_thread t ?b (s1\<lparr>kmem := k\<rparr>))"
    "(let s = (case t_parent (thread_table s2 ! t) of None \<Rightarrow> s2 | Some p \<Rightarrow> upd_process p (drop_thread t) s2);
          (c, s) = schedule (map wake ws) (s\<lparr>current_thread := None\<rparr>)
      in Some (if c = Stay then Halted else c, s)) = Some (c, s')"
    using assms(1) Some unfolding thread_exit_def s1_def by (auto simp: Let_def split: if_splits bind_splits)
  have r1: "ready_ok s1 q"
  proof -
    have "queue_rep s1 q" unfolding s1_def using assms(2) by (intro queue_rep_upd) (auto simp: sched_ok_def ready_ok_def)
    moreover have "t \<notin> set q" using assms(2) t state_at_unique [OF t(2)] unfolding sched_ok_def ready_ok_def by blast
    ultimately show ?thesis using assms(2) len t by (auto simp: ready_ok_def sched_ok_def s1_def state_at_upd)
  qed
  have r2: "ready_ok s2 q"
  proof -
    have "queue_rep (upd_thread t ?b (s1\<lparr>kmem := k\<rparr>)) q" for k using r1 by (intro queue_rep_upd) (auto simp: ready_ok_def)
    moreover have "state_at (upd_thread t ?b (s1\<lparr>kmem := k\<rparr>)) x ts = state_at s1 x ts" for k x ts
      using len t(1) by (subst state_at_upd) (auto simp: s1_def state_at_def)
    ultimately show ?thesis using s2(1) r1 by (auto simp: ready_ok_def)
  qed
  have st2: "state_at s2 x ts = (x \<noteq> t \<and> state_at s x ts)" for x ts
    using s2(1) len t(1) by (cases "x = t") (auto simp: s1_def state_at_def upd_thread_def)
  have at2: "t_used (thread_table s2 ! x) = (x \<noteq> t \<and> t_used (thread_table s ! x))" "t_parent (thread_table s2 ! x) = t_parent (thread_table s ! x)"
    "process_table s2 = process_table s" "in_scheduler s2 = in_scheduler s" for x
    using s2(1) len t(1) by (atomize (full), cases "x = t") (auto simp: s1_def upd_thread_def)
  obtain p where p: "t_parent (thread_table s ! t) = Some p" "p < 64"
    using assms(3) t by (auto simp: procs_ok_def state_at_def)
  define s3 where "s3 = (upd_process p (drop_thread t) s2)\<lparr>current_thread := None\<rparr>"
  have "sched_ok s3 q"
    using r2 st2 at2(4) assms(2) Some unfolding sched_ok_def s3_def by auto
  moreover have "procs_ok s3"
  proof -
    have th: "threads_of s3 x = threads_of s x - (if x = p then {t} else {})" for x
      using at2(1,2) p(1) by (auto simp: threads_of_def s3_def upd_process_def)
    have pt: "length (process_table s) = 64" "\<And>x. x < 64 \<Longrightarrow> lists_threads (process_table s ! x) (threads_of s x)"
      using assms(3) by (simp_all add: procs_ok_def)
    have "t \<in> threads_of s p" using t p(1) by (simp add: threads_of_def state_at_def)
    then have "lists_threads (process_table s3 ! x) (threads_of s3 x)" if "x < 64" for x
      using that pt p(2) drop_thread_lists [OF pt(2), of p t] th [of x] by (auto simp: s3_def upd_process_def at2(3) nth_list_update)
    then show ?thesis using pt(1) assms(3) at2 by (auto simp: procs_ok_def s3_def upd_process_def)
  qed
  moreover have "\<exists>c'. schedule (map wake ws) s3 = (c', s')"
    using s2(2) p(1) at2(2) by (auto simp: Let_def s3_def split: prod.splits)
  ultimately show ?thesis using schedule_keeps_ok keeps_system by blast
qed

section \<open>Creating processes and threads\<close>

lemma process_create_ok:
  assumes "process_create name space s = (r, s')" "sched_ok s q" "procs_ok s"
  shows "system_ok s'"
proof (cases "find_idx (\<lambda>p. \<not> p_used p) (take MAX_PROCESSES (process_table s))")
  case None
  then show ?thesis using assms by (auto simp: process_create_def find_free_process_def system_ok_def)
next
  case (Some i)
  have len: "length (process_table s) = 64" using assms(3) by (simp add: procs_ok_def)
  have i: "i < 64" "\<not> p_used (process_table s ! i)" using find_idx_SomeD [OF Some] len by (auto simp: MAX_PROCESSES_def)
  define f where "f = (\<lambda>p. p\<lparr>p_pid := next_pid s, p_memory_space := space, p_state := PROCESS_STATE_READY,
    p_thread_count := 0, p_used := True, p_name := put_at 0 (take 63 (cstr name) @ [0]) (p_name p)\<rparr> :: process)"
  have s': "s' = (upd_process i f s)\<lparr>next_pid := next_pid s + 1\<rparr>"
    using assms(1) Some by (simp add: process_create_def find_free_process_def f_def Let_def)
  have old: "lists_threads (process_table s ! i) (threads_of s i)" using assms(3) i by (simp add: procs_ok_def)
  then have "threads_of s i = {}" using i(2) unfolding lists_threads_def by auto
  then have new: "lists_threads (f (process_table s ! i)) (threads_of s i)"
    using old unfolding lists_threads_def f_def by simp
  have th: "threads_of s' x = threads_of s x" for x by (simp add: s' threads_of_def)
  have "lists_threads (process_table s' ! x) (threads_of s' x)" if "x < 64" for x
    using new th assms(3) that i len by (cases "x = i") (simp_all add: procs_ok_def s' upd_process_def)
  then have "procs_ok s'" using assms(3) by (simp add: procs_ok_def s' upd_process_def)
  moreover have "sched_ok s' q" using assms(2) unfolding sched_ok_def s' by simp
  ultimately show ?thesis by (auto simp: system_ok_def)
qed


lemma add_thread_lists:
  assumes "lists_threads p T" "t \<notin> T" "p_thread_count p < 16" "p_used p"
  shows "lists_threads (p\<lparr>p_threads := (p_threads p)[p_thread_count p := Some t], p_thread_count := p_thread_count p + 1\<rparr>) (insert t T)"
proof -
  obtain ts where ts: "take (p_thread_count p) (p_threads p) = map Some ts" "distinct ts" "set ts = T" and l: "length (p_threads p) = 16"
    using assms(1) by (auto simp: lists_threads_def)
  have "take (Suc (p_thread_count p)) ((p_threads p)[p_thread_count p := Some t]) = map Some (ts @ [t])"
    using ts(1) l assms(3) by (simp add: take_Suc_conv_app_nth)
  moreover have "distinct (ts @ [t])" "set (ts @ [t]) = insert t T" using ts(2,3) assms(2) by auto
  ultimately have "\<exists>ts'. take (Suc (p_thread_count p)) ((p_threads p)[p_thread_count p := Some t]) = map Some ts' \<and>
    distinct ts' \<and> set ts' = insert t T" by blast
  then show ?thesis using l assms(3,4) by (simp add: lists_threads_def)
qed

text \<open>What initialising a thread changes, apart from memory and the other attributes of the thread.\<close>

lemma upd_thread_twice: "t < length (thread_table s) \<Longrightarrow> upd_thread t g (upd_thread t h s) = upd_thread t (\<lambda>x. g (h x)) s"
  by (simp add: upd_thread_def)

lemma setup_context_form: "\<exists>cx m. setup_thread_context w t s = (upd_thread t (\<lambda>x. x\<lparr>t_context := cx\<rparr>) s)\<lparr>kmem := (kmem s)\<lparr>ram := m\<rparr>\<rparr>"
  by (auto simp: setup_thread_context_def Let_def split: prod.split)

lemma init_thread_form:
  assumes "t < length (thread_table s)"
  shows "\<exists>g k n. init_thread w t proc base entry sz rt dl pd s =
      upd_process proc (\<lambda>p. p\<lparr>p_threads := (p_threads p)[p_thread_count p := Some t], p_thread_count := p_thread_count p + 1\<rparr>)
        (upd_thread t g (s\<lparr>kmem := k, next_tid := n\<rparr>)) \<and>
    (\<forall>x. t_used (g x) \<and> t_state (g x) = THREAD_STATE_READY \<and> t_parent (g x) = Some proc \<and> t_next (g x) = None)"
proof -
  define s1 where "s1 = s\<lparr>kmem := (kmem s)\<lparr>ram := st (ram (kmem s)) base (replicate (unat sz) 0xCC)\<rparr>, next_tid := next_tid s + 1\<rparr>"
  define h where "h = (\<lambda>x. x\<lparr>t_tid := next_tid s, t_parent := Some proc, t_state := THREAD_STATE_READY, t_used := True,
    t_next := None, t_private_data := 0, t_entry_point := entry\<rparr> :: thread)"
  define f where "f = (\<lambda>x. x\<lparr>t_sched := \<lparr>dl_runtime = rt, dl_deadline = dl, dl_period = pd, dl_absolute_deadline = 0, dl_remaining_runtime = rt\<rparr>,
    t_last_scheduled := 0\<rparr> :: thread)"
  obtain cx m where c: "setup_thread_context w t (upd_thread t h s1) = (upd_thread t (\<lambda>x. x\<lparr>t_context := cx\<rparr>) (upd_thread t h s1))\<lparr>kmem := (kmem s1)\<lparr>ram := m\<rparr>\<rparr>"
    using setup_context_form [of w t "upd_thread t h s1"] by auto
  have "upd_thread t f ((upd_thread t (\<lambda>x. x\<lparr>t_context := cx\<rparr>) (upd_thread t h s1))\<lparr>kmem := (kmem s1)\<lparr>ram := m\<rparr>\<rparr>) =
    upd_thread t (\<lambda>x. f ((h x)\<lparr>t_context := cx\<rparr>)) (s\<lparr>kmem := (kmem s1)\<lparr>ram := m\<rparr>, next_tid := next_tid s + 1\<rparr>)"
    using assms by (simp add: upd_thread_def s1_def)
  then have "init_thread w t proc base entry sz rt dl pd s =
      upd_process proc (\<lambda>p. p\<lparr>p_threads := (p_threads p)[p_thread_count p := Some t], p_thread_count := p_thread_count p + 1\<rparr>)
        (upd_thread t (\<lambda>x. f ((h x)\<lparr>t_context := cx\<rparr>)) (s\<lparr>kmem := (kmem s1)\<lparr>ram := m\<rparr>, next_tid := next_tid s + 1\<rparr>))"
    using c unfolding init_thread_def Let_def by (simp add: s1_def h_def f_def)
  moreover have "\<forall>x. t_used (f ((h x)\<lparr>t_context := cx\<rparr>)) \<and> t_state (f ((h x)\<lparr>t_context := cx\<rparr>)) = THREAD_STATE_READY \<and>
    t_parent (f ((h x)\<lparr>t_context := cx\<rparr>)) = Some proc \<and> t_next (f ((h x)\<lparr>t_context := cx\<rparr>)) = None" by (simp add: f_def h_def)
  ultimately show ?thesis by blast
qed


lemma get_process_valid: "get_process pid s = Some p \<Longrightarrow> p < 64 \<and> p < length (process_table s) \<and> p_used (process_table s ! p)"
  by (auto simp: get_process_def MAX_PROCESSES_def dest!: find_idx_SomeD)

lemma init_thread_ok:
  assumes "sched_ok s q" "procs_ok s" "t < 256" "\<not> t_used (thread_table s ! t)"
    and "proc < 64" "p_used (process_table s ! proc)" "p_thread_count (process_table s ! proc) < 16"
    and s'_def: "s' = ready_queue_add (Some t) (init_thread w t proc base entry sz rt dl pd s)"
  shows "sched_ok s' (q @ [t]) \<and> procs_ok s'"
proof -
  have len: "length (thread_table s) = 256" "length (process_table s) = 64" using sched_ok_len [OF assms(1)] assms(2) by (simp_all add: procs_ok_def)
  define f where "f = (\<lambda>p. p\<lparr>p_threads := (p_threads p)[p_thread_count p := Some t], p_thread_count := p_thread_count p + 1\<rparr> :: process)"
  obtain g k n where g: "init_thread w t proc base entry sz rt dl pd s = upd_process proc f (upd_thread t g (s\<lparr>kmem := k, next_tid := n\<rparr>))"
    "\<And>x. t_used (g x) \<and> t_state (g x) = THREAD_STATE_READY \<and> t_parent (g x) = Some proc \<and> t_next (g x) = None"
    using init_thread_form [of t s w proc base entry sz rt dl pd] assms(3) len unfolding f_def by auto
  define s1 where "s1 = init_thread w t proc base entry sz rt dl pd s"
  have r: "ready_ok s q" using assms(1) by (simp add: sched_ok_def)
  have nq: "t \<notin> set q" using r assms(3,4) unfolding ready_ok_def state_at_def by blast
  have tab: "thread_table s1 = (thread_table s)[t := g (thread_table s ! t)]" by (simp add: s1_def g(1) upd_thread_def)
  have "linked (thread_table s1) (ready_queue_head s) q = linked (thread_table s) (ready_queue_head s) q"
    by (rule linked_cong) (use nq in \<open>simp add: tab, metis nth_list_update_neq\<close>)
  moreover have "ready_queue_head s1 = ready_queue_head s" "ready_queue_tail s1 = ready_queue_tail s"
    by (simp_all add: s1_def g(1) upd_process_def upd_thread_def)
  ultimately have q1: "queue_rep s1 q" using r by (simp add: ready_ok_def queue_rep_def tab)
  have e: "queue_rep s' (q @ [t])" "same_threads s1 s'"
    using rq.enqueue_rep [OF q1 assms(3) nq] by (simp_all add: s'_def s1_def)
  note same = e(2)
  have st: "state_at s' x ts = (if x = t then ts = THREAD_STATE_READY else state_at s x ts)" if "x < 256" for x ts
    using state_at_same [OF same, of x ts] that len assms(3) g(2) by (auto simp: tab state_at_def)
  have k: "keeps s1 s'" by (rule same_keeps [OF same])
  have "ready_ok s' (q @ [t])"
    using e(1) r st nq unfolding ready_ok_def by auto
  moreover have "current_thread s' = current_thread s" "in_scheduler s' = in_scheduler s"
    using same_threadsD [OF same] by (simp_all add: s1_def g(1) upd_thread_def)
  moreover have "\<not> state_at s t THREAD_STATE_RUNNING" using assms(4) by (simp add: state_at_def)
  ultimately have "sched_ok s' (q @ [t])" using assms(1) st unfolding sched_ok_def by auto
  moreover have "procs_ok s1"
  proof -
    have th: "threads_of s1 x = (if x = proc then insert t (threads_of s x) else threads_of s x)" for x
      using assms(3,4) g(2) len by (auto simp: threads_of_def tab nth_list_update split: if_splits)
    have pt: "process_table s1 = (process_table s)[proc := f (process_table s ! proc)]" by (simp add: s1_def g(1) upd_process_def upd_thread_def)
    have old: "lists_threads (process_table s ! x) (threads_of s x)" if "x < 64" for x using assms(2) that by (simp add: procs_ok_def)
    have "t \<notin> threads_of s proc" using assms(4) by (simp add: threads_of_def)
    then have "lists_threads (f (process_table s ! proc)) (insert t (threads_of s proc))"
      unfolding f_def using old [OF assms(5)] assms(6,7) by (intro add_thread_lists)
    then have "lists_threads (process_table s1 ! x) (threads_of s1 x)" if "x < 64" for x
      using that old [OF that] th pt len by (cases "x = proc") simp_all
    moreover have "\<exists>p<64. t_parent (thread_table s1 ! x) = Some p" if "x < 256" "t_used (thread_table s1 ! x)" for x
      using that assms(2,5) g(2) len by (cases "x = t") (auto simp: tab procs_ok_def)
    ultimately show ?thesis by (simp add: procs_ok_def pt len)
  qed
  ultimately show ?thesis using keeps_procs [OF k] len by (simp add: tab)
qed

lemma fail_alloc_ok:
  assumes "sched_ok s q" "procs_ok s" "\<And>x. attrs (g x) = attrs x \<and> t_state (g x) = t_state x \<and> t_next (g x) = t_next x"
  shows "system_ok (upd_thread t g (s\<lparr>kmem := k\<rparr>))"
proof -
  let ?s = "upd_thread t g (s\<lparr>kmem := k\<rparr>)"
  have a: "t_used (g x) = t_used x" "t_parent (g x) = t_parent x" for x using assms(3) [of x] by (simp_all add: attrs_def)
  have at: "t_used (thread_table ?s ! x) = t_used (thread_table s ! x)" "t_parent (thread_table ?s ! x) = t_parent (thread_table s ! x)"
    "t_state (thread_table ?s ! x) = t_state (thread_table s ! x)" for x
    using a assms(3) by (cases "x = t \<and> t < length (thread_table s)", auto simp: upd_thread_def nth_list_update list_update_beyond)+
  have "state_at ?s x ts = state_at s x ts" for x ts by (simp add: state_at_def at)
  moreover have "queue_rep ?s q" using assms(1,3) by (intro queue_rep_upd) (simp_all add: sched_ok_def ready_ok_def)
  ultimately have "sched_ok ?s q" using assms(1) unfolding sched_ok_def ready_ok_def by simp
  moreover have "procs_ok ?s" using assms(2) by (simp add: procs_ok_def threads_of_def at)
  ultimately show ?thesis by (auto simp: system_ok_def)
qed


lemma thread_create_ok:
  assumes "thread_create w (map wake ws) pid entry sz rt dl pd s = Some (r, c, s')" "sched_ok s q" "procs_ok s"
  shows "system_ok s'"
proof -
  have keep: "system_ok s" using assms(2,3) by (auto simp: system_ok_def)
  have len: "length (thread_table s) = 256" using sched_ok_len [OF assms(2)] .
  show ?thesis
  proof (cases "entry = 0 \<or> get_process pid s = None \<or> p_thread_count (process_table s ! the (get_process pid s)) \<ge> 16 \<or> find_free_thread_slot s < 0")
    case True
    then have "s' = s" using assms(1)
      by (auto simp: thread_create_def MAX_THREADS_PER_PROCESS_def Let_def split: option.splits if_splits)
    with keep show ?thesis by simp
  next
    case False
    then obtain proc where proc: "get_process pid s = Some proc" "p_thread_count (process_table s ! proc) < 16" by auto
    obtain t where f: "find_idx (\<lambda>x. \<not> t_used x) (take MAX_THREADS_GLOBAL (thread_table s)) = Some t" "find_free_thread_slot s = int t"
      using False by (auto simp: find_free_thread_slot_def split: option.splits)
    have t: "t < 256" "\<not> t_used (thread_table s ! t)" using find_idx_SomeD [OF f(1)] len by (auto simp: MAX_THREADS_GLOBAL_def)
    obtain base k where b: "kmalloc (ucast sz) (kmem s) = Some (base, k)"
      using assms(1) False proc f(2) by (auto simp: thread_create_def MAX_THREADS_PER_PROCESS_def Let_def split: bind_splits)
    define g where "g = (\<lambda>x. x\<lparr>t_stack_size := sz, t_stack_base := base\<rparr> :: thread)"
    define s1 where "s1 = upd_thread t g (s\<lparr>kmem := k\<rparr>)"
    have g: "attrs (g x) = attrs x \<and> t_state (g x) = t_state x \<and> t_next (g x) = t_next x" for x by (simp add: g_def attrs_def)
    have "system_ok s1" unfolding s1_def by (rule fail_alloc_ok [OF assms(2,3) g])
    then obtain q1 where ok1: "sched_ok s1 q1" "procs_ok s1" by (auto simp: system_ok_def)
    show ?thesis
    proof (cases "base = 0")
      case True
      then have "s' = s1" using assms(1) False proc f(2) b by (simp add: thread_create_def MAX_THREADS_PER_PROCESS_def Let_def s1_def g_def)
      then show ?thesis using ok1 by (auto simp: system_ok_def)
    next
      case nz: False
      define s2 where "s2 = ready_queue_add (Some t) (init_thread w t proc base entry sz rt dl pd s1)"
      have u: "\<not> t_used (thread_table s1 ! t)" using t len by (simp add: s1_def g_def)
      have pt: "process_table s1 = process_table s" by (simp add: s1_def)
      have ok2: "sched_ok s2 (q1 @ [t]) \<and> procs_ok s2"
        using get_process_valid [OF proc(1)] proc(2) by (intro init_thread_ok [OF ok1 t(1) u _ _ _ s2_def]) (simp_all add: pt)
      have "(c, s') = (if scheduler_enabled s2 \<and> current_thread s2 = None then schedule (map wake ws) s2 else (Stay, s2))"
        using assms(1) False proc f(2) b nz
        by (auto simp: thread_create_def MAX_THREADS_PER_PROCESS_def Let_def s1_def g_def s2_def split: prod.splits)
      then have "s' = s2 \<or> schedule (map wake ws) s2 = (c, s')" by (auto split: if_splits)
      then show ?thesis using ok2 schedule_keeps_ok keeps_system by (auto simp: system_ok_def)
    qed
  qed
qed

section \<open>The system as a transition relation\<close>

text \<open>
  Calls in any order; a thread blocks itself only while the scheduler is enabled. The interrupts that
  arrive while the processor is halted wake threads.
\<close>

inductive sched_step :: "sched \<Rightarrow> sched \<Rightarrow> bool" where
  process: "process_create name space s = (r, s') \<Longrightarrow> sched_step s s'"
| create: "thread_create w (map wake ws) pid entry sz rt dl pd s = Some (r, c, s') \<Longrightarrow> sched_step s s'"
| block: "thread_block (map wake ws) tid s = Some (c, s') \<Longrightarrow> scheduler_enabled s \<or> get_thread tid s \<noteq> current_thread s \<Longrightarrow> sched_step s s'"
| unblock: "sched_step s (thread_unblock tid s)"
| exit: "thread_exit (map wake ws) s = Some (c, s') \<Longrightarrow> sched_step s s'"
| yield: "thread_yield (map wake ws) s = (c, s') \<Longrightarrow> sched_step s s'"
| tick: "scheduler_tick (map wake ws) s = (c, s') \<Longrightarrow> sched_step s s'"
| enable: "scheduler_enable (map wake ws) s = (c, s') \<Longrightarrow> sched_step s s'"
| disable: "sched_step s (scheduler_disable s)"

inductive sched_reachable :: "sched \<Rightarrow> sched \<Rightarrow> bool" for s0 where
  start: "sched_reachable s0 s0"
| step: "sched_reachable s0 s \<Longrightarrow> sched_step s s' \<Longrightarrow> sched_reachable s0 s'"

lemma enabled_flag_ok: "sched_ok s q \<Longrightarrow> sched_ok (s\<lparr>scheduler_enabled := b\<rparr>) q" "procs_ok s \<Longrightarrow> procs_ok (s\<lparr>scheduler_enabled := b\<rparr>)"
  unfolding sched_ok_def procs_ok_def threads_of_def by simp_all

lemma sched_step_ok: "sched_step s s' \<Longrightarrow> system_ok s \<Longrightarrow> system_ok s'"
proof (induction rule: sched_step.induct)
  case (process name space s r s')
  then show ?case using process_create_ok by (auto simp: system_ok_def)
next
  case (create w ws pid entry sz rt dl pd s r c s')
  then show ?case using thread_create_ok unfolding system_ok_def by blast
next
  case (block ws tid s c s')
  then obtain q where q: "sched_ok s q" "procs_ok s" by (auto simp: system_ok_def)
  show ?case by (rule keeps_system [OF q thread_block_ok [OF block(1) q(1) block(2)]])
next
  case (unblock s tid)
  then obtain q where q: "sched_ok s q" "procs_ok s" by (auto simp: system_ok_def)
  show ?case using keeps_system [OF q] unblock_ok [OF q(1)] by blast
next
  case (exit ws s c s')
  then show ?case using thread_exit_ok unfolding system_ok_def by blast
next
  case (yield ws s c s')
  then obtain q where q: "sched_ok s q" "procs_ok s" by (auto simp: system_ok_def)
  have "s' = s \<or> schedule (map wake ws) s = (c, s')" using yield(1) by (auto simp: thread_yield_def split: if_splits)
  then show ?case using keeps_system [OF q] schedule_keeps_ok [OF q(1)] yield(2) by blast
next
  case (tick ws s c s')
  then obtain q where q: "sched_ok s q" "procs_ok s" by (auto simp: system_ok_def)
  have "s' = s \<or> schedule (map wake ws) s = (c, s')" using tick(1) by (auto simp: scheduler_tick_def split: if_splits)
  then show ?case using keeps_system [OF q] schedule_keeps_ok [OF q(1)] tick(2) by blast
next
  case (enable ws s c s')
  then obtain q where q: "sched_ok s q" "procs_ok s" by (auto simp: system_ok_def)
  let ?s = "s\<lparr>scheduler_enabled := True\<rparr>"
  have "s' = ?s \<or> schedule (map wake ws) ?s = (c, s')" using enable(1) by (auto simp: scheduler_enable_def Let_def split: if_splits)
  then show ?case using keeps_system schedule_keeps_ok enabled_flag_ok(1) [OF q(1)] enabled_flag_ok(2) [OF q(2)] unfolding system_ok_def by blast
next
  case (disable s)
  then show ?case using enabled_flag_ok unfolding system_ok_def scheduler_disable_def by blast
qed

lemma initial_system_ok:
  assumes "length (thread_table s0) = 256" "length (process_table s0) = 64"
  shows "system_ok (process_init (scheduler_init s0))"
proof -
  let ?s = "process_init (scheduler_init s0)"
  have tt: "\<not> t_used (thread_table ?s ! t)" if "t < 256" for t
    using assms(1) that by (simp add: process_init_def scheduler_init_def)
  have ok: "sched_ok ?s []"
    using tt assms(1) unfolding sched_ok_def ready_ok_def queue_rep_def state_at_def
    by (auto simp: process_init_def scheduler_init_def)
  have "threads_of ?s p = {}" for p using tt by (auto simp: threads_of_def)
  moreover have "length (process_table ?s) = 64" using assms(2) by (simp add: process_init_def scheduler_init_def)
  moreover have "lists_threads (process_table ?s ! p) {}" if "p < 64" for p
    using assms(2) that by (simp add: process_init_def scheduler_init_def lists_threads_def MAX_THREADS_PER_PROCESS_def)
  ultimately have "procs_ok ?s" using tt by (simp add: procs_ok_def)
  with ok show ?thesis by (auto simp: system_ok_def)
qed

text \<open>
  C3: From initialisation on, after any sequence of calls and interrupts, the ready queue holds every
  ready thread exactly once and no other thread, at most one thread is running and it is the current
  one, and every process lists exactly its live threads, at most 16 of them.
\<close>

theorem scheduler_invariant:
  assumes "length (thread_table s0) = 256" and "length (process_table s0) = 64"
    and "sched_reachable (process_init (scheduler_init s0)) s"
  shows "system_ok s"
  using assms(3)
  by induction (auto intro: sched_step_ok initial_system_ok [OF assms(1,2)])

end
