(* ===== verification/Sched_Run.thy ===== *)
theory Sched_Run
  imports Sched_Inv
begin

text \<open>
  The order in which threads run, its liveness, and the exchange of contexts on the stacks.
\<close>

section \<open>Round robin\<close>

text \<open>The queue of ready threads, read off the links.\<close>

lemma queue_unique: "linked tt h p \<Longrightarrow> linked tt h q \<Longrightarrow> p = q"
proof (induction p arbitrary: h q)
  case Nil
  then show ?case by (cases q) auto
next
  case (Cons x p)
  then show ?case by (cases q) auto
qed

lemma schedule_spec:
  assumes "sched_ok s q" "scheduler_enabled s" "round_robin (current_thread s) False q = (c, q', cur)"
  shows "\<exists>s'. schedule irqs s = (c, s') \<and> sched_ok s' q' \<and> current_thread s' = cur \<and> keeps s s'"
proof -
  have nb: "cur_blocked s = False" using sched_ok_not_blocked [OF assms(1)] by simp
  obtain s' where s': "schedule_once s = (c, s')" "sched_ok s' q'" "current_thread s' = cur"
    using schedule_once_spec [OF sched_ok_pre [OF assms(1)] assms(2), unfolded nb, OF assms(3)] by blast
  have "c \<noteq> Halted" using assms(3) by (auto simp: round_robin_def split: option.splits list.splits)
  then have "schedule irqs s = (c, s')" using s'(1) by (subst schedule.simps) (auto split: control.splits)
  with s' keeps_schedule_once [OF s'(1)] show ?thesis by blast
qed

text \<open>
  C31: A pass of the scheduler in a well-formed state is round robin: the thread at the head of the
  ready queue becomes the current one, the running thread goes to the end of the queue, control is
  switched between exactly these two threads, and nothing else of any thread or process changes. With
  an empty queue the running thread goes on.
\<close>

theorem schedule_round_robin:
  assumes "sched_ok s q" and "scheduler_enabled s"
  shows "\<exists>s'. schedule irqs s = (fst (round_robin (current_thread s) False q), s') \<and>
    sched_ok s' (fst (snd (round_robin (current_thread s) False q))) \<and>
    current_thread s' = snd (snd (round_robin (current_thread s) False q)) \<and> keeps s s'"
  using schedule_spec [OF assms, of "fst (round_robin (current_thread s) False q)"] by simp

text \<open>One timer tick after another.\<close>

fun ticks :: "nat \<Rightarrow> sched \<Rightarrow> sched" where
  "ticks 0 s = s"
| "ticks (Suc n) s = ticks n (snd (scheduler_tick [] s))"

lemma tick_spec:
  assumes "sched_ok s (x # q)" "scheduler_enabled s" "current_thread s = Some p"
  shows "\<exists>s'. scheduler_tick [] s = (Switch p x, s') \<and> sched_ok s' (q @ [p]) \<and> current_thread s' = Some x \<and> scheduler_enabled s'"
proof -
  obtain s' where "schedule [] s = (Switch p x, s')" "sched_ok s' (q @ [p])" "current_thread s' = Some x" "keeps s s'"
    using schedule_spec [OF assms(1,2), of "Switch p x" "q @ [p]" "Some x" "[]"] assms(3) by (auto simp: round_robin_def)
  moreover have "ready_queue_head s = Some x" "\<not> in_scheduler s"
    using assms(1) ready_head [of s "x # q"] unfolding sched_ok_def by auto
  ultimately show ?thesis using assms(2) by (auto simp: scheduler_tick_def keeps_def)
qed

lemma ticks_reach:
  "k < length q \<Longrightarrow> sched_ok s q \<Longrightarrow> scheduler_enabled s \<Longrightarrow> current_thread s = Some p \<Longrightarrow>
    current_thread (ticks (Suc k) s) = Some (q ! k)"
proof (induction k arbitrary: s q p)
  case 0
  then show ?case using tick_spec [of s "hd q" "tl q" p] by (cases q) auto
next
  case (Suc k)
  then obtain x r where q: "q = x # r" by (cases q) auto
  obtain s' where s': "scheduler_tick [] s = (Switch p x, s')" "sched_ok s' (r @ [p])" "current_thread s' = Some x" "scheduler_enabled s'"
    using tick_spec Suc.prems(2-4) unfolding q by blast
  have "current_thread (ticks (Suc k) s') = Some ((r @ [p]) ! k)"
    using Suc.prems(1) q by (intro Suc.IH [OF _ s'(2,4,3)]) simp
  then show ?case using Suc.prems(1) s'(1) q by (simp add: nth_append)
qed

text \<open>
  C8: No ready thread starves: while only the timer interrupts, the thread at place \<open>k\<close> of the ready
  queue is the running thread after exactly \<open>k + 1\<close> ticks.
\<close>

theorem ready_thread_runs:
  assumes "sched_ok s q" and "scheduler_enabled s" and "current_thread s \<noteq> None" and "k < length q"
  shows "current_thread (ticks (Suc k) s) = Some (q ! k)"
  using ticks_reach [OF assms(4,1,2)] assms(3) by blast


section \<open>Frames on the stack\<close>

lemma push_words_snoc: "push_words (vs @ [v]) x = (fst (push_words vs x) - 8, st64 (snd (push_words vs x)) (fst (push_words vs x) - 8) v)"
  by (simp add: push_words_def split_beta)

lemma push_words_sp: "fst (push_words vs (sp, m)) = sp - of_nat (8 * length vs)"
  by (induction vs rule: rev_induct) (simp_all add: push_words_snoc push_words_def [of "[]"] algebra_simps)

lemma push_words_apart:
  "apart (sp - of_nat (8 * length vs)) (8 * length vs) b k \<Longrightarrow> 8 * length vs < 2 ^ 64 \<Longrightarrow> k < 2 ^ 64 \<Longrightarrow> ld (snd (push_words vs (sp, m))) b k = ld m b k"
proof (induction vs rule: rev_induct)
  case (snoc v vs)
  let ?a = "sp - of_nat (8 * length (vs @ [v]))"
  have a8: "?a = fst (push_words vs (sp, m)) - 8" by (simp add: push_words_sp algebra_simps)
  have top: "?a + of_nat 8 = sp - of_nat (8 * length vs)" by (simp add: algebra_simps)
  have "apart ?a 8 b k" using snoc.prems(1) by (rule apart_mono) simp_all
  then have "ld (snd (push_words (vs @ [v]) (sp, m))) b k = ld (snd (push_words vs (sp, m))) b k"
    using snoc.prems(3) unfolding push_words_snoc snd_conv a8 st64_def by (intro ld_st_apart) simp_all
  also have "\<dots> = ld m b k"
  proof (cases vs)
    case Nil
    then show ?thesis by (simp add: push_words_def)
  next
    case (Cons w ws)
    have "apart (?a + of_nat 8) (8 * length vs) b k"
      using snoc.prems(1,2) Cons by (intro apart_inside [OF snoc.prems(1)]) simp_all
    then show ?thesis using snoc.IH snoc.prems(2,3) unfolding top by simp
  qed
  finally show ?case .
qed (simp add: push_words_def)

lemma push_words_value:
  "i < length vs \<Longrightarrow> 8 * length vs < 2 ^ 64 \<Longrightarrow>
    ld64 (snd (push_words vs (sp, m))) (sp - of_nat (8 * length vs) + of_nat (8 * (length vs - Suc i))) = vs ! i"
proof (induction vs rule: rev_induct)
  case (snoc v vs)
  let ?a = "sp - of_nat (8 * length (vs @ [v]))"
  have a8: "fst (push_words vs (sp, m)) - 8 = ?a" by (simp add: push_words_sp algebra_simps)
  show ?case
  proof (cases "i = length vs")
    case True
    then show ?thesis unfolding push_words_snoc snd_conv a8 by simp
  next
    case False
    then have i: "i < length vs" using snoc.prems(1) by simp
    let ?j = "8 * (length (vs @ [v]) - Suc i)"
    have "apart (?a + of_nat 0) 8 (?a + of_nat ?j) 8" using snoc.prems i by (intro apart_offsets) auto
    then have "ld64 (snd (push_words (vs @ [v]) (sp, m))) (?a + of_nat ?j) = ld64 (snd (push_words vs (sp, m))) (?a + of_nat ?j)"
      unfolding push_words_snoc snd_conv a8 st64_def by (intro ld64_st_apart) simp
    moreover have "?j = 8 + 8 * (length vs - Suc i)" using i by simp
    then have "?a + of_nat ?j = sp - of_nat (8 * length vs) + of_nat (8 * (length vs - Suc i))"
      by (simp only: of_nat_add length_append list.size mult.commute [of 8] distrib_right) (simp add: algebra_simps)
    ultimately show ?thesis using snoc.IH [OF i] snoc.prems(2) i by (simp add: nth_append)
  qed
qed simp

lemma frame_words:
  assumes "push_words [w7, w6, w5, w4, w3, w2, w1, w0] (sp, m) = (a, m')"
  shows "a = sp - 64" "ld64 m' a = w0" "ld64 m' (a + 8) = w1" "ld64 m' (a + 16) = w2" "ld64 m' (a + 24) = w3" "ld64 m' (a + 32) = w4"
    "ld64 m' (a + 40) = w5" "ld64 m' (a + 48) = w6" "ld64 m' (a + 56) = w7"
proof -
  let ?vs = "[w7, w6, w5, w4, w3, w2, w1, w0]"
  show a: "a = sp - 64" using push_words_sp [of ?vs sp m] assms by simp
  note v = push_words_value [of _ ?vs sp m, unfolded assms]
  show "ld64 m' a = w0" "ld64 m' (a + 8) = w1" "ld64 m' (a + 16) = w2" "ld64 m' (a + 24) = w3" "ld64 m' (a + 32) = w4"
    "ld64 m' (a + 40) = w5" "ld64 m' (a + 48) = w6" "ld64 m' (a + 56) = w7"
    using v [of 7] v [of 6] v [of 5] v [of 4] v [of 3] v [of 2] v [of 1] v [of 0] by (simp_all add: a)
qed

lemma load_saved: "save_frame c m = (sp, m') \<Longrightarrow> load_frame sp m' = c"
proof -
  assume "save_frame c m = (sp, m')"
  note f = frame_words [OF this [unfolded save_frame_def]]
  have "sp + 64 = rsp c" using f(1) by simp
  then show "load_frame sp m' = c" by (simp add: load_frame_def f(2-9))
qed

lemma ld64_of_ld:
  assumes "i + 8 \<le> n" "n < 2 ^ 64"
  shows "ld64 m (a + of_nat i) = le_dec (segment i 8 (ld m a n))"
proof -
  have "ld m (a + of_nat i) 8 = segment i 8 (ld m a n)"
    by (rule nth_equalityI) (use assms in \<open>simp_all add: nth_segment ld_def algebra_simps\<close>)
  then show ?thesis by (simp add: ld64_def)
qed

lemma load_frame_cong:
  assumes "ld m sp 64 = ld m' sp 64"
  shows "load_frame sp m = load_frame sp m'"
proof -
  have "ld64 m (sp + of_nat i) = ld64 m' (sp + of_nat i)" if "i + 8 \<le> 64" for i
    using ld64_of_ld [of i 64] that assms by simp
  from this [of 0] this [of 8] this [of 16] this [of 24] this [of 32] this [of 40] this [of 48] this [of 56]
  show ?thesis by (simp add: load_frame_def)
qed

text \<open>
  C32: A thread that is switched out resumes with exactly the registers, flags, stack pointer and return
  address it had: whatever happens in between, as long as its saved frame is left alone, the switch
  back to it by another thread restores its processor state.
\<close>

theorem context_switch_resumes:
  assumes "old < length (thread_table s)" and "switch_to_thread old new c s = (c1, s1)" and "x \<noteq> old"
    and "c_rsp (t_context (thread_table s2 ! old)) = c_rsp (t_context (thread_table s1 ! old))"
    and "ld (ram (kmem s2)) (rsp c - 64) 64 = ld (ram (kmem s1)) (rsp c - 64) 64"
    and "apart (rsp c2 - 64) 64 (rsp c - 64) 64"
  shows "fst (switch_to_thread x old c2 s2) = c"
proof -
  obtain sp m where f: "save_frame c (ram (kmem s)) = (sp, m)" by (cases "save_frame c (ram (kmem s))")
  have sp: "sp = rsp c - 64" using frame_words(1) f unfolding save_frame_def by blast
  have s1: "ram (kmem s1) = m" "c_rsp (t_context (thread_table s1 ! old)) = sp"
    using assms(1,2) f by (auto simp: switch_to_thread_def Let_def upd_thread_def)
  let ?vs = "[rip c2, r15 c2, r14 c2, r13 c2, r12 c2, rbp c2, rbx c2, rflags c2]"
  obtain sp2 m2 where f2: "save_frame c2 (ram (kmem s2)) = (sp2, m2)" by (cases "save_frame c2 (ram (kmem s2))")
  have "ld m2 (rsp c - 64) 64 = ld (ram (kmem s2)) (rsp c - 64) 64"
    using push_words_apart [of "rsp c2" ?vs "rsp c - 64" 64 "ram (kmem s2)"] assms(6) f2 by (simp add: save_frame_def)
  then have "load_frame sp m2 = load_frame sp m" using assms(5) s1(1) unfolding sp by (intro load_frame_cong) simp
  also have "\<dots> = c" by (rule load_saved [OF f])
  finally show ?thesis using f2 assms(3,4) s1(2) by (simp add: switch_to_thread_def Let_def upd_thread_def)
qed

text \<open>
  A new thread starts in \<open>thread_wrapper\<close>, with all saved registers zero, interrupts enabled and the
  stack pointer at the 16-byte aligned top of its stack.
\<close>

theorem new_thread_start:
  assumes "t < length (thread_table s)"
  shows "start_thread t (setup_thread_context wrapper t s) =
    \<lparr>rsp = (t_stack_base (thread_table s ! t) + ucast (t_stack_size (thread_table s ! t))) AND NOT 0xF,
     rbx = 0, rbp = 0, r12 = 0, r13 = 0, r14 = 0, r15 = 0, rflags = 0x202, rip = wrapper\<rparr>"
proof -
  define top where "top = (t_stack_base (thread_table s ! t) + ucast (t_stack_size (thread_table s ! t))) AND NOT (0xF :: u64)"
  obtain a m' where f: "push_words [wrapper, 0, 0, 0, 0, 0, 0, 0x202] (top, ram (kmem s)) = (a, m')"
    by (cases "push_words [wrapper, 0, 0, 0, 0, 0, 0, 0x202] (top, ram (kmem s))")
  have s': "c_rsp (t_context (thread_table (setup_thread_context wrapper t s) ! t)) = a" "ram (kmem (setup_thread_context wrapper t s)) = m'"
    using f assms unfolding top_def by (simp_all add: setup_thread_context_def Let_def upd_thread_def)
  show ?thesis using frame_words [OF f] unfolding start_thread_def s' by (simp add: load_frame_def Let_def top_def)
qed


section \<open>Blocking the last runnable thread\<close>

lemma keeps_get_thread: "keeps s s' \<Longrightarrow> get_thread tid s' = get_thread tid s"
proof -
  assume "keeps s s'"
  then have m: "map attrs (thread_table s') = map attrs (thread_table s)" by (simp add: keeps_def)
  have "find_idx (\<lambda>x. t_used x \<and> t_tid x = tid) xs = find_idx (\<lambda>(u, _, i, _). u \<and> i = tid) (map attrs xs)" for xs
    by (induction xs) (simp_all add: attrs_def)
  then show ?thesis using m by (simp add: get_thread_def take_map [symmetric])
qed

text \<open>
  When the running thread blocks while no other thread is ready, its registers are not saved: if
  the next interrupt wakes it, the scheduler starts it from the context of its previous switch, which
  for a thread that was never switched out is the entry frame of a new thread.
\<close>

theorem block_last_thread_restarts:
  assumes "sched_ok s []" and "scheduler_enabled s" and "current_thread s = Some p" and "get_thread tid s = Some p"
  shows "\<exists>s'. thread_block [wake [tid]] tid s = Some (Start p, s') \<and>
    t_context (thread_table s' ! p) = t_context (thread_table s ! p) \<and> kmem s' = kmem s"
proof -
  note v = get_thread_valid [OF assms(4)]
  have len: "length (thread_table s) = 256" by (rule sched_ok_len [OF assms(1)])
  have run: "t_state (thread_table s ! p) = THREAD_STATE_RUNNING" using assms(1,3) v unfolding sched_ok_def state_at_def by blast
  define s1 where "s1 = upd_thread p (\<lambda>x. x\<lparr>t_state := THREAD_STATE_BLOCKED\<rparr>) s"
  have q: "queue_rep s1 []" unfolding s1_def using assms(1) by (intro queue_rep_upd) (auto simp: sched_ok_def ready_ok_def)
  have rm: "ready_queue_remove (Some p) s1 = Some s1" by (rule remove_absent_rep [OF q]) simp
  have head: "ready_queue_head s1 = None" using q by (simp add: queue_rep_def)
  have pre: "sched_pre s1 []" using block_pre [OF assms(1), of p] v rm by (simp add: s1_def)
  have b1: "t_state (thread_table s1 ! p) = THREAD_STATE_BLOCKED" using v by (simp add: s1_def)
  define s2 where "s2 = s1\<lparr>in_scheduler := False, current_thread := None\<rparr>"
  have nin: "\<not> in_scheduler s1" "current_thread s1 = Some p" "scheduler_enabled s1"
    using assms by (simp_all add: s1_def sched_ok_def)
  have so: "schedule_once s1 = (Halted, s2)"
    using nin head b1 by (simp add: schedule_once_def requeue_def Let_def s2_def)
  have rr: "round_robin (current_thread s1) (cur_blocked s1) [] = (Halted, [], None)"
    using b1 v nin by (simp add: round_robin_def cur_blocked_def state_at_def s1_def)
  have ok2: "sched_ok s2 []" using schedule_once_spec [OF pre nin(3) rr] so by simp
  have k2: "keeps s s2" unfolding s2_def s1_def by (rule keeps_trans [OF keeps_upd]) (simp_all add: attrs_def keeps_def)
  have g2: "get_thread tid s2 = Some p" using keeps_get_thread [OF k2] assms(4) by simp
  have b2: "t_state (thread_table s2 ! p) = THREAD_STATE_BLOCKED" using b1 by (simp add: s2_def)
  define s3 where "s3 = thread_unblock tid s2"
  have ok3: "sched_ok s3 [p]" "current_thread s3 = None" using unblock_spec [OF ok2 g2 b2] by (simp_all add: s3_def s2_def)
  have k3: "keeps s s3" unfolding s3_def by (rule keeps_trans [OF k2 unblock_keeps])
  have en3: "scheduler_enabled s3" "s3\<lparr>in_scheduler := False\<rparr> = s3"
    using k3 assms(2) ok3(1) by (simp_all add: keeps_def sched_ok_def)
  obtain s4 where s4: "schedule [] s3 = (Start p, s4)" "keeps s3 s4"
    using schedule_spec [OF ok3(1) en3(1), of "Start p" "[]" "Some p" "[]"] ok3(2) by (auto simp: round_robin_def)
  have "schedule [wake [tid]] s1 = (Start p, s4)"
    using so s4(1) en3(2) by (subst schedule.simps) (simp add: wake_def s3_def)
  then have "thread_block [wake [tid]] tid s = Some (Start p, s4)"
    using assms(4) run rm nin(2) by (simp add: thread_block_def s1_def)
  moreover have "keeps s s4" using keeps_trans [OF k3 s4(2)] .
  ultimately show ?thesis using keeps_attrs(4) [of s s4 p] v by (simp add: keeps_def)
qed


section \<open>A small system\<close>

definition dead_thread :: thread where
  "dead_thread = \<lparr>t_tid = 0, t_parent = None, t_state = THREAD_STATE_TERMINATED, t_context = zero_context, t_stack_base = 0,
     t_stack_size = 0, t_stack_pointer = 0, t_sched = \<lparr>dl_runtime = 0, dl_deadline = 0, dl_period = 0, dl_absolute_deadline = 0,
     dl_remaining_runtime = 0\<rparr>, t_last_scheduled = 0, t_next = None, t_used = False, t_private_data = 0, t_entry_point = 0, t_sleep_until = 0\<rparr>"

definition demo_process :: process where
  "demo_process = \<lparr>p_pid = 0, p_memory_space = 0, p_state = PROCESS_STATE_TERMINATED, p_threads = replicate 16 None, p_thread_count = 0,
     p_used = False, p_name = replicate 64 0\<rparr>"

definition demo_sched :: sched where
  "demo_sched = \<lparr>process_table = replicate 64 demo_process, next_pid = 1, thread_table = replicate 256 dead_thread, current_thread = None,
     idle_thread = None, next_tid = 1, scheduler_enabled = False, in_scheduler = False, ready_queue_head = None, ready_queue_tail = None, kmem = blank_state\<rparr>"

theorem scheduler_invariant_witness:
  "system_ok (snd (process_create [105, 0] 0 (process_init (scheduler_init demo_sched))))"
  by (rule scheduler_invariant [of demo_sched, OF _ _ sched_reachable.step [OF sched_reachable.start sched_step.process [OF prod.collapse [symmetric]]]])
    (simp_all add: demo_sched_def)

text \<open>Thread 0 runs, threads 1 and 2 are ready.\<close>

definition demo_running :: sched where
  "demo_running = demo_sched\<lparr>thread_table :=
     dead_thread\<lparr>t_tid := 1, t_used := True, t_state := THREAD_STATE_RUNNING\<rparr> #
     dead_thread\<lparr>t_tid := 2, t_used := True, t_state := THREAD_STATE_READY, t_next := Some 2\<rparr> #
     dead_thread\<lparr>t_tid := 3, t_used := True, t_state := THREAD_STATE_READY\<rparr> # replicate 253 dead_thread,
     current_thread := Some 0, scheduler_enabled := True, ready_queue_head := Some 1, ready_queue_tail := Some 2\<rparr>"

lemma demo_running_at:
  "t < 256 \<Longrightarrow> state_at demo_running t ts = (t = 0 \<and> ts = THREAD_STATE_RUNNING \<or> (t = 1 \<or> t = 2) \<and> ts = THREAD_STATE_READY)"
  by (auto simp: state_at_def demo_running_def demo_sched_def dead_thread_def nth_Cons' numeral_2_eq_2)

lemma demo_running_ok: "sched_ok demo_running [1, 2]"
proof -
  have "queue_rep demo_running [1, 2]"
    by (simp add: queue_rep_def demo_running_def demo_sched_def dead_thread_def numeral_2_eq_2)
  then show ?thesis
    unfolding sched_ok_def ready_ok_def using demo_running_at by (auto simp: demo_running_def demo_sched_def)
qed

theorem schedule_round_robin_witness:
  "\<exists>s'. schedule [] demo_running = (Switch 0 1, s') \<and> sched_ok s' [2, 0] \<and> current_thread s' = Some 1 \<and> keeps demo_running s'"
  using schedule_round_robin [OF demo_running_ok, of "[]"] by (simp add: round_robin_def demo_running_def demo_sched_def)

theorem ready_thread_runs_witness: "current_thread (ticks 2 demo_running) = Some 2"
  using ready_thread_runs [OF demo_running_ok, of 1] by (simp add: demo_running_def demo_sched_def numeral_2_eq_2)

definition demo_cpu :: "u64 \<Rightarrow> cpu" where
  "demo_cpu sp = \<lparr>rsp = sp, rbx = 1, rbp = 2, r12 = 3, r13 = 4, r14 = 5, r15 = 6, rflags = 0x202, rip = 7\<rparr>"

theorem context_switch_resumes_witness:
  "fst (switch_to_thread 1 0 (demo_cpu 0x2000) (snd (switch_to_thread 0 1 (demo_cpu 0x1000) demo_running))) = demo_cpu 0x1000"
  by (rule context_switch_resumes [of 0 demo_running 1 "demo_cpu 0x1000" _ _ 1, OF _ prod.collapse [symmetric]])
    (simp_all add: demo_running_def demo_sched_def demo_cpu_def apart_def)

theorem new_thread_start_witness:
  "start_thread 1 (setup_thread_context 0x400000 1 demo_running) =
    \<lparr>rsp = 0, rbx = 0, rbp = 0, r12 = 0, r13 = 0, r14 = 0, r15 = 0, rflags = 0x202, rip = 0x400000\<rparr>"
  using new_thread_start [of 1 demo_running "0x400000"] by (simp add: demo_running_def demo_sched_def dead_thread_def)

definition demo_alone :: sched where
  "demo_alone = demo_sched\<lparr>thread_table := dead_thread\<lparr>t_tid := 1, t_used := True, t_state := THREAD_STATE_RUNNING\<rparr> # replicate 255 dead_thread,
     current_thread := Some 0, scheduler_enabled := True\<rparr>"

lemma demo_alone_ok: "sched_ok demo_alone []"
  unfolding sched_ok_def ready_ok_def queue_rep_def state_at_def
  by (auto simp: demo_alone_def demo_sched_def dead_thread_def nth_Cons')

theorem block_last_thread_restarts_witness:
  "\<exists>s'. thread_block [wake [1]] 1 demo_alone = Some (Start 0, s') \<and>
    t_context (thread_table s' ! 0) = t_context (thread_table demo_alone ! 0) \<and> kmem s' = kmem demo_alone"
  by (rule block_last_thread_restarts [OF demo_alone_ok])
    (simp_all add: demo_alone_def demo_sched_def get_thread_def MAX_THREADS_GLOBAL_def)

end
