(* ===== verification/Jobs.thy ===== *)
theory Jobs
  imports Sched_Run
begin

text \<open>
  The job table of the shell (\<open>Processes/fg.c\<close>), sleeping and time-outs (\<open>Processes/sleep.c\<close>), the start of
  the kernel threads (\<open>Processes/threads_init.c\<close>) and the timer interrupt that drives them
  (\<open>Interrupts/irq.c\<close>). The state holds the scheduler, the job table, the tick counter, and what was
  printed and written to the ports of the interrupt controller.
\<close>

section \<open>Data\<close>

definition MAX_JOBS :: nat where
  "MAX_JOBS = 32"

definition TIMER_FREQ :: u64 where
  "TIMER_FREQ = 1000"

datatype job_state = JOB_RUNNING | JOB_STOPPED | JOB_SLEEPING | JOB_DONE

record job =
  j_used :: bool
  j_job_id :: u32
  j_pid :: u32
  j_tid :: u32
  j_state :: job_state
  j_is_background :: bool
  j_sleep_until :: u64
  j_command :: bytes

text \<open>The notices that the job system prints for the user; the remaining output is tracing.\<close>

datatype notice = No_Slots | Created_Fg u32 u32 | Created_Bg u32 u32 u32 | Done_Notice u32 bytes | Awake_Notice u32 bytes | Prompt

record kernel =
  job_table :: "job list"
  next_job_id :: u32
  jobs_enabled :: bool
  last_check_ms :: u64
  timer_ticks :: u64
  timer_seconds :: u64
  console :: "notice list"
  port_log :: "(u16 \<times> u8) list"
  ksched :: sched

definition upd_job :: "nat \<Rightarrow> (job \<Rightarrow> job) \<Rightarrow> kernel \<Rightarrow> kernel" where
  "upd_job i g k = k\<lparr>job_table := (job_table k)[i := g (job_table k ! i)]\<rparr>"

definition say :: "notice list \<Rightarrow> kernel \<Rightarrow> kernel" where
  "say ns k = k\<lparr>console := console k @ ns\<rparr>"

section \<open>The job table\<close>

definition jobs_init :: "kernel \<Rightarrow> kernel" where
  "jobs_init k = k\<lparr>job_table := map (\<lambda>j. j\<lparr>j_used := False, j_job_id := 0, j_pid := 0, j_tid := 0, j_state := JOB_DONE,
     j_is_background := False, j_sleep_until := 0, j_command := (j_command j)[0 := 0]\<rparr>) (job_table k), jobs_enabled := False\<rparr>"

definition jobs_set_active :: "bool \<Rightarrow> kernel \<Rightarrow> kernel" where
  "jobs_set_active active k = k\<lparr>jobs_enabled := active\<rparr>"

definition find_free_job_slot :: "kernel \<Rightarrow> int" where
  "find_free_job_slot k = (case find_idx (\<lambda>j. \<not> j_used j) (take MAX_JOBS (job_table k)) of None \<Rightarrow> -1 | Some i \<Rightarrow> int i)"

definition add_job :: "bool \<Rightarrow> bytes \<Rightarrow> u32 \<Rightarrow> u32 \<Rightarrow> kernel \<Rightarrow> int \<times> kernel" where
  "add_job bg command pid tid k =
     (let slot = find_free_job_slot k in
      if slot < 0 then (-1, say [No_Slots] k)
      else let i = next_job_id k;
               k = k\<lparr>next_job_id := i + 1\<rparr>;
               k = upd_job (nat slot) (\<lambda>j. j\<lparr>j_job_id := i, j_pid := pid, j_tid := tid, j_state := JOB_RUNNING, j_is_background := bg,
                     j_used := True, j_sleep_until := 0, j_command := put_at 0 (take 255 (cstr command) @ [0]) (j_command j)\<rparr>) k
           in (sint i, say [if bg then Created_Bg i pid tid else Created_Fg i tid] k))"

definition add_fg_job :: "bytes \<Rightarrow> u32 \<Rightarrow> u32 \<Rightarrow> kernel \<Rightarrow> int \<times> kernel" where
  "add_fg_job = add_job False"

definition add_bg_job :: "bytes \<Rightarrow> u32 \<Rightarrow> u32 \<Rightarrow> kernel \<Rightarrow> int \<times> kernel" where
  "add_bg_job = add_job True"

definition get_job :: "u32 \<Rightarrow> kernel \<Rightarrow> nat option" where
  "get_job job_id k = find_idx (\<lambda>j. j_used j \<and> j_job_id j = job_id) (take MAX_JOBS (job_table k))"

definition remove_job :: "u32 \<Rightarrow> kernel \<Rightarrow> kernel" where
  "remove_job job_id k =
     (case find_idx (\<lambda>j. j_used j \<and> j_job_id j = job_id) (take MAX_JOBS (job_table k)) of
        None \<Rightarrow> k
      | Some i \<Rightarrow> upd_job i (\<lambda>j. j\<lparr>j_used := False, j_state := JOB_DONE\<rparr>)
          (say [Done_Notice job_id (cstr (j_command (job_table k ! i)))] k))"

section \<open>Time\<close>

definition get_timer_ticks :: "kernel \<Rightarrow> u64" where
  "get_timer_ticks k = timer_ticks k"

definition get_uptime_ms :: "kernel \<Rightarrow> u64" where
  "get_uptime_ms k = (get_timer_ticks k * 1000) div TIMER_FREQ"

definition get_uptime_seconds :: "kernel \<Rightarrow> u64" where
  "get_uptime_seconds k = timer_seconds k"

record timeout =
  start_ticks :: u64
  timeout_ticks :: u64

definition timeout_init :: "u64 \<Rightarrow> kernel \<Rightarrow> timeout" where
  "timeout_init milliseconds k = \<lparr>start_ticks = get_timer_ticks k, timeout_ticks = (milliseconds * TIMER_FREQ) div 1000\<rparr>"

definition timeout_expired :: "timeout \<Rightarrow> kernel \<Rightarrow> bool" where
  "timeout_expired to k = (let elapsed = get_timer_ticks k - start_ticks to in elapsed \<ge> timeout_ticks to)"

definition timeout_remaining_ms :: "timeout \<Rightarrow> kernel \<Rightarrow> u64" where
  "timeout_remaining_ms to k =
     (let elapsed = get_timer_ticks k - start_ticks to in
      if elapsed \<ge> timeout_ticks to then 0
      else let remaining_ticks = timeout_ticks to - elapsed in (remaining_ticks * 1000) div TIMER_FREQ)"

definition measure_time_ms :: "(kernel \<Rightarrow> kernel) \<Rightarrow> kernel \<Rightarrow> u64 \<times> kernel" where
  "measure_time_ms func k =
     (let start = get_timer_ticks k; k = func k; stop = get_timer_ticks k
      in (((stop - start) * 1000) div TIMER_FREQ, k))"

section \<open>Listing\<close>

text \<open>The digits of the remaining seconds, least significant first, as the loop stores them.\<close>

fun rev_digits :: "nat \<Rightarrow> bytes" where
  "rev_digits n = (if n > 0 then of_nat (48 + n mod 10) # rev_digits (n div 10) else [])"

declare rev_digits.simps [simp del]

definition sleep_detail :: "u64 \<Rightarrow> u64 \<Rightarrow> string" where
  "sleep_detail sleep_until now =
     (if sleep_until > now then
        let remaining = unat ((sleep_until - now) div 1000)
        in '' ('' @ (if remaining = 0 then ''<1'' else map (\<lambda>b. char_of (unat b)) (rev (rev_digits remaining))) @ ''s)''
      else '''')"

text \<open>One line of the listing: number, foreground mark, state, detail and command.\<close>

definition job_line :: "kernel \<Rightarrow> job \<Rightarrow> u32 \<times> string \<times> string \<times> string \<times> bytes" where
  "job_line k j =
     (let (state_str, detail_str) =
        (case get_thread (j_tid j) (ksched k) of
           None \<Rightarrow> (''Done'', '''')
         | Some t \<Rightarrow>
             if t_state (thread_table (ksched k) ! t) = THREAD_STATE_TERMINATED then (''Done'', '''')
             else (case j_state j of
                     JOB_RUNNING \<Rightarrow> (''Running'', case t_state (thread_table (ksched k) ! t) of
                         THREAD_STATE_READY \<Rightarrow> '' (ready)'' | THREAD_STATE_BLOCKED \<Rightarrow> '' (blocked)'' | _ \<Rightarrow> '''')
                   | JOB_STOPPED \<Rightarrow> (''Stopped'', '''')
                   | JOB_SLEEPING \<Rightarrow> (''Sleeping'', sleep_detail (j_sleep_until j) (get_uptime_ms k))
                   | JOB_DONE \<Rightarrow> (''Unknown'', '''')))
      in (j_job_id j, if j_is_background j then '''' else ''(fg) '', state_str, detail_str, cstr (j_command j)))"

definition list_jobs :: "kernel \<Rightarrow> (u32 \<times> string \<times> string \<times> string \<times> bytes) list" where
  "list_jobs k = map (job_line k) (filter j_used (take MAX_JOBS (job_table k)))"

section \<open>Following the threads\<close>

text \<open>The state a job takes from its thread when it is not asleep.\<close>

definition follow_thread :: "thread_state \<Rightarrow> job \<Rightarrow> job" where
  "follow_thread ts j =
     (case ts of
        THREAD_STATE_RUNNING \<Rightarrow> if j_state j \<noteq> JOB_RUNNING then j\<lparr>j_state := JOB_RUNNING\<rparr> else j
      | THREAD_STATE_READY \<Rightarrow> if j_state j \<noteq> JOB_RUNNING then j\<lparr>j_state := JOB_RUNNING\<rparr> else j
      | THREAD_STATE_BLOCKED \<Rightarrow>
          if j_sleep_until j > 0 then if j_state j \<noteq> JOB_SLEEPING then j\<lparr>j_state := JOB_SLEEPING\<rparr> else j
          else if j_state j \<noteq> JOB_STOPPED then j\<lparr>j_state := JOB_STOPPED\<rparr> else j
      | THREAD_STATE_TERMINATED \<Rightarrow> j)"

definition update_job_safe :: "u64 \<Rightarrow> nat \<Rightarrow> kernel \<Rightarrow> kernel" where
  "update_job_safe current_time_ms i k =
     (let j = job_table k ! i in
      if \<not> j_used j then k
      else
        let gone = upd_job i (\<lambda>j. j\<lparr>j_used := False, j_state := JOB_DONE\<rparr>) k in
        (case get_thread (j_tid j) (ksched k) of
           None \<Rightarrow> gone
         | Some t \<Rightarrow>
             let ts = t_state (thread_table (ksched k) ! t) in
             if ts = THREAD_STATE_TERMINATED then gone
             else if j_state j = JOB_SLEEPING \<and> j_sleep_until j > 0 then
               if current_time_ms \<ge> j_sleep_until j then
                 upd_job i (\<lambda>j. j\<lparr>j_state := JOB_RUNNING, j_sleep_until := 0\<rparr>) (k\<lparr>ksched := thread_unblock (j_tid j) (ksched k)\<rparr>)
               else k
             else upd_job i (follow_thread ts) k))"

definition update_jobs_safe :: "kernel \<Rightarrow> kernel" where
  "update_jobs_safe k =
     (if \<not> jobs_enabled k then k
      else fold (update_job_safe (get_uptime_ms k)) [0..<MAX_JOBS] k)"

text \<open>The update that the shell runs does the same and tells the user about background jobs.\<close>

definition update_job :: "u64 \<Rightarrow> nat \<Rightarrow> kernel \<Rightarrow> kernel" where
  "update_job current_time_ms i k =
     (let j = job_table k ! i in
      if \<not> j_used j then k
      else
        let gone = upd_job i (\<lambda>j. j\<lparr>j_used := False, j_state := JOB_DONE\<rparr>)
              (if j_is_background j \<and> j_state j \<noteq> JOB_DONE then say [Done_Notice (j_job_id j) (cstr (j_command j)), Prompt] k else k) in
        (case get_thread (j_tid j) (ksched k) of
           None \<Rightarrow> gone
         | Some t \<Rightarrow>
             let ts = t_state (thread_table (ksched k) ! t) in
             if ts = THREAD_STATE_TERMINATED then gone
             else if j_state j = JOB_SLEEPING \<and> j_sleep_until j > 0 then
               if current_time_ms \<ge> j_sleep_until j then
                 let k = k\<lparr>ksched := thread_unblock (j_tid j) (ksched k)\<rparr>;
                     k = upd_job i (\<lambda>j. j\<lparr>j_state := JOB_RUNNING, j_sleep_until := 0\<rparr>) k
                 in if j_is_background j then say [Awake_Notice (j_job_id j) (cstr (j_command j)), Prompt] k else k
               else k
             else upd_job i (follow_thread ts) k))"

definition update_jobs :: "kernel \<Rightarrow> kernel" where
  "update_jobs k =
     (if \<not> jobs_enabled k then k
      else let current_time_ms = get_uptime_ms k;
               should_debug = current_time_ms - last_check_ms k > 1000;
               k = (if should_debug then k\<lparr>last_check_ms := current_time_ms\<rparr> else k)
           in fold (update_job current_time_ms) [0..<MAX_JOBS] k)"

section \<open>Sleeping\<close>

text \<open>
  With no current thread the processor halts until enough timer interrupts have been handled; \<open>irqs\<close>
  are the effects of the interrupts that arrive, and \<open>False\<close> says that it is still waiting after them.
\<close>

fun hlt_until :: "u64 \<Rightarrow> (kernel \<Rightarrow> kernel) list \<Rightarrow> kernel \<Rightarrow> bool \<times> kernel" where
  "hlt_until target irqs k =
     (if get_timer_ticks k < target then (case irqs of [] \<Rightarrow> (False, k) | f # fs \<Rightarrow> hlt_until target fs (f k)) else (True, k))"

declare hlt_until.simps [simp del]

definition mark_sleeping :: "u32 \<Rightarrow> u64 \<Rightarrow> kernel \<Rightarrow> kernel" where
  "mark_sleeping tid wake_time_ms k =
     (case find_idx (\<lambda>j. j_used j \<and> j_tid j = tid) (take MAX_JOBS (job_table k)) of
        None \<Rightarrow> k
      | Some i \<Rightarrow> upd_job i (\<lambda>j. j\<lparr>j_state := JOB_SLEEPING, j_sleep_until := wake_time_ms\<rparr>) k)"

text \<open>
  The result says where control goes. When it is \<open>Stay\<close>, the call has returned; otherwise the caller is
  suspended and the rest of the function, a further call of \<open>schedule\<close>, runs when it is switched to
  again. When the processor is halted inside \<open>schedule\<close>, \<open>retry_schedule\<close> is what follows an interrupt.
\<close>

definition run_schedule :: "kernel \<Rightarrow> control \<times> kernel" where
  "run_schedule k = (let (c, s) = schedule [] (ksched k) in (c, k\<lparr>ksched := s\<rparr>))"

definition retry_schedule :: "kernel \<Rightarrow> control \<times> kernel" where
  "retry_schedule k = run_schedule (k\<lparr>ksched := (ksched k)\<lparr>in_scheduler := False\<rparr>\<rparr>)"

definition sleep_ticks :: "(kernel \<Rightarrow> kernel) list \<Rightarrow> u64 \<Rightarrow> kernel \<Rightarrow> (control \<times> kernel) option" where
  "sleep_ticks irqs n_ticks k =
     (if n_ticks = 0 then Some (Stay, k)
      else case get_current_thread (ksched k) of
        None \<Rightarrow>
          let target = get_timer_ticks k + n_ticks; (woken, k) = hlt_until target irqs k
          in Some (if woken then Stay else Halted, k)
      | Some t \<Rightarrow>
          let tid = t_tid (thread_table (ksched k) ! t);
              current_time_ms = get_uptime_ms k;
              sleep_duration_ms = (n_ticks * 1000) div TIMER_FREQ;
              wake_time_ms = current_time_ms + sleep_duration_ms;
              k = mark_sleeping tid wake_time_ms k
          in Option.bind (thread_block [] tid (ksched k)) (\<lambda>(c, s).
               let k = k\<lparr>ksched := s\<rparr> in Some (if c = Stay then run_schedule k else (c, k))))"

definition sleep_ms :: "(kernel \<Rightarrow> kernel) list \<Rightarrow> u64 \<Rightarrow> kernel \<Rightarrow> (control \<times> kernel) option" where
  "sleep_ms irqs milliseconds k =
     (if milliseconds = 0 then Some (Stay, k)
      else let n_ticks = (milliseconds * TIMER_FREQ) div 1000; n_ticks = (if n_ticks = 0 then 1 else n_ticks) in sleep_ticks irqs n_ticks k)"

definition sleep_seconds :: "(kernel \<Rightarrow> kernel) list \<Rightarrow> u32 \<Rightarrow> kernel \<Rightarrow> (control \<times> kernel) option" where
  "sleep_seconds irqs seconds k = (if seconds = 0 then Some (Stay, k) else sleep_ms irqs (ucast (seconds * 1000)) k)"

definition sleep_us :: "(kernel \<Rightarrow> kernel) list \<Rightarrow> u64 \<Rightarrow> kernel \<Rightarrow> (control \<times> kernel) option" where
  "sleep_us irqs microseconds k =
     (if microseconds = 0 then Some (Stay, k)
      else let milliseconds = (microseconds + 999) div 1000; milliseconds = (if milliseconds = 0 then 1 else milliseconds)
           in sleep_ms irqs milliseconds k)"

section \<open>The timer interrupt\<close>

definition outb :: "u16 \<Rightarrow> u8 \<Rightarrow> kernel \<Rightarrow> kernel" where
  "outb port v k = k\<lparr>port_log := port_log k @ [(port, v)]\<rparr>"

text \<open>
  What the handler does after the scheduler tick; when the tick switched to another thread, it runs
  only once the interrupted thread is switched to again.
\<close>

definition timer_rest :: "kernel \<Rightarrow> kernel" where
  "timer_rest k = outb 0x20 0x20 (update_jobs_safe k)"

definition timer_handler_c :: "kernel \<Rightarrow> control \<times> kernel" where
  "timer_handler_c k =
     (let k = k\<lparr>timer_ticks := timer_ticks k + 1\<rparr>;
          (c, k) = (if get_scheduler_enabled (ksched k) then let (c, s) = scheduler_tick [] (ksched k) in (c, k\<lparr>ksched := s\<rparr>) else (Stay, k))
      in if c = Stay then (Stay, timer_rest k) else (c, k))"

section \<open>The kernel threads\<close>

definition init_kernel_threads :: "u64 \<Rightarrow> u64 \<Rightarrow> sched \<Rightarrow> (control \<times> sched) option" where
  "init_kernel_threads wrapper idle_thread_entry s =
     (let (init_pid, s) = process_create [105, 110, 105, 116, 0] 0 s in
      if init_pid < 0 then Some (Stay, s)
      else map_option snd (thread_create wrapper [] (of_int init_pid) idle_thread_entry 65536 10000000 1000000000 1000000000 s))"

end
