(* ===== verification/Jobs_Inv.thy ===== *)
theory Jobs_Inv
  imports Jobs
begin

text \<open>
  Properties of jobs and sleeping: the shell's and the interrupt's job updates agree, job numbers are
  unique, and a sleeping thread is woken by the first update at or after its wake time and by none
  before, provided that it has a job.
\<close>

section \<open>One job at a time\<close>

lemma upd_job_simps [simp]:
  "ksched (upd_job i g k) = ksched k" "jobs_enabled (upd_job i g k) = jobs_enabled k" "timer_ticks (upd_job i g k) = timer_ticks k"
  "next_job_id (upd_job i g k) = next_job_id k" "console (upd_job i g k) = console k" "last_check_ms (upd_job i g k) = last_check_ms k"
  "length (job_table (upd_job i g k)) = length (job_table k)" "port_log (upd_job i g k) = port_log k"
  "i < length (job_table k) \<Longrightarrow> job_table (upd_job i g k) ! i = g (job_table k ! i)"
  "j \<noteq> i \<Longrightarrow> job_table (upd_job i g k) ! j = job_table k ! j"
  by (simp_all add: upd_job_def)

lemma say_simps [simp]:
  "ksched (say ns k) = ksched k" "job_table (say ns k) = job_table k" "next_job_id (say ns k) = next_job_id k"
  "jobs_enabled (say ns k) = jobs_enabled k" "timer_ticks (say ns k) = timer_ticks k"
  by (simp_all add: say_def)

lemma update_safe_frame:
  "length (job_table (update_job_safe now i k)) = length (job_table k)" "next_job_id (update_job_safe now i k) = next_job_id k"
  "j \<noteq> i \<Longrightarrow> job_table (update_job_safe now i k) ! j = job_table k ! j"
  by (simp_all add: update_job_safe_def Let_def split: option.splits)

text \<open>An update touches the scheduler only to wake the thread of a job whose time has come.\<close>

lemma update_safe_sched:
  "ksched (update_job_safe now i k) = ksched k \<or>
    (j_used (job_table k ! i) \<and> j_state (job_table k ! i) = JOB_SLEEPING \<and> j_sleep_until (job_table k ! i) \<le> now \<and>
     ksched (update_job_safe now i k) = thread_unblock (j_tid (job_table k ! i)) (ksched k))"
  by (simp add: update_job_safe_def Let_def split: option.splits)

lemma update_safe_keeps: "keeps (ksched k) (ksched (update_job_safe now i k))"
  using update_safe_sched [of now i k] unblock_keeps by auto

lemma fold_safe_keeps:
  "keeps (ksched k) (ksched (fold (update_job_safe now) is k))" "length (job_table (fold (update_job_safe now) is k)) = length (job_table k)"
  "next_job_id (fold (update_job_safe now) is k) = next_job_id k"
  "j \<notin> set is \<Longrightarrow> job_table (fold (update_job_safe now) is k) ! j = job_table k ! j"
proof (induction "is" arbitrary: k)
  case (Cons i "is")
  case 1
  show ?case using Cons.IH(1) [of "update_job_safe now i k"] keeps_trans [OF update_safe_keeps] by simp
qed (simp_all add: update_safe_frame)


text \<open>The jobs keep their numbers, threads and commands.\<close>

definition job_key :: "job \<Rightarrow> u32 \<times> u32 \<times> bytes" where
  "job_key j = (j_job_id j, j_tid j, j_command j)"

definition same_jobs :: "job list \<Rightarrow> job list \<Rightarrow> bool" where
  "same_jobs js js' \<longleftrightarrow> length js' = length js \<and> (\<forall>i < length js. job_key (js' ! i) = job_key (js ! i) \<and> (j_used (js' ! i) \<longrightarrow> j_used (js ! i)))"

lemma same_jobs_refl [simp]: "same_jobs js js"
  by (simp add: same_jobs_def)

lemma same_jobs_trans: "same_jobs js js' \<Longrightarrow> same_jobs js' js'' \<Longrightarrow> same_jobs js js''"
  by (auto simp: same_jobs_def)

lemma same_jobs_upd: "(\<And>j. job_key (g j) = job_key j \<and> (j_used (g j) \<longrightarrow> j_used j)) \<Longrightarrow> same_jobs (job_table k) (job_table (upd_job i g k))"
  unfolding same_jobs_def
proof (intro conjI allI impI)
  assume g: "\<And>j. job_key (g j) = job_key j \<and> (j_used (g j) \<longrightarrow> j_used j)"
  fix n assume n: "n < length (job_table k)"
  show "job_key (job_table (upd_job i g k) ! n) = job_key (job_table k ! n)" using n g by (cases "n = i") simp_all
  show "j_used (job_table k ! n)" if "j_used (job_table (upd_job i g k) ! n)" using that n g by (cases "n = i") auto
qed simp

lemma follow_thread_key: "job_key (follow_thread ts j) = job_key j \<and> j_used (follow_thread ts j) = j_used j"
  by (simp add: follow_thread_def job_key_def split: thread_state.splits)

lemma update_safe_same: "same_jobs (job_table k) (job_table (update_job_safe now i k))"
proof -
  have "same_jobs (job_table k) (job_table (upd_job i (follow_thread ts) k))"
    "same_jobs (job_table k) (job_table (upd_job i (\<lambda>j. j\<lparr>j_used := False, j_state := JOB_DONE\<rparr>) k))"
    "same_jobs (job_table k) (job_table (upd_job i (\<lambda>j. j\<lparr>j_state := JOB_RUNNING, j_sleep_until := 0\<rparr>) (k\<lparr>ksched := s\<rparr>)))" for ts s
    using same_jobs_upd [of "follow_thread ts"] follow_thread_key same_jobs_upd [of _ "k\<lparr>ksched := s\<rparr>"]
    by (auto intro!: same_jobs_upd simp: job_key_def)
  then show ?thesis by (simp add: update_job_safe_def Let_def split: option.splits)
qed

lemma fold_safe_same: "same_jobs (job_table k) (job_table (fold (update_job_safe now) is k))"
proof (induction "is" arbitrary: k)
  case (Cons i "is")
  show ?case using same_jobs_trans [OF update_safe_same Cons.IH [of "update_job_safe now i k"]] by simp
qed simp

lemma update_jobs_safe_same: "same_jobs (job_table k) (job_table (update_jobs_safe k))"
  by (simp add: update_jobs_safe_def fold_safe_same)

section \<open>The two updates agree\<close>

definition silent :: "kernel \<Rightarrow> kernel" where
  "silent k = k\<lparr>console := [], last_check_ms := 0\<rparr>"

lemma silent_simps [simp]:
  "ksched (silent k) = ksched k" "job_table (silent k) = job_table k" "jobs_enabled (silent k) = jobs_enabled k"
  "get_uptime_ms (silent k) = get_uptime_ms k" "silent (say ns k) = silent k" "silent (k\<lparr>last_check_ms := n\<rparr>) = silent k"
  "silent (upd_job i g k) = upd_job i g (silent k)" "silent (k\<lparr>ksched := s\<rparr>) = (silent k)\<lparr>ksched := s\<rparr>"
  by (simp_all add: silent_def upd_job_def say_def get_uptime_ms_def get_timer_ticks_def)

lemma update_job_silent:
  "silent (update_job now i k) = update_job_safe now i (silent k)" "silent (update_job_safe now i k) = update_job_safe now i (silent k)"
  by (auto simp: update_job_def update_job_safe_def Let_def split: option.splits)

lemma fold_silent: "(\<And>i k. silent (f i k) = g i (silent k)) \<Longrightarrow> silent (fold f is k) = fold g is (silent k)"
  by (induction "is" arbitrary: k) simp_all

lemma update_jobs_silent: "silent (update_jobs k) = silent (update_jobs_safe k)"
  using fold_silent [of "update_job (get_uptime_ms k)", OF update_job_silent(1)]
    fold_silent [of "update_job_safe (get_uptime_ms k)", OF update_job_silent(2)]
  by (simp add: update_jobs_def update_jobs_safe_def Let_def)

text \<open>
  The update that the shell runs and the one in the timer interrupt have the same effect on jobs
  and threads; they differ only in what is printed and in the time stamp of the last report.
\<close>

theorem update_jobs_agree: "(update_jobs k)\<lparr>console := [], last_check_ms := 0\<rparr> = (update_jobs_safe k)\<lparr>console := [], last_check_ms := 0\<rparr>"
  using update_jobs_silent unfolding silent_def by simp

section \<open>Waking\<close>

lemma unblock_state:
  assumes "t < length (thread_table s)"
  shows "t_state (thread_table (thread_unblock tid s) ! t) =
    (if get_thread tid s = Some t \<and> t_state (thread_table s ! t) = THREAD_STATE_BLOCKED then THREAD_STATE_READY else t_state (thread_table s ! t))"
proof (cases "\<exists>u. get_thread tid s = Some u \<and> t_state (thread_table s ! u) = THREAD_STATE_BLOCKED")
  case False
  then show ?thesis by (auto simp: thread_unblock_def split: option.splits)
next
  case True
  then obtain u where u: "get_thread tid s = Some u" "t_state (thread_table s ! u) = THREAD_STATE_BLOCKED" by blast
  let ?s = "upd_thread u (\<lambda>x. x\<lparr>t_state := THREAD_STATE_READY\<rparr>) s"
  have "t_state (thread_table (ready_queue_add (Some u) ?s) ! t) = t_state (thread_table ?s ! t)"
    by (rule same_attrs(2) [OF add_frame]) (simp add: assms)
  then show ?thesis using u assms by (cases "t = u") (simp_all add: thread_unblock_def)
qed

lemma update_safe_state:
  assumes "t < length (thread_table (ksched k))"
    and "\<not> (j_used (job_table k ! i) \<and> j_state (job_table k ! i) = JOB_SLEEPING \<and> j_sleep_until (job_table k ! i) \<le> now \<and>
      get_thread (j_tid (job_table k ! i)) (ksched k) = Some t)"
  shows "t_state (thread_table (ksched (update_job_safe now i k)) ! t) = t_state (thread_table (ksched k) ! t)"
  using update_safe_sched [of now i k] unblock_state [OF assms(1)] assms(2) by auto

text \<open>No update in a row blocks or wakes a thread while the jobs of that thread are not due.\<close>

lemma fold_safe_state:
  assumes "t < length (thread_table (ksched k))" "distinct is"
    and "\<And>i. i \<in> set is \<Longrightarrow> \<not> (j_used (job_table k ! i) \<and> j_state (job_table k ! i) = JOB_SLEEPING \<and> j_sleep_until (job_table k ! i) \<le> now \<and>
      get_thread (j_tid (job_table k ! i)) (ksched k) = Some t)"
  shows "t_state (thread_table (ksched (fold (update_job_safe now) is k)) ! t) = t_state (thread_table (ksched k) ! t)"
  using assms
proof (induction "is" arbitrary: k)
  case (Cons i "is")
  let ?k = "update_job_safe now i k"
  have len: "length (thread_table (ksched ?k)) = length (thread_table (ksched k))"
    using update_safe_keeps [of k now i] by (metis keeps_def length_map)
  have "t_state (thread_table (ksched (fold (update_job_safe now) is ?k)) ! t) = t_state (thread_table (ksched ?k) ! t)"
  proof (rule Cons.IH)
    fix j
    assume j: "j \<in> set is"
    then have "j \<noteq> i" using Cons.prems(2) by auto
    then show "\<not> (j_used (job_table ?k ! j) \<and> j_state (job_table ?k ! j) = JOB_SLEEPING \<and> j_sleep_until (job_table ?k ! j) \<le> now \<and>
      get_thread (j_tid (job_table ?k ! j)) (ksched ?k) = Some t)"
      using Cons.prems(3) [of j] j keeps_get_thread [OF update_safe_keeps] by (simp add: update_safe_frame)
  qed (use Cons.prems len in auto)
  also have "\<dots> = t_state (thread_table (ksched k) ! t)" by (rule update_safe_state [OF Cons.prems(1)]) (use Cons.prems(3) in auto)
  finally show ?case by simp
qed simp

lemma safe_sched_ok: "sched_ok (ksched k) q \<Longrightarrow> \<exists>q'. sched_ok (ksched (update_job_safe now i k)) q'"
  using update_safe_sched [of now i k] unblock_ok(1) by fastforce

lemma fold_safe_sched_ok: "sched_ok (ksched k) q \<Longrightarrow> \<exists>q'. sched_ok (ksched (fold (update_job_safe now) is k)) q'"
proof (induction "is" arbitrary: k q)
  case (Cons i "is")
  from safe_sched_ok [OF Cons.prems, of now i] show ?case using Cons.IH by auto
qed auto

lemma update_safe_ok:
  "sched_ok (ksched k) q \<Longrightarrow> \<exists>q'. sched_ok (ksched (update_jobs_safe k)) q'" "keeps (ksched k) (ksched (update_jobs_safe k))"
  using fold_safe_sched_ok [of k q] fold_safe_keeps(1) [of k] by (auto simp: update_jobs_safe_def)


section \<open>Blocked threads\<close>




section \<open>Going to sleep\<close>














section \<open>Sleeping without a job\<close>

text \<open>
  A blocked thread that no job names is not woken by any number of job updates, at whatever times
  they run: a thread that sleeps without having a job never wakes up.
\<close>

theorem sleep_without_job:
  assumes "t < length (thread_table (ksched k))" and "t_state (thread_table (ksched k) ! t) = THREAD_STATE_BLOCKED"
    and "length (job_table k) = 32" and "\<And>i. i < 32 \<Longrightarrow> j_used (job_table k ! i) \<Longrightarrow> get_thread (j_tid (job_table k ! i)) (ksched k) \<noteq> Some t"
  shows "t_state (thread_table (ksched (fold (\<lambda>now k. update_jobs_safe (k\<lparr>timer_ticks := now\<rparr>)) clocks k)) ! t) = THREAD_STATE_BLOCKED"
  using assms
proof (induction clocks arbitrary: k)
  case (Cons now clocks)
  define k0 where "k0 = k\<lparr>timer_ticks := now\<rparr>"
  have e: "ksched k0 = ksched k" "job_table k0 = job_table k" by (simp_all add: k0_def)
  note kp = update_safe_ok(2) [of k0, unfolded e]
  have "t_state (thread_table (ksched (update_jobs_safe k0)) ! t) = t_state (thread_table (ksched k) ! t)"
    unfolding update_jobs_safe_def e(1) [symmetric]
    by (simp, intro impI fold_safe_state) (use Cons.prems in \<open>auto simp: e MAX_JOBS_def\<close>)
  moreover have "length (thread_table (ksched (update_jobs_safe k0))) = length (thread_table (ksched k))"
    using arg_cong [OF conjunct1 [OF kp [unfolded keeps_def]], of length] by simp
  ultimately show ?case
    using Cons.IH [of "update_jobs_safe k0"] Cons.prems update_jobs_safe_same [of k0] keeps_get_thread [OF kp]
    by (simp add: e same_jobs_def job_key_def k0_def [symmetric])
qed simp

end
