(* ===== verification/Jobs_Run.thy ===== *)
theory Jobs_Run
  imports Jobs_Inv
begin

text \<open>
  The invariant of the whole kernel state of threads and jobs under every operation, with the timer
  interrupt among them; creating and finding jobs; the limits of the time arithmetic; and a small
  system on which the theorems on jobs are applied.
\<close>

section \<open>The job table invariant\<close>

definition jobs_ok :: "kernel \<Rightarrow> bool" where
  "jobs_ok k \<longleftrightarrow> length (job_table k) = 32 \<and>
     (\<forall>i < 32. length (j_command (job_table k ! i)) = 256 \<and>
        (j_used (job_table k ! i) \<longrightarrow> 0 < j_job_id (job_table k ! i) \<and> j_job_id (job_table k ! i) < next_job_id k)) \<and>
     (\<forall>i < 32. \<forall>j < 32. j_used (job_table k ! i) \<and> j_used (job_table k ! j) \<and> j_job_id (job_table k ! i) = j_job_id (job_table k ! j) \<longrightarrow> i = j)"

definition kernel_ok :: "kernel \<Rightarrow> bool" where
  "kernel_ok k \<longleftrightarrow> system_ok (ksched k) \<and> jobs_ok k \<and> 0 < next_job_id k"

lemma jobs_ok_same: "jobs_ok k \<Longrightarrow> same_jobs (job_table k) (job_table k') \<Longrightarrow> next_job_id k' = next_job_id k \<Longrightarrow> jobs_ok k'"
  by (simp add: jobs_ok_def same_jobs_def job_key_def)

lemma jobs_ok_len: "jobs_ok k \<Longrightarrow> length (job_table k) = 32"
  by (simp add: jobs_ok_def)

lemma job_ids:
  "jobs_ok k \<Longrightarrow> i < 32 \<Longrightarrow> j_used (job_table k ! i) \<Longrightarrow> 0 < j_job_id (job_table k ! i) \<and> j_job_id (job_table k ! i) < next_job_id k"
  by (simp add: jobs_ok_def)

lemma job_ids_unique:
  "jobs_ok k \<Longrightarrow> i < 32 \<Longrightarrow> j < 32 \<Longrightarrow> j_used (job_table k ! i) \<Longrightarrow> j_used (job_table k ! j) \<Longrightarrow>
    j_job_id (job_table k ! i) = j_job_id (job_table k ! j) \<Longrightarrow> i = j"
  unfolding jobs_ok_def by blast

text \<open>What creating a job does: the first free slot is filled, all others stay.\<close>

lemma add_job_cases:
  assumes "jobs_ok k"
  shows "(\<forall>i < 32. j_used (job_table k ! i)) \<and> add_job bg cmd pid tid k = (-1, say [No_Slots] k) \<or>
    (\<exists>i < 32. \<exists>k'. \<not> j_used (job_table k ! i) \<and> add_job bg cmd pid tid k = (sint (next_job_id k), k') \<and> ksched k' = ksched k \<and>
      next_job_id k' = next_job_id k + 1 \<and>
      job_table k' = (job_table k)[i := (job_table k ! i)\<lparr>j_job_id := next_job_id k, j_pid := pid, j_tid := tid, j_state := JOB_RUNNING,
        j_is_background := bg, j_used := True, j_sleep_until := 0,
        j_command := put_at 0 (take 255 (cstr cmd) @ [0]) (j_command (job_table k ! i))\<rparr>])"
proof (cases "find_idx (\<lambda>j. \<not> j_used j) (job_table k)")
  case None
  then have "\<forall>i < 32. j_used (job_table k ! i)" using jobs_ok_len [OF assms] by (simp add: find_idx_None_iff)
  then show ?thesis using None jobs_ok_len [OF assms] by (simp add: add_job_def find_free_job_slot_def MAX_JOBS_def)
next
  case (Some i)
  note f = find_idx_SomeD [OF Some]
  show ?thesis
    by (rule disjI2, intro exI [of _ i] conjI exI [of _ "snd (add_job bg cmd pid tid k)"])
      (use f Some jobs_ok_len [OF assms] in \<open>simp_all add: add_job_def find_free_job_slot_def MAX_JOBS_def Let_def upd_job_def\<close>)
qed

lemma add_job_ok:
  assumes "jobs_ok k" "next_job_id k < 0x7FFFFFFF" "0 < next_job_id k" "add_job bg cmd pid tid k = (r, k')"
  shows "jobs_ok k' \<and> ksched k' = ksched k \<and> 0 < next_job_id k'"
proof -
  have lt: "next_job_id k < next_job_id k + 1" "0 < next_job_id k + 1"
    using assms(2) by (simp_all add: word_less_nat_alt unat_word_ariths)
  show ?thesis using add_job_cases [OF assms(1), of bg cmd pid tid]
  proof (elim disjE exE conjE)
    assume "add_job bg cmd pid tid k = (-1, say [No_Slots] k)"
    then show ?thesis using assms by (auto simp: jobs_ok_def)
  next
    fix i k2
    assume i: "i < 32" "\<not> j_used (job_table k ! i)" "add_job bg cmd pid tid k = (sint (next_job_id k), k2)" "ksched k2 = ksched k"
      "next_job_id k2 = next_job_id k + 1"
      "job_table k2 = (job_table k)[i := (job_table k ! i)\<lparr>j_job_id := next_job_id k, j_pid := pid, j_tid := tid, j_state := JOB_RUNNING,
        j_is_background := bg, j_used := True, j_sleep_until := 0,
        j_command := put_at 0 (take 255 (cstr cmd) @ [0]) (j_command (job_table k ! i))\<rparr>]"
    have e: "k' = k2" using assms(4) i(3) by simp
    have id: "j_used (job_table k ! n) \<Longrightarrow> j_job_id (job_table k ! n) < next_job_id k \<and> 0 < j_job_id (job_table k ! n)" if "n < 32" for n
      using job_ids [OF assms(1) that] by simp
    have len: "length (job_table k) = 32" "\<And>n. n < 32 \<Longrightarrow> length (j_command (job_table k ! n)) = 256" using assms(1) by (simp_all add: jobs_ok_def)
    have "jobs_ok k2" unfolding jobs_ok_def
    proof (intro conjI allI impI)
      show "length (job_table k2) = 32" using i(6) len by simp
      fix n :: nat assume n: "n < 32"
      show "length (j_command (job_table k2 ! n)) = 256" using i(1,6) n len by (cases "n = i") simp_all
      assume u: "j_used (job_table k2 ! n)"
      show "0 < j_job_id (job_table k2 ! n)" using u i(1,6) n len id [OF n] assms(3) by (cases "n = i") simp_all
      show "j_job_id (job_table k2 ! n) < next_job_id k2"
        using u i(1,5,6) n len id [OF n] lt by (cases "n = i") (auto dest: less_trans)
    next
      fix n m :: nat
      assume a: "n < 32" "m < 32" "j_used (job_table k2 ! n) \<and> j_used (job_table k2 ! m) \<and> j_job_id (job_table k2 ! n) = j_job_id (job_table k2 ! m)"
      show "n = m" using a i(1,6) len id [OF a(1)] id [OF a(2)] job_ids_unique [OF assms(1) a(1,2)]
        by (cases "n = i"; cases "m = i") auto
    qed
    then show ?thesis using e i(4,5) lt by simp
  qed
qed

lemma remove_job_ok: "jobs_ok k \<Longrightarrow> jobs_ok (remove_job jid k) \<and> ksched (remove_job jid k) = ksched k \<and> next_job_id (remove_job jid k) = next_job_id k"
proof -
  assume "jobs_ok k"
  moreover have "same_jobs (job_table k) (job_table (remove_job jid k))"
    using same_jobs_upd [of "\<lambda>j. j\<lparr>j_used := False, j_state := JOB_DONE\<rparr>" "say _ k"]
    by (auto simp: remove_job_def job_key_def split: option.splits)
  moreover have "next_job_id (remove_job jid k) = next_job_id k" "ksched (remove_job jid k) = ksched k"
    by (simp_all add: remove_job_def split: option.splits)
  ultimately show ?thesis using jobs_ok_same by blast
qed

lemma jobs_init_ok:
  assumes "length (job_table k) = 32" "\<And>j. j \<in> set (job_table k) \<Longrightarrow> length (j_command j) = 256"
  shows "jobs_ok (jobs_init k)"
  using assms by (simp add: jobs_ok_def jobs_init_def)

section \<open>Every operation keeps the invariant\<close>

lemma system_okE: "system_ok s \<Longrightarrow> (\<And>q. sched_ok s q \<Longrightarrow> procs_ok s \<Longrightarrow> P) \<Longrightarrow> P"
  unfolding system_ok_def by blast

lemma update_safe_kernel_ok: "kernel_ok k \<Longrightarrow> kernel_ok (update_jobs_safe k)"
proof -
  assume a: "kernel_ok k"
  then obtain q where q: "sched_ok (ksched k) q" "procs_ok (ksched k)" unfolding kernel_ok_def by (blast elim: system_okE)
  have "system_ok (ksched (update_jobs_safe k))" using keeps_system [OF q] update_safe_ok(1) [OF q(1)] update_safe_ok(2) by blast
  moreover have n: "next_job_id (update_jobs_safe k) = next_job_id k" by (simp add: update_jobs_safe_def fold_safe_keeps)
  moreover have "jobs_ok (update_jobs_safe k)"
    using jobs_ok_same [OF _ update_jobs_safe_same n] a by (simp add: kernel_ok_def)
  ultimately show ?thesis using a by (simp add: kernel_ok_def)
qed

lemma kernel_ok_cong:
  "job_table k' = job_table k \<Longrightarrow> next_job_id k' = next_job_id k \<Longrightarrow> system_ok (ksched k') \<Longrightarrow> kernel_ok k \<Longrightarrow> kernel_ok k'"
  by (simp add: kernel_ok_def jobs_ok_def)

lemma update_jobs_kernel_ok: "kernel_ok k \<Longrightarrow> kernel_ok (update_jobs k)"
proof -
  assume "kernel_ok k"
  then have "kernel_ok (update_jobs_safe k)" by (rule update_safe_kernel_ok)
  moreover have e: "job_table (update_jobs k) = job_table (update_jobs_safe k)" "ksched (update_jobs k) = ksched (update_jobs_safe k)"
    using arg_cong [OF update_jobs_silent [of k], of job_table] arg_cong [OF update_jobs_silent [of k], of ksched] by simp_all
  moreover have "next_job_id (update_jobs k) = next_job_id (update_jobs_safe k)"
    using arg_cong [OF update_jobs_silent [of k], of next_job_id] by (simp add: silent_def)
  ultimately show ?thesis by (simp add: kernel_ok_def jobs_ok_def)
qed

lemma run_schedule_ok: "kernel_ok k \<Longrightarrow> run_schedule k = (c, k') \<Longrightarrow> kernel_ok k'"
proof -
  assume a: "kernel_ok k" "run_schedule k = (c, k')"
  then obtain q where q: "sched_ok (ksched k) q" "procs_ok (ksched k)" unfolding kernel_ok_def by (blast elim: system_okE)
  obtain s where s: "schedule [] (ksched k) = (c, s)" "k' = k\<lparr>ksched := s\<rparr>" using a(2) by (auto simp: run_schedule_def split: prod.splits)
  have "system_ok s" using keeps_system [OF q] schedule_keeps_ok [OF q(1), of "[]"] s(1) by simp
  then show ?thesis using a(1) s(2) by (intro kernel_ok_cong [of k' k]) simp_all
qed

lemma mark_sleeping_ok: "kernel_ok k \<Longrightarrow> kernel_ok (mark_sleeping tid w k) \<and> ksched (mark_sleeping tid w k) = ksched k"
proof -
  assume a: "kernel_ok k"
  have "same_jobs (job_table k) (job_table (mark_sleeping tid w k))"
    by (auto intro!: same_jobs_upd simp: mark_sleeping_def job_key_def split: option.splits)
  moreover have e: "next_job_id (mark_sleeping tid w k) = next_job_id k" "ksched (mark_sleeping tid w k) = ksched k"
    by (simp_all add: mark_sleeping_def split: option.splits)
  ultimately show ?thesis using a jobs_ok_same [of k "mark_sleeping tid w k"] by (simp add: kernel_ok_def)
qed

lemma sleep_ticks_ok:
  assumes "kernel_ok k" "sleep_ticks [] n k = Some (c, k')" "scheduler_enabled (ksched k)"
  shows "kernel_ok k'"
proof (cases "n = 0 \<or> current_thread (ksched k) = None")
  case True
  then have "k' = k" using assms(2) by (subst (asm) sleep_ticks_def)
    (auto simp: get_current_thread_def Let_def hlt_until.simps split: if_splits)
  with assms(1) show ?thesis by simp
next
  case False
  then obtain t where t: "current_thread (ksched k) = Some t" "n \<noteq> 0" by auto
  define tid where "tid = t_tid (thread_table (ksched k) ! t)"
  define w where "w = get_uptime_ms k + (n * 1000) div TIMER_FREQ"
  let ?k = "mark_sleeping tid w k"
  have "sleep_ticks [] n k = Option.bind (thread_block [] tid (ksched ?k))
      (\<lambda>(c, s). Some (if c = Stay then run_schedule (?k\<lparr>ksched := s\<rparr>) else (c, ?k\<lparr>ksched := s\<rparr>)))"
    using t unfolding tid_def w_def by (simp add: sleep_ticks_def get_current_thread_def Let_def)
  then obtain c1 s where s: "thread_block [] tid (ksched ?k) = Some (c1, s)"
    "(c, k') = (if c1 = Stay then run_schedule (?k\<lparr>ksched := s\<rparr>) else (c1, ?k\<lparr>ksched := s\<rparr>))"
    using assms(2) by (cases "thread_block [] tid (ksched ?k)") (auto split: prod.splits)
  note m = mark_sleeping_ok [OF assms(1), of tid w]
  obtain q where q: "sched_ok (ksched k) q" "procs_ok (ksched k)" using assms(1) unfolding kernel_ok_def by (blast elim: system_okE)
  have b: "thread_block (map wake []) tid (ksched k) = Some (c1, s)" using s(1) m by simp
  have "system_ok s" by (rule keeps_system [OF q thread_block_ok [OF b q(1) disjI1 [OF assms(3)]]])
  then have ok: "kernel_ok (?k\<lparr>ksched := s\<rparr>)" using m kernel_ok_cong [of "?k\<lparr>ksched := s\<rparr>" ?k] by simp
  show ?thesis
  proof (cases "c1 = Stay")
    case True
    then have "run_schedule (?k\<lparr>ksched := s\<rparr>) = (c, k')" using s(2) by simp
    then show ?thesis by (rule run_schedule_ok [OF ok])
  next
    case False
    then show ?thesis using s(2) ok by simp
  qed
qed

lemma timer_handler_ok:
  assumes "kernel_ok k" "timer_handler_c k = (c, k')"
  shows "kernel_ok k'"
proof -
  define k1 where "k1 = k\<lparr>timer_ticks := timer_ticks k + 1\<rparr>"
  have k1: "kernel_ok k1" using assms(1) by (rule kernel_ok_cong [of k1 k, rotated 3]) (use assms(1) in \<open>simp_all add: k1_def kernel_ok_def\<close>)
  obtain c1 k2 where k2: "(if scheduler_enabled (ksched k1) then let (c, s) = scheduler_tick [] (ksched k1) in (c, k1\<lparr>ksched := s\<rparr>) else (Stay, k1)) = (c1, k2)"
    by (metis surj_pair)
  have "sched_step (ksched k1) (ksched k2) \<or> k2 = k1"
    using k2 sched_step.tick [of "[]" "ksched k1"] by (auto split: if_splits prod.splits)
  then have "system_ok (ksched k2)" using sched_step_ok k1 unfolding kernel_ok_def by blast
  moreover have "job_table k2 = job_table k1" "next_job_id k2 = next_job_id k1" using k2 by (auto split: if_splits prod.splits)
  ultimately have ok2: "kernel_ok k2" using kernel_ok_cong k1 by blast
  have "k' = k2 \<or> k' = timer_rest k2"
    using assms(2) k2 by (simp add: timer_handler_c_def get_scheduler_enabled_def Let_def k1_def split: if_splits prod.splits)
  moreover have "kernel_ok (timer_rest k2)" unfolding timer_rest_def
    using update_safe_kernel_ok [OF ok2] by (simp add: kernel_ok_def jobs_ok_def outb_def)
  ultimately show ?thesis using ok2 by blast
qed

text \<open>
  The operations on threads and jobs, and the timer interrupt. Sleeping is a call of the current
  thread with the scheduler running; job numbers are C integers, so that fewer than \<open>2 ^ 31 - 1\<close> jobs
  are created.
\<close>

inductive kernel_step :: "kernel \<Rightarrow> kernel \<Rightarrow> bool" where
  thread: "sched_step (ksched k) s \<Longrightarrow> kernel_step k (k\<lparr>ksched := s\<rparr>)"
| add_fg: "add_fg_job cmd pid tid k = (r, k') \<Longrightarrow> next_job_id k < 0x7FFFFFFF \<Longrightarrow> kernel_step k k'"
| add_bg: "add_bg_job cmd pid tid k = (r, k') \<Longrightarrow> next_job_id k < 0x7FFFFFFF \<Longrightarrow> kernel_step k k'"
| remove: "kernel_step k (remove_job jid k)"
| active: "kernel_step k (jobs_set_active b k)"
| update: "kernel_step k (update_jobs k)"
| sleep: "sleep_ticks [] n k = Some (c, k') \<Longrightarrow> scheduler_enabled (ksched k) \<Longrightarrow> kernel_step k k'"
| resume: "run_schedule k = (c, k') \<Longrightarrow> kernel_step k k'"
| timer: "timer_handler_c k = (c, k') \<Longrightarrow> kernel_step k k'"
| timer_done: "kernel_step k (timer_rest k)"

inductive kernel_reachable :: "kernel \<Rightarrow> kernel \<Rightarrow> bool" for k0 where
  start: "kernel_reachable k0 k0"
| step: "kernel_reachable k0 k \<Longrightarrow> kernel_step k k' \<Longrightarrow> kernel_reachable k0 k'"

inductive_cases kernel_stepE: "kernel_step k k'"

lemma kernel_step_ok:
  assumes "kernel_step k k'" "kernel_ok k"
  shows "kernel_ok k'"
  using assms(1)
proof cases
  case (thread s)
  then show ?thesis using assms(2) sched_step_ok [of "ksched k" s] kernel_ok_cong [of k' k] by (simp add: kernel_ok_def)
next
  case (add_fg cmd pid tid r)
  then show ?thesis using assms(2) add_job_ok [of k False] by (auto simp: kernel_ok_def add_fg_job_def)
next
  case (add_bg cmd pid tid r)
  then show ?thesis using assms(2) add_job_ok [of k True] by (auto simp: kernel_ok_def add_bg_job_def)
next
  case (remove jid)
  then show ?thesis using assms(2) remove_job_ok [of k jid] by (simp add: kernel_ok_def)
next
  case (active b)
  then show ?thesis using assms(2) by (simp add: kernel_ok_def jobs_ok_def jobs_set_active_def)
next
  case update
  then show ?thesis using assms(2) update_jobs_kernel_ok by simp
next
  case (sleep n c)
  then show ?thesis using sleep_ticks_ok [OF assms(2)] by blast
next
  case (resume c)
  then show ?thesis using run_schedule_ok [OF assms(2)] by blast
next
  case (timer c)
  then show ?thesis using timer_handler_ok [OF assms(2)] by blast
next
  case timer_done
  then show ?thesis using update_safe_kernel_ok [OF assms(2)] by (simp add: timer_rest_def outb_def kernel_ok_def jobs_ok_def)
qed

lemma kernel_reachable_ok: "kernel_reachable k0 k \<Longrightarrow> kernel_ok k0 \<Longrightarrow> kernel_ok k"
  by (induction rule: kernel_reachable.induct) (auto intro: kernel_step_ok)


text \<open>
  C33: From a well-formed scheduler and a freshly initialised job table, every sequence of thread
  operations, job operations, sleeps and timer interrupts keeps the scheduler well formed, and the
  numbers of the live jobs positive and different from each other.
\<close>

theorem kernel_invariant:
  assumes "system_ok (ksched k0)" and "length (job_table k0) = 32" and "\<And>j. j \<in> set (job_table k0) \<Longrightarrow> length (j_command j) = 256"
    and "next_job_id k0 = 1" and "kernel_reachable (jobs_init k0) k"
  shows "system_ok (ksched k) \<and> jobs_ok k"
proof -
  have "kernel_ok (jobs_init k0)" using assms(1,4) jobs_init_ok [OF assms(2,3)] by (simp add: kernel_ok_def jobs_init_def)
  then show ?thesis using kernel_reachable_ok [OF assms(5)] by (simp add: kernel_ok_def)
qed

lemma get_job_found:
  assumes "jobs_ok k" "i < 32" "j_used (job_table k ! i)"
  shows "get_job (j_job_id (job_table k ! i)) k = Some i"
  unfolding get_job_def
proof (rule find_idx_SomeI)
  fix j assume j: "j < i"
  show "\<not> (j_used (take MAX_JOBS (job_table k) ! j) \<and> j_job_id (take MAX_JOBS (job_table k) ! j) = j_job_id (job_table k ! i))"
    using job_ids_unique [OF assms(1), of j i] j assms by (auto simp: MAX_JOBS_def)
qed (use assms jobs_ok_len [OF assms(1)] in \<open>auto simp: MAX_JOBS_def\<close>)

text \<open>
  Creating a job fails exactly when all slots are taken. Otherwise it returns the next number,
  under which the job is found afterwards, running, with its thread and the first 255 characters of
  its command; every other job is found as before.
\<close>

theorem add_job_get:
  assumes "jobs_ok k" and "next_job_id k < 0x7FFFFFFF" and "0 < next_job_id k"
  shows "(\<forall>i < 32. j_used (job_table k ! i)) \<and> fst (add_job bg cmd pid tid k) = -1 \<or>
    (\<exists>i k'. \<not> j_used (job_table k ! i) \<and> add_job bg cmd pid tid k = (sint (next_job_id k), k') \<and>
      get_job (next_job_id k) k' = Some i \<and> j_state (job_table k' ! i) = JOB_RUNNING \<and> j_tid (job_table k' ! i) = tid \<and>
      j_is_background (job_table k' ! i) = bg \<and> cstr (j_command (job_table k' ! i)) = take 255 (cstr cmd) \<and>
      (\<forall>n. n \<noteq> next_job_id k \<longrightarrow> get_job n k' = get_job n k))"
  using add_job_cases [OF assms(1), of bg cmd pid tid]
proof (elim disjE exE conjE)
  fix i k'
  assume i: "i < 32" "\<not> j_used (job_table k ! i)" "add_job bg cmd pid tid k = (sint (next_job_id k), k')" "ksched k' = ksched k"
    "next_job_id k' = next_job_id k + 1"
    "job_table k' = (job_table k)[i := (job_table k ! i)\<lparr>j_job_id := next_job_id k, j_pid := pid, j_tid := tid, j_state := JOB_RUNNING,
      j_is_background := bg, j_used := True, j_sleep_until := 0,
      j_command := put_at 0 (take 255 (cstr cmd) @ [0]) (j_command (job_table k ! i))\<rparr>]"
  note len = jobs_ok_len [OF assms(1)]
  have ok: "jobs_ok k'" using add_job_ok [OF assms i(3)] by simp
  have u: "j_used (job_table k' ! i)" "j_job_id (job_table k' ! i) = next_job_id k" using i(1,6) len by simp_all
  have g: "get_job (next_job_id k) k' = Some i" using get_job_found [OF ok i(1) u(1)] u(2) by simp
  have "get_job n k' = get_job n k" if "n \<noteq> next_job_id k" for n
  proof -
    have "(\<lambda>j. j_used j \<and> j_job_id j = n) (job_table k' ! m) = (\<lambda>j. j_used j \<and> j_job_id j = n) (job_table k ! m)" if "m < 32" for m
      using i(1,2,6) len that \<open>n \<noteq> next_job_id k\<close> by (cases "m = i") auto
    then have "map (\<lambda>j. j_used j \<and> j_job_id j = n) (job_table k') = map (\<lambda>j. j_used j \<and> j_job_id j = n) (job_table k)"
      using i(6) len by (intro nth_equalityI) simp_all
    moreover have "find_idx P xs = find_idx (\<lambda>x. x) (map P xs)" for P :: "job \<Rightarrow> bool" and xs by (induction xs) simp_all
    ultimately show ?thesis using i(6) len by (simp add: get_job_def MAX_JOBS_def)
  qed
  moreover have nz: "0 \<notin> set (take 255 (cstr cmd))" using cstr_no_nul [of cmd] by (blast dest: in_set_takeD)
  have "cstr (j_command (job_table k' ! i)) = take 255 (cstr cmd)"
    unfolding i(6) using i(1) len cstr_append_nul [of "take 255 (cstr cmd)" "drop (Suc (min (length (cstr cmd)) 255)) (j_command (job_table k ! i))"] nz
    by (simp add: put_at_def)
  ultimately show ?thesis using i u g len by (intro disjI2 exI [of _ i] exI [of _ k']) simp
qed simp

section \<open>The limits of the time arithmetic\<close>

text \<open>
  The milliseconds of \<open>sleep_seconds\<close> are computed in 32 bits: sleeping for 4294968 seconds, almost
  fifty days, is sleeping for 704 milliseconds.
\<close>

theorem sleep_seconds_wraps: "sleep_seconds irqs 4294968 k = sleep_ms irqs 704 k"
  by (simp add: sleep_seconds_def)

lemma length_rev_digits: "n < 10 ^ d \<Longrightarrow> length (rev_digits n) \<le> d"
proof (induction d arbitrary: n)
  case 0
  then show ?case by (simp add: rev_digits.simps)
next
  case (Suc d)
  then have "length (rev_digits (n div 10)) \<le> d" by (simp add: less_mult_imp_div_less mult.commute)
  then show ?case by (subst rev_digits.simps) simp
qed

text \<open>
  The detail text of a sleeping job fits into its buffer of 32 bytes with the closing zero, and the
  digits into theirs of 20, for every time.
\<close>

lemma sleep_detail_fits: "length (rev_digits (unat ((w - now) div 1000 :: u64))) \<le> 20 \<and> length (sleep_detail w now) < 32"
proof -
  have "unat (w - now) < 2 ^ 64" using unsigned_less [of "w - now"] by simp
  then have "unat ((w - now) div 1000) < 10 ^ 17" by (simp add: unat_div)
  then have "length (rev_digits (unat ((w - now) div 1000))) \<le> 17" by (rule length_rev_digits)
  then show ?thesis by (auto simp: sleep_detail_def Let_def)
qed

text \<open>Waiting without a current thread takes as many timer interrupts as ticks are asked for.\<close>

lemma hlt_until_ticks:
  assumes "\<And>k. timer_ticks (irq k) = timer_ticks k + 1" "unat (timer_ticks k) + n < 2 ^ 64"
  shows "hlt_until (timer_ticks k + of_nat n) (replicate m irq) k = (n \<le> m, (irq ^^ min n m) k)"
  using assms(2)
proof (induction m arbitrary: k n)
  case 0
  then have "(timer_ticks k < timer_ticks k + of_nat n) = (n \<noteq> 0)" by (simp add: word_less_nat_alt unat_word_ariths unat_of_nat)
  then show ?case by (simp add: hlt_until.simps get_timer_ticks_def)
next
  case (Suc m)
  have lt: "(timer_ticks k < timer_ticks k + of_nat n) = (n \<noteq> 0)" using Suc.prems by (simp add: word_less_nat_alt unat_word_ariths unat_of_nat)
  show ?case
  proof (cases n)
    case 0
    then show ?thesis by (simp add: hlt_until.simps get_timer_ticks_def)
  next
    case (Suc n')
    have t: "timer_ticks k + of_nat n = timer_ticks (irq k) + of_nat n'" using assms(1) by (simp add: Suc algebra_simps)
    have b: "unat (timer_ticks (irq k)) + n' < 2 ^ 64" using Suc.prems assms(1) [of k] by (simp add: Suc unat_word_ariths)
    have "hlt_until (timer_ticks k + of_nat n) (replicate (Suc m) irq) k = hlt_until (timer_ticks k + of_nat n) (replicate m irq) (irq k)"
      using lt Suc by (subst hlt_until.simps) (simp add: get_timer_ticks_def)
    also have "\<dots> = (n' \<le> m, (irq ^^ min n' m) (irq k))" unfolding t by (rule Suc.IH [OF b])
    finally show ?thesis using Suc by (simp add: funpow_swap1)
  qed
qed

text \<open>
  A timer interrupt that finds a ready thread switches to it before it has updated the jobs or
  acknowledged the interrupt: both wait until the interrupted thread is scheduled again.
\<close>

theorem timer_switch_defers:
  assumes "sched_ok (ksched k) (x # q)" and "scheduler_enabled (ksched k)" and "current_thread (ksched k) = Some t"
  shows "\<exists>k'. timer_handler_c k = (Switch t x, k') \<and> timer_ticks k' = timer_ticks k + 1 \<and> job_table k' = job_table k \<and> port_log k' = port_log k"
proof -
  obtain s' where "scheduler_tick [] (ksched k) = (Switch t x, s')" using tick_spec [OF assms] by blast
  then show ?thesis using assms(2) by (simp add: timer_handler_c_def get_scheduler_enabled_def Let_def)
qed

section \<open>A small system\<close>

definition no_job :: job where
  "no_job = \<lparr>j_used = False, j_job_id = 0, j_pid = 0, j_tid = 0, j_state = JOB_DONE, j_is_background = False, j_sleep_until = 0,
     j_command = replicate 256 0\<rparr>"

definition demo_kernel :: "sched \<Rightarrow> kernel" where
  "demo_kernel s = \<lparr>job_table = replicate 32 no_job, next_job_id = 1, jobs_enabled = True, last_check_ms = 0, timer_ticks = 0, timer_seconds = 0,
     console = [], port_log = [], ksched = s\<rparr>"

text \<open>Threads 0 to 2 as before; thread 0 belongs to a job.\<close>

definition demo_sleeper :: kernel where
  "demo_sleeper = (demo_kernel demo_running)\<lparr>job_table := no_job\<lparr>j_used := True, j_job_id := 1, j_tid := 1, j_state := JOB_RUNNING\<rparr> # replicate 31 no_job,
     next_job_id := 2\<rparr>"

lemma demo_sleeper_sched: "sched_ok (ksched demo_sleeper) [1, 2]"
  using demo_running_ok by (simp add: demo_sleeper_def demo_kernel_def)

lemmas demo_simps = demo_sleeper_def demo_kernel_def demo_running_def demo_sched_def no_job_def dead_thread_def get_thread_def MAX_THREADS_GLOBAL_def


theorem sleep_without_job_witness:
  "t_state (thread_table (ksched (fold (\<lambda>now k. update_jobs_safe (k\<lparr>timer_ticks := now\<rparr>)) [10, 1000]
     (demo_kernel (demo_alone\<lparr>thread_table := (thread_table demo_alone)[0 := dead_thread\<lparr>t_tid := 1, t_used := True, t_state := THREAD_STATE_BLOCKED\<rparr>]\<rparr>)))) ! 0) =
   THREAD_STATE_BLOCKED"
  by (rule sleep_without_job) (simp_all add: demo_simps demo_alone_def)

theorem kernel_invariant_witness:
  "system_ok (ksched (update_jobs (jobs_init (demo_kernel (process_init (scheduler_init demo_sched)))))) \<and>
   jobs_ok (update_jobs (jobs_init (demo_kernel (process_init (scheduler_init demo_sched)))))"
proof (rule kernel_invariant [OF _ _ _ _ kernel_reachable.step [OF kernel_reachable.start kernel_step.update]])
  show "system_ok (ksched (demo_kernel (process_init (scheduler_init demo_sched))))"
    using initial_system_ok [of demo_sched] by (simp add: demo_kernel_def demo_sched_def)
qed (simp_all add: demo_kernel_def no_job_def)

theorem add_job_get_witness:
  "\<exists>i k'. add_job True [108, 115, 0] 1 2 (demo_kernel demo_sched) = (1, k') \<and> get_job 1 k' = Some i \<and> cstr (j_command (job_table k' ! i)) = [108, 115]"
proof -
  have ok: "jobs_ok (demo_kernel demo_sched)" by (auto simp: jobs_ok_def demo_kernel_def no_job_def)
  have "\<not> j_used (job_table (demo_kernel demo_sched) ! 0)" by (simp add: demo_kernel_def no_job_def)
  then have "\<not> (\<forall>i < 32. j_used (job_table (demo_kernel demo_sched) ! i))" by (metis zero_less_numeral)
  then show ?thesis using add_job_get [OF ok, of True "[108, 115, 0]" 1 2] by (auto simp: demo_kernel_def cstr_def)
qed

theorem timer_switch_defers_witness:
  "\<exists>k'. timer_handler_c demo_sleeper = (Switch 0 1, k') \<and> timer_ticks k' = timer_ticks demo_sleeper + 1 \<and>
    job_table k' = job_table demo_sleeper \<and> port_log k' = port_log demo_sleeper"
  by (rule timer_switch_defers [OF demo_sleeper_sched]) (simp_all add: demo_simps)

end
