(* ===== verification/Net.thy ===== *)
theory Net
  imports Bytes "HOL-Library.Monad_Syntax"
begin

unbundle bit_operations_syntax

text \<open>
  The lower layers of the network stack: byte order, checksums and packet headers
  (\<open>Network/Drivers/net.c\<close>), the rings of the network card (\<open>Network/Drivers/E1000.c\<close>) and address
  resolution (\<open>Network/Protocols/arp.c\<close>), with the state of all protocols. A pointer into a packet is
  the bytes from there to the end of the buffer; an access outside a buffer has the result \<open>None\<close>. The
  buffers that packets are built in come from the kernel heap; they are modelled as fresh byte lists
  of the requested size, of which the code writes every byte. These allocations always succeed in the
  model; the code does not test their results.
\<close>

section \<open>Packets in buffers\<close>

text \<open>Reading \<open>n\<close> bytes at offset \<open>i\<close>, and storing bytes at an offset of a buffer.\<close>

definition fld :: "bytes \<Rightarrow> nat \<Rightarrow> nat \<Rightarrow> bytes option" where
  "fld d i n = (if i + n \<le> length d then Some (segment i n d) else None)"

definition store :: "nat \<Rightarrow> bytes \<Rightarrow> bytes \<Rightarrow> bytes option" where
  "store i bs d = (if i + length bs \<le> length d then Some (put_at i bs d) else None)"

definition rest_at :: "bytes \<Rightarrow> nat \<Rightarrow> bytes option" where
  "rest_at d i = (if i \<le> length d then Some (drop i d) else None)"

section \<open>Byte order and checksums\<close>

definition net_htons :: "u16 \<Rightarrow> u16" where
  "net_htons n = push_bit 8 (n AND 0xFF) OR (drop_bit 8 n AND 0xFF)"

definition net_htonl :: "u32 \<Rightarrow> u32" where
  "net_htonl n = push_bit 24 (n AND 0xFF) OR push_bit 8 (n AND 0xFF00) OR (drop_bit 8 n AND 0xFF00) OR (drop_bit 24 n AND 0xFF)"

fun checksum_sum :: "bytes \<Rightarrow> u32 \<Rightarrow> u32" where
  "checksum_sum (a # b # r) acc = checksum_sum r (acc + ucast (le_dec [a, b] :: u16))"
| "checksum_sum [a] acc = acc + ucast a"
| "checksum_sum [] acc = acc"

function checksum_fold :: "u32 \<Rightarrow> u32" where
  "checksum_fold acc = (if drop_bit 16 acc \<noteq> 0 then checksum_fold ((acc AND 0xFFFF) + drop_bit 16 acc) else acc)"
  by auto

lemma fold_decreases:
  assumes "drop_bit 16 (w :: u32) \<noteq> 0"
  shows "unat ((w AND 0xFFFF) + drop_bit 16 w) = unat w mod 2 ^ 16 + unat w div 2 ^ 16" "unat w mod 2 ^ 16 + unat w div 2 ^ 16 < unat w"
proof -
  have d: "unat (drop_bit 16 w) = unat w div 2 ^ 16" by (simp add: drop_bit_eq_div unat_div)
  have "w AND 0xFFFF = take_bit 16 w" by (simp add: take_bit_eq_mask mask_eq_exp_minus_1)
  then have m: "unat (w AND 0xFFFF) = unat w mod 2 ^ 16" by (simp add: take_bit_eq_mod unat_mod)
  have "unat w < 2 ^ 32" using unsigned_less [of w] by simp
  then have "unat w mod 2 ^ 16 + unat w div 2 ^ 16 < 2 ^ 32" by (simp add: less_mult_imp_div_less)
  then show "unat ((w AND 0xFFFF) + drop_bit 16 w) = unat w mod 2 ^ 16 + unat w div 2 ^ 16" by (simp add: unat_word_ariths m d)
  have "unat w div 2 ^ 16 \<noteq> 0" using assms d by (metis unat_eq_zero)
  then have "unat w mod 2 ^ 16 + unat w div 2 ^ 16 < unat w div 2 ^ 16 * 2 ^ 16 + unat w mod 2 ^ 16"
    by (cases "unat w div 2 ^ 16") simp_all
  also have "\<dots> = unat w" by (rule div_mult_mod_eq)
  finally show "unat w mod 2 ^ 16 + unat w div 2 ^ 16 < unat w" .
qed

termination checksum_fold
  by (relation "measure unat") (use fold_decreases in auto)

declare checksum_fold.simps [simp del]

definition net_checksum :: "bytes \<Rightarrow> u16" where
  "net_checksum d = NOT (ucast (checksum_fold (checksum_sum d 0)))"

text \<open>Parsing a dotted address; the octets are not cut to a byte.\<close>

fun parse_octets :: "bytes \<Rightarrow> nat \<Rightarrow> u32 list \<Rightarrow> u32 list" where
  "parse_octets [] idx octets = octets"
| "parse_octets (c # r) idx octets =
     (if c = 0 \<or> idx \<ge> 4 then octets
      else if 48 \<le> c \<and> c \<le> 57 then parse_octets r idx (octets[idx := octets ! idx * 10 + ucast (c - 48)])
      else if c = 46 then parse_octets r (idx + 1) octets
      else parse_octets r idx octets)"

definition net_parse_ip :: "bytes \<Rightarrow> u32" where
  "net_parse_ip str =
     (let octets = parse_octets str 0 [0, 0, 0, 0]
      in (octets ! 0) OR push_bit 8 (octets ! 1) OR push_bit 16 (octets ! 2) OR push_bit 24 (octets ! 3))"

section \<open>Headers\<close>

definition ETH_TYPE_IPV4 :: u16 where
  "ETH_TYPE_IPV4 = 0x0800"

definition ETH_TYPE_ARP :: u16 where
  "ETH_TYPE_ARP = 0x0806"

definition IP_PROTO_ICMP :: u8 where
  "IP_PROTO_ICMP = 1"

definition IP_PROTO_TCP :: u8 where
  "IP_PROTO_TCP = 6"

definition IP_PROTO_UDP :: u8 where
  "IP_PROTO_UDP = 17"

text \<open>
  Packed structures; multi-byte members are kept as the processor reads them, least significant byte
  first, and converted with \<^const>\<open>net_htons\<close> where the code converts them.
\<close>

record ipv4_header =
  ip_version_ihl :: u8
  ip_dscp_ecn :: u8
  ip_total_length :: u16
  ip_identification :: u16
  ip_flags_fragment :: u16
  ip_ttl :: u8
  ip_protocol :: u8
  ip_header_checksum :: u16
  ip_src_ip :: u32
  ip_dest_ip :: u32

definition ipv4_enc :: "ipv4_header \<Rightarrow> bytes" where
  "ipv4_enc h = [ip_version_ihl h, ip_dscp_ecn h] @ le_enc 2 (ip_total_length h) @ le_enc 2 (ip_identification h) @
     le_enc 2 (ip_flags_fragment h) @ [ip_ttl h, ip_protocol h] @ le_enc 2 (ip_header_checksum h) @ le_enc 4 (ip_src_ip h) @ le_enc 4 (ip_dest_ip h)"

definition ipv4_dec :: "bytes \<Rightarrow> ipv4_header" where
  "ipv4_dec d = \<lparr>ip_version_ihl = d ! 0, ip_dscp_ecn = d ! 1, ip_total_length = le_dec (segment 2 2 d), ip_identification = le_dec (segment 4 2 d),
     ip_flags_fragment = le_dec (segment 6 2 d), ip_ttl = d ! 8, ip_protocol = d ! 9, ip_header_checksum = le_dec (segment 10 2 d),
     ip_src_ip = le_dec (segment 12 4 d), ip_dest_ip = le_dec (segment 16 4 d)\<rparr>"

record arp_packet =
  arp_hw_type :: u16
  arp_proto_type :: u16
  arp_hw_addr_len :: u8
  arp_proto_addr_len :: u8
  arp_operation :: u16
  arp_sender_hw_addr :: bytes
  arp_sender_proto_addr :: u32
  arp_target_hw_addr :: bytes
  arp_target_proto_addr :: u32

definition arp_enc :: "arp_packet \<Rightarrow> bytes" where
  "arp_enc a = le_enc 2 (arp_hw_type a) @ le_enc 2 (arp_proto_type a) @ [arp_hw_addr_len a, arp_proto_addr_len a] @ le_enc 2 (arp_operation a) @
     arp_sender_hw_addr a @ le_enc 4 (arp_sender_proto_addr a) @ arp_target_hw_addr a @ le_enc 4 (arp_target_proto_addr a)"

definition arp_dec :: "bytes \<Rightarrow> arp_packet" where
  "arp_dec d = \<lparr>arp_hw_type = le_dec (segment 0 2 d), arp_proto_type = le_dec (segment 2 2 d), arp_hw_addr_len = d ! 4, arp_proto_addr_len = d ! 5,
     arp_operation = le_dec (segment 6 2 d), arp_sender_hw_addr = segment 8 6 d, arp_sender_proto_addr = le_dec (segment 14 4 d),
     arp_target_hw_addr = segment 18 6 d, arp_target_proto_addr = le_dec (segment 24 4 d)\<rparr>"

section \<open>State\<close>

record net_config =
  cfg_mac :: bytes
  cfg_ip :: u32
  cfg_netmask :: u32
  cfg_gateway :: u32
  cfg_dns :: u32
  cfg_configured :: bool

record arp_cache_entry =
  ac_ip :: u32
  ac_mac :: bytes
  ac_timestamp :: u32
  ac_valid :: bool

record icmp_reply =
  ir_src_ip :: u32
  ir_id :: u16
  ir_sequence :: u16
  ir_timestamp :: u32

text \<open>The functions that the kernel registers for UDP ports.\<close>

datatype udp_handler = Dhcp_Rx | Dns_Handler

record udp_handler_entry =
  uh_port :: u16
  uh_handler :: "udp_handler option"

record tcp_socket_t =
  ts_remote_ip :: u32
  ts_local_port :: u16
  ts_remote_port :: u16
  ts_seq_num :: u32
  ts_ack_num :: u32
  ts_state :: u8
  ts_in_use :: bool

record rx_desc =
  rx_buffer :: bytes
  rx_length :: u16
  rx_status :: u8

record tx_desc =
  tx_buffer :: bytes
  tx_length :: u16
  tx_cmd :: u8
  tx_status :: u8

text \<open>
  The card as the driver sees it, and what is outside: the frames it has put on the wire, whether it
  still completes transmissions, and how it changes the receive ring before each look of the driver.
\<close>

record e1000_device =
  e_initialized :: bool
  e_rx_descs :: "rx_desc list"
  e_rx_cur :: nat
  e_tx_descs :: "tx_desc list"
  e_tx_cur :: nat
  e_stalled :: bool
  e_wire :: "bytes list"
  e_arrivals :: "(rx_desc list \<Rightarrow> rx_desc list) list"

record net =
  net_config :: net_config
  e1000_dev :: e1000_device
  arp_cache :: "arp_cache_entry list"
  arp_time :: u32
  ping_id :: u16
  ping_seq :: u16
  replies :: "icmp_reply list"
  waiting_for_reply :: bool
  expected_id :: u16
  expected_seq :: u16
  reply_received :: bool
  udp_handlers :: "udp_handler_entry list"
  tcp_sockets :: "tcp_socket_t list"
  next_port :: u16
  dhcp_xid :: u32
  got_offer :: bool
  got_ack :: bool
  offer_ip :: u32
  server_ip :: u32
  dhcp_mask :: u32
  dhcp_gw :: u32
  dhcp_dns :: u32
  dns_server :: u32
  dns_resolved_ip :: u32
  dns_waiting :: bool
  dns_query_id :: u16
  http_response_buffer :: bytes
  http_response_len :: nat

definition net_register_device :: "bytes \<Rightarrow> net \<Rightarrow> net" where
  "net_register_device m s = s\<lparr>net_config := (net_config s)\<lparr>cfg_mac := m, cfg_configured := False\<rparr>\<rparr>"

definition net_set_config :: "u32 \<Rightarrow> u32 \<Rightarrow> u32 \<Rightarrow> net \<Rightarrow> net" where
  "net_set_config ip netmask gateway s =
     s\<lparr>net_config := (net_config s)\<lparr>cfg_ip := ip, cfg_netmask := netmask, cfg_gateway := gateway, cfg_configured := True\<rparr>\<rparr>"

section \<open>The network card\<close>

text \<open>The card transmits the descriptor before the new tail and marks it done, unless it is stalled.\<close>

definition nic_transmit :: "nat \<Rightarrow> e1000_device \<Rightarrow> e1000_device" where
  "nic_transmit i e =
     (let desc = e_tx_descs e ! i in
      if e_stalled e then e
      else e\<lparr>e_wire := e_wire e @ [take (unat (tx_length desc)) (tx_buffer desc)], e_tx_descs := (e_tx_descs e)[i := desc\<lparr>tx_status := 1\<rparr>]\<rparr>)"

text \<open>While the descriptor is not done the driver spins; on a stalled card it never returns.\<close>

definition e1000_send_packet :: "bytes \<Rightarrow> u16 \<Rightarrow> net \<Rightarrow> (int \<times> net) option" where
  "e1000_send_packet d len s =
     (let e = e1000_dev s in
      if \<not> e_initialized e \<or> len > 8192 then Some (-1, s)
      else do {
        let tail = e_tx_cur e;
        let desc = e_tx_descs e ! tail;
        if tx_status desc AND 1 = 0 then None
        else do {
          bs \<leftarrow> fld d 0 (unat len);
          buf \<leftarrow> store 0 bs (tx_buffer desc);
          let desc = desc\<lparr>tx_buffer := buf, tx_length := len, tx_cmd := 0x0B, tx_status := 0\<rparr>;
          let e = e\<lparr>e_tx_descs := (e_tx_descs e)[tail := desc], e_tx_cur := (tail + 1) mod 32\<rparr>;
          Some (0, s\<lparr>e1000_dev := nic_transmit tail e\<rparr>) }})"

definition net_send_ethernet :: "bytes \<Rightarrow> u16 \<Rightarrow> bytes \<Rightarrow> u16 \<Rightarrow> net \<Rightarrow> (int \<times> net) option" where
  "net_send_ethernet dest_mac ethertype payload len s = do {
     let total_len = 14 + len;
     let buffer = replicate (unat total_len) 0;
     buffer \<leftarrow> store 0 (dest_mac @ cfg_mac (net_config s) @ le_enc 2 (net_htons ethertype)) buffer;
     src \<leftarrow> fld payload 0 (unat len);
     buffer \<leftarrow> store 14 src buffer;
     e1000_send_packet buffer total_len s }"

text \<open>The card may have filled descriptors whenever the driver looks at the ring.\<close>

definition nic_arrive :: "net \<Rightarrow> net" where
  "nic_arrive s =
     (let e = e1000_dev s in
      case e_arrivals e of [] \<Rightarrow> s | f # fs \<Rightarrow> s\<lparr>e1000_dev := e\<lparr>e_rx_descs := f (e_rx_descs e), e_arrivals := fs\<rparr>\<rparr>)"

text \<open>
  The receive loop: every filled descriptor is handed to \<open>receive\<close> and then released. It polls the
  ring that \<open>receive\<close> may change and that the card goes on filling, so its end is not certain.
\<close>

partial_function (option) rx_loop :: "(bytes \<Rightarrow> u16 \<Rightarrow> net \<Rightarrow> net option) \<Rightarrow> nat \<Rightarrow> net \<Rightarrow> (nat \<times> net) option" where
  "rx_loop receive idx s =
     (let s = nic_arrive s;
          desc = e_rx_descs (e1000_dev s) ! idx in
      if rx_status desc AND 1 \<noteq> 0 then do {
        s \<leftarrow> receive (rx_buffer desc) (rx_length desc) s;
        let e = e1000_dev s;
        let s = s\<lparr>e1000_dev := e\<lparr>e_rx_descs := (e_rx_descs e)[idx := (e_rx_descs e ! idx)\<lparr>rx_status := 0\<rparr>]\<rparr>\<rparr>;
        rx_loop receive ((idx + 1) mod 32) s }
      else Some (idx, s))"

definition e1000_poll :: "(bytes \<Rightarrow> u16 \<Rightarrow> net \<Rightarrow> net option) \<Rightarrow> net \<Rightarrow> net option" where
  "e1000_poll receive s =
     (if \<not> e_initialized (e1000_dev s) then Some s
      else do {
        (idx, s) \<leftarrow> rx_loop receive (e_rx_cur (e1000_dev s)) s;
        Some (s\<lparr>e1000_dev := (e1000_dev s)\<lparr>e_rx_cur := idx\<rparr>\<rparr>) })"

section \<open>Address resolution\<close>

definition ARP_CACHE_SIZE :: nat where
  "ARP_CACHE_SIZE = 32"

definition arp_init :: "net \<Rightarrow> net" where
  "arp_init s = s\<lparr>arp_cache := map (\<lambda>e. e\<lparr>ac_valid := False\<rparr>) (arp_cache s)\<rparr>"

text \<open>The slot for a new entry: the first free one, otherwise the one with the smallest time stamp.\<close>

fun arp_slot :: "arp_cache_entry list \<Rightarrow> nat \<Rightarrow> u32 \<Rightarrow> int \<Rightarrow> int" where
  "arp_slot [] i oldest idx = idx"
| "arp_slot (e # es) i oldest idx =
     (if \<not> ac_valid e then int i
      else if ac_timestamp e < oldest then arp_slot es (i + 1) (ac_timestamp e) (int i)
      else arp_slot es (i + 1) oldest idx)"

definition arp_cache_add :: "u32 \<Rightarrow> bytes \<Rightarrow> net \<Rightarrow> net" where
  "arp_cache_add ip m s =
     (case find_idx (\<lambda>e. ac_valid e \<and> ac_ip e = ip) (take ARP_CACHE_SIZE (arp_cache s)) of
        Some i \<Rightarrow> s\<lparr>arp_cache := (arp_cache s)[i := (arp_cache s ! i)\<lparr>ac_mac := m, ac_timestamp := arp_time s\<rparr>], arp_time := arp_time s + 1\<rparr>
      | None \<Rightarrow>
          let idx = arp_slot (take ARP_CACHE_SIZE (arp_cache s)) 0 0xFFFFFFFF (-1) in
          if idx \<ge> 0 then
            s\<lparr>arp_cache := (arp_cache s)[nat idx := \<lparr>ac_ip = ip, ac_mac = m, ac_timestamp = arp_time s, ac_valid = True\<rparr>], arp_time := arp_time s + 1\<rparr>
          else s)"

definition arp_cache_lookup :: "u32 \<Rightarrow> net \<Rightarrow> bytes option" where
  "arp_cache_lookup ip s =
     map_option (\<lambda>i. ac_mac (arp_cache s ! i)) (find_idx (\<lambda>e. ac_valid e \<and> ac_ip e = ip) (take ARP_CACHE_SIZE (arp_cache s)))"

definition arp_receive :: "bytes \<Rightarrow> u16 \<Rightarrow> net \<Rightarrow> net option" where
  "arp_receive d len s =
     (if len < 28 then Some s
      else do {
        d \<leftarrow> fld d 0 28;
        let arp = arp_dec d;
        let op = net_htons (arp_operation arp);
        let cfg = net_config s;
        let s = arp_cache_add (arp_sender_proto_addr arp) (arp_sender_hw_addr arp) s;
        if op = 1 \<and> arp_target_proto_addr arp = cfg_ip cfg then do {
          let reply = \<lparr>arp_hw_type = net_htons 1, arp_proto_type = net_htons ETH_TYPE_IPV4, arp_hw_addr_len = 6, arp_proto_addr_len = 4,
            arp_operation = net_htons 2, arp_sender_hw_addr = cfg_mac cfg, arp_sender_proto_addr = cfg_ip cfg,
            arp_target_hw_addr = arp_sender_hw_addr arp, arp_target_proto_addr = arp_sender_proto_addr arp\<rparr>;
          (_, s) \<leftarrow> net_send_ethernet (arp_sender_hw_addr arp) ETH_TYPE_ARP (arp_enc reply) 28 s;
          Some s }
        else Some s })"

definition arp_send_request :: "u32 \<Rightarrow> net \<Rightarrow> net option" where
  "arp_send_request target_ip s = do {
     let cfg = net_config s;
     let request = \<lparr>arp_hw_type = net_htons 1, arp_proto_type = net_htons ETH_TYPE_IPV4, arp_hw_addr_len = 6, arp_proto_addr_len = 4,
       arp_operation = net_htons 1, arp_sender_hw_addr = cfg_mac cfg, arp_sender_proto_addr = cfg_ip cfg,
       arp_target_hw_addr = replicate 6 0, arp_target_proto_addr = target_ip\<rparr>;
     (_, s) \<leftarrow> net_send_ethernet (replicate 6 0xFF) ETH_TYPE_ARP (arp_enc request) 28 s;
     Some s }"

text \<open>Polling \<open>n\<close> times in a row, and the waiting loops with their test after each round.\<close>

fun poll_times :: "(net \<Rightarrow> net option) \<Rightarrow> nat \<Rightarrow> net \<Rightarrow> net option" where
  "poll_times poll 0 s = Some s"
| "poll_times poll (Suc n) s = do { s \<leftarrow> poll s; poll_times poll n s }"

fun arp_wait :: "(net \<Rightarrow> net option) \<Rightarrow> u32 \<Rightarrow> nat \<Rightarrow> net \<Rightarrow> (bytes option \<times> net) option" where
  "arp_wait poll ip 0 s = Some (None, s)"
| "arp_wait poll ip (Suc n) s = do {
     s \<leftarrow> poll_times poll 20 s;
     case arp_cache_lookup ip s of
       Some m \<Rightarrow> Some (Some m, s)
     | None \<Rightarrow> arp_wait poll ip n s }"

fun arp_retry :: "(net \<Rightarrow> net option) \<Rightarrow> u32 \<Rightarrow> nat \<Rightarrow> net \<Rightarrow> (bytes option \<times> net) option" where
  "arp_retry poll ip 0 s = Some (None, s)"
| "arp_retry poll ip (Suc n) s = do {
     s \<leftarrow> arp_send_request ip s;
     (r, s) \<leftarrow> arp_wait poll ip 500 s;
     case r of Some m \<Rightarrow> Some (Some m, s) | None \<Rightarrow> arp_retry poll ip n s }"

text \<open>The address found, or none for the result \<open>-1\<close>; \<open>poll\<close> is the interrupt handler of the card.\<close>

definition arp_resolve :: "(net \<Rightarrow> net option) \<Rightarrow> u32 \<Rightarrow> net \<Rightarrow> (bytes option \<times> net) option" where
  "arp_resolve poll ip s =
     (case arp_cache_lookup ip s of
        Some m \<Rightarrow> Some (Some m, s)
      | None \<Rightarrow> arp_retry poll ip 3 s)"

end
