(* ===== verification/Net_Proto.thy ===== *)
theory Net_Proto
  imports Net
begin

unbundle bit_operations_syntax

text \<open>
  The protocols above IP: ICMP echo (\<open>Protocols/icmp.c\<close>), DHCP options (\<open>Protocols/dhcp.c\<close>), DNS
  messages (\<open>Services/dns.c\<close>), UDP (\<open>Protocols/udp.c\<close>), TCP connections (\<open>Protocols/tcp.c\<close>) and the
  receive buffer of HTTP (\<open>Protocols/http.c\<close>). The functions that send take the IP layer as the
  argument \<open>send\<close>; \<open>Net_Stack\<close> closes the recursion between sending and receiving.
\<close>

type_synonym ip_send = "u32 \<Rightarrow> u8 \<Rightarrow> bytes \<Rightarrow> u16 \<Rightarrow> net \<Rightarrow> (int \<times> net) option"

definition byte_at :: "bytes \<Rightarrow> nat \<Rightarrow> u8 option" where
  "byte_at d i = (if i < length d then Some (d ! i) else None)"

definition le16_at :: "bytes \<Rightarrow> nat \<Rightarrow> u16 option" where
  "le16_at d i = map_option le_dec (fld d i 2)"

definition le32_at :: "bytes \<Rightarrow> nat \<Rightarrow> u32 option" where
  "le32_at d i = map_option le_dec (fld d i 4)"

definition be16_at :: "bytes \<Rightarrow> nat \<Rightarrow> u16 option" where
  "be16_at d i = map_option be_dec (fld d i 2)"

definition be32_at :: "bytes \<Rightarrow> nat \<Rightarrow> u32 option" where
  "be32_at d i = map_option be_dec (fld d i 4)"

section \<open>ICMP\<close>

definition ICMP_PING_DATA_SIZE :: nat where
  "ICMP_PING_DATA_SIZE = 56"

definition MAX_REPLIES :: nat where
  "MAX_REPLIES = 16"

definition icmp_init :: "net \<Rightarrow> net" where
  "icmp_init s = s\<lparr>ping_id := 0x1234, ping_seq := 0, replies := [], waiting_for_reply := False, reply_received := False\<rparr>"

text \<open>The first \<open>reply_count\<close> entries of the reply array are the list \<^const>\<open>replies\<close>.\<close>

definition check_reply_in_array :: "u16 \<Rightarrow> u16 \<Rightarrow> net \<Rightarrow> bool" where
  "check_reply_in_array i sq s = (\<exists>r \<in> set (replies s). ir_id r = i \<and> ir_sequence r = sq)"

definition icmp_receive :: "ip_send \<Rightarrow> u32 \<Rightarrow> bytes \<Rightarrow> u16 \<Rightarrow> net \<Rightarrow> net option" where
  "icmp_receive send src_ip d len s =
     (if len < 8 then Some s
      else do {
        hdr \<leftarrow> fld d 0 8;
        if hdr ! 0 = 8 then do {
          d \<leftarrow> fld d 0 (unat len);
          let full_reply = [0, 0, 0, 0] @ segment 4 4 hdr @ drop 8 d;
          let full_reply = put_at 2 (le_enc 2 (net_checksum full_reply)) full_reply;
          (_, s) \<leftarrow> send src_ip IP_PROTO_ICMP full_reply len s;
          Some s }
        else if hdr ! 0 = 0 then do {
          let recv_id = net_htons (le_dec (segment 4 2 hdr));
          let recv_seq = net_htons (le_dec (segment 6 2 hdr));
          if check_reply_in_array recv_id recv_seq s then Some s
          else do {
            let s = (if length (replies s) < MAX_REPLIES
                     then s\<lparr>replies := replies s @ [\<lparr>ir_src_ip = src_ip, ir_id = recv_id, ir_sequence = recv_seq, ir_timestamp = 0\<rparr>]\<rparr> else s);
            Some (if waiting_for_reply s \<and> recv_id = expected_id s \<and> recv_seq = expected_seq s then s\<lparr>reply_received := True\<rparr> else s) }}
        else Some s })"

definition icmp_send_ping :: "ip_send \<Rightarrow> u32 \<Rightarrow> u16 \<Rightarrow> u16 \<Rightarrow> net \<Rightarrow> (int \<times> net) option" where
  "icmp_send_ping send dest_ip i sq s =
     (let total_len = 8 + of_nat ICMP_PING_DATA_SIZE;
          buffer = [8, 0, 0, 0] @ le_enc 2 (net_htons i) @ le_enc 2 (net_htons sq) @ map (\<lambda>k. 0x41 + of_nat (k mod 26)) [0..<ICMP_PING_DATA_SIZE];
          buffer = put_at 2 (le_enc 2 (net_checksum buffer)) buffer
      in send dest_ip IP_PROTO_ICMP buffer total_len s)"

section \<open>DHCP\<close>

text \<open>One option of a DHCP message: \<open>opt\<close> with \<open>olen\<close> bytes from offset \<open>i\<close>.\<close>

definition dhcp_option :: "bytes \<Rightarrow> nat \<Rightarrow> u8 \<Rightarrow> u8 \<Rightarrow> u8 \<times> net \<Rightarrow> (u8 \<times> net) option" where
  "dhcp_option d i opt olen ms =
     (let (msg_type, s) = ms in
      if opt = 53 \<and> olen = 1 then map_option (\<lambda>b. (b, s)) (byte_at d i)
      else if opt = 54 \<and> olen = 4 then map_option (\<lambda>v. (msg_type, s\<lparr>server_ip := v\<rparr>)) (le32_at d i)
      else if opt = 1 \<and> olen = 4 then map_option (\<lambda>v. (msg_type, s\<lparr>dhcp_mask := v\<rparr>)) (le32_at d i)
      else if opt = 3 \<and> olen \<ge> 4 then map_option (\<lambda>v. (msg_type, s\<lparr>dhcp_gw := v\<rparr>)) (le32_at d i)
      else if opt = 6 \<and> olen \<ge> 4 then map_option (\<lambda>v. (msg_type, s\<lparr>dhcp_dns := v\<rparr>)) (le32_at d i)
      else Some ms)"

function dhcp_options :: "bytes \<Rightarrow> nat \<Rightarrow> nat \<Rightarrow> u8 \<times> net \<Rightarrow> (u8 \<times> net) option" where
  "dhcp_options d len i ms =
     (if i + 2 < len then do {
        opt \<leftarrow> byte_at d i;
        if opt = 0xFF then Some ms
        else if opt = 0 then dhcp_options d len (i + 1) ms
        else do {
          olen \<leftarrow> byte_at d (i + 1);
          if i + 2 + unat olen > len then Some ms
          else do {
            ms \<leftarrow> dhcp_option d (i + 2) opt olen ms;
            dhcp_options d len (i + 2 + unat olen) ms }}}
      else Some ms)"
  by pat_completeness auto
termination by (relation "measure (\<lambda>(_, len, i, _). len - i)") auto

declare dhcp_options.simps [simp del]

definition dhcp_rx :: "bytes \<Rightarrow> u16 \<Rightarrow> net \<Rightarrow> net option" where
  "dhcp_rx d len s =
     (if len < 244 then Some s
      else do {
        op \<leftarrow> byte_at d 0;
        if op \<noteq> 2 then Some s
        else do {
          pkt_xid \<leftarrow> be32_at d 4;
          if pkt_xid \<noteq> dhcp_xid s then Some s
          else do {
            ip \<leftarrow> le32_at d 16;
            let s = s\<lparr>offer_ip := ip\<rparr>;
            magic \<leftarrow> fld d 236 4;
            if magic \<noteq> [0x63, 0x82, 0x53, 0x63] then Some s
            else do {
              (msg_type, s) \<leftarrow> dhcp_options d (unat len) 240 (0, s);
              Some (if msg_type = 2 then s\<lparr>got_offer := True\<rparr> else if msg_type = 5 then s\<lparr>got_ack := True\<rparr> else s) }}}})"

text \<open>The message that a client sends, with the given options.\<close>

definition dhcp_message :: "u32 \<Rightarrow> bytes \<Rightarrow> bytes \<Rightarrow> bytes" where
  "dhcp_message x m opts =
     (let buf = replicate 548 0;
          buf = put_at 0 [1, 1, 6] buf;
          buf = put_at 4 (be_enc 4 x) buf;
          buf = put_at 10 [0x80] buf;
          buf = put_at 28 m buf;
          buf = put_at 236 [0x63, 0x82, 0x53, 0x63] buf
      in put_at 240 opts buf)"

definition dhcp_discover_options :: bytes where
  "dhcp_discover_options = [53, 1, 1, 55, 4, 1, 3, 6, 15, 255]"

definition dhcp_request_options :: "u32 \<Rightarrow> u32 \<Rightarrow> bytes" where
  "dhcp_request_options offer srv = [53, 1, 3, 50, 4] @ le_enc 4 offer @ [54, 4] @ le_enc 4 srv @ [55, 4, 1, 3, 6, 15, 255]"

section \<open>DNS\<close>

text \<open>Stepping over a name in the question section: to its closing zero, behind a pointer, or past the end.\<close>

function dns_skip_question :: "bytes \<Rightarrow> nat \<Rightarrow> nat \<Rightarrow> nat option" where
  "dns_skip_question d stop ptr =
     (if ptr < stop then do {
        b \<leftarrow> byte_at d ptr;
        if b = 0 then Some ptr
        else if b AND 0xC0 = 0xC0 then Some (ptr + 2)
        else dns_skip_question d stop (ptr + unat b + 1) }
      else Some ptr)"
  by pat_completeness auto
termination by (relation "measure (\<lambda>(_, stop, ptr). stop - ptr)") auto

fun dns_questions :: "bytes \<Rightarrow> nat \<Rightarrow> nat \<Rightarrow> nat \<Rightarrow> nat option" where
  "dns_questions d stop 0 ptr = Some ptr"
| "dns_questions d stop (Suc q) ptr =
     (if ptr < stop then do {
        ptr \<leftarrow> dns_skip_question d stop ptr;
        ptr \<leftarrow> (if ptr < stop then map_option (\<lambda>b. if b = 0 then ptr + 1 else ptr) (byte_at d ptr) else Some ptr);
        dns_questions d stop q (ptr + 4) }
      else Some ptr)"

text \<open>Stepping over a name in an answer, which stops at the end of the message.\<close>

function dns_skip_answer :: "bytes \<Rightarrow> nat \<Rightarrow> nat \<Rightarrow> nat option" where
  "dns_skip_answer d stop ptr =
     (if ptr < stop then do {
        b \<leftarrow> byte_at d ptr;
        if b = 0 then Some ptr
        else if b AND 0xC0 = 0xC0 then Some (ptr + 2)
        else dns_skip_answer d stop (min (ptr + 1 + unat b) stop) }
      else Some ptr)"
  by pat_completeness auto
termination by (relation "measure (\<lambda>(_, stop, ptr). stop - ptr)") auto

declare dns_skip_question.simps [simp del] dns_skip_answer.simps [simp del]

definition dns_answer_name :: "bytes \<Rightarrow> nat \<Rightarrow> nat \<Rightarrow> nat option" where
  "dns_answer_name d stop ptr = do {
     b \<leftarrow> byte_at d ptr;
     if b AND 0xC0 = 0xC0 then Some (ptr + 2)
     else do {
       ptr \<leftarrow> dns_skip_answer d stop ptr;
       if ptr < stop then map_option (\<lambda>b. if b = 0 then ptr + 1 else ptr) (byte_at d ptr) else Some ptr }}"

text \<open>The first address record of the answers, if there is one.\<close>

fun dns_answers :: "bytes \<Rightarrow> nat \<Rightarrow> nat \<Rightarrow> nat \<Rightarrow> u32 option option" where
  "dns_answers d stop 0 ptr = Some None"
| "dns_answers d stop (Suc a) ptr =
     (if ptr < stop then do {
        ptr \<leftarrow> dns_answer_name d stop ptr;
        if ptr + 10 > stop then Some None
        else do {
          ty \<leftarrow> be16_at d ptr;
          rdlen \<leftarrow> be16_at d (ptr + 8);
          let ptr = ptr + 10;
          if ptr + unat rdlen > stop then Some None
          else if ty = 1 \<and> rdlen = 4 then map_option Some (le32_at d ptr)
          else dns_answers d stop a (ptr + unat rdlen) }}
      else Some None)"

definition dns_handler :: "bytes \<Rightarrow> u16 \<Rightarrow> net \<Rightarrow> net option" where
  "dns_handler d len s =
     (if len < 12 then Some s
      else do {
        ident \<leftarrow> be16_at d 0;
        flags \<leftarrow> be16_at d 2;
        qdcount \<leftarrow> be16_at d 4;
        ancount \<leftarrow> be16_at d 6;
        if ident \<noteq> dns_query_id s then Some s
        else if flags AND 0x000F \<noteq> 0 then Some (s\<lparr>dns_waiting := False\<rparr>)
        else if flags AND 0x8000 = 0 then Some s
        else if ancount = 0 then Some (s\<lparr>dns_waiting := False\<rparr>)
        else do {
          let stop = unat len;
          ptr \<leftarrow> dns_questions d stop (unat qdcount) 12;
          if ptr \<ge> stop then Some (s\<lparr>dns_waiting := False\<rparr>)
          else do {
            r \<leftarrow> dns_answers d stop (unat ancount) ptr;
            case r of
              Some ip \<Rightarrow> Some (s\<lparr>dns_resolved_ip := ip, dns_waiting := False\<rparr>)
            | None \<Rightarrow> Some (if dns_resolved_ip s = 0 then s\<lparr>dns_waiting := False\<rparr> else s) }}})"

text \<open>A host name as length-prefixed labels; the length is kept in a byte.\<close>

function dns_encode_name :: "bytes \<Rightarrow> bytes" where
  "dns_encode_name h =
     (if h = [] then [0]
      else let lbl = takeWhile (\<lambda>c. c \<noteq> 46) h; r = drop (length lbl) h
           in of_nat (length lbl) # lbl @ dns_encode_name (if r = [] then [] else tl r))"
  by pat_completeness auto
termination by (relation "measure length") (auto simp: length_takeWhile_le)

declare dns_encode_name.simps [simp del]

fun ip_chars :: "bytes \<Rightarrow> nat \<Rightarrow> nat \<Rightarrow> bool" where
  "ip_chars [] dots digits = (dots = 3 \<and> digits > 0 \<and> digits \<le> 3)"
| "ip_chars (c # r) dots digits =
     (if c = 46 then if digits = 0 \<or> digits > 3 then False else ip_chars r (dots + 1) 0
      else if 48 \<le> c \<and> c \<le> 57 then ip_chars r dots (digits + 1)
      else False)"

definition is_ip_address :: "bytes \<Rightarrow> bool" where
  "is_ip_address str = ip_chars (cstr str) 0 0"

definition dns_set_server :: "u32 \<Rightarrow> net \<Rightarrow> net" where
  "dns_set_server ip s = s\<lparr>dns_server := ip\<rparr>"

text \<open>The query, built in a buffer of 512 bytes on the stack.\<close>

definition dns_query :: "u16 \<Rightarrow> bytes \<Rightarrow> bytes option" where
  "dns_query qid hostname =
     (let q = be_enc 2 qid @ [1, 0, 0, 1, 0, 0, 0, 0, 0, 0] @ dns_encode_name (cstr hostname) @ [0, 1, 0, 1]
      in if length q \<le> 512 then Some q else None)"

section \<open>UDP\<close>

definition MAX_UDP_HANDLERS :: nat where
  "MAX_UDP_HANDLERS = 8"

definition udp_init :: "net \<Rightarrow> net" where
  "udp_init s = s\<lparr>udp_handlers := map (\<lambda>_. \<lparr>uh_port = 0, uh_handler = None\<rparr>) (udp_handlers s)\<rparr>"

definition udp_register_handler :: "u16 \<Rightarrow> udp_handler \<Rightarrow> net \<Rightarrow> net" where
  "udp_register_handler port h s =
     (case find_idx (\<lambda>e. uh_port e = 0) (take MAX_UDP_HANDLERS (udp_handlers s)) of
        None \<Rightarrow> s
      | Some i \<Rightarrow> s\<lparr>udp_handlers := (udp_handlers s)[i := \<lparr>uh_port = port, uh_handler = Some h\<rparr>]\<rparr>)"

definition dhcp_init :: "net \<Rightarrow> net" where
  "dhcp_init s = udp_register_handler 68 Dhcp_Rx s"

definition DNS_CLIENT_PORT :: u16 where
  "DNS_CLIENT_PORT = 53535"

definition dns_init :: "net \<Rightarrow> net" where
  "dns_init s = udp_register_handler DNS_CLIENT_PORT Dns_Handler s"

definition call_handler :: "udp_handler \<Rightarrow> bytes \<Rightarrow> u16 \<Rightarrow> net \<Rightarrow> net option" where
  "call_handler h d len s = (case h of Dhcp_Rx \<Rightarrow> dhcp_rx d len s | Dns_Handler \<Rightarrow> dns_handler d len s)"

definition udp_receive :: "u32 \<Rightarrow> bytes \<Rightarrow> u16 \<Rightarrow> net \<Rightarrow> net option" where
  "udp_receive src_ip d len s =
     (if len < 8 then Some s
      else do {
        hdr \<leftarrow> fld d 0 8;
        let dest_port = net_htons (le_dec (segment 2 2 hdr));
        let udp_len = net_htons (le_dec (segment 4 2 hdr));
        payload \<leftarrow> rest_at d 8;
        let payload_len = udp_len - 8;
        if unat payload_len > unat len - 8 then Some s
        else case find_idx (\<lambda>e. uh_port e = dest_port \<and> uh_handler e \<noteq> None) (take MAX_UDP_HANDLERS (udp_handlers s)) of
               None \<Rightarrow> Some s
             | Some i \<Rightarrow> call_handler (the (uh_handler (udp_handlers s ! i))) payload payload_len s })"

definition udp_send :: "ip_send \<Rightarrow> u32 \<Rightarrow> u16 \<Rightarrow> u16 \<Rightarrow> bytes \<Rightarrow> u16 \<Rightarrow> net \<Rightarrow> (int \<times> net) option" where
  "udp_send send dest_ip src_port dest_port d len s = do {
     let total_len = 8 + len;
     let buffer = replicate (unat total_len) 0;
     buffer \<leftarrow> store 0 (le_enc 2 (net_htons src_port) @ le_enc 2 (net_htons dest_port) @ le_enc 2 (net_htons total_len) @ [0, 0]) buffer;
     src \<leftarrow> fld d 0 (unat len);
     buffer \<leftarrow> store 8 src buffer;
     send dest_ip IP_PROTO_UDP buffer total_len s }"

section \<open>The HTTP receive buffer\<close>

definition HTTP_RESPONSE_MAX :: nat where
  "HTTP_RESPONSE_MAX = 16384"

definition http_tcp_data_received :: "bytes \<Rightarrow> nat \<Rightarrow> net \<Rightarrow> net option" where
  "http_tcp_data_received d len s = do {
     let n = (if http_response_len s + len < HTTP_RESPONSE_MAX then len else HTTP_RESPONSE_MAX - http_response_len s);
     bs \<leftarrow> fld d 0 n;
     buf \<leftarrow> store (http_response_len s) bs (http_response_buffer s);
     Some (s\<lparr>http_response_buffer := buf, http_response_len := http_response_len s + n\<rparr>) }"

section \<open>TCP\<close>

definition MAX_TCP_SOCKETS :: nat where
  "MAX_TCP_SOCKETS = 16"

definition TCP_STATE_CLOSED :: u8 where
  "TCP_STATE_CLOSED = 0"

definition TCP_STATE_SYN_SENT :: u8 where
  "TCP_STATE_SYN_SENT = 2"

definition TCP_STATE_ESTABLISHED :: u8 where
  "TCP_STATE_ESTABLISHED = 4"

definition TCP_STATE_FIN_WAIT_1 :: u8 where
  "TCP_STATE_FIN_WAIT_1 = 5"

definition TCP_STATE_CLOSE_WAIT :: u8 where
  "TCP_STATE_CLOSE_WAIT = 7"

definition TCP_STATE_LAST_ACK :: u8 where
  "TCP_STATE_LAST_ACK = 9"

definition TCP_FIN :: u8 where
  "TCP_FIN = 0x01"

definition TCP_SYN :: u8 where
  "TCP_SYN = 0x02"

definition TCP_PSH :: u8 where
  "TCP_PSH = 0x08"

definition TCP_ACK :: u8 where
  "TCP_ACK = 0x10"

definition upd_sock :: "nat \<Rightarrow> (tcp_socket_t \<Rightarrow> tcp_socket_t) \<Rightarrow> net \<Rightarrow> net" where
  "upd_sock i g s = s\<lparr>tcp_sockets := (tcp_sockets s)[i := g (tcp_sockets s ! i)]\<rparr>"

definition tcp_init :: "net \<Rightarrow> net" where
  "tcp_init s = s\<lparr>tcp_sockets := map (\<lambda>k. k\<lparr>ts_in_use := False, ts_state := TCP_STATE_CLOSED\<rparr>) (tcp_sockets s)\<rparr>"

definition tcp_calculate_checksum :: "u32 \<Rightarrow> u32 \<Rightarrow> bytes \<Rightarrow> u16 \<Rightarrow> u16" where
  "tcp_calculate_checksum src_ip dest_ip d len =
     (let acc = (drop_bit 16 src_ip AND 0xFFFF) + (src_ip AND 0xFFFF) + (drop_bit 16 dest_ip AND 0xFFFF) + (dest_ip AND 0xFFFF) +
                ucast (net_htons (ucast IP_PROTO_TCP)) + ucast (net_htons len)
      in NOT (ucast (checksum_fold (checksum_sum d acc))))"

definition tcp_header :: "tcp_socket_t \<Rightarrow> u8 \<Rightarrow> bytes" where
  "tcp_header k flags = le_enc 2 (net_htons (ts_local_port k)) @ le_enc 2 (net_htons (ts_remote_port k)) @ le_enc 4 (net_htonl (ts_seq_num k)) @
     le_enc 4 (net_htonl (ts_ack_num k)) @ [0x50, flags] @ le_enc 2 (net_htons 8192) @ [0, 0, 0, 0]"

definition tcp_send_packet :: "ip_send \<Rightarrow> nat \<Rightarrow> u8 \<Rightarrow> bytes \<Rightarrow> u16 \<Rightarrow> net \<Rightarrow> (int \<times> net) option" where
  "tcp_send_packet send i flags d data_len s = do {
     let k = tcp_sockets s ! i;
     let total_len = 20 + data_len;
     let buffer = replicate (unat total_len) 0;
     buffer \<leftarrow> store 0 (tcp_header k flags) buffer;
     src \<leftarrow> fld d 0 (unat data_len);
     buffer \<leftarrow> store 20 src buffer;
     let cs = tcp_calculate_checksum (cfg_ip (net_config s)) (ts_remote_ip k) buffer total_len;
     buffer \<leftarrow> store 16 (le_enc 2 cs) buffer;
     send (ts_remote_ip k) IP_PROTO_TCP buffer total_len s }"

definition tcp_socket :: "net \<Rightarrow> nat option \<times> net" where
  "tcp_socket s =
     (case find_idx (\<lambda>k. \<not> ts_in_use k) (take MAX_TCP_SOCKETS (tcp_sockets s)) of
        None \<Rightarrow> (None, s)
      | Some i \<Rightarrow> (Some i, (upd_sock i (\<lambda>k. k\<lparr>ts_in_use := True, ts_state := TCP_STATE_CLOSED, ts_local_port := next_port s, ts_seq_num := 1000\<rparr>) s)
                     \<lparr>next_port := next_port s + 1\<rparr>))"

definition tcp_receive :: "ip_send \<Rightarrow> u32 \<Rightarrow> bytes \<Rightarrow> u16 \<Rightarrow> net \<Rightarrow> net option" where
  "tcp_receive send src_ip d len s =
     (if len < 20 then Some s
      else do {
        hdr \<leftarrow> fld d 0 20;
        let src_port = net_htons (le_dec (segment 0 2 hdr));
        let dest_port = net_htons (le_dec (segment 2 2 hdr));
        let sq = net_htonl (le_dec (segment 4 4 hdr));
        let flags = hdr ! 13;
        case find_idx (\<lambda>k. ts_in_use k \<and> ts_remote_ip k = src_ip \<and> ts_remote_port k = src_port \<and> ts_local_port k = dest_port)
               (take MAX_TCP_SOCKETS (tcp_sockets s)) of
          None \<Rightarrow> Some s
        | Some i \<Rightarrow>
            if ts_state (tcp_sockets s ! i) = TCP_STATE_SYN_SENT then
              if flags AND TCP_SYN \<noteq> 0 \<and> flags AND TCP_ACK \<noteq> 0 then do {
                let s = upd_sock i (\<lambda>k. k\<lparr>ts_ack_num := sq + 1, ts_state := TCP_STATE_ESTABLISHED\<rparr>) s;
                (_, s) \<leftarrow> tcp_send_packet send i TCP_ACK [] 0 s;
                Some s }
              else Some s
            else if ts_state (tcp_sockets s ! i) = TCP_STATE_ESTABLISHED then
              if flags AND TCP_FIN \<noteq> 0 then do {
                let s = upd_sock i (\<lambda>k. k\<lparr>ts_ack_num := sq + 1, ts_state := TCP_STATE_CLOSE_WAIT\<rparr>) s;
                (_, s) \<leftarrow> tcp_send_packet send i TCP_ACK [] 0 s;
                (_, s) \<leftarrow> tcp_send_packet send i (TCP_FIN OR TCP_ACK) [] 0 s;
                Some (upd_sock i (\<lambda>k. k\<lparr>ts_seq_num := ts_seq_num k + 1, ts_state := TCP_STATE_LAST_ACK\<rparr>) s) }
              else if flags AND TCP_ACK \<noteq> 0 then do {
                let header_len = (ucast (drop_bit 4 (hdr ! 12)) * 4 :: u16);
                let data_len = len - header_len;
                if data_len > 0 then do {
                  payload \<leftarrow> rest_at d (unat header_len);
                  s \<leftarrow> http_tcp_data_received payload (unat data_len) s;
                  let s = upd_sock i (\<lambda>k. k\<lparr>ts_ack_num := sq + ucast data_len\<rparr>) s;
                  (_, s) \<leftarrow> tcp_send_packet send i TCP_ACK [] 0 s;
                  Some s }
                else Some s }
              else Some s
            else if ts_state (tcp_sockets s ! i) = TCP_STATE_LAST_ACK then
              Some (if flags AND TCP_ACK \<noteq> 0 then upd_sock i (\<lambda>k. k\<lparr>ts_state := TCP_STATE_CLOSED\<rparr>) s else s)
            else Some s })"

definition tcp_get_state :: "nat option \<Rightarrow> net \<Rightarrow> u8" where
  "tcp_get_state sock s = (case sock of None \<Rightarrow> TCP_STATE_CLOSED | Some i \<Rightarrow> ts_state (tcp_sockets s ! i))"

definition tcp_send :: "ip_send \<Rightarrow> nat option \<Rightarrow> bytes \<Rightarrow> u16 \<Rightarrow> net \<Rightarrow> (int \<times> net) option" where
  "tcp_send send sock d len s =
     (case sock of
        None \<Rightarrow> Some (-1, s)
      | Some i \<Rightarrow>
          if ts_state (tcp_sockets s ! i) \<noteq> TCP_STATE_ESTABLISHED then Some (-1, s)
          else do {
            (r, s) \<leftarrow> tcp_send_packet send i (TCP_PSH OR TCP_ACK) d len s;
            if r \<noteq> 0 then Some (-1, s)
            else Some (0, upd_sock i (\<lambda>k. k\<lparr>ts_seq_num := ts_seq_num k + ucast len\<rparr>) s) })"

end
