(* ===== verification/Net_Stack.thy ===== *)
theory Net_Stack
  imports Net_Proto
begin

unbundle bit_operations_syntax

text \<open>
  Sending and receiving over IP, which call each other: handling a packet may send, sending may resolve
  an address, and resolving polls the card and handles packets. The nesting of sends is bounded by the
  argument \<open>depth\<close>. The result \<open>None\<close> stands for a call that needs more nesting, touches memory outside a
  buffer, or waits for a card that has stalled; the theorems therefore either show that the result is
  \<open>Some\<close>, or say which of these it is. On top are the operations that wait for answers: ping, DHCP, DNS, TCP and HTTP.
\<close>

section \<open>Receiving\<close>

definition net_receive_packet :: "ip_send \<Rightarrow> bytes \<Rightarrow> u16 \<Rightarrow> net \<Rightarrow> net option" where
  "net_receive_packet send d len s =
     (if len < 14 then Some s
      else do {
        hdr \<leftarrow> fld d 0 14;
        payload \<leftarrow> rest_at d 14;
        let ethertype = net_htons (le_dec (segment 12 2 hdr));
        if ethertype = ETH_TYPE_ARP then arp_receive payload (len - 14) s
        else if ethertype = ETH_TYPE_IPV4 then
          if len \<ge> 34 then do {
            iph \<leftarrow> fld payload 0 20;
            let ip = ipv4_dec iph;
            let cfg = net_config s;
            if cfg_configured cfg \<and> ip_dest_ip ip \<noteq> cfg_ip cfg \<and> ip_dest_ip ip \<noteq> 0xFFFFFFFF then Some s
            else do {
              let ip_header_len = (ucast (ip_version_ihl ip AND 0x0F) * 4 :: u16);
              body \<leftarrow> rest_at payload (unat ip_header_len);
              let payload_len = net_htons (ip_total_length ip) - ip_header_len;
              if ip_protocol ip = IP_PROTO_ICMP then icmp_receive send (ip_src_ip ip) body payload_len s
              else if ip_protocol ip = IP_PROTO_UDP then udp_receive (ip_src_ip ip) body payload_len s
              else if ip_protocol ip = IP_PROTO_TCP then tcp_receive send (ip_src_ip ip) body payload_len s
              else Some s }}
          else Some s
        else Some s })"

definition e1000_interrupt :: "ip_send \<Rightarrow> net \<Rightarrow> net option" where
  "e1000_interrupt send s = e1000_poll (net_receive_packet send) s"

section \<open>Sending\<close>

text \<open>Delivery to the own address, without the card.\<close>

definition net_loopback :: "ip_send \<Rightarrow> u32 \<Rightarrow> u8 \<Rightarrow> bytes \<Rightarrow> u16 \<Rightarrow> net \<Rightarrow> (int \<times> net) option" where
  "net_loopback send src_ip protocol payload len s =
     (if protocol = IP_PROTO_ICMP then do {
        ty \<leftarrow> byte_at payload 0;
        if ty = 8 then do {
          reply \<leftarrow> fld payload 0 (unat len);
          reply \<leftarrow> store 0 [0] reply;
          reply \<leftarrow> store 2 [0, 0] reply;
          reply \<leftarrow> store 2 (le_enc 2 (net_checksum reply)) reply;
          s \<leftarrow> icmp_receive send src_ip reply len s;
          Some (0, s) }
        else do { s \<leftarrow> icmp_receive send src_ip payload len s; Some (0, s) }}
      else if protocol = IP_PROTO_UDP then do { s \<leftarrow> udp_receive src_ip payload len s; Some (0, s) }
      else if protocol = IP_PROTO_TCP then do { s \<leftarrow> tcp_receive send src_ip payload len s; Some (0, s) }
      else Some (0, s))"

definition ipv4_packet :: "u32 \<Rightarrow> u32 \<Rightarrow> u8 \<Rightarrow> u16 \<Rightarrow> ipv4_header" where
  "ipv4_packet src_ip dest_ip protocol total_len =
     (let h = \<lparr>ip_version_ihl = 0x45, ip_dscp_ecn = 0, ip_total_length = net_htons total_len, ip_identification = 0, ip_flags_fragment = 0,
        ip_ttl = 64, ip_protocol = protocol, ip_header_checksum = 0, ip_src_ip = src_ip, ip_dest_ip = dest_ip\<rparr>
      in h\<lparr>ip_header_checksum := net_checksum (ipv4_enc h)\<rparr>)"

text \<open>The hardware address for a destination: broadcast, the host itself, or the gateway.\<close>

definition net_route :: "ip_send \<Rightarrow> u32 \<Rightarrow> u32 \<Rightarrow> net \<Rightarrow> (bytes option \<times> net) option" where
  "net_route send src_ip dest_ip s =
     (let cfg = net_config s in
      if dest_ip = 0xFFFFFFFF then Some (Some (replicate 6 0xFF), s)
      else if dest_ip AND cfg_netmask cfg = src_ip AND cfg_netmask cfg then arp_resolve (e1000_interrupt send) dest_ip s
      else if cfg_gateway cfg = 0 then Some (None, s)
      else arp_resolve (e1000_interrupt send) (cfg_gateway cfg) s)"

definition ipv4_body :: "ip_send \<Rightarrow> ip_send" where
  "ipv4_body send dest_ip protocol payload len s =
     (let cfg = net_config s;
          src_ip = (if cfg_configured cfg then cfg_ip cfg else 0)
      in if dest_ip = src_ip \<and> src_ip \<noteq> 0 then net_loopback send src_ip protocol payload len s
         else do {
           let total_len = 20 + len;
           let buffer = replicate (unat total_len) 0;
           buffer \<leftarrow> store 0 (ipv4_enc (ipv4_packet src_ip dest_ip protocol total_len)) buffer;
           src \<leftarrow> fld payload 0 (unat len);
           buffer \<leftarrow> store 20 src buffer;
           (mac, s) \<leftarrow> net_route send src_ip dest_ip s;
           case mac of
             None \<Rightarrow> Some (-1, s)
           | Some m \<Rightarrow> net_send_ethernet m ETH_TYPE_IPV4 buffer total_len s })"

primrec net_send_ipv4 :: "nat \<Rightarrow> ip_send" where
  "net_send_ipv4 0 = (\<lambda>dest_ip protocol payload len s. None)"
| "net_send_ipv4 (Suc depth) = ipv4_body (net_send_ipv4 depth)"

definition e1000_interrupt_handler :: "nat \<Rightarrow> net \<Rightarrow> net option" where
  "e1000_interrupt_handler depth = e1000_interrupt (net_send_ipv4 depth)"

text \<open>The set-up of the card (\<open>e1000_init\<close>), which reads and writes device registers, is the argument \<open>init_card\<close>.\<close>

definition net_init :: "(net \<Rightarrow> int \<times> net) \<Rightarrow> net \<Rightarrow> net" where
  "net_init init_card s =
     (let (r, s) = init_card s in
      if r \<noteq> 0 then s else dhcp_init (dns_init (tcp_init (udp_init (icmp_init (arp_init s))))))"

section \<open>Waiting\<close>

text \<open>Polling up to \<open>n\<close> times, with a test after each poll; \<open>True\<close> when the test succeeded.\<close>

fun poll_until :: "(net \<Rightarrow> net option) \<Rightarrow> (net \<Rightarrow> bool) \<Rightarrow> nat \<Rightarrow> net \<Rightarrow> (bool \<times> net) option" where
  "poll_until poll P 0 s = Some (False, s)"
| "poll_until poll P (Suc n) s = do {
     s \<leftarrow> poll s;
     if P s then Some (True, s) else poll_until poll P n s }"

text \<open>Rounds of \<open>k\<close> polls with a test after each round.\<close>

fun rounds_until :: "(net \<Rightarrow> net option) \<Rightarrow> (net \<Rightarrow> bool) \<Rightarrow> nat \<Rightarrow> nat \<Rightarrow> net \<Rightarrow> (bool \<times> net) option" where
  "rounds_until poll P k 0 s = Some (False, s)"
| "rounds_until poll P k (Suc n) s = do {
     s \<leftarrow> poll_times poll k s;
     if P s then Some (True, s) else rounds_until poll P k n s }"

definition icmp_wait_reply :: "nat \<Rightarrow> u16 \<Rightarrow> u16 \<Rightarrow> nat \<Rightarrow> net \<Rightarrow> (bool \<times> net) option" where
  "icmp_wait_reply depth i sq timeout_ms s =
     (if check_reply_in_array i sq s then Some (True, s)
      else do {
        let s = s\<lparr>expected_id := i, expected_seq := sq, waiting_for_reply := True, reply_received := False\<rparr>;
        (r, s) \<leftarrow> poll_until (e1000_interrupt_handler depth) (\<lambda>s. reply_received s \<or> check_reply_in_array i sq s) (timeout_ms * 10 * 100) s;
        let s = s\<lparr>waiting_for_reply := False\<rparr>;
        Some (r \<or> check_reply_in_array i sq s, s) })"

definition tcp_connect :: "nat \<Rightarrow> nat option \<Rightarrow> u32 \<Rightarrow> u16 \<Rightarrow> net \<Rightarrow> (int \<times> net) option" where
  "tcp_connect depth sock dest_ip dest_port s =
     (case sock of
        None \<Rightarrow> Some (-1, s)
      | Some i \<Rightarrow>
          if ts_state (tcp_sockets s ! i) \<noteq> TCP_STATE_CLOSED then Some (-1, s)
          else do {
            let s = upd_sock i (\<lambda>k. k\<lparr>ts_remote_ip := dest_ip, ts_remote_port := dest_port, ts_state := TCP_STATE_SYN_SENT\<rparr>) s;
            (r, s) \<leftarrow> tcp_send_packet (net_send_ipv4 depth) i TCP_SYN [] 0 s;
            if r \<noteq> 0 then Some (-1, upd_sock i (\<lambda>k. k\<lparr>ts_state := TCP_STATE_CLOSED\<rparr>) s)
            else do {
              let s = upd_sock i (\<lambda>k. k\<lparr>ts_seq_num := ts_seq_num k + 1\<rparr>) s;
              (r, s) \<leftarrow> poll_until (e1000_interrupt_handler depth) (\<lambda>s. ts_state (tcp_sockets s ! i) = TCP_STATE_ESTABLISHED) (5000 * 100) s;
              if r then Some (0, s)
              else Some (-1, upd_sock i (\<lambda>k. k\<lparr>ts_state := TCP_STATE_CLOSED\<rparr>) s) }})"

definition tcp_close :: "nat \<Rightarrow> nat option \<Rightarrow> net \<Rightarrow> (int \<times> net) option" where
  "tcp_close depth sock s =
     (case sock of
        None \<Rightarrow> Some (-1, s)
      | Some i \<Rightarrow> do {
          s \<leftarrow> (if ts_state (tcp_sockets s ! i) = TCP_STATE_ESTABLISHED then do {
                  let s = upd_sock i (\<lambda>k. k\<lparr>ts_state := TCP_STATE_FIN_WAIT_1\<rparr>) s;
                  (_, s) \<leftarrow> tcp_send_packet (net_send_ipv4 depth) i (TCP_FIN OR TCP_ACK) [] 0 s;
                  Some (upd_sock i (\<lambda>k. k\<lparr>ts_seq_num := ts_seq_num k + 1\<rparr>) s) }
                else Some s);
          (_, s) \<leftarrow> rounds_until (e1000_interrupt_handler depth) (\<lambda>s. ts_state (tcp_sockets s ! i) = TCP_STATE_CLOSED) 10 1000 s;
          Some (0, upd_sock i (\<lambda>k. k\<lparr>ts_in_use := False, ts_state := TCP_STATE_CLOSED\<rparr>) s) })"

text \<open>Sending a DHCP message up to three times until the flag tested by \<open>P\<close> is set.\<close>

fun dhcp_exchange :: "nat \<Rightarrow> (net \<Rightarrow> bool) \<Rightarrow> bytes \<Rightarrow> nat \<Rightarrow> net \<Rightarrow> (bool \<times> net) option" where
  "dhcp_exchange depth P msg 0 s = Some (False, s)"
| "dhcp_exchange depth P msg (Suc n) s = do {
     (_, s) \<leftarrow> udp_send (net_send_ipv4 depth) 0xFFFFFFFF 68 67 msg 548 s;
     (r, s) \<leftarrow> rounds_until (e1000_interrupt_handler depth) P 50 2000 s;
     if r then Some (True, s) else dhcp_exchange depth P msg n s }"

definition dhcp_get_ip :: "nat \<Rightarrow> net \<Rightarrow> (int \<times> net) option" where
  "dhcp_get_ip depth s = do {
     let s = s\<lparr>got_offer := False, got_ack := False, offer_ip := 0, server_ip := 0, dhcp_mask := 0, dhcp_gw := 0, dhcp_dns := 0,
               dhcp_xid := dhcp_xid s + 1\<rparr>;
     let m = cfg_mac (net_config s);
     (r, s) \<leftarrow> dhcp_exchange depth got_offer (dhcp_message (dhcp_xid s) m dhcp_discover_options) 3 s;
     if \<not> r then Some (-1, s)
     else do {
       s \<leftarrow> poll_times (e1000_interrupt_handler depth) 100 s;
       (r, s) \<leftarrow> dhcp_exchange depth got_ack (dhcp_message (dhcp_xid s) m (dhcp_request_options (offer_ip s) (server_ip s))) 3 s;
       if \<not> r then Some (-1, s)
       else do {
         let s = net_set_config (offer_ip s) (dhcp_mask s) (dhcp_gw s) s;
         Some (0, dns_set_server (if dhcp_dns s \<noteq> 0 then dhcp_dns s else dhcp_gw s) s) }}}"

fun dns_attempts :: "nat \<Rightarrow> bytes \<Rightarrow> nat \<Rightarrow> net \<Rightarrow> net option" where
  "dns_attempts depth msg 0 s = Some s"
| "dns_attempts depth msg (Suc n) s = do {
     (_, s) \<leftarrow> udp_send (net_send_ipv4 depth) (dns_server s) DNS_CLIENT_PORT 53 msg (of_nat (length msg)) s;
     (r, s) \<leftarrow> (if dns_waiting s then poll_until (e1000_interrupt_handler depth) (\<lambda>s. \<not> dns_waiting s) (2000 * 100) s else Some (True, s));
     if r then Some s else dns_attempts depth msg n s }"

definition dns_resolve :: "nat \<Rightarrow> bytes \<Rightarrow> net \<Rightarrow> (u32 option \<times> net) option" where
  "dns_resolve depth hostname s =
     (if is_ip_address hostname then Some (Some (net_parse_ip hostname), s)
      else do {
        let s = (if dns_server s = 0 then s\<lparr>dns_server := 0x08080808\<rparr> else s);
        let s = s\<lparr>dns_query_id := dns_query_id s + 1\<rparr>;
        msg \<leftarrow> dns_query (dns_query_id s) hostname;
        let s = s\<lparr>dns_resolved_ip := 0, dns_waiting := True\<rparr>;
        s \<leftarrow> dns_attempts depth msg 3 s;
        Some (if dns_resolved_ip s = 0 then None else Some (dns_resolved_ip s), s) })"

section \<open>The command \<open>ping\<close>\<close>

definition icmp_get_last_reply :: "net \<Rightarrow> icmp_reply option" where
  "icmp_get_last_reply s = (if replies s \<noteq> [] then Some (last (replies s)) else None)"

text \<open>
  The remaining rounds of a ping command: a request with the next sequence number, waiting for its
  answer, and polling the card \<open>pause\<close> times before the next round; \<open>always\<close> tells whether the last
  round is followed by such a pause too. The result counts the requests sent and the answers received.
\<close>

fun ping_rounds :: "nat \<Rightarrow> nat \<Rightarrow> nat \<Rightarrow> bool \<Rightarrow> u32 \<Rightarrow> u16 \<Rightarrow> nat \<Rightarrow> nat \<times> nat \<Rightarrow> net \<Rightarrow> ((nat \<times> nat) \<times> net) option" where
  "ping_rounds depth timeout_ms pause always dest_ip i 0 counts s = Some (counts, s)"
| "ping_rounds depth timeout_ms pause always dest_ip i (Suc n) counts s = do {
     let sq = ping_seq s;
     let s = s\<lparr>ping_seq := sq + 1\<rparr>;
     (r, s) \<leftarrow> icmp_send_ping (net_send_ipv4 depth) dest_ip i sq s;
     (counts, s) \<leftarrow> (if r = 0 then do {
         (ok, s) \<leftarrow> icmp_wait_reply depth i sq timeout_ms s;
         Some ((fst counts + 1, snd counts + (if ok then 1 else 0)), s) }
       else Some (counts, s));
     s \<leftarrow> (if always \<or> n > 0 then poll_times (e1000_interrupt_handler depth) pause s else Some s);
     ping_rounds depth timeout_ms pause always dest_ip i n counts s }"

definition ping_command :: "nat \<Rightarrow> nat \<Rightarrow> nat \<Rightarrow> bool \<Rightarrow> bytes \<Rightarrow> net \<Rightarrow> ((nat \<times> nat) option \<times> net) option" where
  "ping_command depth timeout_ms pause always target s =
     (let dest_ip = net_parse_ip target in
      if dest_ip = 0 then Some (None, s)
      else do {
        let s = s\<lparr>replies := []\<rparr>;
        let i = ping_id s;
        let s = s\<lparr>ping_id := i + 1\<rparr>;
        (counts, s) \<leftarrow> ping_rounds depth timeout_ms pause always dest_ip i 4 (0, 0) s;
        Some (Some counts, s) })"

definition cmd_ping :: "nat \<Rightarrow> bytes \<Rightarrow> net \<Rightarrow> ((nat \<times> nat) option \<times> net) option" where
  "cmd_ping depth target s = ping_command depth 1000 10000 False target s"

definition cmd_ping_fast :: "nat \<Rightarrow> bytes \<Rightarrow> net \<Rightarrow> ((nat \<times> nat) option \<times> net) option" where
  "cmd_ping_fast depth target s = ping_command depth 2000 1000 True target s"

end
