(* ===== verification/Net_Checksum.thy ===== *)
theory Net_Checksum
  imports Net_Stack
begin

unbundle bit_operations_syntax

text \<open>
  Byte order conversion and the Internet checksum: the sum is the one's complement sum of the words,
  and a packet whose checksum field holds the computed value has the checksum 0.
\<close>

section \<open>Byte order\<close>

lemma low_byte: "(n :: 'a :: len word) AND 0xFF = take_bit 8 n"
  by (simp add: take_bit_eq_mask mask_eq_exp_minus_1)

lemma second_byte: "(n :: u32) AND 0xFF00 = push_bit 8 (take_bit 8 (drop_bit 8 n))"
proof -
  have m: "(0xFF00 :: u32) = push_bit 8 (mask 8)" by (simp add: mask_eq_exp_minus_1)
  show ?thesis unfolding m
    by (rule bit_word_eqI) (simp only: bit_and_iff bit_push_bit_iff bit_mask_iff bit_take_bit_iff bit_drop_bit_eq possible_bit_def comp_def, auto)
qed

lemma bit_htons: "bit (net_htons n) i \<longleftrightarrow> i < 16 \<and> bit n (if i < 8 then 8 + i else i - 8)"
  unfolding net_htons_def low_byte
  by (simp only: bit_or_iff bit_push_bit_iff bit_take_bit_iff bit_drop_bit_eq comp_def possible_bit_def)
    (auto dest: bit_imp_le_length)

lemma bit_htonl: "bit (net_htonl n) i \<longleftrightarrow> i < 32 \<and> bit n (8 * (3 - i div 8) + i mod 8)"
proof (cases "i < 32")
  case True
  have b: "bit (net_htonl n) i \<longleftrightarrow> (24 \<le> i \<and> bit n (i - 24)) \<or> (16 \<le> i \<and> i < 24 \<and> bit n (i - 8)) \<or>
      (8 \<le> i \<and> i < 16 \<and> bit n (i + 8)) \<or> (i < 8 \<and> bit n (i + 24))"
    unfolding net_htonl_def low_byte second_byte
    by (simp only: bit_or_iff bit_push_bit_iff bit_take_bit_iff bit_drop_bit_eq comp_def possible_bit_def)
      (use True in \<open>auto simp: add.commute\<close>)
  define q r where "q = i div 8" "r = i mod 8"
  have i: "i = 8 * q + r" "r < 8" "q < 4" using True by (simp_all add: q_r_def)
  then have "q = 0 \<or> q = 1 \<or> q = 2 \<or> q = 3" by auto
  then have "bit (net_htonl n) i \<longleftrightarrow> bit n (8 * (3 - q) + r)" using i(1,2) unfolding b by (elim disjE) (simp_all add: add.commute)
  then show ?thesis using True by (simp add: q_r_def)
next
  case False
  then show ?thesis using bit_imp_le_length by fastforce
qed

lemma htons_enc: "le_enc 2 (net_htons n) = be_enc 2 n"
proof (rule nth_equalityI)
  fix k
  assume k: "k < length (le_enc 2 (net_htons n))"
  show "le_enc 2 (net_htons n) ! k = be_enc 2 n ! k"
    by (rule bit_word_eqI) (use k in \<open>auto simp: be_enc_def rev_nth le_enc_def bit_ucast_iff bit_drop_bit_eq bit_htons less_2_cases_iff\<close>)
qed simp

lemma htonl_enc: "le_enc 4 (net_htonl n) = be_enc 4 n"
proof (rule nth_equalityI)
  fix k
  assume k: "k < length (le_enc 4 (net_htonl n))"
  show "le_enc 4 (net_htonl n) ! k = be_enc 4 n ! k"
  proof (rule bit_word_eqI)
    fix i
    assume "i < LENGTH(8)"
    then have "(8 * k + i) div 8 = k" "(8 * k + i) mod 8 = i" "8 * k + i < 32" using k by simp_all
    then show "bit (le_enc 4 (net_htonl n) ! k) i = bit (be_enc 4 n ! k) i"
      using k by (simp add: be_enc_def rev_nth le_enc_def bit_ucast_iff bit_drop_bit_eq bit_htonl)
  qed
qed simp

lemma htons_dec: "length bs = 2 \<Longrightarrow> net_htons (le_dec bs) = be_dec bs"
proof -
  assume a: "length bs = 2"
  have "le_enc 2 (net_htons (le_dec bs)) = rev bs" using a by (simp add: htons_enc be_enc_def)
  then have "le_dec (le_enc 2 (net_htons (le_dec bs))) = (le_dec (rev bs) :: u16)" by simp
  then show ?thesis by (simp add: be_dec_def)
qed

lemma htonl_dec: "length bs = 4 \<Longrightarrow> net_htonl (le_dec bs) = be_dec bs"
proof -
  assume a: "length bs = 4"
  have "le_enc 4 (net_htonl (le_dec bs)) = rev bs" using a by (simp add: htonl_enc be_enc_def)
  then have "le_dec (le_enc 4 (net_htonl (le_dec bs))) = (le_dec (rev bs) :: u32)" by simp
  then show ?thesis by (simp add: be_dec_def)
qed

lemma htons_htons [simp]: "net_htons (net_htons n) = n"
  by (rule bit_word_eqI) (auto simp: bit_htons)

lemma htonl_htonl [simp]: "net_htonl (net_htonl n) = n"
proof -
  have "le_enc 4 (net_htonl n) = be_enc 4 n" by (rule htonl_enc)
  then have "net_htonl n = le_dec (be_enc 4 n)" using le_dec_enc [of 4 "net_htonl n"] by simp
  then show ?thesis using htonl_dec [of "be_enc 4 n"] by simp
qed

section \<open>The checksum\<close>

text \<open>The sum of the little-endian words of a packet, a last odd byte counting alone.\<close>

fun word_sum :: "bytes \<Rightarrow> nat" where
  "word_sum (a # b # r) = unat a + 256 * unat b + word_sum r"
| "word_sum [a] = unat a"
| "word_sum [] = 0"

lemma unat_ucast_small: "unat (w :: 'a :: len word) < 2 ^ LENGTH('b) \<Longrightarrow> unat (ucast w :: 'b :: len word) = unat w"
  by (simp add: unsigned_ucast_eq take_bit_nat_eq_self)

lemma unat_byte: "unat (b :: u8) < 256"
  using unsigned_less [of b] by simp

lemma unat_le_dec2: "unat (le_dec [a, b] :: u16) = unat a + 256 * unat b"
proof -
  have "(le_dec [a, b] :: u16) = ucast a OR push_bit 8 (ucast b)" by simp
  also have "\<dots> = ucast a + push_bit 8 (ucast b)"
    by (rule disjunctive_add [symmetric]) (auto simp: bit_ucast_iff bit_push_bit_iff dest: bit_imp_le_length)
  finally show ?thesis
    using unat_byte [of a] unat_byte [of b] by (simp add: unat_word_ariths push_bit_eq_mult unat_ucast_small)
qed

lemma checksum_sum_unat:
  "unat acc + word_sum d < 2 ^ 32 \<Longrightarrow> unat (checksum_sum d acc) = unat acc + word_sum d"
proof (induction d acc rule: checksum_sum.induct)
  case (1 a b r acc)
  have w: "unat (ucast (le_dec [a, b] :: u16) :: u32) = unat a + 256 * unat b"
    using unat_le_dec2 [of a b] unat_byte [of a] unat_byte [of b] by (subst unat_ucast_small) simp_all
  have "unat (acc + ucast (le_dec [a, b] :: u16)) = unat acc + (unat a + 256 * unat b)"
    using 1 w by (simp add: unat_word_ariths)
  with 1 show ?case by simp
next
  case (2 a acc)
  then show ?case using unat_byte [of a] by (simp add: unat_word_ariths unat_ucast_small)
qed simp

lemma word_sum_bound: "word_sum d \<le> 65535 * ((length d + 1) div 2)"
proof (induction d rule: word_sum.induct)
  case (1 a b r)
  then show ?case using unat_byte [of a] unat_byte [of b] by simp
next
  case (2 a)
  then show ?case using unat_byte [of a] by simp
qed simp

lemma word_sum_append: "even (length d) \<Longrightarrow> word_sum (d @ e) = word_sum d + word_sum e"
  by (induction d rule: word_sum.induct) auto

text \<open>Folding keeps the value modulo 65535 and does not make it zero.\<close>

lemma checksum_fold_spec:
  "unat (checksum_fold w) < 65536 \<and> unat (checksum_fold w) mod 65535 = unat w mod 65535 \<and> (checksum_fold w = 0 \<longleftrightarrow> w = 0)"
proof (induction w rule: checksum_fold.induct)
  case (1 w)
  show ?case
  proof (cases "drop_bit 16 w = 0")
    case True
    have "unat (drop_bit 16 w) = unat w div 65536" by (simp add: drop_bit_eq_div unat_div)
    then have "unat w div 65536 = 0" using True by simp
    then have "unat w < 65536" by (simp add: div_eq_0_iff)
    then show ?thesis using True by (subst checksum_fold.simps, subst (2) checksum_fold.simps, subst (3) checksum_fold.simps) simp
  next
    case False
    let ?v = "(w AND 0xFFFF) + drop_bit 16 w"
    have e: "checksum_fold w = checksum_fold ?v" using False by (subst checksum_fold.simps) simp
    note f = fold_decreases [OF False]
    have "unat w = unat w div 2 ^ 16 * 65535 + (unat w mod 2 ^ 16 + unat w div 2 ^ 16)"
      using div_mult_mod_eq [of "unat w" "2 ^ 16"] by simp
    then have m: "unat ?v mod 65535 = unat w mod 65535" unfolding f(1) by (metis mod_mult_self3)
    have "unat (drop_bit 16 w) = unat w div 2 ^ 16" by (simp add: drop_bit_eq_div unat_div)
    then have "unat ?v \<noteq> 0" unfolding f(1) using False by (metis add_is_0 unat_eq_zero)
    then have "?v \<noteq> 0" by auto
    moreover have "w \<noteq> 0" using False by auto
    ultimately show ?thesis using 1 [OF False] m unfolding e by simp
  qed
qed

text \<open>The complement of the folded sum, as both checksum routines return it.\<close>

definition complement_sum :: "bytes \<Rightarrow> u32 \<Rightarrow> u16" where
  "complement_sum d acc = NOT (ucast (checksum_fold (checksum_sum d acc)))"

lemma word_sum_enc: "word_sum (le_enc 2 (c :: u16)) = unat c"
proof -
  obtain a b where ab: "le_enc 2 c = [a, b]" by (simp add: le_enc_def upt_rec)
  have "c = le_dec [a, b]" using le_dec_enc [of 2 c] ab by simp
  then show ?thesis using unat_le_dec2 [of a b] ab by simp
qed

lemma complement_sum_unat: "unat (complement_sum d acc) = 65535 - unat (checksum_fold (checksum_sum d acc))"
proof -
  have "unat (ucast (checksum_fold (checksum_sum d acc)) :: u16) = unat (checksum_fold (checksum_sum d acc))"
    using checksum_fold_spec by (intro unat_ucast_small) simp
  moreover have "unat (NOT (w :: u16)) = 65535 - unat w" for w
  proof -
    have "NOT w = - 1 - w" by (simp add: not_eq_complement)
    moreover have "w \<le> - 1" by (simp add: word_order.extremum)
    ultimately show ?thesis by (simp add: unat_sub unsigned_minus_1_eq_mask mask_eq_exp_minus_1)
  qed
  ultimately show ?thesis by (simp add: complement_sum_def)
qed

lemma complement_sum_verifies:
  assumes "even (length pre)" "unat acc + (word_sum pre + word_sum post) + 65535 < 2 ^ 32"
  shows "complement_sum (pre @ le_enc 2 (complement_sum (pre @ [0, 0] @ post) acc) @ post) acc = 0"
proof -
  define S where "S = unat acc + (word_sum pre + word_sum post)"
  define f where "f = checksum_fold (checksum_sum (pre @ [0, 0] @ post) acc)"
  define c where "c = complement_sum (pre @ [0, 0] @ post) acc"
  have s0: "unat (checksum_sum (pre @ [0, 0] @ post) acc) = S"
    using assms by (subst checksum_sum_unat) (simp_all add: word_sum_append S_def)
  have f: "unat f < 65536" "unat f mod 65535 = S mod 65535" "f = 0 \<longleftrightarrow> S = 0"
    using checksum_fold_spec [of "checksum_sum (pre @ [0, 0] @ post) acc"] s0 unfolding f_def [symmetric] by (auto simp: unat_eq_zero [symmetric])
  have c: "unat c = 65535 - unat f" by (simp add: c_def f_def complement_sum_unat)
  define g where "g = checksum_fold (checksum_sum (pre @ le_enc 2 c @ post) acc)"
  have "word_sum (le_enc 2 c @ post) = unat c + word_sum post" by (simp add: word_sum_append word_sum_enc)
  then have s1: "unat (checksum_sum (pre @ le_enc 2 c @ post) acc) = S + unat c"
    using assms c by (subst checksum_sum_unat) (simp_all add: word_sum_append S_def)
  have "(S + unat c) mod 65535 = (S mod 65535 + unat c) mod 65535" by (simp add: mod_add_left_eq)
  also have "\<dots> = (unat f mod 65535 + (65535 - unat f)) mod 65535" by (simp add: f(2) c)
  also have "\<dots> = (unat f + (65535 - unat f)) mod 65535" by (simp add: mod_add_left_eq)
  also have "\<dots> = 0" using f(1) by simp
  finally have z: "(S + unat c) mod 65535 = 0" .
  have nz: "S + unat c \<noteq> 0"
  proof
    assume "S + unat c = 0"
    then have "S = 0" "unat c = 0" by simp_all
    then have "unat f = 0" using f(3) by simp
    with c \<open>unat c = 0\<close> show False by simp
  qed
  have g: "unat g < 65536" "unat g mod 65535 = 0" "g \<noteq> 0"
    using checksum_fold_spec [of "checksum_sum (pre @ le_enc 2 c @ post) acc"] s1 z nz unfolding g_def [symmetric] by auto
  then obtain m where m: "unat g = 65535 * m" by auto
  then have "m = 1" using g(1,3) by (cases m) (auto simp: unat_eq_zero)
  then have "unat g = 65535" using m by simp
  then have "unat (complement_sum (pre @ le_enc 2 c @ post) acc) = 0" by (simp add: complement_sum_unat g_def)
  then show ?thesis by (simp add: c_def unat_eq_zero)
qed

lemma net_checksum_complement: "net_checksum d = complement_sum d 0"
  by (simp add: net_checksum_def complement_sum_def)

lemma net_checksum_zero:
  assumes "even (length pre)" "length pre + length post \<le> 131066"
  shows "net_checksum (pre @ le_enc 2 (net_checksum (pre @ [0, 0] @ post)) @ post) = 0"
proof -
  have "word_sum pre + word_sum post = word_sum (pre @ post)" using assms(1) by (simp add: word_sum_append)
  also have "\<dots> \<le> 65535 * ((length (pre @ post) + 1) div 2)" by (rule word_sum_bound)
  also have "\<dots> \<le> 65535 * (131067 div 2)" using assms(2) by (intro mult_le_mono2 div_le_mono) simp
  finally show ?thesis unfolding net_checksum_complement using assms(1) by (intro complement_sum_verifies) simp_all
qed

text \<open>
  A packet with the computed checksum stored in its checksum field, which lies at an even offset
  and was zero during the computation, has the checksum 0, for packets of up to 131068 bytes.
\<close>

theorem net_checksum_verifies:
  assumes "even (length pre)" and "length pre + length post \<le> 131066"
  shows "net_checksum (pre @ le_enc 2 (net_checksum (pre @ [0, 0] @ post)) @ post) = 0"
  by (rule net_checksum_zero [OF assms])

theorem net_checksum_verifies_witness: "net_checksum ([0x45, 0] @ le_enc 2 (net_checksum ([0x45, 0] @ [0, 0] @ [7])) @ [7]) = 0"
  by (rule net_checksum_verifies) simp_all

end
