(* ===== verification/Net_Frames.thy ===== *)
theory Net_Frames
  imports Net_Checksum
begin

unbundle bit_operations_syntax

text \<open>
  Frames on the wire: the header encodings are inverted by the decodings, the headers that are sent
  carry valid checksums, and sending to a neighbour whose address is known puts exactly one frame on
  the wire. With this, datagrams and pings pass between two hosts.
\<close>

section \<open>Headers\<close>

lemma ipv4_enc_length [simp]: "length (ipv4_enc h) = 20"
  by (simp add: ipv4_enc_def)

lemma ipv4_dec_enc [simp]: "ipv4_dec (ipv4_enc h) = h"
  unfolding ipv4_dec_def ipv4_enc_def by (simp add: segment_split nth_append)

lemma arp_enc_length: "length (arp_sender_hw_addr a) = 6 \<Longrightarrow> length (arp_target_hw_addr a) = 6 \<Longrightarrow> length (arp_enc a) = 28"
  by (simp add: arp_enc_def)

lemma arp_dec_enc: "length (arp_sender_hw_addr a) = 6 \<Longrightarrow> length (arp_target_hw_addr a) = 6 \<Longrightarrow> arp_dec (arp_enc a) = a"
  unfolding arp_dec_def arp_enc_def by (simp add: segment_split nth_append)

text \<open>The header that \<open>net_send_ipv4\<close> builds passes the checksum test.\<close>

lemma ipv4_packet_checksum: "net_checksum (ipv4_enc (ipv4_packet src dst protocol tlen)) = 0"
proof -
  let ?pre = "[0x45, 0] @ le_enc 2 (net_htons tlen) @ le_enc 2 (0 :: u16) @ le_enc 2 (0 :: u16) @ [64, protocol]"
  let ?post = "le_enc 4 src @ le_enc 4 dst"
  have z: "le_enc 2 (0 :: u16) = [0, 0]" by (simp add: le_enc_def upt_rec)
  have "ipv4_enc (ipv4_packet src dst protocol tlen) = ?pre @ le_enc 2 (net_checksum (?pre @ [0, 0] @ ?post)) @ ?post"
    by (simp add: ipv4_packet_def ipv4_enc_def Let_def z)
  moreover have "net_checksum (?pre @ le_enc 2 (net_checksum (?pre @ [0, 0] @ ?post)) @ ?post) = 0"
    by (rule net_checksum_zero) simp_all
  ultimately show ?thesis by simp
qed

section \<open>Transmission\<close>

definition nic_ok :: "e1000_device \<Rightarrow> bool" where
  "nic_ok e \<longleftrightarrow> e_initialized e \<and> \<not> e_stalled e \<and> length (e_tx_descs e) = 32 \<and> e_tx_cur e < 32 \<and>
     (\<forall>i < 32. length (tx_buffer (e_tx_descs e ! i)) = 8192 \<and> tx_status (e_tx_descs e ! i) = 1)"

text \<open>The only effect is one more frame on the wire.\<close>

definition transmits :: "bytes \<Rightarrow> net \<Rightarrow> net \<Rightarrow> bool" where
  "transmits fr s s' \<longleftrightarrow> (\<exists>e. s' = s\<lparr>e1000_dev := e\<rparr> \<and> nic_ok e \<and> e_wire e = e_wire (e1000_dev s) @ [fr] \<and>
     e_rx_descs e = e_rx_descs (e1000_dev s) \<and> e_rx_cur e = e_rx_cur (e1000_dev s) \<and> e_arrivals e = e_arrivals (e1000_dev s))"

lemma fld_exact [simp]: "length d = n \<Longrightarrow> fld d 0 n = Some d"
  by (simp add: fld_def)

lemma fld_prefix: "length d = n \<Longrightarrow> fld (d @ r) 0 n = Some d"
  by (simp add: fld_def segment_prefix)

lemma e1000_send_transmits:
  assumes "nic_ok (e1000_dev s)" "length fr \<le> 8192"
  shows "\<exists>s'. e1000_send_packet fr (of_nat (length fr)) s = Some (0, s') \<and> transmits fr s s'"
proof -
  define e where "e = e1000_dev s"
  define t where "t = e_tx_cur e"
  have ok: "e_initialized e" "\<not> e_stalled e" "length (e_tx_descs e) = 32" "t < 32" "length (tx_buffer (e_tx_descs e ! t)) = 8192"
    "tx_status (e_tx_descs e ! t) = 1"
    using assms(1) by (auto simp: nic_ok_def e_def t_def)
  have len: "unat (of_nat (length fr) :: u16) = length fr" using assms(2) by (simp add: unat_of_nat)
  then have nl: "\<not> (of_nat (length fr) :: u16) > 8192" using assms(2) by (simp add: word_less_nat_alt)
  define desc where "desc = (e_tx_descs e ! t)\<lparr>tx_buffer := put_at 0 fr (tx_buffer (e_tx_descs e ! t)), tx_length := of_nat (length fr), tx_cmd := 0x0B, tx_status := 0\<rparr>"
  define e' where "e' = nic_transmit t (e\<lparr>e_tx_descs := (e_tx_descs e)[t := desc], e_tx_cur := (t + 1) mod 32\<rparr>)"
  have "e1000_send_packet fr (of_nat (length fr)) s = Some (0, s\<lparr>e1000_dev := e'\<rparr>)"
    using ok len nl assms(2) unfolding e1000_send_packet_def Let_def e_def [symmetric] t_def [symmetric]
    by (simp add: store_def e'_def desc_def)
  moreover have f: "take (unat (tx_length desc)) (tx_buffer desc) = fr"
    using ok(5) assms(2) len by (simp add: desc_def put_at_def)
  have dl: "length (tx_buffer desc) = 8192" using ok(5) assms(2) by (simp add: desc_def)
  have e': "e' = e\<lparr>e_tx_descs := (e_tx_descs e)[t := desc\<lparr>tx_status := 1\<rparr>], e_tx_cur := (t + 1) mod 32, e_wire := e_wire e @ [fr]\<rparr>"
    using ok f by (simp add: e'_def nic_transmit_def Let_def)
  have "length (tx_buffer (e_tx_descs e' ! i)) = 8192 \<and> tx_status (e_tx_descs e' ! i) = 1" if "i < 32" for i
    using assms(1) ok dl that by (cases "i = t") (simp_all add: e' nic_ok_def e_def)
  then have "nic_ok e'" using ok by (simp add: nic_ok_def e')
  ultimately show ?thesis using e' unfolding transmits_def by (intro exI [of _ "s\<lparr>e1000_dev := e'\<rparr>"]) (auto simp: e_def)
qed

lemma ethernet_transmits:
  assumes "nic_ok (e1000_dev s)" "length m = 6" "length (cfg_mac (net_config s)) = 6" "length payload \<le> 8178"
  shows "\<exists>s'. net_send_ethernet m et (payload @ r) (of_nat (length payload)) s = Some (0, s') \<and>
    transmits (m @ cfg_mac (net_config s) @ be_enc 2 et @ payload) s s'"
proof -
  let ?fr = "m @ cfg_mac (net_config s) @ be_enc 2 et @ payload"
  have len: "unat (of_nat (length payload) :: u16) = length payload" "unat (14 + of_nat (length payload) :: u16) = 14 + length payload"
    using assms(4) by (simp_all add: unat_of_nat unat_word_ariths)
  have "put_at 14 payload (put_at 0 (m @ cfg_mac (net_config s) @ be_enc 2 et) (replicate (14 + length payload) 0)) = ?fr"
    using assms(2,3) by (simp add: put_at_def)
  then have e: "net_send_ethernet m et (payload @ r) (of_nat (length payload)) s = e1000_send_packet ?fr (14 + of_nat (length payload)) s"
    using assms(2,3) len by (simp add: net_send_ethernet_def Let_def store_def fld_prefix htons_enc)
  have n: "(14 + of_nat (length payload) :: u16) = of_nat (length ?fr)" using assms(2,3) by simp
  have "length ?fr \<le> 8192" using assms(2,3,4) by simp
  from e1000_send_transmits [OF assms(1) this] show ?thesis unfolding e n .
qed

lemma transmits_simps:
  assumes "transmits fr s s'"
  shows "e_wire (e1000_dev s') = e_wire (e1000_dev s) @ [fr]" "nic_ok (e1000_dev s')" "net_config s' = net_config s" "arp_cache s' = arp_cache s"
    "replies s' = replies s" "tcp_sockets s' = tcp_sockets s" "udp_handlers s' = udp_handlers s" "e_rx_descs (e1000_dev s') = e_rx_descs (e1000_dev s)"
    "e_rx_cur (e1000_dev s') = e_rx_cur (e1000_dev s)" "e_arrivals (e1000_dev s') = e_arrivals (e1000_dev s)"
  using assms by (auto simp: transmits_def)

section \<open>Sending to a known neighbour\<close>

text \<open>The hosts of one network: configured, with a working card.\<close>

definition host_ok :: "net \<Rightarrow> bool" where
  "host_ok s \<longleftrightarrow> nic_ok (e1000_dev s) \<and> length (cfg_mac (net_config s)) = 6 \<and> cfg_configured (net_config s) \<and> cfg_ip (net_config s) \<noteq> 0"

text \<open>\<open>ip\<close> is another host on the same network, and its hardware address is in the cache.\<close>

definition neighbour :: "net \<Rightarrow> u32 \<Rightarrow> bytes \<Rightarrow> bool" where
  "neighbour s ip m \<longleftrightarrow> ip \<noteq> cfg_ip (net_config s) \<and> ip \<noteq> 0xFFFFFFFF \<and> ip AND cfg_netmask (net_config s) = cfg_ip (net_config s) AND cfg_netmask (net_config s) \<and>
     arp_cache_lookup ip s = Some m \<and> length m = 6"

definition ip_frame :: "net \<Rightarrow> u32 \<Rightarrow> bytes \<Rightarrow> u8 \<Rightarrow> bytes \<Rightarrow> bytes" where
  "ip_frame s ip m protocol payload = m @ cfg_mac (net_config s) @ be_enc 2 ETH_TYPE_IPV4 @
     ipv4_enc (ipv4_packet (cfg_ip (net_config s)) ip protocol (20 + of_nat (length payload))) @ payload"

lemma send_ipv4_transmits:
  assumes "host_ok s" "neighbour s ip m" "length payload \<le> 8158"
  shows "\<exists>s'. net_send_ipv4 (Suc depth) ip protocol (payload @ r) (of_nat (length payload)) s = Some (0, s') \<and> transmits (ip_frame s ip m protocol payload) s s'"
proof -
  let ?ip = "ipv4_enc (ipv4_packet (cfg_ip (net_config s)) ip protocol (20 + of_nat (length payload)))"
  have h: "nic_ok (e1000_dev s)" "length (cfg_mac (net_config s)) = 6" "cfg_configured (net_config s)" using assms(1) by (simp_all add: host_ok_def)
  have nb: "ip \<noteq> cfg_ip (net_config s)" "ip \<noteq> 0xFFFFFFFF" "ip AND cfg_netmask (net_config s) = cfg_ip (net_config s) AND cfg_netmask (net_config s)"
    "arp_cache_lookup ip s = Some m" "length m = 6" using assms(2) by (simp_all add: neighbour_def)
  have len: "unat (of_nat (length payload) :: u16) = length payload" "unat (20 + of_nat (length payload) :: u16) = 20 + length payload"
    using assms(3) by (simp_all add: unat_of_nat unat_word_ariths)
  have b: "put_at 20 payload (put_at 0 ?ip (replicate (20 + length payload) 0)) = ?ip @ payload" by (simp add: put_at_def)
  have rt: "net_route (net_send_ipv4 depth) (cfg_ip (net_config s)) ip s = Some (Some m, s)"
    using nb by (simp add: net_route_def Let_def arp_resolve_def)
  have e: "net_send_ipv4 (Suc depth) ip protocol (payload @ r) (of_nat (length payload)) s = net_send_ethernet m ETH_TYPE_IPV4 (?ip @ payload) (20 + of_nat (length payload)) s"
    using h(3) nb(1) len b rt by (simp add: ipv4_body_def Let_def store_def fld_prefix)
  have n: "(20 + of_nat (length payload) :: u16) = of_nat (length (?ip @ payload))" by simp
  have "length (?ip @ payload) \<le> 8178" using assms(3) by simp
  from ethernet_transmits [OF h(1) nb(5) h(2) this, of ETH_TYPE_IPV4 "[]"] show ?thesis
    unfolding e append_Nil2 n [symmetric] ip_frame_def .
qed

section \<open>Example hosts\<close>

text \<open>A configured host with the given addresses that knows one other host of its network.\<close>

definition example_nic :: e1000_device where
  "example_nic = \<lparr>e_initialized = True, e_rx_descs = replicate 32 \<lparr>rx_buffer = replicate 8192 0, rx_length = 0, rx_status = 0\<rparr>, e_rx_cur = 0,
     e_tx_descs = replicate 32 \<lparr>tx_buffer = replicate 8192 0, tx_length = 0, tx_cmd = 0, tx_status = 1\<rparr>, e_tx_cur = 0,
     e_stalled = False, e_wire = [], e_arrivals = []\<rparr>"

definition example_host :: "u32 \<Rightarrow> bytes \<Rightarrow> u32 \<Rightarrow> bytes \<Rightarrow> net" where
  "example_host ip m peer_ip peer_m = \<lparr>net_config = \<lparr>cfg_mac = m, cfg_ip = ip, cfg_netmask = 0x00FFFFFF, cfg_gateway = 0, cfg_dns = 0, cfg_configured = True\<rparr>,
     e1000_dev = example_nic,
     arp_cache = \<lparr>ac_ip = peer_ip, ac_mac = peer_m, ac_timestamp = 0, ac_valid = True\<rparr> # replicate 31 \<lparr>ac_ip = 0, ac_mac = replicate 6 0, ac_timestamp = 0, ac_valid = False\<rparr>,
     arp_time = 1, ping_id = 0, ping_seq = 0, replies = [], waiting_for_reply = False, expected_id = 0, expected_seq = 0, reply_received = False,
     udp_handlers = [\<lparr>uh_port = 53535, uh_handler = Some Dns_Handler\<rparr>, \<lparr>uh_port = 68, uh_handler = Some Dhcp_Rx\<rparr>] @ replicate 6 \<lparr>uh_port = 0, uh_handler = None\<rparr>,
     tcp_sockets = replicate 16 \<lparr>ts_remote_ip = 0, ts_local_port = 0, ts_remote_port = 0, ts_seq_num = 0, ts_ack_num = 0, ts_state = 0, ts_in_use = False\<rparr>,
     next_port = 49152, dhcp_xid = 0x12345678, got_offer = False, got_ack = False, offer_ip = 0, server_ip = 0, dhcp_mask = 0, dhcp_gw = 0, dhcp_dns = 0,
     dns_server = 0, dns_resolved_ip = 0, dns_waiting = False, dns_query_id = 0,
     http_response_buffer = replicate 16384 0, http_response_len = 0\<rparr>"

lemma example_nic_ok [simp]: "nic_ok example_nic"
  by (simp add: nic_ok_def example_nic_def)

lemma example_host_simps [simp]:
  "net_config (example_host ip m p pm) = \<lparr>cfg_mac = m, cfg_ip = ip, cfg_netmask = 0x00FFFFFF, cfg_gateway = 0, cfg_dns = 0, cfg_configured = True\<rparr>"
  "e1000_dev (example_host ip m p pm) = example_nic" "replies (example_host ip m p pm) = []" "http_response_len (example_host ip m p pm) = 0"
  by (simp_all add: example_host_def)

lemma example_host_ok: "length m = 6 \<Longrightarrow> ip \<noteq> 0 \<Longrightarrow> host_ok (example_host ip m p pm)"
  by (simp add: host_ok_def)

lemma example_lookup: "arp_cache_lookup p (example_host ip m p pm) = Some pm"
  by (simp add: arp_cache_lookup_def ARP_CACHE_SIZE_def example_host_def)

lemma example_neighbour:
  "length pm = 6 \<Longrightarrow> p \<noteq> ip \<Longrightarrow> p \<noteq> 0xFFFFFFFF \<Longrightarrow> p AND 0x00FFFFFF = ip AND 0x00FFFFFF \<Longrightarrow> neighbour (example_host ip m p pm) p pm"
  by (simp add: neighbour_def example_lookup)

end
