(* ===== verification/Net_Hosts.thy ===== *)
theory Net_Hosts
  imports Net_Frames
begin

unbundle bit_operations_syntax

text \<open>
  Communication between hosts: what one host puts on the wire is what the other one receives. A UDP
  datagram reaches the handler of its port unchanged, and a ping is answered.
\<close>

section \<open>Receiving what was sent\<close>

lemma ipv4_packet_simps [simp]:
  "ip_dest_ip (ipv4_packet src ip protocol n) = ip" "ip_src_ip (ipv4_packet src ip protocol n) = src"
  "ip_protocol (ipv4_packet src ip protocol n) = protocol" "ip_version_ihl (ipv4_packet src ip protocol n) = 0x45"
  "ip_total_length (ipv4_packet src ip protocol n) = net_htons n"
  by (simp_all add: ipv4_packet_def Let_def)

text \<open>How the IP layer hands on a payload.\<close>

definition ip_deliver :: "ip_send \<Rightarrow> u8 \<Rightarrow> u32 \<Rightarrow> bytes \<Rightarrow> u16 \<Rightarrow> net \<Rightarrow> net option" where
  "ip_deliver send protocol src_ip d len s =
     (if protocol = IP_PROTO_ICMP then icmp_receive send src_ip d len s
      else if protocol = IP_PROTO_UDP then udp_receive src_ip d len s
      else if protocol = IP_PROTO_TCP then tcp_receive send src_ip d len s
      else Some s)"

lemma ip_frame_length: "length m = 6 \<Longrightarrow> length (cfg_mac (net_config s)) = 6 \<Longrightarrow> length (ip_frame s ip m protocol payload) = 34 + length payload"
  by (simp add: ip_frame_def)

lemma receive_ip_frame:
  assumes "length m = 6" "length (cfg_mac (net_config a)) = 6" "length payload \<le> 8158" "cfg_ip (net_config b) = ip"
  shows "net_receive_packet send (ip_frame a ip m protocol payload @ r) (of_nat (length (ip_frame a ip m protocol payload))) b =
    ip_deliver send protocol (cfg_ip (net_config a)) (payload @ r) (of_nat (length payload)) b"
proof -
  let ?h = "ipv4_packet (cfg_ip (net_config a)) ip protocol (20 + of_nat (length payload))"
  let ?eth = "m @ cfg_mac (net_config a) @ be_enc 2 ETH_TYPE_IPV4"
  have fr: "ip_frame a ip m protocol payload @ r = ?eth @ (ipv4_enc ?h @ payload @ r)" by (simp add: ip_frame_def)
  have n: "length (ip_frame a ip m protocol payload) = 34 + length payload" using assms by (simp add: ip_frame_length)
  have un: "unat (of_nat (34 + length payload) :: u16) = 34 + length payload" using assms(3) by (simp add: unat_of_nat unat_word_ariths)
  then have l: "\<not> (of_nat (34 + length payload) :: u16) < 14" "(of_nat (34 + length payload) :: u16) \<ge> 34"
    by (simp_all only: word_less_nat_alt word_le_nat_alt un) simp_all
  have et: "net_htons (le_dec (segment 12 2 ?eth)) = ETH_TYPE_IPV4"
    using assms(1,2) by (simp add: segment_split htons_dec)
  have ne: "ETH_TYPE_IPV4 \<noteq> ETH_TYPE_ARP" by (simp add: ETH_TYPE_IPV4_def ETH_TYPE_ARP_def)
  have e14: "length ?eth = 14" using assms(1,2) by simp
  have f1: "fld (?eth @ (ipv4_enc ?h @ payload @ r)) 0 14 = Some ?eth" using e14 by (rule fld_prefix)
  have f2: "rest_at (?eth @ (ipv4_enc ?h @ payload @ r)) 14 = Some (ipv4_enc ?h @ payload @ r)" using e14 by (simp add: rest_at_def)
  have f3: "fld (ipv4_enc ?h @ payload @ r) 0 20 = Some (ipv4_enc ?h)" by (rule fld_prefix) simp
  have f4: "rest_at (ipv4_enc ?h @ payload @ r) (unat (20 :: u16)) = Some (payload @ r)" by (simp add: rest_at_def)
  have "net_receive_packet send (?eth @ (ipv4_enc ?h @ payload @ r)) (of_nat (34 + length payload)) b =
    ip_deliver send protocol (cfg_ip (net_config a)) (payload @ r) (20 + of_nat (length payload) - 20) b"
    unfolding net_receive_packet_def using l
    by (simp add: f1 f2 f3 et ne assms(4) f4 [simplified] ip_deliver_def Let_def del: append_assoc)
  then show ?thesis unfolding fr n by simp
qed


section \<open>Datagrams\<close>

lemma small_len: "n \<le> 8192 \<Longrightarrow> unat (of_nat n :: u16) = n"
  by (simp add: unat_of_nat)

definition udp_packet :: "u16 \<Rightarrow> u16 \<Rightarrow> bytes \<Rightarrow> bytes" where
  "udp_packet src_port dest_port d = be_enc 2 src_port @ be_enc 2 dest_port @ be_enc 2 (of_nat (8 + length d) :: u16) @ [0, 0] @ d"

lemma udp_send_packet:
  assumes "length d \<le> 8150"
  shows "udp_send send ip sp dp (d @ r) (of_nat (length d)) s = send ip IP_PROTO_UDP (udp_packet sp dp d) (of_nat (length (udp_packet sp dp d))) s"
proof -
  have n: "unat (8 + of_nat (length d) :: u16) = 8 + length d" using small_len [of "8 + length d"] assms by simp
  have "put_at 8 d (put_at 0 (be_enc 2 sp @ be_enc 2 dp @ be_enc 2 (8 + of_nat (length d) :: u16) @ [0, 0]) (replicate (8 + length d) 0)) = udp_packet sp dp d"
    by (simp add: put_at_def udp_packet_def)
  then show ?thesis using assms
    by (simp add: udp_send_def Let_def store_def n small_len fld_prefix htons_enc udp_packet_def)
qed

lemma udp_receive_packet:
  assumes "length d \<le> 8150" "find_idx (\<lambda>e. uh_port e = dp \<and> uh_handler e \<noteq> None) (take MAX_UDP_HANDLERS (udp_handlers s)) = Some i"
    "uh_handler (udp_handlers s ! i) = Some h"
  shows "udp_receive src (udp_packet sp dp d @ r) (of_nat (length (udp_packet sp dp d))) s = call_handler h (d @ r) (of_nat (length d)) s"
proof -
  let ?hdr = "be_enc 2 sp @ be_enc 2 dp @ be_enc 2 (of_nat (8 + length d) :: u16) @ [0, 0 :: u8]"
  have p: "udp_packet sp dp d @ r = ?hdr @ (d @ r)" "length (udp_packet sp dp d) = 8 + length d" by (simp_all add: udp_packet_def)
  have n: "unat (of_nat (8 + length d) :: u16) = 8 + length d" "unat (of_nat (length d) :: u16) = length d"
    using small_len [of "8 + length d"] small_len [of "length d"] assms(1) by (simp_all del: of_nat_add)
  have l: "\<not> (of_nat (8 + length d) :: u16) < 8" by (simp only: word_less_nat_alt n(1)) simp
  have f: "fld (?hdr @ (d @ r)) 0 8 = Some ?hdr" "rest_at (?hdr @ (d @ r)) 8 = Some (d @ r)" by (rule fld_prefix) (simp_all add: rest_at_def)
  have g: "net_htons (le_dec (segment 2 2 ?hdr)) = dp" "net_htons (le_dec (segment 4 2 ?hdr)) = of_nat (8 + length d)"
    by (simp_all add: segment_split htons_dec del: of_nat_add)
  have "(of_nat (8 + length d) - 8 :: u16) = of_nat (length d)" by simp
  then show ?thesis unfolding p udp_receive_def using l
    by (simp only: f g if_False bind.bind_lunit Let_def assms(2) option.case n) (simp add: assms(3))
qed

text \<open>
  A UDP datagram reaches its destination unchanged: sending to a neighbour puts one frame on the
  wire, and when the other host receives it, the first handler registered for the destination port is
  called with exactly the data that was sent.
\<close>

theorem udp_delivery:
  assumes "host_ok a" and "neighbour a ip m" and "cfg_ip (net_config b) = ip" and "length d \<le> 8150"
    and "find_idx (\<lambda>e. uh_port e = dp \<and> uh_handler e \<noteq> None) (take MAX_UDP_HANDLERS (udp_handlers b)) = Some i"
    and "uh_handler (udp_handlers b ! i) = Some h"
  shows "\<exists>fr a'. udp_send (net_send_ipv4 (Suc depth)) ip sp dp d (of_nat (length d)) a = Some (0, a') \<and> transmits fr a a' \<and>
    (\<forall>send pad. net_receive_packet send (fr @ pad) (of_nat (length fr)) b = call_handler h (d @ pad) (of_nat (length d)) b)"
proof -
  let ?p = "udp_packet sp dp d"
  have pl: "length ?p \<le> 8158" using assms(4) by (simp add: udp_packet_def)
  have m: "length m = 6" "length (cfg_mac (net_config a)) = 6" using assms(1,2) by (simp_all add: neighbour_def host_ok_def)
  obtain a' where a': "net_send_ipv4 (Suc depth) ip IP_PROTO_UDP (?p @ []) (of_nat (length ?p)) a = Some (0, a')"
    "transmits (ip_frame a ip m IP_PROTO_UDP ?p) a a'"
    using send_ipv4_transmits [OF assms(1,2) pl] by blast
  have "udp_send (net_send_ipv4 (Suc depth)) ip sp dp d (of_nat (length d)) a = Some (0, a')"
    using udp_send_packet [OF assms(4), of "net_send_ipv4 (Suc depth)" ip sp dp "[]" a] a'(1) by simp
  moreover have "net_receive_packet send (ip_frame a ip m IP_PROTO_UDP ?p @ pad) (of_nat (length (ip_frame a ip m IP_PROTO_UDP ?p))) b =
      call_handler h (d @ pad) (of_nat (length d)) b" for send pad
    unfolding receive_ip_frame [OF m pl assms(3)] ip_deliver_def
    using udp_receive_packet [OF assms(4-6), of "cfg_ip (net_config a)" sp pad] by (simp add: IP_PROTO_UDP_def IP_PROTO_ICMP_def)
  ultimately show ?thesis using a'(2) by blast
qed

text \<open>The hypotheses hold for a DNS answer sent between two example hosts.\<close>

theorem udp_delivery_witness:
  "\<exists>fr a'. udp_send (net_send_ipv4 1) 0x0200000A 53 53535 [1, 2, 3] 3 (example_host 0x0100000A [2, 0, 0, 0, 0, 1] 0x0200000A [2, 0, 0, 0, 0, 2]) = Some (0, a') \<and>
    transmits fr (example_host 0x0100000A [2, 0, 0, 0, 0, 1] 0x0200000A [2, 0, 0, 0, 0, 2]) a' \<and>
    (\<forall>send pad. net_receive_packet send (fr @ pad) (of_nat (length fr)) (example_host 0x0200000A [2, 0, 0, 0, 0, 2] 0x0100000A [2, 0, 0, 0, 0, 1]) =
       dns_handler (1 # 2 # 3 # pad) 3 (example_host 0x0200000A [2, 0, 0, 0, 0, 2] 0x0100000A [2, 0, 0, 0, 0, 1]))"
proof -
  let ?b = "example_host 0x0200000A [2, 0, 0, 0, 0, 2] 0x0100000A [2, 0, 0, 0, 0, 1]"
  have i: "find_idx (\<lambda>e. uh_port e = 53535 \<and> uh_handler e \<noteq> None) (take MAX_UDP_HANDLERS (udp_handlers ?b)) = Some 0"
    "uh_handler (udp_handlers ?b ! 0) = Some Dns_Handler"
    by (simp_all add: example_host_def MAX_UDP_HANDLERS_def)
  show ?thesis
    using udp_delivery [OF example_host_ok [of "[2, 0, 0, 0, 0, 1]" "0x0100000A"] example_neighbour [of "[2, 0, 0, 0, 0, 2]" "0x0200000A" "0x0100000A"] _ _ i,
        of "[1, 2, 3]" 0 53] by (simp add: call_handler_def)
qed

section \<open>Ping\<close>

text \<open>An ICMP echo message with its checksum.\<close>

definition echo_packet :: "u8 \<Rightarrow> u16 \<Rightarrow> u16 \<Rightarrow> bytes \<Rightarrow> bytes" where
  "echo_packet ty i sq d = [ty, 0] @ le_enc 2 (net_checksum ([ty, 0, 0, 0] @ be_enc 2 i @ be_enc 2 sq @ d)) @ be_enc 2 i @ be_enc 2 sq @ d"

definition ping_data :: bytes where
  "ping_data = map (\<lambda>k. 0x41 + of_nat (k mod 26)) [0..<ICMP_PING_DATA_SIZE]"

lemma length_ping_data [simp]: "length ping_data = 56"
  by (simp add: ping_data_def ICMP_PING_DATA_SIZE_def)

lemma length_echo [simp]: "length (echo_packet ty i sq d) = 8 + length d"
  by (simp add: echo_packet_def)

lemma put_checksum: "put_at 2 (le_enc 2 c) (ty # 0 # 0 # 0 # r) = [ty, 0] @ le_enc 2 (c :: u16) @ r"
  by (simp add: put_at_def)

lemma send_ping_packet: "icmp_send_ping send ip i sq s = send ip IP_PROTO_ICMP (echo_packet 8 i sq ping_data) 64 s"
  by (simp add: icmp_send_ping_def Let_def htons_enc put_checksum echo_packet_def ping_data_def [symmetric] ICMP_PING_DATA_SIZE_def [symmetric])
    (simp add: ICMP_PING_DATA_SIZE_def)

text \<open>An echo request is answered with the same identifier, sequence number and data.\<close>

lemma echo_request_answered:
  assumes "length d \<le> 8150"
  shows "icmp_receive send src (echo_packet 8 i sq d @ r) (of_nat (8 + length d)) s =
    map_option snd (send src IP_PROTO_ICMP (echo_packet 0 i sq d) (of_nat (8 + length d)) s)"
proof -
  let ?hdr = "[8, 0] @ le_enc 2 (net_checksum ([8, 0, 0, 0] @ be_enc 2 i @ be_enc 2 sq @ d)) @ be_enc 2 i @ be_enc 2 sq"
  have p: "echo_packet 8 i sq d @ r = ?hdr @ (d @ r)" "echo_packet 8 i sq d = ?hdr @ d" by (simp_all add: echo_packet_def)
  have n: "unat (of_nat (8 + length d) :: u16) = 8 + length d" using small_len [of "8 + length d"] assms by (simp del: of_nat_add)
  have l: "\<not> (of_nat (8 + length d) :: u16) < 8" by (simp only: word_less_nat_alt n) simp
  have f: "fld (?hdr @ (d @ r)) 0 8 = Some ?hdr" by (rule fld_prefix) simp
  have f2: "fld (?hdr @ (d @ r)) 0 (8 + length d) = Some (?hdr @ d)"
    using fld_prefix [of "?hdr @ d" "8 + length d" r] by simp
  have g: "?hdr ! 0 = 8" "segment 4 4 ?hdr = be_enc 2 i @ be_enc 2 sq" "drop 8 (?hdr @ d) = d"
    by (simp_all add: segment_split)
  show ?thesis unfolding p(1) icmp_receive_def using l
    by (simp only: f f2 g n if_False if_True bind.bind_lunit Let_def)
      (simp add: put_checksum echo_packet_def, cases "send src IP_PROTO_ICMP (echo_packet 0 i sq d) (of_nat (8 + length d)) s",
        simp_all add: echo_packet_def split_beta)
qed

lemma echo_reply_recorded:
  assumes "length d \<le> 8150" "length (replies s) < 16"
  shows "\<exists>s'. icmp_receive send src (echo_packet 0 i sq d @ r) (of_nat (8 + length d)) s = Some s' \<and> check_reply_in_array i sq s'"
proof -
  let ?hdr = "[0, 0] @ le_enc 2 (net_checksum ([0, 0, 0, 0] @ be_enc 2 i @ be_enc 2 sq @ d)) @ be_enc 2 i @ be_enc 2 sq"
  have p: "echo_packet 0 i sq d @ r = ?hdr @ (d @ r)" by (simp add: echo_packet_def)
  have n: "unat (of_nat (8 + length d) :: u16) = 8 + length d" using small_len [of "8 + length d"] assms(1) by (simp del: of_nat_add)
  have l: "\<not> (of_nat (8 + length d) :: u16) < 8" by (simp only: word_less_nat_alt n) simp
  have f: "fld (?hdr @ (d @ r)) 0 8 = Some ?hdr" by (rule fld_prefix) simp
  have g: "?hdr ! 0 = 0" "net_htons (le_dec (segment 4 2 ?hdr)) = i" "net_htons (le_dec (segment 6 2 ?hdr)) = sq"
    by (simp_all add: segment_split htons_dec)
  have z: "(0 :: u8) \<noteq> 8" by simp
  show ?thesis unfolding p icmp_receive_def using l assms(2)
    by (simp only: f g z if_False if_True bind.bind_lunit Let_def)
      (auto simp: check_reply_in_array_def MAX_REPLIES_def)
qed


lemma transmits_host: "transmits fr s s' \<Longrightarrow> host_ok s \<Longrightarrow> host_ok s'"
  using transmits_simps [of fr s s'] by (simp add: host_ok_def)

text \<open>
  C35: Ping works between neighbours: the request that one host sends makes the other one send exactly
  one frame, and that frame makes the first host record a reply with the identifier and sequence
  number of the request.
\<close>

theorem ping_roundtrip:
  assumes "host_ok a" and "host_ok b" and "neighbour a (cfg_ip (net_config b)) mb" and "neighbour b (cfg_ip (net_config a)) ma"
    and "length (replies a) < 16"
  shows "\<exists>f1 a1 f2. icmp_send_ping (net_send_ipv4 (Suc depth)) (cfg_ip (net_config b)) i sq a = Some (0, a1) \<and> transmits f1 a a1 \<and>
    (\<forall>pad. \<exists>b1. net_receive_packet (net_send_ipv4 (Suc depth)) (f1 @ pad) (of_nat (length f1)) b = Some b1 \<and> transmits f2 b b1) \<and>
    (\<forall>send pad. \<exists>a2. net_receive_packet send (f2 @ pad) (of_nat (length f2)) a1 = Some a2 \<and> check_reply_in_array i sq a2)"
proof -
  let ?q = "echo_packet 8 i sq ping_data" and ?r = "echo_packet 0 i sq ping_data"
  let ?f1 = "ip_frame a (cfg_ip (net_config b)) mb IP_PROTO_ICMP ?q" and ?f2 = "ip_frame b (cfg_ip (net_config a)) ma IP_PROTO_ICMP ?r"
  have m: "length mb = 6" "length ma = 6" "length (cfg_mac (net_config a)) = 6" "length (cfg_mac (net_config b)) = 6"
    using assms(1-4) by (simp_all add: neighbour_def host_ok_def)
  have l: "length ?q \<le> 8158" "length ?r \<le> 8158" "length ping_data \<le> 8150" "(of_nat (length ?q) :: u16) = 64" "(of_nat (length ?r) :: u16) = 64" by simp_all
  obtain a1 where a1: "net_send_ipv4 (Suc depth) (cfg_ip (net_config b)) IP_PROTO_ICMP (?q @ []) (of_nat (length ?q)) a = Some (0, a1)" "transmits ?f1 a a1"
    using send_ipv4_transmits [OF assms(1,3) l(1)] by blast
  have s: "icmp_send_ping (net_send_ipv4 (Suc depth)) (cfg_ip (net_config b)) i sq a = Some (0, a1)"
    unfolding send_ping_packet using a1(1) unfolding l(4) append_Nil2 .
  have "\<exists>b1. net_receive_packet (net_send_ipv4 (Suc depth)) (?f1 @ pad) (of_nat (length ?f1)) b = Some b1 \<and> transmits ?f2 b b1" for pad
  proof -
    obtain b1 where b1: "net_send_ipv4 (Suc depth) (cfg_ip (net_config a)) IP_PROTO_ICMP (?r @ []) (of_nat (length ?r)) b = Some (0, b1)" "transmits ?f2 b b1"
      using send_ipv4_transmits [OF assms(2,4) l(2)] by blast
    have "net_receive_packet (net_send_ipv4 (Suc depth)) (?f1 @ pad) (of_nat (length ?f1)) b = Some b1"
      unfolding receive_ip_frame [OF m(1,3) l(1) refl]
      using echo_request_answered [OF l(3), of "net_send_ipv4 (Suc depth)" "cfg_ip (net_config a)" i sq pad b] b1(1)
      by (simp add: ip_deliver_def)
    with b1(2) show ?thesis by blast
  qed
  moreover have "\<exists>a2. net_receive_packet send (?f2 @ pad) (of_nat (length ?f2)) a1 = Some a2 \<and> check_reply_in_array i sq a2" for send pad
  proof -
    have "length (replies a1) < 16" "cfg_ip (net_config a1) = cfg_ip (net_config a)" using transmits_simps [OF a1(2)] assms(5) by simp_all
    then show ?thesis
      using receive_ip_frame [OF m(2,4) l(2), of a1 "cfg_ip (net_config a)" send IP_PROTO_ICMP pad] echo_reply_recorded [OF l(3), of a1 send "cfg_ip (net_config b)" i sq pad]
      by (simp add: ip_deliver_def)
  qed
  ultimately show ?thesis using s a1(2) by blast
qed

text \<open>The hypotheses hold for two example hosts that know each other.\<close>

theorem ping_roundtrip_witness:
  "\<exists>f1 a1 f2. icmp_send_ping (net_send_ipv4 1) 0x0200000A 7 1 (example_host 0x0100000A [2, 0, 0, 0, 0, 1] 0x0200000A [2, 0, 0, 0, 0, 2]) = Some (0, a1) \<and>
    (\<forall>send pad. \<exists>a2. net_receive_packet send (f2 @ pad) (of_nat (length f2)) a1 = Some a2 \<and> check_reply_in_array 7 1 a2)"
proof -
  let ?a = "example_host 0x0100000A [2, 0, 0, 0, 0, 1] 0x0200000A [2, 0, 0, 0, 0, 2]" and ?b = "example_host 0x0200000A [2, 0, 0, 0, 0, 2] 0x0100000A [2, 0, 0, 0, 0, 1]"
  have h: "host_ok ?a" "host_ok ?b" by (rule example_host_ok; simp)+
  have n: "neighbour ?a (cfg_ip (net_config ?b)) [2, 0, 0, 0, 0, 2]" "neighbour ?b (cfg_ip (net_config ?a)) [2, 0, 0, 0, 0, 1]"
    by (simp_all add: example_neighbour)
  show ?thesis using ping_roundtrip [OF h n, of 0 7 1] by auto
qed

section \<open>An unresolved peer\<close>

text \<open>
  The receive ring holds an echo request from a host of the network whose hardware address is not
  known; what arrives later does not overwrite the descriptor, which is still marked as received.
\<close>

definition echo_pending :: "u32 \<Rightarrow> u16 \<Rightarrow> u16 \<Rightarrow> bytes \<Rightarrow> net \<Rightarrow> bool" where
  "echo_pending ip i sq d s \<longleftrightarrow> host_ok s \<and> arp_cache_lookup ip s = None \<and>
     (\<forall>f \<in> set (e_arrivals (e1000_dev s)). \<forall>ds. f ds ! e_rx_cur (e1000_dev s) = ds ! e_rx_cur (e1000_dev s)) \<and>
     ip \<noteq> cfg_ip (net_config s) \<and> ip \<noteq> 0xFFFFFFFF \<and> ip AND cfg_netmask (net_config s) = cfg_ip (net_config s) AND cfg_netmask (net_config s) \<and>
     (\<exists>a m pad. let fr = ip_frame a (cfg_ip (net_config s)) m IP_PROTO_ICMP (echo_packet 8 i sq d) in
        cfg_ip (net_config a) = ip \<and> length m = 6 \<and> length (cfg_mac (net_config a)) = 6 \<and>
        e_rx_descs (e1000_dev s) ! e_rx_cur (e1000_dev s) = \<lparr>rx_buffer = fr @ pad, rx_length = of_nat (length fr), rx_status = 1\<rparr>)"

lemma echo_pending_transmits: "transmits fr s s' \<Longrightarrow> echo_pending ip i sq d s \<Longrightarrow> echo_pending ip i sq d s'"
  using transmits_simps [of fr s s'] transmits_host [of fr s s'] by (simp add: echo_pending_def arp_cache_lookup_def)

lemma echo_pending_arrive:
  assumes "echo_pending ip i sq d s"
  shows "echo_pending ip i sq d (nic_arrive s)"
proof (cases "e_arrivals (e1000_dev s)")
  case (Cons f fs)
  with assms have "f ds ! e_rx_cur (e1000_dev s) = ds ! e_rx_cur (e1000_dev s)" for ds by (simp add: echo_pending_def)
  with Cons assms show ?thesis by (simp add: echo_pending_def nic_arrive_def Let_def host_ok_def nic_ok_def arp_cache_lookup_def)
qed (use assms in \<open>simp add: nic_arrive_def\<close>)

text \<open>The frame that asks the network for the hardware address of a host.\<close>

definition arp_request_frame :: "net \<Rightarrow> u32 \<Rightarrow> bytes" where
  "arp_request_frame s ip = replicate 6 0xFF @ cfg_mac (net_config s) @ be_enc 2 ETH_TYPE_ARP @
     arp_enc \<lparr>arp_hw_type = net_htons 1, arp_proto_type = net_htons ETH_TYPE_IPV4, arp_hw_addr_len = 6, arp_proto_addr_len = 4,
       arp_operation = net_htons 1, arp_sender_hw_addr = cfg_mac (net_config s), arp_sender_proto_addr = cfg_ip (net_config s),
       arp_target_hw_addr = replicate 6 0, arp_target_proto_addr = ip\<rparr>"

lemma arp_request_transmits:
  assumes "host_ok s"
  shows "\<exists>s'. arp_send_request ip s = Some s' \<and> transmits (arp_request_frame s ip) s s'"
proof -
  let ?req = "\<lparr>arp_hw_type = net_htons 1, arp_proto_type = net_htons ETH_TYPE_IPV4, arp_hw_addr_len = 6, arp_proto_addr_len = 4,
    arp_operation = net_htons 1, arp_sender_hw_addr = cfg_mac (net_config s), arp_sender_proto_addr = cfg_ip (net_config s),
    arp_target_hw_addr = replicate 6 0, arp_target_proto_addr = ip\<rparr>"
  have h: "nic_ok (e1000_dev s)" "length (cfg_mac (net_config s)) = 6" using assms by (simp_all add: host_ok_def)
  have n: "length (arp_enc ?req) = 28" using h(2) by (intro arp_enc_length) simp_all
  then have "length (arp_enc ?req) \<le> 8178" by simp
  from ethernet_transmits [OF h(1) _ h(2) this, of "replicate 6 0xFF" ETH_TYPE_ARP "[]"] obtain s' where
    "net_send_ethernet (replicate 6 0xFF) ETH_TYPE_ARP (arp_enc ?req) 28 s = Some (0, s')" "transmits (arp_request_frame s ip) s s'"
    unfolding n arp_request_frame_def by auto
  then show ?thesis by (simp add: arp_send_request_def Let_def)
qed

text \<open>
  What is left of the handling of the request when the first poll of the address resolution has come
  back: the other polls, sending the answer if the address was found, releasing the descriptor, and
  the rest of the receive loop.
\<close>

definition rest_of_resolve :: "(net \<Rightarrow> net option) \<Rightarrow> u32 \<Rightarrow> net \<Rightarrow> (bytes option \<times> net) option" where
  "rest_of_resolve poll ip s = do {
     s \<leftarrow> poll_times poll 19 s;
     (r, s) \<leftarrow> (case arp_cache_lookup ip s of Some m \<Rightarrow> Some (Some m, s) | None \<Rightarrow> arp_wait poll ip 499 s);
     case r of Some m \<Rightarrow> Some (Some m, s) | None \<Rightarrow> arp_retry poll ip 2 s }"

definition release_then :: "ip_send \<Rightarrow> nat \<Rightarrow> net \<Rightarrow> net option" where
  "release_then send idx s = do {
     let e = e1000_dev s;
     let s = s\<lparr>e1000_dev := e\<lparr>e_rx_descs := (e_rx_descs e)[idx := (e_rx_descs e ! idx)\<lparr>rx_status := 0\<rparr>]\<rparr>\<rparr>;
     (idx, s) \<leftarrow> rx_loop (net_receive_packet send) ((idx + 1) mod 32) s;
     Some (s\<lparr>e1000_dev := (e1000_dev s)\<lparr>e_rx_cur := idx\<rparr>\<rparr>) }"

definition rest_of_interrupt :: "ip_send \<Rightarrow> u32 \<Rightarrow> bytes \<Rightarrow> nat \<Rightarrow> net \<Rightarrow> net option" where
  "rest_of_interrupt send ip packet idx s = do {
     (r, s) \<leftarrow> rest_of_resolve (e1000_interrupt send) ip s;
     s \<leftarrow> (case r of None \<Rightarrow> Some s | Some m \<Rightarrow> map_option snd (net_send_ethernet m ETH_TYPE_IPV4 packet (of_nat (length packet)) s));
     release_then (ipv4_body send) idx s }"

definition echo_answer :: "net \<Rightarrow> u32 \<Rightarrow> u16 \<Rightarrow> u16 \<Rightarrow> bytes \<Rightarrow> bytes" where
  "echo_answer s ip i sq d = ipv4_enc (ipv4_packet (cfg_ip (net_config s)) ip IP_PROTO_ICMP (28 + of_nat (length d))) @ echo_packet 0 i sq d"

lemma arp_resolve_polls:
  assumes "arp_cache_lookup ip s = None" "arp_send_request ip s = Some s'"
  shows "arp_resolve poll ip s = Option.bind (poll s') (rest_of_resolve poll ip)"
proof -
  have n: "(3 :: nat) = Suc 2" "(500 :: nat) = Suc 499" "(20 :: nat) = Suc 19" by simp_all
  show ?thesis unfolding arp_resolve_def n arp_retry.simps arp_wait.simps poll_times.simps assms option.case bind.bind_lunit
    by (cases "poll s'") (simp_all add: rest_of_resolve_def split: option.split)
qed

lemma send_answer_polls:
  assumes "echo_pending ip i sq d s" "length d \<le> 8150" "arp_send_request ip s = Some s'"
  shows "ipv4_body send ip IP_PROTO_ICMP (echo_packet 0 i sq d) (of_nat (8 + length d)) s =
    Option.bind (Option.bind (e1000_interrupt send s') (rest_of_resolve (e1000_interrupt send) ip))
      (\<lambda>(r, s'). case r of None \<Rightarrow> Some (-1, s')
        | Some m \<Rightarrow> net_send_ethernet m ETH_TYPE_IPV4 (echo_answer s ip i sq d) (of_nat (length (echo_answer s ip i sq d))) s')"
proof -
  let ?p = "echo_packet 0 i sq d"
  let ?ip = "ipv4_enc (ipv4_packet (cfg_ip (net_config s)) ip IP_PROTO_ICMP (20 + of_nat (8 + length d)))"
  have pend: "arp_cache_lookup ip s = None" "ip \<noteq> cfg_ip (net_config s)" "cfg_configured (net_config s)" "ip \<noteq> 0xFFFFFFFF"
    "ip AND cfg_netmask (net_config s) = cfg_ip (net_config s) AND cfg_netmask (net_config s)"
    using assms(1) by (simp_all add: echo_pending_def host_ok_def)
  have len: "unat (of_nat (8 + length d) :: u16) = 8 + length d" "unat (20 + of_nat (8 + length d) :: u16) = 28 + length d"
    using small_len [of "8 + length d"] small_len [of "28 + length d"] assms(2) by simp_all
  have b: "put_at 20 ?p (put_at 0 ?ip (replicate (28 + length d) 0)) = ?ip @ ?p" by (simp add: put_at_def)
  have a: "?ip @ ?p = echo_answer s ip i sq d" by (simp add: echo_answer_def)
  have n: "(20 + of_nat (8 + length d) :: u16) = of_nat (length (echo_answer s ip i sq d))" by (simp add: echo_answer_def)
  have r: "net_route send (cfg_ip (net_config s)) ip s = Option.bind (e1000_interrupt send s') (rest_of_resolve (e1000_interrupt send) ip)"
    using pend arp_resolve_polls [OF pend(1) assms(3)] by (simp add: net_route_def Let_def)
  have "ipv4_body send ip IP_PROTO_ICMP ?p (of_nat (8 + length d)) s =
    Option.bind (net_route send (cfg_ip (net_config s)) ip s)
      (\<lambda>(r, s'). case r of None \<Rightarrow> Some (-1, s') | Some m \<Rightarrow> net_send_ethernet m ETH_TYPE_IPV4 (?ip @ ?p) (20 + of_nat (8 + length d)) s')"
    using pend(2,3) len b by (simp add: ipv4_body_def Let_def store_def del: of_nat_add)
  then show ?thesis unfolding a unfolding r n .
qed

text \<open>Polling handles the request first.\<close>

lemma interrupt_echo:
  assumes "echo_pending ip i sq d s" "length d \<le> 8150"
  shows "e1000_interrupt send s = Option.bind (map_option snd (send ip IP_PROTO_ICMP (echo_packet 0 i sq d) (of_nat (8 + length d)) (nic_arrive s)))
    (release_then send (e_rx_cur (e1000_dev s)))"
proof -
  define t where "t = nic_arrive s"
  let ?e = "e1000_dev t"
  have t: "echo_pending ip i sq d t" "e_rx_cur ?e = e_rx_cur (e1000_dev s)" "e_initialized (e1000_dev s)"
    using echo_pending_arrive [OF assms(1)] assms(1)
    by (auto simp: t_def nic_arrive_def Let_def echo_pending_def host_ok_def nic_ok_def split: list.split)
  obtain a m pad where a: "cfg_ip (net_config a) = ip" "length m = 6" "length (cfg_mac (net_config a)) = 6"
    "e_rx_descs ?e ! e_rx_cur ?e = \<lparr>rx_buffer = ip_frame a (cfg_ip (net_config t)) m IP_PROTO_ICMP (echo_packet 8 i sq d) @ pad,
       rx_length = of_nat (length (ip_frame a (cfg_ip (net_config t)) m IP_PROTO_ICMP (echo_packet 8 i sq d))), rx_status = 1\<rparr>"
    using t(1) unfolding echo_pending_def Let_def by blast
  have l: "length (echo_packet 8 i sq d) \<le> 8158" using assms(2) by simp
  have r: "net_receive_packet send (rx_buffer (e_rx_descs ?e ! e_rx_cur ?e)) (rx_length (e_rx_descs ?e ! e_rx_cur ?e)) t =
      map_option snd (send ip IP_PROTO_ICMP (echo_packet 0 i sq d) (of_nat (8 + length d)) t)"
    unfolding a(4) rx_desc.simps receive_ip_frame [OF a(2,3) l refl]
    using echo_request_answered [OF assms(2), of send ip i sq pad t] by (simp add: ip_deliver_def a(1))
  have "rx_status (e_rx_descs ?e ! e_rx_cur ?e) AND 1 \<noteq> 0" by (simp add: a(4))
  then show ?thesis using t(3) unfolding e1000_interrupt_def e1000_poll_def Let_def
    by (subst rx_loop.simps) (simp add: t_def [symmetric] r [unfolded t(2)] Let_def release_then_def [abs_def] t(2) bind_assoc del: of_nat_add)
qed

text \<open>Handling the request reaches a poll with the request still pending and one more frame on the wire.\<close>

lemma echo_polls_again:
  assumes "echo_pending ip i sq d s" "length d \<le> 8150"
  shows "\<exists>s'. transmits (arp_request_frame s ip) (nic_arrive s) s' \<and> echo_pending ip i sq d s' \<and>
    (\<forall>send. e1000_interrupt (ipv4_body send) s =
       Option.bind (e1000_interrupt send s') (rest_of_interrupt send ip (echo_answer s ip i sq d) (e_rx_cur (e1000_dev s))))"
proof -
  let ?t = "nic_arrive s"
  have t: "echo_pending ip i sq d ?t" "net_config ?t = net_config s"
    using echo_pending_arrive [OF assms(1)] by (auto simp: nic_arrive_def Let_def split: list.split)
  then have "host_ok ?t" by (simp add: echo_pending_def)
  then obtain s' where s': "arp_send_request ip ?t = Some s'" "transmits (arp_request_frame s ip) ?t s'"
    using arp_request_transmits [of ?t ip] t(2) by (auto simp: arp_request_frame_def)
  have ans: "echo_answer ?t ip i sq d = echo_answer s ip i sq d" by (simp add: echo_answer_def t(2))
  have "e1000_interrupt (ipv4_body send) s =
      Option.bind (e1000_interrupt send s') (rest_of_interrupt send ip (echo_answer s ip i sq d) (e_rx_cur (e1000_dev s)))" for send
    unfolding interrupt_echo [OF assms] send_answer_polls [OF t(1) assms(2) s'(1)] ans rest_of_interrupt_def
    by (cases "e1000_interrupt send s'")
      (auto simp: map_option_bind intro!: arg_cong [where f = "Option.bind (rest_of_resolve _ _ _)"] ext split: option.split)
  with s'(2) echo_pending_transmits [OF s'(2) t(1)] show ?thesis by blast
qed

lemma echo_never_handled:
  assumes "length d \<le> 8150"
  shows "echo_pending ip i sq d s \<Longrightarrow> e1000_interrupt (net_send_ipv4 depth) s = None"
proof (induction depth arbitrary: s)
  case 0
  then show ?case using interrupt_echo [OF 0 assms] by simp
next
  case (Suc depth)
  then show ?case using echo_polls_again [OF Suc.prems assms] by auto
qed

text \<open>
  C40: An echo request, with any identifier, sequence number and data, from a host of the network
  whose hardware address is unknown is never finished. Handling it puts exactly one request for the
  address on the wire and, without an error, comes to a poll of the card while the echo request is
  still marked as received; only when that poll returns does the rest of the handler run. The poll
  handles the same echo request again, whatever has arrived in the other descriptors meanwhile: so at
  no depth of nesting does the handler return.
\<close>

theorem unresolved_echo_never_returns:
  assumes "echo_pending ip i sq d s" and "length d \<le> 8150"
  shows "(\<exists>s'. transmits (arp_request_frame s ip) (nic_arrive s) s' \<and> echo_pending ip i sq d s' \<and>
      (\<forall>send. e1000_interrupt (ipv4_body send) s =
         Option.bind (e1000_interrupt send s') (rest_of_interrupt send ip (echo_answer s ip i sq d) (e_rx_cur (e1000_dev s))))) \<and>
    (\<forall>depth. e1000_interrupt_handler depth s = None)"
  using echo_polls_again [OF assms] echo_never_handled [OF assms(2,1)] unfolding e1000_interrupt_handler_def by blast

text \<open>
  The hypotheses hold for an example host with such a request in the current descriptor, where
  another frame is to arrive in the next one.
\<close>

definition example_pending :: net where
  "example_pending =
     (let s = example_host 0x0200000A [2, 0, 0, 0, 0, 2] 0x0300000A [2, 0, 0, 0, 0, 3];
          fr = ip_frame (example_host 0x0100000A [2, 0, 0, 0, 0, 1] 0 []) 0x0200000A [2, 0, 0, 0, 0, 2] IP_PROTO_ICMP (echo_packet 8 7 1 [5])
      in s\<lparr>e1000_dev := example_nic\<lparr>e_rx_descs := (e_rx_descs example_nic)[0 := \<lparr>rx_buffer = fr @ [], rx_length = of_nat (length fr), rx_status = 1\<rparr>],
             e_arrivals := [\<lambda>ds. ds[1 := \<lparr>rx_buffer = replicate 8192 0, rx_length = 60, rx_status = 1\<rparr>]]\<rparr>\<rparr>)"

theorem unresolved_echo_never_returns_witness:
  "e1000_interrupt_handler 10 example_pending = None \<and>
   (\<exists>s'. transmits (arp_request_frame example_pending 0x0100000A) (nic_arrive example_pending) s' \<and> echo_pending 0x0100000A 7 1 [5] s')"
proof -
  have "host_ok example_pending" by (simp add: example_pending_def Let_def host_ok_def nic_ok_def example_nic_def)
  moreover have "arp_cache_lookup 0x0100000A example_pending = None"
    by (simp add: example_pending_def Let_def arp_cache_lookup_def ARP_CACHE_SIZE_def example_host_def find_idx_None_iff)
  ultimately have "echo_pending 0x0100000A 7 1 [5] example_pending" unfolding echo_pending_def
    by (intro conjI exI [of _ "example_host 0x0100000A [2, 0, 0, 0, 0, 1] 0 []"] exI [of _ "[2, 0, 0, 0, 0, 2]"] exI [of _ "[]"])
      (simp_all add: example_pending_def Let_def example_nic_def del: append_Nil2)
  from unresolved_echo_never_returns [OF this] show ?thesis by auto
qed


end
