(* ===== verification/Net_Arp.thy ===== *)
theory Net_Arp
  imports Net_Hosts
begin

text \<open>
  The address cache: as a table it never returns anything but the latest binding of an address, an
  added binding is found, and only the oldest binding is given up for a new one.
\<close>

section \<open>Tables that may forget\<close>

text \<open>
  What a user of a cache relies on: an added binding is found when there is room for it, and every
  binding that is found was there before or has just been added.
\<close>

locale forgetful_table =
  fixes inv :: "'s \<Rightarrow> bool" and room :: "'s \<Rightarrow> bool" and add :: "'k \<Rightarrow> 'v \<Rightarrow> 's \<Rightarrow> 's" and lookup :: "'k \<Rightarrow> 's \<Rightarrow> 'v option"
  assumes add_inv: "inv s \<Longrightarrow> inv (add k v s)"
    and lookup_added: "inv s \<Longrightarrow> room s \<Longrightarrow> lookup k (add k v s) = Some v"
    and lookup_new: "inv s \<Longrightarrow> lookup k (add k v s) = Some w \<Longrightarrow> w = v"
    and lookup_old: "inv s \<Longrightarrow> k' \<noteq> k \<Longrightarrow> lookup k' (add k v s) = Some w \<Longrightarrow> lookup k' s = Some w"
begin

definition add_all :: "('k \<times> 'v) list \<Rightarrow> 's \<Rightarrow> 's" where
  "add_all kvs = fold (\<lambda>(k, v). add k v) kvs"

lemma add_all_inv: "inv s \<Longrightarrow> inv (add_all kvs s)"
  by (induction kvs arbitrary: s) (auto simp: add_all_def add_inv)

lemma never_stale:
  "inv s \<Longrightarrow> lookup k (add_all kvs s) = Some w \<Longrightarrow>
    map_of (rev kvs) k = Some w \<or> k \<notin> fst ` set kvs \<and> lookup k s = Some w"
proof (induction kvs arbitrary: w rule: rev_induct)
  case (snoc kv kvs)
  obtain k1 v1 where kv: "kv = (k1, v1)" by (cases kv)
  have e: "add_all (kvs @ [kv]) s = add k1 v1 (add_all kvs s)" by (simp add: add_all_def kv)
  note i = add_all_inv [OF snoc.prems(1), of kvs]
  show ?case
  proof (cases "k = k1")
    case True
    then have "w = v1" using lookup_new [OF i] snoc.prems(2) unfolding e by blast
    then show ?thesis using True by (simp add: kv)
  next
    case False
    then have "lookup k (add_all kvs s) = Some w" using lookup_old [OF i] snoc.prems(2) unfolding e by blast
    from snoc.IH [OF snoc.prems(1) this] show ?thesis using False by (auto simp: kv)
  qed
qed (simp add: add_all_def)

end

section \<open>The cache is such a table\<close>

definition arp_ok :: "net \<Rightarrow> bool" where
  "arp_ok s \<longleftrightarrow> length (arp_cache s) = 32 \<and>
     (\<forall>i < 32. \<forall>j < 32. ac_valid (arp_cache s ! i) \<and> ac_valid (arp_cache s ! j) \<and> ac_ip (arp_cache s ! i) = ac_ip (arp_cache s ! j) \<longrightarrow> i = j)"

definition arp_room :: "net \<Rightarrow> bool" where
  "arp_room s \<longleftrightarrow> (\<exists>i < 32. \<not> ac_valid (arp_cache s ! i) \<or> ac_timestamp (arp_cache s ! i) < 0xFFFFFFFF)"

text \<open>The slot that a new binding takes.\<close>

definition slot_for :: "arp_cache_entry list \<Rightarrow> nat \<Rightarrow> bool" where
  "slot_for es i \<longleftrightarrow> i < length es \<and> (\<not> ac_valid (es ! i) \<or> (\<forall>j < length es. ac_valid (es ! j) \<and> ac_timestamp (es ! i) \<le> ac_timestamp (es ! j)))"

lemma slot_for_used:
  assumes "slot_for es i" "ac_valid (es ! i)"
  shows "\<forall>e \<in> set es. ac_valid e" "\<exists>e \<in> set es. ac_ip e = ac_ip (es ! i) \<and> (\<forall>e' \<in> set es. ac_timestamp e \<le> ac_timestamp e')"
proof -
  have i: "i < length es" and a: "\<forall>j < length es. ac_valid (es ! j) \<and> ac_timestamp (es ! i) \<le> ac_timestamp (es ! j)"
    using assms by (auto simp: slot_for_def)
  show "\<forall>e \<in> set es. ac_valid e" using a by (simp add: all_set_conv_all_nth)
  have "\<forall>e' \<in> set es. ac_timestamp (es ! i) \<le> ac_timestamp e'" using a by (simp add: all_set_conv_all_nth)
  then show "\<exists>e \<in> set es. ac_ip e = ac_ip (es ! i) \<and> (\<forall>e' \<in> set es. ac_timestamp e \<le> ac_timestamp e')" using i by (metis nth_mem)
qed

lemma arp_slot_scan:
  assumes "arp_slot es i oldest idx = r"
  shows "(\<exists>k < length es. \<not> ac_valid (es ! k) \<and> r = int (i + k)) \<or>
    (\<forall>e \<in> set es. ac_valid e) \<and>
      (r = idx \<and> (\<forall>e \<in> set es. oldest \<le> ac_timestamp e) \<or>
       (\<exists>k < length es. r = int (i + k) \<and> ac_timestamp (es ! k) < oldest \<and> (\<forall>e \<in> set es. ac_timestamp (es ! k) \<le> ac_timestamp e)))"
  using assms
proof (induction es i oldest idx rule: arp_slot.induct)
  case (2 e es i oldest idx)
  show ?case
  proof (cases "ac_valid e")
    case False
    then show ?thesis using "2.prems" by (intro disjI1 exI [of _ 0]) simp
  next
    case v: True
    show ?thesis
    proof (cases "ac_timestamp e < oldest")
      case True
      then have "arp_slot es (i + 1) (ac_timestamp e) (int i) = r" using "2.prems" v by simp
      from "2.IH"(1) [OF _ True this] v consider
        (free) k where "k < length es" "\<not> ac_valid (es ! k)" "r = int (i + 1 + k)"
        | (first) "\<forall>e \<in> set es. ac_valid e" "r = int i" "\<forall>x \<in> set es. ac_timestamp e \<le> ac_timestamp x"
        | (later) k where "\<forall>e \<in> set es. ac_valid e" "k < length es" "r = int (i + 1 + k)" "ac_timestamp (es ! k) < ac_timestamp e"
            "\<forall>x \<in> set es. ac_timestamp (es ! k) \<le> ac_timestamp x"
        by auto
      then show ?thesis
      proof cases
        case free
        then show ?thesis by (intro disjI1 exI [of _ "Suc k"]) simp
      next
        case first
        then show ?thesis using v True by (intro disjI2 conjI disjI2 exI [of _ 0]) auto
      next
        case later
        then show ?thesis using v True by (intro disjI2 conjI disjI2 exI [of _ "Suc k"]) auto
      qed
    next
      case False
      then have "arp_slot es (i + 1) oldest idx = r" using "2.prems" v by simp
      from "2.IH"(2) [OF _ False this] v consider
        (free) k where "k < length es" "\<not> ac_valid (es ! k)" "r = int (i + 1 + k)"
        | (none) "\<forall>e \<in> set es. ac_valid e" "r = idx" "\<forall>x \<in> set es. oldest \<le> ac_timestamp x"
        | (later) k where "\<forall>e \<in> set es. ac_valid e" "k < length es" "r = int (i + 1 + k)" "ac_timestamp (es ! k) < oldest"
            "\<forall>x \<in> set es. ac_timestamp (es ! k) \<le> ac_timestamp x"
        by auto
      then show ?thesis
      proof cases
        case free
        then show ?thesis by (intro disjI1 exI [of _ "Suc k"]) simp
      next
        case none
        then show ?thesis using v False by (intro disjI2 conjI disjI1) auto
      next
        case later
        then show ?thesis using v False by (intro disjI2 conjI disjI2 exI [of _ "Suc k"]) auto
      qed
    qed
  qed
qed simp


lemma arp_ok_len: "arp_ok s \<Longrightarrow> length (arp_cache s) = 32"
  by (simp only: arp_ok_def)

lemma arp_ok_unique:
  assumes "arp_ok s" "i < 32" "j < 32" "ac_valid (arp_cache s ! i)" "ac_valid (arp_cache s ! j)" "ac_ip (arp_cache s ! i) = ac_ip (arp_cache s ! j)"
  shows "i = j"
  using assms unfolding arp_ok_def by blast

lemma arp_okI:
  assumes "length (arp_cache s) = 32"
    and "\<And>i j. i < 32 \<Longrightarrow> j < 32 \<Longrightarrow> ac_valid (arp_cache s ! i) \<Longrightarrow> ac_valid (arp_cache s ! j) \<Longrightarrow> ac_ip (arp_cache s ! i) = ac_ip (arp_cache s ! j) \<Longrightarrow> i = j"
  shows "arp_ok s"
  using assms unfolding arp_ok_def by blast

lemma arp_lookup_Some:
  assumes "arp_ok s"
  shows "arp_cache_lookup k s = Some m \<longleftrightarrow> (\<exists>i < 32. ac_valid (arp_cache s ! i) \<and> ac_ip (arp_cache s ! i) = k \<and> ac_mac (arp_cache s ! i) = m)"
proof -
  let ?P = "\<lambda>e. ac_valid e \<and> ac_ip e = k"
  note len = arp_ok_len [OF assms]
  show ?thesis
  proof
    assume "arp_cache_lookup k s = Some m"
    then show "\<exists>i < 32. ac_valid (arp_cache s ! i) \<and> ac_ip (arp_cache s ! i) = k \<and> ac_mac (arp_cache s ! i) = m"
      using len by (auto simp: arp_cache_lookup_def ARP_CACHE_SIZE_def dest!: find_idx_SomeD)
  next
    assume "\<exists>i < 32. ac_valid (arp_cache s ! i) \<and> ac_ip (arp_cache s ! i) = k \<and> ac_mac (arp_cache s ! i) = m"
    then obtain i where i: "i < 32" "ac_valid (arp_cache s ! i)" "ac_ip (arp_cache s ! i) = k" "ac_mac (arp_cache s ! i) = m" by blast
    have "\<not> ?P (arp_cache s ! j)" if "j < i" for j
      using arp_ok_unique [OF assms i(1), of j] that i by (metis less_imp_neq order.strict_trans)
    then have "find_idx ?P (arp_cache s) = Some i" using i len by (intro find_idx_SomeI) simp_all
    then show "arp_cache_lookup k s = Some m" using len i(4) by (simp add: arp_cache_lookup_def ARP_CACHE_SIZE_def)
  qed
qed

lemma arp_lookup_None:
  assumes "arp_ok s"
  shows "arp_cache_lookup k s = None \<longleftrightarrow> (\<forall>i < 32. \<not> (ac_valid (arp_cache s ! i) \<and> ac_ip (arp_cache s ! i) = k))"
  using arp_lookup_Some [OF assms] by (metis option.exhaust option.distinct(1))

text \<open>What adding a binding does to the cache.\<close>

definition bound_at :: "net \<Rightarrow> nat \<Rightarrow> u32 \<Rightarrow> bytes \<Rightarrow> net \<Rightarrow> bool" where
  "bound_at s i ip m s' \<longleftrightarrow> i < 32 \<and> arp_cache s' = (arp_cache s)[i := \<lparr>ac_ip = ip, ac_mac = m, ac_timestamp = arp_time s, ac_valid = True\<rparr>]"

lemma arp_add_cases:
  assumes "arp_ok s"
  obtains (known) i where "bound_at s i ip m (arp_cache_add ip m s)" "ac_valid (arp_cache s ! i)" "ac_ip (arp_cache s ! i) = ip"
  | (new) i where "bound_at s i ip m (arp_cache_add ip m s)" "slot_for (arp_cache s) i" "arp_cache_lookup ip s = None"
  | (refused) "arp_cache_add ip m s = s" "arp_cache_lookup ip s = None" "\<not> arp_room s"
proof -
  let ?P = "\<lambda>e. ac_valid e \<and> ac_ip e = ip"
  note len = arp_ok_len [OF assms]
  show thesis
  proof (cases "find_idx ?P (arp_cache s)")
    case (Some i)
    note f = find_idx_SomeD [OF Some]
    have e: "(arp_cache s ! i)\<lparr>ac_mac := m, ac_timestamp := arp_time s\<rparr> = \<lparr>ac_ip = ip, ac_mac = m, ac_timestamp = arp_time s, ac_valid = True\<rparr>"
      using f by (cases "arp_cache s ! i") simp
    have "arp_cache (arp_cache_add ip m s) = (arp_cache s)[i := (arp_cache s ! i)\<lparr>ac_mac := m, ac_timestamp := arp_time s\<rparr>]"
      using Some len by (simp add: arp_cache_add_def ARP_CACHE_SIZE_def)
    then have "bound_at s i ip m (arp_cache_add ip m s)" using f(1) len unfolding e bound_at_def by simp
    then show thesis using known f by blast
  next
    case None
    then have no: "arp_cache_lookup ip s = None" using len by (simp add: arp_cache_lookup_def ARP_CACHE_SIZE_def)
    define r where "r = arp_slot (arp_cache s) 0 0xFFFFFFFF (-1)"
    have add: "arp_cache_add ip m s = (if r \<ge> 0 then s\<lparr>arp_cache := (arp_cache s)[nat r := \<lparr>ac_ip = ip, ac_mac = m, ac_timestamp = arp_time s, ac_valid = True\<rparr>],
        arp_time := arp_time s + 1\<rparr> else s)"
      using None len by (simp add: arp_cache_add_def ARP_CACHE_SIZE_def r_def Let_def)
    from arp_slot_scan [OF r_def [symmetric]] consider
      (free) k where "k < 32" "\<not> ac_valid (arp_cache s ! k)" "r = int k"
      | (none) "r = -1" "\<forall>e \<in> set (arp_cache s). ac_valid e \<and> 0xFFFFFFFF \<le> ac_timestamp e"
      | (oldest) k where "k < 32" "r = int k" "\<forall>e \<in> set (arp_cache s). ac_valid e \<and> ac_timestamp (arp_cache s ! k) \<le> ac_timestamp e"
      using len by auto
    then show thesis
    proof cases
      case free
      then show thesis using new [of k] add no len by (simp add: bound_at_def slot_for_def)
    next
      case none
      then have "\<not> arp_room s" using len by (auto simp: arp_room_def not_less)
      then show thesis using refused add none(1) no by simp
    next
      case oldest
      then show thesis using new [of k] add no len by (simp add: bound_at_def slot_for_def)
    qed
  qed
qed

lemma bound_at_nth:
  assumes "arp_ok s" "bound_at s i ip m s'" "j < 32"
  shows "arp_cache s' ! j = (if j = i then \<lparr>ac_ip = ip, ac_mac = m, ac_timestamp = arp_time s, ac_valid = True\<rparr> else arp_cache s ! j)"
  using assms(2,3) arp_ok_len [OF assms(1)] by (simp add: bound_at_def)

lemma bound_at_ok:
  assumes "arp_ok s" "bound_at s i ip m s'" "arp_cache_lookup ip s = None \<or> ac_valid (arp_cache s ! i) \<and> ac_ip (arp_cache s ! i) = ip"
  shows "arp_ok s'"
proof (rule arp_okI)
  have i: "i < 32" using assms(2) by (simp only: bound_at_def)
  show "length (arp_cache s') = 32" using assms(2) arp_ok_len [OF assms(1)] by (simp add: bound_at_def)
  have other: "\<not> (ac_valid (arp_cache s ! j) \<and> ac_ip (arp_cache s ! j) = ip)" if "j < 32" "j \<noteq> i" for j
    using assms(3) arp_lookup_None [OF assms(1), of ip] arp_ok_unique [OF assms(1) that(1) i] that by metis
  fix a b
  assume *: "a < 32" "b < 32" "ac_valid (arp_cache s' ! a)" "ac_valid (arp_cache s' ! b)" "ac_ip (arp_cache s' ! a) = ac_ip (arp_cache s' ! b)"
  note n = bound_at_nth [OF assms(1,2) *(1)] bound_at_nth [OF assms(1,2) *(2)]
  show "a = b"
  proof (cases "a = i \<or> b = i")
    case True
    then show ?thesis using * other [of a] other [of b] unfolding n by (auto split: if_splits)
  next
    case False
    then show ?thesis using * arp_ok_unique [OF assms(1) *(1,2)] unfolding n by simp
  qed
qed

lemma bound_at_lookup:
  assumes "arp_ok s'" "bound_at s i ip m s'" "length (arp_cache s) = 32"
  shows "arp_cache_lookup ip s' = Some m"
  unfolding arp_lookup_Some [OF assms(1)] using assms(2,3) by (intro exI [of _ i]) (simp add: bound_at_def)

lemma bound_at_other:
  assumes "arp_ok s" "arp_ok s'" "bound_at s i ip m s'" "k \<noteq> ip"
  shows "arp_cache_lookup k s' = (if ac_valid (arp_cache s ! i) \<and> ac_ip (arp_cache s ! i) = k then None else arp_cache_lookup k s)"
proof -
  have i: "i < 32" using assms(3) by (simp only: bound_at_def)
  note e = bound_at_nth [OF assms(1,3)]
  show ?thesis
  proof (cases "ac_valid (arp_cache s ! i) \<and> ac_ip (arp_cache s ! i) = k")
    case True
    have o: "\<not> (ac_valid (arp_cache s ! j) \<and> ac_ip (arp_cache s ! j) = k)" if "j < 32" "j \<noteq> i" for j
      using arp_ok_unique [OF assms(1) that(1) i] that True by metis
    have "\<not> (ac_valid (arp_cache s' ! j) \<and> ac_ip (arp_cache s' ! j) = k)" if "j < 32" for j
      using o [OF that] assms(4) unfolding e [OF that] by auto
    then show ?thesis using True by (simp add: arp_lookup_None [OF assms(2)])
  next
    case False
    have same: "(ac_valid (arp_cache s' ! j) \<and> ac_ip (arp_cache s' ! j) = k \<and> ac_mac (arp_cache s' ! j) = w) =
        (ac_valid (arp_cache s ! j) \<and> ac_ip (arp_cache s ! j) = k \<and> ac_mac (arp_cache s ! j) = w)" if "j < 32" for j w
      using False assms(4) unfolding e [OF that] by auto
    have "arp_cache_lookup k s' = Some w \<longleftrightarrow> arp_cache_lookup k s = Some w" for w
      unfolding arp_lookup_Some [OF assms(1)] arp_lookup_Some [OF assms(2)] using same by blast
    then have "arp_cache_lookup k s' = arp_cache_lookup k s" by (metis option.exhaust)
    then show ?thesis unfolding if_not_P [OF False] .
  qed
qed

lemma arp_add_ok: "arp_ok s \<Longrightarrow> arp_ok (arp_cache_add ip m s)"
  by (rule arp_add_cases [of s ip m]) (assumption, blast intro: bound_at_ok, blast intro: bound_at_ok, simp only:)

interpretation arp: forgetful_table arp_ok arp_room arp_cache_add arp_cache_lookup
proof unfold_locales
  fix s k v
  assume ok: "arp_ok s"
  note len = arp_ok_len [OF ok]
  show ok': "arp_ok (arp_cache_add k v s)" by (rule arp_add_ok [OF ok])
  show "arp_cache_lookup k (arp_cache_add k v s) = Some v" if "arp_room s"
    by (rule arp_add_cases [OF ok, of k v]) (use bound_at_lookup [OF ok'] len that in auto)
  show "w = v" if "arp_cache_lookup k (arp_cache_add k v s) = Some w" for w
    by (rule arp_add_cases [OF ok, of k v]) (use bound_at_lookup [OF ok'] len that in auto)
  show "arp_cache_lookup k' s = Some w" if "k' \<noteq> k" "arp_cache_lookup k' (arp_cache_add k v s) = Some w" for k' w
    by (rule arp_add_cases [OF ok, of k v]) (use bound_at_other [OF ok ok'] that in \<open>auto split: if_splits\<close>)
qed

text \<open>
  The address cache never returns an outdated address: after any sequence of bindings, what is
  found for an address is the latest binding of the sequence, or what was there before if the sequence
  has none.
\<close>

theorem arp_never_stale:
  assumes "arp_ok s" and "arp_cache_lookup ip (fold (\<lambda>(ip, m). arp_cache_add ip m) bindings s) = Some m"
  shows "map_of (rev bindings) ip = Some m \<or> ip \<notin> fst ` set bindings \<and> arp_cache_lookup ip s = Some m"
  using arp.never_stale [OF assms(1)] assms(2) unfolding arp.add_all_def by blast

lemma example_arp_ok: "arp_ok (example_host ip m p pm)"
  by (rule arp_okI) (auto simp: example_host_def nth_Cons' split: if_splits)

lemma example_arp_room: "arp_room (example_host ip m p pm)"
  unfolding arp_room_def by (rule exI [of _ 0]) (simp add: example_host_def)

text \<open>The hypotheses hold for an example host and two bindings of the same address.\<close>

theorem arp_never_stale_witness:
  "map_of (rev [(9 :: u32, [1, 1, 1, 1, 1, 1]), (9, [2, 2, 2, 2, 2, 2])]) 9 = Some [2, 2, 2, 2, 2, 2 :: u8] \<or>
    (9 :: u32) \<notin> fst ` set [(9, [1, 1, 1, 1, 1, 1]), (9, [2, 2, 2, 2, 2, 2 :: u8])] \<and>
      arp_cache_lookup 9 (example_host 1 [0, 0, 0, 0, 0, 0] 9 [9, 9, 9, 9, 9, 9]) = Some [2, 2, 2, 2, 2, 2]"
proof (rule arp_never_stale)
  show "arp_ok (example_host 1 [0, 0, 0, 0, 0, 0] 9 [9, 9, 9, 9, 9, 9])" by (rule example_arp_ok)
  show "arp_cache_lookup 9 (fold (\<lambda>(ip, m). arp_cache_add ip m) [(9, [1, 1, 1, 1, 1, 1]), (9, [2, 2, 2, 2, 2, 2])] (example_host 1 [0, 0, 0, 0, 0, 0] 9 [9, 9, 9, 9, 9, 9])) =
      Some [2, 2, 2, 2, 2, 2]"
    by (simp add: arp_cache_add_def arp_cache_lookup_def ARP_CACHE_SIZE_def example_host_def)
qed

text \<open>
  A new binding is found, and it costs at most one other: the one with the smallest time stamp,
  and only when the address was unknown and all 32 entries were in use.
\<close>

theorem arp_add_evicts_oldest:
  assumes "arp_ok s" and "arp_room s"
  shows "arp_cache_lookup ip (arp_cache_add ip m s) = Some m \<and>
    (\<exists>victim. \<forall>k. k \<noteq> ip \<longrightarrow> arp_cache_lookup k (arp_cache_add ip m s) = (if victim = Some k then None else arp_cache_lookup k s) \<and>
       (victim = Some k \<longrightarrow> arp_cache_lookup ip s = None \<and> (\<forall>e \<in> set (arp_cache s). ac_valid e) \<and>
         (\<exists>e \<in> set (arp_cache s). ac_ip e = k \<and> (\<forall>e' \<in> set (arp_cache s). ac_timestamp e \<le> ac_timestamp e'))))"
proof -
  note ok' = arp_add_ok [OF assms(1), of ip m]
  note len = arp_ok_len [OF assms(1)]
  show ?thesis
  proof (rule arp_add_cases [OF assms(1), of ip m])
    fix i assume k: "bound_at s i ip m (arp_cache_add ip m s)" "ac_valid (arp_cache s ! i)" "ac_ip (arp_cache s ! i) = ip"
    show ?thesis using bound_at_lookup [OF ok' k(1) len] bound_at_other [OF assms(1) ok' k(1)] k(3) by (intro conjI exI [of _ None]) auto
  next
    fix i assume n: "bound_at s i ip m (arp_cache_add ip m s)" "slot_for (arp_cache s) i" "arp_cache_lookup ip s = None"
    let ?v = "if ac_valid (arp_cache s ! i) then Some (ac_ip (arp_cache s ! i)) else None"
    have v: "arp_cache_lookup ip s = None \<and> (\<forall>e \<in> set (arp_cache s). ac_valid e) \<and>
        (\<exists>e \<in> set (arp_cache s). ac_ip e = k \<and> (\<forall>e' \<in> set (arp_cache s). ac_timestamp e \<le> ac_timestamp e'))" if "?v = Some k" for k
      using slot_for_used [OF n(2)] that n(3) by (auto split: if_splits)
    have "arp_cache_lookup k (arp_cache_add ip m s) = (if ?v = Some k then None else arp_cache_lookup k s)" if "k \<noteq> ip" for k
      using bound_at_other [OF assms(1) ok' n(1) that] by simp
    then show ?thesis using bound_at_lookup [OF ok' n(1) len] v by blast
  qed (use assms(2) in blast)
qed

text \<open>The hypotheses hold for an example host.\<close>

theorem arp_add_evicts_oldest_witness:
  "arp_cache_lookup 5 (arp_cache_add 5 [1, 1, 1, 1, 1, 1] (example_host 1 [0, 0, 0, 0, 0, 0] 9 [9, 9, 9, 9, 9, 9])) = Some [1, 1, 1, 1, 1, 1]"
  using arp_add_evicts_oldest [OF example_arp_ok example_arp_room] by blast

end
