(* ===== verification/Net_Services.thy ===== *)
theory Net_Services
  imports Net_Hosts
begin

unbundle bit_operations_syntax

text \<open>
  DHCP and DNS: the handlers of received datagrams never read outside the datagram and always return,
  a DHCP message carries its options to the client, and a DNS answer to a query is read as its fields say.
\<close>

section \<open>Handlers stay inside the datagram\<close>

lemma byte_at_inside [simp]: "i < length d \<Longrightarrow> byte_at d i = Some (d ! i)"
  by (simp add: byte_at_def)

lemma le32_at_inside: "i + 4 \<le> length d \<Longrightarrow> le32_at d i = Some (le_dec (segment i 4 d))"
  by (simp add: le32_at_def fld_def)

lemma be32_at_inside: "i + 4 \<le> length d \<Longrightarrow> be32_at d i = Some (be_dec (segment i 4 d))"
  by (simp add: be32_at_def fld_def)

lemma be16_at_inside: "i + 2 \<le> length d \<Longrightarrow> be16_at d i = Some (be_dec (segment i 2 d))"
  by (simp add: be16_at_def fld_def)

lemma dhcp_option_inside:
  assumes "i + unat olen \<le> length d"
  shows "\<exists>r. dhcp_option d i opt olen ms = Some r"
proof -
  have "\<exists>v. le32_at d i = Some v" if "olen \<ge> 4" using assms that by (simp add: le32_at_inside word_le_nat_alt)
  moreover have "\<exists>v. byte_at d i = Some v" if "olen = 1" using assms that by simp
  moreover have "olen \<ge> 4" if "olen = 4" using that by simp
  ultimately show ?thesis unfolding dhcp_option_def by (auto split: prod.split simp: Let_def)
qed

lemma dhcp_options_inside:
  assumes "len \<le> length d"
  shows "\<exists>r. dhcp_options d len i ms = Some r"
  using assms
proof (induction d len i ms rule: dhcp_options.induct)
  case (1 d len i ms)
  show ?case
  proof (cases "i + 2 < len")
    case False
    then show ?thesis by (simp add: dhcp_options.simps)
  next
    case True
    have b: "byte_at d i = Some (d ! i)" "byte_at d (i + 1) = Some (d ! (i + 1))" using True "1.prems" by simp_all
    consider "d ! i = 0xFF" | "d ! i \<noteq> 0xFF" "d ! i = 0" | "d ! i \<noteq> 0xFF" "d ! i \<noteq> 0" "i + 2 + unat (d ! (i + 1)) > len"
      | "d ! i \<noteq> 0xFF" "d ! i \<noteq> 0" "\<not> i + 2 + unat (d ! (i + 1)) > len" by blast
    then show ?thesis
    proof cases
      case 2
      then show ?thesis using "1.IH"(1) [OF True b(1) 2 "1.prems"] True b by (subst dhcp_options.simps) simp
    next
      case 4
      have "i + 2 + unat (d ! (i + 1)) \<le> length d" using 4 "1.prems" by simp
      then obtain r where r: "dhcp_option d (i + 2) (d ! i) (d ! (i + 1)) ms = Some r" using dhcp_option_inside by blast
      from "1.IH"(2) [OF True b(1) 4(1,2) b(2) 4(3) r "1.prems"] show ?thesis
        using 4 True b r by (subst dhcp_options.simps) simp
    qed (use True b in \<open>subst dhcp_options.simps; simp\<close>)+
  qed
qed

lemma dhcp_rx_inside:
  assumes "unat len \<le> length d"
  shows "\<exists>s'. dhcp_rx d len s = Some s'"
proof (cases "len < 244")
  case False
  then have l: "244 \<le> length d" using assms by (simp add: word_less_nat_alt)
  obtain r where "dhcp_options d (unat len) 240 (0, s\<lparr>offer_ip := le_dec (segment 16 4 d)\<rparr>) = Some r"
    using dhcp_options_inside [OF assms] by blast
  moreover have "byte_at d 0 = Some (d ! 0)" using l by (intro byte_at_inside) linarith
  ultimately show ?thesis using l by (cases r) (auto simp: dhcp_rx_def be32_at_inside le32_at_inside fld_def Let_def)
qed (simp add: dhcp_rx_def)

lemma dns_skip_question_inside:
  assumes "stop \<le> length d"
  shows "\<exists>p. dns_skip_question d stop ptr = Some p"
  using assms by (induction d stop ptr rule: dns_skip_question.induct) (subst dns_skip_question.simps, simp)

lemma dns_skip_answer_inside:
  assumes "stop \<le> length d"
  shows "\<exists>p. dns_skip_answer d stop ptr = Some p"
  using assms by (induction d stop ptr rule: dns_skip_answer.induct) (subst dns_skip_answer.simps, simp)

lemma dns_questions_inside: "stop \<le> length d \<Longrightarrow> \<exists>p. dns_questions d stop q ptr = Some p"
proof (induction q arbitrary: ptr)
  case (Suc q)
  show ?case
  proof (cases "ptr < stop")
    case True
    obtain p where p: "dns_skip_question d stop ptr = Some p" using dns_skip_question_inside [OF Suc.prems] by blast
    then show ?thesis using Suc True by (cases "p < stop") simp_all
  qed simp
qed simp

lemma dns_answer_name_inside:
  assumes "stop \<le> length d" "ptr < stop"
  shows "\<exists>p. dns_answer_name d stop ptr = Some p"
proof -
  obtain p where p: "dns_skip_answer d stop ptr = Some p" using dns_skip_answer_inside [OF assms(1)] by blast
  then show ?thesis using assms by (cases "p < stop") (simp_all add: dns_answer_name_def)
qed

lemma dns_answers_inside: "stop \<le> length d \<Longrightarrow> \<exists>r. dns_answers d stop a ptr = Some r"
proof (induction a arbitrary: ptr)
  case (Suc a)
  show ?case
  proof (cases "ptr < stop")
    case True
    obtain p where p: "dns_answer_name d stop ptr = Some p" using dns_answer_name_inside [OF Suc.prems True] by blast
    show ?thesis
    proof (cases "p + 10 > stop")
      case False
      then have "be16_at d p = Some (be_dec (segment p 2 d))" "be16_at d (p + 8) = Some (be_dec (segment (p + 8) 2 d))"
        using Suc.prems by (simp_all add: be16_at_inside)
      moreover have "\<exists>v. le32_at d (p + 10) = Some v" if "\<not> p + 10 + unat (be_dec (segment (p + 8) 2 d) :: u16) > stop" "(be_dec (segment (p + 8) 2 d) :: u16) = 4"
        using that Suc.prems by (simp add: le32_at_inside)
      ultimately show ?thesis using Suc True p False by (auto simp: Let_def)
    qed (use True p in simp)
  qed simp
qed simp

lemma dns_handler_inside:
  assumes "unat len \<le> length d"
  shows "\<exists>s'. dns_handler d len s = Some s'"
proof (cases "len < 12")
  case False
  then have l: "12 \<le> length d" using assms by (simp add: word_less_nat_alt)
  obtain p where p: "dns_questions d (unat len) (unat (be_dec (segment 4 2 d) :: u16)) 12 = Some p"
    using dns_questions_inside [OF assms] by blast
  obtain r where "dns_answers d (unat len) (unat (be_dec (segment 6 2 d) :: u16)) p = Some r" using dns_answers_inside [OF assms] by blast
  then show ?thesis using False l p by (cases r) (auto simp: dns_handler_def be16_at_inside Let_def)
qed (simp add: dns_handler_def)

lemma call_handler_inside: "unat len \<le> length d \<Longrightarrow> \<exists>s'. call_handler h d len s = Some s'"
  by (cases h) (simp_all add: call_handler_def dhcp_rx_inside dns_handler_inside)

lemma udp_receive_inside:
  assumes "unat len \<le> length d"
  shows "\<exists>s'. udp_receive src d len s = Some s'"
proof (cases "len < 8")
  case False
  then have l: "8 \<le> length d" "8 \<le> unat len" using assms by (simp_all add: word_less_nat_alt)
  let ?hdr = "segment 0 8 d"
  define n where "n = net_htons (le_dec (segment 4 2 ?hdr)) - 8"
  have "\<exists>s'. call_handler h (drop 8 d) n s = Some s'" if "\<not> unat n > unat len - 8" for h
    using that assms by (intro call_handler_inside) simp
  then show ?thesis using False l unfolding n_def
    by (auto simp: udp_receive_def fld_def rest_at_def Let_def split: option.split)
qed (simp add: udp_receive_def)

text \<open>
  C36: Whatever a datagram contains, handling it ends and stays inside the received data: the length
  field of the UDP header is checked against the data that is there, and neither the DHCP options nor
  the names and records of a DNS message lead the parsers outside the datagram.
\<close>

theorem udp_receive_safe:
  assumes "unat len \<le> length d"
  shows "\<exists>s'. udp_receive src_ip d len s = Some s'"
  using assms by (rule udp_receive_inside)

theorem udp_receive_safe_witness:
  "\<exists>s'. udp_receive 1 [0, 53, 209, 31, 0, 4, 0, 0, 1, 2, 3, 4] 12 (example_host 0x0200000A [2, 0, 0, 0, 0, 2] 0x0100000A [2, 0, 0, 0, 0, 1]) = Some s'"
  by (rule udp_receive_safe) simp

section \<open>DHCP options\<close>

text \<open>What one option does, and its encoding as code, length and value.\<close>

definition option_effect :: "u8 \<times> bytes \<Rightarrow> u8 \<times> net \<Rightarrow> u8 \<times> net" where
  "option_effect op ms =
     (let (c, v) = op; (msg_type, s) = ms in
      if c = 53 \<and> length v = 1 then (hd v, s)
      else if c = 54 \<and> length v = 4 then (msg_type, s\<lparr>server_ip := le_dec v\<rparr>)
      else if c = 1 \<and> length v = 4 then (msg_type, s\<lparr>dhcp_mask := le_dec v\<rparr>)
      else if c = 3 \<and> length v \<ge> 4 then (msg_type, s\<lparr>dhcp_gw := le_dec (take 4 v)\<rparr>)
      else if c = 6 \<and> length v \<ge> 4 then (msg_type, s\<lparr>dhcp_dns := le_dec (take 4 v)\<rparr>)
      else ms)"

definition option_enc :: "u8 \<times> bytes \<Rightarrow> bytes" where
  "option_enc op = fst op # of_nat (length (snd op)) # snd op"

definition option_ok :: "u8 \<times> bytes \<Rightarrow> bool" where
  "option_ok op \<longleftrightarrow> fst op \<noteq> 0 \<and> fst op \<noteq> 0xFF \<and> length (snd op) \<le> 255"

lemma unat_of_nat_byte: "n \<le> 255 \<Longrightarrow> unat (of_nat n :: u8) = n"
  by (simp add: unat_of_nat)

lemma of_nat_byte_eq: "n \<le> 255 \<Longrightarrow> k \<le> 255 \<Longrightarrow> (of_nat n :: u8) = of_nat k \<longleftrightarrow> n = k"
  by (metis unat_of_nat_byte)

lemma dhcp_option_effect:
  assumes "length v \<le> 255"
  shows "dhcp_option (p @ v @ q) (length p) c (of_nat (length v)) ms = Some (option_effect (c, v) ms)"
proof -
  have n: "(of_nat (length v) :: u8) = 1 \<longleftrightarrow> length v = 1" "(of_nat (length v) :: u8) = 4 \<longleftrightarrow> length v = 4"
    using of_nat_byte_eq [OF assms, of 1] of_nat_byte_eq [OF assms, of 4] by simp_all
  have n4: "(of_nat (length v) :: u8) \<ge> 4 \<longleftrightarrow> length v \<ge> 4" by (simp add: word_le_nat_alt unat_of_nat_byte [OF assms])
  have w: "le32_at (p @ v @ q) (length p) = Some (le_dec (take 4 v))" if "length v \<ge> 4"
    using that by (simp add: le32_at_inside segment_def)
  have b: "byte_at (p @ v @ q) (length p) = Some (hd v)" if "length v = 1" using that by (cases v) simp_all
  show ?thesis unfolding dhcp_option_def option_effect_def n n4 Let_def split_beta fst_conv snd_conv if_distrib [of Some]
    by (intro if_cong refl) (simp_all only: w b order_refl option.map take_all)
qed

lemma dhcp_options_encoded:
  assumes "\<forall>op \<in> set opts. option_ok op" "length p + length (concat (map option_enc opts)) < len"
  shows "dhcp_options (p @ concat (map option_enc opts) @ 0xFF # q) len (length p) ms = Some (fold option_effect opts ms)"
  using assms
proof (induction opts arbitrary: p ms)
  case Nil
  then show ?case by (subst dhcp_options.simps) simp
next
  case (Cons op opts)
  obtain c v where op: "op = (c, v)" by (cases op)
  have ok: "c \<noteq> 0" "c \<noteq> 0xFF" "length v \<le> 255" using Cons.prems(1) by (simp_all add: op option_ok_def)
  let ?r = "concat (map option_enc opts) @ 0xFF # q"
  let ?d = "p @ c # of_nat (length v) # v @ ?r"
  have d: "p @ concat (map option_enc (op # opts)) @ 0xFF # q = ?d" by (simp add: op option_enc_def)
  have len: "length p + 2 + length v + length (concat (map option_enc opts)) < len" using Cons.prems(2)
    by (simp add: op option_enc_def [of "(c, v)"])
  have b: "byte_at ?d (length p) = Some c" "byte_at ?d (length p + 1) = Some (of_nat (length v))" by (simp_all add: nth_append)
  have e: "dhcp_option ?d (length p + 2) c (of_nat (length v)) ms = Some (option_effect (c, v) ms)"
    using dhcp_option_effect [OF ok(3), of "p @ [c, of_nat (length v)]" ?r c ms] by simp
  have r: "dhcp_options ?d len (length p + 2 + length v) (option_effect (c, v) ms) = Some (fold option_effect opts (option_effect (c, v) ms))"
    using Cons.IH [of "p @ c # of_nat (length v) # v" "option_effect (c, v) ms"] Cons.prems(1) len by (simp add: add.assoc)
  have u: "unat (of_nat (length v) :: u8) = length v" using ok(3) by (rule unat_of_nat_byte)
  have i: "length p + 2 < len" "\<not> length p + 2 + length v > len" using len by simp_all
  show ?case unfolding d
    by (subst dhcp_options.simps) (simp only: b e r u i ok if_True if_False bind.bind_lunit fold_simps op o_apply)
qed

text \<open>
  C39: A DHCP reply is understood: when a server's message for the current transaction carries a list of
  options, the offered address and exactly the effects of these options, in their order, are recorded,
  and an offer or an acknowledgement is noticed.
\<close>

theorem dhcp_reply_applied:
  assumes "length hdr = 236" and "hdr ! 0 = 2" and "be_dec (segment 4 4 hdr) = dhcp_xid s" and "\<forall>op \<in> set opts. option_ok op"
    and "240 + length (concat (map option_enc opts)) < unat len" and "244 \<le> unat len"
  shows "dhcp_rx (hdr @ [0x63, 0x82, 0x53, 0x63] @ concat (map option_enc opts) @ [0xFF] @ pad) len s =
    (let (msg_type, s') = fold option_effect opts (0, s\<lparr>offer_ip := le_dec (segment 16 4 hdr)\<rparr>)
     in Some (if msg_type = 2 then s'\<lparr>got_offer := True\<rparr> else if msg_type = 5 then s'\<lparr>got_ack := True\<rparr> else s'))"
proof -
  let ?m = "[0x63, 0x82, 0x53, 0x63] :: bytes"
  let ?r = "concat (map option_enc opts) @ [0xFF] @ pad"
  let ?d = "hdr @ ?m @ ?r"
  have o: "dhcp_options ?d (unat len) 240 ms = Some (fold option_effect opts ms)" for ms
    using dhcp_options_encoded [OF assms(4), of "hdr @ ?m" "unat len" pad ms] assms(1,5) by simp
  have b: "byte_at ?d 0 = Some 2" using assms(1,2) by (simp add: byte_at_def nth_append)
  have f: "be32_at ?d 4 = Some (dhcp_xid s)" "le32_at ?d 16 = Some (le_dec (segment 16 4 hdr))" "fld ?d 236 4 = Some ?m"
    using assms(1,3) by (simp_all add: be32_at_def le32_at_def fld_def segment_def)
  have l: "\<not> len < 244" using assms(6) by (simp add: word_less_nat_alt)
  show ?thesis unfolding dhcp_rx_def using l by (simp only: b f o if_False bind.bind_lunit Let_def) (simp add: split_beta)
qed

text \<open>The hypotheses hold for an acknowledgement with a netmask and a gateway.\<close>

definition example_ack :: bytes where
  "example_ack = [2, 1, 6, 0, 0x12, 0x34, 0x56, 0x78] @ replicate 8 0 @ [10, 0, 0, 7] @ replicate 216 0"

theorem dhcp_reply_applied_witness:
  "\<exists>s'. dhcp_rx (example_ack @ [0x63, 0x82, 0x53, 0x63] @ concat (map option_enc [(53, [5]), (1, [255, 255, 255, 0]), (3, [10, 0, 0, 1])]) @ [0xFF] @ []) 256
      (example_host 0 [2, 0, 0, 0, 0, 2] 0 []) = Some s' \<and> got_ack s' \<and> offer_ip s' = 0x0700000A \<and> dhcp_gw s' = 0x0100000A"
  by (subst dhcp_reply_applied) (simp_all add: example_ack_def option_enc_def option_ok_def option_effect_def example_host_def segment_def be_dec_def)

section \<open>DNS messages\<close>

text \<open>A host name with its labels, which are not empty, have no dot and at most 63 characters.\<close>

definition label_ok :: "bytes \<Rightarrow> bool" where
  "label_ok l \<longleftrightarrow> l \<noteq> [] \<and> length l \<le> 63 \<and> 46 \<notin> set l \<and> 0 \<notin> set l"

fun join_labels :: "bytes list \<Rightarrow> bytes" where
  "join_labels [] = []"
| "join_labels [l] = l"
| "join_labels (l # ls) = l @ 46 # join_labels ls"

definition labels_enc :: "bytes list \<Rightarrow> bytes" where
  "labels_enc ls = concat (map (\<lambda>l. of_nat (length l) # l) ls)"

lemma encode_join: "\<forall>l \<in> set ls. label_ok l \<Longrightarrow> dns_encode_name (join_labels ls) = labels_enc ls @ [0]"
proof (induction ls rule: join_labels.induct)
  case 1
  then show ?case by (simp add: dns_encode_name.simps labels_enc_def)
next
  case (2 l)
  have t: "takeWhile (\<lambda>c. c \<noteq> 46) l = l" using 2 by (intro takeWhile_eq_all_conv [THEN iffD2]) (auto simp: label_ok_def)
  have "l \<noteq> []" using 2 by (simp add: label_ok_def)
  moreover have "dns_encode_name [] = [0]" by (simp add: dns_encode_name.simps)
  ultimately show ?case unfolding join_labels.simps dns_encode_name.simps [of l] Let_def t by (simp add: labels_enc_def)
next
  case (3 l l' ls)
  let ?r = "join_labels (l' # ls)"
  have "takeWhile (\<lambda>c. c \<noteq> 46) (l @ 46 # ?r) = l" using "3.prems" by (subst takeWhile_append2) (auto simp: label_ok_def)
  moreover have "dns_encode_name ?r = labels_enc (l' # ls) @ [0]" using 3 by simp
  ultimately show ?case by (subst dns_encode_name.simps) (simp add: labels_enc_def Let_def)
qed

lemma label_byte: "n \<le> 63 \<Longrightarrow> (of_nat n :: u8) AND 0xC0 = 0"
proof -
  assume "n \<le> 63"
  then have "take_bit 6 (of_nat n :: u8) = of_nat n" by (simp add: take_bit_of_nat take_bit_nat_eq_self)
  then have "of_nat n AND mask 6 = (of_nat n :: u8)" by (simp only: take_bit_eq_mask)
  moreover have "(of_nat n AND mask 6) AND 0xC0 = (0 :: u8)" by (simp add: and.assoc mask_eq_exp_minus_1)
  ultimately show ?thesis by simp
qed

lemma skip_labels:
  assumes "\<forall>l \<in> set ls. label_ok l" "length p + length (labels_enc ls) < stop"
  shows "dns_skip_question (p @ labels_enc ls @ 0 # q) stop (length p) = Some (length p + length (labels_enc ls))"
  using assms
proof (induction ls arbitrary: p)
  case Nil
  then show ?case by (subst dns_skip_question.simps) (simp add: labels_enc_def)
next
  case (Cons l ls)
  have l: "l \<noteq> []" "length l \<le> 63" using Cons.prems(1) by (simp_all add: label_ok_def)
  have e: "labels_enc (l # ls) = (of_nat (length l) # l) @ labels_enc ls" by (simp add: labels_enc_def)
  have u: "unat (of_nat (length l) :: u8) = length l" using l(2) by (simp add: unat_of_nat_byte)
  then have nz: "(of_nat (length l) :: u8) \<noteq> 0" using l(1) by (metis length_0_conv unat_0)
  have r: "dns_skip_question (p @ (of_nat (length l) # l) @ labels_enc ls @ 0 # q) stop (length p + length l + 1) =
      Some (length p + length l + 1 + length (labels_enc ls))"
    using Cons.IH [of "p @ of_nat (length l) # l"] Cons.prems by (simp add: e)
  have lt: "length p < stop" using Cons.prems(2) by simp
  show ?case using nz r u lt label_byte [OF l(2)] by (subst dns_skip_question.simps) (simp add: e byte_at_def)
qed

text \<open>
  A resource record with the name of its owner: a pointer into the message, or the labels of the name
  with the closing zero.
\<close>

datatype owner = Pointer u8 u8 | Labels "bytes list"

record dns_record =
  rr_owner :: owner
  rr_type :: u16
  rr_class :: u16
  rr_ttl :: u32
  rr_data :: bytes

definition owner_enc :: "owner \<Rightarrow> bytes" where
  "owner_enc w = (case w of Pointer hi lo \<Rightarrow> [0xC0 OR hi, lo] | Labels ls \<Rightarrow> labels_enc ls @ [0])"

definition record_enc :: "dns_record \<Rightarrow> bytes" where
  "record_enc r = owner_enc (rr_owner r) @ be_enc 2 (rr_type r) @ be_enc 2 (rr_class r) @ be_enc 4 (rr_ttl r) @
     be_enc 2 (of_nat (length (rr_data r)) :: u16) @ rr_data r"

definition wire_label :: "bytes \<Rightarrow> bool" where
  "wire_label l \<longleftrightarrow> l \<noteq> [] \<and> length l \<le> 63"

definition record_ok :: "dns_record \<Rightarrow> bool" where
  "record_ok r \<longleftrightarrow> length (rr_data r) < 2 ^ 16 \<and> (case rr_owner r of Pointer _ _ \<Rightarrow> True | Labels ls \<Rightarrow> (\<forall>l \<in> set ls. wire_label l))"

definition address_record :: "dns_record \<Rightarrow> bool" where
  "address_record r \<longleftrightarrow> rr_type r = 1 \<and> length (rr_data r) = 4"

lemma skip_owner_labels:
  assumes "\<forall>l \<in> set ls. wire_label l" "length p + length (labels_enc ls) < stop"
  shows "dns_skip_answer (p @ labels_enc ls @ 0 # q) stop (length p) = Some (length p + length (labels_enc ls))"
  using assms
proof (induction ls arbitrary: p)
  case Nil
  then show ?case by (subst dns_skip_answer.simps) (simp add: labels_enc_def)
next
  case (Cons l ls)
  have l: "l \<noteq> []" "length l \<le> 63" using Cons.prems(1) by (simp_all add: wire_label_def)
  have e: "labels_enc (l # ls) = (of_nat (length l) # l) @ labels_enc ls" by (simp add: labels_enc_def)
  have u: "unat (of_nat (length l) :: u8) = length l" using l(2) by (simp add: unat_of_nat_byte)
  then have nz: "(of_nat (length l) :: u8) \<noteq> 0" using l(1) by (metis length_0_conv unat_0)
  have r: "dns_skip_answer (p @ (of_nat (length l) # l) @ labels_enc ls @ 0 # q) stop (length p + length l + 1) =
      Some (length p + length l + 1 + length (labels_enc ls))"
    using Cons.IH [of "p @ of_nat (length l) # l"] Cons.prems by (simp add: e)
  have lt: "length p < stop" "min (length p + 1 + length l) stop = length p + length l + 1" using Cons.prems(2) by (simp_all add: e)
  show ?case using nz r u lt label_byte [OF l(2)] by (subst dns_skip_answer.simps) (simp add: e byte_at_def)
qed

lemma pointer_byte: "(0xC0 OR b) AND 0xC0 = (0xC0 :: u8)"
  by (simp add: bit_eq_iff bit_or_iff bit_and_iff)

lemma owner_skipped:
  assumes "case w of Pointer _ _ \<Rightarrow> True | Labels ls \<Rightarrow> (\<forall>l \<in> set ls. wire_label l)" "length p + length (owner_enc w) \<le> stop"
  shows "dns_answer_name (p @ owner_enc w @ q) stop (length p) = Some (length p + length (owner_enc w))"
proof (cases w)
  case (Pointer hi lo)
  then show ?thesis by (simp add: dns_answer_name_def byte_at_def owner_enc_def pointer_byte)
next
  case (Labels ls)
  let ?d = "p @ labels_enc ls @ 0 # q"
  have sk: "dns_skip_answer ?d stop (length p) = Some (length p + length (labels_enc ls))"
    using assms Labels by (intro skip_owner_labels) (simp_all add: owner_enc_def)
  have z: "byte_at ?d (length p + length (labels_enc ls)) = Some 0" by (simp add: byte_at_def nth_append)
  have "\<exists>b. byte_at ?d (length p) = Some b \<and> b AND 0xC0 = 0"
  proof (cases ls)
    case (Cons l ls')
    then have "length l \<le> 63" using assms(1) Labels by (simp add: wire_label_def)
    then show ?thesis using Cons label_byte by (simp add: labels_enc_def byte_at_def)
  qed (simp add: labels_enc_def byte_at_def)
  then show ?thesis using Labels sk z assms(2) by (auto simp: dns_answer_name_def owner_enc_def)
qed

lemma answers_records:
  assumes "\<forall>r \<in> set rs. record_ok r" "length p + length (concat (map record_enc rs)) \<le> stop"
  shows "dns_answers (p @ concat (map record_enc rs) @ q) stop (length rs) (length p) = Some (map_option (\<lambda>r. le_dec (rr_data r)) (List.find address_record rs))"
  using assms
proof (induction rs arbitrary: p)
  case (Cons r rs)
  let ?w = "owner_enc (rr_owner r)" and ?rd = "rr_data r"
  let ?q = "concat (map record_enc rs) @ q"
  let ?h = "be_enc 2 (rr_type r) @ be_enc 2 (rr_class r) @ be_enc 4 (rr_ttl r) @ be_enc 2 (of_nat (length ?rd) :: u16)"
  let ?d = "p @ ?w @ ?h @ ?rd @ ?q"
  define i where "i = length p + length ?w"
  have ok: "length ?rd < 2 ^ 16" "case rr_owner r of Pointer _ _ \<Rightarrow> True | Labels ls \<Rightarrow> (\<forall>l \<in> set ls. wire_label l)"
    using Cons.prems(1) by (simp_all add: record_ok_def)
  have d: "p @ concat (map record_enc (r # rs)) @ q = ?d" by (simp add: record_enc_def)
  have len: "i + 10 + length ?rd + length (concat (map record_enc rs)) \<le> stop" using Cons.prems(2) by (simp add: record_enc_def [of r] i_def)
  have nm: "dns_answer_name ?d stop (length p) = Some i" using owner_skipped [OF ok(2), of p stop "?h @ ?rd @ ?q"] len by (simp add: i_def)
  have t: "be16_at ?d i = Some (rr_type r)" "be16_at ?d (i + 8) = Some (of_nat (length ?rd))"
    by (simp_all add: be16_at_def fld_def segment_app1 segment_app2 segment_Cons segment_prefix i_def)
  have u: "unat (of_nat (length ?rd) :: u16) = length ?rd" using ok(1) by (simp add: unat_of_nat)
  have four: "(of_nat (length ?rd) :: u16) = 4 \<longleftrightarrow> length ?rd = 4" unfolding word_unat_eq_iff [of "of_nat (length ?rd)"] u by simp
  have a: "le32_at ?d (i + 10) = Some (le_dec ?rd)" if "length ?rd = 4"
    using that by (simp add: le32_at_def fld_def segment_app1 segment_app2 segment_Cons segment_prefix i_def)
  have rest: "dns_answers ?d stop (length rs) (i + 10 + length ?rd) = Some (map_option (\<lambda>r. le_dec (rr_data r)) (List.find address_record rs))"
  proof -
    have lp: "length (p @ ?w @ ?h @ ?rd) = i + 10 + length ?rd" by (simp add: i_def)
    with Cons.IH [of "p @ ?w @ ?h @ ?rd"] Cons.prems(1) len show ?thesis unfolding lp by simp
  qed
  have b: "length p < stop" "\<not> i + 10 > stop" "\<not> i + 10 + length ?rd > stop" using len by (simp_all add: i_def)
  have step: "dns_answers ?d stop (Suc (length rs)) (length p) =
      (if rr_type r = 1 \<and> length ?rd = 4 then map_option Some (le32_at ?d (i + 10))
       else Some (map_option (\<lambda>r. le_dec (rr_data r)) (List.find address_record rs)))"
    by (simp only: dns_answers.simps nm t b u four if_True if_False bind.bind_lunit Let_def rest)
  show ?case
  proof (cases "address_record r")
    case True
    then show ?thesis unfolding d list.size add_Suc_right add_0_right step using a by (simp add: address_record_def)
  next
    case False
    then have "\<not> (rr_type r = 1 \<and> length ?rd = 4)" by (simp add: address_record_def)
    with False show ?thesis unfolding d list.size add_Suc_right add_0_right step by (simp only: if_False list.simps find.simps)
  qed
qed simp

text \<open>
  An answer to the query, with its flags, some records and what follows them: the records of the
  authority and additional sections, whose numbers are \<open>ns\<close> and \<open>ar\<close>.
\<close>

definition dns_answer :: "u16 \<Rightarrow> u16 \<Rightarrow> u16 \<Rightarrow> u16 \<Rightarrow> bytes list \<Rightarrow> dns_record list \<Rightarrow> bytes \<Rightarrow> bytes" where
  "dns_answer qid flags ns ar ls rs tail = be_enc 2 qid @ be_enc 2 flags @ [0, 1] @ be_enc 2 (of_nat (length rs) :: u16) @ be_enc 2 ns @ be_enc 2 ar @
     labels_enc ls @ [0, 0, 1, 0, 1] @ concat (map record_enc rs) @ tail"

lemma length_records: "length (concat (map record_enc rs)) \<ge> length rs"
  by (induction rs) (auto simp: record_enc_def)

lemma dns_answer_handled:
  assumes "\<forall>l \<in> set ls. label_ok l" "\<forall>r \<in> set rs. record_ok r" "length (dns_answer qid flags ns ar ls rs tail) < 2 ^ 16" "dns_query_id s = qid"
  shows "dns_handler (dns_answer qid flags ns ar ls rs tail @ pad) (of_nat (length (dns_answer qid flags ns ar ls rs tail))) s =
    Some (if flags AND 0x000F \<noteq> 0 then s\<lparr>dns_waiting := False\<rparr>
          else if flags AND 0x8000 = 0 then s
          else case List.find address_record rs of
                 Some r \<Rightarrow> s\<lparr>dns_resolved_ip := le_dec (rr_data r), dns_waiting := False\<rparr>
               | None \<Rightarrow> if rs = [] \<or> dns_resolved_ip s = 0 then s\<lparr>dns_waiting := False\<rparr> else s)"
proof -
  define n where "n = (of_nat (length (dns_answer qid flags ns ar ls rs tail)) :: u16)"
  let ?R = "concat (map record_enc rs)"
  let ?h = "be_enc 2 qid @ be_enc 2 flags @ [0, 1] @ be_enc 2 (of_nat (length rs) :: u16) @ be_enc 2 ns @ be_enc 2 ar"
  let ?d = "?h @ labels_enc ls @ 0 # [0, 1, 0, 1] @ ?R @ tail @ pad"
  have d: "dns_answer qid flags ns ar ls rs tail @ pad = ?d" by (simp add: dns_answer_def)
  have len: "length (dns_answer qid flags ns ar ls rs tail) = 12 + length (labels_enc ls) + 5 + length ?R + length tail" by (simp add: dns_answer_def)
  have u: "unat n = 12 + length (labels_enc ls) + 5 + length ?R + length tail" unfolding n_def len [symmetric] using assms(3) by (simp add: unat_of_nat)
  have "length rs < 2 ^ 16" using length_records [of rs] assms(3) len by linarith
  then have rs: "unat (of_nat (length rs) :: u16) = length rs" "(of_nat (length rs) :: u16) = 0 \<longleftrightarrow> rs = []"
    by (simp_all add: unat_of_nat word_unat_eq_iff)
  have f: "be16_at ?d 0 = Some qid" "be16_at ?d 2 = Some flags" "be16_at ?d 4 = Some 1" "be16_at ?d 6 = Some (of_nat (length rs))"
    by (simp_all add: be16_at_def fld_def segment_app1 segment_app2 segment_Cons segment_prefix) (simp_all add: segment_def be_dec_def)
  let ?p = "12 + length (labels_enc ls)"
  have sk: "dns_skip_question ?d (unat n) 12 = Some ?p" using skip_labels [OF assms(1), of ?h "unat n" "[0, 1, 0, 1] @ ?R @ tail @ pad"] by (simp add: u)
  have z: "byte_at ?d ?p = Some 0" by (simp add: byte_at_def nth_append)
  have q: "dns_questions ?d (unat n) (unat (1 :: u16)) 12 = Some (?p + 5)" using sk z by (simp add: u)
  have a: "dns_answers ?d (unat n) (length rs) (?p + 5) = Some (map_option (\<lambda>r. le_dec (rr_data r)) (List.find address_record rs))"
  proof -
    have lp: "length (?h @ labels_enc ls @ [0, 0, 1, 0, 1]) = ?p + 5" by simp
    have "?p + 5 + length ?R \<le> unat n" by (simp add: u)
    with answers_records [OF assms(2), of "?h @ labels_enc ls @ [0, 0, 1, 0, 1]" "unat n" "tail @ pad"] show ?thesis unfolding lp by simp
  qed
  have "0 < length ?R" if "rs \<noteq> []" using length_records [of rs] that by (metis length_greater_0_conv less_le_trans)
  then have l: "\<not> n < 12" "rs \<noteq> [] \<Longrightarrow> \<not> ?p + 5 \<ge> unat n" by (simp_all only: u word_less_nat_alt) simp_all
  show ?thesis unfolding d n_def [symmetric] dns_handler_def using l(2)
    by (simp only: l(1) f q a rs assms(4) if_False bind.bind_lunit Let_def simp_thms) (cases "rs = []"; auto split: option.split)
qed

text \<open>
  C38: A name is resolved: the query for a host name carries its labels, and a message that answers it
  is read as its fields say, whether the owners of its records are given as pointers or as full names.
  An error code ends the waiting, a message that is not a response is ignored, and otherwise the
  address is that of the first address record among the answers, whatever other records come before
  it or follow; without one the waiting ends unless an address is already known.
\<close>

theorem dns_query_answered:
  assumes "\<forall>l \<in> set ls. label_ok l" and "length (labels_enc ls) \<le> 494" and "\<forall>r \<in> set rs. record_ok r"
    and "length (dns_answer qid flags ns ar ls rs tail) < 2 ^ 16" and "dns_query_id s = qid"
  shows "dns_query qid (join_labels ls) = Some (be_enc 2 qid @ [1, 0, 0, 1, 0, 0, 0, 0, 0, 0] @ labels_enc ls @ [0, 0, 1, 0, 1]) \<and>
    dns_handler (dns_answer qid flags ns ar ls rs tail @ pad) (of_nat (length (dns_answer qid flags ns ar ls rs tail))) s =
    Some (if flags AND 0x000F \<noteq> 0 then s\<lparr>dns_waiting := False\<rparr>
          else if flags AND 0x8000 = 0 then s
          else case List.find address_record rs of
                 Some r \<Rightarrow> s\<lparr>dns_resolved_ip := le_dec (rr_data r), dns_waiting := False\<rparr>
               | None \<Rightarrow> if rs = [] \<or> dns_resolved_ip s = 0 then s\<lparr>dns_waiting := False\<rparr> else s)"
proof -
  have nz: "0 \<notin> set (join_labels ls)" using assms(1) by (induction ls rule: join_labels.induct) (auto simp: label_ok_def)
  have "dns_query qid (join_labels ls) = Some (be_enc 2 qid @ [1, 0, 0, 1, 0, 0, 0, 0, 0, 0] @ labels_enc ls @ [0, 0, 1, 0, 1])"
    using assms(2) by (simp add: dns_query_def cstr_id [OF nz] encode_join [OF assms(1)])
  then show ?thesis using dns_answer_handled [OF assms(1,3-5)] by blast
qed

text \<open>The hypotheses hold for an answer with an alias, a full name with an address, and an additional section.\<close>

definition example_records :: "dns_record list" where
  "example_records = [\<lparr>rr_owner = Pointer 0 12, rr_type = 5, rr_class = 1, rr_ttl = 60, rr_data = [1, 120, 0]\<rparr>,
     \<lparr>rr_owner = Labels [[120]], rr_type = 1, rr_class = 1, rr_ttl = 60, rr_data = [10, 0, 0, 9]\<rparr>]"

definition example_answer :: bytes where
  "example_answer = dns_answer 1 0x8580 0 1 [[97, 98], [99]] example_records [0, 0, 41]"

theorem dns_query_answered_witness:
  "dns_handler example_answer (of_nat (length example_answer)) ((example_host 1 [] 2 [])\<lparr>dns_query_id := 1\<rparr>) =
    Some ((example_host 1 [] 2 [])\<lparr>dns_query_id := 1, dns_resolved_ip := 0x0900000A, dns_waiting := False\<rparr>)"
proof -
  let ?s = "(example_host 1 [] 2 [])\<lparr>dns_query_id := 1\<rparr>"
  have ok: "\<forall>l \<in> set [[97, 98], [99 :: u8]]. label_ok l" "length (labels_enc [[97, 98], [99]]) \<le> 494" "\<forall>r \<in> set example_records. record_ok r"
    "length (dns_answer 1 0x8580 0 1 [[97, 98], [99]] example_records [0, 0, 41]) < 2 ^ 16" "dns_query_id ?s = 1"
    by (simp_all add: label_ok_def labels_enc_def dns_answer_def record_enc_def owner_enc_def record_ok_def wire_label_def example_records_def)
  have "List.find address_record example_records = Some (example_records ! 1)" "le_dec (rr_data (example_records ! 1)) = (0x0900000A :: u32)"
    by (simp_all add: example_records_def address_record_def)
  with dns_query_answered [OF ok, of "[]"] show ?thesis by (simp add: example_answer_def)
qed

text \<open>
  The other form of a name, labels that end in a pointer, is misread: the parser skips the byte behind
  the pointer when it is zero, which is the first byte of the type, and does not find the address.
\<close>

lemma mixed_owner_misread:
  "dns_answers ([1, 120, 0xC0, 12] @ [0, 1] @ [0, 1] @ [0, 0, 0, 60] @ [0, 4] @ [10, 0, 0, 9]) 18 1 0 = Some None"
proof -
  let ?d = "[1, 120, 0xC0, 12] @ [0, 1] @ [0, 1] @ [0, 0, 0, 60] @ [0, 4] @ [10, 0, 0, 9] :: bytes"
  have "dns_skip_answer ?d 18 0 = Some 4" by (simp add: dns_skip_answer.simps [of _ _ 0] dns_skip_answer.simps [of _ _ "Suc (Suc 0)"])
  then have "dns_answer_name ?d 18 0 = Some 5" by (simp add: dns_answer_name_def)
  then show ?thesis by (simp add: numeral_nat(7) be16_at_def fld_def segment_def be_dec_def)
qed

end
