(* ===== verification/Net_Steps.thy ===== *)
theory Net_Steps
  imports Net_Frames
begin

unbundle bit_operations_syntax

text \<open>
  What handling packets can do to the state in the calls that return, however deeply sending and receiving are
  nested in them: a relation that every elementary change respects is respected by the whole stack. Three
  instances, on the configuration of the host, the states of TCP connections and the received data, are used for
  single segments and for the loops that wait.
\<close>

section \<open>Relations that every packet respects\<close>

locale stack_relation =
  fixes R :: "net \<Rightarrow> net \<Rightarrow> bool"
  assumes R_refl: "R s s"
    and R_trans: "R s s' \<Longrightarrow> R s' s'' \<Longrightarrow> R s s''"
    and R_dev: "R s (s\<lparr>e1000_dev := e\<rparr>)"
    and R_arp: "R s (arp_cache_add ip m s)"
    and R_reply: "R s (s\<lparr>replies := rs\<rparr>)"
    and R_received: "R s (s\<lparr>reply_received := b\<rparr>)"
    and R_handler: "call_handler h d len s = Some s' \<Longrightarrow> R s s'"
    and R_data: "http_tcp_data_received d n s = Some s' \<Longrightarrow> R s s'"
    and R_ack: "R s (upd_sock i (\<lambda>k. k\<lparr>ts_ack_num := x\<rparr>) s)"
    and R_open: "ts_state (tcp_sockets s ! i) = TCP_STATE_SYN_SENT \<Longrightarrow> R s (upd_sock i (\<lambda>k. k\<lparr>ts_ack_num := x, ts_state := TCP_STATE_ESTABLISHED\<rparr>) s)"
    and R_fin: "ts_state (tcp_sockets s ! i) = TCP_STATE_ESTABLISHED \<Longrightarrow>
      R (upd_sock i (\<lambda>k. k\<lparr>ts_ack_num := x, ts_state := TCP_STATE_CLOSE_WAIT\<rparr>) s) s' \<Longrightarrow>
      R s (upd_sock i (\<lambda>k. k\<lparr>ts_seq_num := ts_seq_num k + 1, ts_state := TCP_STATE_LAST_ACK\<rparr>) s')"
    and R_closed: "ts_state (tcp_sockets s ! i) = TCP_STATE_LAST_ACK \<Longrightarrow> R s (upd_sock i (\<lambda>k. k\<lparr>ts_state := TCP_STATE_CLOSED\<rparr>) s)"
begin

definition keeps :: "(net \<Rightarrow> net option) \<Rightarrow> bool" where
  "keeps f \<longleftrightarrow> (\<forall>s s'. f s = Some s' \<longrightarrow> R s s')"

definition send_keeps :: "ip_send \<Rightarrow> bool" where
  "send_keeps send \<longleftrightarrow> (\<forall>ip pr d n s r s'. send ip pr d n s = Some (r, s') \<longrightarrow> R s s')"

lemma send_keepsD: "send_keeps send \<Longrightarrow> send ip pr d n s = Some (r, s') \<Longrightarrow> R s s'"
  by (auto simp: send_keeps_def)

lemma keepsD: "keeps f \<Longrightarrow> f s = Some s' \<Longrightarrow> R s s'"
  by (auto simp: keeps_def)

lemma e1000_send_keeps: "e1000_send_packet d n s = Some (r, s') \<Longrightarrow> R s s'"
  by (auto simp: e1000_send_packet_def Let_def R_refl R_dev split: if_splits bind_splits)

lemma ethernet_keeps: "net_send_ethernet m et d n s = Some (r, s') \<Longrightarrow> R s s'"
  by (auto simp: net_send_ethernet_def Let_def split: bind_splits intro: e1000_send_keeps)

lemma arp_receive_keeps: "arp_receive d n s = Some s' \<Longrightarrow> R s s'"
  by (auto simp: arp_receive_def Let_def R_refl R_arp split: if_splits bind_splits intro: R_trans [OF R_arp ethernet_keeps])

lemma icmp_receive_keeps: "send_keeps send \<Longrightarrow> icmp_receive send src d n s = Some s' \<Longrightarrow> R s s'"
  by (auto simp: icmp_receive_def Let_def R_refl R_reply R_received split: if_splits bind_splits intro: send_keepsD R_trans [OF R_reply R_received])

lemma udp_receive_keeps: "udp_receive src d n s = Some s' \<Longrightarrow> R s s'"
  by (auto simp: udp_receive_def Let_def R_refl split: if_splits bind_splits option.splits intro: R_handler)

lemma tcp_send_packet_keeps: "send_keeps send \<Longrightarrow> tcp_send_packet send i fl d n s = Some (r, s') \<Longrightarrow> R s s'"
  by (auto simp: tcp_send_packet_def Let_def split: bind_splits intro: send_keepsD)

lemma tcp_receive_keeps:
  assumes "send_keeps send" "tcp_receive send src d n s = Some s'"
  shows "R s s'"
  using assms(2) unfolding tcp_receive_def Let_def
  by (auto simp: R_refl R_closed split: if_splits bind_splits option.splits
      intro: R_fin [OF _ R_trans [OF tcp_send_packet_keeps [OF assms(1)] tcp_send_packet_keeps [OF assms(1)]]]
        R_trans [OF R_open tcp_send_packet_keeps [OF assms(1)]]
        R_trans [OF R_data R_trans [OF R_ack tcp_send_packet_keeps [OF assms(1)]]])

lemma net_receive_keeps: "send_keeps send \<Longrightarrow> net_receive_packet send d n s = Some s' \<Longrightarrow> R s s'"
  by (auto simp: net_receive_packet_def Let_def R_refl split: if_splits bind_splits
      intro: arp_receive_keeps icmp_receive_keeps udp_receive_keeps tcp_receive_keeps)

lemma arrive_keeps: "R s (nic_arrive s)"
  by (simp add: nic_arrive_def Let_def R_refl R_dev split: list.split)

lemma rx_loop_keeps:
  assumes "rx_loop receive idx s = Some y" "\<And>d n s s'. receive d n s = Some s' \<Longrightarrow> R s s'"
  shows "R s (snd y)"
proof -
  have "(\<forall>d n s s'. receive d n s = Some s' \<longrightarrow> R s s') \<longrightarrow> R s (snd y)"
  proof (rule rx_loop.raw_induct [OF _ assms(1), where P = "\<lambda>receive idx s y. (\<forall>d n s s'. receive d n s = Some s' \<longrightarrow> R s s') \<longrightarrow> R s (snd y)"], intro impI)
    fix loop receive idx s y
    assume IH: "\<And>receive idx s y. loop receive idx s = Some y \<Longrightarrow> (\<forall>d n s s'. receive d n s = Some s' \<longrightarrow> R s s') \<longrightarrow> R s (snd y)"
      and body: "(let s = nic_arrive s; desc = e_rx_descs (e1000_dev s) ! idx in
        if rx_status desc AND 1 \<noteq> 0 then do {
          s \<leftarrow> receive (rx_buffer desc) (rx_length desc) s;
          let e = e1000_dev s;
          let s = s\<lparr>e1000_dev := e\<lparr>e_rx_descs := (e_rx_descs e)[idx := (e_rx_descs e ! idx)\<lparr>rx_status := 0\<rparr>]\<rparr>\<rparr>;
          loop receive ((idx + 1) mod 32) s }
        else Some (idx, s)) = Some y"
      and rcv: "\<forall>d n s s'. receive d n s = Some s' \<longrightarrow> R s s'"
    let ?t = "nic_arrive s"
    show "R s (snd y)"
    proof (cases "rx_status (e_rx_descs (e1000_dev ?t) ! idx) AND 1 \<noteq> 0")
      case True
      then obtain s1 e where s1: "receive (rx_buffer (e_rx_descs (e1000_dev ?t) ! idx)) (rx_length (e_rx_descs (e1000_dev ?t) ! idx)) ?t = Some s1"
        "loop receive ((idx + 1) mod 32) (s1\<lparr>e1000_dev := e\<rparr>) = Some y"
        using body by (auto simp: Let_def split: bind_splits)
      then have "R ?t s1" "R s1 (s1\<lparr>e1000_dev := e\<rparr>)" "R (s1\<lparr>e1000_dev := e\<rparr>) (snd y)" using rcv IH R_dev by blast+
      then show ?thesis using R_trans arrive_keeps by blast
    next
      case False
      then show ?thesis using body arrive_keeps by (auto simp: Let_def)
    qed
  qed
  then show ?thesis using assms(2) by blast
qed

lemma interrupt_keeps:
  assumes "send_keeps send"
  shows "keeps (e1000_interrupt send)"
  unfolding keeps_def
proof (intro allI impI)
  fix s s'
  assume "e1000_interrupt send s = Some s'"
  then consider "s' = s" | idx s1 where "rx_loop (net_receive_packet send) (e_rx_cur (e1000_dev s)) s = Some (idx, s1)"
      "s' = s1\<lparr>e1000_dev := (e1000_dev s1)\<lparr>e_rx_cur := idx\<rparr>\<rparr>"
    by (auto simp: e1000_interrupt_def e1000_poll_def Let_def split: if_splits bind_splits)
  then show "R s s'"
  proof cases
    case 2
    have "R s s1" using rx_loop_keeps [OF 2(1)] net_receive_keeps [OF assms] by simp
    then show ?thesis unfolding 2(2) using R_trans R_dev by blast
  qed (simp add: R_refl)
qed

lemma poll_times_keeps: "keeps poll \<Longrightarrow> poll_times poll n s = Some s' \<Longrightarrow> R s s'"
  by (induction n arbitrary: s) (auto simp: R_refl split: bind_splits intro: R_trans [OF keepsD])

lemma arp_wait_keeps: "keeps poll \<Longrightarrow> arp_wait poll ip n s = Some (r, s') \<Longrightarrow> R s s'"
  by (induction n arbitrary: s) (auto simp: R_refl split: bind_splits option.splits intro: poll_times_keeps R_trans [OF poll_times_keeps])

lemma arp_retry_keeps: "keeps poll \<Longrightarrow> arp_retry poll ip n s = Some (r, s') \<Longrightarrow> R s s'"
proof (induction n arbitrary: s)
  case (Suc n)
  then obtain s1 q s2 where s1: "arp_send_request ip s = Some s1" "arp_wait poll ip 500 s1 = Some (q, s2)"
    and q: "q = None \<and> arp_retry poll ip n s2 = Some (r, s') \<or> q \<noteq> None \<and> s2 = s'"
    by (auto split: bind_splits option.splits)
  have "R s s1" using s1(1) by (auto simp: arp_send_request_def Let_def split: bind_splits intro: ethernet_keeps)
  then have "R s s2" using arp_wait_keeps [OF Suc.prems(1) s1(2)] R_trans by blast
  then show ?case using q Suc.IH [OF Suc.prems(1)] R_trans by blast
qed (simp add: R_refl)

lemma resolve_keeps: "keeps poll \<Longrightarrow> arp_resolve poll ip s = Some (r, s') \<Longrightarrow> R s s'"
  by (auto simp: arp_resolve_def R_refl split: option.splits intro: arp_retry_keeps)

lemma route_keeps:
  assumes "send_keeps send" "net_route send src ip s = Some (r, s')"
  shows "R s s'"
  using assms(2) resolve_keeps [OF interrupt_keeps [OF assms(1)]] by (auto simp: net_route_def Let_def R_refl split: if_splits)

lemma loopback_keeps:
  assumes "send_keeps send" "net_loopback send src pr d n s = Some (r, s')"
  shows "R s s'"
  using assms(2) icmp_receive_keeps [OF assms(1)] udp_receive_keeps tcp_receive_keeps [OF assms(1)]
  by (auto simp: net_loopback_def R_refl split: if_splits bind_splits)

lemma ipv4_body_keeps:
  assumes "send_keeps send"
  shows "send_keeps (ipv4_body send)"
  unfolding send_keeps_def
proof (intro allI impI)
  fix ip pr d n s r s'
  assume "ipv4_body send ip pr d n s = Some (r, s')"
  then consider src where "net_loopback send src pr d n s = Some (r, s')"
    | src m s1 b k where "net_route send src ip s = Some (m, s1)" "m = None \<and> s' = s1 \<or> (\<exists>a. m = Some a \<and> net_send_ethernet a ETH_TYPE_IPV4 b k s1 = Some (r, s'))"
    by (auto simp: ipv4_body_def Let_def split: if_splits bind_splits option.splits)
  then show "R s s'"
  proof cases
    case 2
    then show ?thesis using route_keeps [OF assms 2(1)] ethernet_keeps R_trans by blast
  qed (rule loopback_keeps [OF assms])
qed

lemma send_ipv4_keeps: "send_keeps (net_send_ipv4 depth)"
  by (induction depth) (simp_all add: send_keeps_def [of "\<lambda>ip pr d n s. None"] ipv4_body_keeps)

lemma handler_keeps: "e1000_interrupt_handler depth s = Some s' \<Longrightarrow> R s s'"
  unfolding e1000_interrupt_handler_def using interrupt_keeps [OF send_ipv4_keeps] by (rule keepsD)

lemma net_send_keeps: "net_send_ipv4 depth ip pr d n s = Some (r, s') \<Longrightarrow> R s s'"
  using send_ipv4_keeps by (rule send_keepsD)

lemma rounds_keep: "rounds_until (e1000_interrupt_handler depth) P k n s = Some (r, s') \<Longrightarrow> R s s'"
proof (induction n arbitrary: s)
  case (Suc n)
  have p: "keeps (e1000_interrupt_handler depth)" by (simp add: keeps_def handler_keeps)
  from Suc.prems obtain s1 where s1: "poll_times (e1000_interrupt_handler depth) k s = Some s1" "s1 = s' \<or> rounds_until (e1000_interrupt_handler depth) P k n s1 = Some (r, s')"
    by (auto split: bind_splits if_splits)
  then show ?case using poll_times_keeps [OF p s1(1)] Suc.IH R_trans by blast
qed (simp add: R_refl)

end

section \<open>The configuration\<close>

definition config_kept :: "net \<Rightarrow> net \<Rightarrow> bool" where
  "config_kept s s' \<longleftrightarrow> net_config s' = net_config s \<and> dns_server s' = dns_server s \<and> udp_handlers s' = udp_handlers s \<and> next_port s' = next_port s"

lemma arp_add_fields:
  "net_config (arp_cache_add ip m s) = net_config s" "dns_server (arp_cache_add ip m s) = dns_server s" "udp_handlers (arp_cache_add ip m s) = udp_handlers s"
  "next_port (arp_cache_add ip m s) = next_port s" "tcp_sockets (arp_cache_add ip m s) = tcp_sockets s"
  "http_response_buffer (arp_cache_add ip m s) = http_response_buffer s" "http_response_len (arp_cache_add ip m s) = http_response_len s"
  by (auto simp: arp_cache_add_def Let_def split: option.split)

text \<open>What the handlers of datagrams leave alone.\<close>

definition handler_frame :: "net \<Rightarrow> net \<Rightarrow> bool" where
  "handler_frame s s' \<longleftrightarrow> config_kept s s' \<and> tcp_sockets s' = tcp_sockets s \<and> http_response_buffer s' = http_response_buffer s \<and> http_response_len s' = http_response_len s"

lemma frame_refl: "handler_frame s s" and frame_trans: "handler_frame s s' \<Longrightarrow> handler_frame s' s'' \<Longrightarrow> handler_frame s s''"
  by (simp_all add: handler_frame_def config_kept_def)

lemma dhcp_option_frame: "dhcp_option d i op n (t, s) = Some (t', s') \<Longrightarrow> handler_frame s s'"
  by (auto simp: dhcp_option_def handler_frame_def config_kept_def split: if_splits)

lemma dhcp_options_frame: "dhcp_options d len i ms = Some ms' \<Longrightarrow> handler_frame (snd ms) (snd ms')"
proof (induction d len i ms rule: dhcp_options.induct)
  case (1 d len i ms)
  note e = "1.prems" [unfolded dhcp_options.simps [of d len i ms]]
  show ?case
  proof (cases "i + 2 < len")
    case True
    then obtain b where b: "byte_at d i = Some b" using e by (auto split: bind_splits)
    consider "b = 0xFF" | "b \<noteq> 0xFF" "b = 0" | "b \<noteq> 0xFF" "b \<noteq> 0" by blast
    then show ?thesis
    proof cases
      case 1
      then show ?thesis using e True b by (simp add: frame_refl)
    next
      case 2
      then show ?thesis using "1.IH"(1) [OF True b 2] e True b by simp
    next
      case 3
      obtain n where n: "byte_at d (i + 1) = Some n" using e True b 3 by (auto split: bind_splits)
      show ?thesis
      proof (cases "i + 2 + unat n > len")
        case False
        then obtain m where m: "dhcp_option d (i + 2) b n ms = Some m" "dhcp_options d len (i + 2 + unat n) m = Some ms'"
          using e True b 3 n by (auto split: bind_splits)
        show ?thesis using frame_trans [OF _ "1.IH"(2) [OF True b 3 n False m]] dhcp_option_frame [of d "i + 2" b n "fst ms" "snd ms" "fst m" "snd m"] m(1) by simp
      qed (use e True b 3 n in \<open>simp add: frame_refl\<close>)
    qed
  qed (use e in \<open>simp add: frame_refl\<close>)
qed

lemma handler_frame: "call_handler h d n s = Some s' \<Longrightarrow> handler_frame s s'"
proof (cases h)
  case Dhcp_Rx
  assume a: "call_handler h d n s = Some s'"
  have f: "handler_frame s t" if "dhcp_options d (unat n) 240 (0, s\<lparr>offer_ip := ip\<rparr>) = Some (m, t)" for ip m t
    using dhcp_options_frame [OF that] by (simp add: handler_frame_def config_kept_def)
  have "handler_frame s t \<Longrightarrow> handler_frame s (t\<lparr>got_offer := x\<rparr>)" "handler_frame s t \<Longrightarrow> handler_frame s (t\<lparr>got_ack := x\<rparr>)"
    "handler_frame s (s\<lparr>offer_ip := ip\<rparr>)" for t x ip
    by (simp_all add: handler_frame_def config_kept_def)
  then show ?thesis using a f Dhcp_Rx by (auto simp: call_handler_def dhcp_rx_def Let_def frame_refl split: if_splits bind_splits)
next
  case Dns_Handler
  assume "call_handler h d n s = Some s'"
  then show ?thesis using Dns_Handler
    by (auto simp: call_handler_def dns_handler_def Let_def handler_frame_def config_kept_def split: if_splits bind_splits option.splits)
qed

lemma http_data_frame:
  assumes "http_tcp_data_received d n s = Some s'"
  shows "config_kept s s'" "tcp_sockets s' = tcp_sockets s"
  using assms by (auto simp: http_tcp_data_received_def config_kept_def Let_def split: bind_splits)

interpretation config: stack_relation config_kept
proof unfold_locales
  show "config_kept s s'" if "call_handler h d len s = Some s'" for h d len s s' using handler_frame [OF that] by (simp add: handler_frame_def)
  show "config_kept s s'" if "http_tcp_data_received d n s = Some s'" for d n s s' using http_data_frame [OF that] by simp
qed (simp_all add: config_kept_def arp_add_fields upd_sock_def)

text \<open>
  A call of the interrupt handler that returns, however deeply the handling of packets is nested in it, does
  not reconfigure the host: the addresses of the host, its DNS server, the handlers of the ports and the next port to be
  used stay the same.
\<close>

lemma packets_keep_config:
  assumes "e1000_interrupt_handler depth s = Some s'"
  shows "net_config s' = net_config s \<and> dns_server s' = dns_server s \<and> udp_handlers s' = udp_handlers s \<and> next_port s' = next_port s"
  using config.handler_keeps [OF assms] by (simp add: config_kept_def)

section \<open>The states of a connection\<close>

text \<open>The state changes that a received segment makes.\<close>

inductive tcp_edge :: "u8 \<Rightarrow> u8 \<Rightarrow> bool" where
  opened: "tcp_edge TCP_STATE_SYN_SENT TCP_STATE_ESTABLISHED"
| finished: "tcp_edge TCP_STATE_ESTABLISHED TCP_STATE_CLOSE_WAIT"
| answered: "tcp_edge TCP_STATE_ESTABLISHED TCP_STATE_LAST_ACK"
| closed: "tcp_edge TCP_STATE_LAST_ACK TCP_STATE_CLOSED"

lemmas tcp_state_defs = TCP_STATE_CLOSED_def TCP_STATE_SYN_SENT_def TCP_STATE_ESTABLISHED_def TCP_STATE_FIN_WAIT_1_def TCP_STATE_CLOSE_WAIT_def TCP_STATE_LAST_ACK_def

lemma no_edge_from: "\<not> tcp_edge TCP_STATE_CLOSE_WAIT x" "\<not> tcp_edge TCP_STATE_FIN_WAIT_1 x" "\<not> tcp_edge TCP_STATE_CLOSED x"
  by (auto simp: tcp_edge.simps tcp_state_defs)

lemma stuck_states: "tcp_edge\<^sup>*\<^sup>* a b \<Longrightarrow> a \<in> {TCP_STATE_CLOSE_WAIT, TCP_STATE_FIN_WAIT_1, TCP_STATE_CLOSED} \<Longrightarrow> b = a"
  by (induction rule: converse_rtranclp_induct) (use no_edge_from in auto)

definition tcp_rel :: "net \<Rightarrow> net \<Rightarrow> bool" where
  "tcp_rel s s' \<longleftrightarrow> length (tcp_sockets s') = length (tcp_sockets s) \<and>
     (\<forall>i < length (tcp_sockets s). tcp_edge\<^sup>*\<^sup>* (ts_state (tcp_sockets s ! i)) (ts_state (tcp_sockets s' ! i)))"

lemma tcp_rel_same: "tcp_sockets s' = tcp_sockets s \<Longrightarrow> tcp_rel s s'"
  by (simp add: tcp_rel_def)

lemma tcp_rel_upd:
  assumes "i < length (tcp_sockets s) \<Longrightarrow> tcp_edge\<^sup>*\<^sup>* (ts_state (tcp_sockets s ! i)) (ts_state (f (tcp_sockets s ! i)))"
  shows "tcp_rel s (upd_sock i f s)"
  unfolding tcp_rel_def
proof (intro conjI allI impI)
  fix j assume "j < length (tcp_sockets s)"
  then show "tcp_edge\<^sup>*\<^sup>* (ts_state (tcp_sockets s ! j)) (ts_state (tcp_sockets (upd_sock i f s) ! j))"
    using assms by (cases "j = i") (simp_all add: upd_sock_def)
qed (simp add: upd_sock_def)

lemma edge_steps:
  "tcp_edge\<^sup>*\<^sup>* TCP_STATE_SYN_SENT TCP_STATE_ESTABLISHED" "tcp_edge\<^sup>*\<^sup>* TCP_STATE_ESTABLISHED TCP_STATE_LAST_ACK" "tcp_edge\<^sup>*\<^sup>* TCP_STATE_LAST_ACK TCP_STATE_CLOSED"
  by (rule r_into_rtranclp, rule tcp_edge.intros)+

interpretation tcp: stack_relation tcp_rel
proof unfold_locales
  show "tcp_rel s s''" if "tcp_rel s s'" "tcp_rel s' s''" for s s' s''
    using that unfolding tcp_rel_def by (metis rtranclp_trans)
  show "tcp_rel s s'" if "call_handler h d len s = Some s'" for h d len s s' using handler_frame [OF that] by (simp add: handler_frame_def tcp_rel_same)
  show "tcp_rel s s'" if "http_tcp_data_received d n s = Some s'" for d n s s' using http_data_frame [OF that] by (simp add: tcp_rel_same)
  show "tcp_rel s (upd_sock i (\<lambda>k. k\<lparr>ts_ack_num := x, ts_state := TCP_STATE_ESTABLISHED\<rparr>) s)"
    if "ts_state (tcp_sockets s ! i) = TCP_STATE_SYN_SENT" for s i x using that by (intro tcp_rel_upd) (simp add: edge_steps)
  show "tcp_rel s (upd_sock i (\<lambda>k. k\<lparr>ts_state := TCP_STATE_CLOSED\<rparr>) s)"
    if "ts_state (tcp_sockets s ! i) = TCP_STATE_LAST_ACK" for s i using that by (intro tcp_rel_upd) (simp add: edge_steps)
  fix s s' i x
  assume e: "ts_state (tcp_sockets s ! i) = TCP_STATE_ESTABLISHED"
    and r: "tcp_rel (upd_sock i (\<lambda>k. k\<lparr>ts_ack_num := x, ts_state := TCP_STATE_CLOSE_WAIT\<rparr>) s) s'"
  show "tcp_rel s (upd_sock i (\<lambda>k. k\<lparr>ts_seq_num := ts_seq_num k + 1, ts_state := TCP_STATE_LAST_ACK\<rparr>) s')"
    unfolding tcp_rel_def
  proof (intro conjI allI impI)
    show "length (tcp_sockets (upd_sock i (\<lambda>k. k\<lparr>ts_seq_num := ts_seq_num k + 1, ts_state := TCP_STATE_LAST_ACK\<rparr>) s')) = length (tcp_sockets s)"
      using r by (simp add: tcp_rel_def upd_sock_def)
    fix j
    assume j: "j < length (tcp_sockets s)"
    show "tcp_edge\<^sup>*\<^sup>* (ts_state (tcp_sockets s ! j)) (ts_state (tcp_sockets (upd_sock i (\<lambda>k. k\<lparr>ts_seq_num := ts_seq_num k + 1, ts_state := TCP_STATE_LAST_ACK\<rparr>) s') ! j))"
      using r e j edge_steps(2) by (cases "j = i") (auto simp: tcp_rel_def upd_sock_def)
  qed
qed (auto intro: tcp_rel_same tcp_rel_upd simp: arp_add_fields)

text \<open>
  In a call of the interrupt handler that returns, a connection changes its state only along the edges
  from SYN-SENT to ESTABLISHED, from there to LAST-ACK when the peer closes, and on to CLOSED; a connection
  that is closed or waits in FIN-WAIT-1 stays as it is.
\<close>

lemma tcp_state_edges:
  assumes "e1000_interrupt_handler depth s = Some s'" and "i < length (tcp_sockets s)"
  shows "tcp_edge\<^sup>*\<^sup>* (ts_state (tcp_sockets s ! i)) (ts_state (tcp_sockets s' ! i)) \<and>
    (ts_state (tcp_sockets s ! i) \<in> {TCP_STATE_CLOSED, TCP_STATE_FIN_WAIT_1} \<longrightarrow> ts_state (tcp_sockets s' ! i) = ts_state (tcp_sockets s ! i))"
proof -
  have "tcp_edge\<^sup>*\<^sup>* (ts_state (tcp_sockets s ! i)) (ts_state (tcp_sockets s' ! i))" using tcp.handler_keeps [OF assms(1)] assms(2) by (simp add: tcp_rel_def)
  then show ?thesis using stuck_states by blast
qed

text \<open>
  Closing an established connection never sees the peer close it: the acknowledgement of its FIN is
  not handled, so the loop that waits for the connection to be closed runs through all of its rounds.
\<close>

lemma tcp_close_waits_in_vain:
  assumes "rounds_until (e1000_interrupt_handler depth) (\<lambda>s. ts_state (tcp_sockets s ! i) = TCP_STATE_CLOSED) k n s = Some (r, s')"
    and "ts_state (tcp_sockets s ! i) = TCP_STATE_FIN_WAIT_1" and "i < length (tcp_sockets s)"
  shows "\<not> r \<and> ts_state (tcp_sockets s' ! i) = TCP_STATE_FIN_WAIT_1"
  using assms
proof (induction n arbitrary: s)
  case (Suc n)
  have p: "tcp.keeps (e1000_interrupt_handler depth)" by (simp add: tcp.keeps_def tcp.handler_keeps)
  from Suc.prems(1) obtain s1 where s1: "poll_times (e1000_interrupt_handler depth) k s = Some s1" by (auto split: bind_splits)
  then have "tcp_rel s s1" by (rule tcp.poll_times_keeps [OF p])
  then have w: "ts_state (tcp_sockets s1 ! i) = TCP_STATE_FIN_WAIT_1" "i < length (tcp_sockets s1)"
    using Suc.prems(2,3) stuck_states [of TCP_STATE_FIN_WAIT_1] by (auto simp: tcp_rel_def)
  then have "rounds_until (e1000_interrupt_handler depth) (\<lambda>s. ts_state (tcp_sockets s ! i) = TCP_STATE_CLOSED) k n s1 = Some (r, s')"
    using Suc.prems(1) s1 by (simp add: tcp_state_defs)
  then show ?case using Suc.IH w by blast
qed simp

section \<open>Received data\<close>

text \<open>The response buffer is as declared, and its first \<open>http_response_len\<close> bytes hold the data received so far.\<close>

definition http_ok :: "net \<Rightarrow> bool" where
  "http_ok s \<longleftrightarrow> length (http_response_buffer s) = HTTP_RESPONSE_MAX \<and> http_response_len s \<le> HTTP_RESPONSE_MAX"

definition http_data :: "net \<Rightarrow> bytes" where
  "http_data s = take (http_response_len s) (http_response_buffer s)"

definition http_rel :: "net \<Rightarrow> net \<Rightarrow> bool" where
  "http_rel s s' \<longleftrightarrow> (http_ok s \<longrightarrow> http_ok s' \<and> (\<exists>d. http_data s' = http_data s @ d))"

lemma http_rel_same: "http_response_buffer s' = http_response_buffer s \<Longrightarrow> http_response_len s' = http_response_len s \<Longrightarrow> http_rel s s'"
  by (simp add: http_rel_def http_ok_def http_data_def)

lemma http_data_appended:
  assumes "http_tcp_data_received d n s = Some s'" "http_ok s"
  shows "http_ok s' \<and> http_data s' = http_data s @ take (min n (HTTP_RESPONSE_MAX - http_response_len s)) d"
proof -
  define m where "m = (if http_response_len s + n < HTTP_RESPONSE_MAX then n else HTTP_RESPONSE_MAX - http_response_len s)"
  have m: "m = min n (HTTP_RESPONSE_MAX - http_response_len s)" using assms(2) by (auto simp: m_def http_ok_def)
  obtain bs buf where b: "fld d 0 m = Some bs" "store (http_response_len s) bs (http_response_buffer s) = Some buf"
    and s': "s' = s\<lparr>http_response_buffer := buf, http_response_len := http_response_len s + m\<rparr>"
    using assms(1) by (auto simp: http_tcp_data_received_def Let_def m_def split: bind_splits)
  have bs: "bs = take m d" "length bs = m" using b(1) by (auto simp: fld_def segment_def split: if_splits)
  have "buf = put_at (http_response_len s) bs (http_response_buffer s)" "http_response_len s + m \<le> length (http_response_buffer s)"
    using b(2) bs(2) by (auto simp: store_def split: if_splits)
  then show ?thesis using assms(2) bs s' m by (auto simp: http_ok_def http_data_def put_at_def min_def)
qed

interpretation http: stack_relation http_rel
proof unfold_locales
  show "http_rel s s''" if "http_rel s s'" "http_rel s' s''" for s s' s'' using that unfolding http_rel_def by (metis append_assoc)
  show "http_rel s s'" if "call_handler h d len s = Some s'" for h d len s s' using handler_frame [OF that] by (simp add: handler_frame_def http_rel_same)
  show "http_rel s s'" if "http_tcp_data_received d n s = Some s'" for d n s s' using http_data_appended [OF that] by (auto simp: http_rel_def)
  show "http_rel s (upd_sock i (\<lambda>k. k\<lparr>ts_seq_num := ts_seq_num k + 1, ts_state := TCP_STATE_LAST_ACK\<rparr>) s')"
    if "http_rel (upd_sock i (\<lambda>k. k\<lparr>ts_ack_num := x, ts_state := TCP_STATE_CLOSE_WAIT\<rparr>) s) s'" for s s' i x
    using that by (simp add: http_rel_def http_ok_def http_data_def upd_sock_def)
qed (auto intro: http_rel_same simp: arp_add_fields upd_sock_def)

text \<open>
  A call of the interrupt handler that returns keeps the response received so far: the response buffer keeps its
  size, the length of the response stays within it, and new data is only appended to the old.
\<close>

lemma http_response_kept:
  assumes "e1000_interrupt_handler depth s = Some s'" and "http_ok s"
  shows "http_ok s' \<and> (\<exists>d. http_data s' = http_data s @ d)"
  using http.handler_keeps [OF assms(1)] assms(2) by (simp add: http_rel_def)

end
