(* ===== verification/Net_Tcp.thy ===== *)
theory Net_Tcp
  imports Net_Hosts Net_Steps
begin

unbundle bit_operations_syntax

text \<open>
  TCP segments: their checksum is the one of the protocol's definition, a connection is opened by the
  answer of the peer, and data sent on an open connection is delivered and acknowledged.
\<close>

section \<open>The checksum\<close>

lemma le_enc4: "le_enc 4 w = [ucast w, ucast (drop_bit 8 w), ucast (drop_bit 16 w), ucast (drop_bit 24 w)]"
  by (simp add: le_enc_def upt_rec)

lemma low_half: "(ucast (le_dec [ucast w, ucast (drop_bit 8 w)] :: u16) :: u32) = (w :: u32) AND 0xFFFF"
proof -
  have m: "(0xFFFF :: u32) = mask 16" by (simp add: mask_eq_exp_minus_1)
  show ?thesis unfolding m
  proof (rule bit_word_eqI)
    fix i
    assume "i < LENGTH(32)"
    then show "bit (ucast (le_dec [ucast w, ucast (drop_bit 8 w)] :: u16) :: u32) i = bit (w AND mask 16) i"
      by (cases "i < 8")
        (auto simp: bit_ucast_iff bit_or_iff bit_push_bit_iff bit_drop_bit_eq bit_and_iff bit_mask_iff possible_bit_def)
  qed
qed

lemma checksum_sum_word: "checksum_sum (le_enc 4 (w :: u32) @ r) acc = checksum_sum r (acc + (w AND 0xFFFF) + (drop_bit 16 w AND 0xFFFF))"
  using low_half [of w] low_half [of "drop_bit 16 w"] by (simp add: le_enc4 del: le_dec.simps)

text \<open>
  The checksum of a TCP segment is the Internet checksum of the pseudo header of the protocol's
  definition (both addresses, the protocol number and the length) followed by the segment.
\<close>

theorem tcp_checksum_reference:
  "tcp_calculate_checksum src_ip dest_ip d len = net_checksum (le_enc 4 src_ip @ le_enc 4 dest_ip @ [0, 6] @ be_enc 2 len @ d)"
proof -
  have six: "(le_dec [0, 6] :: u16) = net_htons (ucast IP_PROTO_TCP)" by (simp add: IP_PROTO_TCP_def net_htons_def)
  obtain x y where xy: "be_enc 2 len = [x, y]" by (simp add: be_enc_def le_enc_def upt_rec)
  have "(le_dec (le_enc 2 (net_htons len)) :: u16) = net_htons len" by (rule le_dec_enc) simp
  then have l: "(le_dec [x, y] :: u16) = net_htons len" unfolding htons_enc xy .
  show ?thesis unfolding net_checksum_def tcp_calculate_checksum_def Let_def checksum_sum_word xy
    by (simp add: six [symmetric] l [symmetric] del: le_dec.simps) (simp add: algebra_simps del: le_dec.simps)
qed

section \<open>Segments\<close>

definition tcp_segment :: "u32 \<Rightarrow> tcp_socket_t \<Rightarrow> u8 \<Rightarrow> bytes \<Rightarrow> bytes" where
  "tcp_segment src k flags d =
     (let seg = tcp_header k flags @ d
      in put_at 16 (le_enc 2 (tcp_calculate_checksum src (ts_remote_ip k) seg (of_nat (length seg)))) seg)"

lemma length_tcp_header [simp]: "length (tcp_header k flags) = 20"
  by (simp add: tcp_header_def)

lemma length_tcp_segment [simp]: "length (tcp_segment src k flags d) = 20 + length d"
  by (simp add: tcp_segment_def Let_def put_at_def)

lemma tcp_segment_split:
  "\<exists>c. tcp_segment src k flags d = (be_enc 2 (ts_local_port k) @ be_enc 2 (ts_remote_port k) @ be_enc 4 (ts_seq_num k) @ be_enc 4 (ts_ack_num k) @ [0x50, flags] @
     be_enc 2 (8192 :: u16) @ le_enc 2 (c :: u16) @ [0, 0]) @ d"
  by (simp add: tcp_segment_def tcp_header_def Let_def put_at_def htons_enc htonl_enc) blast

lemma tcp_send_segment:
  assumes "length d \<le> 8130"
  shows "tcp_send_packet send i flags d (of_nat (length d)) s =
    send (ts_remote_ip (tcp_sockets s ! i)) IP_PROTO_TCP (tcp_segment (cfg_ip (net_config s)) (tcp_sockets s ! i) flags d)
      (of_nat (length (tcp_segment (cfg_ip (net_config s)) (tcp_sockets s ! i) flags d))) s"
proof -
  have n: "unat (20 + of_nat (length d) :: u16) = 20 + length d" "unat (of_nat (length d) :: u16) = length d"
    using small_len [of "20 + length d"] small_len [of "length d"] assms by simp_all
  have b: "put_at 20 d (put_at 0 (tcp_header k flags) (replicate (20 + length d) 0)) = tcp_header k flags @ d" for k
    by (simp add: put_at_def)
  show ?thesis unfolding tcp_send_packet_def Let_def
    by (simp add: store_def n b tcp_segment_def Let_def)
qed

text \<open>
  What a segment does to the socket it belongs to: the header is read back as it was written, and the data follows.
\<close>

lemma receive_segment:
  assumes "length d \<le> 8130"
    and "find_idx (\<lambda>q. ts_in_use q \<and> ts_remote_ip q = src \<and> ts_remote_port q = ts_local_port k \<and> ts_local_port q = ts_remote_port k) (take MAX_TCP_SOCKETS (tcp_sockets s)) = Some j"
  shows "tcp_receive send src (tcp_segment a k flags d @ r) (of_nat (20 + length d)) s =
    (if ts_state (tcp_sockets s ! j) = TCP_STATE_SYN_SENT then
       if flags AND TCP_SYN \<noteq> 0 \<and> flags AND TCP_ACK \<noteq> 0 then
         map_option snd (tcp_send_packet send j TCP_ACK [] 0 (upd_sock j (\<lambda>q. q\<lparr>ts_ack_num := ts_seq_num k + 1, ts_state := TCP_STATE_ESTABLISHED\<rparr>) s))
       else Some s
     else if ts_state (tcp_sockets s ! j) = TCP_STATE_ESTABLISHED then
       if flags AND TCP_FIN \<noteq> 0 then do {
         (_, s) \<leftarrow> tcp_send_packet send j TCP_ACK [] 0 (upd_sock j (\<lambda>q. q\<lparr>ts_ack_num := ts_seq_num k + 1, ts_state := TCP_STATE_CLOSE_WAIT\<rparr>) s);
         (_, s) \<leftarrow> tcp_send_packet send j (TCP_FIN OR TCP_ACK) [] 0 s;
         Some (upd_sock j (\<lambda>q. q\<lparr>ts_seq_num := ts_seq_num q + 1, ts_state := TCP_STATE_LAST_ACK\<rparr>) s) }
       else if flags AND TCP_ACK \<noteq> 0 then
         if d \<noteq> [] then do {
           s \<leftarrow> http_tcp_data_received (d @ r) (length d) s;
           map_option snd (tcp_send_packet send j TCP_ACK [] 0 (upd_sock j (\<lambda>q. q\<lparr>ts_ack_num := ts_seq_num k + of_nat (length d)\<rparr>) s)) }
         else Some s
       else Some s
     else if ts_state (tcp_sockets s ! j) = TCP_STATE_LAST_ACK then
       Some (if flags AND TCP_ACK \<noteq> 0 then upd_sock j (\<lambda>q. q\<lparr>ts_state := TCP_STATE_CLOSED\<rparr>) s else s)
     else Some s)"
proof -
  obtain c where c: "tcp_segment a k flags d = (be_enc 2 (ts_local_port k) @ be_enc 2 (ts_remote_port k) @ be_enc 4 (ts_seq_num k) @ be_enc 4 (ts_ack_num k) @ [0x50, flags] @
     be_enc 2 (8192 :: u16) @ le_enc 2 (c :: u16) @ [0, 0]) @ d"
    using tcp_segment_split by blast
  let ?h = "be_enc 2 (ts_local_port k) @ be_enc 2 (ts_remote_port k) @ be_enc 4 (ts_seq_num k) @ be_enc 4 (ts_ack_num k) @ [0x50, flags] @
     be_enc 2 (8192 :: u16) @ le_enc 2 c @ [0, 0]"
  have p: "tcp_segment a k flags d @ r = ?h @ (d @ r)" by (simp add: c)
  have n: "unat (of_nat (20 + length d) :: u16) = 20 + length d" using assms(1) by (intro small_len) simp
  have l: "\<not> (of_nat (20 + length d) :: u16) < 20" by (simp only: word_less_nat_alt n) simp
  have f: "fld (?h @ (d @ r)) 0 20 = Some ?h" by (rule fld_prefix) simp
  have g: "net_htons (le_dec (segment 0 2 ?h)) = ts_local_port k" "net_htons (le_dec (segment 2 2 ?h)) = ts_remote_port k"
    "net_htonl (le_dec (segment 4 4 ?h)) = ts_seq_num k" "?h ! 13 = flags" "?h ! 12 = 0x50"
    by (simp_all add: segment_split htons_dec htonl_dec nth_append)
  have hl: "(ucast (drop_bit 4 (0x50 :: u8)) * 4 :: u16) = 20" by simp
  have dl: "(of_nat (20 + length d) :: u16) - 20 = of_nat (length d)" by simp
  have rs: "rest_at (?h @ (d @ r)) (unat (20 :: u16)) = Some (d @ r)" by (simp add: rest_at_def)
  have nd: "unat (of_nat (length d) :: u16) = length d" using assms(1) by (intro small_len) simp
  have bm: "x \<bind> (\<lambda>(u, y). Some y) = map_option snd x" for x :: "(int \<times> net) option" by (cases x) auto
  have pos: "0 < (of_nat (length d) :: u16) \<longleftrightarrow> d \<noteq> []" using nd by (simp add: word_less_nat_alt)
  have uc: "(ucast (of_nat (length d) :: u16) :: u32) = of_nat (length d)" by (metis nd of_nat_unat)
  show ?thesis unfolding p tcp_receive_def if_not_P [OF l] f bind.bind_lunit Let_def g assms(2) option.case hl dl rs nd pos uc bm ..
qed

section \<open>Connections between hosts\<close>

lemma upd_sock_host [simp]:
  "host_ok (upd_sock j f s) = host_ok s" "neighbour (upd_sock j f s) ip m = neighbour s ip m" "net_config (upd_sock j f s) = net_config s"
  "e1000_dev (upd_sock j f s) = e1000_dev s" "http_data (upd_sock j f s) = http_data s" "http_ok (upd_sock j f s) = http_ok s"
  by (simp_all add: upd_sock_def host_ok_def neighbour_def arp_cache_lookup_def http_data_def http_ok_def)

lemma upd_sock_same: "j < length (tcp_sockets s) \<Longrightarrow> tcp_sockets (upd_sock j f s) ! j = f (tcp_sockets s ! j)"
  by (simp add: upd_sock_def)

lemma http_data_host:
  assumes "http_tcp_data_received d n s = Some s'"
  shows "host_ok s' = host_ok s" "neighbour s' ip m = neighbour s ip m" "net_config s' = net_config s" "e1000_dev s' = e1000_dev s" "tcp_sockets s' = tcp_sockets s"
  using assms by (auto simp: http_tcp_data_received_def host_ok_def neighbour_def arp_cache_lookup_def Let_def split: bind_splits)

text \<open>A segment sent to a neighbour is one frame on the wire.\<close>

lemma segment_transmits:
  assumes "host_ok s" "neighbour s (ts_remote_ip (tcp_sockets s ! i)) m" "length d \<le> 8130"
  shows "\<exists>s'. tcp_send_packet (net_send_ipv4 (Suc depth)) i flags d (of_nat (length d)) s = Some (0, s') \<and>
    transmits (ip_frame s (ts_remote_ip (tcp_sockets s ! i)) m IP_PROTO_TCP (tcp_segment (cfg_ip (net_config s)) (tcp_sockets s ! i) flags d)) s s'"
proof -
  let ?g = "tcp_segment (cfg_ip (net_config s)) (tcp_sockets s ! i) flags d"
  have "length ?g \<le> 8158" using assms(3) by simp
  from send_ipv4_transmits [OF assms(1,2) this, of depth IP_PROTO_TCP "[]"] show ?thesis
    unfolding tcp_send_segment [OF assms(3)] append_Nil2 .
qed

lemma segment_received:
  assumes "host_ok a" "neighbour a ip m" "cfg_ip (net_config b) = ip" "length d \<le> 8130"
  shows "net_receive_packet send (ip_frame a ip m IP_PROTO_TCP (tcp_segment src k flags d) @ pad)
      (of_nat (length (ip_frame a ip m IP_PROTO_TCP (tcp_segment src k flags d)))) b =
    tcp_receive send (cfg_ip (net_config a)) (tcp_segment src k flags d @ pad) (of_nat (20 + length d)) b"
proof -
  have m: "length m = 6" "length (cfg_mac (net_config a)) = 6" using assms(1,2) by (simp_all add: neighbour_def host_ok_def)
  have l: "length (tcp_segment src k flags d) \<le> 8158" using assms(4) by simp
  show ?thesis unfolding receive_ip_frame [OF m l assms(3)] ip_deliver_def
    by (simp add: IP_PROTO_TCP_def IP_PROTO_ICMP_def IP_PROTO_UDP_def)
qed

section \<open>The state machine of a connection\<close>

text \<open>
  What a connection does with a segment, said of the socket alone: the socket afterwards, the segments that it answers with, each
  with the socket whose numbers it carries and its flags, and whether the data is taken.
\<close>

definition tcp_step :: "u8 \<Rightarrow> u32 \<Rightarrow> nat \<Rightarrow> tcp_socket_t \<Rightarrow> tcp_socket_t \<times> (tcp_socket_t \<times> u8) list \<times> bool" where
  "tcp_step flags sq n k =
     (if ts_state k = TCP_STATE_SYN_SENT \<and> flags AND TCP_SYN \<noteq> 0 \<and> flags AND TCP_ACK \<noteq> 0 then
        let k = k\<lparr>ts_ack_num := sq + 1, ts_state := TCP_STATE_ESTABLISHED\<rparr> in (k, [(k, TCP_ACK)], False)
      else if ts_state k = TCP_STATE_ESTABLISHED \<and> flags AND TCP_FIN \<noteq> 0 then
        let k = k\<lparr>ts_ack_num := sq + 1, ts_state := TCP_STATE_CLOSE_WAIT\<rparr>
        in (k\<lparr>ts_seq_num := ts_seq_num k + 1, ts_state := TCP_STATE_LAST_ACK\<rparr>, [(k, TCP_ACK), (k, TCP_FIN OR TCP_ACK)], False)
      else if ts_state k = TCP_STATE_ESTABLISHED \<and> flags AND TCP_ACK \<noteq> 0 \<and> n > 0 then
        let k = k\<lparr>ts_ack_num := sq + of_nat n\<rparr> in (k, [(k, TCP_ACK)], True)
      else if ts_state k = TCP_STATE_LAST_ACK \<and> flags AND TCP_ACK \<noteq> 0 then (k\<lparr>ts_state := TCP_STATE_CLOSED\<rparr>, [], False)
      else (k, [], False))"

text \<open>A sequence of segments, each with the socket of its sender, its flags and its data: the socket, the response and all answers.\<close>

fun tcp_run :: "(tcp_socket_t \<times> u8 \<times> bytes) list \<Rightarrow> tcp_socket_t \<Rightarrow> bytes \<Rightarrow> tcp_socket_t \<times> bytes \<times> (tcp_socket_t \<times> u8) list" where
  "tcp_run [] k xs = (k, xs, [])"
| "tcp_run ((m, flags, d) # segs) k xs =
     (let (k, out, taken) = tcp_step flags (ts_seq_num m) (length d) k;
          (k, xs, outs) = tcp_run segs k (if taken then take HTTP_RESPONSE_MAX (xs @ d) else xs)
      in (k, xs, out @ outs))"

text \<open>The answers as frames from \<open>b\<close>, whose peer is at the address \<open>ip\<close> with the hardware address \<open>mac\<close>.\<close>

definition answer_frames :: "net \<Rightarrow> u32 \<Rightarrow> bytes \<Rightarrow> (tcp_socket_t \<times> u8) list \<Rightarrow> bytes list" where
  "answer_frames b ip mac = map (\<lambda>(k, flags). ip_frame b ip mac IP_PROTO_TCP (tcp_segment (cfg_ip (net_config b)) k flags []))"

definition segment_frame :: "net \<Rightarrow> u32 \<Rightarrow> bytes \<Rightarrow> tcp_socket_t \<times> u8 \<times> bytes \<Rightarrow> bytes" where
  "segment_frame a ip mac = (\<lambda>(m, flags, d). ip_frame a ip mac IP_PROTO_TCP (tcp_segment (cfg_ip (net_config a)) m flags d))"

fun deliver :: "ip_send \<Rightarrow> bytes \<Rightarrow> bytes list \<Rightarrow> net \<Rightarrow> net option" where
  "deliver send pad [] s = Some s"
| "deliver send pad (fr # frs) s = do { s \<leftarrow> net_receive_packet send (fr @ pad) (of_nat (length fr)) s; deliver send pad frs s }"

text \<open>The only effect on a host is on the socket \<open>j\<close>, the response and the wire.\<close>

definition tcp_effect :: "nat \<Rightarrow> tcp_socket_t \<Rightarrow> bytes \<Rightarrow> bytes list \<Rightarrow> net \<Rightarrow> net \<Rightarrow> bool" where
  "tcp_effect j k xs frs b b' \<longleftrightarrow> tcp_sockets b' = (tcp_sockets b)[j := k] \<and> http_data b' = xs \<and> http_ok b' \<and>
     e_wire (e1000_dev b') = e_wire (e1000_dev b) @ frs \<and> nic_ok (e1000_dev b') \<and>
     net_config b' = net_config b \<and> arp_cache b' = arp_cache b \<and> udp_handlers b' = udp_handlers b \<and> replies b' = replies b"

lemma sent_effect:
  assumes "tcp_effect j k xs frs b s" "host_ok b" "neighbour b (ts_remote_ip k) m" "j < length (tcp_sockets b)"
  shows "\<exists>s'. tcp_send_packet (net_send_ipv4 (Suc depth)) j flags [] 0 s = Some (0, s') \<and>
    tcp_effect j k xs (frs @ answer_frames b (ts_remote_ip k) m [(k, flags)]) b s'"
proof -
  note e = assms(1) [unfolded tcp_effect_def]
  have j: "tcp_sockets s ! j = k" using e assms(4) by simp
  have h: "host_ok s" "neighbour s (ts_remote_ip (tcp_sockets s ! j)) m" unfolding j using e assms(2,3) by (simp_all add: host_ok_def neighbour_def arp_cache_lookup_def)
  obtain s' where s': "tcp_send_packet (net_send_ipv4 (Suc depth)) j flags [] (of_nat (length ([] :: bytes))) s = Some (0, s')"
    "transmits (ip_frame s (ts_remote_ip k) m IP_PROTO_TCP (tcp_segment (cfg_ip (net_config s)) k flags [])) s s'"
    using segment_transmits [OF h, of "[]" depth flags] unfolding j by auto
  have "http_data s' = http_data s" "http_ok s' = http_ok s" using s'(2) by (auto simp: transmits_def http_data_def http_ok_def)
  moreover have "ip_frame s ip x pr y = ip_frame b ip x pr y" for ip x pr y using e by (simp add: ip_frame_def)
  ultimately show ?thesis using s'(1) transmits_simps [OF s'(2)] e by (auto simp: tcp_effect_def answer_frames_def)
qed

lemma effect_sock:
  assumes "tcp_effect j k xs frs b s" "j < length (tcp_sockets b)"
  shows "tcp_effect j (f k) xs frs b (upd_sock j f s)"
  using assms by (auto simp: tcp_effect_def upd_sock_def http_data_def http_ok_def)

lemma effect_refl: "j < length (tcp_sockets b) \<Longrightarrow> http_ok b \<Longrightarrow> host_ok b \<Longrightarrow> tcp_effect j (tcp_sockets b ! j) (http_data b) [] b b"
  by (simp add: tcp_effect_def host_ok_def)

lemma effect_data:
  assumes "tcp_effect j k xs frs b s" "d \<noteq> []"
  shows "\<exists>s'. http_tcp_data_received (d @ r) (length d) s = Some s' \<and> tcp_effect j k (take HTTP_RESPONSE_MAX (xs @ d)) frs b s'"
proof -
  have ok: "http_ok s" and x: "http_data s = xs" using assms(1) by (simp_all add: tcp_effect_def)
  let ?n = "if http_response_len s + length d < HTTP_RESPONSE_MAX then length d else HTTP_RESPONSE_MAX - http_response_len s"
  have len: "length (http_data s) = http_response_len s" using ok by (simp add: http_data_def http_ok_def)
  have n: "?n \<le> length d" "http_response_len s + ?n \<le> HTTP_RESPONSE_MAX" "?n = min (length d) (HTTP_RESPONSE_MAX - http_response_len s)" using ok by (auto simp: http_ok_def)
  obtain s' where s': "http_tcp_data_received (d @ r) (length d) s = Some s'"
    using n(1,2) ok unfolding http_tcp_data_received_def Let_def by (simp add: fld_def store_def http_ok_def del: if_split)
  have "http_ok s'" "http_data s' = xs @ take (min (length d) (HTTP_RESPONSE_MAX - http_response_len s)) (d @ r)"
    using http_data_appended [OF s' ok] x by auto
  moreover have "xs @ take (min (length d) (HTTP_RESPONSE_MAX - http_response_len s)) (d @ r) = take HTTP_RESPONSE_MAX (xs @ d)"
    using len x ok by (auto simp: http_ok_def min_def)
  ultimately show ?thesis using s' assms(1) http_data_host(3-5) [OF s'] by (auto simp: tcp_effect_def http_tcp_data_received_def Let_def split: bind_splits)
qed

lemma segment_handled:
  assumes "host_ok a" "neighbour a (cfg_ip (net_config b)) mb" "host_ok b" "neighbour b (cfg_ip (net_config a)) ma" "http_ok b" "length d \<le> 8130"
    and "find_idx (\<lambda>q. ts_in_use q \<and> ts_remote_ip q = cfg_ip (net_config a) \<and> ts_remote_port q = ts_local_port m \<and> ts_local_port q = ts_remote_port m)
       (take MAX_TCP_SOCKETS (tcp_sockets b)) = Some j"
    and "tcp_step flags (ts_seq_num m) (length d) (tcp_sockets b ! j) = (k, out, taken)"
  shows "\<exists>b'. net_receive_packet (net_send_ipv4 (Suc depth)) (segment_frame a (cfg_ip (net_config b)) mb (m, flags, d) @ pad)
      (of_nat (length (segment_frame a (cfg_ip (net_config b)) mb (m, flags, d)))) b = Some b' \<and>
    tcp_effect j k (if taken then take HTTP_RESPONSE_MAX (http_data b @ d) else http_data b) (answer_frames b (cfg_ip (net_config a)) ma out) b b'"
proof -
  let ?k = "tcp_sockets b ! j" and ?send = "net_send_ipv4 (Suc depth)" and ?ip = "cfg_ip (net_config a)"
  have j: "j < length (tcp_sockets b)" "ts_remote_ip ?k = ?ip" using find_idx_SomeD [OF assms(7)] by auto
  have ne: "TCP_STATE_ESTABLISHED \<noteq> TCP_STATE_SYN_SENT" "TCP_STATE_LAST_ACK \<noteq> TCP_STATE_SYN_SENT" "TCP_STATE_LAST_ACK \<noteq> TCP_STATE_ESTABLISHED" by (simp_all add: tcp_state_defs)
  have r: "net_receive_packet ?send (segment_frame a (cfg_ip (net_config b)) mb (m, flags, d) @ pad)
      (of_nat (length (segment_frame a (cfg_ip (net_config b)) mb (m, flags, d)))) b = tcp_receive ?send ?ip (tcp_segment ?ip m flags d @ pad) (of_nat (20 + length d)) b"
    unfolding segment_frame_def prod.case by (rule segment_received [OF assms(1,2) refl assms(6)])
  note e0 = effect_refl [OF j(1) assms(5,3)]
  have snd: "\<exists>s'. tcp_send_packet ?send j fl [] 0 s = Some (0, s') \<and> tcp_effect j q xs (frs @ answer_frames b ?ip ma [(q, fl)]) b s'"
    if "tcp_effect j q xs frs b s" "ts_remote_ip q = ?ip" for q xs frs s fl
    using sent_effect [OF that(1) assms(3) _ j(1), of ma depth fl] that(2) assms(4) by simp
  consider (syn) "ts_state ?k = TCP_STATE_SYN_SENT" "flags AND TCP_SYN \<noteq> 0" "flags AND TCP_ACK \<noteq> 0"
    | (fin) "ts_state ?k = TCP_STATE_ESTABLISHED" "flags AND TCP_FIN \<noteq> 0"
    | (dat) "ts_state ?k = TCP_STATE_ESTABLISHED" "flags AND TCP_FIN = 0" "flags AND TCP_ACK \<noteq> 0" "d \<noteq> []"
    | (last) "ts_state ?k = TCP_STATE_LAST_ACK" "flags AND TCP_ACK \<noteq> 0"
    | (other) "\<not> (ts_state ?k = TCP_STATE_SYN_SENT \<and> flags AND TCP_SYN \<noteq> 0 \<and> flags AND TCP_ACK \<noteq> 0)" "\<not> (ts_state ?k = TCP_STATE_LAST_ACK \<and> flags AND TCP_ACK \<noteq> 0)"
        "\<not> (ts_state ?k = TCP_STATE_ESTABLISHED \<and> (flags AND TCP_FIN \<noteq> 0 \<or> flags AND TCP_ACK \<noteq> 0 \<and> d \<noteq> []))" by blast
  then show ?thesis
  proof cases
    case syn
    let ?q = "?k\<lparr>ts_ack_num := ts_seq_num m + 1, ts_state := TCP_STATE_ESTABLISHED\<rparr>"
    have s: "k = ?q" "out = [(?q, TCP_ACK)]" "\<not> taken" using assms(8) syn by (auto simp: tcp_step_def Let_def)
    show ?thesis unfolding r receive_segment [OF assms(6,7)] using syn s j(2)
        snd [OF effect_sock [OF e0 j(1), of "\<lambda>q. q\<lparr>ts_ack_num := ts_seq_num m + 1, ts_state := TCP_STATE_ESTABLISHED\<rparr>"], of TCP_ACK] by (auto simp: Let_def)
  next
    case fin
    let ?q = "?k\<lparr>ts_ack_num := ts_seq_num m + 1, ts_state := TCP_STATE_CLOSE_WAIT\<rparr>"
    have s: "k = ?q\<lparr>ts_seq_num := ts_seq_num ?q + 1, ts_state := TCP_STATE_LAST_ACK\<rparr>" "out = [(?q, TCP_ACK), (?q, TCP_FIN OR TCP_ACK)]" "\<not> taken"
      using assms(8) fin ne by (auto simp: tcp_step_def Let_def)
    obtain s1 where s1: "tcp_send_packet ?send j TCP_ACK [] 0 (upd_sock j (\<lambda>q. q\<lparr>ts_ack_num := ts_seq_num m + 1, ts_state := TCP_STATE_CLOSE_WAIT\<rparr>) b) = Some (0, s1)"
      "tcp_effect j ?q (http_data b) ([] @ answer_frames b ?ip ma [(?q, TCP_ACK)]) b s1"
      using snd [OF effect_sock [OF e0 j(1), of "\<lambda>q. q\<lparr>ts_ack_num := ts_seq_num m + 1, ts_state := TCP_STATE_CLOSE_WAIT\<rparr>"], of TCP_ACK] j(2) by auto
    obtain s2 where s2: "tcp_send_packet ?send j (TCP_FIN OR TCP_ACK) [] 0 s1 = Some (0, s2)"
      "tcp_effect j ?q (http_data b) (([] @ answer_frames b ?ip ma [(?q, TCP_ACK)]) @ answer_frames b ?ip ma [(?q, TCP_FIN OR TCP_ACK)]) b s2"
      using snd [OF s1(2)] j(2) by auto
    show ?thesis unfolding r receive_segment [OF assms(6,7)] using fin ne s s1(1) s2(1)
        effect_sock [OF s2(2) j(1), of "\<lambda>q. q\<lparr>ts_seq_num := ts_seq_num q + 1, ts_state := TCP_STATE_LAST_ACK\<rparr>"] by (simp add: answer_frames_def)
  next
    case dat
    let ?q = "?k\<lparr>ts_ack_num := ts_seq_num m + of_nat (length d)\<rparr>"
    have s: "k = ?q" "out = [(?q, TCP_ACK)]" "taken" using assms(8) dat ne by (auto simp: tcp_step_def Let_def)
    obtain s1 where s1: "http_tcp_data_received (d @ pad) (length d) b = Some s1" "tcp_effect j ?k (take HTTP_RESPONSE_MAX (http_data b @ d)) [] b s1"
      using effect_data [OF e0 dat(4)] by blast
    show ?thesis unfolding r receive_segment [OF assms(6,7)] using dat ne s s1(1) j(2)
        snd [OF effect_sock [OF s1(2) j(1), of "\<lambda>q. q\<lparr>ts_ack_num := ts_seq_num m + of_nat (length d)\<rparr>"], of TCP_ACK] by auto
  next
    case last
    then have s: "k = ?k\<lparr>ts_state := TCP_STATE_CLOSED\<rparr>" "out = []" "\<not> taken" using assms(8) ne by (auto simp: tcp_step_def Let_def split: if_splits)
    show ?thesis unfolding r receive_segment [OF assms(6,7)] using last ne s effect_sock [OF e0 j(1), of "\<lambda>q. q\<lparr>ts_state := TCP_STATE_CLOSED\<rparr>"]
      by (simp add: answer_frames_def)
  next
    case other
    then have s: "k = ?k" "out = []" "\<not> taken" using assms(8) by (auto simp: tcp_step_def Let_def split: if_splits)
    show ?thesis unfolding r receive_segment [OF assms(6,7)] using other s e0 by (auto simp: answer_frames_def)
  qed
qed

text \<open>The connection of a socket stays the same through all steps.\<close>

lemma tcp_step_names:
  assumes "tcp_step flags sq n k = (k', out, taken)"
  shows "ts_in_use k' = ts_in_use k" "ts_remote_ip k' = ts_remote_ip k" "ts_remote_port k' = ts_remote_port k" "ts_local_port k' = ts_local_port k"
  using assms by (auto simp: tcp_step_def Let_def split: if_splits)

lemma same_socket:
  assumes "find_idx P (take n xs) = Some j" "P k"
  shows "find_idx P (take n (xs[j := k])) = Some j"
  using find_idx_SomeD [OF assms(1)] assms(2) by (intro find_idx_SomeI) (auto simp: nth_list_update)

lemma run_segments:
  assumes "host_ok a" "neighbour a (cfg_ip (net_config b)) mb" "host_ok b" "neighbour b (cfg_ip (net_config a)) ma" "http_ok b"
    and "find_idx (\<lambda>q. ts_in_use q \<and> ts_remote_ip q = cfg_ip (net_config a) \<and> ts_remote_port q = rp \<and> ts_local_port q = lp) (take MAX_TCP_SOCKETS (tcp_sockets b)) = Some j"
    and "\<forall>(m, flags, d) \<in> set segs. ts_local_port m = rp \<and> ts_remote_port m = lp \<and> length d \<le> 8130"
    and "tcp_run segs (tcp_sockets b ! j) (http_data b) = (k, xs, outs)"
  shows "\<exists>b'. deliver (net_send_ipv4 (Suc depth)) pad (map (segment_frame a (cfg_ip (net_config b)) mb) segs) b = Some b' \<and>
    tcp_effect j k xs (answer_frames b (cfg_ip (net_config a)) ma outs) b b'"
  using assms
proof (induction segs arbitrary: b outs)
  case Nil
  then show ?case using effect_refl [of j b] find_idx_SomeD [OF Nil(6)] by (auto simp: answer_frames_def)
next
  case (Cons sg segs)
  obtain m flags d where sg: "sg = (m, flags, d)" by (cases sg)
  let ?P = "\<lambda>q. ts_in_use q \<and> ts_remote_ip q = cfg_ip (net_config a) \<and> ts_remote_port q = rp \<and> ts_local_port q = lp"
  obtain k1 out taken where st: "tcp_step flags (ts_seq_num m) (length d) (tcp_sockets b ! j) = (k1, out, taken)" by (metis prod_cases3)
  let ?xs = "if taken then take HTTP_RESPONSE_MAX (http_data b @ d) else http_data b"
  obtain outs' where rn: "tcp_run segs k1 ?xs = (k, xs, outs')" "outs = out @ outs'"
    using Cons.prems(8) unfolding sg by (auto simp: st Let_def split: prod.splits)
  have sd: "length d \<le> 8130" "ts_local_port m = rp" "ts_remote_port m = lp" using Cons.prems(7) sg by auto
  obtain b1 where b1: "net_receive_packet (net_send_ipv4 (Suc depth)) (segment_frame a (cfg_ip (net_config b)) mb sg @ pad)
      (of_nat (length (segment_frame a (cfg_ip (net_config b)) mb sg))) b = Some b1"
    "tcp_effect j k1 ?xs (answer_frames b (cfg_ip (net_config a)) ma out) b b1"
    using segment_handled [OF Cons.prems(1-5) sd(1) _ st] Cons.prems(6) sd(2,3) unfolding sg by blast
  note e = b1(2) [unfolded tcp_effect_def]
  have j: "j < length (tcp_sockets b)" "?P (tcp_sockets b ! j)" using find_idx_SomeD [OF Cons.prems(6)] by auto
  have "find_idx ?P (take MAX_TCP_SOCKETS (tcp_sockets b1)) = Some j"
    using same_socket [OF Cons.prems(6), of k1] tcp_step_names [OF st] j(2) e by simp
  moreover have "host_ok b1" "neighbour b1 (cfg_ip (net_config a)) ma" "neighbour a (cfg_ip (net_config b1)) mb"
    using e Cons.prems(2-4) by (simp_all add: host_ok_def neighbour_def arp_cache_lookup_def)
  ultimately obtain b2 where b2: "deliver (net_send_ipv4 (Suc depth)) pad (map (segment_frame a (cfg_ip (net_config b1)) mb) segs) b1 = Some b2"
    "tcp_effect j k xs (answer_frames b1 (cfg_ip (net_config a)) ma outs') b1 b2"
    using Cons.IH [of b1 outs'] Cons.prems(1,7) e rn(1) j(1) by auto
  have "answer_frames b1 ip mc o' = answer_frames b ip mc o'" for ip mc o' using e by (simp add: answer_frames_def ip_frame_def)
  then have "tcp_effect j k xs (answer_frames b (cfg_ip (net_config a)) ma outs) b b2"
    using b2(2) e rn(2) by (auto simp: tcp_effect_def answer_frames_def)
  then show ?case using b1(1) b2(1) e by auto
qed

text \<open>
  C37: A connection is the state machine that it should be: whatever segments the peer of a connection sends, with any flags,
  numbers and data, in any order, and whatever follows each of them in the receive buffer, the host handles every one of them; the
  socket goes through the steps of \<open>tcp_step\<close>, the response buffer holds the data taken, cut at its size, the answers are
  exactly the frames with the numbers and flags of these steps, and the configuration, the address cache, the handlers and every
  other socket stay as they were. (The peer is in the address cache, and the header of each segment has 20 bytes.)
\<close>

theorem tcp_connection_refines:
  assumes "host_ok a" and "neighbour a (cfg_ip (net_config b)) mb" and "host_ok b" and "neighbour b (cfg_ip (net_config a)) ma" and "http_ok b"
    and "find_idx (\<lambda>q. ts_in_use q \<and> ts_remote_ip q = cfg_ip (net_config a) \<and> ts_remote_port q = rp \<and> ts_local_port q = lp) (take MAX_TCP_SOCKETS (tcp_sockets b)) = Some j"
    and "\<forall>(m, flags, d) \<in> set segs. ts_local_port m = rp \<and> ts_remote_port m = lp \<and> length d \<le> 8130"
  shows "let (k, xs, outs) = tcp_run segs (tcp_sockets b ! j) (http_data b) in
    \<exists>b'. deliver (net_send_ipv4 (Suc depth)) pad (map (segment_frame a (cfg_ip (net_config b)) mb) segs) b = Some b' \<and>
      tcp_effect j k xs (answer_frames b (cfg_ip (net_config a)) ma outs) b b'"
  using run_segments [OF assms, of _ _ _ depth pad] by (simp add: Let_def split: prod.splits)

text \<open>Where the acknowledgement number and the flags of a segment are in its frame.\<close>

lemma frame_fields:
  assumes "length m = 6" "length (cfg_mac (net_config s)) = 6"
  shows "segment 42 4 (ip_frame s ip m IP_PROTO_TCP (tcp_segment src k flags d)) = be_enc 4 (ts_ack_num k)"
    "ip_frame s ip m IP_PROTO_TCP (tcp_segment src k flags d) ! 47 = flags"
proof -
  obtain c where c: "tcp_segment src k flags d = (be_enc 2 (ts_local_port k) @ be_enc 2 (ts_remote_port k) @ be_enc 4 (ts_seq_num k) @ be_enc 4 (ts_ack_num k) @ [0x50, flags] @
     be_enc 2 (8192 :: u16) @ le_enc 2 (c :: u16) @ [0, 0]) @ d"
    using tcp_segment_split by blast
  let ?e = "m @ cfg_mac (net_config s) @ be_enc 2 ETH_TYPE_IPV4 @ ipv4_enc (ipv4_packet (cfg_ip (net_config s)) ip IP_PROTO_TCP (20 + of_nat (length (tcp_segment src k flags d)))) @
    be_enc 2 (ts_local_port k) @ be_enc 2 (ts_remote_port k) @ be_enc 4 (ts_seq_num k)"
  have l: "length ?e = 42" using assms by simp
  have f: "ip_frame s ip m IP_PROTO_TCP (tcp_segment src k flags d) = ?e @ be_enc 4 (ts_ack_num k) @ [0x50, flags] @ be_enc 2 (8192 :: u16) @ le_enc 2 c @ [0, 0] @ d"
    unfolding ip_frame_def by (subst (2) c) simp
  show "segment 42 4 (ip_frame s ip m IP_PROTO_TCP (tcp_segment src k flags d)) = be_enc 4 (ts_ack_num k)" unfolding f using l by (simp add: segment_def)
  show "ip_frame s ip m IP_PROTO_TCP (tcp_segment src k flags d) ! 47 = flags" unfolding f using l assms by (simp add: nth_append)
qed

text \<open>
  C34: Data sent on an open connection is delivered and acknowledged: the segment goes out as one frame, and when the host at the
  other end receives it, the data is appended to the response it has received so far, and exactly one frame goes out: the segment of
  its socket with the flag ACK alone and no data. The acknowledgement number of that frame, in its bytes 42 to 45, is the next
  sequence number of the sender.
\<close>

theorem tcp_delivery:
  assumes "host_ok a" and "host_ok b" and "neighbour a (cfg_ip (net_config b)) mb" and "neighbour b (cfg_ip (net_config a)) ma"
    and "i < length (tcp_sockets a)" and "ts_state (tcp_sockets a ! i) = TCP_STATE_ESTABLISHED" and "ts_remote_ip (tcp_sockets a ! i) = cfg_ip (net_config b)"
    and "find_idx (\<lambda>q. ts_in_use q \<and> ts_remote_ip q = cfg_ip (net_config a) \<and> ts_remote_port q = ts_local_port (tcp_sockets a ! i) \<and>
       ts_local_port q = ts_remote_port (tcp_sockets a ! i)) (take MAX_TCP_SOCKETS (tcp_sockets b)) = Some j"
    and "ts_state (tcp_sockets b ! j) = TCP_STATE_ESTABLISHED"
    and "d \<noteq> []" and "length d \<le> 8130" and "http_ok b" and "http_response_len b + length d \<le> HTTP_RESPONSE_MAX"
  shows "\<exists>a'. let fr = segment_frame a (cfg_ip (net_config b)) mb (tcp_sockets a ! i, TCP_PSH OR TCP_ACK, d) in
    tcp_send (net_send_ipv4 (Suc depth)) (Some i) d (of_nat (length d)) a = Some (0, a') \<and> e_wire (e1000_dev a') = e_wire (e1000_dev a) @ [fr] \<and>
    (\<forall>pad. \<exists>b' ack. net_receive_packet (net_send_ipv4 (Suc depth)) (fr @ pad) (of_nat (length fr)) b = Some b' \<and>
      http_data b' = http_data b @ d \<and> e_wire (e1000_dev b') = e_wire (e1000_dev b) @ [ack] \<and>
      ack = ip_frame b (cfg_ip (net_config a)) ma IP_PROTO_TCP (tcp_segment (cfg_ip (net_config b)) (tcp_sockets b' ! j) TCP_ACK []) \<and>
      segment 42 4 ack = be_enc 4 (ts_seq_num (tcp_sockets a' ! i)) \<and> ack ! 47 = TCP_ACK)"
proof -
  let ?k = "tcp_sockets a ! i" and ?send = "net_send_ipv4 (Suc depth)" and ?fl = "TCP_PSH OR TCP_ACK"
  let ?fr = "segment_frame a (cfg_ip (net_config b)) mb (?k, ?fl, d)" and ?q = "tcp_sockets b ! j"
  obtain a1 where a1: "tcp_send_packet ?send i ?fl d (of_nat (length d)) a = Some (0, a1)" "transmits ?fr a a1"
    using segment_transmits [OF assms(1) _ assms(11), of i mb depth ?fl] assms(3,7) by (auto simp: segment_frame_def)
  let ?a = "upd_sock i (\<lambda>k. k\<lparr>ts_seq_num := ts_seq_num k + ucast (of_nat (length d) :: u16)\<rparr>) a1"
  have u: "(ucast (of_nat (length d) :: u16) :: u32) = of_nat (length d)"
  proof -
    have "unat (of_nat (length d) :: u16) = length d" using assms(11) by (intro small_len) simp
    then show ?thesis by (metis of_nat_unat)
  qed
  note t = transmits_simps [OF a1(2)]
  have snd: "tcp_send ?send (Some i) d (of_nat (length d)) a = Some (0, ?a)" using a1(1) assms(6) by (simp add: tcp_send_def)
  have sq: "ts_seq_num (tcp_sockets ?a ! i) = ts_seq_num ?k + of_nat (length d)" using t(6) assms(5) by (simp add: upd_sock_def u)
  let ?q' = "?q\<lparr>ts_ack_num := ts_seq_num ?k + of_nat (length d)\<rparr>"
  have st: "tcp_step ?fl (ts_seq_num ?k) (length d) ?q = (?q', [(?q', TCP_ACK)], True)"
    using assms(9,10) by (simp add: tcp_step_def Let_def tcp_state_defs TCP_PSH_def TCP_ACK_def TCP_FIN_def)
  have j: "j < length (tcp_sockets b)" using find_idx_SomeD [OF assms(8)] by auto
  have "length (http_data b @ d) \<le> HTTP_RESPONSE_MAX" using assms(12,13) by (simp add: http_data_def)
  then have all: "take HTTP_RESPONSE_MAX (http_data b @ d) = http_data b @ d" by (rule take_all)
  have m: "length ma = 6" "length (cfg_mac (net_config b)) = 6" using assms(2,4) by (simp_all add: neighbour_def host_ok_def)
  have "\<exists>b' ack. net_receive_packet ?send (?fr @ pad) (of_nat (length ?fr)) b = Some b' \<and> http_data b' = http_data b @ d \<and>
      e_wire (e1000_dev b') = e_wire (e1000_dev b) @ [ack] \<and>
      ack = ip_frame b (cfg_ip (net_config a)) ma IP_PROTO_TCP (tcp_segment (cfg_ip (net_config b)) (tcp_sockets b' ! j) TCP_ACK []) \<and>
      segment 42 4 ack = be_enc 4 (ts_seq_num (tcp_sockets ?a ! i)) \<and> ack ! 47 = TCP_ACK" for pad
  proof -
    obtain b' where b': "net_receive_packet ?send (?fr @ pad) (of_nat (length ?fr)) b = Some b'"
      "tcp_effect j ?q' (http_data b @ d) (answer_frames b (cfg_ip (net_config a)) ma [(?q', TCP_ACK)]) b b'"
      using segment_handled [OF assms(1,3,2,4,12,11,8) st, of depth pad] all by auto
    moreover from b'(2) have "tcp_sockets b' ! j = ?q'" using j by (simp add: tcp_effect_def)
    ultimately show ?thesis using frame_fields [OF m, of "cfg_ip (net_config a)" "cfg_ip (net_config b)" ?q' TCP_ACK "[]"] sq
      by (simp add: tcp_effect_def answer_frames_def)
  qed
  then show ?thesis using snd t(1) by (intro exI [of _ ?a]) (simp add: Let_def)
qed

text \<open>The hypotheses hold for two example hosts with a connection between them.\<close>

definition connected_host :: "u32 \<Rightarrow> bytes \<Rightarrow> u32 \<Rightarrow> bytes \<Rightarrow> u16 \<Rightarrow> u16 \<Rightarrow> u8 \<Rightarrow> net" where
  "connected_host ip m peer pm lp rp st0 =
     upd_sock 0 (\<lambda>k. k\<lparr>ts_in_use := True, ts_remote_ip := peer, ts_local_port := lp, ts_remote_port := rp, ts_seq_num := 1000, ts_state := st0\<rparr>) (example_host ip m peer pm)"

lemma connected_host_ok: "length m = 6 \<Longrightarrow> ip \<noteq> 0 \<Longrightarrow> host_ok (connected_host ip m p pm lp rp st0)"
  by (simp add: connected_host_def example_host_ok)

lemma connected_neighbour:
  "length pm = 6 \<Longrightarrow> p \<noteq> ip \<Longrightarrow> p \<noteq> 0xFFFFFFFF \<Longrightarrow> p AND 0x00FFFFFF = ip AND 0x00FFFFFF \<Longrightarrow> neighbour (connected_host ip m p pm lp rp st0) p pm"
  by (simp add: connected_host_def example_neighbour)

lemma connected_host_simps [simp]:
  "cfg_ip (net_config (connected_host ip m p pm lp rp st0)) = ip" "length (tcp_sockets (connected_host ip m p pm lp rp st0)) = 16"
  "ts_state (tcp_sockets (connected_host ip m p pm lp rp st0) ! 0) = st0" "ts_remote_ip (tcp_sockets (connected_host ip m p pm lp rp st0) ! 0) = p"
  "ts_local_port (tcp_sockets (connected_host ip m p pm lp rp st0) ! 0) = lp" "ts_remote_port (tcp_sockets (connected_host ip m p pm lp rp st0) ! 0) = rp"
  "http_response_len (connected_host ip m p pm lp rp st0) = 0" "http_ok (connected_host ip m p pm lp rp st0)"
  by (simp_all add: connected_host_def) (simp_all add: upd_sock_def example_host_def http_ok_def HTTP_RESPONSE_MAX_def)

lemma connected_socket:
  "find_idx (\<lambda>q. ts_in_use q \<and> ts_remote_ip q = p \<and> ts_remote_port q = rp \<and> ts_local_port q = lp) (take MAX_TCP_SOCKETS (tcp_sockets (connected_host ip m p pm lp rp st0))) = Some 0"
  by (rule find_idx_SomeI) (simp_all add: connected_host_def upd_sock_def example_host_def MAX_TCP_SOCKETS_def)

theorem tcp_delivery_witness:
  "\<exists>fr a'. tcp_send (net_send_ipv4 1) (Some 0) [72, 105] 2 (connected_host 0x0100000A [2, 0, 0, 0, 0, 1] 0x0200000A [2, 0, 0, 0, 0, 2] 80 49152 4) = Some (0, a') \<and>
    (\<exists>b' ack. net_receive_packet (net_send_ipv4 1) fr (of_nat (length fr)) (connected_host 0x0200000A [2, 0, 0, 0, 0, 2] 0x0100000A [2, 0, 0, 0, 0, 1] 49152 80 4) = Some b' \<and>
      http_data b' = [72, 105] \<and> e_wire (e1000_dev b') = e_wire (e1000_dev (connected_host 0x0200000A [2, 0, 0, 0, 0, 2] 0x0100000A [2, 0, 0, 0, 0, 1] 49152 80 4)) @ [ack] \<and>
      segment 42 4 ack = be_enc 4 (ts_seq_num (tcp_sockets a' ! 0)))"
proof -
  let ?a = "connected_host 0x0100000A [2, 0, 0, 0, 0, 1] 0x0200000A [2, 0, 0, 0, 0, 2] 80 49152 4"
  let ?b = "connected_host 0x0200000A [2, 0, 0, 0, 0, 2] 0x0100000A [2, 0, 0, 0, 0, 1] 49152 80 4"
  have h: "host_ok ?a" "host_ok ?b" by (rule connected_host_ok; simp)+
  have n: "neighbour ?a (cfg_ip (net_config ?b)) [2, 0, 0, 0, 0, 2]" "neighbour ?b (cfg_ip (net_config ?a)) [2, 0, 0, 0, 0, 1]"
    by (simp_all add: connected_neighbour)
  have z: "http_data ?b = []" by (simp add: http_data_def)
  have f: "find_idx (\<lambda>q. ts_in_use q \<and> ts_remote_ip q = cfg_ip (net_config ?a) \<and> ts_remote_port q = ts_local_port (tcp_sockets ?a ! 0) \<and>
       ts_local_port q = ts_remote_port (tcp_sockets ?a ! 0)) (take MAX_TCP_SOCKETS (tcp_sockets ?b)) = Some 0"
    using connected_socket [of "0x0100000A" 80 49152] by simp
  have e: "ts_state (tcp_sockets ?a ! 0) = TCP_STATE_ESTABLISHED" "ts_state (tcp_sockets ?b ! 0) = TCP_STATE_ESTABLISHED" by (simp_all add: TCP_STATE_ESTABLISHED_def)
  have "0 < length (tcp_sockets ?a)" "ts_remote_ip (tcp_sockets ?a ! 0) = cfg_ip (net_config ?b)" "[72, 105] \<noteq> ([] :: bytes)"
    "length [72, 105 :: u8] \<le> 8130" "http_ok ?b" "http_response_len ?b + length [72, 105 :: u8] \<le> HTTP_RESPONSE_MAX"
    by (simp_all add: HTTP_RESPONSE_MAX_def)
  from tcp_delivery [OF h n this(1) e(1) this(2) f e(2) this(3-6), of 0] obtain fr a' b' ack where
    "tcp_send (net_send_ipv4 (Suc 0)) (Some 0) [72, 105] (of_nat (length [72, 105 :: u8])) ?a = Some (0, a')"
    "net_receive_packet (net_send_ipv4 (Suc 0)) (fr @ []) (of_nat (length fr)) ?b = Some b'" "http_data b' = http_data ?b @ [72, 105]"
    "e_wire (e1000_dev b') = e_wire (e1000_dev ?b) @ [ack]" "segment 42 4 ack = be_enc 4 (ts_seq_num (tcp_sockets a' ! 0))"
    unfolding Let_def by blast
  then show ?thesis unfolding One_nat_def using z by (intro exI conjI) (simp_all del: net_send_ipv4.simps)
qed

text \<open>A connection from its opening to its end: the peer accepts, sends two bytes, ends the connection and acknowledges the end.\<close>

theorem tcp_connection_refines_witness:
  "\<exists>b' m frs. deliver (net_send_ipv4 1) [] (map (segment_frame (connected_host 0x0100000A [2, 0, 0, 0, 0, 1] 0x0200000A [2, 0, 0, 0, 0, 2] 80 49152 4) 0x0200000A [2, 0, 0, 0, 0, 2])
      [(m, TCP_SYN OR TCP_ACK, []), (m, TCP_PSH OR TCP_ACK, [72, 105]), (m, TCP_FIN OR TCP_ACK, []), (m, TCP_ACK, [])])
      (connected_host 0x0200000A [2, 0, 0, 0, 0, 2] 0x0100000A [2, 0, 0, 0, 0, 1] 49152 80 2) = Some b' \<and>
    ts_state (tcp_sockets b' ! 0) = TCP_STATE_CLOSED \<and> http_data b' = [72, 105] \<and> length frs = 4 \<and>
    e_wire (e1000_dev b') = e_wire (e1000_dev (connected_host 0x0200000A [2, 0, 0, 0, 0, 2] 0x0100000A [2, 0, 0, 0, 0, 1] 49152 80 2)) @ frs"
proof -
  let ?a = "connected_host 0x0100000A [2, 0, 0, 0, 0, 1] 0x0200000A [2, 0, 0, 0, 0, 2] 80 49152 4"
  let ?b = "connected_host 0x0200000A [2, 0, 0, 0, 0, 2] 0x0100000A [2, 0, 0, 0, 0, 1] 49152 80 2"
  let ?m = "tcp_sockets ?a ! 0"
  let ?segs = "[(?m, TCP_SYN OR TCP_ACK, []), (?m, TCP_PSH OR TCP_ACK, [72, 105]), (?m, TCP_FIN OR TCP_ACK, []), (?m, TCP_ACK, [])]"
  have h: "host_ok ?a" "host_ok ?b" by (rule connected_host_ok; simp)+
  have n: "neighbour ?a (cfg_ip (net_config ?b)) [2, 0, 0, 0, 0, 2]" "neighbour ?b (cfg_ip (net_config ?a)) [2, 0, 0, 0, 0, 1]"
    by (simp_all add: connected_neighbour)
  have f: "find_idx (\<lambda>q. ts_in_use q \<and> ts_remote_ip q = cfg_ip (net_config ?a) \<and> ts_remote_port q = 80 \<and> ts_local_port q = 49152) (take MAX_TCP_SOCKETS (tcp_sockets ?b)) = Some 0"
    using connected_socket [of "0x0100000A" 80 49152] by simp
  have sg: "\<forall>(m, flags, d) \<in> set ?segs. ts_local_port m = 80 \<and> ts_remote_port m = 49152 \<and> length d \<le> 8130" by simp
  have z: "http_data ?b = []" by (simp add: http_data_def)
  obtain k xs outs where run: "tcp_run ?segs (tcp_sockets ?b ! 0) (http_data ?b) = (k, xs, outs)" by (metis prod_cases3)
  have k: "ts_state k = TCP_STATE_CLOSED" "xs = [72, 105]" "length outs = 4"
    using run z by (auto simp: tcp_step_def Let_def tcp_state_defs TCP_SYN_def TCP_ACK_def TCP_PSH_def TCP_FIN_def HTTP_RESPONSE_MAX_def)
  from tcp_connection_refines [OF h(1) n(1) h(2) n(2) _ f sg, of 0 "[]"] obtain b' where
    "deliver (net_send_ipv4 (Suc 0)) [] (map (segment_frame ?a (cfg_ip (net_config ?b)) [2, 0, 0, 0, 0, 2]) ?segs) ?b = Some b'"
    "tcp_effect 0 k xs (answer_frames ?b (cfg_ip (net_config ?a)) [2, 0, 0, 0, 0, 1] outs) ?b b'" unfolding run by auto
  then show ?thesis using k unfolding One_nat_def tcp_effect_def
    by (intro exI [of _ b'] exI [of _ ?m] exI [of _ "answer_frames ?b (cfg_ip (net_config ?a)) [2, 0, 0, 0, 0, 1] outs"])
      (simp del: net_send_ipv4.simps deliver.simps list.map add: answer_frames_def)
qed

section \<open>A forged data offset\<close>

text \<open>
  The data offset of a segment is not checked against its length: on an open connection, a segment
  whose offset of 60 bytes exceeds its length makes the length of the data wrap around, and the
  receiver copies far more than the receive buffer of 8192 bytes holds.
\<close>

theorem tcp_offset_overread:
  assumes "20 \<le> len" and "len < 60" and "length d \<le> 8192" and "fld d 0 20 = Some hdr" and "hdr ! 12 = 0xF0" and "hdr ! 13 AND TCP_FIN = 0" and "hdr ! 13 AND TCP_ACK \<noteq> 0"
    and "find_idx (\<lambda>k. ts_in_use k \<and> ts_remote_ip k = src \<and> ts_remote_port k = net_htons (le_dec (segment 0 2 hdr)) \<and> ts_local_port k = net_htons (le_dec (segment 2 2 hdr)))
       (take MAX_TCP_SOCKETS (tcp_sockets s)) = Some j"
    and "ts_state (tcp_sockets s ! j) = TCP_STATE_ESTABLISHED" and "http_response_len s \<le> 8192"
  shows "tcp_receive send src d len s = None"
proof -
  have hl: "(ucast (drop_bit 4 (0xF0 :: u8)) * 4 :: u16) = 60" by simp
  have n: "20 \<le> unat len" "unat len < 60" using assms(1,2) by (simp_all add: word_le_nat_alt word_less_nat_alt)
  have "uint len - 60 + 65536 = uint (len - 60)" using assms(2) uint_sub_if' [of len 60] by (simp add: word_less_def)
  then have "int (unat (len - 60)) = int (unat len + 65476)" by simp
  then have u: "unat (len - 60) = unat len + 65476" by (simp only: of_nat_eq_iff)
  then have pos: "0 < len - 60" by (simp add: word_less_nat_alt)
  have big: "\<not> http_response_len s + unat (len - 60) < HTTP_RESPONSE_MAX" using u by (simp add: HTTP_RESPONSE_MAX_def)
  have over: "fld (drop 60 d) 0 (HTTP_RESPONSE_MAX - http_response_len s) = None"
    using assms(3,10) by (simp add: fld_def HTTP_RESPONSE_MAX_def)
  have r: "(rest_at d 60 \<bind> (\<lambda>p. http_tcp_data_received p (unat (len - 60)) s \<bind> g)) = None" for g :: "net \<Rightarrow> net option"
    using over big by (auto simp: rest_at_def http_tcp_data_received_def Let_def split: bind_splits)
  have ne: "TCP_STATE_ESTABLISHED \<noteq> TCP_STATE_SYN_SENT" and l: "\<not> len < 20" using assms(1) by (simp_all add: tcp_state_defs not_less)
  show ?thesis unfolding tcp_receive_def
    by (simp only: l assms(4-9) ne hl pos if_False if_True bind.bind_lunit Let_def option.case simp_thms) (use r in simp)
qed

text \<open>The hypotheses hold for a segment of 20 bytes on the connection of an example host.\<close>

theorem tcp_offset_overread_witness:
  "tcp_receive (net_send_ipv4 5) 0x0100000A ([0, 80, 192, 0] @ replicate 8 0 @ [0xF0, 0x10] @ replicate 6 0) 20
     (connected_host 0x0200000A [2, 0, 0, 0, 0, 2] 0x0100000A [2, 0, 0, 0, 0, 1] 49152 80 4) = None"
proof (rule tcp_offset_overread)
  let ?hdr = "[0, 80, 192, 0] @ replicate 8 0 @ [0xF0, 0x10] @ replicate 6 0 :: bytes"
  show "fld ?hdr 0 20 = Some ?hdr" by simp
  have "net_htons (le_dec (segment 0 2 ?hdr)) = 80" "net_htons (le_dec (segment 2 2 ?hdr)) = 49152" by (simp_all add: segment_def net_htons_def)
  then show "find_idx (\<lambda>k. ts_in_use k \<and> ts_remote_ip k = 0x0100000A \<and> ts_remote_port k = net_htons (le_dec (segment 0 2 ?hdr)) \<and> ts_local_port k = net_htons (le_dec (segment 2 2 ?hdr)))
       (take MAX_TCP_SOCKETS (tcp_sockets (connected_host 0x0200000A [2, 0, 0, 0, 0, 2] 0x0100000A [2, 0, 0, 0, 0, 1] 49152 80 4))) = Some 0"
    using connected_socket [of "0x0100000A" 80 49152] by simp
qed (simp_all add: nth_append TCP_FIN_def TCP_ACK_def TCP_STATE_ESTABLISHED_def)

end
