(* ===== verification/Http.thy ===== *)
theory Http
  imports Net_Stack VFS
begin

text \<open>
  The HTTP client (\<open>Network/Protocols/http.c\<close>): taking a URL apart, building and checking the request,
  fetching a page and the command \<open>wget\<close> that saves it to a file. Strings are byte lists without their
  NUL; the contents of arrays that C leaves uninitialised on the stack are arguments.
\<close>

section \<open>Strings\<close>

text \<open>\<open>strncmp\<close> of \<open>Shell/shell.c\<close>: characters are signed, and the end of a list is the NUL.\<close>

fun strncmp :: "bytes \<Rightarrow> bytes \<Rightarrow> nat \<Rightarrow> int" where
  "strncmp s1 s2 0 = 0"
| "strncmp [] [] (Suc n) = 0"
| "strncmp (a # s1) [] (Suc n) = sint a"
| "strncmp [] (b # s2) (Suc n) = - sint b"
| "strncmp (a # s1) (b # s2) (Suc n) = (if a \<noteq> b then sint a - sint b else strncmp s1 s2 n)"

text \<open>The first position of a pattern.\<close>

fun find_sub :: "bytes \<Rightarrow> bytes \<Rightarrow> nat option" where
  "find_sub p [] = (if p = [] then Some 0 else None)"
| "find_sub p (x # xs) = (if take (length p) (x # xs) = p then Some 0 else map_option Suc (find_sub p xs))"

definition CRLF :: bytes where
  "CRLF = [13, 10]"

section \<open>URLs\<close>

definition skip_scheme :: "bytes \<Rightarrow> bytes" where
  "skip_scheme url =
     (if strncmp url (of_string ''http://'') 7 = 0 then drop 7 url
      else if strncmp url (of_string ''https://'') 8 = 0 then drop 8 url
      else url)"

text \<open>The rest of the string from its last slash, if it has one.\<close>

fun from_last_slash :: "bytes \<Rightarrow> bytes option \<Rightarrow> bytes option" where
  "from_last_slash [] r = r"
| "from_last_slash (c # cs) r = from_last_slash cs (if c = 47 then Some (c # cs) else r)"

definition extract_filename_from_url :: "bytes \<Rightarrow> nat \<Rightarrow> bytes" where
  "extract_filename_from_url url max_len =
     (let name = (case from_last_slash (skip_scheme url) None of
                    None \<Rightarrow> []
                  | Some r \<Rightarrow> take (max_len - 1) (takeWhile (\<lambda>c. c \<noteq> 63 \<and> c \<noteq> 35) (tl r)))
      in if name \<noteq> [] then name else take (max_len - 1) (of_string ''index.html''))"

text \<open>The port is computed in 16 bits.\<close>

definition port_number :: "bytes \<Rightarrow> u16" where
  "port_number ds = fold (\<lambda>c port. port * 10 + (ucast c - 48)) ds 0"

text \<open>Host, path and port, or the error \<open>-1\<close>.\<close>

definition parse_url :: "bytes \<Rightarrow> (bytes \<times> bytes \<times> u16) option" where
  "parse_url url =
     (let ptr = skip_scheme url;
          host = take 255 (takeWhile (\<lambda>c. c \<noteq> 47 \<and> c \<noteq> 58) ptr);
          ptr = drop (length host) ptr
      in if host = [] then None
         else do {
           (port, ptr) \<leftarrow> (case ptr of
             [] \<Rightarrow> Some (80, ptr)
           | c # r \<Rightarrow>
               if c = 58 then
                 let ds = takeWhile (\<lambda>c. 48 \<le> c \<and> c \<le> 57) r; port = port_number ds
                 in if port = 0 \<or> unat port > 65535 then None else Some (port, drop (length ds) r)
               else Some (80, ptr));
           let path = (if ptr = [] then [47] else if ptr = [47] then [47] else if hd ptr = 47 then take 255 ptr else [47]);
           Some (host, path, port) })"

section \<open>Requests\<close>

text \<open>Appending the characters of a string while the position is below 1000.\<close>

definition append_1000 :: "bytes \<Rightarrow> bytes \<Rightarrow> bytes" where
  "append_1000 str request = request @ take (1000 - length request) str"

definition http_request :: "bytes \<Rightarrow> bytes \<Rightarrow> bytes" where
  "http_request host path =
     (let request = of_string ''GET '';
          request = append_1000 path request;
          request = request @ of_string '' HTTP/1.1'' @ CRLF @ of_string ''Host: '';
          request = append_1000 host request;
          request = request @ CRLF;
          request = append_1000 (of_string ''User-Agent: CustomOS/1.0'' @ CRLF) request;
          request = append_1000 (of_string ''Accept: */*'' @ CRLF) request;
          request = append_1000 (of_string ''Connection: close'' @ CRLF) request
      in request @ CRLF)"

text \<open>The number of errors found in a request.\<close>

definition validate_http_request :: "bytes \<Rightarrow> nat" where
  "validate_http_request request =
     (let len = length request in
      (if len < 4 \<or> take 4 request \<noteq> of_string ''GET '' then 1 else 0) +
      (case find_sub CRLF request of
         None \<Rightarrow> 1
       | Some req_line_end \<Rightarrow>
           if req_line_end > 8 then if find_sub (of_string ''HTTP'') (take (req_line_end - 4) request) = None then 1 else 0 else 0) +
      (if len \<ge> 4 \<and> drop (len - 4) request \<noteq> CRLF @ CRLF then 1 else 0) +
      (if 0 \<in> set (take (len - 1) request) then 1 else 0))"

section \<open>Fetching\<close>

text \<open>
  Waiting for the response, \<open>n\<close> more rounds: it is complete when no data has come for more than a
  thousand rounds.
\<close>

fun http_wait :: "(net \<Rightarrow> net option) \<Rightarrow> nat \<Rightarrow> nat \<Rightarrow> nat \<Rightarrow> net \<Rightarrow> net option" where
  "http_wait poll 0 no_data_count last_len s = Some s"
| "http_wait poll (Suc n) no_data_count last_len s = do {
     s \<leftarrow> poll_times poll 50 s;
     if http_response_len s > last_len then http_wait poll n 0 (http_response_len s) s
     else if no_data_count + 1 > 1000 \<and> http_response_len s > 0 then Some s
     else http_wait poll n (no_data_count + 1) last_len s }"

text \<open>\<open>output\<close> is the caller's buffer of at least \<open>max_len\<close> bytes.\<close>

definition http_get :: "nat \<Rightarrow> bytes \<Rightarrow> bytes \<Rightarrow> nat \<Rightarrow> net \<Rightarrow> (int \<times> bytes \<times> net) option" where
  "http_get depth url output max_len s =
     (case parse_url url of
        None \<Rightarrow> Some (-1, output, s)
      | Some (host, path, port) \<Rightarrow> do {
          (ip, s) \<leftarrow> dns_resolve depth host s;
          case ip of
            None \<Rightarrow> Some (-1, output, s)
          | Some ip \<Rightarrow> do {
              let (sock, s) = tcp_socket s;
              if sock = None then Some (-1, output, s)
              else do {
                let s = s\<lparr>http_response_len := 0\<rparr>;
                (r, s) \<leftarrow> tcp_connect depth sock ip port s;
                if r \<noteq> 0 then Some (-1, output, s)
                else do {
                  let request = http_request host path;
                  (r, s) \<leftarrow> tcp_send (net_send_ipv4 depth) sock request (of_nat (length request)) s;
                  if r \<noteq> 0 then do { (_, s) \<leftarrow> tcp_close depth sock s; Some (-1, output, s) }
                  else do {
                    s \<leftarrow> http_wait (e1000_interrupt_handler depth) 10000 0 0 s;
                    (_, s) \<leftarrow> tcp_close depth sock s;
                    if http_response_len s = 0 then Some (-1, output, s)
                    else do {
                      let copy_len = min (http_response_len s) max_len;
                      bs \<leftarrow> fld (http_response_buffer s) 0 copy_len;
                      output \<leftarrow> store 0 (bs @ (if copy_len < max_len then [0] else [])) output;
                      Some (int copy_len, output, s) }}}}}})"

section \<open>The command \<open>wget\<close>\<close>

text \<open>The URL and the name given with \<open>-o\<close>; the name is empty if there is none.\<close>

definition wget_args :: "bytes \<Rightarrow> bytes \<times> bytes" where
  "wget_args url =
     (let url_only = take 511 (takeWhile (\<lambda>c. c \<noteq> 32) url);
          r = dropWhile (\<lambda>c. c = 32) (drop (length url_only) url)
      in (url_only, if take 2 r = of_string ''-o'' then take 254 (takeWhile (\<lambda>c. c \<noteq> 32) (dropWhile (\<lambda>c. c = 32) (drop 2 r))) else []))"

definition wget_path :: "bytes \<Rightarrow> bytes" where
  "wget_path filename = 47 # take 254 (if filename \<noteq> [] \<and> hd filename = 47 then tl filename else filename)"

definition wget_body :: "bytes \<Rightarrow> bytes" where
  "wget_body response = (case find_sub (CRLF @ CRLF) response of None \<Rightarrow> response | Some i \<Rightarrow> drop (i + 4) response)"

definition FILE_READ :: u32 where
  "FILE_READ = 1"

definition FILE_WRITE :: u32 where
  "FILE_WRITE = 2"

definition save_file :: "bytes \<Rightarrow> bytes \<Rightarrow> ('s, 'd) vfs \<Rightarrow> ('s, 'd) vfs option" where
  "save_file path d v = do {
     (r, v) \<leftarrow> vfs_create (Some path) (FILE_READ OR FILE_WRITE) v;
     if r \<noteq> 0 then Some v
     else do {
       (fd, v) \<leftarrow> vfs_open (Some path) FILE_WRITE v;
       if fd < 0 then Some v
       else do {
         (_, v) \<leftarrow> vfs_write fd d v;
         (_, v) \<leftarrow> vfs_close fd v;
         Some v }}}"

definition cmd_wget :: "nat \<Rightarrow> bytes option \<Rightarrow> bytes \<Rightarrow> net \<times> ('s, 'd) vfs \<Rightarrow> (net \<times> ('s, 'd) vfs) option" where
  "cmd_wget depth url response nv =
     (let (n, v) = nv in
      case url of
        None \<Rightarrow> Some (n, v)
      | Some url \<Rightarrow>
          if cstr url = [] \<or> \<not> cfg_configured (net_config n) then Some (n, v)
          else do {
            let (url_only, name) = wget_args (cstr url);
            let filename = (if name \<noteq> [] then name else extract_filename_from_url url_only 255);
            (len, response, n) \<leftarrow> http_get depth url_only response 8192 n;
            if len \<le> 0 then Some (n, v)
            else do {
              v \<leftarrow> save_file (wget_path filename) (wget_body (take (nat len) response)) v;
              Some (n, v) }})"

end
