(* ===== verification/Http_Props.thy ===== *)
theory Http_Props
  imports Http
begin

text \<open>
  The HTTP client: every request it builds passes its own validation, a URL is taken apart into the
  parts it was put together from, and the headers of a response are cut off exactly.
\<close>

section \<open>Searching\<close>

lemma find_sub_here: "take (length p) xs = p \<Longrightarrow> find_sub p xs = Some 0"
  by (cases xs) auto

lemma find_sub_Some: "find_sub p xs = Some i \<Longrightarrow> take (length p) (drop i xs) = p \<and> i + length p \<le> length xs"
proof (induction xs arbitrary: i)
  case (Cons x xs)
  show ?case
  proof (cases "take (length p) (x # xs) = p")
    case True
    moreover have "length p \<le> length (x # xs)" using arg_cong [OF True, of length] by simp
    ultimately show ?thesis using Cons.prems by simp
  next
    case False
    then obtain j where "find_sub p xs = Some j" "i = Suc j" using Cons.prems by auto
    then show ?thesis using Cons.IH by simp
  qed
qed (simp split: if_splits)

text \<open>The first place of a pattern is where it was put, if it does not begin earlier.\<close>

lemma find_sub_first:
  assumes "\<And>i. i < length a \<Longrightarrow> take (length p) (drop i (a @ p @ b)) \<noteq> p"
  shows "find_sub p (a @ p @ b) = Some (length a)"
  using assms
proof (induction a)
  case Nil
  show ?case by (simp add: find_sub_here)
next
  case (Cons x a)
  have "take (length p) (x # a @ p @ b) \<noteq> p" using Cons.prems [of 0] by simp
  moreover have "find_sub p (a @ p @ b) = Some (length a)" using Cons.prems by (intro Cons.IH) (metis Suc_less_eq append_Cons drop_Suc_Cons length_Cons)
  ultimately show ?case by simp
qed

lemma find_sub_CRLF:
  assumes "13 \<notin> set a"
  shows "find_sub CRLF (a @ CRLF @ b) = Some (length a)"
proof (rule find_sub_first)
  fix i assume i: "i < length a"
  show "take (length CRLF) (drop i (a @ CRLF @ b)) \<noteq> CRLF"
  proof
    assume "take (length CRLF) (drop i (a @ CRLF @ b)) = CRLF"
    from arg_cong [OF this, of "\<lambda>l. l ! 0"] have "a ! i = 13" using i by (simp add: CRLF_def nth_append)
    then show False using assms i nth_mem by metis
  qed
qed

lemma find_sub_exists: "\<exists>i. find_sub p (a @ p @ b) = Some i"
proof (induction a)
  case Nil
  show ?case by (simp add: find_sub_here)
qed auto

section \<open>Requests\<close>

lemma append_1000_short: "length r + length str \<le> 1000 \<Longrightarrow> append_1000 str r = r @ str"
  by (simp add: append_1000_def)

lemma of_string_length [simp]: "length (of_string cs) = length cs"
  by (simp add: of_string_def)

lemma request_parts:
  assumes "length host \<le> 255" "length path \<le> 255"
  shows "http_request host path = (of_string ''GET '' @ path @ of_string '' HTTP/1.1'') @ CRLF @ (of_string ''Host: '' @ host @ CRLF @
    of_string ''User-Agent: CustomOS/1.0'' @ CRLF @ of_string ''Accept: */*'' @ CRLF @ of_string ''Connection: close'') @ CRLF @ CRLF"
  using assms unfolding http_request_def Let_def by (simp add: append_1000_short CRLF_def)

lemma parse_url_parts:
  assumes "parse_url url = Some (host, path, port)"
  shows "set host \<subseteq> set url" "set path \<subseteq> insert 47 (set url)" "length host \<le> 255" "length path \<le> 255"
proof -
  define p0 where "p0 = skip_scheme url"
  define h where "h = take 255 (takeWhile (\<lambda>c. c \<noteq> 47 \<and> c \<noteq> 58) p0)"
  have p0: "set p0 \<subseteq> set url" by (auto simp: p0_def skip_scheme_def dest: in_set_dropD)
  have hs: "set h \<subseteq> set url" "length h \<le> 255" using p0 by (auto simp: h_def dest!: in_set_takeD set_takeWhileD)
  define q0 where "q0 = drop (length h) p0"
  have q0: "set q0 \<subseteq> set url" "set (drop n (tl q0)) \<subseteq> set url" for n
  proof -
    have "set q0 \<subseteq> set p0" by (simp add: q0_def set_drop_subset)
    moreover have "set (drop n (tl q0)) \<subseteq> set q0" using set_drop_subset [of "Suc n" q0] by (simp add: drop_Suc)
    ultimately show "set q0 \<subseteq> set url" "set (drop n (tl q0)) \<subseteq> set url" using p0 by blast+
  qed
  have q: "host = h \<and> (path = [47] \<or> path = take 255 q0 \<or> (\<exists>n. path = take 255 (drop n (tl q0))))"
    using assms unfolding parse_url_def Let_def p0_def [symmetric] h_def [symmetric] q0_def [symmetric]
    by (cases q0) (auto split: if_splits bind_splits)
  then show "set host \<subseteq> set url" "length host \<le> 255" using hs by simp_all
  show "set path \<subseteq> insert 47 (set url)" "length path \<le> 255" using q q0 by (auto dest: in_set_takeD)
qed

text \<open>
  Every request that is built for a URL without carriage returns is well-formed by the client's own
  rules: it starts with the method, names the protocol in its request line, ends with an empty line and
  contains no NUL; no part is cut off by the limit of the request buffer.
\<close>

theorem http_request_valid:
  assumes "parse_url url = Some (host, path, port)" and "0 \<notin> set url" and "13 \<notin> set url"
  shows "validate_http_request (http_request host path) = 0"
proof -
  note p = parse_url_parts [OF assms(1)]
  have no: "0 \<notin> set host" "0 \<notin> set path" "13 \<notin> set path" using p assms(2,3) by auto
  let ?l = "of_string ''GET '' @ path @ of_string '' HTTP/1.1''"
  let ?m = "of_string ''Host: '' @ host @ CRLF @ of_string ''User-Agent: CustomOS/1.0'' @ CRLF @ of_string ''Accept: */*'' @ CRLF @ of_string ''Connection: close''"
  let ?r = "?l @ CRLF @ ?m @ CRLF @ CRLF"
  have e: "http_request host path = ?r" using request_parts [OF p(3,4)] by simp
  have "13 \<notin> set ?l" using no(3) by (simp add: of_string_def)
  then have crlf: "find_sub CRLF ?r = Some (length ?l)" by (rule find_sub_CRLF)
  have t: "take (length ?l - 4) ?r = (of_string ''GET '' @ path @ of_string '' '') @ of_string ''HTTP'' @ []" by (simp add: of_string_def)
  obtain i where i: "find_sub (of_string ''HTTP'') (take (length ?l - 4) ?r) = Some i" unfolding t using find_sub_exists by blast
  have "drop (length (x @ CRLF @ CRLF) - 4) (x @ CRLF @ CRLF) = CRLF @ CRLF" for x by (simp add: CRLF_def)
  from this [of "?l @ CRLF @ ?m"] have dr: "drop (length ?r - 4) ?r = CRLF @ CRLF" unfolding append_assoc .
  have z: "0 \<notin> set ?r" using no(1,2) by (simp add: of_string_def CRLF_def)
  then have z': "0 \<notin> set (take (length ?r - 1) ?r)" by (meson in_set_takeD)
  have g: "take 4 ?r = of_string ''GET ''" "\<not> length ?r < 4" by simp_all
  show ?thesis unfolding e validate_http_request_def Let_def crlf option.case i using dr z' g by simp
qed

text \<open>The hypotheses hold for a URL with a port and a path.\<close>

theorem http_request_valid_witness:
  "validate_http_request (http_request (of_string ''ab.c'') (of_string ''/x'')) = 0"
proof (rule http_request_valid)
  show "parse_url (of_string ''http://ab.c:81/x'') = Some (of_string ''ab.c'', of_string ''/x'', 81)" by code_simp
qed (simp_all add: of_string_def)

section \<open>Taking a URL apart\<close>

function decimal :: "nat \<Rightarrow> bytes" where
  "decimal n = (if n < 10 then [48 + of_nat n] else decimal (n div 10) @ [48 + of_nat (n mod 10)])"
  by pat_completeness auto
termination by (relation "measure id") auto

declare decimal.simps [simp del]

lemma digit_byte: "n < 10 \<Longrightarrow> 48 \<le> (48 + of_nat n :: u8) \<and> (48 + of_nat n :: u8) \<le> 57" "n < 10 \<Longrightarrow> (ucast (48 + of_nat n :: u8) :: u16) - 48 = of_nat n"
proof -
  assume "n < 10"
  then have "n \<in> {0, 1, 2, 3, 4, 5, 6, 7, 8, 9}" by auto
  then show "48 \<le> (48 + of_nat n :: u8) \<and> (48 + of_nat n :: u8) \<le> 57" "(ucast (48 + of_nat n :: u8) :: u16) - 48 = of_nat n" by auto
qed

lemma decimal_digits: "\<forall>c \<in> set (decimal n). 48 \<le> c \<and> c \<le> 57"
proof (induction n rule: decimal.induct)
  case (1 n)
  then show ?case using digit_byte(1) [of n] digit_byte(1) [of "n mod 10"] by (subst decimal.simps) auto
qed

lemma port_number_snoc: "port_number (ds @ [c]) = port_number ds * 10 + (ucast c - 48)"
  by (simp add: port_number_def)

lemma port_number_decimal: "port_number (decimal n) = of_nat n"
proof (induction n rule: decimal.induct)
  case (1 n)
  show ?case
  proof (cases "n < 10")
    case True
    then show ?thesis using digit_byte(2) [of n] by (subst decimal.simps) (simp add: port_number_def)
  next
    case False
    have "port_number (decimal n) = of_nat (n div 10) * 10 + of_nat (n mod 10)"
      using False 1 digit_byte(2) [of "n mod 10"] by (subst decimal.simps) (simp add: port_number_snoc)
    also have "\<dots> = of_nat (n div 10 * 10 + n mod 10)" unfolding of_nat_add of_nat_mult of_nat_numeral ..
    finally show ?thesis by (simp only: div_mult_mod_eq)
  qed
qed

lemma strncmp_prefix: "length p = n \<Longrightarrow> strncmp (p @ r) p n = 0"
  by (induction p arbitrary: n) auto

text \<open>
  A URL is taken apart into what it was put together from: for a host name of at most 255
  characters, a port from 1 to 65535 written in decimal and a path of at most 255 characters, exactly
  these three are returned.
\<close>

theorem parse_url_roundtrip:
  assumes "host \<noteq> []" and "length host \<le> 255" and "47 \<notin> set host" and "58 \<notin> set host" and "0 < n" and "n < 65536" and "length path \<le> 254"
  shows "parse_url (of_string ''http://'' @ host @ [58] @ decimal n @ [47] @ path) = Some (host, 47 # path, of_nat n)"
proof -
  let ?t = "decimal n @ 47 # path"
  have sk: "skip_scheme (of_string ''http://'' @ host @ [58] @ decimal n @ [47] @ path) = host @ 58 # ?t"
    unfolding skip_scheme_def by (subst strncmp_prefix) (simp_all add: of_string_def)
  have h: "take 255 (takeWhile (\<lambda>c. c \<noteq> 47 \<and> c \<noteq> 58) (host @ 58 # ?t)) = host"
    using assms(2-4) by (subst takeWhile_append2) auto
  have ds: "takeWhile (\<lambda>c. 48 \<le> c \<and> c \<le> 57) ?t = decimal n" using decimal_digits [of n] by (subst takeWhile_append2) auto
  have p: "port_number (decimal n) \<noteq> 0 \<and> \<not> unat (port_number (decimal n)) > 65535"
    using assms(5,6) by (simp add: port_number_decimal unat_of_nat word_unat_eq_iff)
  show ?thesis unfolding parse_url_def Let_def sk h using assms(1,7) p by (simp add: ds port_number_decimal)
qed

text \<open>The hypotheses hold for a short URL.\<close>

theorem parse_url_roundtrip_witness:
  "parse_url (of_string ''http://'' @ of_string ''ab.c'' @ [58] @ decimal 8080 @ [47] @ of_string ''x'') = Some (of_string ''ab.c'', 47 # of_string ''x'', of_nat 8080)"
  by (rule parse_url_roundtrip) (simp_all add: of_string_def)

section \<open>Responses\<close>

text \<open>The headers are cut off at the first empty line.\<close>

lemma wget_body_exact:
  assumes "\<And>i. i < length h \<Longrightarrow> take 4 (drop i (h @ CRLF @ CRLF @ b)) \<noteq> CRLF @ CRLF"
  shows "wget_body (h @ CRLF @ CRLF @ b) = b"
proof -
  have l: "length (CRLF @ CRLF) = 4" by (simp add: CRLF_def)
  have "find_sub (CRLF @ CRLF) (h @ (CRLF @ CRLF) @ b) = Some (length h)"
    by (rule find_sub_first) (unfold l, use assms in simp)
  then show ?thesis by (simp add: wget_body_def CRLF_def)
qed

end
