(* ===== verification/Asm.thy ===== *)
theory Asm
  imports Http
begin

unbundle bit_operations_syntax

text \<open>
  The built-in assembler (\<open>assembler/asm.c\<close>): one emitter per instruction form, the parsers of
  registers and immediates, the assembly of a line and of a program. Strings are byte lists without
  their NUL; an \<open>int64_t\<close> is a 64-bit word that is read as signed where the code compares it.
\<close>

section \<open>The context\<close>

definition MAX_ASM_SIZE :: nat where
  "MAX_ASM_SIZE = 4096"

record asm_context =
  a_code :: bytes
  a_size :: nat
  a_error :: bool
  a_error_msg :: bytes

definition asm_init :: "asm_context \<Rightarrow> asm_context" where
  "asm_init ctx = ctx\<lparr>a_code := replicate MAX_ASM_SIZE 0, a_size := 0, a_error := False, a_error_msg := []\<rparr>"

definition asm_error :: "bytes \<Rightarrow> asm_context \<Rightarrow> asm_context" where
  "asm_error msg ctx = ctx\<lparr>a_error := True, a_error_msg := take 255 msg\<rparr>"

definition asm_emit :: "u8 \<Rightarrow> asm_context \<Rightarrow> asm_context" where
  "asm_emit b ctx =
     (if a_size ctx \<ge> MAX_ASM_SIZE then asm_error (of_string ''Code size exceeded'') ctx
      else ctx\<lparr>a_code := (a_code ctx)[a_size ctx := b], a_size := a_size ctx + 1\<rparr>)"

definition asm_emit_bytes :: "bytes \<Rightarrow> asm_context \<Rightarrow> asm_context" where
  "asm_emit_bytes bs ctx = fold asm_emit bs ctx"

section \<open>Instructions\<close>

text \<open>Registers are numbered from 0 to 15; the numbers from 8 on set a bit of the prefix.\<close>

definition reg_low :: "int \<Rightarrow> u8" where
  "reg_low reg = of_int (if reg \<ge> 8 then reg - 8 else reg)"

text \<open>The bytes \<open>(v >> (i * 8)) & 0xFF\<close> of a value.\<close>

definition asm_emit_le :: "nat \<Rightarrow> 'a :: len word \<Rightarrow> asm_context \<Rightarrow> asm_context" where
  "asm_emit_le n v ctx = fold (\<lambda>i. asm_emit (ucast (drop_bit (8 * i) v))) [0..<n] ctx"

definition asm_call_rel32 :: "u32 \<Rightarrow> asm_context \<Rightarrow> asm_context" where
  "asm_call_rel32 offset ctx = asm_emit_le 4 offset (asm_emit 0xE8 ctx)"

text \<open>An instruction with one register: prefix, opcode and the register in the low bits of \<open>modrm\<close>.\<close>

definition asm_one_reg :: "u8 \<Rightarrow> u8 \<Rightarrow> int \<Rightarrow> asm_context \<Rightarrow> asm_context" where
  "asm_one_reg opcode modrm reg ctx =
     (let rex = (if reg \<ge> 8 then 0x48 OR 0x01 else 0x48)
      in asm_emit (modrm OR reg_low reg) (asm_emit opcode (asm_emit rex ctx)))"

text \<open>An instruction with two registers.\<close>

definition asm_two_regs :: "u8 \<Rightarrow> int \<Rightarrow> int \<Rightarrow> asm_context \<Rightarrow> asm_context" where
  "asm_two_regs opcode dst src ctx =
     (let rex = 0x48;
          rex = (if src \<ge> 8 then rex OR 0x04 else rex);
          rex = (if dst \<ge> 8 then rex OR 0x01 else rex)
      in asm_emit (0xC0 OR push_bit 3 (reg_low src) OR reg_low dst) (asm_emit opcode (asm_emit rex ctx)))"

definition asm_call_reg :: "int \<Rightarrow> asm_context \<Rightarrow> asm_context" where
  "asm_call_reg reg ctx = asm_one_reg 0xFF 0xD0 reg ctx"

definition asm_mov_rax_imm64 :: "u64 \<Rightarrow> asm_context \<Rightarrow> asm_context" where
  "asm_mov_rax_imm64 imm ctx = asm_emit_le 8 imm (asm_emit 0xB8 (asm_emit 0x48 ctx))"

definition asm_mov_reg_imm32 :: "int \<Rightarrow> u32 \<Rightarrow> asm_context \<Rightarrow> asm_context" where
  "asm_mov_reg_imm32 reg imm ctx = asm_emit_le 4 imm (asm_one_reg 0xC7 0xC0 reg ctx)"

definition asm_mov_reg_reg :: "int \<Rightarrow> int \<Rightarrow> asm_context \<Rightarrow> asm_context" where
  "asm_mov_reg_reg dst src ctx = asm_two_regs 0x89 dst src ctx"

definition asm_add_reg_imm8 :: "int \<Rightarrow> u8 \<Rightarrow> asm_context \<Rightarrow> asm_context" where
  "asm_add_reg_imm8 reg imm ctx = asm_emit imm (asm_one_reg 0x83 0xC0 reg ctx)"

definition asm_add_reg_reg :: "int \<Rightarrow> int \<Rightarrow> asm_context \<Rightarrow> asm_context" where
  "asm_add_reg_reg dst src ctx = asm_two_regs 0x01 dst src ctx"

definition asm_sub_reg_imm8 :: "int \<Rightarrow> u8 \<Rightarrow> asm_context \<Rightarrow> asm_context" where
  "asm_sub_reg_imm8 reg imm ctx = asm_emit imm (asm_one_reg 0x83 0xE8 reg ctx)"

definition asm_sub_reg_reg :: "int \<Rightarrow> int \<Rightarrow> asm_context \<Rightarrow> asm_context" where
  "asm_sub_reg_reg dst src ctx = asm_two_regs 0x29 dst src ctx"

definition asm_xor_reg_reg :: "int \<Rightarrow> int \<Rightarrow> asm_context \<Rightarrow> asm_context" where
  "asm_xor_reg_reg dst src ctx = asm_two_regs 0x31 dst src ctx"

definition asm_or_reg_reg :: "int \<Rightarrow> int \<Rightarrow> asm_context \<Rightarrow> asm_context" where
  "asm_or_reg_reg dst src ctx = asm_two_regs 0x09 dst src ctx"

definition asm_and_reg_reg :: "int \<Rightarrow> int \<Rightarrow> asm_context \<Rightarrow> asm_context" where
  "asm_and_reg_reg dst src ctx = asm_two_regs 0x21 dst src ctx"

definition asm_cmp_reg_imm8 :: "int \<Rightarrow> u8 \<Rightarrow> asm_context \<Rightarrow> asm_context" where
  "asm_cmp_reg_imm8 reg imm ctx = asm_emit imm (asm_one_reg 0x83 0xF8 reg ctx)"

definition asm_cmp_reg_reg :: "int \<Rightarrow> int \<Rightarrow> asm_context \<Rightarrow> asm_context" where
  "asm_cmp_reg_reg dst src ctx = asm_two_regs 0x39 dst src ctx"

definition asm_push_reg :: "int \<Rightarrow> asm_context \<Rightarrow> asm_context" where
  "asm_push_reg reg ctx = asm_emit (0x50 OR reg_low reg) (if reg \<ge> 8 then asm_emit 0x41 ctx else ctx)"

definition asm_pop_reg :: "int \<Rightarrow> asm_context \<Rightarrow> asm_context" where
  "asm_pop_reg reg ctx = asm_emit (0x58 OR reg_low reg) (if reg \<ge> 8 then asm_emit 0x41 ctx else ctx)"

definition asm_syscall :: "asm_context \<Rightarrow> asm_context" where
  "asm_syscall ctx = asm_emit 0x05 (asm_emit 0x0F ctx)"

definition asm_ret :: "asm_context \<Rightarrow> asm_context" where
  "asm_ret ctx = asm_emit 0xC3 ctx"

definition asm_nop :: "asm_context \<Rightarrow> asm_context" where
  "asm_nop ctx = asm_emit 0x90 ctx"

definition asm_inc_reg :: "int \<Rightarrow> asm_context \<Rightarrow> asm_context" where
  "asm_inc_reg reg ctx = asm_one_reg 0xFF 0xC0 reg ctx"

definition asm_dec_reg :: "int \<Rightarrow> asm_context \<Rightarrow> asm_context" where
  "asm_dec_reg reg ctx = asm_one_reg 0xFF 0xC8 reg ctx"

definition asm_neg_reg :: "int \<Rightarrow> asm_context \<Rightarrow> asm_context" where
  "asm_neg_reg reg ctx = asm_one_reg 0xF7 0xD8 reg ctx"

definition asm_not_reg :: "int \<Rightarrow> asm_context \<Rightarrow> asm_context" where
  "asm_not_reg reg ctx = asm_one_reg 0xF7 0xD0 reg ctx"

definition asm_shl_reg_imm8 :: "int \<Rightarrow> u8 \<Rightarrow> asm_context \<Rightarrow> asm_context" where
  "asm_shl_reg_imm8 reg imm ctx = asm_emit imm (asm_one_reg 0xC1 0xE0 reg ctx)"

definition asm_shr_reg_imm8 :: "int \<Rightarrow> u8 \<Rightarrow> asm_context \<Rightarrow> asm_context" where
  "asm_shr_reg_imm8 reg imm ctx = asm_emit imm (asm_one_reg 0xC1 0xE8 reg ctx)"

section \<open>Operands\<close>

definition blank :: "u8 \<Rightarrow> bool" where
  "blank c \<longleftrightarrow> c = 32 \<or> c = 9"

text \<open>The name of a register is followed by the end, a blank or a comma.\<close>

definition ends_name :: "bytes \<Rightarrow> bool" where
  "ends_name r \<longleftrightarrow> r = [] \<or> hd r = 32 \<or> hd r = 44"

definition is_reg :: "string \<Rightarrow> bytes \<Rightarrow> bool" where
  "is_reg name s \<longleftrightarrow> take 3 s = of_string name \<and> ends_name (drop 3 s)"

definition parse_register :: "bytes \<Rightarrow> int" where
  "parse_register reg =
     (let s = dropWhile blank reg in
      if is_reg ''rax'' s then 0 else if is_reg ''rcx'' s then 1 else if is_reg ''rdx'' s then 2 else if is_reg ''rbx'' s then 3
      else if is_reg ''rsp'' s then 4 else if is_reg ''rbp'' s then 5 else if is_reg ''rsi'' s then 6 else if is_reg ''rdi'' s then 7
      else if length s \<ge> 2 \<and> s ! 0 = 114 \<and> 56 \<le> s ! 1 \<and> s ! 1 \<le> 57 \<and> ends_name (drop 2 s) then 8 + (uint (s ! 1) - 56)
      else if length s \<ge> 3 \<and> s ! 0 = 114 \<and> s ! 1 = 49 \<and> 48 \<le> s ! 2 \<and> s ! 2 \<le> 53 \<and> ends_name (drop 3 s) then 10 + (uint (s ! 2) - 48)
      else if is_reg ''eax'' s then 0 else if is_reg ''ecx'' s then 1 else if is_reg ''edx'' s then 2 else if is_reg ''ebx'' s then 3
      else if is_reg ''esp'' s then 4 else if is_reg ''ebp'' s then 5 else if is_reg ''esi'' s then 6 else if is_reg ''edi'' s then 7
      else -1)"

fun hex_digits :: "bytes \<Rightarrow> u64 \<Rightarrow> u64" where
  "hex_digits [] val = val"
| "hex_digits (c # r) val =
     (if 48 \<le> c \<and> c \<le> 57 then hex_digits r (val * 16 + (ucast c - 48))
      else if 97 \<le> c \<and> c \<le> 102 then hex_digits r (val * 16 + (ucast c - 97 + 10))
      else if 65 \<le> c \<and> c \<le> 70 then hex_digits r (val * 16 + (ucast c - 65 + 10))
      else val)"

fun dec_digits :: "bytes \<Rightarrow> u64 \<Rightarrow> u64" where
  "dec_digits [] val = val"
| "dec_digits (c # r) val = (if 48 \<le> c \<and> c \<le> 57 then dec_digits r (val * 10 + (ucast c - 48)) else val)"

definition parse_immediate :: "bytes \<Rightarrow> u64" where
  "parse_immediate str =
     (let s = dropWhile blank str;
          neg = (s \<noteq> [] \<and> hd s = 45);
          s = (if neg then tl s else s);
          val = (if take 2 s = of_string ''0x'' \<or> take 2 s = of_string ''0X'' then hex_digits (drop 2 s) 0 else dec_digits s 0)
      in if neg then - val else val)"

section \<open>Lines\<close>

definition lower :: "u8 \<Rightarrow> u8" where
  "lower c = (if 65 \<le> c \<and> c \<le> 90 then c + 32 else c)"

definition arg_char :: "u8 \<Rightarrow> bool" where
  "arg_char c \<longleftrightarrow> c \<noteq> 44 \<and> c \<noteq> 32 \<and> c \<noteq> 9 \<and> c \<noteq> 59 \<and> c \<noteq> 35 \<and> c \<noteq> 10 \<and> c \<noteq> 13"

text \<open>A line is split into the mnemonic in lower case and two arguments.\<close>

definition split_line :: "bytes \<Rightarrow> bytes \<times> bytes \<times> bytes" where
  "split_line line =
     (let w = take 31 (takeWhile (\<lambda>c. \<not> blank c) line);
          r = dropWhile blank (drop (length w) line);
          arg1 = take 63 (takeWhile arg_char r);
          r = dropWhile (\<lambda>c. blank c \<or> c = 44) (drop (length arg1) r)
      in (map lower w, arg1, take 63 (takeWhile arg_char r)))"

definition mnem :: "bytes \<Rightarrow> string \<Rightarrow> bool" where
  "mnem mnemonic name \<longleftrightarrow> strncmp mnemonic (of_string name) (length name) = 0"

definition asm_fail :: "string \<Rightarrow> asm_context \<Rightarrow> int \<times> asm_context" where
  "asm_fail msg ctx = (-1, asm_error (of_string msg) ctx)"

text \<open>The forms of instructions that the lines have in common.\<close>

definition reg_or_imm8 :: "string \<Rightarrow> (int \<Rightarrow> int \<Rightarrow> asm_context \<Rightarrow> asm_context) \<Rightarrow> (int \<Rightarrow> u8 \<Rightarrow> asm_context \<Rightarrow> asm_context) \<Rightarrow> bytes \<Rightarrow> bytes \<Rightarrow> asm_context \<Rightarrow> int \<times> asm_context" where
  "reg_or_imm8 msg rr ri arg1 arg2 ctx =
     (let reg1 = parse_register arg1; reg2 = parse_register arg2 in
      if reg1 < 0 then asm_fail msg ctx
      else if reg2 \<ge> 0 then (0, rr reg1 reg2 ctx)
      else let imm = parse_immediate arg2 in
        if sint imm \<ge> -128 \<and> sint imm \<le> 127 then (0, ri reg1 (ucast imm) ctx)
        else asm_fail ''Immediate out of range (-128 to 127)'' ctx)"

definition two_regs :: "(int \<Rightarrow> int \<Rightarrow> asm_context \<Rightarrow> asm_context) \<Rightarrow> bytes \<Rightarrow> bytes \<Rightarrow> asm_context \<Rightarrow> int \<times> asm_context" where
  "two_regs rr arg1 arg2 ctx =
     (let reg1 = parse_register arg1; reg2 = parse_register arg2 in
      if reg1 < 0 \<or> reg2 < 0 then asm_fail ''Invalid register'' ctx else (0, rr reg1 reg2 ctx))"

definition one_reg :: "(int \<Rightarrow> asm_context \<Rightarrow> asm_context) \<Rightarrow> bytes \<Rightarrow> asm_context \<Rightarrow> int \<times> asm_context" where
  "one_reg f arg1 ctx =
     (let reg = parse_register arg1 in if reg < 0 then asm_fail ''Invalid register'' ctx else (0, f reg ctx))"

definition shift_reg :: "(int \<Rightarrow> u8 \<Rightarrow> asm_context \<Rightarrow> asm_context) \<Rightarrow> bytes \<Rightarrow> bytes \<Rightarrow> asm_context \<Rightarrow> int \<times> asm_context" where
  "shift_reg f arg1 arg2 ctx =
     (let reg = parse_register arg1 in
      if reg < 0 then asm_fail ''Invalid register'' ctx
      else let imm = parse_immediate arg2 in
        if sint imm < 0 \<or> sint imm > 63 then asm_fail ''Shift count out of range (0-63)'' ctx
        else (0, f reg (ucast imm) ctx))"

definition mov_line :: "bytes \<Rightarrow> bytes \<Rightarrow> asm_context \<Rightarrow> int \<times> asm_context" where
  "mov_line arg1 arg2 ctx =
     (let reg1 = parse_register arg1; reg2 = parse_register arg2 in
      if reg1 < 0 then asm_fail ''Invalid destination register'' ctx
      else if reg2 \<ge> 0 then (0, asm_mov_reg_reg reg1 reg2 ctx)
      else let imm = parse_immediate arg2 in
        if reg1 = 0 \<and> (sint imm > 0x7FFFFFFF \<or> sint imm < -0x80000000) then (0, asm_mov_rax_imm64 imm ctx)
        else (0, asm_mov_reg_imm32 reg1 (ucast imm) ctx))"

definition call_line :: "bytes \<Rightarrow> asm_context \<Rightarrow> int \<times> asm_context" where
  "call_line arg1 ctx =
     (let reg = parse_register arg1 in
      if reg \<ge> 0 then (0, asm_call_reg reg ctx) else (0, asm_call_rel32 (ucast (parse_immediate arg1)) ctx))"

definition asm_line :: "bytes \<Rightarrow> asm_context \<Rightarrow> int \<times> asm_context" where
  "asm_line line ctx =
     (if a_error ctx then (-1, ctx)
      else let line = dropWhile blank line in
      if line = [] \<or> hd line = 59 \<or> hd line = 35 then (0, ctx)
      else let (m, arg1, arg2) = split_line line in
      if mnem m ''mov'' then mov_line arg1 arg2 ctx
      else if mnem m ''add'' then reg_or_imm8 ''Invalid destination register'' asm_add_reg_reg asm_add_reg_imm8 arg1 arg2 ctx
      else if mnem m ''sub'' then reg_or_imm8 ''Invalid destination register'' asm_sub_reg_reg asm_sub_reg_imm8 arg1 arg2 ctx
      else if mnem m ''xor'' then two_regs asm_xor_reg_reg arg1 arg2 ctx
      else if mnem m ''or'' then two_regs asm_or_reg_reg arg1 arg2 ctx
      else if mnem m ''and'' then two_regs asm_and_reg_reg arg1 arg2 ctx
      else if mnem m ''cmp'' then reg_or_imm8 ''Invalid register'' asm_cmp_reg_reg asm_cmp_reg_imm8 arg1 arg2 ctx
      else if mnem m ''call'' then call_line arg1 ctx
      else if mnem m ''push'' then one_reg asm_push_reg arg1 ctx
      else if mnem m ''pop'' then one_reg asm_pop_reg arg1 ctx
      else if mnem m ''inc'' then one_reg asm_inc_reg arg1 ctx
      else if mnem m ''dec'' then one_reg asm_dec_reg arg1 ctx
      else if mnem m ''neg'' then one_reg asm_neg_reg arg1 ctx
      else if mnem m ''not'' then one_reg asm_not_reg arg1 ctx
      else if mnem m ''shl'' then shift_reg asm_shl_reg_imm8 arg1 arg2 ctx
      else if mnem m ''shr'' then shift_reg asm_shr_reg_imm8 arg1 arg2 ctx
      else if mnem m ''syscall'' then (0, asm_syscall ctx)
      else if mnem m ''ret'' then (0, asm_ret ctx)
      else if mnem m ''nop'' then (0, asm_nop ctx)
      else asm_fail ''Unknown instruction'' ctx)"

section \<open>Programs\<close>

text \<open>The digits of a line number as they are collected, least significant first.\<close>

function line_digits :: "nat \<Rightarrow> bytes" where
  "line_digits n = (48 + of_nat (n mod 10)) # (if n div 10 > 0 then line_digits (n div 10) else [])"
  by pat_completeness auto
termination by (relation "measure id") auto

declare line_digits.simps [simp del]

definition line_error :: "nat \<Rightarrow> asm_context \<Rightarrow> asm_context" where
  "line_error line_num ctx = ctx\<lparr>a_error_msg := take 255 (of_string ''Line '' @ rev (line_digits line_num) @ of_string '': '' @ a_error_msg ctx)\<rparr>"

definition next_line :: "bytes \<Rightarrow> bytes \<times> bytes" where
  "next_line program =
     (let line = take 255 (takeWhile (\<lambda>c. c \<noteq> 10) program);
          r = drop (length line) program
      in (line, if r \<noteq> [] \<and> hd r = 10 then tl r else r))"

lemma next_line_shorter: "program \<noteq> [] \<Longrightarrow> length (snd (next_line program)) < length program"
  by (cases program) (auto simp: next_line_def Let_def)

function asm_lines :: "nat \<Rightarrow> bytes \<Rightarrow> asm_context \<Rightarrow> int \<times> asm_context" where
  "asm_lines line_num program ctx =
     (if program = [] then (0, ctx)
      else let (line, r) = next_line program; (res, ctx) = asm_line line ctx
           in if res < 0 then (-1, line_error line_num ctx) else asm_lines (line_num + 1) r ctx)"
  by pat_completeness auto
termination
  by (relation "measure (\<lambda>(_, program, _). length program)") (use next_line_shorter in \<open>auto simp: split_beta\<close>, metis next_line_shorter snd_conv)

declare asm_lines.simps [simp del]

definition asm_program :: "bytes \<Rightarrow> asm_context \<Rightarrow> int \<times> asm_context" where
  "asm_program program ctx = asm_lines 1 program ctx"

text \<open>The code, or none together with the size 0.\<close>

definition asm_get_code :: "asm_context \<Rightarrow> bytes option" where
  "asm_get_code ctx = (if a_error ctx then None else Some (take (a_size ctx) (a_code ctx)))"

end
