(* ===== verification/Asm_Props.thy ===== *)
theory Asm_Props
  imports Asm Http_Props
begin

unbundle bit_operations_syntax

text \<open>
  The assembler against a reference: instructions of the processor with their encoding and a decoder
  after the processor manual. Assembling the text of a program yields exactly its encoding, the decoder
  reads the program back from it, and the code buffer is never exceeded.
\<close>

section \<open>Instructions\<close>

datatype alu = Add | Sub | Xor | Or | And | Cmp

datatype instr = Mov_RR nat nat | Mov_RI nat u32 | Mov_RAX u64 | Alu_RR alu nat nat | Alu_RI alu nat u8 | Push nat | Pop nat |
  Call_R nat | Call_Rel u32 | Inc nat | Dec nat | Neg nat | Not nat | Shl nat u8 | Shr nat u8 | Syscall | Ret | Nop

fun alu_op :: "alu \<Rightarrow> u8" where
  "alu_op Add = 0x01" | "alu_op Sub = 0x29" | "alu_op Xor = 0x31" | "alu_op Or = 0x09" | "alu_op And = 0x21" | "alu_op Cmp = 0x39"

text \<open>The extension of the opcode of an operation with an immediate.\<close>

fun alu_ext :: "alu \<Rightarrow> nat" where
  "alu_ext Add = 0" | "alu_ext Or = 1" | "alu_ext And = 4" | "alu_ext Sub = 5" | "alu_ext Xor = 6" | "alu_ext Cmp = 7"

definition rex :: "nat \<Rightarrow> nat \<Rightarrow> u8" where
  "rex reg rm = of_nat (0x48 + 4 * (reg div 8) + rm div 8)"

definition modrm :: "nat \<Rightarrow> nat \<Rightarrow> u8" where
  "modrm reg rm = of_nat (0xC0 + 8 * (reg mod 8) + rm mod 8)"

fun encode :: "instr \<Rightarrow> bytes" where
  "encode (Mov_RR d s) = [rex s d, 0x89, modrm s d]"
| "encode (Mov_RI r imm) = [rex 0 r, 0xC7, modrm 0 r] @ le_enc 4 imm"
| "encode (Mov_RAX imm) = [0x48, 0xB8] @ le_enc 8 imm"
| "encode (Alu_RR f d s) = [rex s d, alu_op f, modrm s d]"
| "encode (Alu_RI f r imm) = [rex 0 r, 0x83, modrm (alu_ext f) r, imm]"
| "encode (Push r) = (if r \<ge> 8 then [0x41] else []) @ [of_nat (0x50 + r mod 8)]"
| "encode (Pop r) = (if r \<ge> 8 then [0x41] else []) @ [of_nat (0x58 + r mod 8)]"
| "encode (Call_R r) = [rex 0 r, 0xFF, modrm 2 r]"
| "encode (Call_Rel imm) = [0xE8] @ le_enc 4 imm"
| "encode (Inc r) = [rex 0 r, 0xFF, modrm 0 r]"
| "encode (Dec r) = [rex 0 r, 0xFF, modrm 1 r]"
| "encode (Neg r) = [rex 0 r, 0xF7, modrm 3 r]"
| "encode (Not r) = [rex 0 r, 0xF7, modrm 2 r]"
| "encode (Shl r imm) = [rex 0 r, 0xC1, modrm 4 r, imm]"
| "encode (Shr r imm) = [rex 0 r, 0xC1, modrm 5 r, imm]"
| "encode Syscall = [0x0F, 0x05]"
| "encode Ret = [0xC3]"
| "encode Nop = [0x90]"

section \<open>Decoding\<close>

definition decode_stack :: "nat \<Rightarrow> u8 \<Rightarrow> bytes \<Rightarrow> (instr \<times> bytes) option" where
  "decode_stack base c r =
     (if unat c div 8 = 10 then Some (Push (base + unat c mod 8), r)
      else if unat c div 8 = 11 then Some (Pop (base + unat c mod 8), r) else None)"

fun alu_of_op :: "nat \<Rightarrow> alu option" where
  "alu_of_op n = (if n = 0x01 then Some Add else if n = 0x29 then Some Sub else if n = 0x31 then Some Xor else if n = 0x09 then Some Or
     else if n = 0x21 then Some And else if n = 0x39 then Some Cmp else None)"

fun alu_of_ext :: "nat \<Rightarrow> alu option" where
  "alu_of_ext n = (if n = 0 then Some Add else if n = 1 then Some Or else if n = 4 then Some And else if n = 5 then Some Sub
     else if n = 6 then Some Xor else if n = 7 then Some Cmp else None)"

definition with_imm8 :: "(u8 \<Rightarrow> instr) \<Rightarrow> bytes \<Rightarrow> (instr \<times> bytes) option" where
  "with_imm8 f r = (case r of [] \<Rightarrow> None | b # r \<Rightarrow> Some (f b, r))"

definition with_imm32 :: "(u32 \<Rightarrow> instr) \<Rightarrow> bytes \<Rightarrow> (instr \<times> bytes) option" where
  "with_imm32 f r = (if length r < 4 then None else Some (f (le_dec (take 4 r)), drop 4 r))"

text \<open>An instruction with the prefix \<open>0100 1R0B\<close> and two registers or an extended opcode.\<close>

definition decode_modrm :: "nat \<Rightarrow> nat \<Rightarrow> nat \<Rightarrow> u8 \<Rightarrow> bytes \<Rightarrow> (instr \<times> bytes) option" where
  "decode_modrm rb bb op m r =
     (let ext = unat m div 8 mod 8; reg = 8 * rb + ext; rm = 8 * bb + unat m mod 8 in
      if unat m div 64 \<noteq> 3 then None
      else if op = 0x89 then Some (Mov_RR rm reg, r)
      else if op = 0xC7 \<and> ext = 0 then with_imm32 (Mov_RI rm) r
      else if op = 0x83 then Option.bind (alu_of_ext ext) (\<lambda>f. with_imm8 (Alu_RI f rm) r)
      else if op = 0xFF then if ext = 0 then Some (Inc rm, r) else if ext = 1 then Some (Dec rm, r) else if ext = 2 then Some (Call_R rm, r) else None
      else if op = 0xF7 then if ext = 2 then Some (Not rm, r) else if ext = 3 then Some (Neg rm, r) else None
      else if op = 0xC1 then if ext = 4 then with_imm8 (Shl rm) r else if ext = 5 then with_imm8 (Shr rm) r else None
      else map_option (\<lambda>f. (Alu_RR f rm reg, r)) (alu_of_op op))"

definition decode :: "bytes \<Rightarrow> (instr \<times> bytes) option" where
  "decode bs =
     (case bs of
        [] \<Rightarrow> None
      | b # r \<Rightarrow>
          let n = unat b in
          if n = 0x90 then Some (Nop, r)
          else if n = 0xC3 then Some (Ret, r)
          else if n = 0x0F then if r \<noteq> [] \<and> hd r = 0x05 then Some (Syscall, tl r) else None
          else if n = 0xE8 then with_imm32 Call_Rel r
          else if n = 0x41 then (case r of [] \<Rightarrow> None | c # r \<Rightarrow> decode_stack 8 c r)
          else if n div 8 = 9 then
            (case r of
               op # m # r' \<Rightarrow>
                 if unat op = 0xB8 then if length (tl r) < 8 then None else Some (Mov_RAX (le_dec (take 8 (tl r))), drop 8 (tl r))
                 else decode_modrm (n div 4 mod 2) (n mod 2) (unat op) m r'
             | _ \<Rightarrow> None)
          else decode_stack 0 b r)"

fun valid_instr :: "instr \<Rightarrow> bool" where
  "valid_instr (Mov_RR d s) = (d < 16 \<and> s < 16)"
| "valid_instr (Mov_RI r imm) = (r < 16)"
| "valid_instr (Mov_RAX imm) = (sint imm > 0x7FFFFFFF \<or> sint imm < -0x80000000)"
| "valid_instr (Alu_RR f d s) = (d < 16 \<and> s < 16)"
| "valid_instr (Alu_RI f r imm) = (r < 16 \<and> f \<in> {Add, Sub, Cmp})"
| "valid_instr (Shl r imm) = (r < 16 \<and> imm \<le> 63)"
| "valid_instr (Shr r imm) = (r < 16 \<and> imm \<le> 63)"
| "valid_instr (Push r) = (r < 16)" | "valid_instr (Pop r) = (r < 16)" | "valid_instr (Call_R r) = (r < 16)"
| "valid_instr (Inc r) = (r < 16)" | "valid_instr (Dec r) = (r < 16)" | "valid_instr (Neg r) = (r < 16)" | "valid_instr (Not r) = (r < 16)"
| "valid_instr (Call_Rel imm) = True" | "valid_instr Syscall = True" | "valid_instr Ret = True" | "valid_instr Nop = True"

lemma unat_u8: "n < 256 \<Longrightarrow> unat (of_nat n :: u8) = n"
  by (simp add: unat_of_nat)

lemma unat_rex: "reg < 16 \<Longrightarrow> rm < 16 \<Longrightarrow> unat (rex reg rm) = 0x48 + 4 * (reg div 8) + rm div 8"
  unfolding rex_def by (rule unat_u8) simp

lemma unat_modrm: "unat (modrm reg rm) = 0xC0 + 8 * (reg mod 8) + rm mod 8"
  unfolding modrm_def by (rule unat_u8) (use mod_less_divisor [of 8 reg] mod_less_divisor [of 8 rm] in linarith)

lemma decode_two:
  assumes "reg < 16" "rm < 16" "unat op \<noteq> 0xB8"
  shows "decode ([rex reg rm, op, modrm k rm] @ r) = decode_modrm (reg div 8) (rm div 8) (unat op) (modrm k rm) r"
proof -
  have b: "reg div 8 \<le> 1" "rm div 8 \<le> 1" using assms(1,2) by simp_all
  have n: "unat (rex reg rm) div 8 = 9" "unat (rex reg rm) div 4 mod 2 = reg div 8" "unat (rex reg rm) mod 2 = rm div 8"
    "unat (rex reg rm) \<notin> {0x90, 0xC3, 0x0F, 0xE8, 0x41}"
    unfolding unat_rex [OF assms(1,2)] using b by (auto simp: le_Suc_eq)
  then show ?thesis using assms(3) by (simp add: decode_def Let_def)
qed

lemma modrm_field: "unat (modrm reg rm) div 8 mod 8 = reg mod 8" "unat (modrm reg rm) mod 8 = rm mod 8" "unat (modrm reg rm) div 64 = 3"
proof -
  have g: "(8 * a + b mod 8) div 8 = a" "(8 * a + b mod 8) mod 8 = b mod 8" for a b :: nat by simp_all
  have f: "unat (modrm reg rm) = 8 * (8 * 3 + reg mod 8) + rm mod 8" unfolding unat_modrm by simp
  show "unat (modrm reg rm) mod 8 = rm mod 8" unfolding f by (rule g)
  show "unat (modrm reg rm) div 8 mod 8 = reg mod 8" unfolding f g ..
  have "unat (modrm reg rm) div (8 * 8) = 3" unfolding div_mult2_eq f g ..
  then show "unat (modrm reg rm) div 64 = 3" by simp
qed

lemma modrm_ext: "k < 8 \<Longrightarrow> unat (modrm k rm) div 8 mod 8 = k"
  using modrm_field(1) [of k rm] by simp

lemmas modrm_fields = modrm_field modrm_ext

lemma decode_alu: "alu_of_op (unat (alu_op f)) = Some f" "unat (alu_op f) \<notin> {0xB8, 0x89, 0xC7, 0x83, 0xFF, 0xF7, 0xC1}"
  by (cases f; simp)+

lemma alu_ext_of: "alu_of_ext (alu_ext f) = Some f" "alu_ext f < 8"
  by (cases f; simp)+

lemma imm_le [simp]: "with_imm32 f (le_enc 4 imm @ r) = Some (f imm, r)" "with_imm8 g (b # r) = Some (g b, r)"
  by (simp_all add: with_imm32_def with_imm8_def)

lemma decode_push: "r < 16 \<Longrightarrow> decode (encode (Push r) @ q) = Some (Push r, q)"
proof -
  assume r: "r < 16"
  have m: "0x50 + r mod 8 < 256" using mod_less_divisor [of 8 r] by linarith
  have c: "unat (of_nat (0x50 + r mod 8) :: u8) = 0x50 + r mod 8" using unat_u8 [OF m] .
  have d: "(0x50 + r mod 8) div 8 = 10" "(0x50 + r mod 8) mod 8 = r mod 8" by (simp, presburger)
  have b: "r \<ge> 8 \<Longrightarrow> r = 8 + r mod 8" using r by presburger
  show ?thesis unfolding encode.simps
    by (cases "r \<ge> 8") (use b c d m in \<open>simp_all add: decode_def Let_def decode_stack_def del: of_nat_add\<close>)
qed

lemma decode_pop: "r < 16 \<Longrightarrow> decode (encode (Pop r) @ q) = Some (Pop r, q)"
proof -
  assume r: "r < 16"
  have m: "0x58 + r mod 8 < 256" using mod_less_divisor [of 8 r] by linarith
  have c: "unat (of_nat (0x58 + r mod 8) :: u8) = 0x58 + r mod 8" using unat_u8 [OF m] .
  have d: "(0x58 + r mod 8) div 8 = 11" "(0x58 + r mod 8) mod 8 = r mod 8" by (simp, presburger)
  have b: "r \<ge> 8 \<Longrightarrow> r = 8 + r mod 8" using r by presburger
  show ?thesis unfolding encode.simps
    by (cases "r \<ge> 8") (use b c d m in \<open>simp_all add: decode_def Let_def decode_stack_def del: of_nat_add\<close>)
qed

lemma split_reg: "8 * (r div 8) + r mod 8 = (r :: nat)"
  by simp

text \<open>The decoder reads back every valid instruction, whatever follows it.\<close>

lemma decode_encode: "valid_instr i \<Longrightarrow> decode (encode i @ r) = Some (i, r)"
proof (cases i)
  case (Mov_RAX imm)
  obtain m q where mq: "le_enc 8 imm = m # q" by (metis length_le_enc length_0_conv list.exhaust zero_neq_numeral)
  have q: "length q = 7" using arg_cong [OF mq, of length] by simp
  have "le_dec (m # q) = imm" unfolding mq [symmetric] by (rule le_dec_enc) simp
  then show ?thesis using Mov_RAX q unfolding Mov_RAX encode.simps mq by (simp add: decode_def Let_def del: le_dec.simps)
next
  case (Alu_RR f d s)
  assume "valid_instr i"
  then show ?thesis using Alu_RR decode_two [of s d "alu_op f" s r] decode_alu [of f]
    by (simp add: decode_modrm_def Let_def modrm_fields del: alu_of_op.simps)
next
  case (Alu_RI f d imm)
  assume "valid_instr i"
  then show ?thesis using Alu_RI decode_two [of 0 d "0x83" "alu_ext f" "imm # r"] alu_ext_of [of f]
    by (simp add: decode_modrm_def Let_def modrm_fields del: alu_of_ext.simps)
next
  case (Call_Rel imm)
  then show ?thesis by (simp add: decode_def Let_def)
next
  case (Push r)
  assume "valid_instr i"
  then show ?thesis using Push by (simp add: decode_push del: encode.simps)
next
  case (Pop r)
  assume "valid_instr i"
  then show ?thesis using Pop by (simp add: decode_pop del: encode.simps)
next
  case (Mov_RR d s)
  assume "valid_instr i"
  then show ?thesis using Mov_RR decode_two [of s d "0x89" s r] by (simp add: decode_modrm_def Let_def modrm_fields)
next
  case (Mov_RI d imm)
  assume "valid_instr i"
  then show ?thesis using Mov_RI decode_two [of 0 d "0xC7" 0 "le_enc 4 imm @ r"] by (simp add: decode_modrm_def Let_def modrm_fields)
next
  case (Call_R d)
  assume "valid_instr i"
  then show ?thesis using Call_R decode_two [of 0 d "0xFF" 2 r] by (simp add: decode_modrm_def Let_def modrm_fields)
next
  case (Inc d)
  assume "valid_instr i"
  then show ?thesis using Inc decode_two [of 0 d "0xFF" 0 r] by (simp add: decode_modrm_def Let_def modrm_fields)
next
  case (Dec d)
  assume "valid_instr i"
  then show ?thesis using Dec decode_two [of 0 d "0xFF" 1 r] by (simp add: decode_modrm_def Let_def modrm_fields)
next
  case (Neg d)
  assume "valid_instr i"
  then show ?thesis using Neg decode_two [of 0 d "0xF7" 3 r] by (simp add: decode_modrm_def Let_def modrm_fields)
next
  case (Not d)
  assume "valid_instr i"
  then show ?thesis using Not decode_two [of 0 d "0xF7" 2 r] by (simp add: decode_modrm_def Let_def modrm_fields)
next
  case (Shl d imm)
  assume "valid_instr i"
  then show ?thesis using Shl decode_two [of 0 d "0xC1" 4 "imm # r"] by (simp add: decode_modrm_def Let_def modrm_fields)
next
  case (Shr d imm)
  assume "valid_instr i"
  then show ?thesis using Shr decode_two [of 0 d "0xC1" 5 "imm # r"] by (simp add: decode_modrm_def Let_def modrm_fields)
qed (simp_all add: decode_def Let_def)

section \<open>The emitters\<close>

lemma emit_bytes_Cons [simp]: "asm_emit_bytes (b # bs) ctx = asm_emit_bytes bs (asm_emit b ctx)" "asm_emit_bytes [] ctx = ctx"
  by (simp_all add: asm_emit_bytes_def)

lemma emit_bytes_append: "asm_emit_bytes (a @ b) ctx = asm_emit_bytes b (asm_emit_bytes a ctx)"
  by (simp add: asm_emit_bytes_def)

lemma emit_le: "asm_emit_le n v ctx = asm_emit_bytes (le_enc n v) ctx"
  by (simp add: asm_emit_le_def asm_emit_bytes_def le_enc_def fold_map comp_def)

lemma or_table: "\<forall>k \<in> set [0..<8]. \<forall>j \<in> set [0..<8]. (of_nat (0xC0 + 8 * k) :: u8) OR of_nat j = of_nat (0xC0 + 8 * k + j)"
  by code_simp

lemma or_table2: "\<forall>k \<in> set [0..<8]. \<forall>j \<in> set [0..<8]. (0xC0 :: u8) OR push_bit 3 (of_nat k) OR of_nat j = of_nat (0xC0 + 8 * k + j)"
  by code_simp

lemma stack_table: "\<forall>j \<in> set [0..<8]. (0x50 :: u8) OR of_nat j = of_nat (0x50 + j) \<and> (0x58 :: u8) OR of_nat j = of_nat (0x58 + j)"
  by code_simp

lemma reg_low_nat: "r < 16 \<Longrightarrow> reg_low (int r) = of_nat (r mod 8)"
proof -
  assume r: "r < 16"
  have "(if int r \<ge> 8 then int r - 8 else int r) = int (r mod 8)" using r by presburger
  then show ?thesis unfolding reg_low_def by simp
qed

lemma or_modrm: "k < 8 \<Longrightarrow> r < 16 \<Longrightarrow> of_nat (0xC0 + 8 * k) OR reg_low (int r) = modrm k r"
  using or_table [rule_format, of k "r mod 8"] by (simp add: reg_low_nat modrm_def del: of_nat_add of_nat_mult)

lemma rex_one: "r < 16 \<Longrightarrow> (if int r \<ge> 8 then 0x48 OR 0x01 else 0x48) = rex 0 r"
proof -
  assume r: "r < 16"
  then have "r div 8 = (if int r \<ge> 8 then 1 else 0)" by presburger
  then show ?thesis by (simp add: rex_def)
qed

lemma one_reg_bytes: "k < 8 \<Longrightarrow> r < 16 \<Longrightarrow> asm_one_reg op (of_nat (0xC0 + 8 * k)) (int r) ctx = asm_emit_bytes [rex 0 r, op, modrm k r] ctx"
  unfolding asm_one_reg_def Let_def rex_one by (simp add: or_modrm del: of_nat_add of_nat_mult)

lemma two_regs_bytes: "d < 16 \<Longrightarrow> q < 16 \<Longrightarrow> asm_two_regs op (int d) (int q) ctx = asm_emit_bytes [rex q d, op, modrm q d] ctx"
proof -
  assume r: "d < 16" "q < 16"
  have "d div 8 = (if int d \<ge> 8 then 1 else 0)" "q div 8 = (if int q \<ge> 8 then 1 else 0)" using r by presburger+
  then have "(let x = (if int q \<ge> 8 then 0x48 OR 0x04 else 0x48) in if int d \<ge> 8 then x OR 0x01 else x) = rex q d"
    by (simp add: rex_def Let_def)
  moreover have "0xC0 OR push_bit 3 (reg_low (int q)) OR reg_low (int d) = modrm q d"
    using or_table2 [rule_format, of "q mod 8" "d mod 8"] r by (simp add: reg_low_nat modrm_def del: of_nat_add of_nat_mult)
  ultimately show ?thesis unfolding asm_two_regs_def Let_def by simp
qed

lemma stack_bytes:
  "r < 16 \<Longrightarrow> asm_push_reg (int r) ctx = asm_emit_bytes (encode (Push r)) ctx"
  "r < 16 \<Longrightarrow> asm_pop_reg (int r) ctx = asm_emit_bytes (encode (Pop r)) ctx"
  using stack_table [rule_format, of "r mod 8"]
  by (auto simp: asm_push_reg_def asm_pop_reg_def reg_low_nat simp del: of_nat_add)

text \<open>Each emitter appends the encoding of its instruction.\<close>

lemma emitters:
  "d < 16 \<Longrightarrow> q < 16 \<Longrightarrow> asm_mov_reg_reg (int d) (int q) ctx = asm_emit_bytes (encode (Mov_RR d q)) ctx"
  "d < 16 \<Longrightarrow> asm_mov_reg_imm32 (int d) imm ctx = asm_emit_bytes (encode (Mov_RI d imm)) ctx"
  "asm_mov_rax_imm64 imm64 ctx = asm_emit_bytes (encode (Mov_RAX imm64)) ctx"
  "d < 16 \<Longrightarrow> q < 16 \<Longrightarrow> asm_add_reg_reg (int d) (int q) ctx = asm_emit_bytes (encode (Alu_RR Add d q)) ctx"
  "d < 16 \<Longrightarrow> q < 16 \<Longrightarrow> asm_sub_reg_reg (int d) (int q) ctx = asm_emit_bytes (encode (Alu_RR Sub d q)) ctx"
  "d < 16 \<Longrightarrow> q < 16 \<Longrightarrow> asm_xor_reg_reg (int d) (int q) ctx = asm_emit_bytes (encode (Alu_RR Xor d q)) ctx"
  "d < 16 \<Longrightarrow> q < 16 \<Longrightarrow> asm_or_reg_reg (int d) (int q) ctx = asm_emit_bytes (encode (Alu_RR Or d q)) ctx"
  "d < 16 \<Longrightarrow> q < 16 \<Longrightarrow> asm_and_reg_reg (int d) (int q) ctx = asm_emit_bytes (encode (Alu_RR And d q)) ctx"
  "d < 16 \<Longrightarrow> q < 16 \<Longrightarrow> asm_cmp_reg_reg (int d) (int q) ctx = asm_emit_bytes (encode (Alu_RR Cmp d q)) ctx"
  "d < 16 \<Longrightarrow> asm_add_reg_imm8 (int d) b ctx = asm_emit_bytes (encode (Alu_RI Add d b)) ctx"
  "d < 16 \<Longrightarrow> asm_sub_reg_imm8 (int d) b ctx = asm_emit_bytes (encode (Alu_RI Sub d b)) ctx"
  "d < 16 \<Longrightarrow> asm_cmp_reg_imm8 (int d) b ctx = asm_emit_bytes (encode (Alu_RI Cmp d b)) ctx"
  "d < 16 \<Longrightarrow> asm_call_reg (int d) ctx = asm_emit_bytes (encode (Call_R d)) ctx"
  "asm_call_rel32 imm ctx = asm_emit_bytes (encode (Call_Rel imm)) ctx"
  "d < 16 \<Longrightarrow> asm_inc_reg (int d) ctx = asm_emit_bytes (encode (Inc d)) ctx"
  "d < 16 \<Longrightarrow> asm_dec_reg (int d) ctx = asm_emit_bytes (encode (Dec d)) ctx"
  "d < 16 \<Longrightarrow> asm_neg_reg (int d) ctx = asm_emit_bytes (encode (Neg d)) ctx"
  "d < 16 \<Longrightarrow> asm_not_reg (int d) ctx = asm_emit_bytes (encode (Not d)) ctx"
  "d < 16 \<Longrightarrow> asm_shl_reg_imm8 (int d) b ctx = asm_emit_bytes (encode (Shl d b)) ctx"
  "d < 16 \<Longrightarrow> asm_shr_reg_imm8 (int d) b ctx = asm_emit_bytes (encode (Shr d b)) ctx"
  "asm_syscall ctx = asm_emit_bytes (encode Syscall) ctx" "asm_ret ctx = asm_emit_bytes (encode Ret) ctx" "asm_nop ctx = asm_emit_bytes (encode Nop) ctx"
  using one_reg_bytes [of 0 d _ ctx] one_reg_bytes [of 1 d _ ctx] one_reg_bytes [of 2 d _ ctx] one_reg_bytes [of 3 d _ ctx] one_reg_bytes [of 4 d _ ctx]
    one_reg_bytes [of 5 d _ ctx] one_reg_bytes [of 7 d _ ctx] two_regs_bytes [of d q _ ctx]
  by (simp_all add: asm_mov_reg_reg_def asm_mov_reg_imm32_def asm_mov_rax_imm64_def asm_add_reg_reg_def asm_sub_reg_reg_def asm_xor_reg_reg_def asm_or_reg_reg_def
      asm_and_reg_reg_def asm_cmp_reg_reg_def asm_add_reg_imm8_def asm_sub_reg_imm8_def asm_cmp_reg_imm8_def asm_call_reg_def asm_call_rel32_def asm_inc_reg_def
      asm_dec_reg_def asm_neg_reg_def asm_not_reg_def asm_shl_reg_imm8_def asm_shr_reg_imm8_def asm_syscall_def asm_ret_def asm_nop_def emit_le)

section \<open>The code buffer\<close>

definition asm_ok :: "asm_context \<Rightarrow> bool" where
  "asm_ok ctx \<longleftrightarrow> length (a_code ctx) = MAX_ASM_SIZE \<and> a_size ctx \<le> MAX_ASM_SIZE"

definition asm_code :: "asm_context \<Rightarrow> bytes" where
  "asm_code ctx = take (a_size ctx) (a_code ctx)"

lemma emit_bytes_fits:
  assumes "asm_ok ctx" "a_size ctx + length bs \<le> MAX_ASM_SIZE"
  shows "asm_ok (asm_emit_bytes bs ctx) \<and> asm_code (asm_emit_bytes bs ctx) = asm_code ctx @ bs \<and> a_error (asm_emit_bytes bs ctx) = a_error ctx \<and>
    a_size (asm_emit_bytes bs ctx) = a_size ctx + length bs"
  using assms
proof (induction bs arbitrary: ctx)
  case (Cons b bs)
  let ?c = "ctx\<lparr>a_code := (a_code ctx)[a_size ctx := b], a_size := a_size ctx + 1\<rparr>"
  have lt: "a_size ctx < MAX_ASM_SIZE" using Cons.prems(2) by simp
  then have e: "asm_emit b ctx = ?c" by (simp add: asm_emit_def)
  have ok: "asm_ok ?c" "a_size ?c + length bs \<le> MAX_ASM_SIZE" using Cons.prems lt by (simp_all add: asm_ok_def)
  have "asm_code ?c = asm_code ctx @ [b]" using Cons.prems(1) lt by (simp add: asm_code_def asm_ok_def take_Suc_conv_app_nth)
  then show ?case using Cons.IH [OF ok] unfolding emit_bytes_Cons e by simp
qed simp

section \<open>The text of an instruction\<close>

definition reg_text :: "nat \<Rightarrow> bytes" where
  "reg_text r = of_string ([''rax'', ''rcx'', ''rdx'', ''rbx'', ''rsp'', ''rbp'', ''rsi'', ''rdi'',
     ''r8'', ''r9'', ''r10'', ''r11'', ''r12'', ''r13'', ''r14'', ''r15''] ! r)"

definition int_text :: "int \<Rightarrow> bytes" where
  "int_text n = (if n < 0 then 45 # decimal (nat (- n)) else decimal (nat n))"

definition text2 :: "string \<Rightarrow> bytes \<Rightarrow> bytes \<Rightarrow> bytes" where
  "text2 name a b = of_string name @ 32 # a @ 44 # 32 # b"

definition text1 :: "string \<Rightarrow> bytes \<Rightarrow> bytes" where
  "text1 name a = of_string name @ 32 # a"

fun alu_name :: "alu \<Rightarrow> string" where
  "alu_name Add = ''add''" | "alu_name Sub = ''sub''" | "alu_name Xor = ''xor''" | "alu_name Or = ''or''" | "alu_name And = ''and''" | "alu_name Cmp = ''cmp''"

fun instr_text :: "instr \<Rightarrow> bytes" where
  "instr_text (Mov_RR d q) = text2 ''mov'' (reg_text d) (reg_text q)"
| "instr_text (Mov_RI r imm) = text2 ''mov'' (reg_text r) (int_text (sint imm))"
| "instr_text (Mov_RAX imm) = text2 ''mov'' (reg_text 0) (int_text (sint imm))"
| "instr_text (Alu_RR f d q) = text2 (alu_name f) (reg_text d) (reg_text q)"
| "instr_text (Alu_RI f r imm) = text2 (alu_name f) (reg_text r) (int_text (sint imm))"
| "instr_text (Push r) = text1 ''push'' (reg_text r)"
| "instr_text (Pop r) = text1 ''pop'' (reg_text r)"
| "instr_text (Call_R r) = text1 ''call'' (reg_text r)"
| "instr_text (Call_Rel imm) = text1 ''call'' (int_text (sint imm))"
| "instr_text (Inc r) = text1 ''inc'' (reg_text r)"
| "instr_text (Dec r) = text1 ''dec'' (reg_text r)"
| "instr_text (Neg r) = text1 ''neg'' (reg_text r)"
| "instr_text (Not r) = text1 ''not'' (reg_text r)"
| "instr_text (Shl r imm) = text2 ''shl'' (reg_text r) (int_text (uint imm))"
| "instr_text (Shr r imm) = text2 ''shr'' (reg_text r) (int_text (uint imm))"
| "instr_text Syscall = of_string ''syscall''"
| "instr_text Ret = of_string ''ret''"
| "instr_text Nop = of_string ''nop''"

lemma decimal_length: "n < 10 ^ k \<Longrightarrow> 0 < k \<Longrightarrow> length (decimal n) \<le> k"
proof (induction n arbitrary: k rule: decimal.induct)
  case (1 n)
  show ?case
  proof (cases "n < 10")
    case True
    then show ?thesis using 1 by (subst decimal.simps) simp
  next
    case False
    then have "k \<noteq> 1" using "1.prems"(1) by (intro notI) simp
    then obtain j where j: "k = Suc j" "0 < j" using "1.prems"(2) by (cases k) auto
    then have "n div 10 < 10 ^ j" using "1.prems"(1) by (simp add: less_mult_imp_div_less mult.commute)
    then show ?thesis using "1.IH" [OF False _ j(2)] False j(1) by (subst decimal.simps) simp
  qed
qed

lemma decimal_ne [simp]: "decimal n \<noteq> []"
  by (subst decimal.simps) simp

lemma digit_set: "c \<in> set (decimal n) \<Longrightarrow> 48 \<le> c \<and> c \<le> 57"
  using decimal_digits by blast

lemma int_text_chars: "c \<in> set (int_text n) \<Longrightarrow> c = 45 \<or> 48 \<le> c \<and> c \<le> 57"
  by (auto simp: int_text_def dest: digit_set split: if_splits)

lemma byte_range: "48 \<le> c \<and> c \<le> 57 \<Longrightarrow> c \<notin> {44, 32, 9, 59, 35, 10, 13, 114, 101, 45, 120, 88 :: u8}"
  by (auto simp: word_le_nat_alt)

lemma int_text_arg: "c \<in> set (int_text n) \<Longrightarrow> arg_char c"
  using int_text_chars [of c n] byte_range [of c] by (auto simp: arg_char_def)

lemma int_text_length: "\<bar>n\<bar> < 10 ^ 20 \<Longrightarrow> length (int_text n) \<le> 21"
proof -
  assume "\<bar>n\<bar> < 10 ^ 20"
  then have "length (decimal (nat \<bar>n\<bar>)) \<le> 20" by (intro decimal_length) (simp_all add: nat_less_iff)
  then show ?thesis by (cases "n < 0") (simp_all add: int_text_def)
qed

lemma int_text_ne [simp]: "int_text n \<noteq> []"
  by (simp add: int_text_def)

lemma not_blank_text: "dropWhile blank (int_text n) = int_text n"
proof -
  have "\<not> blank (hd (int_text n))" using int_text_chars [of "hd (int_text n)" n] byte_range [of "hd (int_text n)"] by (auto simp: blank_def)
  then show ?thesis by (cases "int_text n") simp_all
qed

lemma int_text_no_reg: "parse_register (int_text n) = -1"
proof -
  obtain c r where cr: "int_text n = c # r" by (cases "int_text n") simp_all
  then have "c = 45 \<or> 48 \<le> c \<and> c \<le> 57" using int_text_chars [of c n] by simp
  then have "c \<noteq> 114" "c \<noteq> 101" using byte_range [of c] by auto
  moreover have dw: "dropWhile blank (c # r) = c # r" unfolding cr [symmetric] by (rule not_blank_text)
  ultimately show ?thesis unfolding parse_register_def Let_def cr dw by (simp add: is_reg_def of_string_def)
qed

lemma dec_digits_fold: "\<forall>c \<in> set ds. 48 \<le> c \<and> c \<le> 57 \<Longrightarrow> dec_digits ds v = fold (\<lambda>c v. v * 10 + (ucast c - 48)) ds v"
  by (induction ds arbitrary: v) simp_all

lemma digit_u64: "n < 10 \<Longrightarrow> (ucast (48 + of_nat n :: u8) :: u64) - 48 = of_nat n"
proof -
  assume "n < 10"
  then have "n \<in> {0, 1, 2, 3, 4, 5, 6, 7, 8, 9}" by auto
  then show ?thesis by auto
qed

lemma dec_digits_decimal: "dec_digits (decimal n) 0 = of_nat n"
  unfolding dec_digits_fold [OF decimal_digits]
proof (induction n rule: decimal.induct)
  case (1 n)
  show ?case
  proof (cases "n < 10")
    case True
    then show ?thesis using digit_u64 [of n] by (subst decimal.simps) simp
  next
    case False
    have "fold (\<lambda>c v. v * 10 + (ucast c - 48)) (decimal n) 0 = of_nat (n div 10) * 10 + (of_nat (n mod 10) :: u64)"
      using False 1 digit_u64 [of "n mod 10"] by (subst decimal.simps) simp
    also have "\<dots> = of_nat (n div 10 * 10 + n mod 10)" unfolding of_nat_add of_nat_mult of_nat_numeral ..
    finally show ?thesis by (simp only: div_mult_mod_eq)
  qed
qed

lemma decimal_not_hex: "take 2 (decimal n) \<noteq> of_string ''0x'' \<and> take 2 (decimal n) \<noteq> of_string ''0X''"
proof -
  have "120 \<notin> set (take 2 (decimal n))" "88 \<notin> set (take 2 (decimal n))"
    using digit_set [of 120 n] digit_set [of 88 n] in_set_takeD [of 120 2 "decimal n"] in_set_takeD [of 88 2 "decimal n"] by auto
  moreover have "120 \<in> set (of_string ''0x'')" "88 \<in> set (of_string ''0X'')" by (simp_all add: of_string_def)
  ultimately show ?thesis by metis
qed

lemma parse_int_text: "parse_immediate (int_text n) = of_int n"
proof -
  have h: "hd (decimal k) \<noteq> 45" for k using digit_set [of "hd (decimal k)" k] byte_range [of "hd (decimal k)"] by auto
  show ?thesis unfolding parse_immediate_def Let_def not_blank_text
    using h [of "nat n"] decimal_not_hex [of "nat n"] decimal_not_hex [of "nat (- n)"]
    by (simp add: int_text_def dec_digits_decimal)
qed

lemma parse_reg_text: "r < 16 \<Longrightarrow> parse_register (reg_text r) = int r"
proof -
  have "\<forall>r \<in> set [0..<16]. parse_register (reg_text r) = int r" by code_simp
  then show "r < 16 \<Longrightarrow> parse_register (reg_text r) = int r" by simp
qed

lemma reg_text_ne: "r < 16 \<Longrightarrow> reg_text r \<noteq> []"
proof -
  have "\<forall>r \<in> set [0..<16]. reg_text r \<noteq> []" by code_simp
  then show "r < 16 \<Longrightarrow> reg_text r \<noteq> []" by simp
qed

lemma reg_text_arg: "r < 16 \<Longrightarrow> (\<forall>c \<in> set (reg_text r). arg_char c) \<and> length (reg_text r) \<le> 3"
proof -
  have "\<forall>r \<in> set [0..<16]. list_all arg_char (reg_text r) \<and> length (reg_text r) \<le> 3" by code_simp
  then show "r < 16 \<Longrightarrow> (\<forall>c \<in> set (reg_text r). arg_char c) \<and> length (reg_text r) \<le> 3" by (simp add: list_all_iff)
qed

section \<open>Lines\<close>

lemma strncmp_zero: "0 \<notin> set a \<Longrightarrow> 0 \<notin> set b \<Longrightarrow> strncmp a b n = 0 \<longleftrightarrow> take n a = take n b"
proof (induction a b n rule: strncmp.induct)
  case (5 a s1 b s2 n)
  have "sint a - sint b = 0 \<longleftrightarrow> a = b" using word_eq_iff_signed [of a b] by auto
  then show ?case using 5 by auto
qed (auto simp: signed_eq_0_iff)

definition word_ok :: "string \<Rightarrow> bool" where
  "word_ok name \<longleftrightarrow> name \<noteq> [] \<and> length name \<le> 31 \<and> list_all (\<lambda>c. 97 \<le> c \<and> c \<le> 122) (of_string name)"

lemma word_ok_chars:
  assumes "word_ok name"
  shows "\<forall>c \<in> set (of_string name). \<not> blank c \<and> c \<noteq> 59 \<and> c \<noteq> 35 \<and> c \<noteq> 0 \<and> lower c = c" "of_string name \<noteq> []"
proof -
  have r: "97 \<le> c \<Longrightarrow> c \<le> 122 \<Longrightarrow> \<not> blank c \<and> c \<noteq> 59 \<and> c \<noteq> 35 \<and> c \<noteq> 0 \<and> lower c = c" for c :: u8
    by (auto simp: blank_def lower_def word_le_nat_alt)
  show "\<forall>c \<in> set (of_string name). \<not> blank c \<and> c \<noteq> 59 \<and> c \<noteq> 35 \<and> c \<noteq> 0 \<and> lower c = c"
    using assms r unfolding word_ok_def list_all_iff by blast
  show "of_string name \<noteq> []" using assms by (simp add: word_ok_def of_string_def)
qed

lemma arg_not_blank: "\<forall>c \<in> set a. arg_char c \<Longrightarrow> dropWhile blank (a @ r) = (if a = [] then dropWhile blank r else a @ r)"
  by (cases a) (auto simp: arg_char_def blank_def)

lemma arg_not_sep: "\<forall>c \<in> set a. arg_char c \<Longrightarrow> dropWhile (\<lambda>c. blank c \<or> c = 44) (a @ r) = (if a = [] then dropWhile (\<lambda>c. blank c \<or> c = 44) r else a @ r)"
  by (cases a) (auto simp: arg_char_def blank_def)

lemma takeWhile_arg: "\<forall>c \<in> set a. arg_char c \<Longrightarrow> r = [] \<or> \<not> arg_char (hd r) \<Longrightarrow> takeWhile arg_char (a @ r) = a"
  by (cases r) (auto simp: takeWhile_append)

lemma takeWhile_arg_all:
  assumes "\<forall>c \<in> set a. arg_char c" "length a \<le> 63"
  shows "take 63 (takeWhile arg_char a) = a"
proof -
  have "takeWhile arg_char a = a" using assms(1) by (intro takeWhile_eq_all_conv [THEN iffD2])
  then have "take 63 (takeWhile arg_char a) = take 63 a" by (rule arg_cong)
  also have "\<dots> = a" using assms(2) by (rule take_all)
  finally show ?thesis .
qed

lemma split_text2:
  assumes "word_ok name" "a \<noteq> []" "\<forall>c \<in> set a. arg_char c" "length a \<le> 63" "\<forall>c \<in> set b. arg_char c" "length b \<le> 63"
  shows "split_line (text2 name a b) = (of_string name, a, b)"
proof -
  note w = word_ok_chars [OF assms(1)]
  let ?w = "of_string name"
  have tw: "take 31 (takeWhile (\<lambda>c. \<not> blank c) (?w @ 32 # a @ 44 # 32 # b)) = ?w"
    using w(1) assms(1) by (subst takeWhile_append2) (auto simp: blank_def word_ok_def)
  have low: "map lower ?w = ?w" using w(1) by (intro map_idI) blast
  have dr: "drop (length ?w) (?w @ 32 # a @ 44 # 32 # b) = 32 # a @ 44 # 32 # b" "drop (length a) (a @ 44 # 32 # b) = 44 # 32 # b" by simp_all
  have "takeWhile arg_char (a @ 44 # 32 # b) = a" using assms(3) by (intro takeWhile_arg) (simp_all add: arg_char_def)
  then have a1: "take 63 (takeWhile arg_char (a @ 44 # 32 # b)) = a" using assms(4) by simp
  have d1: "dropWhile blank (32 # a @ 44 # 32 # b) = a @ 44 # 32 # b" using arg_not_blank [OF assms(3), of "44 # 32 # b"] assms(2) by (simp add: blank_def)
  have d2: "dropWhile (\<lambda>c. blank c \<or> c = 44) (44 # 32 # b) = b" using arg_not_sep [OF assms(5), of "[]"] by (auto simp: blank_def)
  have b1: "take 63 (takeWhile arg_char b) = b" using assms(5,6) by (rule takeWhile_arg_all)
  show ?thesis unfolding split_line_def Let_def text2_def by (simp only: tw low dr d1 a1 d2 b1)
qed

lemma split_text1:
  assumes "word_ok name" "a \<noteq> []" "\<forall>c \<in> set a. arg_char c" "length a \<le> 63"
  shows "split_line (text1 name a) = (of_string name, a, [])"
proof -
  note w = word_ok_chars [OF assms(1)]
  let ?w = "of_string name"
  have tw: "take 31 (takeWhile (\<lambda>c. \<not> blank c) (?w @ 32 # a)) = ?w"
    using w(1) assms(1) by (subst takeWhile_append2) (auto simp: blank_def word_ok_def)
  have low: "map lower ?w = ?w" using w(1) by (intro map_idI) blast
  have dr: "drop (length ?w) (?w @ 32 # a) = 32 # a" "drop (length a) a = []" by simp_all
  have a1: "take 63 (takeWhile arg_char a) = a" using assms(3,4) by (rule takeWhile_arg_all)
  have d1: "dropWhile blank (32 # a) = a" using arg_not_blank [OF assms(3), of "[]"] assms(2) by (simp add: blank_def)
  show ?thesis unfolding split_line_def Let_def text1_def by (simp only: tw low dr d1 a1) simp
qed

lemma split_text0:
  assumes "word_ok name"
  shows "split_line (of_string name) = (of_string name, [], [])"
proof -
  note w = word_ok_chars [OF assms(1)]
  have tw: "takeWhile (\<lambda>c. \<not> blank c) (of_string name) = of_string name" using w(1) by (intro takeWhile_eq_all_conv [THEN iffD2]) blast
  have low: "map lower (of_string name) = of_string name" using w(1) by (intro map_idI) blast
  show ?thesis unfolding split_line_def Let_def tw using assms low by (simp add: word_ok_def)
qed

text \<open>The dispatch on the mnemonic, after the blanks and comments are gone.\<close>

definition dispatch_line :: "bytes \<Rightarrow> bytes \<Rightarrow> bytes \<Rightarrow> asm_context \<Rightarrow> int \<times> asm_context" where
  "dispatch_line m arg1 arg2 ctx =
     (if mnem m ''mov'' then mov_line arg1 arg2 ctx
      else if mnem m ''add'' then reg_or_imm8 ''Invalid destination register'' asm_add_reg_reg asm_add_reg_imm8 arg1 arg2 ctx
      else if mnem m ''sub'' then reg_or_imm8 ''Invalid destination register'' asm_sub_reg_reg asm_sub_reg_imm8 arg1 arg2 ctx
      else if mnem m ''xor'' then two_regs asm_xor_reg_reg arg1 arg2 ctx
      else if mnem m ''or'' then two_regs asm_or_reg_reg arg1 arg2 ctx
      else if mnem m ''and'' then two_regs asm_and_reg_reg arg1 arg2 ctx
      else if mnem m ''cmp'' then reg_or_imm8 ''Invalid register'' asm_cmp_reg_reg asm_cmp_reg_imm8 arg1 arg2 ctx
      else if mnem m ''call'' then call_line arg1 ctx
      else if mnem m ''push'' then one_reg asm_push_reg arg1 ctx
      else if mnem m ''pop'' then one_reg asm_pop_reg arg1 ctx
      else if mnem m ''inc'' then one_reg asm_inc_reg arg1 ctx
      else if mnem m ''dec'' then one_reg asm_dec_reg arg1 ctx
      else if mnem m ''neg'' then one_reg asm_neg_reg arg1 ctx
      else if mnem m ''not'' then one_reg asm_not_reg arg1 ctx
      else if mnem m ''shl'' then shift_reg asm_shl_reg_imm8 arg1 arg2 ctx
      else if mnem m ''shr'' then shift_reg asm_shr_reg_imm8 arg1 arg2 ctx
      else if mnem m ''syscall'' then (0, asm_syscall ctx)
      else if mnem m ''ret'' then (0, asm_ret ctx)
      else if mnem m ''nop'' then (0, asm_nop ctx)
      else asm_fail ''Unknown instruction'' ctx)"

lemma asm_line_dispatch:
  assumes "\<not> a_error ctx" "word_ok name" "split_line (of_string name @ r) = (m, a, b)"
  shows "asm_line (of_string name @ r) ctx = dispatch_line m a b ctx"
proof -
  obtain c cs where c: "of_string name = c # cs" using word_ok_chars(2) [OF assms(2)] by (cases "of_string name") simp_all
  have "\<not> blank c \<and> c \<noteq> 59 \<and> c \<noteq> 35" using word_ok_chars(1) [OF assms(2)] unfolding c by simp
  then have "dropWhile blank (of_string name @ r) = of_string name @ r" "hd (of_string name @ r) \<noteq> 59" "hd (of_string name @ r) \<noteq> 35" "of_string name @ r \<noteq> []"
    by (simp_all add: c)
  then show ?thesis unfolding asm_line_def dispatch_line_def Let_def using assms(1,3) by (simp only: if_False simp_thms prod.case)
qed

lemma mnem_iff: "word_ok name \<Longrightarrow> mnem (of_string name) k \<longleftrightarrow> take (length k) (of_string name) = of_string k" if "0 \<notin> set (of_string k)" for k
  unfolding mnem_def using strncmp_zero [OF _ that] word_ok_chars(1) by fastforce

lemma of_char_byte_inj: "(of_char c :: u8) = of_char d \<Longrightarrow> c = d"
proof -
  have u: "unat (of_char e :: u8) = of_char e" for e
  proof -
    have "(of_char e :: u8) = of_nat (of_char e)" by (rule of_nat_of_char [symmetric])
    moreover have "(of_char e :: nat) < 256" by (rule nat_of_char_less_256)
    ultimately show ?thesis by (metis unat_u8)
  qed
  assume "(of_char c :: u8) = of_char d"
  then have "(of_char c :: nat) = of_char d" using u by metis
  then show "c = d" by simp
qed

lemma of_string_inj: "of_string a = of_string b \<longleftrightarrow> a = b"
  unfolding of_string_def by (rule inj_eq [OF inj_mapI]) (rule injI, erule of_char_byte_inj)

lemma mnem_word: "word_ok name \<Longrightarrow> word_ok k \<Longrightarrow> mnem (of_string name) k \<longleftrightarrow> take (length k) name = k"
proof -
  assume w: "word_ok name" "word_ok k"
  have "0 \<notin> set (of_string k)" using word_ok_chars(1) [OF w(2)] by blast
  moreover have "take (length k) (of_string name) = of_string (take (length k) name)" by (simp add: of_string_def take_map)
  ultimately show ?thesis using mnem_iff [OF _ w(1)] by (simp add: of_string_inj)
qed

lemma words_ok: "list_all word_ok [''mov'', ''add'', ''sub'', ''xor'', ''or'', ''and'', ''cmp'', ''call'', ''push'', ''pop'', ''inc'', ''dec'', ''neg'', ''not'', ''shl'', ''shr'', ''syscall'', ''ret'', ''nop'']"
  by code_simp

lemma word_oks:
  "word_ok ''mov''" "word_ok ''add''" "word_ok ''sub''" "word_ok ''xor''" "word_ok ''or''" "word_ok ''and''" "word_ok ''cmp''" "word_ok ''call''" "word_ok ''push''"
  "word_ok ''pop''" "word_ok ''inc''" "word_ok ''dec''" "word_ok ''neg''" "word_ok ''not''" "word_ok ''shl''" "word_ok ''shr''" "word_ok ''syscall''" "word_ok ''ret''" "word_ok ''nop''"
  using words_ok by simp_all

lemma word_ok_alu: "word_ok (alu_name f)"
  by (cases f) (simp_all add: word_oks)

lemma dispatch_cases:
  "dispatch_line (of_string ''mov'') a b ctx = mov_line a b ctx"
  "dispatch_line (of_string ''add'') a b ctx = reg_or_imm8 ''Invalid destination register'' asm_add_reg_reg asm_add_reg_imm8 a b ctx"
  "dispatch_line (of_string ''sub'') a b ctx = reg_or_imm8 ''Invalid destination register'' asm_sub_reg_reg asm_sub_reg_imm8 a b ctx"
  "dispatch_line (of_string ''xor'') a b ctx = two_regs asm_xor_reg_reg a b ctx"
  "dispatch_line (of_string ''or'') a b ctx = two_regs asm_or_reg_reg a b ctx"
  "dispatch_line (of_string ''and'') a b ctx = two_regs asm_and_reg_reg a b ctx"
  "dispatch_line (of_string ''cmp'') a b ctx = reg_or_imm8 ''Invalid register'' asm_cmp_reg_reg asm_cmp_reg_imm8 a b ctx"
  "dispatch_line (of_string ''call'') a b ctx = call_line a ctx"
  "dispatch_line (of_string ''push'') a b ctx = one_reg asm_push_reg a ctx"
  "dispatch_line (of_string ''pop'') a b ctx = one_reg asm_pop_reg a ctx"
  "dispatch_line (of_string ''inc'') a b ctx = one_reg asm_inc_reg a ctx"
  "dispatch_line (of_string ''dec'') a b ctx = one_reg asm_dec_reg a ctx"
  "dispatch_line (of_string ''neg'') a b ctx = one_reg asm_neg_reg a ctx"
  "dispatch_line (of_string ''not'') a b ctx = one_reg asm_not_reg a ctx"
  "dispatch_line (of_string ''shl'') a b ctx = shift_reg asm_shl_reg_imm8 a b ctx"
  "dispatch_line (of_string ''shr'') a b ctx = shift_reg asm_shr_reg_imm8 a b ctx"
  "dispatch_line (of_string ''syscall'') a b ctx = (0, asm_syscall ctx)"
  "dispatch_line (of_string ''ret'') a b ctx = (0, asm_ret ctx)"
  "dispatch_line (of_string ''nop'') a b ctx = (0, asm_nop ctx)"
  by (simp_all add: dispatch_line_def mnem_word word_oks)

lemma line_text2:
  assumes "\<not> a_error ctx" "word_ok name" "r < 16" "\<forall>c \<in> set b. arg_char c" "length b \<le> 63"
  shows "asm_line (text2 name (reg_text r) b) ctx = dispatch_line (of_string name) (reg_text r) b ctx"
proof -
  have a: "\<forall>c \<in> set (reg_text r). arg_char c" using reg_text_arg [OF assms(3)] by (rule conjunct1)
  have l: "length (reg_text r) \<le> 63" using reg_text_arg [OF assms(3), THEN conjunct2] by (rule le_trans) simp
  have ne: "reg_text r \<noteq> []" using assms(3) by (rule reg_text_ne)
  have "split_line (of_string name @ 32 # reg_text r @ 44 # 32 # b) = (of_string name, reg_text r, b)"
    using split_text2 [OF assms(2) ne a l assms(4,5)] by (simp add: text2_def)
  then show ?thesis unfolding text2_def using asm_line_dispatch [OF assms(1,2)] by blast
qed

lemma line_text1:
  assumes "\<not> a_error ctx" "word_ok name" "a \<noteq> []" "\<forall>c \<in> set a. arg_char c" "length a \<le> 63"
  shows "asm_line (text1 name a) ctx = dispatch_line (of_string name) a [] ctx"
  using split_text1 [OF assms(2-5)] asm_line_dispatch [OF assms(1,2)] unfolding text1_def by blast

lemma line_text0: "\<not> a_error ctx \<Longrightarrow> word_ok name \<Longrightarrow> asm_line (of_string name) ctx = dispatch_line (of_string name) [] [] ctx"
  using asm_line_dispatch [of ctx name "[]"] split_text0 by simp

lemma small_int_text:
  fixes w :: "'a :: len word"
  assumes "LENGTH('a) \<le> 64"
  shows "length (int_text (sint w)) \<le> 63" "length (int_text (uint w)) \<le> 63"
proof -
  have p: "(2 :: int) ^ LENGTH('a) \<le> 2 ^ 64" "(2 :: int) ^ (LENGTH('a) - 1) \<le> 2 ^ 64" using assms by (intro power_increasing; simp)+
  have "uint w < 2 ^ 64" using p(1) unsigned_less [of w] by (rule less_le_trans [rotated])
  then have "\<bar>uint w\<bar> < 10 ^ 20" by simp
  moreover have "\<bar>sint w\<bar> < 10 ^ 20" using p(2) sint_lt [of w] sint_ge [of w] by (simp add: abs_less_iff)
  ultimately have "\<bar>sint w\<bar> < 10 ^ 20" "\<bar>uint w\<bar> < 10 ^ 20" by simp_all
  then show "length (int_text (sint w)) \<le> 63" "length (int_text (uint w)) \<le> 63" using int_text_length by fastforce+
qed

lemma ucast_of_int: "LENGTH('b) \<le> 64 \<Longrightarrow> (ucast (of_int k :: u64) :: 'b :: len word) = of_int k"
  by (rule bit_word_eqI) (simp add: bit_ucast_iff bit_of_int_iff)

lemma sint_of_int_small: "- (2 ^ 63) \<le> k \<Longrightarrow> k < 2 ^ 63 \<Longrightarrow> sint (of_int k :: u64) = k"
  by (simp add: signed_of_int signed_take_bit_int_eq_self)

lemma reg_int: "r < 16 \<Longrightarrow> parse_register (reg_text r) = int r \<and> \<not> int r < 0"
  using parse_reg_text by simp

lemma reg_text_length: "r < 16 \<Longrightarrow> length (reg_text r) \<le> 63"
  using reg_text_arg [THEN conjunct2, of r] by simp

lemma reg_reg_line:
  assumes "\<not> a_error ctx" "word_ok name" "d < 16" "q < 16"
  shows "asm_line (text2 name (reg_text d) (reg_text q)) ctx = dispatch_line (of_string name) (reg_text d) (reg_text q) ctx"
  using line_text2 [OF assms(1-3) reg_text_arg [OF assms(4), THEN conjunct1] reg_text_length [OF assms(4)]] .

lemma reg_imm_line:
  assumes "\<not> a_error ctx" "word_ok name" "d < 16" "length (int_text k) \<le> 63"
  shows "asm_line (text2 name (reg_text d) (int_text k)) ctx = dispatch_line (of_string name) (reg_text d) (int_text k) ctx"
  using line_text2 [OF assms(1-3) _ assms(4)] int_text_arg by blast

lemma reg_line:
  assumes "\<not> a_error ctx" "word_ok name" "d < 16"
  shows "asm_line (text1 name (reg_text d)) ctx = dispatch_line (of_string name) (reg_text d) [] ctx"
  using line_text1 [OF assms(1,2) reg_text_ne [OF assms(3)] reg_text_arg [OF assms(3), THEN conjunct1] reg_text_length [OF assms(3)]] .

lemma imm8_range: "- 128 \<le> sint (imm :: u8) \<and> sint imm \<le> 127"
  using sint_lt [of imm] sint_ge [of imm] by simp

lemma imm32_range: "- 0x80000000 \<le> sint (imm :: u32) \<and> sint imm \<le> 0x7FFFFFFF"
  using sint_lt [of imm] sint_ge [of imm] by simp

lemma of_int_parts: "(of_int (sint w) :: 'a :: len word) = w" "(of_int (uint w) :: 'a :: len word) = w"
  by simp_all

lemma wide8: "sint (scast (w :: u8) :: u64) = sint w" "ucast (scast w :: u64) = w"
proof -
  have e: "(scast w :: u64) = of_int (sint w)" by simp
  show "sint (scast w :: u64) = sint w" unfolding e using imm8_range [of w] by (intro sint_of_int_small) simp_all
  show "ucast (scast w :: u64) = w" unfolding e by (subst ucast_of_int) simp_all
qed

lemma wide32: "sint (scast (w :: u32) :: u64) = sint w" "ucast (scast w :: u64) = w"
proof -
  have e: "(scast w :: u64) = of_int (sint w)" by simp
  show "sint (scast w :: u64) = sint w" unfolding e using imm32_range [of w] by (intro sint_of_int_small) simp_all
  show "ucast (scast w :: u64) = w" unfolding e by (subst ucast_of_int) simp_all
qed

lemma wide_unsigned: "w \<le> 63 \<Longrightarrow> sint (ucast (w :: u8) :: u64) = uint w" "ucast (ucast w :: u64) = w"
proof -
  have e: "(ucast w :: u64) = of_int (uint w)" by simp
  have b: "uint w < 256" "0 \<le> uint w" using unsigned_less [of w] by simp_all
  show "sint (ucast w :: u64) = uint w" unfolding e by (rule sint_of_int_small) (rule order.trans [OF _ b(2)], simp, rule less_trans [OF b(1)], simp)
  show "ucast (ucast w :: u64) = w" unfolding e by (subst ucast_of_int) simp_all
qed

text \<open>What the lines do with operands that are registers and numbers.\<close>

lemma operand_lines:
  "d < 16 \<Longrightarrow> q < 16 \<Longrightarrow> mov_line (reg_text d) (reg_text q) ctx = (0, asm_mov_reg_reg (int d) (int q) ctx)"
  "d < 16 \<Longrightarrow> q < 16 \<Longrightarrow> reg_or_imm8 msg rr ri (reg_text d) (reg_text q) ctx = (0, rr (int d) (int q) ctx)"
  "d < 16 \<Longrightarrow> reg_or_imm8 msg rr ri (reg_text d) (int_text (sint imm8)) ctx = (0, ri (int d) (imm8 :: u8) ctx)"
  "d < 16 \<Longrightarrow> q < 16 \<Longrightarrow> two_regs rr (reg_text d) (reg_text q) ctx = (0, rr (int d) (int q) ctx)"
  "d < 16 \<Longrightarrow> one_reg f (reg_text d) ctx = (0, f (int d) ctx)"
  "d < 16 \<Longrightarrow> call_line (reg_text d) ctx = (0, asm_call_reg (int d) ctx)"
  "call_line (int_text (sint imm32)) ctx = (0, asm_call_rel32 (imm32 :: u32) ctx)"
  "d < 16 \<Longrightarrow> mov_line (reg_text d) (int_text (sint imm32)) ctx = (0, asm_mov_reg_imm32 (int d) imm32 ctx)"
  using imm8_range [of imm8] imm32_range [of imm32]
  by (simp_all add: mov_line_def reg_or_imm8_def two_regs_def one_reg_def call_line_def parse_reg_text int_text_no_reg parse_int_text Let_def wide8 wide32)

lemma mov64_line:
  fixes imm :: u64
  assumes "sint imm > 0x7FFFFFFF \<or> sint imm < -0x80000000"
  shows "mov_line (reg_text 0) (int_text (sint imm)) ctx = (0, asm_mov_rax_imm64 imm ctx)"
  using assms by (simp add: mov_line_def parse_reg_text int_text_no_reg parse_int_text Let_def of_int_parts)

lemma shift_line:
  assumes "d < 16" "(imm :: u8) \<le> 63"
  shows "shift_reg f (reg_text d) (int_text (uint imm)) ctx = (0, f (int d) imm ctx)"
proof -
  have "uint imm \<le> 63" "0 \<le> uint imm" using assms(2) by (simp_all add: word_le_def)
  then show ?thesis using assms by (simp add: shift_reg_def parse_reg_text parse_int_text Let_def wide_unsigned not_less)
qed

text \<open>Assembling the text of an instruction appends its encoding.\<close>

lemma asm_line_text:
  assumes "\<not> a_error ctx" "valid_instr i"
  shows "asm_line (instr_text i) ctx = (0, asm_emit_bytes (encode i) ctx)"
proof (cases i)
  case (Alu_RR f d q)
  then show ?thesis using assms by (cases f) (simp_all add: reg_reg_line word_oks dispatch_cases operand_lines emitters del: encode.simps)
next
  case (Alu_RI f d imm)
  then show ?thesis using assms
    by (cases f) (simp_all add: reg_imm_line small_int_text word_oks dispatch_cases operand_lines emitters del: encode.simps)
next
  case (Call_Rel imm)
  have "asm_line (text1 ''call'' (int_text (sint imm))) ctx = dispatch_line (of_string ''call'') (int_text (sint imm)) [] ctx"
    using assms(1) int_text_arg by (intro line_text1) (simp_all add: word_oks small_int_text)
  then show ?thesis unfolding Call_Rel by (simp add: dispatch_cases operand_lines emitters del: encode.simps)
next
  case (Mov_RAX imm)
  then show ?thesis using assms by (simp add: reg_imm_line small_int_text word_oks dispatch_cases mov64_line emitters del: encode.simps)
qed (use assms in \<open>simp_all add: reg_reg_line reg_imm_line reg_line line_text0 small_int_text word_oks dispatch_cases operand_lines shift_line stack_bytes emitters del: encode.simps\<close>)

section \<open>Programs\<close>

definition program_text :: "instr list \<Rightarrow> bytes" where
  "program_text ins = concat (map (\<lambda>i. instr_text i @ [10]) ins)"

lemma text_parts:
  "word_ok name \<Longrightarrow> d < 16 \<Longrightarrow> \<forall>c \<in> set b. arg_char c \<Longrightarrow> length b \<le> 63 \<Longrightarrow> 10 \<notin> set (text2 name (reg_text d) b) \<and> length (text2 name (reg_text d) b) \<le> 255"
  "word_ok name \<Longrightarrow> \<forall>c \<in> set b. arg_char c \<Longrightarrow> length b \<le> 63 \<Longrightarrow> 10 \<notin> set (text1 name b) \<and> length (text1 name b) \<le> 255"
  "word_ok name \<Longrightarrow> 10 \<notin> set (of_string name) \<and> length (of_string name) \<le> 255"
proof -
  have w: "10 \<notin> set (of_string name)" "length (of_string name) \<le> 31" if "word_ok name" for name
  proof -
    have "\<not> 97 \<le> (10 :: u8)" by simp
    then show "10 \<notin> set (of_string name)" using that unfolding word_ok_def list_all_iff by blast
  qed (use that in \<open>simp add: word_ok_def\<close>)
  have a: "10 \<notin> set b" if "\<forall>c \<in> set b. arg_char c" for b using that by (auto simp: arg_char_def)
  show "10 \<notin> set (text2 name (reg_text d) b) \<and> length (text2 name (reg_text d) b) \<le> 255"
    if "word_ok name" "d < 16" "\<forall>c \<in> set b. arg_char c" "length b \<le> 63"
    using w [OF that(1)] a [OF that(3)] a [OF reg_text_arg [OF that(2), THEN conjunct1]] reg_text_length [OF that(2)] that(4) by (simp add: text2_def)
  show "10 \<notin> set (text1 name b) \<and> length (text1 name b) \<le> 255" if "word_ok name" "\<forall>c \<in> set b. arg_char c" "length b \<le> 63"
    using w [OF that(1)] a [OF that(2)] that(3) by (simp add: text1_def)
  show "10 \<notin> set (of_string name) \<and> length (of_string name) \<le> 255" if "word_ok name" using w [OF that] by simp
qed

lemma instr_text_line: "valid_instr i \<Longrightarrow> 10 \<notin> set (instr_text i) \<and> length (instr_text i) \<le> 255"
proof -
  assume v: "valid_instr i"
  have t: "\<forall>c \<in> set (int_text k). arg_char c" for k using int_text_arg by blast
  have r: "\<forall>c \<in> set (reg_text d). arg_char c" if "d < 16" for d using reg_text_arg [OF that] by blast
  have rr: "10 \<notin> set (text2 name (reg_text d) (reg_text e)) \<and> length (text2 name (reg_text d) (reg_text e)) \<le> 255"
    if "word_ok name" "d < 16" "e < 16" for name d e using text_parts(1) [OF that(1,2) r [OF that(3)] reg_text_length [OF that(3)]] .
  have r1: "10 \<notin> set (text1 name (reg_text d)) \<and> length (text1 name (reg_text d)) \<le> 255" if "word_ok name" "d < 16" for name d
    using text_parts(2) [OF that(1) r [OF that(2)] reg_text_length [OF that(2)]] .
  show ?thesis using v by (cases i) (simp_all add: rr r1 text_parts t small_int_text word_oks word_ok_alu)
qed

lemma next_line_text: "valid_instr i \<Longrightarrow> next_line (instr_text i @ 10 # r) = (instr_text i, r)"
proof -
  assume v: "valid_instr i"
  have t: "takeWhile (\<lambda>c. c \<noteq> 10) (instr_text i @ 10 # r) = instr_text i" using instr_text_line [OF v] by (subst takeWhile_append2) auto
  have l: "take 255 (instr_text i) = instr_text i" using instr_text_line [OF v] by (intro take_all) (rule conjunct2)
  show ?thesis unfolding next_line_def Let_def t l by simp
qed

lemma asm_lines_text:
  assumes "\<forall>i \<in> set ins. valid_instr i" "asm_ok ctx" "\<not> a_error ctx" "a_size ctx + length (concat (map encode ins)) \<le> MAX_ASM_SIZE"
  shows "asm_lines n (program_text ins) ctx = (0, asm_emit_bytes (concat (map encode ins)) ctx)"
  using assms
proof (induction ins arbitrary: n ctx)
  case Nil
  then show ?case by (subst asm_lines.simps) (simp add: program_text_def)
next
  case (Cons i ins)
  let ?c = "asm_emit_bytes (encode i) ctx"
  have v: "valid_instr i" using Cons.prems(1) by simp
  have f: "asm_ok ?c" "\<not> a_error ?c" "a_size ?c + length (concat (map encode ins)) \<le> MAX_ASM_SIZE"
    using emit_bytes_fits [OF Cons.prems(2), of "encode i"] Cons.prems(3,4) by simp_all
  have t: "program_text (i # ins) = instr_text i @ 10 # program_text ins" by (simp add: program_text_def)
  show ?case unfolding t
    by (subst asm_lines.simps) (use Cons.IH [OF _ f] Cons.prems(1) in \<open>simp add: next_line_text [OF v] asm_line_text [OF Cons.prems(3) v] emit_bytes_append\<close>)
qed

text \<open>Decoding instruction after instruction.\<close>

inductive disassembles :: "bytes \<Rightarrow> instr list \<Rightarrow> bool" where
  finished: "disassembles [] []"
| more: "decode bs = Some (i, r) \<Longrightarrow> disassembles r ins \<Longrightarrow> disassembles bs (i # ins)"

inductive_cases disassembles_NilE: "disassembles [] ins"
inductive_cases disassembles_ConsE: "disassembles bs (i # ins)"

lemma disassembles_encode: "\<forall>i \<in> set ins. valid_instr i \<Longrightarrow> disassembles (concat (map encode ins)) ins"
proof (induction ins)
  case (Cons i ins)
  then have "decode (encode i @ concat (map encode ins)) = Some (i, concat (map encode ins))" by (intro decode_encode) simp
  then show ?case using Cons by (auto intro: disassembles.more)
qed (simp add: disassembles.finished)

lemma disassembles_unique: "disassembles bs ins \<Longrightarrow> disassembles bs js \<Longrightarrow> ins = js"
proof (induction arbitrary: js rule: disassembles.induct)
  case finished
  then show ?case by (auto elim: disassembles.cases simp: decode_def)
next
  case (more bs i r ins)
  note IH = more.IH
  from more.prems show ?case
  proof (cases rule: disassembles.cases)
    case finished
    then show ?thesis using more.hyps by (simp add: decode_def)
  next
    case (more i' r' ins')
    then show ?thesis using \<open>decode bs = Some (i, r)\<close> IH by simp
  qed
qed

lemma asm_program_encodes:
  assumes "\<forall>i \<in> set ins. valid_instr i" and "length (concat (map encode ins)) \<le> MAX_ASM_SIZE"
  shows "\<exists>ctx'. asm_program (program_text ins) (asm_init ctx) = (0, ctx') \<and> asm_get_code ctx' = Some (concat (map encode ins))"
proof -
  let ?c = "asm_init ctx" and ?bs = "concat (map encode ins)"
  have c: "asm_ok ?c" "\<not> a_error ?c" "a_size ?c = 0" "asm_code ?c = []" by (simp_all add: asm_ok_def asm_init_def asm_code_def)
  have "asm_program (program_text ins) ?c = (0, asm_emit_bytes ?bs ?c)" unfolding asm_program_def using assms c by (intro asm_lines_text) simp_all
  moreover have "asm_code (asm_emit_bytes ?bs ?c) = ?bs" "a_error (asm_emit_bytes ?bs ?c) = False"
    using emit_bytes_fits [OF c(1), of ?bs] c assms(2) by simp_all
  then have "asm_get_code (asm_emit_bytes ?bs ?c) = Some ?bs" by (simp only: asm_get_code_def asm_code_def if_False)
  ultimately show ?thesis by blast
qed

lemma disassembles_program: "\<forall>i \<in> set ins. valid_instr i \<Longrightarrow> disassembles (concat (map encode ins)) js \<longleftrightarrow> js = ins"
  using disassembles_encode disassembles_unique by blast

text \<open>
  C18: The assembler is correct: the text of any program whose code fits into the buffer is assembled
  without error, and the code is exactly the encoding of its instructions, from which decoding
  instruction after instruction after the processor manual yields the program again, and no other.
\<close>

theorem asm_program_correct:
  assumes "\<forall>i \<in> set ins. valid_instr i" and "length (concat (map encode ins)) \<le> MAX_ASM_SIZE"
  shows "\<exists>ctx' code. asm_program (program_text ins) (asm_init ctx) = (0, ctx') \<and> asm_get_code ctx' = Some code \<and>
    (\<forall>js. disassembles code js \<longleftrightarrow> js = ins)"
  using asm_program_encodes [OF assms] disassembles_program [OF assms(1)] by blast

text \<open>The hypotheses hold for a small program.\<close>

theorem asm_program_correct_witness:
  "\<exists>ctx' code. asm_program (program_text [Mov_RI 3 7, Alu_RR Add 0 9, Push 12, Shl 1 5, Ret]) (asm_init \<lparr>a_code = [], a_size = 0, a_error = False, a_error_msg = []\<rparr>) = (0, ctx') \<and> asm_get_code ctx' = Some code \<and>
    (\<forall>js. disassembles code js \<longleftrightarrow> js = [Mov_RI 3 7, Alu_RR Add 0 9, Push 12, Shl 1 5, Ret])"
  by (rule asm_program_correct) (simp_all add: MAX_ASM_SIZE_def)

section \<open>Any text\<close>

text \<open>Every operation emits bytes or records an error, so it keeps the buffer as it was laid out.\<close>

lemma asm_emit_ok [simp]: "asm_ok (asm_emit b ctx) \<longleftrightarrow> asm_ok ctx" if "asm_ok ctx"
  using that by (auto simp: asm_emit_def asm_ok_def asm_error_def)

lemma asm_error_ok: "asm_ok (asm_error msg ctx) \<longleftrightarrow> asm_ok ctx"
  by (simp add: asm_ok_def asm_error_def)

lemma asm_emit_keeps: "asm_ok ctx \<Longrightarrow> asm_ok (asm_emit b ctx)"
  by simp

lemma asm_emit_le_keeps: "asm_ok ctx \<Longrightarrow> asm_ok (asm_emit_le n v ctx)"
  unfolding asm_emit_le_def by (induction n) (simp_all add: asm_emit_keeps)

lemmas asm_form_defs = asm_call_rel32_def asm_one_reg_def asm_two_regs_def asm_call_reg_def asm_mov_rax_imm64_def asm_mov_reg_imm32_def
  asm_mov_reg_reg_def asm_add_reg_imm8_def asm_add_reg_reg_def asm_sub_reg_imm8_def asm_sub_reg_reg_def asm_xor_reg_reg_def asm_or_reg_reg_def
  asm_and_reg_reg_def asm_cmp_reg_imm8_def asm_cmp_reg_reg_def asm_push_reg_def asm_pop_reg_def asm_syscall_def asm_ret_def asm_nop_def
  asm_inc_reg_def asm_dec_reg_def asm_neg_reg_def asm_not_reg_def asm_shl_reg_imm8_def asm_shr_reg_imm8_def

lemma asm_forms_keep:
  assumes "asm_ok ctx"
  shows "asm_ok (asm_call_rel32 off ctx)" "asm_ok (asm_one_reg op md r ctx)" "asm_ok (asm_two_regs op r q ctx)"
    "asm_ok (asm_mov_rax_imm64 imm ctx)" "asm_ok (asm_push_reg r ctx)" "asm_ok (asm_pop_reg r ctx)" "asm_ok (asm_syscall ctx)"
    "asm_ok (asm_ret ctx)" "asm_ok (asm_nop ctx)"
  using assms by (simp_all add: asm_call_rel32_def asm_one_reg_def asm_two_regs_def asm_mov_rax_imm64_def asm_push_reg_def asm_pop_reg_def
      asm_syscall_def asm_ret_def asm_nop_def Let_def asm_emit_le_keeps)

text \<open>What a line may answer: success, or -1 with the error recorded.\<close>

definition asm_answer :: "int \<times> asm_context \<Rightarrow> bool" where
  "asm_answer a \<longleftrightarrow> asm_ok (snd a) \<and> (fst a = 0 \<or> fst a = -1 \<and> a_error (snd a))"

lemma asm_answer_intros:
  "asm_ok ctx \<Longrightarrow> asm_answer (0, ctx)"
  "asm_ok ctx \<Longrightarrow> asm_answer (asm_fail msg ctx)"
  by (simp_all add: asm_answer_def asm_fail_def asm_error_ok) (simp add: asm_error_def)

lemma asm_answer_forms:
  assumes "asm_ok ctx"
  shows "(\<And>r q. asm_ok (rr r q ctx)) \<Longrightarrow> (\<And>r i. asm_ok (ri r i ctx)) \<Longrightarrow> asm_answer (reg_or_imm8 msg rr ri a b ctx)"
    "(\<And>r q. asm_ok (rr r q ctx)) \<Longrightarrow> asm_answer (two_regs rr a b ctx)"
    "(\<And>r. asm_ok (f r ctx)) \<Longrightarrow> asm_answer (one_reg f a ctx)"
    "(\<And>r i. asm_ok (ri r i ctx)) \<Longrightarrow> asm_answer (shift_reg ri a b ctx)"
    "asm_answer (mov_line a b ctx)" "asm_answer (call_line a ctx)"
  using asm_answer_intros assms
  by (simp_all add: reg_or_imm8_def two_regs_def one_reg_def shift_reg_def mov_line_def call_line_def Let_def asm_forms_keep asm_emit_le_keeps
      asm_mov_reg_reg_def asm_mov_reg_imm32_def asm_call_reg_def)

lemma if_answer: "asm_answer a \<Longrightarrow> asm_answer b \<Longrightarrow> asm_answer (if c then a else b)"
  by simp

lemma asm_line_answer: "asm_ok ctx \<Longrightarrow> asm_answer (asm_line line ctx)"
proof -
  assume ok: "asm_ok ctx"
  have two: "asm_ok (asm_add_reg_reg r q ctx)" "asm_ok (asm_sub_reg_reg r q ctx)" "asm_ok (asm_cmp_reg_reg r q ctx)"
    "asm_ok (asm_xor_reg_reg r q ctx)" "asm_ok (asm_or_reg_reg r q ctx)" "asm_ok (asm_and_reg_reg r q ctx)" for r q
    using ok by (simp_all add: asm_form_defs(7-) asm_forms_keep)
  have imm: "asm_ok (asm_add_reg_imm8 r i ctx)" "asm_ok (asm_sub_reg_imm8 r i ctx)" "asm_ok (asm_cmp_reg_imm8 r i ctx)"
    "asm_ok (asm_shl_reg_imm8 r i ctx)" "asm_ok (asm_shr_reg_imm8 r i ctx)" for r i
    using ok by (simp_all add: asm_add_reg_imm8_def asm_sub_reg_imm8_def asm_cmp_reg_imm8_def asm_shl_reg_imm8_def asm_shr_reg_imm8_def asm_forms_keep)
  have one: "asm_ok (asm_inc_reg r ctx)" "asm_ok (asm_dec_reg r ctx)" "asm_ok (asm_neg_reg r ctx)" "asm_ok (asm_not_reg r ctx)" for r
    using ok by (simp_all add: asm_inc_reg_def asm_dec_reg_def asm_neg_reg_def asm_not_reg_def asm_forms_keep)
  show ?thesis
    unfolding asm_line_def Let_def split_beta
    by (cases "a_error ctx") (simp add: asm_answer_def ok, simp only: if_False,
        intro if_answer asm_answer_intros asm_answer_forms ok two imm one asm_forms_keep)
qed

lemma asm_lines_answer: "asm_ok ctx \<Longrightarrow> asm_answer (asm_lines n program ctx)"
proof (induction n program ctx rule: asm_lines.induct)
  case (1 n program ctx)
  obtain line r where l: "next_line program = (line, r)" by fastforce
  obtain res c where a: "asm_line line ctx = (res, c)" by fastforce
  have ans: "asm_ok c" "res = 0 \<or> res = -1 \<and> a_error c" using asm_line_answer [OF 1(2), of line] by (simp_all add: a asm_answer_def)
  show ?case
  proof (cases "program = []")
    case False
    show ?thesis
    proof (cases "res < 0")
      case True
      then show ?thesis using False ans by (subst asm_lines.simps) (auto simp: l a asm_answer_def line_error_def asm_ok_def)
    next
      case n: False
      have "asm_answer (asm_lines (n + 1) r c)" by (rule 1(1) [OF False l [symmetric] refl a [symmetric] refl n ans(1)])
      then show ?thesis using False n by (subst asm_lines.simps) (simp add: l a)
    qed
  qed (subst asm_lines.simps, simp add: asm_answer_def 1(2))
qed

text \<open>
  C19: Whatever text the assembler is given, it terminates with 0 or -1, never writes outside its
  code buffer, and the code it hands out has at most \<open>MAX_ASM_SIZE\<close> bytes; after -1 it hands out none.
\<close>

theorem asm_program_safe:
  "case asm_program text (asm_init ctx) of (res, ctx') \<Rightarrow>
     length (a_code ctx') = MAX_ASM_SIZE \<and>
     (res = 0 \<and> (\<forall>code \<in> set_option (asm_get_code ctx'). length code = a_size ctx' \<and> a_size ctx' \<le> MAX_ASM_SIZE) \<or>
      res = -1 \<and> asm_get_code ctx' = None)"
proof -
  have "asm_answer (asm_program text (asm_init ctx))"
    unfolding asm_program_def by (rule asm_lines_answer) (simp add: asm_ok_def asm_init_def)
  then show ?thesis by (auto simp: asm_answer_def asm_ok_def asm_get_code_def split: prod.splits)
qed

text \<open>A program that is assembled, at a concrete text.\<close>

theorem asm_program_safe_witness:
  "case asm_program (of_string ''ret'') (asm_init \<lparr>a_code = [], a_size = 0, a_error = False, a_error_msg = []\<rparr>) of (res, ctx') \<Rightarrow>
     length (a_code ctx') = MAX_ASM_SIZE \<and>
     (res = 0 \<and> (\<forall>code \<in> set_option (asm_get_code ctx'). length code = a_size ctx' \<and> a_size ctx' \<le> MAX_ASM_SIZE) \<or>
      res = -1 \<and> asm_get_code ctx' = None)"
  by (rule asm_program_safe)

text \<open>
  A line that no longer fits is reported as assembled: only the next line, or the request for the code, meets the error.
\<close>

theorem asm_line_full_buffer:
  assumes "\<not> a_error ctx" and "a_size ctx = MAX_ASM_SIZE"
  shows "asm_line (of_string ''nop'') ctx = (0, ctx\<lparr>a_error := True, a_error_msg := of_string ''Code size exceeded''\<rparr>)"
proof -
  have "split_line (of_string ''nop'') = (of_string ''nop'', [], [])" "dropWhile blank (of_string ''nop'') = of_string ''nop''" by code_simp+
  moreover have "\<forall>n \<in> set [''mov'', ''add'', ''sub'', ''xor'', ''or'', ''and'', ''cmp'', ''call'', ''push'', ''pop'', ''inc'', ''dec'', ''neg'', ''not'', ''shl'', ''shr'', ''syscall'', ''ret''].
    \<not> mnem (of_string ''nop'') n" "mnem (of_string ''nop'') ''nop''" by code_simp+
  moreover have "of_string ''nop'' \<noteq> []" "hd (of_string ''nop'') \<noteq> 59" "hd (of_string ''nop'') \<noteq> 35"
    "take 255 (of_string ''Code size exceeded'') = of_string ''Code size exceeded''" by code_simp+
  ultimately show ?thesis using assms unfolding asm_line_def by (simp add: asm_nop_def asm_emit_def asm_error_def)
qed

text \<open>The hypotheses hold for a full buffer.\<close>

theorem asm_line_full_buffer_witness:
  "asm_line (of_string ''nop'') \<lparr>a_code = replicate MAX_ASM_SIZE 0x90, a_size = MAX_ASM_SIZE, a_error = False, a_error_msg = []\<rparr> =
    (0, \<lparr>a_code = replicate MAX_ASM_SIZE 0x90, a_size = MAX_ASM_SIZE, a_error = True, a_error_msg = of_string ''Code size exceeded''\<rparr>)"
  using asm_line_full_buffer [of "\<lparr>a_code = replicate MAX_ASM_SIZE 0x90, a_size = MAX_ASM_SIZE, a_error = False, a_error_msg = []\<rparr>"] by simp

text \<open>
  An immediate that does not fit into 32 bits is cut without an error unless the register is \<open>rax\<close>:
  the line loads 0 into \<open>rbx\<close> although it asks for 4294967296.
\<close>

theorem asm_mov_truncates: "mov_line (of_string ''rbx'') (of_string ''0x100000000'') ctx = mov_line (of_string ''rbx'') (of_string ''0'') ctx"
proof -
  have "parse_register (of_string ''rbx'') = 3" "parse_register (of_string ''0x100000000'') = -1" "parse_register (of_string ''0'') = -1"
    "parse_immediate (of_string ''0x100000000'') = 4294967296" "parse_immediate (of_string ''0'') = 0" by code_simp+
  moreover have "asm_mov_reg_imm32 3 4294967296 ctx = asm_mov_reg_imm32 3 0 ctx"
    by (rule arg_cong [of _ _ "\<lambda>imm. asm_mov_reg_imm32 3 imm ctx"]) code_simp
  ultimately show ?thesis by (simp add: mov_line_def)
qed

end
