(* ===== verification/Elf.thy ===== *)
theory Elf
  imports Memory Asm_Props
begin

unbundle bit_operations_syntax

text \<open>
  The ELF loader (\<open>elf/elf_load.c\<close>, \<open>elf_loader.h\<close>) over the memory of the machine: a file lies in memory
  at an address, headers, symbols and relocations are read from there each time the code reads them, and segments,
  names and relocations are written to memory. The context and the symbols are values; the memory they are allocated
  in is taken from and given back to the kernel heap. \<open>None\<close> stands for a loop that does not end.
\<close>

section \<open>Structures\<close>

definition ld16 :: "mem \<Rightarrow> u64 \<Rightarrow> u16" where
  "ld16 m a = le_dec (ld m a 2)"

record Elf64_Ehdr =
  e_ident :: bytes
  e_type :: u16
  e_machine :: u16
  e_version :: u32
  e_entry :: u64
  e_phoff :: u64
  e_shoff :: u64
  e_flags :: u32
  e_ehsize :: u16
  e_phentsize :: u16
  e_phnum :: u16
  e_shentsize :: u16
  e_shnum :: u16
  e_shstrndx :: u16

definition ehdr_at :: "mem \<Rightarrow> u64 \<Rightarrow> Elf64_Ehdr" where
  "ehdr_at m a = \<lparr>e_ident = ld m a 16, e_type = ld16 m (a + 16), e_machine = ld16 m (a + 18), e_version = ld32 m (a + 20),
     e_entry = ld64 m (a + 24), e_phoff = ld64 m (a + 32), e_shoff = ld64 m (a + 40), e_flags = ld32 m (a + 48),
     e_ehsize = ld16 m (a + 52), e_phentsize = ld16 m (a + 54), e_phnum = ld16 m (a + 56), e_shentsize = ld16 m (a + 58),
     e_shnum = ld16 m (a + 60), e_shstrndx = ld16 m (a + 62)\<rparr>"

record Elf64_Phdr =
  p_type :: u32
  p_flags :: u32
  p_offset :: u64
  p_vaddr :: u64
  p_paddr :: u64
  p_filesz :: u64
  p_memsz :: u64
  p_align :: u64

definition phdr_at :: "mem \<Rightarrow> u64 \<Rightarrow> Elf64_Phdr" where
  "phdr_at m a = \<lparr>p_type = ld32 m a, p_flags = ld32 m (a + 4), p_offset = ld64 m (a + 8), p_vaddr = ld64 m (a + 16),
     p_paddr = ld64 m (a + 24), p_filesz = ld64 m (a + 32), p_memsz = ld64 m (a + 40), p_align = ld64 m (a + 48)\<rparr>"

record Elf64_Shdr =
  sh_name :: u32
  sh_type :: u32
  sh_flags :: u64
  sh_addr :: u64
  sh_offset :: u64
  sh_size :: u64
  sh_link :: u32
  sh_info :: u32
  sh_addralign :: u64
  sh_entsize :: u64

definition shdr_at :: "mem \<Rightarrow> u64 \<Rightarrow> Elf64_Shdr" where
  "shdr_at m a = \<lparr>sh_name = ld32 m a, sh_type = ld32 m (a + 4), sh_flags = ld64 m (a + 8), sh_addr = ld64 m (a + 16),
     sh_offset = ld64 m (a + 24), sh_size = ld64 m (a + 32), sh_link = ld32 m (a + 40), sh_info = ld32 m (a + 44),
     sh_addralign = ld64 m (a + 48), sh_entsize = ld64 m (a + 56)\<rparr>"

record Elf64_Sym =
  st_name :: u32
  st_info :: u8
  st_other :: u8
  st_shndx :: u16
  st_value :: u64
  st_size :: u64

definition sym_at :: "mem \<Rightarrow> u64 \<Rightarrow> Elf64_Sym" where
  "sym_at m a = \<lparr>st_name = ld32 m a, st_info = m (a + 4), st_other = m (a + 5), st_shndx = ld16 m (a + 6),
     st_value = ld64 m (a + 8), st_size = ld64 m (a + 16)\<rparr>"

record Elf64_Rela =
  r_offset :: u64
  r_info :: u64
  r_addend :: u64

definition rela_at :: "mem \<Rightarrow> u64 \<Rightarrow> Elf64_Rela" where
  "rela_at m a = \<lparr>r_offset = ld64 m a, r_info = ld64 m (a + 8), r_addend = ld64 m (a + 16)\<rparr>"

text \<open>A symbol of the loader; \<open>sy_at\<close> and \<open>sy_name_at\<close> are where it and its name were allocated.\<close>

record elf_symbol =
  sy_name :: bytes
  sy_value :: u64
  sy_size :: u64
  sy_type :: u8
  sy_binding :: u8
  sy_section :: u16
  sy_at :: u64
  sy_name_at :: u64

record elf_context =
  elf_data :: u64
  elf_size :: u64
  phdrs :: u64
  shdrs :: u64
  shstrtab :: u64
  strtab :: u64
  dynstr :: u64
  symtab :: u64
  dynsym :: u64
  symtab_count :: u64
  dynsym_count :: u64
  dynamic :: u64
  symbol_hash :: "elf_symbol list list"
  load_bias :: u64
  ctx_at :: u64

record elf_load_info =
  base_addr :: u64
  entry_point :: u64
  phdr_addr :: u64
  phdr_count :: u64
  phdr_entsize :: u64
  interp_base :: u64
  dynamic_addr :: u64
  tls_base :: u64
  tls_size :: u64
  tls_align :: u64
  interp_path :: u64
  is_dynamic :: bool
  has_tls :: bool

definition ELF_SUCCESS :: int where "ELF_SUCCESS = 0"
definition ELF_ERROR_INVALID :: int where "ELF_ERROR_INVALID = -1"
definition ELF_ERROR_UNSUPPORTED :: int where "ELF_ERROR_UNSUPPORTED = -2"
definition ELF_ERROR_NOMEM :: int where "ELF_ERROR_NOMEM = -3"
definition ELF_ERROR_RELOC :: int where "ELF_ERROR_RELOC = -5"
definition ELF_ERROR_SYMBOL :: int where "ELF_ERROR_SYMBOL = -6"

lemmas elf_codes = ELF_SUCCESS_def ELF_ERROR_INVALID_def ELF_ERROR_UNSUPPORTED_def ELF_ERROR_NOMEM_def ELF_ERROR_RELOC_def ELF_ERROR_SYMBOL_def

definition ET_REL :: u16 where "ET_REL = 1"
definition ET_EXEC :: u16 where "ET_EXEC = 2"
definition ET_DYN :: u16 where "ET_DYN = 3"
definition EM_X86_64 :: u16 where "EM_X86_64 = 62"

definition ELF64_ST_BIND :: "u8 \<Rightarrow> u8" where
  "ELF64_ST_BIND i = drop_bit 4 i"

definition ELF64_ST_TYPE :: "u8 \<Rightarrow> u8" where
  "ELF64_ST_TYPE i = i AND 0xf"

definition ELF64_R_SYM :: "u64 \<Rightarrow> u64" where
  "ELF64_R_SYM i = drop_bit 32 i"

definition ELF64_R_TYPE :: "u64 \<Rightarrow> u64" where
  "ELF64_R_TYPE i = i AND 0xffffffff"

section \<open>Memory\<close>

definition align_down :: "u64 \<Rightarrow> u64 \<Rightarrow> u64" where
  "align_down addr align = addr AND NOT (align - 1)"

definition align_up :: "u64 \<Rightarrow> u64 \<Rightarrow> u64" where
  "align_up addr align = (addr + align - 1) AND NOT (align - 1)"

text \<open>The loops that clear and copy bytes one after the other.\<close>

definition clear :: "u64 \<Rightarrow> nat \<Rightarrow> memory_state \<Rightarrow> memory_state" where
  "clear p n s = s\<lparr>ram := mmset_loop n p 0 (ram s)\<rparr>"

definition copy :: "u64 \<Rightarrow> u64 \<Rightarrow> nat \<Rightarrow> memory_state \<Rightarrow> memory_state" where
  "copy dst src n s = s\<lparr>ram := mmcpy_loop n dst src (ram s)\<rparr>"

definition elf_map_memory :: "u64 \<Rightarrow> u64 \<Rightarrow> memory_state \<Rightarrow> u64 \<times> memory_state" where
  "elf_map_memory vaddr sz s =
     (let aligned_addr = align_down vaddr 4096;
          aligned_size = align_up (sz + (vaddr - aligned_addr)) 4096;
          (phys, s) = pmm_alloc_pages (aligned_size div 4096) s
      in if phys = 0 then (0, s) else (phys, clear phys (unat aligned_size) s))"

text \<open>The string at an address; without a terminating NUL the loop runs on for ever.\<close>

partial_function (option) cstr_at :: "mem \<Rightarrow> u64 \<Rightarrow> bytes option" where
  "cstr_at m a = (if m a = 0 then Some [] else Option.bind (cstr_at m (a + 1)) (\<lambda>r. Some (m a # r)))"

text \<open>The comparison of a string with the string at an address.\<close>

fun same_str :: "bytes \<Rightarrow> mem \<Rightarrow> u64 \<Rightarrow> bool" where
  "same_str [] m a \<longleftrightarrow> m a = 0"
| "same_str (c # r) m a \<longleftrightarrow> m a = c \<and> same_str r m (a + 1)"

section \<open>Validation\<close>

definition elf_validate :: "mem \<Rightarrow> u64 \<Rightarrow> u64 \<Rightarrow> int" where
  "elf_validate m data sz =
     (if data = 0 \<or> sz < 64 then ELF_ERROR_INVALID
      else let ehdr = ehdr_at m data in
      if e_ident ehdr ! 0 \<noteq> 0x7F \<or> e_ident ehdr ! 1 \<noteq> 0x45 \<or> e_ident ehdr ! 2 \<noteq> 0x4C \<or> e_ident ehdr ! 3 \<noteq> 0x46 then ELF_ERROR_INVALID
      else if e_ident ehdr ! 4 \<noteq> 2 then ELF_ERROR_UNSUPPORTED
      else if e_ident ehdr ! 5 \<noteq> 1 then ELF_ERROR_UNSUPPORTED
      else if e_ident ehdr ! 6 \<noteq> 1 then ELF_ERROR_INVALID
      else if e_machine ehdr \<noteq> EM_X86_64 then ELF_ERROR_UNSUPPORTED
      else if e_type ehdr \<noteq> ET_EXEC \<and> e_type ehdr \<noteq> ET_DYN \<and> e_type ehdr \<noteq> ET_REL then ELF_ERROR_UNSUPPORTED
      else if e_ehsize ehdr \<noteq> 64 then ELF_ERROR_INVALID
      else if e_phentsize ehdr \<noteq> 56 \<and> e_phnum ehdr > 0 then ELF_ERROR_INVALID
      else if e_shentsize ehdr \<noteq> 64 \<and> e_shnum ehdr > 0 then ELF_ERROR_INVALID
      else ELF_SUCCESS)"

section \<open>The context\<close>

abbreviation ctx_ehdr :: "mem \<Rightarrow> elf_context \<Rightarrow> Elf64_Ehdr" where
  "ctx_ehdr m ctx \<equiv> ehdr_at m (elf_data ctx)"

definition phdr_of :: "mem \<Rightarrow> elf_context \<Rightarrow> nat \<Rightarrow> Elf64_Phdr" where
  "phdr_of m ctx i = phdr_at m (phdrs ctx + 56 * of_nat i)"

definition shdr_of :: "mem \<Rightarrow> elf_context \<Rightarrow> nat \<Rightarrow> Elf64_Shdr" where
  "shdr_of m ctx i = shdr_at m (shdrs ctx + 64 * of_nat i)"

definition SIZEOF_CONTEXT :: nat where "SIZEOF_CONTEXT = 2160"
definition SIZEOF_SYMBOL :: u64 where "SIZEOF_SYMBOL = 40"

definition scan_section :: "mem \<Rightarrow> nat \<Rightarrow> elf_context \<Rightarrow> elf_context" where
  "scan_section m i ctx =
     (let shdr = shdr_of m ctx i; at = elf_data ctx + sh_offset shdr in
      if sh_type shdr = 3 \<and> shstrtab ctx \<noteq> 0 then
        (let name = shstrtab ctx + ucast (sh_name shdr) in
         if same_str (of_string ''.strtab'') m name then ctx\<lparr>strtab := at\<rparr>
         else if same_str (of_string ''.dynstr'') m name then ctx\<lparr>dynstr := at\<rparr>
         else ctx)
      else if sh_type shdr = 2 then ctx\<lparr>symtab := at, symtab_count := sh_size shdr div 24\<rparr>
      else if sh_type shdr = 11 then ctx\<lparr>dynsym := at, dynsym_count := sh_size shdr div 24\<rparr>
      else if sh_type shdr = 6 then ctx\<lparr>dynamic := at\<rparr>
      else ctx)"

definition blank_context :: elf_context where
  "blank_context = \<lparr>elf_data = 0, elf_size = 0, phdrs = 0, shdrs = 0, shstrtab = 0, strtab = 0, dynstr = 0, symtab = 0, dynsym = 0,
     symtab_count = 0, dynsym_count = 0, dynamic = 0, symbol_hash = replicate 256 [], load_bias = 0, ctx_at = 0\<rparr>"

definition elf_create_context :: "u64 \<Rightarrow> u64 \<Rightarrow> memory_state \<Rightarrow> (elf_context option \<times> memory_state) option" where
  "elf_create_context data sz s =
     (if elf_validate (ram s) data sz \<noteq> ELF_SUCCESS then Some (None, s)
      else Option.bind (kmalloc (of_nat SIZEOF_CONTEXT) s) (\<lambda>(p, s).
        if p = 0 then Some (None, s)
        else let s = clear p SIZEOF_CONTEXT s;
                 m = ram s;
                 ctx = blank_context\<lparr>ctx_at := p, elf_data := data, elf_size := sz\<rparr>;
                 ehdr = ctx_ehdr m ctx;
                 ctx = (if e_phnum ehdr > 0 then ctx\<lparr>phdrs := data + e_phoff ehdr\<rparr> else ctx);
                 ctx = (if e_shnum ehdr > 0 then
                          (let ctx = ctx\<lparr>shdrs := data + e_shoff ehdr\<rparr> in
                           if e_shstrndx ehdr \<noteq> 0 \<and> e_shstrndx ehdr < e_shnum ehdr
                           then ctx\<lparr>shstrtab := data + sh_offset (shdr_of m ctx (unat (e_shstrndx ehdr)))\<rparr> else ctx)
                        else ctx)
             in Some (Some (fold (scan_section m) [0..<unat (e_shnum ehdr)] ctx), s)))"

fun free_symbols :: "elf_symbol list \<Rightarrow> memory_state \<Rightarrow> memory_state option" where
  "free_symbols [] s = Some s"
| "free_symbols (sm # r) s =
     Option.bind (if sy_name_at sm \<noteq> 0 then kfree (sy_name_at sm) s else Some s) (\<lambda>s.
     Option.bind (kfree (sy_at sm) s) (free_symbols r))"

definition elf_destroy_context :: "elf_context \<Rightarrow> memory_state \<Rightarrow> memory_state option" where
  "elf_destroy_context ctx s = Option.bind (free_symbols (concat (symbol_hash ctx)) s) (kfree (ctx_at ctx))"

text \<open>The address of the name, or 0.\<close>

definition elf_get_section_name :: "elf_context \<Rightarrow> Elf64_Shdr \<Rightarrow> u64" where
  "elf_get_section_name ctx shdr = (if shstrtab ctx = 0 \<or> sh_name shdr = 0 then 0 else shstrtab ctx + ucast (sh_name shdr))"

definition elf_find_section :: "mem \<Rightarrow> elf_context \<Rightarrow> bytes \<Rightarrow> nat option" where
  "elf_find_section m ctx name =
     (if shdrs ctx = 0 \<or> shstrtab ctx = 0 then None
      else find (\<lambda>i. let section_name = elf_get_section_name ctx (shdr_of m ctx i) in section_name \<noteq> 0 \<and> same_str name m section_name)
             [0..<unat (e_shnum (ctx_ehdr m ctx))])"

definition elf_find_section_by_type :: "mem \<Rightarrow> elf_context \<Rightarrow> u32 \<Rightarrow> nat option" where
  "elf_find_section_by_type m ctx ty =
     (if shdrs ctx = 0 then None else find (\<lambda>i. sh_type (shdr_of m ctx i) = ty) [0..<unat (e_shnum (ctx_ehdr m ctx))])"

section \<open>Segments\<close>

text \<open>The addresses spanned by the loadable segments.\<close>

definition span_step :: "mem \<Rightarrow> elf_context \<Rightarrow> nat \<Rightarrow> u64 \<times> u64 \<Rightarrow> u64 \<times> u64" where
  "span_step m ctx i = (\<lambda>(min_vaddr, max_vaddr).
     let phdr = phdr_of m ctx i in
     if p_type phdr = 1 then
       (if p_vaddr phdr < min_vaddr then p_vaddr phdr else min_vaddr,
        let end = p_vaddr phdr + p_memsz phdr in if end > max_vaddr then end else max_vaddr)
     else (min_vaddr, max_vaddr))"

definition segment_span :: "mem \<Rightarrow> elf_context \<Rightarrow> u64 \<times> u64" where
  "segment_span m ctx = fold (span_step m ctx) [0..<unat (e_phnum (ctx_ehdr m ctx))] (-1, 0)"

text \<open>The copy of a segment reads its length from the header in every round.\<close>

function copy_segment :: "elf_context \<Rightarrow> nat \<Rightarrow> u64 \<Rightarrow> u64 \<Rightarrow> nat \<Rightarrow> memory_state \<Rightarrow> memory_state" where
  "copy_segment ctx i dst src j s =
     (if j < unat (p_filesz (phdr_of (ram s) ctx i))
      then copy_segment ctx i dst src (j + 1) (s\<lparr>ram := (ram s)(dst + of_nat j := ram s (src + of_nat j))\<rparr>)
      else s)"
  by pat_completeness auto
termination
proof (relation "measure (\<lambda>(_, _, _, _, j, _). 2 ^ 64 - j)", goal_cases)
  case (2 ctx i dst src j s)
  then show ?case using unsigned_less [of "p_filesz (phdr_of (ram s) ctx i)", where 'a = nat] by simp
qed simp

declare copy_segment.simps [simp del]

text \<open>One loadable segment; false when no memory is left for it.\<close>

definition load_segment :: "elf_context \<Rightarrow> nat \<Rightarrow> memory_state \<Rightarrow> bool \<times> memory_state" where
  "load_segment ctx i s =
     (let phdr = phdr_of (ram s) ctx i;
          vaddr = p_vaddr phdr + load_bias ctx;
          (mem, s) = elf_map_memory vaddr (p_memsz phdr) s
      in if mem = 0 then (False, s)
         else let dst = mem + (vaddr - align_down vaddr 4096);
                  phdr = phdr_of (ram s) ctx i;
                  s = (if p_filesz phdr > 0 then copy_segment ctx i dst (elf_data ctx + p_offset phdr) 0 s else s);
                  phdr = phdr_of (ram s) ctx i;
                  s = (if p_memsz phdr > p_filesz phdr then clear (dst + p_filesz phdr) (unat (p_memsz phdr - p_filesz phdr)) s else s)
              in (True, s))"

definition note_phdr :: "elf_context \<Rightarrow> Elf64_Phdr \<Rightarrow> elf_load_info \<Rightarrow> elf_load_info" where
  "note_phdr ctx phdr info =
     (if p_type phdr = 2 then info\<lparr>dynamic_addr := p_vaddr phdr + load_bias ctx, is_dynamic := True\<rparr>
      else if p_type phdr = 3 then info\<lparr>interp_path := elf_data ctx + p_offset phdr, is_dynamic := True\<rparr>
      else if p_type phdr = 7 then info\<lparr>tls_base := p_vaddr phdr + load_bias ctx, tls_size := p_memsz phdr, tls_align := p_align phdr, has_tls := True\<rparr>
      else if p_type phdr = 6 then info\<lparr>phdr_addr := p_vaddr phdr + load_bias ctx\<rparr>
      else info)"

function load_phdrs :: "nat \<Rightarrow> elf_context \<Rightarrow> elf_load_info \<Rightarrow> memory_state \<Rightarrow> bool \<times> elf_load_info \<times> memory_state" where
  "load_phdrs i ctx info s =
     (if i < unat (e_phnum (ctx_ehdr (ram s) ctx)) then
        (let phdr = phdr_of (ram s) ctx i in
         if p_type phdr = 1 then
           (case load_segment ctx i s of (ok, s) \<Rightarrow> if ok then load_phdrs (i + 1) ctx info s else (False, info, s))
         else load_phdrs (i + 1) ctx (note_phdr ctx phdr info) s)
      else (True, info, s))"
  by pat_completeness auto
termination
proof (relation "measure (\<lambda>(i, _). 2 ^ 16 - i)", goal_cases)
  case (2 i ctx info s)
  then show ?case using unsigned_less [of "e_phnum (ctx_ehdr (ram s) ctx)", where 'a = nat] by simp
next
  case (3 i ctx info s)
  then show ?case using unsigned_less [of "e_phnum (ctx_ehdr (ram s) ctx)", where 'a = nat] by simp
qed simp

declare load_phdrs.simps [simp del]

definition elf_load_segments :: "elf_context \<Rightarrow> elf_load_info \<Rightarrow> memory_state \<Rightarrow> int \<times> elf_context \<times> elf_load_info \<times> memory_state" where
  "elf_load_segments ctx info s =
     (let (min_vaddr, max_vaddr) = segment_span (ram s) ctx;
          (ok, ctx, info, s) =
            (if e_type (ctx_ehdr (ram s) ctx) = ET_DYN then
               (case elf_map_memory 0x400000 (max_vaddr - min_vaddr) s of (base, s) \<Rightarrow>
                  if base = 0 then (False, ctx, info, s)
                  else (True, ctx\<lparr>load_bias := base - min_vaddr\<rparr>, info\<lparr>base_addr := base\<rparr>, s))
             else (True, ctx\<lparr>load_bias := 0\<rparr>, info\<lparr>base_addr := min_vaddr\<rparr>, s))
      in if \<not> ok then (ELF_ERROR_NOMEM, ctx, info, s)
         else case load_phdrs 0 ctx info s of (ok, info, s) \<Rightarrow>
           if \<not> ok then (ELF_ERROR_NOMEM, ctx, info, s)
           else let ehdr = ctx_ehdr (ram s) ctx
                in (ELF_SUCCESS, ctx, info\<lparr>entry_point := e_entry ehdr + load_bias ctx, phdr_count := ucast (e_phnum ehdr),
                      phdr_entsize := ucast (e_phentsize ehdr)\<rparr>, s))"

section \<open>Symbols\<close>

definition elf_hash_step :: "u8 \<Rightarrow> u32 \<Rightarrow> u32" where
  "elf_hash_step c h =
     (let h = push_bit 4 h + ucast c;
          g = h AND 0xf0000000;
          h = (if g \<noteq> 0 then h XOR drop_bit 24 g else h)
      in h AND NOT g)"

definition elf_hash :: "bytes \<Rightarrow> u32" where
  "elf_hash name = fold elf_hash_step name 0"

definition bucket :: "bytes \<Rightarrow> nat" where
  "bucket name = unat (elf_hash name mod 256)"

definition elf_find_symbol :: "elf_context \<Rightarrow> bytes \<Rightarrow> elf_symbol option" where
  "elf_find_symbol ctx name = find (\<lambda>sm. sy_name sm = name) (symbol_hash ctx ! bucket name)"

definition elf_get_symbol_value :: "elf_context \<Rightarrow> bytes \<Rightarrow> u64" where
  "elf_get_symbol_value ctx name = (case elf_find_symbol ctx name of Some sm \<Rightarrow> sy_value sm | None \<Rightarrow> 0)"

definition link_symbol :: "elf_symbol \<Rightarrow> elf_context \<Rightarrow> elf_context" where
  "link_symbol entry ctx = (let h = bucket (sy_name entry) in ctx\<lparr>symbol_hash := (symbol_hash ctx)[h := entry # symbol_hash ctx ! h]\<rparr>)"

definition symbol_of :: "elf_context \<Rightarrow> Elf64_Sym \<Rightarrow> bytes \<Rightarrow> u64 \<Rightarrow> u64 \<Rightarrow> elf_symbol" where
  "symbol_of ctx sm name at name_at =
     \<lparr>sy_name = name, sy_value = st_value sm + load_bias ctx, sy_size = st_size sm, sy_type = ELF64_ST_TYPE (st_info sm),
      sy_binding = ELF64_ST_BIND (st_info sm), sy_section = st_shndx sm, sy_at = at, sy_name_at = name_at\<rparr>"

text \<open>
  The name and the fields of an allocated entry; a failed allocation skips the symbol. The length of the name is counted after the
  entry has been allocated. The second table looks the name up first, and \<open>name\<close> is then the name that was looked up: the two
  allocations do not write into the string table.
\<close>

definition fill_symbol :: "u64 \<Rightarrow> u64 \<Rightarrow> bytes \<Rightarrow> u64 \<Rightarrow> elf_context \<times> memory_state \<Rightarrow> (elf_context \<times> memory_state) option" where
  "fill_symbol sym_addr name_addr name entry = (\<lambda>(ctx, s).
     Option.bind (kmalloc (of_nat (length name + 1)) s) (\<lambda>(p, s).
       if p = 0 then Option.bind (kfree entry s) (\<lambda>s. Some (ctx, s))
       else let s = copy p name_addr (length name + 1) s
            in Some (link_symbol (symbol_of ctx (sym_at (ram s) sym_addr) name entry p) ctx, s)))"

definition new_symbol :: "u64 \<Rightarrow> u64 \<Rightarrow> bytes option \<Rightarrow> elf_context \<times> memory_state \<Rightarrow> (elf_context \<times> memory_state) option" where
  "new_symbol sym_addr name_addr known = (\<lambda>(ctx, s).
     Option.bind (kmalloc SIZEOF_SYMBOL s) (\<lambda>(entry, s).
       if entry = 0 then Some (ctx, s)
       else Option.bind (case known of Some name \<Rightarrow> Some name | None \<Rightarrow> cstr_at (ram s) name_addr) (\<lambda>name.
         fill_symbol sym_addr name_addr name entry (ctx, s))))"

definition skipped_symbol :: "Elf64_Sym \<Rightarrow> bool" where
  "skipped_symbol sm \<longleftrightarrow> st_name sm = 0 \<or> ELF64_ST_TYPE (st_info sm) = 3"

definition resolve_symtab :: "nat \<Rightarrow> elf_context \<times> memory_state \<Rightarrow> (elf_context \<times> memory_state) option" where
  "resolve_symtab i = (\<lambda>(ctx, s).
     let addr = symtab ctx + 24 * of_nat i; sm = sym_at (ram s) addr in
     if skipped_symbol sm then Some (ctx, s)
     else let name_addr = strtab ctx + ucast (st_name sm) in
       new_symbol addr name_addr None (ctx, s))"

definition resolve_dynsym :: "nat \<Rightarrow> elf_context \<times> memory_state \<Rightarrow> (elf_context \<times> memory_state) option" where
  "resolve_dynsym i = (\<lambda>(ctx, s).
     let addr = dynsym ctx + 24 * of_nat i; sm = sym_at (ram s) addr in
     if skipped_symbol sm then Some (ctx, s)
     else let name_addr = dynstr ctx + ucast (st_name sm) in
       Option.bind (cstr_at (ram s) name_addr) (\<lambda>name.
         if elf_find_symbol ctx name \<noteq> None then Some (ctx, s) else new_symbol addr name_addr (Some name) (ctx, s)))"

text \<open>A loop whose body may fail to end.\<close>

fun each :: "('a \<Rightarrow> 's \<Rightarrow> 's option) \<Rightarrow> 'a list \<Rightarrow> 's \<Rightarrow> 's option" where
  "each f [] s = Some s"
| "each f (x # xs) s = Option.bind (f x s) (each f xs)"

definition elf_resolve_symbols :: "elf_context \<Rightarrow> memory_state \<Rightarrow> (int \<times> elf_context \<times> memory_state) option" where
  "elf_resolve_symbols ctx s =
     Option.bind (if symtab ctx \<noteq> 0 \<and> strtab ctx \<noteq> 0 then each resolve_symtab [0..<unat (symtab_count ctx)] (ctx, s) else Some (ctx, s)) (\<lambda>(ctx, s).
     Option.bind (if dynsym ctx \<noteq> 0 \<and> dynstr ctx \<noteq> 0 then each resolve_dynsym [0..<unat (dynsym_count ctx)] (ctx, s) else Some (ctx, s)) (\<lambda>(ctx, s).
     Some (ELF_SUCCESS, ctx, s)))"

section \<open>Relocations\<close>

definition SHN_UNDEF :: u16 where "SHN_UNDEF = 0"
definition SHN_ABS :: u16 where "SHN_ABS = 0xfff1"
definition STB_WEAK :: u8 where "STB_WEAK = 2"

text \<open>The value of the symbol of a relocation: \<open>Some None\<close> when it is undefined.\<close>

definition reloc_symval :: "mem \<Rightarrow> elf_context \<Rightarrow> u64 \<Rightarrow> u64 \<Rightarrow> u64 \<Rightarrow> u64 option option" where
  "reloc_symval m ctx syms strs r_sym =
     (if r_sym \<noteq> 0 \<and> syms \<noteq> 0 then
        let sm = sym_at m (syms + 24 * r_sym) in
        if st_shndx sm = SHN_UNDEF then
          (if strs \<noteq> 0 \<and> st_name sm \<noteq> 0 then
             Option.bind (cstr_at m (strs + ucast (st_name sm))) (\<lambda>sym_name.
               case elf_find_symbol ctx sym_name of
                 Some resolved \<Rightarrow> Some (Some (sy_value resolved))
               | None \<Rightarrow> if ELF64_ST_BIND (st_info sm) = STB_WEAK then Some (Some 0) else Some None)
           else Some (Some 0))
        else if st_shndx sm = SHN_ABS then Some (Some (st_value sm))
        else Some (Some (st_value sm + load_bias ctx))
      else Some (Some 0))"

text \<open>What the relocation writes, or none for a type that is not supported.\<close>

definition reloc_store :: "u64 \<Rightarrow> u64 \<Rightarrow> u64 \<Rightarrow> u64 \<Rightarrow> u64 \<Rightarrow> mem \<Rightarrow> mem option" where
  "reloc_store r_type symval addend bias ref m =
     (if r_type = 0 then Some m
      else if r_type = 1 then Some (st64 m ref (symval + addend))
      else if r_type = 2 \<or> r_type = 4 then Some (st32 m ref (ucast (symval + addend - ref)))
      else if r_type = 6 \<or> r_type = 7 then Some (st64 m ref symval)
      else if r_type = 8 then Some (st64 m ref (bias + addend))
      else if r_type = 10 then Some (st32 m ref (ucast (symval + addend)))
      else if r_type = 11 then Some (st32 m ref (ucast (symval + addend)))
      else if r_type = 9 then Some (st32 m ref (ucast (symval + addend - ref)))
      else if r_type = 18 then Some (st64 m ref (symval + addend))
      else if r_type = 16 then Some (st64 m ref 1)
      else if r_type = 17 then Some (st64 m ref (symval + addend))
      else None)"

definition apply_rela :: "elf_context \<Rightarrow> u64 \<Rightarrow> u64 \<Rightarrow> u64 \<Rightarrow> memory_state \<Rightarrow> (int \<times> memory_state) option" where
  "apply_rela ctx rel syms strs s =
     (let r = rela_at (ram s) rel; ref = r_offset r + load_bias ctx in
      Option.bind (reloc_symval (ram s) ctx syms strs (ELF64_R_SYM (r_info r))) (\<lambda>v.
        case v of
          None \<Rightarrow> Some (ELF_ERROR_SYMBOL, s)
        | Some symval \<Rightarrow>
            (case reloc_store (ELF64_R_TYPE (r_info r)) symval (r_addend r) (load_bias ctx) ref (ram s) of
               None \<Rightarrow> Some (ELF_ERROR_RELOC, s)
             | Some m \<Rightarrow> Some (ELF_SUCCESS, s\<lparr>ram := m\<rparr>))))"

fun elf_apply_rela_relocations :: "elf_context \<Rightarrow> u64 \<Rightarrow> nat \<Rightarrow> u64 \<Rightarrow> u64 \<Rightarrow> memory_state \<Rightarrow> (int \<times> memory_state) option" where
  "elf_apply_rela_relocations ctx rela 0 syms strs s = Some (ELF_SUCCESS, s)"
| "elf_apply_rela_relocations ctx rela (Suc n) syms strs s =
     Option.bind (apply_rela ctx rela syms strs s) (\<lambda>(r, s).
       if r \<noteq> ELF_SUCCESS then Some (r, s) else elf_apply_rela_relocations ctx (rela + 24) n syms strs s)"

function section_relocations :: "elf_context \<Rightarrow> nat \<Rightarrow> memory_state \<Rightarrow> (int \<times> memory_state) option" where
  "section_relocations ctx i s =
     (let m = ram s; shnum = e_shnum (ctx_ehdr m ctx) in
      if i < unat shnum then
        (let shdr = shdr_of m ctx i in
         if sh_type shdr = 4 \<and> sh_link shdr < ucast shnum then
           (let symtab_shdr = shdr_of m ctx (unat (sh_link shdr));
                strs = (if sh_link symtab_shdr < ucast shnum then elf_data ctx + sh_offset (shdr_of m ctx (unat (sh_link symtab_shdr))) else 0)
            in Option.bind (elf_apply_rela_relocations ctx (elf_data ctx + sh_offset shdr) (unat (sh_size shdr div 24))
                  (elf_data ctx + sh_offset symtab_shdr) strs s) (\<lambda>(r, s).
                 if r \<noteq> ELF_SUCCESS then Some (r, s) else section_relocations ctx (i + 1) s))
         else section_relocations ctx (i + 1) s)
      else Some (ELF_SUCCESS, s))"
  by pat_completeness auto
termination
proof (relation "measure (\<lambda>(_, i, _). 2 ^ 16 - i)", goal_cases)
  case (2 ctx i s)
  then show ?case using unsigned_less [of "e_shnum (ctx_ehdr (ram s) ctx)", where 'a = nat] by simp
next
  case (3 ctx i s)
  then show ?case using unsigned_less [of "e_shnum (ctx_ehdr (ram s) ctx)", where 'a = nat] by simp
qed simp

declare section_relocations.simps [simp del]

text \<open>The entries of the dynamic section that the loader uses, up to the entry \<open>DT_NULL\<close>.\<close>

record dyn_tables =
  d_rela :: u64
  d_rela_size :: u64
  d_jmprel :: u64
  d_jmprel_size :: u64

definition dyn_entry :: "u64 \<Rightarrow> u64 \<Rightarrow> u64 \<Rightarrow> dyn_tables \<Rightarrow> dyn_tables" where
  "dyn_entry bias tag val d =
     (if tag = 7 then d\<lparr>d_rela := val + bias\<rparr>
      else if tag = 8 then d\<lparr>d_rela_size := val\<rparr>
      else if tag = 23 then d\<lparr>d_jmprel := val + bias\<rparr>
      else if tag = 2 then d\<lparr>d_jmprel_size := val\<rparr>
      else d)"

partial_function (option) scan_dynamic :: "mem \<Rightarrow> u64 \<Rightarrow> u64 \<Rightarrow> dyn_tables \<Rightarrow> dyn_tables option" where
  "scan_dynamic m bias dyn d =
     (if ld64 m dyn = 0 then Some d else scan_dynamic m bias (dyn + 16) (dyn_entry bias (ld64 m dyn) (ld64 m (dyn + 8)) d))"

definition table_relocations :: "elf_context \<Rightarrow> u64 \<Rightarrow> u64 \<Rightarrow> memory_state \<Rightarrow> (int \<times> memory_state) option" where
  "table_relocations ctx rela sz s =
     (if rela \<noteq> 0 \<and> sz > 0 then elf_apply_rela_relocations ctx rela (unat (sz div 24)) (dynsym ctx) (dynstr ctx) s
      else Some (ELF_SUCCESS, s))"

definition elf_apply_relocations :: "elf_context \<Rightarrow> memory_state \<Rightarrow> (int \<times> memory_state) option" where
  "elf_apply_relocations ctx s =
     Option.bind (section_relocations ctx 0 s) (\<lambda>(r, s).
       if r \<noteq> ELF_SUCCESS then Some (r, s)
       else if dynamic ctx = 0 then Some (ELF_SUCCESS, s)
       else Option.bind (scan_dynamic (ram s) (load_bias ctx) (dynamic ctx) \<lparr>d_rela = 0, d_rela_size = 0, d_jmprel = 0, d_jmprel_size = 0\<rparr>) (\<lambda>d.
            Option.bind (table_relocations ctx (d_rela d) (d_rela_size d) s) (\<lambda>(r, s).
              if r \<noteq> ELF_SUCCESS then Some (r, s) else table_relocations ctx (d_jmprel d) (d_jmprel_size d) s)))"

section \<open>Loading\<close>

definition elf_setup_tls :: "elf_load_info \<Rightarrow> memory_state \<Rightarrow> (int \<times> memory_state) option" where
  "elf_setup_tls info s =
     (if \<not> has_tls info then Some (ELF_SUCCESS, s)
      else let sz = align_up (tls_size info) (tls_align info) in
        Option.bind (kmalloc sz s) (\<lambda>(block, s).
          if block = 0 then Some (ELF_ERROR_NOMEM, s)
          else Some (ELF_SUCCESS, clear (block + tls_size info) (unat sz - unat (tls_size info))
                 (copy block (tls_base info) (unat (tls_size info)) s))))"

definition blank_info :: elf_load_info where
  "blank_info = \<lparr>base_addr = 0, entry_point = 0, phdr_addr = 0, phdr_count = 0, phdr_entsize = 0, interp_base = 0, dynamic_addr = 0,
     tls_base = 0, tls_size = 0, tls_align = 0, interp_path = 0, is_dynamic = False, has_tls = False\<rparr>"

definition give_up :: "int \<Rightarrow> elf_context \<Rightarrow> elf_load_info \<Rightarrow> memory_state \<Rightarrow> (int \<times> elf_load_info \<times> memory_state) option" where
  "give_up r ctx info s = Option.bind (elf_destroy_context ctx s) (\<lambda>s. Some (r, info, s))"

definition elf_load :: "u64 \<Rightarrow> u64 \<Rightarrow> elf_load_info \<Rightarrow> memory_state \<Rightarrow> (int \<times> elf_load_info \<times> memory_state) option" where
  "elf_load data sz info s =
     (if data = 0 then Some (ELF_ERROR_INVALID, info, s)
      else Option.bind (elf_create_context data sz s) (\<lambda>(c, s).
        case c of
          None \<Rightarrow> Some (ELF_ERROR_INVALID, blank_info, s)
        | Some ctx \<Rightarrow>
            (let (r, ctx, info, s) = elf_load_segments ctx blank_info s in
             if r \<noteq> ELF_SUCCESS then give_up r ctx info s
             else Option.bind (elf_resolve_symbols ctx s) (\<lambda>(r, ctx, s).
               if r \<noteq> ELF_SUCCESS then give_up r ctx info s
               else Option.bind (elf_apply_relocations ctx s) (\<lambda>(r, s).
                 if r \<noteq> ELF_SUCCESS then give_up r ctx info s
                 else Option.bind (elf_setup_tls info s) (\<lambda>(r, s).
                   if r \<noteq> ELF_SUCCESS then give_up r ctx info s else Some (r, info, s)))))))"

end
