(* ===== verification/Elf_Props.thy ===== *)
theory Elf_Props
  imports Elf
begin

unbundle bit_operations_syntax

text \<open>
  Properties of the ELF loader: the hash function and the symbol table, relocations, segments, and what validation
  does not check.
\<close>

section \<open>Memory\<close>

lemma mmset_loop_st: "n < 2 ^ 64 \<Longrightarrow> mmset_loop n p v m = st m p (replicate n v)"
proof (induction n arbitrary: p m)
  case 0
  then show ?case by (simp add: st_def)
next
  case (Suc n)
  have "mmset_loop (Suc n) p v m x = st m p (replicate (Suc n) v) x" for x
  proof (cases "x = p")
    case True
    have "n \<le> unat (p - (p + 1))" using Suc.prems unat_uminus_u64 [of 1] by simp
    then show ?thesis using True Suc by (simp add: st_def)
  next
    case False
    then have "x - p \<noteq> 0" by simp
    then have u: "unat (x - p) = Suc (unat (x - p - 1))" using unat_minus_one [of "x - p"] unat_gt_0 [of "x - p"] by simp
    have e: "x - (p + 1) = x - p - 1" by simp
    show ?thesis using False Suc u unfolding mmset_loop.simps(2) by (simp add: st_def e)
  qed
  then show ?case by blast
qed

lemma mmcpy_loop_st: "apart d n p n \<Longrightarrow> n < 2 ^ 64 \<Longrightarrow> mmcpy_loop n d p m = st m d (ld m p n)"
  by (rule ext) (simp add: mmcpy_loop_byte st_def ld_def)

lemma ld_inside:
  assumes "i + k \<le> n"
  shows "ld m (a + of_nat i) k = segment i k (ld m a n)"
  using assms by (intro nth_equalityI) (simp_all add: segment_def ld_def add.assoc)

lemma ld_prefix: "k \<le> n \<Longrightarrow> ld m a k = take k (ld m a n)"
  using ld_inside [of 0 k n m a] by (simp add: segment_def)

lemma ld_append: "ld m a (n + k) = ld m a n @ ld m (a + of_nat n) k"
  by (intro nth_equalityI) (auto simp: ld_def nth_append add.assoc of_nat_diff)

lemma ld_eqI: "(\<And>i. i < n \<Longrightarrow> m (a + of_nat i) = m' (a + of_nat i)) \<Longrightarrow> ld m a n = ld m' a n"
  by (simp add: ld_def)

lemma ld_nth: "i < n \<Longrightarrow> ld m a n ! i = m (a + of_nat i)"
  by (simp add: ld_def)

section \<open>The hash function\<close>

lemma elf_hash_step_bound: "elf_hash_step c h < 2 ^ 28"
proof -
  have f: "(0xf0000000 :: u32) = push_bit 28 (mask 4)" by (simp add: mask_eq_decr_exp)
  let ?h = "push_bit 4 h + ucast c :: u32"
  have "bit (elf_hash_step c h) n \<Longrightarrow> n < 28" for n
    unfolding elf_hash_step_def Let_def f using bit_imp_le_length [of ?h n] bit_imp_le_length [of ?h "24 + n"]
    by (auto simp: bit_simps split: if_splits)
  then have "take_bit 28 (elf_hash_step c h) = elf_hash_step c h"
    by (intro bit_word_eqI) (auto simp: bit_take_bit_iff)
  moreover have "unat (take_bit 28 (elf_hash_step c h)) < 2 ^ 28" unfolding unsigned_take_bit_eq by (rule take_bit_nat_less_exp)
  ultimately show ?thesis by (simp add: word_less_nat_alt)
qed

text \<open>
  The hash of a symbol name has 28 bits, whatever the name.
\<close>

theorem elf_hash_bound: "elf_hash name < 2 ^ 28"
  unfolding elf_hash_def by (cases name rule: rev_cases) (simp, simp add: elf_hash_step_bound del: power_numeral)

section \<open>The symbol table\<close>

text \<open>A table to which entries are added and in which the entry added last under a key is found.\<close>

locale name_table =
  fixes key :: "'e \<Rightarrow> 'k" and ok :: "'t \<Rightarrow> bool" and add :: "'e \<Rightarrow> 't \<Rightarrow> 't" and get :: "'t \<Rightarrow> 'k \<Rightarrow> 'e option"
  assumes add_ok: "ok t \<Longrightarrow> ok (add e t)"
    and get_add: "ok t \<Longrightarrow> get (add e t) k = (if key e = k then Some e else get t k)"
begin

lemma adds_ok: "ok t \<Longrightarrow> ok (fold add es t)"
  by (induction es arbitrary: t) (simp_all add: add_ok)

lemma get_adds: "ok t \<Longrightarrow> get (fold add es t) k = (case find (\<lambda>e. key e = k) (rev es) of None \<Rightarrow> get t k | Some e \<Rightarrow> Some e)"
proof (induction es rule: rev_induct)
  case (snoc e es)
  then show ?case using adds_ok [of t es] by (simp add: get_add)
qed simp

end

definition ctx_ok :: "elf_context \<Rightarrow> bool" where
  "ctx_ok ctx \<longleftrightarrow> length (symbol_hash ctx) = 256"

lemma bucket_lt: "bucket name < 256"
proof -
  have "elf_hash name mod 256 < 256" by (rule word_mod_less_divisor) simp
  then show ?thesis by (simp add: bucket_def word_less_nat_alt)
qed

interpretation symbols: name_table sy_name ctx_ok link_symbol elf_find_symbol
proof unfold_locales
  fix t :: elf_context and e :: elf_symbol and k
  assume ok: "ctx_ok t"
  show "ctx_ok (link_symbol e t)" using ok by (simp add: ctx_ok_def link_symbol_def Let_def)
  show "elf_find_symbol (link_symbol e t) k = (if sy_name e = k then Some e else elf_find_symbol t k)"
    using ok bucket_lt [of "sy_name e"] by (cases "bucket (sy_name e) = bucket k") (auto simp: elf_find_symbol_def link_symbol_def ctx_ok_def Let_def)
qed

section \<open>Segments\<close>

lemma ehdr_stable: "ld m a 64 = ld m' a 64 \<Longrightarrow> ehdr_at m a = ehdr_at m' a"
proof -
  assume e: "ld m a 64 = ld m' a 64"
  have f: "ld m (a + of_nat i) k = ld m' (a + of_nat i) k" if "i + k \<le> 64" for i k
    using ld_inside [OF that, of m a] ld_inside [OF that, of m' a] e by simp
  show ?thesis using f [of 0 16] f [of 16 2] f [of 18 2] f [of 20 4] f [of 24 8] f [of 32 8] f [of 40 8] f [of 48 4] f [of 52 2] f [of 54 2]
      f [of 56 2] f [of 58 2] f [of 60 2] f [of 62 2]
    by (simp add: ehdr_at_def ld16_def ld32_def ld64_def)
qed

lemma phdr_stable: "ld m a 56 = ld m' a 56 \<Longrightarrow> phdr_at m a = phdr_at m' a"
proof -
  assume e: "ld m a 56 = ld m' a 56"
  have f: "ld m (a + of_nat i) k = ld m' (a + of_nat i) k" if "i + k \<le> 56" for i k
    using ld_inside [OF that, of m a] ld_inside [OF that, of m' a] e by simp
  show ?thesis using f [of 0 4] f [of 4 4] f [of 8 8] f [of 16 8] f [of 24 8] f [of 32 8] f [of 40 8] f [of 48 8]
    by (simp add: phdr_at_def ld32_def ld64_def)
qed

lemma one_byte: "m(a := v) = st m a [v]"
  by (rule ext) (auto simp: st_def unat_eq_0)

text \<open>Where the header of a segment is not overwritten, the copy is the plain copy.\<close>

lemma copy_segment_copy:
  assumes "apart dst n (phdrs ctx + 56 * of_nat i) 56" "n < 2 ^ 64" "unat (p_filesz (phdr_of (ram s) ctx i)) = n" "j \<le> n"
  shows "copy_segment ctx i dst src j s = copy (dst + of_nat j) (src + of_nat j) (n - j) s"
  using assms(3,4)
proof (induction "n - j" arbitrary: j s)
  case 0
  then show ?case by (subst copy_segment.simps) (simp add: copy_def)
next
  case (Suc k)
  let ?s = "s\<lparr>ram := (ram s)(dst + of_nat j := ram s (src + of_nat j))\<rparr>"
  have j: "j < n" "k = n - (j + 1)" "n - j = Suc (n - (j + 1))" using Suc.hyps(2) by simp_all
  have "apart (dst + of_nat j) 1 (phdrs ctx + 56 * of_nat i) 56" using j assms(1,2) by (intro apart_inside [of dst n]) simp_all
  then have "phdr_of (ram ?s) ctx i = phdr_of (ram s) ctx i" unfolding phdr_of_def by (intro phdr_stable) (simp add: one_byte ld_st_apart)
  then have IH: "copy_segment ctx i dst src (j + 1) ?s = copy (dst + of_nat (j + 1)) (src + of_nat (j + 1)) (n - (j + 1)) ?s"
    using Suc.prems j by (intro Suc.hyps(1)) simp_all
  have e: "dst + of_nat (j + 1) = dst + of_nat j + 1" "src + of_nat (j + 1) = src + of_nat j + 1" by simp_all
  have "copy_segment ctx i dst src j s = copy_segment ctx i dst src (j + 1) ?s" using Suc.prems(1) j by (subst copy_segment.simps) simp
  then show ?case unfolding IH j(3) e by (simp add: copy_def)
qed

section \<open>Relocations\<close>

lemma rela_stable: "ld m a 24 = ld m' a 24 \<Longrightarrow> rela_at m a = rela_at m' a"
proof -
  assume e: "ld m a 24 = ld m' a 24"
  have f: "ld m (a + of_nat i) k = ld m' (a + of_nat i) k" if "i + k \<le> 24" for i k
    using ld_inside [OF that, of m a] ld_inside [OF that, of m' a] e by simp
  show ?thesis using f [of 0 8] f [of 8 8] f [of 16 8] by (simp add: rela_at_def ld64_def)
qed

lemma apply_relative:
  assumes "r_info (rela_at (ram s) rel) = 8"
  shows "apply_rela ctx rel syms strs s = Some (ELF_SUCCESS, s\<lparr>ram := st64 (ram s) (r_offset (rela_at (ram s) rel) + load_bias ctx)
    (load_bias ctx + r_addend (rela_at (ram s) rel))\<rparr>)"
proof -
  have "ELF64_R_SYM 8 = 0" "ELF64_R_TYPE 8 = 8" by code_simp+
  then show ?thesis using assms by (simp add: apply_rela_def reloc_symval_def reloc_store_def Let_def)
qed

text \<open>The entry \<open>i\<close> of a table of relocations and the address it relocates.\<close>

definition rela_entry :: "mem \<Rightarrow> u64 \<Rightarrow> nat \<Rightarrow> Elf64_Rela" where
  "rela_entry m rela i = rela_at m (rela + 24 * of_nat i)"

definition rela_ref :: "elf_context \<Rightarrow> mem \<Rightarrow> u64 \<Rightarrow> nat \<Rightarrow> u64" where
  "rela_ref ctx m rela i = r_offset (rela_entry m rela i) + load_bias ctx"

lemma rela_entry_Suc: "rela_entry m (rela + 24) i = rela_entry m rela (Suc i)"
  by (simp add: rela_entry_def algebra_simps)

text \<open>
  C17: A table of relative relocations whose targets do not overlap each other or the table is applied without error:
  every target holds the load bias plus its addend, and nothing else in memory changes.
\<close>

theorem relative_relocations:
  assumes "\<forall>i < n. r_info (rela_entry (ram s) rela i) = 8" "24 * n < 2 ^ 64"
    and "\<forall>i < n. \<forall>j < n. i \<noteq> j \<longrightarrow> apart (rela_ref ctx (ram s) rela i) 8 (rela_ref ctx (ram s) rela j) 8"
    and "\<forall>i < n. apart (rela_ref ctx (ram s) rela i) 8 rela (24 * n)"
  shows "\<exists>s'. elf_apply_rela_relocations ctx rela n syms strs s = Some (ELF_SUCCESS, s') \<and>
    (\<forall>i < n. ld64 (ram s') (rela_ref ctx (ram s) rela i) = load_bias ctx + r_addend (rela_entry (ram s) rela i)) \<and>
    (\<forall>q k. (\<forall>i < n. apart (rela_ref ctx (ram s) rela i) 8 q k) \<longrightarrow> k < 2 ^ 64 \<longrightarrow> ld (ram s') q k = ld (ram s) q k)"
  using assms
proof (induction n arbitrary: rela s)
  case (Suc n)
  let ?E = "rela_entry (ram s) rela" and ?R = "rela_ref ctx (ram s) rela"
  let ?v = "le_enc 8 (load_bias ctx + r_addend (?E 0))"
  define s1 where "s1 = s\<lparr>ram := st64 (ram s) (?R 0) (load_bias ctx + r_addend (?E 0))\<rparr>"
  then have m1: "ram s1 = st (ram s) (?R 0) ?v" by (simp add: st64_def)
  have step: "apply_rela ctx rela syms strs s = Some (ELF_SUCCESS, s1)"
    using apply_relative [of s rela ctx syms strs] Suc.prems(1) [rule_format, of 0] by (simp add: s1_def rela_entry_def rela_ref_def)
  have tab: "apart rela (24 * Suc n) (?R i) 8" if "i < Suc n" for i using Suc.prems(4) that by (simp add: apart_sym)
  have entry: "rela_entry (ram s1) (rela + 24) i = ?E (Suc i)" if "i < n" for i
  proof -
    have "apart (rela + of_nat (24 * Suc i)) 24 (?R 0) 8" using that Suc.prems(2) by (intro apart_inside [OF tab]) simp_all
    then have "ld (ram s1) (rela + 24 * of_nat (Suc i)) 24 = ld (ram s) (rela + 24 * of_nat (Suc i)) 24"
      using ld_st_apart [of "?R 0" ?v "rela + 24 * of_nat (Suc i)" 24 "ram s"] by (simp add: m1 apart_sym)
    then show ?thesis unfolding rela_entry_Suc by (simp only: rela_entry_def) (rule rela_stable)
  qed
  then have ref: "rela_ref ctx (ram s1) (rela + 24) i = ?R (Suc i)" if "i < n" for i using that by (simp add: rela_ref_def)
  have apR: "apart (?R (Suc i)) 8 (rela + 24) (24 * n)" if "i < n" for i
    using apart_inside [OF tab [of "Suc i"], of 24 "24 * n"] that Suc.prems(2) by (simp add: apart_sym)
  have "\<exists>s'. elf_apply_rela_relocations ctx (rela + 24) n syms strs s1 = Some (ELF_SUCCESS, s') \<and>
    (\<forall>i < n. ld64 (ram s') (rela_ref ctx (ram s1) (rela + 24) i) = load_bias ctx + r_addend (rela_entry (ram s1) (rela + 24) i)) \<and>
    (\<forall>q k. (\<forall>i < n. apart (rela_ref ctx (ram s1) (rela + 24) i) 8 q k) \<longrightarrow> k < 2 ^ 64 \<longrightarrow> ld (ram s') q k = ld (ram s1) q k)"
    using Suc.prems apR by (intro Suc.IH) (simp_all add: entry ref)
  then obtain s' where IH: "elf_apply_rela_relocations ctx (rela + 24) n syms strs s1 = Some (ELF_SUCCESS, s')"
    "\<forall>i < n. ld64 (ram s') (?R (Suc i)) = load_bias ctx + r_addend (?E (Suc i))"
    "\<And>q k. (\<forall>i < n. apart (?R (Suc i)) 8 q k) \<Longrightarrow> k < 2 ^ 64 \<Longrightarrow> ld (ram s') q k = ld (ram s1) q k"
    by (auto simp: entry ref)
  have frame: "ld (ram s') q k = ld (ram s) q k" if "\<forall>i < Suc n. apart (?R i) 8 q k" "k < 2 ^ 64" for q k
  proof -
    have "ld (ram s') q k = ld (ram s1) q k" using that by (intro IH(3)) simp_all
    then show ?thesis using ld_st_apart [of "?R 0" ?v q k "ram s"] that by (simp add: m1)
  qed
  have "ld (ram s') (?R 0) 8 = ld (ram s1) (?R 0) 8" using Suc.prems(3) by (intro IH(3)) simp_all
  then have "ld64 (ram s') (?R 0) = ld64 (ram s1) (?R 0)" by (simp only: ld64_def)
  then have first: "ld64 (ram s') (?R 0) = load_bias ctx + r_addend (?E 0)" by (simp add: s1_def)
  have "ld64 (ram s') (?R i) = load_bias ctx + r_addend (?E i)" if "i < Suc n" for i
    using that first IH(2) by (cases i) simp_all
  then show ?case using step IH(1) frame by auto
qed simp

text \<open>Two relocations at 0x2000 that relocate the words at 0x3000 and 0x3010.\<close>

definition reloc_machine :: memory_state where
  "reloc_machine = blank_state\<lparr>ram := st (\<lambda>_. 0) 0x2000
     (le_enc 8 (0x3000 :: u64) @ le_enc 8 (8 :: u64) @ le_enc 8 (0x44 :: u64) @ le_enc 8 (0x3010 :: u64) @ le_enc 8 (8 :: u64) @ le_enc 8 (0x55 :: u64))\<rparr>"

lemma reloc_machine_entries:
  "rela_entry (ram reloc_machine) 0x2000 0 = \<lparr>r_offset = 0x3000, r_info = 8, r_addend = 0x44\<rparr>"
  "rela_entry (ram reloc_machine) 0x2000 (Suc 0) = \<lparr>r_offset = 0x3010, r_info = 8, r_addend = 0x55\<rparr>"
  unfolding reloc_machine_def blank_state_def by code_simp+

theorem relative_relocations_witness:
  "\<exists>s'. elf_apply_rela_relocations (blank_context\<lparr>load_bias := 0x10000\<rparr>) 0x2000 2 0 0 reloc_machine = Some (ELF_SUCCESS, s') \<and>
     ld64 (ram s') 0x13000 = 0x10044 \<and> ld64 (ram s') 0x13010 = 0x10055"
proof -
  let ?c = "blank_context\<lparr>load_bias := 0x10000\<rparr>"
  have two: "(\<forall>i < 2. P i) \<longleftrightarrow> P 0 \<and> P (1 :: nat)" for P by (auto simp: less_2_cases_iff)
  have ref: "rela_ref ?c (ram reloc_machine) 0x2000 0 = 0x13000" "rela_ref ?c (ram reloc_machine) 0x2000 1 = 0x13010"
    by (simp_all add: rela_ref_def reloc_machine_entries)
  have "\<forall>i < 2. r_info (rela_entry (ram reloc_machine) 0x2000 i) = 8"
    "\<forall>i < 2. \<forall>j < 2. i \<noteq> j \<longrightarrow> apart (rela_ref ?c (ram reloc_machine) 0x2000 i) 8 (rela_ref ?c (ram reloc_machine) 0x2000 j) 8"
    "\<forall>i < 2. apart (rela_ref ?c (ram reloc_machine) 0x2000 i) 8 0x2000 (24 * 2)"
    unfolding two ref by (simp_all add: reloc_machine_entries [simplified] apart_def)
  then show ?thesis using relative_relocations [of 2 reloc_machine "0x2000" ?c 0 0] unfolding two ref
    by (auto simp: reloc_machine_entries [simplified])
qed

section \<open>Resolving symbols\<close>

text \<open>What adding a symbol of a table does to the context.\<close>

lemma new_symbol_links:
  assumes "new_symbol addr name_addr known (ctx, s) = Some (ctx', s')"
  shows "ctx' = ctx \<or> (\<exists>name sm at p. (\<forall>x. known = Some x \<longrightarrow> name = x) \<and> ctx' = link_symbol (symbol_of ctx sm name at p) ctx)"
proof -
  obtain e s1 where e: "kmalloc SIZEOF_SYMBOL s = Some (e, s1)" using assms by (auto simp: new_symbol_def bind_eq_Some_conv)
  have "ctx' = ctx \<or> (\<exists>sm at p. ctx' = link_symbol (symbol_of ctx sm name at p) ctx)" if "fill_symbol addr name_addr name e (ctx, s1) = Some (ctx', s')" for name
    using that by (auto simp: fill_symbol_def Let_def bind_eq_Some_conv split: if_splits)
  then show ?thesis using assms e by (cases known) (auto simp: new_symbol_def bind_eq_Some_conv split: if_splits)
qed

lemma resolve_dynsym_keeps:
  assumes "resolve_dynsym i (ctx, s) = Some (ctx', s')" "ctx_ok ctx"
  shows "ctx_ok ctx' \<and> (\<forall>name e. elf_find_symbol ctx name = Some e \<longrightarrow> elf_find_symbol ctx' name = Some e)"
proof -
  have "ctx' = ctx \<or> (\<exists>name addr na. elf_find_symbol ctx name = None \<and> new_symbol addr na (Some name) (ctx, s) = Some (ctx', s'))"
    using assms(1) by (auto simp: resolve_dynsym_def Let_def bind_eq_Some_conv split: if_splits)
  then consider "ctx' = ctx" | name sm at p where "elf_find_symbol ctx name = None" "ctx' = link_symbol (symbol_of ctx sm name at p) ctx"
    using new_symbol_links by (metis option.inject)
  then show ?thesis
  proof cases
    case 2
    then show ?thesis using symbols.add_ok [OF assms(2)] symbols.get_add [OF assms(2)] by (auto simp: symbol_of_def)
  qed (use assms(2) in simp)
qed

lemma resolve_symtab_ok:
  assumes "resolve_symtab i (ctx, s) = Some (ctx', s')" "ctx_ok ctx"
  shows "ctx_ok ctx'"
proof -
  have "ctx' = ctx \<or> (\<exists>addr na. new_symbol addr na None (ctx, s) = Some (ctx', s'))"
    using assms(1) by (auto simp: resolve_symtab_def Let_def bind_eq_Some_conv split: if_splits)
  then show ?thesis using new_symbol_links symbols.add_ok [OF assms(2)] assms(2) by metis
qed

lemma each_invariant:
  assumes "each f xs a = Some b" "P a" "\<And>x a b. f x a = Some b \<Longrightarrow> P a \<Longrightarrow> P b"
  shows "P b"
  using assms(1,2)
proof (induction xs arbitrary: a)
  case (Cons x xs)
  then show ?case using assms(3) by (auto simp: bind_eq_Some_conv)
qed simp

text \<open>
  Resolving the symbols of a file ends without an error code; the symbols of the symbol table come first: what is found under a name after
  the symbol table has been read is still found after the dynamic symbols have been added.
\<close>

theorem symbols_kept:
  assumes "ctx_ok ctx" "elf_resolve_symbols ctx s = Some (r, ctx', s')"
    and "(if symtab ctx \<noteq> 0 \<and> strtab ctx \<noteq> 0 then each resolve_symtab [0..<unat (symtab_count ctx)] (ctx, s) else Some (ctx, s)) = Some (ctx1, s1)"
    and "elf_find_symbol ctx1 name = Some e"
  shows "r = ELF_SUCCESS \<and> elf_find_symbol ctx' name = Some e \<and> elf_get_symbol_value ctx' name = sy_value e"
proof -
  have ok1: "ctx_ok ctx1"
    using assms(1,3) each_invariant [of resolve_symtab _ "(ctx, s)" "(ctx1, s1)" "\<lambda>(c, _). ctx_ok c"] resolve_symtab_ok by (auto split: if_splits)
  have last: "(if dynsym ctx1 \<noteq> 0 \<and> dynstr ctx1 \<noteq> 0 then each resolve_dynsym [0..<unat (dynsym_count ctx1)] (ctx1, s1) else Some (ctx1, s1)) = Some (ctx', s')"
    and r: "r = ELF_SUCCESS" using assms(2,3) by (auto simp: elf_resolve_symbols_def bind_eq_Some_conv)
  let ?P = "\<lambda>(c, _). ctx_ok c \<and> elf_find_symbol c name = Some e"
  have "?P (ctx', s')"
    using last ok1 assms(4) each_invariant [of resolve_dynsym _ "(ctx1, s1)" "(ctx', s')" ?P] resolve_dynsym_keeps by (auto split: if_splits)
  then show ?thesis using r by (simp add: elf_get_symbol_value_def)
qed

section \<open>Validation\<close>

text \<open>
  Validation does not look at where the headers lie: whatever offset of the program headers, offset of the section headers or entry
  point is put into a file that is accepted, the file is accepted.
\<close>

theorem validate_ignores_offsets:
  "elf_validate (st m (data + 24) (le_enc 8 (x :: u64) @ le_enc 8 (y :: u64) @ le_enc 8 (z :: u64))) data sz = elf_validate m data sz"
proof -
  let ?bs = "le_enc 8 x @ le_enc 8 y @ le_enc 8 z"
  let ?m = "st m (data + 24) ?bs"
  have low: "ld ?m (data + of_nat i) k = ld m (data + of_nat i) k" if "i + k \<le> 24" "0 < k" for i k
    using apart_offsets [of k i 24 24 data] that by (intro ld_st_apart) simp_all
  have high: "ld ?m (data + of_nat i) k = ld m (data + of_nat i) k" if "48 \<le> i" "i + k \<le> 64" "0 < k" for i k
    using apart_offsets [of 24 24 i k data] that by (intro ld_st_apart) simp_all
  show ?thesis
    using low [of 0 16] low [of 16 2] low [of 18 2] high [of 52 2] high [of 54 2] high [of 56 2] high [of 58 2] high [of 60 2]
    by (simp add: elf_validate_def Let_def ehdr_at_def ld16_def)
qed

end
