(* ===== verification/Elf_Run.thy ===== *)
theory Elf_Run
  imports Elf VFS Sched
begin

unbundle bit_operations_syntax

text \<open>
  ELF files and the rest of the kernel: writing an assembled program as an ELF file (\<open>create_elf_from_asm\<close>
  of \<open>Shell/shell.c\<close>) and reading, loading and preparing one for execution (\<open>elf/elf_test.c\<close>), over the virtual file
  system, the assembler, the loader and the scheduler.
\<close>

section \<open>The image of an assembled program\<close>

text \<open>The fields that are stored, with their offsets; the rest of the headers is zero.\<close>

definition ehdr_fields :: "(nat \<times> bytes) list" where
  "ehdr_fields = [(0, [0x7F]), (1, [0x45]), (2, [0x4C]), (3, [0x46]), (4, [2]), (5, [1]), (6, [1]),
     (16, le_enc 2 ET_EXEC), (18, le_enc 2 EM_X86_64), (20, le_enc 4 (1 :: u32)), (24, le_enc 8 (0x400000 :: u64)),
     (32, le_enc 8 (64 :: u64)), (52, le_enc 2 (64 :: u16)), (54, le_enc 2 (56 :: u16)), (56, le_enc 2 (1 :: u16))]"

definition phdr_fields :: "u64 \<Rightarrow> (nat \<times> bytes) list" where
  "phdr_fields code_size = [(64, le_enc 4 (1 :: u32)), (68, le_enc 4 (5 :: u32)), (72, le_enc 8 (120 :: u64)), (80, le_enc 8 (0x400000 :: u64)),
     (88, le_enc 8 (0x400000 :: u64)), (96, le_enc 8 code_size), (104, le_enc 8 code_size), (112, le_enc 8 (0x1000 :: u64))]"

definition store_fields :: "u64 \<Rightarrow> (nat \<times> bytes) list \<Rightarrow> mem \<Rightarrow> mem" where
  "store_fields p fs m = fold (\<lambda>(i, bs) m. st m (p + of_nat i) bs) fs m"

definition write_image :: "u64 \<Rightarrow> bytes \<Rightarrow> mem \<Rightarrow> mem" where
  "write_image elf code m =
     (let m = mmset_loop (120 + length code) elf 0 m
      in st (store_fields elf (phdr_fields (of_nat (length code))) (store_fields elf ehdr_fields m)) (elf + 120) code)"

definition save_image :: "bytes \<Rightarrow> bytes \<Rightarrow> ('s, 'd) vfs \<Rightarrow> ('s, 'd) vfs option" where
  "save_image path img v = do {
     (fd, v) \<leftarrow> vfs_open (Some path) FILE_WRITE v;
     (fd, v) \<leftarrow> (if fd < 0 then do {
                     (_, v) \<leftarrow> vfs_create (Some path) (FILE_READ OR FILE_WRITE) v;
                     vfs_open (Some path) FILE_WRITE v }
                   else Some (fd, v));
     if fd \<ge> 0 then do {
       (_, v) \<leftarrow> vfs_write fd img v;
       (_, v) \<leftarrow> vfs_close fd v;
       Some v }
     else Some v }"

text \<open>
  The assembler context is a local variable; \<open>junk\<close> is what it holds before it is initialised. A path that does not fit
  into \<open>fullpath[256]\<close> is \<open>None\<close>.
\<close>

definition create_elf_from_asm :: "asm_context \<Rightarrow> bytes \<Rightarrow> bytes \<Rightarrow> ('s, 'd) vfs \<times> memory_state \<Rightarrow> (('s, 'd) vfs \<times> memory_state) option" where
  "create_elf_from_asm junk output_path asm_src vs =
     (let (v, s) = vs; (r, ctx) = asm_program asm_src (asm_init junk) in
      if r < 0 then Some (v, s)
      else case asm_get_code ctx of
        None \<Rightarrow> Some (v, s)
      | Some code \<Rightarrow>
          if code = [] then Some (v, s)
          else do {
            (elf, s) \<leftarrow> kmalloc (of_nat (120 + length code)) s;
            if elf = 0 then Some (v, s)
            else do {
              let s = s\<lparr>ram := write_image elf code (ram s)\<rparr>;
              fullpath \<leftarrow> (if output_path \<noteq> [] \<and> hd output_path = 47
                            then (if length output_path < 256 then Some output_path else None)
                            else full_path (vfs_get_cwd_path v) output_path);
              v \<leftarrow> save_image fullpath (ld (ram s) elf (120 + length code)) v;
              s \<leftarrow> kfree elf s;
              Some (v, s) }})"

section \<open>Reading a file\<close>

text \<open>
  The file is opened, its node looked up, a buffer of its size allocated and the file read into it. The result is the
  buffer, the size of the file and the number of bytes read, or none when one of the steps fails.
\<close>

definition read_elf :: "bytes \<Rightarrow> ('s, 'd) vfs \<times> memory_state \<Rightarrow> ((u64 \<times> u32 \<times> int) option \<times> ('s, 'd) vfs \<times> memory_state) option" where
  "read_elf path vs = (let (v, s) = vs in do {
     (fd, v) \<leftarrow> vfs_open (Some path) FILE_READ v;
     if fd < 0 then Some (None, v, s)
     else do {
       (node, v) \<leftarrow> vfs_resolve_path (Some path) v;
       case node of
         None \<Rightarrow> do { (_, v) \<leftarrow> vfs_close fd v; Some (None, v, s) }
       | Some p \<Rightarrow> do {
           let file_size = n_size (fst (vnodes v ! p));
           (elf_buffer, s) \<leftarrow> kmalloc (ucast file_size) s;
           if elf_buffer = 0 then do { (_, v) \<leftarrow> vfs_close fd v; Some (None, v, s) }
           else do {
             (bytes_read, buffer, v) \<leftarrow> vfs_read fd (ld (ram s) elf_buffer (unat file_size)) file_size v;
             let s = s\<lparr>ram := st (ram s) elf_buffer buffer\<rparr>;
             (_, v) \<leftarrow> vfs_close fd v;
             Some (Some (elf_buffer, file_size, bytes_read), v, s) }}}})"

section \<open>The stack of a program\<close>

definition st_words :: "u64 \<Rightarrow> u64 list \<Rightarrow> mem \<Rightarrow> mem" where
  "st_words p ws m = fold (\<lambda>(i, w) m. st64 m (p + 8 * of_nat i) w) (zip [0..<length ws] ws) m"

definition auxv_words :: "elf_load_info \<Rightarrow> u64 list" where
  "auxv_words info =
     [3, phdr_addr info, 4, phdr_entsize info, 5, phdr_count info, 6, 4096, 7, interp_base info, 9, entry_point info,
      11, 0, 12, 0, 13, 0, 14, 0, 23, 0, 17, 1000, 0, 0]"

definition setup_auxv :: "u64 \<Rightarrow> elf_load_info \<Rightarrow> mem \<Rightarrow> mem" where
  "setup_auxv stack_ptr info m = st_words stack_ptr (auxv_words info) m"

text \<open>The layout below the top of the stack, and the stack pointer that is returned.\<close>

definition stack_words :: "u64 \<Rightarrow> u64 list \<Rightarrow> u64 list \<Rightarrow> elf_load_info \<Rightarrow> mem \<Rightarrow> u64 \<times> mem" where
  "stack_words stack_top argv envp info m =
     (let sp = stack_top AND NOT 0xF;
          sp = sp - 256;
          auxv_ptr = sp;
          sp = sp - 8 * (of_nat (length envp) + 1);
          m = st64 (st_words sp envp m) (sp + 8 * of_nat (length envp)) 0;
          sp = sp - 8 * (of_nat (length argv) + 1);
          m = st64 (st_words sp argv m) (sp + 8 * of_nat (length argv)) 0;
          sp = sp - 8;
          m = st64 m sp (of_nat (length argv));
          m = setup_auxv auxv_ptr info m
      in (sp AND NOT 0xF, m))"

definition setup_user_stack :: "u64 list \<Rightarrow> u64 list \<Rightarrow> elf_load_info \<Rightarrow> memory_state \<Rightarrow> (u64 \<times> memory_state) option" where
  "setup_user_stack argv envp info s = do {
     (stack_base, s) \<leftarrow> kmalloc (2 * 1024 * 1024) s;
     if stack_base = 0 then Some (0, s)
     else (case stack_words (stack_base + 2 * 1024 * 1024) argv envp info (ram s) of (sp, m) \<Rightarrow> Some (sp, s\<lparr>ram := m\<rparr>)) }"

text \<open>An argument vector: the pointers before the first null pointer, none for a null vector.\<close>

definition arg_vector :: "u64 list option \<Rightarrow> u64 list" where
  "arg_vector v = (case v of None \<Rightarrow> [] | Some ps \<Rightarrow> takeWhile (\<lambda>p. p \<noteq> 0) ps)"

section \<open>Commands\<close>

definition drop_file :: "u64 \<Rightarrow> 'r \<Rightarrow> ('s, 'd) vfs \<Rightarrow> memory_state \<Rightarrow> ('r \<times> ('s, 'd) vfs \<times> memory_state) option" where
  "drop_file elf_buffer r v s = do { s \<leftarrow> kfree elf_buffer s; Some (r, v, s) }"

definition elf_exec_file :: "bytes \<Rightarrow> u64 list option \<Rightarrow> u64 list option \<Rightarrow> ('s, 'd) vfs \<times> memory_state \<Rightarrow> (int \<times> ('s, 'd) vfs \<times> memory_state) option" where
  "elf_exec_file path argv envp vs = do {
     (file, v, s) \<leftarrow> read_elf path vs;
     case file of
       None \<Rightarrow> Some (-1, v, s)
     | Some (elf_buffer, file_size, bytes_read) \<Rightarrow>
         if bytes_read \<noteq> sint file_size then drop_file elf_buffer (-1) v s
         else do {
           (result, info, s) \<leftarrow> elf_load elf_buffer (ucast file_size) blank_info s;
           if result \<noteq> ELF_SUCCESS then drop_file elf_buffer (-1) v s
           else do {
             (ctx, s) \<leftarrow> elf_create_context elf_buffer (ucast file_size) s;
             case ctx of
               None \<Rightarrow> drop_file elf_buffer (-1) v s
             | Some ctx \<Rightarrow> do {
                 (user_sp, s) \<leftarrow> setup_user_stack (arg_vector argv) (arg_vector envp) info s;
                 s \<leftarrow> elf_destroy_context ctx s;
                 drop_file elf_buffer (if user_sp = 0 then -1 else 0) v s }}}}"

text \<open>The header, the tables and the symbols are printed between the calls that change the state.\<close>

definition elf_info :: "bytes \<Rightarrow> ('s, 'd) vfs \<times> memory_state \<Rightarrow> (int \<times> ('s, 'd) vfs \<times> memory_state) option" where
  "elf_info path vs = do {
     (file, v, s) \<leftarrow> read_elf path vs;
     case file of
       None \<Rightarrow> Some (-1, v, s)
     | Some (elf_buffer, file_size, _) \<Rightarrow>
         if elf_validate (ram s) elf_buffer (ucast file_size) \<noteq> ELF_SUCCESS then drop_file elf_buffer (-1) v s
         else do {
           (ctx, s) \<leftarrow> elf_create_context elf_buffer (ucast file_size) s;
           case ctx of
             None \<Rightarrow> drop_file elf_buffer (-1) v s
           | Some ctx \<Rightarrow> do {
               (_, ctx, s) \<leftarrow> elf_resolve_symbols ctx s;
               s \<leftarrow> elf_destroy_context ctx s;
               drop_file elf_buffer 0 v s }}}"

text \<open>The path of the argument of a command, built in \<open>fullpath[256]\<close>.\<close>

definition command_path :: "bytes \<Rightarrow> bytes \<Rightarrow> bytes" where
  "command_path cwd args =
     (if args \<noteq> [] \<and> hd args = 47 then take 255 args
      else let p = take 254 cwd;
               p = (if p \<noteq> [] \<and> last p \<noteq> 47 then p @ [47] else p)
           in p @ take (255 - length p) args)"

definition shell_command_elfload :: "bytes \<Rightarrow> ('s, 'd) vfs \<times> memory_state \<Rightarrow> (('s, 'd) vfs \<times> memory_state) option" where
  "shell_command_elfload args vs =
     (let args = dropWhile (\<lambda>c. c = 32) args in
      if args = [] then Some vs
      else do {
        (file, v, s) \<leftarrow> read_elf (command_path (vfs_get_cwd_path (fst vs)) args) vs;
        case file of
          None \<Rightarrow> Some (v, s)
        | Some (elf_buffer, file_size, bytes_read) \<Rightarrow>
            if bytes_read \<noteq> sint file_size then do { s \<leftarrow> kfree elf_buffer s; Some (v, s) }
            else do {
              (result, info, s) \<leftarrow> elf_load elf_buffer (ucast file_size) blank_info s;
              if result \<noteq> ELF_SUCCESS then do { s \<leftarrow> kfree elf_buffer s; Some (v, s) } else Some (v, s) }})"

definition shell_command_elfinfo :: "bytes \<Rightarrow> ('s, 'd) vfs \<times> memory_state \<Rightarrow> (('s, 'd) vfs \<times> memory_state) option" where
  "shell_command_elfinfo args vs =
     (let args = dropWhile (\<lambda>c. c = 32) args in
      if args = [] then Some vs
      else do {
        (file, v, s) \<leftarrow> read_elf (command_path (vfs_get_cwd_path (fst vs)) args) vs;
        case file of
          None \<Rightarrow> Some (v, s)
        | Some (elf_buffer, file_size, bytes_read) \<Rightarrow>
            if bytes_read \<noteq> sint file_size \<or> elf_validate (ram s) elf_buffer (ucast file_size) \<noteq> ELF_SUCCESS
            then do { s \<leftarrow> kfree elf_buffer s; Some (v, s) }
            else do {
              (ctx, s) \<leftarrow> elf_create_context elf_buffer (ucast file_size) s;
              case ctx of
                None \<Rightarrow> do { s \<leftarrow> kfree elf_buffer s; Some (v, s) }
              | Some ctx \<Rightarrow> do {
                  (_, ctx, s) \<leftarrow> elf_resolve_symbols ctx s;
                  s \<leftarrow> elf_destroy_context ctx s;
                  s \<leftarrow> kfree elf_buffer s;
                  Some (v, s) }}})"

text \<open>
  A process with one thread at the entry point; \<open>wrapper\<close> and \<open>irqs\<close> are those of thread creation. The info structure is a
  local variable that \<open>elf_load\<close> clears.
\<close>

definition process_create_from_elf :: "u64 \<Rightarrow> (sched \<Rightarrow> sched) list \<Rightarrow> bytes \<Rightarrow> bytes \<Rightarrow> ('s, 'd) vfs \<times> sched \<Rightarrow> (int \<times> control \<times> ('s, 'd) vfs \<times> sched) option" where
  "process_create_from_elf wrapper irqs path name vk = (let (v, k) = vk in do {
     (file, v, s) \<leftarrow> read_elf path (v, kmem k);
     case file of
       None \<Rightarrow> Some (-1, Stay, v, k\<lparr>kmem := s\<rparr>)
     | Some (elf_buffer, file_size, _) \<Rightarrow> do {
         (result, info, s) \<leftarrow> elf_load elf_buffer (ucast file_size) blank_info s;
         if result \<noteq> ELF_SUCCESS then do { s \<leftarrow> kfree elf_buffer s; Some (-1, Stay, v, k\<lparr>kmem := s\<rparr>) }
         else do {
           let (pid, k) = process_create name (base_addr info) (k\<lparr>kmem := s\<rparr>);
           if pid < 0 then do { s \<leftarrow> kfree elf_buffer (kmem k); Some (-1, Stay, v, k\<lparr>kmem := s\<rparr>) }
           else do {
             (tid, c, k) \<leftarrow> thread_create wrapper irqs (of_int pid) (entry_point info) 65536 10000000 1000000000 1000000000 k;
             if tid < 0 then do { s \<leftarrow> kfree elf_buffer (kmem k); Some (-1, c, v, k\<lparr>kmem := s\<rparr>) }
             else Some (pid, c, v, k) }}}})"

end
