(* ===== verification/Elf_Run_Props.thy ===== *)
theory Elf_Run_Props
  imports Elf_Props Elf_Run
begin

unbundle bit_operations_syntax

text \<open>
  Assembled programs as ELF files: the file that the assembler writes is valid and its code is loaded; the stack of a
  program; and where the loader puts what it loads.
\<close>

section \<open>The image\<close>

lemma put_at_app: "i + length bs \<le> length xs \<Longrightarrow> put_at i bs (xs @ ys) = put_at i bs xs @ ys"
  by (simp add: put_at_def)

lemma ld_st_put:
  assumes "i + length bs \<le> n" "n < 2 ^ 64"
  shows "ld (st m (p + of_nat i) bs) p n = put_at i bs (ld m p n)"
proof (rule nth_equalityI)
  show "length (ld (st m (p + of_nat i) bs) p n) = length (put_at i bs (ld m p n))" using assms by simp
  fix k
  assume "k < length (ld (st m (p + of_nat i) bs) p n)"
  then have k: "k < n" by simp
  have d: "p + of_nat k - (p + of_nat i) = (of_nat k - of_nat i :: u64)" by simp
  have "unat (of_nat k - of_nat i :: u64) = (if i \<le> k then k - i else 2 ^ 64 - (i - k))"
    using k assms unat_of_nat_lt [of k] unat_of_nat_lt [of i] unat_sub_if' [of "of_nat k :: u64" "of_nat i"]
    by (auto simp: word_le_nat_alt)
  then show "ld (st m (p + of_nat i) bs) p n ! k = put_at i bs (ld m p n) ! k"
    using k assms by (auto simp: ld_nth st_def nth_put_at d simp del: of_nat_diff)
qed

lemma ld_store_fields:
  assumes "\<forall>(i, bs) \<in> set fs. i + length bs \<le> n" "n < 2 ^ 64"
  shows "ld (store_fields p fs m) p n = fold (\<lambda>(i, bs) xs. put_at i bs xs) fs (ld m p n)"
  using assms
proof (induction fs arbitrary: m)
  case (Cons f fs)
  then show ?case by (cases f) (simp add: store_fields_def ld_st_put)
qed (simp add: store_fields_def)

definition elf_header :: "u64 \<Rightarrow> bytes" where
  "elf_header n =
     [0x7F, 0x45, 0x4C, 0x46, 2, 1, 1] @ replicate 9 0 @ le_enc 2 ET_EXEC @ le_enc 2 EM_X86_64 @ le_enc 4 (1 :: u32) @
     le_enc 8 (0x400000 :: u64) @ le_enc 8 (64 :: u64) @ replicate 8 0 @ replicate 4 0 @ le_enc 2 (64 :: u16) @ le_enc 2 (56 :: u16) @
     le_enc 2 (1 :: u16) @ replicate 6 0 @
     le_enc 4 (1 :: u32) @ le_enc 4 (5 :: u32) @ le_enc 8 (120 :: u64) @ le_enc 8 (0x400000 :: u64) @ le_enc 8 (0x400000 :: u64) @
     le_enc 8 n @ le_enc 8 n @ le_enc 8 (0x1000 :: u64)"

lemma length_elf_header: "length (elf_header n) = 120"
  by (simp add: elf_header_def)

lemma fold_put_app:
  assumes "\<forall>(i, bs) \<in> set fs. i + length bs \<le> length xs"
  shows "fold (\<lambda>(i, bs) xs. put_at i bs xs) fs (xs @ ys) = fold (\<lambda>(i, bs) xs. put_at i bs xs) fs xs @ ys"
  using assms
proof (induction fs arbitrary: xs)
  case (Cons f fs)
  then show ?case by (cases f) (simp add: put_at_app)
qed simp

lemma header_fields:
  "fold (\<lambda>(i, bs) xs. put_at i bs xs) (phdr_fields n) (fold (\<lambda>(i, bs) xs. put_at i bs xs) ehdr_fields (replicate 120 0)) = elf_header n"
proof -
  let ?put = "\<lambda>(i, bs) xs. put_at i bs (xs :: bytes)" and ?e = "ehdr_fields @ take 5 (phdr_fields n)"
  have r: "replicate 120 (0 :: u8) = replicate 96 0 @ replicate 24 0" by (simp add: replicate_add [symmetric])
  have e: "fold ?put ?e (replicate 96 0) = take 96 (elf_header 0)"
    unfolding phdr_fields_def by simp code_simp
  have in96: "\<forall>(i, bs) \<in> set ?e. i + length bs \<le> length (replicate 96 (0 :: u8))" by (simp add: ehdr_fields_def phdr_fields_def)
  have p: "phdr_fields n = take 5 (phdr_fields n) @ [(96, le_enc 8 n), (104, le_enc 8 n), (112, le_enc 8 (0x1000 :: u64))]"
    by (simp add: phdr_fields_def)
  have l: "length (take 96 (elf_header 0)) = 96" by (simp add: length_elf_header)
  have tail: "put_at 112 cs (put_at 104 bs (put_at 96 as (xs @ replicate 24 0))) = xs @ as @ bs @ cs"
    if "length xs = 96" "length as = 8" "length bs = 8" "length cs = 8" for xs as bs cs :: bytes
    using that by (simp add: put_at_def replicate_add [symmetric])
  have "fold ?put (phdr_fields n) (fold ?put ehdr_fields (replicate 120 0)) =
      fold ?put [(96, le_enc 8 n), (104, le_enc 8 n), (112, le_enc 8 (0x1000 :: u64))] (fold ?put ?e (replicate 120 0))"
    by (subst p) simp
  also have "\<dots> = take 96 (elf_header 0) @ le_enc 8 n @ le_enc 8 n @ le_enc 8 (0x1000 :: u64)"
    unfolding r fold_put_app [OF in96] e by (simp add: tail [OF l])
  also have "\<dots> = elf_header n" by (simp add: elf_header_def)
  finally show ?thesis .
qed

text \<open>What the image holds.\<close>

lemma write_image_ld:
  assumes "120 + length code < 2 ^ 64"
  shows "ld (write_image p code m) p (120 + length code) = elf_header (of_nat (length code)) @ code"
proof -
  let ?put = "\<lambda>(i, bs) xs. put_at i bs (xs :: bytes)" and ?n = "120 + length code"
  let ?m = "store_fields p (phdr_fields (of_nat (length code))) (store_fields p ehdr_fields (mmset_loop ?n p 0 m))"
  have f: "\<forall>(i, bs) \<in> set ehdr_fields. i + length bs \<le> ?n" "\<forall>(i, bs) \<in> set (phdr_fields k). i + length bs \<le> ?n"
    "\<forall>(i, bs) \<in> set ehdr_fields. i + length bs \<le> length (replicate 120 (0 :: u8))"
    "\<forall>(i, bs) \<in> set (phdr_fields k). i + length bs \<le> length (fold ?put ehdr_fields (replicate 120 (0 :: u8)))" for k
    by (simp_all add: ehdr_fields_def phdr_fields_def)
  have z: "ld (mmset_loop ?n p 0 m) p ?n = replicate 120 0 @ replicate (length code) 0"
    using ld_st_same [of "replicate ?n 0" m p] assms by (simp add: mmset_loop_st replicate_add)
  have "ld ?m p ?n = elf_header (of_nat (length code)) @ replicate (length code) 0"
    unfolding ld_store_fields [OF f(2) assms] ld_store_fields [OF f(1) assms] z fold_put_app [OF f(3)] fold_put_app [OF f(4)] header_fields ..
  then have "put_at 120 code (ld ?m p ?n) = elf_header (of_nat (length code)) @ code"
    by (simp add: put_at_def length_elf_header)
  then show ?thesis using ld_st_put [of 120 code ?n ?m p] assms by (simp add: write_image_def Let_def)
qed

lemma segment_take: "i + k \<le> j \<Longrightarrow> segment i k (take j xs) = segment i k xs"
  by (simp add: segment_def drop_take min_def)

lemma image_segment:
  assumes "ld m a (120 + length code) = elf_header n @ code" "i + k \<le> 120"
  shows "ld m (a + of_nat i) k = segment i k (elf_header n)"
  using ld_inside [of i k "120 + length code" m a] assms by (simp add: segment_app1 length_elf_header)

lemma image_ehdr:
  assumes "ld m a (120 + length code) = elf_header n @ code"
  shows "ehdr_at m a = \<lparr>e_ident = [0x7F, 0x45, 0x4C, 0x46, 2, 1, 1] @ replicate 9 0, e_type = ET_EXEC, e_machine = EM_X86_64, e_version = 1,
    e_entry = 0x400000, e_phoff = 64, e_shoff = 0, e_flags = 0, e_ehsize = 64, e_phentsize = 56, e_phnum = 1, e_shentsize = 0, e_shnum = 0, e_shstrndx = 0\<rparr>"
proof -
  note f = image_segment [OF assms]
  have z: "segment i k (elf_header n) = segment i k (take 96 (elf_header 0))" if "i + k \<le> 96" for i k
  proof -
    have "take 96 (elf_header n) = take 96 (elf_header 0)" by (simp add: elf_header_def)
    then show ?thesis using segment_take [OF that] by metis
  qed
  show ?thesis
    using f [of 0 16] f [of 16 2] f [of 18 2] f [of 20 4] f [of 24 8] f [of 32 8] f [of 40 8] f [of 48 4] f [of 52 2] f [of 54 2]
      f [of 56 2] f [of 58 2] f [of 60 2] f [of 62 2]
    unfolding ehdr_at_def ld16_def ld32_def ld64_def
    by (simp add: z) code_simp
qed

lemma image_phdr:
  assumes "ld m a (120 + length code) = elf_header n @ code"
  shows "phdr_at m (a + 64) = \<lparr>p_type = 1, p_flags = 5, p_offset = 120, p_vaddr = 0x400000, p_paddr = 0x400000, p_filesz = n, p_memsz = n, p_align = 0x1000\<rparr>"
proof -
  note f = image_segment [OF assms]
  have e: "a + 64 + 4 = a + 68" "a + 64 + 8 = a + 72" "a + 64 + 16 = a + 80" "a + 64 + 24 = a + 88" "a + 64 + 32 = a + 96" "a + 64 + 40 = a + 104" "a + 64 + 48 = a + 112"
    by simp_all
  have g: "segment 64 4 (elf_header n) = le_enc 4 (1 :: u32)" "segment 68 4 (elf_header n) = le_enc 4 (5 :: u32)" "segment 72 8 (elf_header n) = le_enc 8 (120 :: u64)"
    "segment 80 8 (elf_header n) = le_enc 8 (0x400000 :: u64)" "segment 88 8 (elf_header n) = le_enc 8 (0x400000 :: u64)"
    "segment 96 8 (elf_header n) = le_enc 8 n" "segment 104 8 (elf_header n) = le_enc 8 n" "segment 112 8 (elf_header n) = le_enc 8 (0x1000 :: u64)"
    by (simp_all add: elf_header_def segment_def)
  show ?thesis
    using f [of 64 4] f [of 68 4] f [of 72 8] f [of 80 8] f [of 88 8] f [of 96 8] f [of 104 8] f [of 112 8]
    unfolding phdr_at_def ld32_def ld64_def e by (simp add: g)
qed

section \<open>Loading an assembled program\<close>

lemma one_page:
  assumes "0 < n" "n \<le> 4096"
  shows "align_down 0x400000 4096 = 0x400000" "align_up (of_nat n) 4096 = 4096"
proof -
  show "align_down 0x400000 4096 = 0x400000" by (simp add: align_down_def)
  have f: "NOT (4096 - 1) = (push_bit 12 (mask 52) :: u64)" by (simp add: mask_eq_decr_exp)
  have m: "(of_nat n + 4096 - 1 :: u64) = of_nat (n + 4095)" by simp
  have u: "unat (of_nat (n + 4095) :: u64) = n + 4095" using assms by (intro unat_of_nat_lt) simp
  have "(n + 4095) div 4096 = 1" using assms by (simp add: div_nat_eqI)
  moreover have "unat (drop_bit 12 (of_nat (n + 4095) :: u64)) = (n + 4095) div 4096"
    by (simp only: drop_bit_eq_div unat_div u) simp
  ultimately have "unat (drop_bit 12 (of_nat (n + 4095) :: u64)) = unat (1 :: u64)" by (simp only: unsigned_1)
  then have d: "drop_bit 12 (of_nat (n + 4095) :: u64) = 1" by (simp only: word_unat_eq_iff)
  have "align_up (of_nat n) 4096 = push_bit 12 (drop_bit 12 (of_nat (n + 4095) :: u64))"
    unfolding align_up_def f m by (rule bit_word_eqI) (auto simp: bit_simps)
  then show "align_up (of_nat n) 4096 = 4096" unfolding d by simp
qed

lemma pmm_list_outside:
  assumes "pmm_list s ps" "\<forall>q \<in> set ps. apart p 4096 q 4096" "length bs \<le> 4096"
  shows "pmm_list (s\<lparr>ram := st (ram s) p bs\<rparr>) ps"
proof -
  have "ld64 (st (ram s) p bs) q = ld64 (ram s) q" if "q \<in> set ps" for q
    using apart_mono [of p 4096 q 4096 "length bs" 8] assms(2,3) that by (intro ld64_st_apart) simp
  then show ?thesis using assms(1) chain_cong [of ps "ld64 (st (ram s) p bs)" "ld64 (ram s)"] by (simp add: pmm_list_def)
qed

text \<open>A one-page mapping clears a page from the free list.\<close>

lemma map_one_page:
  assumes "pmm_list s (page # ps)" "0 < n" "n \<le> 4096"
  shows "\<exists>s'. elf_map_memory 0x400000 (of_nat n) s = (page, s') \<and> page \<noteq> 0 \<and> pmm_list s' ps \<and> ram s' = st (ram s) page (replicate 4096 0)"
proof -
  obtain s1 where a: "pmm_alloc_page s = (page, s1)" "page \<noteq> 0" "pmm_list s1 ps" using pmm_alloc_page_Cons [OF assms(1)] by blast
  have r: "ram s1 = st (ram s) page (replicate 4096 0)" using a by (auto simp: pmm_alloc_page_def Let_def split: if_splits)
  have twice: "st (st m page (replicate 4096 0)) page (replicate 4096 0) = st m page (replicate 4096 0)" for m by (rule ext) (simp add: st_def)
  have "st (ram s1) page (replicate 4096 0) = ram s1" unfolding r by (rule twice)
  then have "pmm_list (s1\<lparr>ram := st (ram s1) page (replicate 4096 0)\<rparr>) ps" using a(3) by (simp add: pmm_list_def)
  moreover have "elf_map_memory 0x400000 (of_nat n) s = (page, s1\<lparr>ram := st (ram s1) page (replicate 4096 0)\<rparr>)"
    using a by (simp add: elf_map_memory_def one_page [OF assms(2,3)] pmm_alloc_pages_def clear_def mmset_loop_st)
  ultimately show ?thesis using a(2) by (simp add: r twice)
qed

lemma load_image_segment:
  assumes "pmm_list s (page # ps)" "0 < length code" "length code \<le> 4096"
    and "ld (ram s) (elf_data ctx) (120 + length code) = elf_header (of_nat (length code)) @ code"
    and "phdrs ctx = elf_data ctx + 64" "load_bias ctx = 0" "apart page 4096 (elf_data ctx) (120 + length code)"
  shows "\<exists>s'. load_segment ctx 0 s = (True, s') \<and> pmm_list s' ps \<and> ld (ram s') page (length code) = code \<and>
    ld (ram s') (elf_data ctx) (120 + length code) = elf_header (of_nat (length code)) @ code \<and>
    (\<forall>q k. apart page 4096 q k \<longrightarrow> k < 2 ^ 64 \<longrightarrow> ld (ram s') q k = ld (ram s) q k)"
proof -
  let ?n = "length code" and ?d = "elf_data ctx"
  obtain s1 where m: "elf_map_memory 0x400000 (of_nat ?n) s = (page, s1)" "page \<noteq> 0" "pmm_list s1 ps" "ram s1 = st (ram s) page (replicate 4096 0)"
    using map_one_page [OF assms(1-3)] by blast
  have ap: "apart page 4096 ?d (120 + ?n)" by (rule assms(7))
  have img: "ld (ram s1) ?d (120 + ?n) = elf_header (of_nat ?n) @ code"
    unfolding m(4) using assms(3) by (subst ld_st_apart) (use ap assms(4) in simp_all)
  have u: "unat (of_nat ?n :: u64) = ?n" using assms(3) by (intro unat_of_nat_lt) simp
  have pos: "(0 :: u64) < of_nat ?n" using u assms(2) by (simp add: word_less_nat_alt del: unsigned_of_nat)
  note ph = image_phdr [OF img] image_phdr [OF assms(4)]
  have fz: "unat (p_filesz (phdr_of (ram s1) ctx 0)) = ?n" by (simp add: phdr_of_def assms(5) ph u)
  have src: "ld (ram s1) (?d + 120) ?n = code" using ld_inside [of 120 ?n "120 + ?n" "ram s1" ?d] img by (simp add: segment_def length_elf_header)
  have dsub: "apart ?d (120 + ?n) page ?n" using ap assms(3) by (subst apart_sym) (rule apart_mono, assumption, simp_all)
  have a1: "apart page ?n (?d + 64) 56" using apart_inside [OF dsub, of 64 56] assms(3) by (subst apart_sym) simp
  have a2: "apart page ?n (?d + 120) ?n" using apart_inside [OF dsub, of 120 ?n] assms(2,3) by (subst apart_sym) simp
  have "copy_segment ctx 0 page (?d + 120) 0 s1 = copy page (?d + 120) ?n s1"
    using copy_segment_copy [of page ?n ctx 0 s1 0 "?d + 120"] a1 fz assms(3,5) by simp
  also have "\<dots> = s1\<lparr>ram := st (ram s1) page code\<rparr>" using a2 assms(3) src by (simp add: copy_def mmcpy_loop_st)
  finally have c: "copy_segment ctx 0 page (?d + 120) 0 s1 = s1\<lparr>ram := st (ram s1) page code\<rparr>" .
  let ?s = "s1\<lparr>ram := st (ram s1) page code\<rparr>"
  have img': "ld (ram ?s) ?d (120 + ?n) = elf_header (of_nat ?n) @ code"
    using ld_st_apart [of page code ?d "120 + ?n" "ram s1"] dsub assms(3) img by (simp add: apart_sym)
  have "load_segment ctx 0 s = (True, ?s)"
    using assms(2,3,5,6) u pos by (simp add: load_segment_def Let_def phdr_of_def ph m(1,2) one_page(1) [OF assms(2,3)] c image_phdr [OF img', simplified])
  moreover have "pmm_list ?s ps" using pmm_list_outside [OF m(3), of page code] assms(1,3) by (auto simp: pmm_list_def pages_apart_def)
  moreover have "ld (ram ?s) page ?n = code" using assms(3) ld_st_same [of code "ram s1" page] by simp
  moreover have "ld (ram ?s) q k = ld (ram s) q k" if "apart page 4096 q k" "k < 2 ^ 64" for q k
    using ld_st_apart [OF apart_mono [OF that(1) assms(3) le_refl] that(2), of "ram s1"] ld_st_apart [of page "replicate 4096 0" q k "ram s"] that
    by (simp add: m(4))
  ultimately show ?thesis using img' by blast
qed

text \<open>
  C15: From program text to memory: the text of a program is assembled, its code is wrapped into an ELF file, and when
  that file lies in memory the loader accepts it and loads one segment, after which the page it took from the page allocator holds
  code that decodes to exactly the program; nothing outside that page is changed, although
  the entry point that is reported is 0x400000.
\<close>

theorem assembled_program_loaded:
  assumes "\<forall>i \<in> set ins. valid_instr i" "0 < length (concat (map encode ins))" "length (concat (map encode ins)) \<le> 4096"
    and "asm_program (program_text ins) (asm_init junk) = (r, actx)" "asm_get_code actx = Some code"
    and "ld (ram s) data (120 + length code) = ld (write_image p code m) p (120 + length code)" "data \<noteq> 0"
    and "elf_data ctx = data" "phdrs ctx = data + 64"
    and "pmm_list s (page # ps)" "apart page 4096 data (120 + length code)"
  shows "elf_validate (ram s) data (of_nat (120 + length code)) = ELF_SUCCESS \<and>
    (\<exists>ctx' info' s'. elf_load_segments ctx info s = (ELF_SUCCESS, ctx', info', s') \<and> pmm_list s' ps \<and>
       (\<forall>js. disassembles (ld (ram s') page (length code)) js \<longleftrightarrow> js = ins) \<and>
       (\<forall>q k. apart page 4096 q k \<longrightarrow> k < 2 ^ 64 \<longrightarrow> ld (ram s') q k = ld (ram s) q k) \<and> entry_point info' = 0x400000)"
proof -
  have code: "code = concat (map encode ins)" using asm_program_encodes [OF assms(1), of junk] assms(3-5) by (auto simp: MAX_ASM_SIZE_def)
  then have n: "0 < length code" "length code \<le> 4096" using assms(2,3) by simp_all
  have img: "ld (ram s) data (120 + length code) = elf_header (of_nat (length code)) @ code"
    using assms(6) n write_image_ld [of code p m] by simp
  have u: "unat (of_nat (120 + length code) :: u64) = 120 + length code" using n by (intro unat_of_nat_lt) simp
  have "elf_validate (ram s) data (of_nat (120 + length code)) = ELF_SUCCESS"
    using u assms(7) unfolding elf_validate_def image_ehdr [OF img] by (simp add: word_less_nat_alt del: unsigned_of_nat of_nat_add)
  moreover
  let ?ctx = "ctx\<lparr>load_bias := 0\<rparr>"
  obtain s' where s': "load_segment ?ctx 0 s = (True, s')" "pmm_list s' ps" "ld (ram s') page (length code) = code"
    "ld (ram s') data (120 + length code) = elf_header (of_nat (length code)) @ code"
    and frame: "\<forall>q k. apart page 4096 q k \<longrightarrow> k < 2 ^ 64 \<longrightarrow> ld (ram s') q k = ld (ram s) q k"
    using load_image_segment [OF assms(10) n, of ?ctx] assms(8,9,11) img by auto
  have ph: "phdr_of (ram s) ?ctx 0 = phdr_at (ram s) (data + 64)" using assms(9) by (simp add: phdr_of_def)
  have "load_phdrs 0 ?ctx i s = (True, i, s')" for i
    by (subst load_phdrs.simps, subst load_phdrs.simps)
      (simp add: assms(8) image_ehdr [OF img] image_ehdr [OF s'(4)] ph image_phdr [OF img] s'(1))
  then have "\<exists>info'. elf_load_segments ctx info s = (ELF_SUCCESS, ?ctx, info', s') \<and> entry_point info' = 0x400000"
    by (simp add: elf_load_segments_def split_beta assms(8) image_ehdr [OF img] image_ehdr [OF s'(4)] ET_EXEC_def ET_DYN_def)
  moreover have "disassembles code js \<longleftrightarrow> js = ins" for js unfolding code by (rule disassembles_program [OF assms(1)])
  then have "\<forall>js. disassembles (ld (ram s') page (length code)) js \<longleftrightarrow> js = ins" by (simp add: s'(3))
  ultimately show ?thesis using s'(2) frame by blast
qed

lemma store_fields_outside:
  assumes "\<forall>(i, bs) \<in> set fs. i + length bs \<le> n \<and> bs \<noteq> []" "apart p n q k" "n < 2 ^ 64" "k < 2 ^ 64"
  shows "ld (store_fields p fs m) q k = ld m q k"
  using assms(1)
proof (induction fs arbitrary: m)
  case (Cons f fs)
  obtain i bs where f: "f = (i, bs)" by fastforce
  have "apart (p + of_nat i) (length bs) q k" using Cons.prems assms(2,3) by (intro apart_inside [of p n]) (simp_all add: f)
  then show ?case using Cons assms(4) by (simp add: f store_fields_def ld_st_apart)
qed (simp add: store_fields_def)

lemma write_image_outside:
  assumes "apart p (120 + length code) q k" "120 + length code < 2 ^ 64" "k < 2 ^ 64" "code \<noteq> []"
  shows "ld (write_image p code m) q k = ld m q k"
proof -
  let ?n = "120 + length code"
  have f: "\<forall>(i, bs) \<in> set ehdr_fields. i + length bs \<le> ?n \<and> bs \<noteq> []" "\<forall>(i, bs) \<in> set (phdr_fields c). i + length bs \<le> ?n \<and> bs \<noteq> []" for c
    by (simp_all add: ehdr_fields_def phdr_fields_def le_enc_def)
  have "apart (p + of_nat 120) (length code) q k" using assms by (intro apart_inside [OF assms(1)]) simp_all
  then show ?thesis
    unfolding write_image_def Let_def using store_fields_outside [OF f(1) assms(1-3)] store_fields_outside [OF f(2) assms(1-3)] assms
    by (simp add: ld_st_apart mmset_loop_st)
qed

text \<open>A machine with one free page and the file of a program that returns at once.\<close>

definition ret_machine :: memory_state where
  "ret_machine = blank_state\<lparr>ram := write_image 0x10000 [0xC3] (\<lambda>_. 0), free_list := 0x200000\<rparr>"

definition ret_context :: elf_context where
  "ret_context = blank_context\<lparr>elf_data := 0x10000, phdrs := 0x10040\<rparr>"

lemma ret_machine_pages: "pmm_list ret_machine [0x200000]"
proof -
  have "apart (0x10000 :: u64) (120 + length [0xC3 :: u8]) 0x200000 8" by (simp add: apart_def)
  then have "ld64 (write_image 0x10000 [0xC3] (\<lambda>_. 0)) 0x200000 = ld64 (\<lambda>_. 0) 0x200000"
    unfolding ld64_def by (subst write_image_outside) simp_all
  also have "\<dots> = 0" by code_simp
  finally have "ld64 (write_image 0x10000 [0xC3] (\<lambda>_. 0)) 0x200000 = 0" .
  then show ?thesis by (simp add: ret_machine_def pmm_list_def pages_apart_def blank_state_def)
qed

theorem assembled_program_loaded_witness:
  "elf_validate (ram ret_machine) 0x10000 121 = ELF_SUCCESS \<and>
    (\<exists>ctx' info' s'. elf_load_segments ret_context blank_info ret_machine = (ELF_SUCCESS, ctx', info', s') \<and> pmm_list s' [] \<and>
       (\<forall>js. disassembles (ld (ram s') 0x200000 1) js \<longleftrightarrow> js = [Ret]) \<and>
       (\<forall>q k. apart 0x200000 4096 q k \<longrightarrow> k < 2 ^ 64 \<longrightarrow> ld (ram s') q k = ld (ram ret_machine) q k) \<and> entry_point info' = 0x400000)"
proof -
  obtain actx where a: "asm_program (program_text [Ret]) (asm_init \<lparr>a_code = [], a_size = 0, a_error = False, a_error_msg = []\<rparr>) = (0, actx)"
    "asm_get_code actx = Some [0xC3]"
    using asm_program_encodes [of "[Ret]" "\<lparr>a_code = [], a_size = 0, a_error = False, a_error_msg = []\<rparr>"] by (auto simp: MAX_ASM_SIZE_def)
  have f: "ld (ram ret_machine) 0x10000 (120 + length [0xC3 :: u8]) = ld (write_image 0x10000 [0xC3] (\<lambda>_. 0)) 0x10000 (120 + length [0xC3 :: u8])"
    by (simp add: ret_machine_def)
  have x: "elf_data ret_context = 0x10000" "phdrs ret_context = 0x10000 + 64" "apart 0x200000 4096 0x10000 (120 + length [0xC3 :: u8])"
    by (simp_all add: ret_context_def apart_def)
  show ?thesis using assembled_program_loaded [OF _ _ _ a f _ x(1,2) ret_machine_pages x(3), of blank_info] by simp
qed

section \<open>The stack of a program\<close>

lemma st_high:
  assumes "length xs + length ys < 2 ^ 64"
  shows "st (st m p xs) (p + of_nat (length xs)) ys = st m p (xs @ ys)"
proof (rule ext)
  fix x
  let ?d = "x - p"
  have u: "unat (of_nat (length xs) :: u64) = length xs" using assms by (intro unat_of_nat_lt) simp
  have e: "x - (p + of_nat (length xs)) = ?d - of_nat (length xs)" by simp
  have "unat (?d - of_nat (length xs)) = (if length xs \<le> unat ?d then unat ?d - length xs else unat ?d + 2 ^ 64 - length xs)"
    using unat_sub_if' [of ?d "of_nat (length xs)"] u by (simp add: word_le_nat_alt)
  then show "st (st m p xs) (p + of_nat (length xs)) ys x = st m p (xs @ ys) x"
    using assms unfolding st_def e by (auto simp: nth_append)
qed

lemma st_low:
  assumes "length xs + length ys < 2 ^ 64"
  shows "st (st m (p + of_nat (length xs)) ys) p xs = st m p (xs @ ys)"
proof -
  have "st (st m (p + of_nat (length xs)) ys) p xs x = st (st m p xs) (p + of_nat (length xs)) ys x" for x
  proof -
    let ?d = "x - p"
    have u: "unat (of_nat (length xs) :: u64) = length xs" using assms by (intro unat_of_nat_lt) simp
    have e: "x - (p + of_nat (length xs)) = ?d - of_nat (length xs)" by simp
    have "unat (?d - of_nat (length xs)) = (if length xs \<le> unat ?d then unat ?d - length xs else unat ?d + 2 ^ 64 - length xs)"
      using unat_sub_if' [of ?d "of_nat (length xs)"] u by (simp add: word_le_nat_alt)
    then show ?thesis using assms unfolding st_def e by auto
  qed
  then show ?thesis using st_high [OF assms] by (metis ext)
qed

abbreviation word_bytes :: "u64 list \<Rightarrow> bytes" where
  "word_bytes ws \<equiv> concat (map (le_enc 8) ws)"

lemma length_word_bytes: "length (word_bytes ws) = 8 * length ws"
  by (induction ws) simp_all

lemma st_words_bytes: "8 * length ws < 2 ^ 64 \<Longrightarrow> st_words p ws m = st m p (word_bytes ws)"
proof (induction ws rule: rev_induct)
  case Nil
  then show ?case by (simp add: st_words_def st_def)
next
  case (snoc w ws)
  have z: "zip [0..<length (ws @ [w])] (ws @ [w]) = zip [0..<length ws] ws @ [(length ws, w)]" by simp
  have "st_words p (ws @ [w]) m = st64 (st_words p ws m) (p + 8 * of_nat (length ws)) w" unfolding st_words_def z by simp
  then show ?case using snoc st_high [of "word_bytes ws" "le_enc 8 w" m p] by (simp add: st64_def length_word_bytes)
qed

lemma clear_low_bits:
  fixes v :: u64
  shows "16 * v AND NOT 0xF = 16 * v" "(16 * v + 8) AND NOT 0xF = 16 * v" "w AND NOT 0xF = 16 * drop_bit 4 (w :: u64)"
proof -
  have f: "(0xF :: u64) = mask 4" and g: "16 * x = push_bit 4 x" for x :: u64 by (simp_all add: mask_eq_decr_exp push_bit_eq_mult)
  show "16 * v AND NOT 0xF = 16 * v" unfolding f g by (rule bit_word_eqI) (auto simp: bit_simps)
  show "w AND NOT 0xF = 16 * drop_bit 4 w" unfolding f g by (rule bit_word_eqI) (auto simp: bit_simps)
  have "\<not> bit (push_bit 4 v) n \<or> \<not> bit (2 ^ 3 :: u64) n" for n by (simp only: bit_push_bit_iff bit_exp_iff) linarith
  then have "push_bit 4 v + 2 ^ 3 = push_bit 4 v OR 2 ^ 3" by (rule disjunctive_add)
  moreover have "(push_bit 4 v OR 2 ^ 3) AND NOT (mask 4) = push_bit 4 v"
    by (rule bit_word_eqI) (simp only: bit_and_iff bit_or_iff bit_not_iff bit_push_bit_iff bit_exp_iff bit_mask_iff, auto)
  ultimately show "(16 * v + 8) AND NOT 0xF = 16 * v" unfolding g f by simp
qed

text \<open>
  C16: The stack of a program holds the argument count, the arguments and a null pointer, the environment and a null pointer,
  and the auxiliary vector one after the other, and nothing else is written; the stack pointer that is returned points at the argument count
  when the number of arguments and environment entries together is odd, and otherwise 8 bytes below it.
\<close>

theorem user_stack_layout:
  assumes "length argv + length envp < 2 ^ 32"
  shows "case stack_words stack_top argv envp info m of (sp, m') \<Rightarrow>
    let start = (stack_top AND NOT 0xF) - 256 - 8 * of_nat (length argv + length envp + 3)
    in m' = st m start (concat (map (le_enc 8) (of_nat (length argv) # argv @ 0 # envp @ 0 # auxv_words info))) \<and>
       sp = (if odd (length argv + length envp) then start else start - 8)"
proof -
  let ?a = "length argv" and ?e = "length envp"
  let ?aux = "(stack_top AND NOT 0xF) - 256"
  let ?p3 = "?aux - 8 * (of_nat ?e + 1)"
  let ?p2 = "?p3 - 8 * (of_nat ?a + 1)"
  let ?p1 = "?p2 - 8"
  let ?E = "word_bytes (envp @ [0])" and ?A = "word_bytes (argv @ [0])" and ?C = "word_bytes [of_nat ?a]" and ?X = "word_bytes (auxv_words info)"
  have len: "length ?E = 8 * (?e + 1)" "length ?A = 8 * (?a + 1)" "length ?C = 8" "length ?X = 208"
    by (simp_all add: length_word_bytes auxv_words_def)
  have env: "st64 (st_words ?p3 envp m) (?p3 + 8 * of_nat ?e) 0 = st m ?p3 ?E" for m
    using assms st_high [of "word_bytes envp" "le_enc 8 (0 :: u64)" m ?p3] by (simp add: st_words_bytes st64_def length_word_bytes)
  have arg: "st64 (st_words ?p2 argv m) (?p2 + 8 * of_nat ?a) 0 = st m ?p2 ?A" for m
    using assms st_high [of "word_bytes argv" "le_enc 8 (0 :: u64)" m ?p2] by (simp add: st_words_bytes st64_def length_word_bytes)
  have q: "?p2 + of_nat (length ?A) = ?p3" "?p1 + of_nat (length ?C) = ?p2" "?p1 + of_nat (length (?C @ ?A @ ?E)) = ?aux"
    unfolding length_append len by (simp_all add: algebra_simps)
  have s1: "st (st m ?p3 ?E) ?p2 ?A = st m ?p2 (?A @ ?E)" using st_low [of ?A ?E m ?p2] assms unfolding len q by simp
  have s2: "st (st m ?p2 (?A @ ?E)) ?p1 ?C = st m ?p1 (?C @ ?A @ ?E)"
    using st_low [of ?C "?A @ ?E" m ?p1] assms unfolding len length_append q by simp
  have s3: "st (st m ?p1 (?C @ ?A @ ?E)) ?aux ?X = st m ?p1 ((?C @ ?A @ ?E) @ ?X)"
  proof -
    have "length (?C @ ?A @ ?E) + length ?X < 2 ^ 64" unfolding length_append len using assms by simp
    from st_high [OF this, of m ?p1] show ?thesis unfolding q(3) .
  qed
  have c: "st64 m' ?p1 (of_nat ?a) = st m' ?p1 ?C" for m' by (simp add: st64_def)
  have x: "setup_auxv ?aux info m' = st m' ?aux ?X" for m' unfolding setup_auxv_def by (rule st_words_bytes) (simp add: auxv_words_def)
  have mem: "setup_auxv ?aux info (st64 (st64 (st_words ?p2 argv (st64 (st_words ?p3 envp m) (?p3 + 8 * of_nat ?e) 0)) (?p2 + 8 * of_nat ?a) 0) ?p1 (of_nat ?a)) =
      st m ?p1 ((?C @ ?A @ ?E) @ ?X)"
    unfolding env arg c x s1 s2 s3 ..
  have start: "?p1 = ?aux - 8 * of_nat (?a + ?e + 3)" by (simp add: algebra_simps)
  have sw: "stack_words stack_top argv envp info m = (?p1 AND NOT 0xF, st m ?p1 ((?C @ ?A @ ?E) @ ?X))" unfolding stack_words_def Let_def mem ..
  have par: "?p1 AND NOT 0xF = (if odd (?a + ?e) then ?p1 else ?p1 - 8)"
  proof (cases "odd (?a + ?e)")
    case True
    then obtain j where j: "?a + ?e + 3 = 2 * j" by (metis even_add even_numeral odd_numeral evenE)
    then have "?p1 = 16 * (drop_bit 4 stack_top - 16 - of_nat j)" unfolding start j unfolding clear_low_bits(3) by (simp add: algebra_simps)
    then show ?thesis using True clear_low_bits(1) by metis
  next
    case False
    then obtain j where j: "?a + ?e + 3 = 2 * j + 1" by (metis even_add odd_numeral oddE)
    then have p: "?p1 = 16 * (drop_bit 4 stack_top - 17 - of_nat j) + 8" unfolding start j unfolding clear_low_bits(3) by (simp add: algebra_simps)
    have "?p1 AND NOT 0xF = 16 * (drop_bit 4 stack_top - 17 - of_nat j)" unfolding p by (rule clear_low_bits(2))
    moreover have "?p1 - 8 = 16 * (drop_bit 4 stack_top - 17 - of_nat j)" unfolding p by simp
    ultimately show ?thesis using False by metis
  qed
  have words: "(?C @ ?A @ ?E) @ ?X = word_bytes (of_nat ?a # argv @ 0 # envp @ 0 # auxv_words info)" by simp
  show ?thesis unfolding sw prod.case Let_def start [symmetric] words by (rule conjI [OF refl par])
qed

text \<open>The stack that the command \<open>elfexec\<close> builds: one argument and two environment entries.\<close>

theorem user_stack_layout_witness:
  "case stack_words 0x300000 [0x1000] [0x2000, 0x2010] blank_info (\<lambda>_. 0) of (sp, m') \<Rightarrow>
     m' = st (\<lambda>_. 0) 0x2FFED0 (concat (map (le_enc 8) ([1, 0x1000, 0, 0x2000, 0x2010, 0] @ auxv_words blank_info))) \<and> sp = 0x2FFED0"
  using user_stack_layout [where argv = "[0x1000]" and envp = "[0x2000, 0x2010]" and stack_top = "0x300000" and info = blank_info and m = "\<lambda>_. 0"] by (simp add: Let_def)

end
