(* ===== verification/Editor.thy ===== *)
theory Editor
  imports VFS Http
begin

unbundle bit_operations_syntax

text \<open>
  The text editor (\<open>GUI/text_editor.c\<close>): the line buffer with its cursor, the operations on it, loading and saving through the
  virtual file system, keys, and one round of the event loop without the drawing. A line is an array of 256 characters whose text ends at
  its first NUL. The result \<open>None\<close> stands for an access outside an array.
\<close>

section \<open>State\<close>

definition EDITOR_MAX_LINES :: nat where "EDITOR_MAX_LINES = 1000"
definition EDITOR_MAX_LINE_LENGTH :: nat where "EDITOR_MAX_LINE_LENGTH = 256"
definition EDITOR_WIDTH :: int where "EDITOR_WIDTH = 700"
definition EDITOR_HEIGHT :: int where "EDITOR_HEIGHT = 500"
definition EDITOR_TITLE_HEIGHT :: int where "EDITOR_TITLE_HEIGHT = 30"
definition EDITOR_TOOLBAR_HEIGHT :: int where "EDITOR_TOOLBAR_HEIGHT = 35"

record editor_buffer =
  ed_lines :: "bytes list"
  line_count :: nat
  cursor_line :: nat
  cursor_col :: nat
  scroll_offset :: int
  filepath :: bytes
  modified :: bool

record text_editor =
  ed_x :: int
  ed_y :: int
  ed_width :: int
  ed_height :: int
  visible :: bool
  buffer :: editor_buffer
  dragging :: bool
  drag_offset_x :: int
  drag_offset_y :: int
  last_mx :: int
  last_my :: int

text \<open>The length of the text of a line; without a NUL the scan leaves the array.\<close>

definition line_len :: "bytes \<Rightarrow> nat option" where
  "line_len a = (if 0 \<in> set a then Some (length (cstr a)) else None)"

definition upd_line :: "nat \<Rightarrow> (bytes \<Rightarrow> bytes) \<Rightarrow> editor_buffer \<Rightarrow> editor_buffer" where
  "upd_line i f b = b\<lparr>ed_lines := (ed_lines b)[i := f (ed_lines b ! i)]\<rparr>"

definition get_line :: "nat \<Rightarrow> editor_buffer \<Rightarrow> bytes option" where
  "get_line i b = (if i < length (ed_lines b) then Some (ed_lines b ! i) else None)"

text \<open>\<open>STRCPY\<close>: the text and its NUL are copied, the rest of the array stays.\<close>

definition copy_line :: "bytes \<Rightarrow> bytes \<Rightarrow> bytes" where
  "copy_line src dst = cstr src @ 0 # drop (length (cstr src) + 1) dst"

section \<open>Editing\<close>

definition shift_right :: "nat \<Rightarrow> nat \<Rightarrow> bytes \<Rightarrow> bytes" where
  "shift_right col len a = fold (\<lambda>i a. a[i + 1 := a ! i]) (rev [col..<len + 1]) a"

definition shift_left :: "nat \<Rightarrow> nat \<Rightarrow> bytes \<Rightarrow> bytes" where
  "shift_left i len a = fold (\<lambda>i a. a[i := a ! (i + 1)]) [i..<len] a"

definition text_editor_insert_char :: "u8 \<Rightarrow> editor_buffer \<Rightarrow> editor_buffer option" where
  "text_editor_insert_char ch b =
     (if cursor_line b \<ge> EDITOR_MAX_LINES then Some b
      else do {
        a \<leftarrow> get_line (cursor_line b) b;
        len \<leftarrow> line_len a;
        if len \<ge> EDITOR_MAX_LINE_LENGTH - 1 then Some b
        else if cursor_col b < EDITOR_MAX_LINE_LENGTH then
          Some ((upd_line (cursor_line b) (\<lambda>a. (shift_right (cursor_col b) len a)[cursor_col b := ch]) b)
                  \<lparr>cursor_col := cursor_col b + 1, modified := True\<rparr>)
        else None })"

text \<open>The lines below move up by one.\<close>

definition lines_up :: "nat \<Rightarrow> nat \<Rightarrow> editor_buffer \<Rightarrow> editor_buffer" where
  "lines_up from to b = fold (\<lambda>i b. upd_line i (copy_line (ed_lines b ! (i + 1))) b) [from..<to] b"

definition lines_down :: "nat \<Rightarrow> nat \<Rightarrow> editor_buffer \<Rightarrow> editor_buffer" where
  "lines_down from to b = fold (\<lambda>i b. upd_line i (copy_line (ed_lines b ! (i - 1))) b) (rev [from + 1..<to + 1]) b"

text \<open>\<open>STRCAT\<close>\<close>

definition append_line :: "bytes \<Rightarrow> bytes \<Rightarrow> bytes" where
  "append_line src dst = cstr dst @ cstr src @ 0 # drop (length (cstr dst) + length (cstr src) + 1) dst"

definition text_editor_backspace :: "editor_buffer \<Rightarrow> editor_buffer option" where
  "text_editor_backspace b =
     (if cursor_col b > 0 then do {
        a \<leftarrow> get_line (cursor_line b) b;
        len \<leftarrow> line_len a;
        Some ((upd_line (cursor_line b) (shift_left (cursor_col b - 1) len) b)\<lparr>cursor_col := cursor_col b - 1, modified := True\<rparr>) }
      else if cursor_line b > 0 then do {
        prev \<leftarrow> get_line (cursor_line b - 1) b;
        curr \<leftarrow> get_line (cursor_line b) b;
        prev_len \<leftarrow> line_len prev;
        curr_len \<leftarrow> line_len curr;
        if prev_len + curr_len < EDITOR_MAX_LINE_LENGTH - 1 then do {
          let b = upd_line (cursor_line b - 1) (append_line curr) b;
          let b = lines_up (cursor_line b) (line_count b - 1) b;
          _ \<leftarrow> get_line (line_count b - 1) b;
          let b = upd_line (line_count b - 1) (\<lambda>a. a[0 := 0]) b;
          Some (b\<lparr>line_count := line_count b - 1, cursor_line := cursor_line b - 1, cursor_col := prev_len, modified := True\<rparr>) }
        else Some b }
      else Some b)"

definition visible_lines :: "int \<Rightarrow> int" where
  "visible_lines height = (let n = height - EDITOR_TITLE_HEIGHT - EDITOR_TOOLBAR_HEIGHT - 10 in if n < 0 then - (- n div 16) else n div 16)"

text \<open>The part of the current line from the cursor on becomes the next line.\<close>

definition split_at :: "nat \<Rightarrow> nat \<Rightarrow> bytes \<Rightarrow> bytes \<Rightarrow> bytes" where
  "split_at col len src dst = fold (\<lambda>i a. a[i - col := src ! i]) [col..<len + 1] dst"

definition text_editor_newline :: "int \<Rightarrow> editor_buffer \<Rightarrow> editor_buffer option" where
  "text_editor_newline height b =
     (if line_count b \<ge> EDITOR_MAX_LINES then Some b
      else do {
        _ \<leftarrow> get_line (line_count b) b;
        let b = lines_down (cursor_line b) (line_count b) b;
        a \<leftarrow> get_line (cursor_line b) b;
        _ \<leftarrow> get_line (cursor_line b + 1) b;
        len \<leftarrow> line_len a;
        let b = upd_line (cursor_line b + 1) (split_at (cursor_col b) len a) b;
        if cursor_col b < EDITOR_MAX_LINE_LENGTH then do {
          let b = upd_line (cursor_line b) (\<lambda>a. a[cursor_col b := 0]) b;
          let b = b\<lparr>line_count := line_count b + 1, cursor_line := cursor_line b + 1, cursor_col := 0, modified := True\<rparr>;
          Some (if int (cursor_line b) \<ge> scroll_offset b + visible_lines height then b\<lparr>scroll_offset := scroll_offset b + 1\<rparr> else b) }
        else None })"

definition move_line :: "int \<Rightarrow> int \<Rightarrow> editor_buffer \<Rightarrow> editor_buffer option" where
  "move_line height dy b =
     (let new_line = int (cursor_line b) + dy in
      if dy \<noteq> 0 \<and> 0 \<le> new_line \<and> new_line < int (line_count b) then do {
        let b = b\<lparr>cursor_line := nat new_line\<rparr>;
        a \<leftarrow> get_line (cursor_line b) b;
        len \<leftarrow> line_len a;
        let b = (if cursor_col b > len then b\<lparr>cursor_col := len\<rparr> else b);
        Some (if int (cursor_line b) < scroll_offset b then b\<lparr>scroll_offset := int (cursor_line b)\<rparr>
              else if int (cursor_line b) \<ge> scroll_offset b + visible_lines height
              then b\<lparr>scroll_offset := int (cursor_line b) - visible_lines height + 1\<rparr> else b) }
      else Some b)"

definition move_col :: "int \<Rightarrow> editor_buffer \<Rightarrow> editor_buffer option" where
  "move_col dx b =
     (if dx \<noteq> 0 then do {
        a \<leftarrow> get_line (cursor_line b) b;
        len \<leftarrow> line_len a;
        let new_col = int (cursor_col b) + dx;
        Some (if 0 \<le> new_col \<and> new_col \<le> int len then b\<lparr>cursor_col := nat new_col\<rparr> else b) }
      else Some b)"

definition text_editor_move_cursor :: "int \<Rightarrow> int \<Rightarrow> int \<Rightarrow> editor_buffer \<Rightarrow> editor_buffer option" where
  "text_editor_move_cursor height dx dy b = do { b \<leftarrow> move_line height dy b; move_col dx b }"

section \<open>Files\<close>

text \<open>The writes of a save: every line, and a line feed after every line but the last.\<close>

definition save_chunks :: "editor_buffer \<Rightarrow> bytes list" where
  "save_chunks b = concat (map (\<lambda>i. cstr (ed_lines b ! i) # (if i + 1 < line_count b then [[10]] else [])) [0..<line_count b])"

fun write_chunks :: "int \<Rightarrow> bytes list \<Rightarrow> ('s, 'd) vfs \<Rightarrow> ('s, 'd) vfs option" where
  "write_chunks fd [] v = Some v"
| "write_chunks fd (c # cs) v = do { (_, v) \<leftarrow> vfs_write fd c v; write_chunks fd cs v }"

definition text_editor_save :: "editor_buffer \<Rightarrow> ('s, 'd) vfs \<Rightarrow> (editor_buffer \<times> ('s, 'd) vfs) option" where
  "text_editor_save b v =
     (if filepath b = [] then Some (b, v)
      else do {
        (fd, v) \<leftarrow> vfs_open (Some (filepath b)) FILE_WRITE v;
        if fd < 0 then Some (b, v)
        else do {
          v \<leftarrow> write_chunks fd (save_chunks b) v;
          (_, v) \<leftarrow> vfs_close fd v;
          Some (b\<lparr>modified := False\<rparr>, v) }})"

text \<open>The characters read are put into lines; a character beyond the 255th of a line is dropped.\<close>

fun load_chars :: "bytes \<Rightarrow> nat \<Rightarrow> editor_buffer \<Rightarrow> nat \<times> editor_buffer" where
  "load_chars [] pos b = (pos, b)"
| "load_chars (c # cs) pos b =
     (if line_count b < EDITOR_MAX_LINES then
        if c = 10 then load_chars cs 0 ((upd_line (line_count b) (\<lambda>a. a[pos := 0]) b)\<lparr>line_count := line_count b + 1\<rparr>)
        else if pos < EDITOR_MAX_LINE_LENGTH - 1 then load_chars cs (pos + 1) (upd_line (line_count b) (\<lambda>a. a[pos := c]) b)
        else load_chars cs pos b
      else (pos, b))"

definition load_text :: "bytes \<Rightarrow> editor_buffer \<Rightarrow> editor_buffer" where
  "load_text cs b =
     (let (pos, b) = load_chars cs 0 (b\<lparr>line_count := 0\<rparr>);
          b = (if pos > 0 \<or> line_count b = 0 then (upd_line (line_count b) (\<lambda>a. a[pos := 0]) b)\<lparr>line_count := line_count b + 1\<rparr> else b)
      in b\<lparr>modified := False\<rparr>)"

text \<open>\<open>junk\<close> is what the local buffer of 4096 characters holds; a read that fails leads to an access outside it.\<close>

definition text_editor_load :: "bytes \<Rightarrow> bytes \<Rightarrow> editor_buffer \<Rightarrow> ('s, 'd) vfs \<Rightarrow> (editor_buffer \<times> ('s, 'd) vfs) option" where
  "text_editor_load junk path b v = do {
     (fd, v) \<leftarrow> vfs_open (Some path) FILE_READ v;
     if fd < 0 then Some (b, v)
     else do {
       (n, buf, v) \<leftarrow> vfs_read fd junk 4095 v;
       if n < 0 \<or> n > 4095 then None
       else do {
         (_, v) \<leftarrow> vfs_close fd v;
         Some (load_text (take (nat n) buf) b, v) }}}"

definition text_editor_init :: "u32 \<Rightarrow> u32 \<Rightarrow> bytes option \<Rightarrow> bytes \<Rightarrow> text_editor \<Rightarrow> ('s, 'd) vfs \<Rightarrow> (text_editor \<times> ('s, 'd) vfs) option" where
  "text_editor_init fb_width fb_height path junk e v =
     (let e = e\<lparr>ed_width := EDITOR_WIDTH, ed_height := EDITOR_HEIGHT, ed_x := sint ((fb_width - of_int EDITOR_WIDTH) div 2), ed_y := sint ((fb_height - of_int EDITOR_HEIGHT) div 2),
            visible := True, dragging := False, last_mx := -1, last_my := -1\<rparr>;
          b = (buffer e)\<lparr>line_count := 1, cursor_line := 0, cursor_col := 0, scroll_offset := 0, modified := False,
                 ed_lines := map (\<lambda>a. a[0 := 0]) (ed_lines (buffer e))\<rparr>
      in case path of
           None \<Rightarrow> Some (e\<lparr>buffer := b\<lparr>filepath := []\<rparr>\<rparr>, v)
         | Some p \<Rightarrow>
             if length (cstr p) < 256 then do {
               (b, v) \<leftarrow> text_editor_load junk p (b\<lparr>filepath := cstr p\<rparr>) v;
               Some (e\<lparr>buffer := b\<rparr>, v) }
             else None)"

section \<open>Keys\<close>

text \<open>The characters of the scan codes, 0 for none.\<close>

definition key_char :: "u8 \<Rightarrow> u8" where
  "key_char scancode =
     (case map_of (zip ([0x02..<0x0E] @ [0x10..<0x1A] @ [0x1E..<0x29] @ [0x2C..<0x36] @ [0x39, 0x1A, 0x1B, 0x2B])
        (of_string ''1234567890-='' @ of_string ''qwertyuiop'' @ of_string ''asdfghjkl;'' @ [39] @ of_string ''zxcvbnm,./'' @ of_string '' []'' @ [92]))
        (unat scancode) of
        None \<Rightarrow> 0 | Some c \<Rightarrow> c)"

definition text_editor_handle_key :: "int \<Rightarrow> u8 \<Rightarrow> editor_buffer \<Rightarrow> editor_buffer option" where
  "text_editor_handle_key height scancode b =
     (if scancode = 0x1C then text_editor_newline height b
      else if scancode = 0x0E then text_editor_backspace b
      else if scancode = 0x48 then text_editor_move_cursor height 0 (-1) b
      else if scancode = 0x50 then text_editor_move_cursor height 0 1 b
      else if scancode = 0x4B then text_editor_move_cursor height (-1) 0 b
      else if scancode = 0x4D then text_editor_move_cursor height 1 0 b
      else let ch = key_char scancode in if ch \<noteq> 0 then text_editor_insert_char ch b else Some b)"

text \<open>
  The scan codes that have arrived are handled one after the other until the escape key; the result says whether the editor
  goes on and whether the prefix of an extended key is pending, and holds the codes that are left.
\<close>

fun editor_keys :: "int \<Rightarrow> u8 list \<Rightarrow> bool \<Rightarrow> editor_buffer \<Rightarrow> (bool \<times> bool \<times> u8 list \<times> editor_buffer) option" where
  "editor_keys height [] was_extended b = Some (True, was_extended, [], b)"
| "editor_keys height (scancode # r) was_extended b =
     (if scancode = 0xE0 then editor_keys height r True b
      else if scancode AND 0x80 \<noteq> 0 then editor_keys height r False b
      else if scancode AND 0x7F = 0x01 then Some (False, was_extended, r, b)
      else do {
        b \<leftarrow> text_editor_handle_key height (if was_extended then scancode AND 0x7F else scancode) b;
        editor_keys height r False b })"

section \<open>The event loop\<close>

text \<open>Dragging the window, within the screen.\<close>

definition editor_drag :: "u32 \<Rightarrow> u32 \<Rightarrow> int \<Rightarrow> int \<Rightarrow> bool \<Rightarrow> text_editor \<Rightarrow> text_editor" where
  "editor_drag fb_width fb_height mx my button e =
     (if \<not> dragging e then e
      else if \<not> button then e\<lparr>dragging := False\<rparr>
      else let new_x = mx - drag_offset_x e; new_y = my - drag_offset_y e;
               new_x = (if new_x < 0 then 0 else new_x); new_y = (if new_y < 0 then 0 else new_y);
               new_x = (if of_int (new_x + ed_width e) > fb_width then sint (fb_width - of_int (ed_width e)) else new_x);
               new_y = (if of_int (new_y + ed_height e) > fb_height then sint (fb_height - of_int (ed_height e)) else new_y)
           in e\<lparr>ed_x := new_x, ed_y := new_y\<rparr>)"

datatype click = Close | Drag | Save | Nothing

definition editor_click :: "int \<Rightarrow> int \<Rightarrow> text_editor \<Rightarrow> click" where
  "editor_click mx my e =
     (let close_btn_x = ed_x e + ed_width e - 20 - 5; close_btn_y = ed_y e + 5;
          save_btn_x = ed_x e + 10; save_btn_y = ed_y e + EDITOR_TITLE_HEIGHT + 5
      in if mx \<ge> close_btn_x \<and> mx < close_btn_x + 20 \<and> my \<ge> close_btn_y \<and> my < close_btn_y + 20 then Close
         else if mx \<ge> ed_x e \<and> mx < ed_x e + ed_width e \<and> my \<ge> ed_y e \<and> my < ed_y e + EDITOR_TITLE_HEIGHT then Drag
         else if mx \<ge> save_btn_x \<and> mx < save_btn_x + 60 \<and> my \<ge> save_btn_y \<and> my < save_btn_y + 25 then Save
         else Nothing)"

text \<open>
  One round of the loop at a mouse position: \<open>was_down\<close> is the button in the round before, \<open>codes\<close> the scan codes that have arrived. The result says
  whether the loop goes on and whether an extended key is pending.
\<close>

definition text_editor_round :: "u32 \<Rightarrow> u32 \<Rightarrow> int \<Rightarrow> int \<Rightarrow> bool \<Rightarrow> bool \<Rightarrow> u8 list \<Rightarrow> bool \<Rightarrow> text_editor \<times> ('s, 'd) vfs \<Rightarrow> (bool \<times> bool \<times> u8 list \<times> text_editor \<times> ('s, 'd) vfs) option" where
  "text_editor_round fb_width fb_height mx my button was_down codes was_extended ev =
     (let (e, v) = ev; e = editor_drag fb_width fb_height mx my button e in do {
        (running, was_extended, rest, b) \<leftarrow> editor_keys (ed_height e) codes was_extended (buffer e);
        let e = e\<lparr>buffer := b, last_mx := mx, last_my := my\<rparr>;
        if button \<and> \<not> was_down then
          (case editor_click mx my e of
             Close \<Rightarrow> Some (False, was_extended, rest, e, v)
           | Drag \<Rightarrow> Some (running, was_extended, rest, e\<lparr>dragging := True, drag_offset_x := mx - ed_x e, drag_offset_y := my - ed_y e\<rparr>, v)
           | Save \<Rightarrow> do { (b, v) \<leftarrow> text_editor_save (buffer e) v; Some (running, was_extended, rest, e\<lparr>buffer := b\<rparr>, v) }
           | Nothing \<Rightarrow> Some (running, was_extended, rest, e, v))
        else Some (running, was_extended, rest, e, v) })"

end
