(* ===== verification/Editor_Props.thy ===== *)
theory Editor_Props
  imports Editor
begin

unbundle bit_operations_syntax

text \<open>
  The text editor against a text with a cursor: inserting, deleting and splitting lines in the fixed array of lines
  are insertion and deletion at the cursor of one text; every sequence of keys keeps the buffer well formed and inside its arrays; and
  the characters of a saved text are read back as its lines.
\<close>

section \<open>Lines\<close>

definition is_line :: "bytes \<Rightarrow> bool" where
  "is_line a \<longleftrightarrow> length a = EDITOR_MAX_LINE_LENGTH \<and> 0 \<in> set a"

lemma cstr_end: "0 \<in> set a \<Longrightarrow> length (cstr a) < length a \<and> a ! length (cstr a) = 0"
  unfolding cstr_def using nth_length_takeWhile [of "\<lambda>b. b \<noteq> 0" a] by (induction a) auto

lemma cstr_nth: "k < length (cstr a) \<Longrightarrow> a ! k = cstr a ! k"
  by (simp add: cstr_def takeWhile_nth)

lemma cstr_eqI:
  assumes "0 \<notin> set s" "length s < length a" "\<And>k. k < length s \<Longrightarrow> a ! k = s ! k" "a ! length s = 0"
  shows "cstr a = s"
proof -
  have "take (length s) a = s" using assms(2,3) by (intro nth_equalityI) simp_all
  then have "a = s @ 0 # drop (length s + 1) a" using assms(2,4) by (metis id_take_nth_drop Suc_eq_plus1)
  then show ?thesis using cstr_append_nul [OF assms(1)] by metis
qed

lemma is_line_cstr: "is_line a \<Longrightarrow> length (cstr a) \<le> 255"
  using cstr_end [of a] by (auto simp: is_line_def EDITOR_MAX_LINE_LENGTH_def)

lemma line_len_is_line: "is_line a \<Longrightarrow> line_len a = Some (length (cstr a))"
  by (simp add: line_len_def is_line_def)

lemma length_shift_right [simp]: "length (shift_right c n a) = length a"
proof -
  have "length (fold (\<lambda>i a. a[i + 1 := a ! i]) is a) = length a" for "is" and a :: bytes by (induction "is" arbitrary: a) simp_all
  then show ?thesis by (simp add: shift_right_def)
qed

lemma shift_right_nth:
  assumes "k < length a" "n + 1 < length a"
  shows "shift_right c n a ! k = (if c < k \<and> k \<le> n + 1 then a ! (k - 1) else a ! k)"
proof -
  have "fold (\<lambda>i a. a[i + 1 := a ! i]) (rev [c..<n]) a ! k = (if c < k \<and> k \<le> n then a ! (k - 1) else a ! k)"
    if "k < length a" "n < length a" for n and a :: bytes
    using that
  proof (induction n arbitrary: a)
    case (Suc n)
    show ?case
    proof (cases "c \<le> n")
      case True
      then have "rev [c..<Suc n] = n # rev [c..<n]" by simp
      then show ?thesis using Suc.IH [of "a[n + 1 := a ! n]"] Suc.prems True by (auto simp: nth_list_update)
    next
      case False
      then show ?thesis by auto
    qed
  qed simp
  from this [OF assms(1), of "n + 1"] show ?thesis using assms(2) by (simp add: shift_right_def)
qed

lemma length_shift_left [simp]: "length (shift_left c n a) = length a"
proof -
  have "length (fold (\<lambda>i a. a[i := a ! (i + 1)]) is a) = length a" for "is" and a :: bytes by (induction "is" arbitrary: a) simp_all
  then show ?thesis by (simp add: shift_left_def)
qed

lemma shift_left_nth:
  assumes "k < length a" "n < length a"
  shows "shift_left c n a ! k = (if c \<le> k \<and> k < n then a ! (k + 1) else a ! k)"
  using assms
proof (induction n arbitrary: k)
  case 0
  then show ?case by (simp add: shift_left_def)
next
  case (Suc n)
  show ?case
  proof (cases "c \<le> n")
    case True
    then have "shift_left c (Suc n) a = (shift_left c n a)[n := shift_left c n a ! (n + 1)]" by (simp add: shift_left_def)
    then show ?thesis using Suc.IH [of k] Suc.IH [of "n + 1"] Suc.prems True by (auto simp: nth_list_update)
  next
    case False
    then show ?thesis using Suc.prems by (auto simp: shift_left_def)
  qed
qed

lemma insert_in_line:
  assumes "is_line a" "c \<le> length (cstr a)" "length (cstr a) < 255" "ch \<noteq> 0"
  shows "is_line ((shift_right c (length (cstr a)) a)[c := ch]) \<and>
    cstr ((shift_right c (length (cstr a)) a)[c := ch]) = take c (cstr a) @ ch # drop c (cstr a)"
proof -
  let ?n = "length (cstr a)" and ?a = "(shift_right c (length (cstr a)) a)[c := ch]" and ?s = "take c (cstr a) @ ch # drop c (cstr a)"
  have l: "length a = 256" "0 \<in> set a" using assms(1) by (simp_all add: is_line_def EDITOR_MAX_LINE_LENGTH_def)
  note nth = shift_right_nth [of _ a ?n c]
  have len: "length ?s = ?n + 1" using assms(2) by simp
  have e: "?a ! (?n + 1) = 0" using nth [of "?n + 1"] cstr_end [OF l(2)] assms(2,3) l(1) by simp
  have "cstr ?a = ?s"
  proof (rule cstr_eqI)
    show "0 \<notin> set ?s" using assms(4) by (auto dest: in_set_takeD in_set_dropD)
    show "length ?s < length ?a" using assms(3) l by (simp add: len)
    show "?a ! length ?s = 0" unfolding len by (rule e)
    fix k
    assume "k < length ?s"
    then have k: "k < ?n + 1" by (simp add: len)
    consider "k < c" | "k = c" | "c < k" by linarith
    then show "?a ! k = ?s ! k"
    proof cases
      case 1
      then show ?thesis using nth [of k] k assms(2,3) l(1) cstr_nth [of k a] by (simp add: nth_append)
    next
      case 2
      then show ?thesis using assms(2,3) l(1) by (simp add: nth_append)
    next
      case 3
      then have "?a ! k = cstr a ! (k - 1)" using nth [of k] k assms(3) l(1) cstr_nth [of "k - 1" a] by simp
      then show ?thesis using 3 assms(2) k by (simp add: nth_append nth_Cons' )
    qed
  qed
  moreover have "0 \<in> set ?a" using e assms(3) l(1) nth_mem [of "?n + 1" ?a] by simp
  ultimately show ?thesis using l(1) by (simp add: is_line_def EDITOR_MAX_LINE_LENGTH_def)
qed

lemma delete_in_line:
  assumes "is_line a" "0 < c" "c \<le> length (cstr a)"
  shows "is_line (shift_left (c - 1) (length (cstr a)) a) \<and>
    cstr (shift_left (c - 1) (length (cstr a)) a) = take (c - 1) (cstr a) @ drop c (cstr a)"
proof -
  let ?n = "length (cstr a)" and ?a = "shift_left (c - 1) (length (cstr a)) a" and ?s = "take (c - 1) (cstr a) @ drop c (cstr a)"
  have l: "length a = 256" "0 \<in> set a" using assms(1) by (simp_all add: is_line_def EDITOR_MAX_LINE_LENGTH_def)
  have n: "?n < 256" using cstr_end [OF l(2)] l(1) by simp
  note nth = shift_left_nth [of _ a ?n "c - 1"]
  have len: "length ?s = ?n - 1" using assms(2,3) by simp
  have "?a ! (?n - 1) = a ! (?n - 1 + 1)" using nth [of "?n - 1"] n assms(2,3) l(1) by (simp only:) auto
  moreover have "?n - 1 + 1 = ?n" using assms(2,3) by simp
  ultimately have e: "?a ! (?n - 1) = 0" using cstr_end [OF l(2)] by simp
  have "cstr ?a = ?s"
  proof (rule cstr_eqI)
    show "0 \<notin> set ?s" by (auto dest: in_set_takeD in_set_dropD)
    show "length ?s < length ?a" using n l(1) by (simp add: len)
    show "?a ! length ?s = 0" unfolding len by (rule e)
    fix k
    assume "k < length ?s"
    then have k: "k < ?n - 1" by (simp only: len)
    show "?a ! k = ?s ! k" using nth [of k] k n l(1) assms(2,3) cstr_nth [of k a] cstr_nth [of "k + 1" a] by (auto simp: nth_append)
  qed
  moreover have "0 \<in> set ?a" using e n l(1) nth_mem [of "?n - 1" ?a] by simp
  ultimately show ?thesis using l(1) by (simp add: is_line_def EDITOR_MAX_LINE_LENGTH_def)
qed

lemma string_in_line:
  assumes "0 \<notin> set t" "length t \<le> 255" "length d = 256"
  shows "is_line (t @ 0 # drop (length t + 1) d) \<and> cstr (t @ 0 # drop (length t + 1) d) = t"
  using assms by (simp add: is_line_def EDITOR_MAX_LINE_LENGTH_def cstr_append_nul)

lemma copy_line: "is_line a \<Longrightarrow> is_line d \<Longrightarrow> is_line (copy_line a d) \<and> cstr (copy_line a d) = cstr a"
  unfolding copy_line_def using is_line_cstr [of a] by (intro string_in_line) (simp_all add: is_line_def EDITOR_MAX_LINE_LENGTH_def)

lemma append_line:
  assumes "is_line a" "is_line d" "length (cstr d) + length (cstr a) \<le> 255"
  shows "is_line (append_line a d) \<and> cstr (append_line a d) = cstr d @ cstr a"
  using string_in_line [of "cstr d @ cstr a" d] assms by (simp add: append_line_def is_line_def EDITOR_MAX_LINE_LENGTH_def)

lemma truncate_line:
  assumes "is_line a" "c \<le> length (cstr a)"
  shows "is_line (a[c := 0]) \<and> cstr (a[c := 0]) = take c (cstr a)"
proof -
  have l: "length a = 256" "c < 256" using assms is_line_cstr [of a] by (simp_all add: is_line_def EDITOR_MAX_LINE_LENGTH_def)
  have "cstr (a[c := 0]) = take c (cstr a)"
    using assms(2) l by (intro cstr_eqI) (auto simp: cstr_nth [of _ a] dest: in_set_takeD)
  then show ?thesis using l by (simp add: is_line_def EDITOR_MAX_LINE_LENGTH_def set_update_memI)
qed

lemma split_at_line:
  assumes "is_line a" "is_line d" "c \<le> length (cstr a)"
  shows "is_line (split_at c (length (cstr a)) a d) \<and> cstr (split_at c (length (cstr a)) a d) = drop c (cstr a)"
proof -
  let ?n = "length (cstr a)"
  have l: "length a = 256" "length d = 256" "?n < 256" "a ! ?n = 0" using assms cstr_end [of a] by (auto simp: is_line_def EDITOR_MAX_LINE_LENGTH_def)
  have fold: "length (fold (\<lambda>i a'. a'[i - c := a ! i]) [c..<m] d) = 256 \<and>
      (\<forall>k < 256. fold (\<lambda>i a'. a'[i - c := a ! i]) [c..<m] d ! k = (if k + c < m then a ! (k + c) else d ! k))" for m
  proof (induction m)
    case (Suc m)
    let ?F = "fold (\<lambda>i a'. a'[i - c := a ! i]) [c..<m] d"
    have "?F[m - c := a ! m] ! k = (if k + c < Suc m then a ! (k + c) else d ! k)" if "k < 256" "c \<le> m" for k
    proof (cases "k = m - c")
      case True
      moreover from this that(2) have "k + c = m" by simp
      ultimately show ?thesis using Suc that by simp
    next
      case False
      then have "k + c < Suc m \<longleftrightarrow> k + c < m" using that(2) by auto
      then show ?thesis using False Suc that by simp
    qed
    then show ?case using Suc l(2) by (cases "c \<le> m") simp_all
  qed (simp add: l)
  let ?b = "split_at c ?n a d"
  have b: "length ?b = 256" "\<And>k. k < 256 \<Longrightarrow> k + c \<le> ?n \<Longrightarrow> ?b ! k = a ! (k + c)" using fold [of "?n + 1"] by (auto simp: split_at_def)
  have z: "?b ! (?n - c) = 0" using b(2) [of "?n - c"] l assms(3) by simp
  have "cstr ?b = drop c (cstr a)"
  proof (rule cstr_eqI)
    show "0 \<notin> set (drop c (cstr a))" by (auto dest: in_set_dropD)
    show "length (drop c (cstr a)) < length ?b" "?b ! length (drop c (cstr a)) = 0" using z b(1) l by simp_all
    show "?b ! k = drop c (cstr a) ! k" if "k < length (drop c (cstr a))" for k
      using that b(2) [of k] cstr_nth [of "k + c" a] l by (simp add: add.commute)
  qed
  moreover have "0 \<in> set ?b" using z b(1) l(3) nth_mem [of "?n - c" ?b] by simp
  ultimately show ?thesis using b(1) by (simp add: is_line_def EDITOR_MAX_LINE_LENGTH_def)
qed

section \<open>The buffer as a text\<close>

definition ed_text :: "editor_buffer \<Rightarrow> bytes list" where
  "ed_text b = map cstr (take (line_count b) (ed_lines b))"

definition ed_ok :: "editor_buffer \<Rightarrow> bool" where
  "ed_ok b \<longleftrightarrow> length (ed_lines b) = EDITOR_MAX_LINES \<and> (\<forall>a \<in> set (ed_lines b). is_line a) \<and>
     line_count b \<le> EDITOR_MAX_LINES \<and> cursor_line b < line_count b \<and> cursor_col b \<le> length (ed_text b ! cursor_line b)"

lemma ed_okD:
  assumes "ed_ok b"
  shows "length (ed_lines b) = 1000" "i < 1000 \<Longrightarrow> is_line (ed_lines b ! i)" "line_count b \<le> 1000" "cursor_line b < line_count b"
    "cursor_col b \<le> length (cstr (ed_lines b ! cursor_line b))" "length (ed_text b) = line_count b"
    "i < line_count b \<Longrightarrow> ed_text b ! i = cstr (ed_lines b ! i)" "i < 1000 \<Longrightarrow> get_line i b = Some (ed_lines b ! i)"
  using assms by (auto simp: ed_ok_def ed_text_def EDITOR_MAX_LINES_def get_line_def)

text \<open>The text before and after the cursor, with a line feed between lines.\<close>

definition before :: "bytes list \<Rightarrow> nat \<Rightarrow> nat \<Rightarrow> bytes" where
  "before T l c = concat (map (\<lambda>x. x @ [10]) (take l T)) @ take c (T ! l)"

definition after :: "bytes list \<Rightarrow> nat \<Rightarrow> nat \<Rightarrow> bytes" where
  "after T l c = drop c (T ! l) @ concat (map (\<lambda>x. 10 # x) (drop (l + 1) T))"

definition ed_view :: "editor_buffer \<Rightarrow> bytes \<times> bytes" where
  "ed_view b = (before (ed_text b) (cursor_line b) (cursor_col b), after (ed_text b) (cursor_line b) (cursor_col b))"

lemma before_after_update:
  assumes "l < length T" "c \<le> length u"
  shows "before (T[l := u]) l c = concat (map (\<lambda>x. x @ [10]) (take l T)) @ take c u"
    "after (T[l := u]) l c = drop c u @ concat (map (\<lambda>x. 10 # x) (drop (l + 1) T))"
  using assms by (simp_all add: before_def after_def)

lemma ed_okI:
  assumes "length (ed_lines b) = 1000" "\<forall>i < 1000. is_line (ed_lines b ! i)" "line_count b \<le> 1000" "cursor_line b < line_count b"
    "cursor_col b \<le> length (cstr (ed_lines b ! cursor_line b))"
  shows "ed_ok b"
  using assms by (auto simp: ed_ok_def ed_text_def EDITOR_MAX_LINES_def in_set_conv_nth)

lemma ed_text_upd: "ed_text (upd_line i f b) = (ed_text b)[i := cstr (f (ed_lines b ! i))]"
  by (auto simp: ed_text_def upd_line_def take_update_swap map_update)

lemma ed_text_fields [simp]:
  "ed_text (b\<lparr>cursor_col := c\<rparr>) = ed_text b" "ed_text (b\<lparr>cursor_line := l\<rparr>) = ed_text b" "ed_text (b\<lparr>modified := m\<rparr>) = ed_text b"
  "ed_text (b\<lparr>scroll_offset := s\<rparr>) = ed_text b"
  by (simp_all add: ed_text_def)

lemma upd_line_fields [simp]:
  "line_count (upd_line i f b) = line_count b" "cursor_line (upd_line i f b) = cursor_line b" "cursor_col (upd_line i f b) = cursor_col b"
  "scroll_offset (upd_line i f b) = scroll_offset b" "filepath (upd_line i f b) = filepath b"
  "length (ed_lines (upd_line i f b)) = length (ed_lines b)"
  by (simp_all add: upd_line_def)

text \<open>
  Typing a character inserts it at the cursor of the text, unless the line already has 255 characters.
\<close>

lemma insert_key:
  assumes "ed_ok b" "ch \<noteq> 0"
  shows "\<exists>b'. text_editor_insert_char ch b = Some b' \<and> ed_ok b' \<and>
    (if length (ed_text b ! cursor_line b) \<ge> 255 then b' = b
     else ed_view b' = (fst (ed_view b) @ [ch], snd (ed_view b)) \<and> ed_text b' = (ed_text b)[cursor_line b := take (cursor_col b) (ed_text b ! cursor_line b) @ ch # drop (cursor_col b) (ed_text b ! cursor_line b)])"
proof -
  let ?l = "cursor_line b" and ?c = "cursor_col b"
  let ?a = "ed_lines b ! ?l"
  note d = ed_okD [OF assms(1)]
  have l: "?l < 1000" "is_line ?a" using d(2-4) by auto
  have t: "ed_text b ! ?l = cstr ?a" using d(4,7) by simp
  show ?thesis
  proof (cases "length (cstr ?a) \<ge> 255")
    case True
    then show ?thesis using assms(1) l t d(8) line_len_is_line by (simp add: text_editor_insert_char_def EDITOR_MAX_LINES_def EDITOR_MAX_LINE_LENGTH_def)
  next
    case False
    let ?f = "\<lambda>a. (shift_right ?c (length (cstr ?a)) a)[?c := ch]"
    let ?b = "(upd_line ?l ?f b)\<lparr>cursor_col := ?c + 1, modified := True\<rparr>"
    have i: "is_line (?f ?a)" "cstr (?f ?a) = take ?c (cstr ?a) @ ch # drop ?c (cstr ?a)" using insert_in_line [OF l(2) d(5) _ assms(2)] False by auto
    have "text_editor_insert_char ch b = Some ?b"
      using False l d(5,8) line_len_is_line [OF l(2)] by (simp add: text_editor_insert_char_def EDITOR_MAX_LINES_def EDITOR_MAX_LINE_LENGTH_def)
    moreover have tx: "ed_text ?b = (ed_text b)[?l := take ?c (cstr ?a) @ ch # drop ?c (cstr ?a)]" by (simp add: ed_text_upd i)
    moreover have "ed_ok ?b"
      using d(1-5) l i by (intro ed_okI) (auto simp: upd_line_def nth_list_update)
    moreover have "ed_view ?b = (fst (ed_view b) @ [ch], snd (ed_view b))"
      unfolding ed_view_def tx using before_after_update [of ?l "ed_text b" "?c + 1" "take ?c (cstr ?a) @ ch # drop ?c (cstr ?a)"] d(4-6)
      by (simp add: before_def after_def t)
    ultimately show ?thesis using False t by auto
  qed
qed

text \<open>Lines that move down or up.\<close>

definition rows_ok :: "editor_buffer \<Rightarrow> bool" where
  "rows_ok b \<longleftrightarrow> length (ed_lines b) = 1000 \<and> (\<forall>i < 1000. is_line (ed_lines b ! i))"

definition same_cursor :: "editor_buffer \<Rightarrow> editor_buffer \<Rightarrow> bool" where
  "same_cursor b b' \<longleftrightarrow> line_count b' = line_count b \<and> cursor_line b' = cursor_line b \<and> cursor_col b' = cursor_col b \<and>
     scroll_offset b' = scroll_offset b \<and> filepath b' = filepath b"

lemma rows_upd: "rows_ok b \<Longrightarrow> (i < 1000 \<Longrightarrow> is_line (f (ed_lines b ! i))) \<Longrightarrow> rows_ok (upd_line i f b) \<and> same_cursor b (upd_line i f b)"
  by (cases "i < 1000") (auto simp: rows_ok_def same_cursor_def upd_line_def nth_list_update)

lemma ed_ok_rows: "ed_ok b \<longleftrightarrow> rows_ok b \<and> line_count b \<le> 1000 \<and> cursor_line b < line_count b \<and> cursor_col b \<le> length (cstr (ed_lines b ! cursor_line b))"
  using ed_okD [of b] ed_okI [of b] by (auto simp: rows_ok_def)

lemma lines_down_rows:
  assumes "rows_ok b" "to < 1000"
  shows "rows_ok (lines_down from to b) \<and> same_cursor b (lines_down from to b) \<and>
    (\<forall>k < 1000. cstr (ed_lines (lines_down from to b) ! k) = (if from < k \<and> k \<le> to then cstr (ed_lines b ! (k - 1)) else cstr (ed_lines b ! k)))"
  using assms
proof (induction to arbitrary: b)
  case 0
  then show ?case by (simp add: lines_down_def same_cursor_def)
next
  case (Suc to)
  show ?case
  proof (cases "from \<le> to")
    case True
    let ?b = "upd_line (Suc to) (copy_line (ed_lines b ! to)) b"
    have r: "rows_ok ?b" "same_cursor b ?b" using Suc.prems copy_line rows_upd [of b "Suc to"] by (auto simp: rows_ok_def)
    have c: "cstr (ed_lines ?b ! k) = (if k = Suc to then cstr (ed_lines b ! to) else cstr (ed_lines b ! k))" if "k < 1000" for k
      using that Suc.prems copy_line [of "ed_lines b ! to" "ed_lines b ! Suc to"] by (auto simp: rows_ok_def upd_line_def nth_list_update)
    have "lines_down from (Suc to) b = lines_down from to ?b" using True by (simp add: lines_down_def)
    moreover have "k \<le> Suc to \<longleftrightarrow> k \<le> to \<or> k = Suc to" for k by auto
    ultimately show ?thesis using Suc.IH [OF r(1)] r(2) Suc.prems(2) c True by (auto simp: same_cursor_def)
  next
    case False
    then show ?thesis using Suc.prems by (auto simp: lines_down_def same_cursor_def)
  qed
qed

lemma lines_up_rows:
  assumes "rows_ok b" "to < 1000"
  shows "rows_ok (lines_up from to b) \<and> same_cursor b (lines_up from to b) \<and>
    (\<forall>k < 1000. cstr (ed_lines (lines_up from to b) ! k) = (if from \<le> k \<and> k < to then cstr (ed_lines b ! (k + 1)) else cstr (ed_lines b ! k)))"
  using assms
proof (induction to)
  case 0
  then show ?case by (simp add: lines_up_def same_cursor_def)
next
  case (Suc to)
  show ?case
  proof (cases "from \<le> to")
    case True
    let ?b = "lines_up from to b"
    have IH: "rows_ok ?b" "same_cursor b ?b" "\<forall>k < 1000. cstr (ed_lines ?b ! k) = (if from \<le> k \<and> k < to then cstr (ed_lines b ! (k + 1)) else cstr (ed_lines b ! k))"
      using Suc.IH Suc.prems by auto
    let ?c = "upd_line to (copy_line (ed_lines ?b ! (to + 1))) ?b"
    have r: "rows_ok ?c" "same_cursor ?b ?c" using Suc.prems IH(1) copy_line rows_upd [of ?b to] by (auto simp: rows_ok_def)
    have c: "cstr (ed_lines ?c ! k) = (if k = to then cstr (ed_lines ?b ! (to + 1)) else cstr (ed_lines ?b ! k))" if "k < 1000" for k
      using that Suc.prems IH(1) copy_line [of "ed_lines ?b ! (to + 1)" "ed_lines ?b ! to"] by (auto simp: rows_ok_def upd_line_def nth_list_update)
    have "lines_up from (Suc to) b = ?c" using True by (simp add: lines_up_def)
    then show ?thesis using r IH(2,3) Suc.prems(2) c True by (auto simp: same_cursor_def)
  next
    case False
    then show ?thesis using Suc.prems by (auto simp: lines_up_def same_cursor_def)
  qed
qed

lemma lines_up_fields [simp]: "line_count (lines_up from to b) = line_count b" "cursor_line (lines_up from to b) = cursor_line b"
proof -
  have "line_count (fold (\<lambda>i b. upd_line i (copy_line (ed_lines b ! (i + 1))) b) is b) = line_count b \<and>
    cursor_line (fold (\<lambda>i b. upd_line i (copy_line (ed_lines b ! (i + 1))) b) is b) = cursor_line b" for "is" b by (induction "is" arbitrary: b) simp_all
  then show "line_count (lines_up from to b) = line_count b" "cursor_line (lines_up from to b) = cursor_line b" by (simp_all add: lines_up_def)
qed

lemma ed_text_nth: "i < line_count b \<Longrightarrow> line_count b \<le> length (ed_lines b) \<Longrightarrow> ed_text b ! i = cstr (ed_lines b ! i)"
  by (simp add: ed_text_def)

lemma length_ed_text: "line_count b \<le> length (ed_lines b) \<Longrightarrow> length (ed_text b) = line_count b"
  by (simp add: ed_text_def)

lemma rows_line: "rows_ok b \<Longrightarrow> i < 1000 \<Longrightarrow> get_line i b = Some (ed_lines b ! i) \<and> is_line (ed_lines b ! i) \<and> line_len (ed_lines b ! i) = Some (length (cstr (ed_lines b ! i)))"
  by (simp add: rows_ok_def get_line_def line_len_is_line)

lemma rows_upd_cstr:
  "rows_ok b \<Longrightarrow> k < 1000 \<Longrightarrow> cstr (ed_lines (upd_line i f b) ! k) = (if k = i then cstr (f (ed_lines b ! i)) else cstr (ed_lines b ! k))"
  by (auto simp: rows_ok_def upd_line_def nth_list_update)

text \<open>
  The enter key inserts a line feed at the cursor of the text, unless there are 1000 lines already.
\<close>

lemma newline_key:
  assumes "ed_ok b"
  shows "\<exists>b'. text_editor_newline height b = Some b' \<and> ed_ok b' \<and>
    (if line_count b \<ge> 1000 then b' = b else ed_view b' = (fst (ed_view b) @ [10], snd (ed_view b)) \<and> cursor_col b' = 0)"
proof (cases "line_count b \<ge> 1000")
  case True
  then show ?thesis using assms by (simp add: text_editor_newline_def EDITOR_MAX_LINES_def)
next
  case False
  let ?n = "line_count b" and ?l = "cursor_line b" and ?c = "cursor_col b"
  have r: "rows_ok b" "?l < ?n" "?c \<le> length (cstr (ed_lines b ! ?l))" using assms by (auto simp: ed_ok_rows)
  let ?b1 = "lines_down ?l ?n b"
  have b1: "rows_ok ?b1" "same_cursor b ?b1"
    "\<And>k. k < 1000 \<Longrightarrow> cstr (ed_lines ?b1 ! k) = (if ?l < k \<and> k \<le> ?n then cstr (ed_lines b ! (k - 1)) else cstr (ed_lines b ! k))"
    using lines_down_rows [OF r(1), of ?n ?l] False by auto
  have sc: "line_count ?b1 = ?n" "cursor_line ?b1 = ?l" "cursor_col ?b1 = ?c" using b1(2) by (auto simp: same_cursor_def)
  let ?a = "ed_lines ?b1 ! ?l"
  have a: "is_line ?a" "cstr ?a = cstr (ed_lines b ! ?l)" using rows_line [OF b1(1), of ?l] b1(3) [of ?l] False r(2) by auto
  let ?f = "split_at ?c (length (cstr ?a)) ?a"
  let ?b2 = "upd_line (?l + 1) ?f ?b1"
  have f: "is_line (?f (ed_lines ?b1 ! (?l + 1)))" "cstr (?f (ed_lines ?b1 ! (?l + 1))) = drop ?c (cstr ?a)"
    using split_at_line [OF a(1), of "ed_lines ?b1 ! (?l + 1)" ?c] rows_line [OF b1(1), of "?l + 1"] r a False by auto
  have b2: "rows_ok ?b2" "same_cursor ?b1 ?b2" using rows_upd [OF b1(1), of "?l + 1" ?f] f(1) by auto
  have a2: "ed_lines ?b2 ! ?l = ?a" by (simp add: upd_line_def)
  let ?b3 = "upd_line ?l (\<lambda>a. a[?c := 0]) ?b2"
  have g: "is_line (?a[?c := 0])" "cstr (?a[?c := 0]) = take ?c (cstr ?a)" using truncate_line [OF a(1), of ?c] r(3) a(2) by auto
  have b3: "rows_ok ?b3" "same_cursor ?b2 ?b3" using rows_upd [OF b2(1), of ?l "\<lambda>a. a[?c := 0]"] g(1) a2 by auto
  have rows: "cstr (ed_lines ?b3 ! k) = (if k = ?l then take ?c (cstr (ed_lines b ! ?l)) else if k = ?l + 1 then drop ?c (cstr (ed_lines b ! ?l))
      else if ?l < k \<and> k \<le> ?n then cstr (ed_lines b ! (k - 1)) else cstr (ed_lines b ! k))" if "k < 1000" for k
    using that rows_upd_cstr [OF b2(1) that, of ?l "\<lambda>a. a[?c := 0]"] rows_upd_cstr [OF b1(1) that, of "?l + 1" ?f] b1(3) [OF that] f(2) g(2) a(2) a2 by simp
  let ?d = "?b3\<lparr>line_count := ?n + 1, cursor_line := ?l + 1, cursor_col := 0, modified := True\<rparr>"
  let ?e = "if int (?l + 1) \<ge> scroll_offset ?d + visible_lines height then ?d\<lparr>scroll_offset := scroll_offset ?d + 1\<rparr> else ?d"
  have c256: "?c < 256" using r(3) is_line_cstr [OF rows_line [OF r(1), of ?l, THEN conjunct2, THEN conjunct1]] r(2) False by simp
  have run: "text_editor_newline height b = Some ?e"
    using False c256 r rows_line [OF r(1), of ?n] rows_line [OF b1(1), of ?l] rows_line [OF b1(1), of "?l + 1"]
    by (simp add: text_editor_newline_def EDITOR_MAX_LINES_def EDITOR_MAX_LINE_LENGTH_def Let_def sc)
  have len3: "length (ed_lines ?b3) = 1000" "length (ed_lines b) = 1000" using b3(1) r(1) by (simp_all add: rows_ok_def)
  have tx: "ed_text ?d = take ?l (ed_text b) @ [take ?c (ed_text b ! ?l), drop ?c (ed_text b ! ?l)] @ drop (?l + 1) (ed_text b)"
  proof (rule nth_equalityI)
    show "length (ed_text ?d) = length (take ?l (ed_text b) @ [take ?c (ed_text b ! ?l), drop ?c (ed_text b ! ?l)] @ drop (?l + 1) (ed_text b))"
      using len3 False r(2) by (simp add: ed_text_def)
    fix k
    assume "k < length (ed_text ?d)"
    then have k: "k < ?n + 1" using len3 False by (simp add: ed_text_def)
    then have "ed_text ?d ! k = cstr (ed_lines ?b3 ! k)" using len3 False by (simp add: ed_text_def)
    moreover have "\<not> k \<le> Suc ?l \<Longrightarrow> Suc (k - 2) = k - Suc 0" by linarith
    ultimately show "ed_text ?d ! k = (take ?l (ed_text b) @ [take ?c (ed_text b ! ?l), drop ?c (ed_text b ! ?l)] @ drop (?l + 1) (ed_text b)) ! k"
      using rows [of k] k False r(2) len3 by (auto simp: nth_append nth_Cons' ed_text_def)
  qed
  have view: "ed_view ?d = (fst (ed_view b) @ [10], snd (ed_view b))"
    unfolding ed_view_def tx using r(2) False len3 by (simp add: before_def after_def nth_append ed_text_def)
  have "ed_ok ?d" using b3(1) False r rows [of "?l + 1"] len3 by (simp add: ed_ok_rows rows_ok_def)
  then show ?thesis using run view False by (auto simp: ed_view_def ed_ok_rows rows_ok_def)
qed

text \<open>
  The backspace key deletes the character or the line feed before the cursor of the text; nothing happens at the start of the text or when the two
  lines to be joined have 255 characters or more together.
\<close>

lemma backspace_key:
  assumes "ed_ok b"
  shows "\<exists>b'. text_editor_backspace b = Some b' \<and> ed_ok b' \<and>
    (if cursor_col b = 0 \<and> (cursor_line b = 0 \<or> length (ed_text b ! (cursor_line b - 1)) + length (ed_text b ! cursor_line b) \<ge> 255) then b' = b
     else fst (ed_view b) \<noteq> [] \<and> ed_view b' = (butlast (fst (ed_view b)), snd (ed_view b)))"
proof -
  let ?n = "line_count b" and ?l = "cursor_line b" and ?c = "cursor_col b"
  let ?a = "ed_lines b ! ?l"
  have r: "rows_ok b" "?l < ?n" "?n \<le> 1000" "?c \<le> length (cstr ?a)" using assms by (auto simp: ed_ok_rows)
  have len: "length (ed_lines b) = 1000" using r(1) by (simp add: rows_ok_def)
  have t: "ed_text b ! k = cstr (ed_lines b ! k)" if "k < ?n" for k using that r(3) len by (simp add: ed_text_def)
  have al: "get_line ?l b = Some ?a" "is_line ?a" "line_len ?a = Some (length (cstr ?a))" using rows_line [OF r(1), of ?l] r(2,3) by auto
  show ?thesis
  proof (cases "?c = 0")
    case False
    let ?f = "shift_left (?c - 1) (length (cstr ?a))"
    let ?b = "(upd_line ?l ?f b)\<lparr>cursor_col := ?c - 1, modified := True\<rparr>"
    have f: "is_line (?f ?a)" "cstr (?f ?a) = take (?c - 1) (cstr ?a) @ drop ?c (cstr ?a)" using delete_in_line [OF al(2), of ?c] False r(4) by auto
    have run: "text_editor_backspace b = Some ?b" using False al by (simp add: text_editor_backspace_def)
    have tx: "ed_text ?b = (ed_text b)[?l := take (?c - 1) (cstr ?a) @ drop ?c (cstr ?a)]" using f(2) by (simp add: ed_text_upd)
    have ok: "ed_ok ?b" using rows_upd [OF r(1), of ?l ?f] f r False rows_upd_cstr [OF r(1), of ?l ?l ?f] by (simp add: ed_ok_rows rows_ok_def)
    have lt: "?l < length (ed_text b)" using r len by (simp add: ed_text_def)
    have "take ?c (cstr ?a) = take (?c - 1) (cstr ?a) @ [cstr ?a ! (?c - 1)]" using False r(4) take_Suc_conv_app_nth [of "?c - 1" "cstr ?a"] by simp
    then have "fst (ed_view b) = before (ed_text ?b) ?l (?c - 1) @ [cstr ?a ! (?c - 1)]"
      unfolding tx using r(2,4) False before_after_update(1) [OF lt, of "?c - 1" "take (?c - 1) (cstr ?a) @ drop ?c (cstr ?a)"]
      by (simp add: ed_view_def before_def t)
    moreover have "snd (ed_view ?b) = snd (ed_view b)"
      unfolding ed_view_def tx using r(2,4) False before_after_update(2) [OF lt, of "?c - 1" "take (?c - 1) (cstr ?a) @ drop ?c (cstr ?a)"] by (simp add: after_def t)
    ultimately have "fst (ed_view b) \<noteq> [] \<and> ed_view ?b = (butlast (fst (ed_view b)), snd (ed_view b))"
      by (simp add: ed_view_def)
    then show ?thesis using run ok False by auto
  next
    case c0: True
    show ?thesis
    proof (cases "?l = 0 \<or> length (ed_text b ! (?l - 1)) + length (ed_text b ! ?l) \<ge> 255")
      case True
      have "text_editor_backspace b = Some b"
      proof (cases "?l = 0")
        case False
        then show ?thesis using True c0 al rows_line [OF r(1), of "?l - 1"] r(2,3) t [of ?l] t [of "?l - 1"]
          by (simp add: text_editor_backspace_def EDITOR_MAX_LINE_LENGTH_def)
      qed (simp add: text_editor_backspace_def c0)
      then show ?thesis using assms c0 True by auto
    next
      case False
      let ?p = "ed_lines b ! (?l - 1)"
      have l: "0 < ?l" "length (cstr ?p) + length (cstr ?a) < 255" using False t [of ?l] t [of "?l - 1"] r(2) by auto
      have pl: "get_line (?l - 1) b = Some ?p" "is_line ?p" "line_len ?p = Some (length (cstr ?p))" using rows_line [OF r(1), of "?l - 1"] r(2,3) by auto
      let ?b1 = "upd_line (?l - 1) (append_line ?a) b"
      have ap: "is_line (append_line ?a ?p)" "cstr (append_line ?a ?p) = cstr ?p @ cstr ?a" using append_line [OF al(2) pl(2)] l(2) by auto
      have b1: "rows_ok ?b1" "same_cursor b ?b1" using rows_upd [OF r(1), of "?l - 1" "append_line ?a"] ap(1) by auto
      let ?b2 = "lines_up ?l (?n - 1) ?b1"
      have b2: "rows_ok ?b2" "same_cursor ?b1 ?b2"
        "\<And>k. k < 1000 \<Longrightarrow> cstr (ed_lines ?b2 ! k) = (if ?l \<le> k \<and> k < ?n - 1 then cstr (ed_lines ?b1 ! (k + 1)) else cstr (ed_lines ?b1 ! k))"
        using lines_up_rows [OF b1(1), of "?n - 1" ?l] r(2,3) by auto
      let ?b3 = "upd_line (?n - 1) (\<lambda>a. a[0 := 0]) ?b2"
      have "is_line ((ed_lines ?b2 ! (?n - 1))[0 := 0])" using truncate_line [of "ed_lines ?b2 ! (?n - 1)" 0] rows_line [OF b2(1), of "?n - 1"] r(2,3) by auto
      then have b3: "rows_ok ?b3" "same_cursor ?b2 ?b3" using rows_upd [OF b2(1), of "?n - 1" "\<lambda>a. a[0 := 0]"] by auto
      have rows: "cstr (ed_lines ?b3 ! k) = (if k = ?l - 1 then cstr ?p @ cstr ?a else if ?l \<le> k then cstr (ed_lines b ! (k + 1)) else cstr (ed_lines b ! k))"
        if "k < ?n - 1" for k
        using that r(3) l(1) rows_upd_cstr [OF b2(1), of k "?n - 1" "\<lambda>a. a[0 := 0]"] b2(3) [of k] ap(2)
          rows_upd_cstr [OF r(1), of k "?l - 1" "append_line ?a"] rows_upd_cstr [OF r(1), of "k + 1" "?l - 1" "append_line ?a"] by auto
      let ?d = "?b3\<lparr>line_count := ?n - 1, cursor_line := ?l - 1, cursor_col := length (cstr ?p), modified := True\<rparr>"
      have run: "text_editor_backspace b = Some ?d"
        using c0 l al pl rows_line [OF b2(1), of "?n - 1"] r(2,3) by (simp add: text_editor_backspace_def EDITOR_MAX_LINE_LENGTH_def Let_def)
      have len3: "length (ed_lines ?b3) = 1000" using b3(1) by (simp add: rows_ok_def)
      have tx: "ed_text ?d = take (?l - 1) (ed_text b) @ [cstr ?p @ cstr ?a] @ drop (?l + 1) (ed_text b)"
      proof (rule nth_equalityI)
        show "length (ed_text ?d) = length (take (?l - 1) (ed_text b) @ [cstr ?p @ cstr ?a] @ drop (?l + 1) (ed_text b))"
          using len3 len r(2,3) l(1) by (simp add: ed_text_def)
        fix k
        assume "k < length (ed_text ?d)"
        then have k: "k < ?n - 1" using len3 r(3) by (simp add: ed_text_def)
        then have "ed_text ?d ! k = cstr (ed_lines ?b3 ! k)" using len3 r(3) by (simp add: ed_text_def)
        then show "ed_text ?d ! k = (take (?l - 1) (ed_text b) @ [cstr ?p @ cstr ?a] @ drop (?l + 1) (ed_text b)) ! k"
          using rows [OF k] k r(2,3) len l(1) by (auto simp: nth_append nth_Cons' ed_text_def)
      qed
      have split: "take ?l (ed_text b) = take (?l - 1) (ed_text b) @ [cstr ?p]"
        using take_Suc_conv_app_nth [of "?l - 1" "ed_text b"] l(1) r(2,3) len t [of "?l - 1"] by (simp add: ed_text_def)
      have view: "fst (ed_view b) = fst (ed_view ?d) @ [10]" "snd (ed_view ?d) = snd (ed_view b)"
        unfolding ed_view_def tx using l(1) r(2,3) len by (simp_all add: before_def after_def split c0 t nth_append) (simp_all add: ed_text_def)
      have lt: "?l - 1 < ?n - 1" "?n - 1 \<le> 1000" using l(1) r(2,3) by linarith+
      have "ed_ok ?d" using b3(1) lt rows [OF lt(1)] by (simp add: ed_ok_rows rows_ok_def)
      moreover have "fst (ed_view b) \<noteq> [] \<and> ed_view ?d = (butlast (fst (ed_view b)), snd (ed_view b))"
        using view by (metis Nil_is_append_conv butlast_snoc not_Cons_self2 prod.collapse)
      ultimately show ?thesis using run False c0 by auto
    qed
  qed
qed

section \<open>Keys\<close>

text \<open>Where the arrow keys take the cursor: one column or one line, at most to the end of the line reached, and never beyond the text.\<close>

definition arrow :: "u8 \<Rightarrow> bytes list \<Rightarrow> nat \<times> nat \<Rightarrow> nat \<times> nat" where
  "arrow s T lc =
     (let (l, c) = lc in
      if s = 0x48 \<and> l > 0 then (l - 1, min c (length (T ! (l - 1))))
      else if s = 0x50 \<and> l + 1 < length T then (l + 1, min c (length (T ! (l + 1))))
      else if s = 0x4B \<and> c > 0 then (l, c - 1)
      else if s = 0x4D \<and> c < length (T ! l) then (l, c + 1)
      else (l, c))"

lemma move_vertical:
  assumes "ed_ok b"
  shows "\<exists>b'. text_editor_move_cursor height 0 dy b = Some b' \<and> ed_ok b' \<and> ed_text b' = ed_text b \<and>
    (cursor_line b', cursor_col b') = (let l = int (cursor_line b) + dy in
      if dy \<noteq> 0 \<and> 0 \<le> l \<and> l < int (line_count b) then (nat l, min (cursor_col b) (length (ed_text b ! nat l))) else (cursor_line b, cursor_col b))"
proof (cases "dy \<noteq> 0 \<and> 0 \<le> int (cursor_line b) + dy \<and> int (cursor_line b) + dy < int (line_count b)")
  case True
  let ?l = "nat (int (cursor_line b) + dy)"
  have l: "?l < line_count b" "rows_ok b" "line_count b \<le> 1000" using True assms by (auto simp: ed_ok_rows)
  then have "length (ed_text b ! ?l) = length (cstr (ed_lines b ! ?l))" using ed_okD(7) [OF assms l(1)] by simp
  then show ?thesis using True l rows_line [OF l(2), of ?l]
    by (auto simp: text_editor_move_cursor_def move_line_def move_col_def Let_def get_line_def ed_ok_rows rows_ok_def min_def)
next
  case False
  then have "move_line height dy b = Some b" unfolding move_line_def Let_def by (rule if_not_P)
  then show ?thesis using assms False by (auto simp: text_editor_move_cursor_def move_col_def Let_def)
qed

lemma move_horizontal:
  assumes "ed_ok b"
  shows "\<exists>b'. text_editor_move_cursor height dx 0 b = Some b' \<and> ed_ok b' \<and> ed_text b' = ed_text b \<and>
    (cursor_line b', cursor_col b') = (let c = int (cursor_col b) + dx in
      (cursor_line b, if 0 \<le> c \<and> c \<le> int (length (ed_text b ! cursor_line b)) then nat c else cursor_col b))"
proof -
  have r: "rows_ok b" "cursor_line b < 1000" using assms by (auto simp: ed_ok_rows)
  have t: "length (ed_text b ! cursor_line b) = length (cstr (ed_lines b ! cursor_line b))" using ed_okD(4,7) [OF assms] by simp
  have c: "cursor_col b \<le> length (cstr (ed_lines b ! cursor_line b))" using assms by (simp add: ed_ok_rows)
  show ?thesis using assms rows_line [OF r] t c
    by (auto simp: text_editor_move_cursor_def move_line_def move_col_def Let_def ed_ok_rows rows_ok_def)
qed

lemma arrow_key:
  assumes "ed_ok b" "s \<in> {0x48, 0x50, 0x4B, 0x4D}"
  shows "\<exists>b'. text_editor_handle_key height s b = Some b' \<and> ed_ok b' \<and> ed_text b' = ed_text b \<and>
    (cursor_line b', cursor_col b') = arrow s (ed_text b) (cursor_line b, cursor_col b)"
proof -
  note n = ed_okD(4-7) [OF assms(1)]
  consider "s = 0x48" | "s = 0x50" | "s = 0x4B" | "s = 0x4D" using assms(2) by blast
  then show ?thesis
  proof cases
    case 1
    then show ?thesis using move_vertical [OF assms(1), of height "-1"] n by (auto simp: text_editor_handle_key_def arrow_def Let_def nat_diff_distrib split: if_splits)
  next
    case 2
    then show ?thesis using move_vertical [OF assms(1), of height 1] n by (auto simp: text_editor_handle_key_def arrow_def Let_def nat_add_distrib split: if_splits)
  next
    case 3
    then show ?thesis using move_horizontal [OF assms(1), of height "-1"] n by (auto simp: text_editor_handle_key_def arrow_def Let_def nat_diff_distrib split: if_splits)
  next
    case 4
    then show ?thesis using move_horizontal [OF assms(1), of height 1] n by (auto simp: text_editor_handle_key_def arrow_def Let_def nat_add_distrib split: if_splits)
  qed
qed

text \<open>The whole text.\<close>

definition doc :: "bytes list \<Rightarrow> bytes" where
  "doc T = tl (concat (map (\<lambda>x. 10 # x) T))"

text \<open>
  C13: Every key acts on the text with its cursor as it should, and never leaves the arrays of the editor: a character key inserts its
  character at the cursor (unless the line has 255 characters), enter a line feed (unless there are 1000 lines), backspace removes the
  character before the cursor, joining two lines at the start of a line (unless they have 255 characters together). The arrow keys leave
  the text as it is and move the cursor: left and right by one column within the line, up and down to the line above or below, if there is
  one, in the same column or at its end if it is shorter. Every other key changes nothing.
\<close>

theorem key_acts_on_text:
  assumes "ed_ok b"
  shows "\<exists>b'. text_editor_handle_key height s b = Some b' \<and> ed_ok b' \<and>
    (let (p, q) = ed_view b; (p', q') = ed_view b' in
     if s = 0x1C then p' = (if line_count b \<ge> 1000 then p else p @ [10]) \<and> q' = q
     else if s = 0x0E then
       p' = (if cursor_col b = 0 \<and> cursor_line b > 0 \<and> length (ed_text b ! (cursor_line b - 1)) + length (ed_text b ! cursor_line b) \<ge> 255 then p else butlast p) \<and> q' = q
     else if s \<in> {0x48, 0x50, 0x4B, 0x4D} then
       ed_text b' = ed_text b \<and> (cursor_line b', cursor_col b') = arrow s (ed_text b) (cursor_line b, cursor_col b)
     else if key_char s \<noteq> 0 then
       p' = (if length (ed_text b ! cursor_line b) \<ge> 255 then p else p @ [key_char s]) \<and> q' = q
     else b' = b)"
proof -
  consider "s = 0x1C" | "s = 0x0E" | "s \<in> {0x48, 0x50, 0x4B, 0x4D}" | "s \<notin> {0x1C, 0x0E, 0x48, 0x50, 0x4B, 0x4D}" "key_char s \<noteq> 0"
    | "s \<notin> {0x1C, 0x0E, 0x48, 0x50, 0x4B, 0x4D}" "key_char s = 0" by blast
  then show ?thesis
  proof cases
    case 1
    then show ?thesis using newline_key [OF assms, of height] by (auto simp: text_editor_handle_key_def split: prod.splits)
  next
    case 2
    have "fst (ed_view b) = []" if "cursor_col b = 0" "cursor_line b = 0" using that by (simp add: ed_view_def before_def)
    then show ?thesis using 2 backspace_key [OF assms] by (auto simp: text_editor_handle_key_def split: prod.splits if_splits)
  next
    case 3
    then have "s \<noteq> 0x1C" "s \<noteq> 0x0E" by auto
    then show ?thesis using arrow_key [OF assms 3, of height] 3 by (simp only: if_False if_True) (fastforce split: prod.splits)
  next
    case 4
    then show ?thesis using insert_key [OF assms, of "key_char s"] by (auto simp: text_editor_handle_key_def split: prod.splits if_splits)
  next
    case 5
    then show ?thesis using assms by (auto simp: text_editor_handle_key_def)
  qed
qed

lemma handle_key_ok:
  assumes "ed_ok b"
  shows "\<exists>b'. text_editor_handle_key height s b = Some b' \<and> ed_ok b'"
proof -
  have "\<exists>b'. text_editor_insert_char (key_char s) b = Some b' \<and> ed_ok b'" if "key_char s \<noteq> 0" using insert_key [OF assms that] by auto
  then show ?thesis using move_vertical [OF assms, of height] move_horizontal [OF assms, of height] newline_key [OF assms, of height] backspace_key [OF assms] assms
    unfolding text_editor_handle_key_def Let_def by (auto split: if_split)
qed

text \<open>
  Whatever scan codes arrive, in whatever order, the editor handles them all, or all up to the escape key, without an access outside its
  arrays, and leaves a well-formed buffer.
\<close>

theorem editor_keys_safe:
  assumes "ed_ok b"
  shows "\<exists>go ext rest b'. editor_keys height codes was_extended b = Some (go, ext, rest, b') \<and> ed_ok b' \<and> (go \<longrightarrow> rest = []) \<and>
    (\<not> go \<longrightarrow> (\<exists>done. codes = done @ 0x01 # rest))"
  using assms
proof (induction codes arbitrary: was_extended b)
  case (Cons s r)
  have cons: "\<exists>go ext rest b'. editor_keys height r w c = Some (go, ext, rest, b') \<and> ed_ok b' \<and> (go \<longrightarrow> rest = []) \<and>
      (\<not> go \<longrightarrow> (\<exists>done. s # r = done @ 0x01 # rest))" if "ed_ok c" for w c
    using Cons.IH [OF that, of w] by (metis append_Cons)
  have esc: "s = 1" if "s AND 0x80 = 0" "s AND 0x7F = 1"
  proof -
    have "(0x80 :: u8) OR 0x7F = - 1" by simp
    then have "s = (s AND 0x80) OR (s AND 0x7F)" by (metis and.right_neutral bit.conj_disj_distrib)
    then show ?thesis using that by simp
  qed
  obtain b' where "text_editor_handle_key height (if was_extended then s AND 0x7F else s) b = Some b'" "ed_ok b'"
    using handle_key_ok [OF Cons.prems] by blast
  then show ?case using cons [OF Cons.prems, of True] cons [OF Cons.prems, of False] cons [of b' False] esc Cons.prems
    by (auto simp: Let_def)
qed auto

section \<open>Saving and loading\<close>

definition rows_sized :: "editor_buffer \<Rightarrow> bool" where
  "rows_sized b \<longleftrightarrow> length (ed_lines b) = 1000 \<and> (\<forall>i < 1000. length (ed_lines b ! i) = 256)"

lemma rows_sized_upd: "rows_sized b \<Longrightarrow> (\<And>a. length a = 256 \<Longrightarrow> length (f a) = 256) \<Longrightarrow> rows_sized (upd_line i f b)"
  unfolding rows_sized_def upd_line_def by (cases "i < 1000") (auto simp: in_set_conv_nth nth_list_update)

lemma rows_sized_count [simp]: "rows_sized (b\<lparr>line_count := n\<rparr>) = rows_sized b"
  by (simp add: rows_sized_def)

lemma load_line:
  assumes "10 \<notin> set x" "pos + length x \<le> 255" "line_count b < 1000" "length (ed_lines b) = 1000" "length (ed_lines b ! line_count b) = 256"
  shows "load_chars (x @ cs) pos b = load_chars cs (pos + length x) (upd_line (line_count b) (\<lambda>a. take pos a @ x @ drop (pos + length x) a) b)"
  using assms
proof (induction x arbitrary: pos b)
  case Nil
  then show ?case by (simp add: upd_line_def)
next
  case (Cons c x)
  let ?n = "line_count b"
  let ?b = "upd_line ?n (\<lambda>a. a[pos := c]) b"
  have "upd_line ?n (\<lambda>a. take (pos + 1) a @ x @ drop (pos + 1 + length x) a) ?b = upd_line ?n (\<lambda>a. take pos a @ (c # x) @ drop (pos + length (c # x)) a) b"
    using Cons.prems by (auto simp: upd_line_def take_Suc_conv_app_nth)
  moreover have "load_chars ((c # x) @ cs) pos b = load_chars (x @ cs) (pos + 1) ?b"
    using Cons.prems by (simp add: EDITOR_MAX_LINES_def EDITOR_MAX_LINE_LENGTH_def)
  moreover have "load_chars (x @ cs) (pos + 1) ?b = load_chars cs (pos + 1 + length x) (upd_line ?n (\<lambda>a. take (pos + 1) a @ x @ drop (pos + 1 + length x) a) ?b)"
    using Cons.IH [of "pos + 1" ?b] Cons.prems by (simp add: upd_line_def)
  ultimately show ?case by simp
qed

text \<open>A line and its end: what the row holds before does not matter.\<close>

definition put_row :: "bytes \<Rightarrow> editor_buffer \<Rightarrow> editor_buffer" where
  "put_row x b = (upd_line (line_count b) (\<lambda>a. (take 0 a @ x @ drop (length x) a)[length x := 0]) b)\<lparr>line_count := line_count b + 1\<rparr>"

lemma put_row:
  assumes "rows_sized b" "line_count b < 1000" "0 \<notin> set x" "length x \<le> 255"
  shows "rows_sized (put_row x b) \<and> line_count (put_row x b) = line_count b + 1 \<and> ed_text (put_row x b) = ed_text b @ [x]"
proof -
  let ?n = "line_count b" and ?f = "\<lambda>a. (take 0 a @ x @ drop (length x) a)[length x := 0]"
  have n: "?n < length (ed_lines b)" "length (ed_lines b ! ?n) = 256" using assms(1,2) by (auto simp: rows_sized_def)
  have "rows_sized (upd_line ?n ?f b)" using assms(1,4) by (intro rows_sized_upd) auto
  moreover have "cstr (?f (ed_lines b ! ?n)) = x" using assms(3,4) n(2) by (intro cstr_eqI) (auto simp: nth_append)
  moreover have "ed_text ((upd_line ?n g b)\<lparr>line_count := ?n + 1\<rparr>) = ed_text b @ [cstr (g (ed_lines b ! ?n))]" for g
    using n(1) by (simp add: ed_text_def upd_line_def take_Suc_conv_app_nth)
  ultimately show ?thesis by (simp only: put_row_def rows_sized_count) simp
qed

definition loadable :: "bytes list \<Rightarrow> bool" where
  "loadable T \<longleftrightarrow> (\<forall>x \<in> set T. 10 \<notin> set x \<and> 0 \<notin> set x \<and> length x \<le> 255)"

lemma load_lines:
  assumes "loadable T" "rows_sized b" "line_count b + length T \<le> 1000"
  shows "\<exists>b'. load_chars (concat (map (\<lambda>x. x @ [10]) T) @ cs) 0 b = load_chars cs 0 b' \<and> rows_sized b' \<and>
    line_count b' = line_count b + length T \<and> ed_text b' = ed_text b @ T"
  using assms
proof (induction T arbitrary: b)
  case (Cons x T)
  have r: "rows_sized (put_row x b)" "line_count (put_row x b) = line_count b + 1" "ed_text (put_row x b) = ed_text b @ [x]"
    using put_row [of b x] Cons.prems by (auto simp: loadable_def)
  have "load_chars (x @ 10 # cs') 0 b = load_chars cs' 0 (put_row x b)" for cs'
  proof -
    have "load_chars (x @ 10 # cs') 0 b = load_chars (10 # cs') (length x) (upd_line (line_count b) (\<lambda>a. take 0 a @ x @ drop (length x) a) b)"
      using load_line [of x 0 b "10 # cs'"] Cons.prems by (simp add: loadable_def rows_sized_def)
    then show ?thesis using Cons.prems by (simp add: put_row_def EDITOR_MAX_LINES_def) (simp add: upd_line_def rows_sized_def)
  qed
  then show ?case using Cons.IH [of "put_row x b"] r Cons.prems by (simp add: loadable_def)
qed auto

lemma doc_snoc: "doc (T @ [x]) = concat (map (\<lambda>x. x @ [10]) T) @ x"
proof -
  have "10 # concat (map (\<lambda>x. x @ [10]) T) = concat (map (\<lambda>x. 10 # x) T) @ [10 :: u8]" by (induction T) simp_all
  then have "concat (map (\<lambda>x. 10 # x) (T @ [x])) = 10 # concat (map (\<lambda>x. x @ [10]) T) @ x" by simp
  then show ?thesis by (simp only: doc_def list.sel)
qed

lemma load_doc:
  assumes "loadable (T @ [x])" "rows_sized b" "length T < 1000"
  shows "ed_text (load_text (doc (T @ [x])) b) = (if x = [] \<and> T \<noteq> [] then T else T @ [x])"
proof -
  let ?b = "b\<lparr>line_count := 0\<rparr>"
  have s: "loadable T" "rows_sized ?b" "line_count ?b + length T \<le> 1000" "ed_text ?b = []" using assms by (auto simp: loadable_def rows_sized_def ed_text_def)
  obtain c where c: "load_chars (concat (map (\<lambda>x. x @ [10]) T) @ x) 0 ?b = load_chars x 0 c" "rows_sized c" "line_count c = length T" "ed_text c = T"
    using load_lines [OF s(1-3), of x] s(4) by auto
  have n: "length (ed_lines c ! length T) = 256" "length (ed_lines c) = 1000" using c(2) assms(3) by (auto simp: rows_sized_def)
  have x: "10 \<notin> set x" "0 \<notin> set x" "length x \<le> 255" using assms(1) by (auto simp: loadable_def)
  have l: "load_chars x 0 c = (length x, upd_line (length T) (\<lambda>a. take 0 a @ x @ drop (length x) a) c)"
    using load_line [of x 0 c "[]"] x c(3) n assms(3) by simp
  let ?u = "upd_line (length T) (\<lambda>a. take 0 a @ x @ drop (length x) a) c"
  have p: "(upd_line (length T) (\<lambda>a. a[length x := 0]) ?u)\<lparr>line_count := line_count c + 1\<rparr> = put_row x c"
    using c(3) n assms(3) by (simp add: put_row_def) (simp add: upd_line_def)
  show ?thesis
  proof (cases "x = [] \<and> T \<noteq> []")
    case True
    moreover from this have "?u = c" by (simp add: upd_line_def)
    ultimately show ?thesis using c l by (simp add: load_text_def doc_snoc)
  next
    case False
    then have "length x > 0 \<or> line_count ?u = 0" using c(3) by auto
    then have "load_text (doc (T @ [x])) b = (put_row x c)\<lparr>modified := False\<rparr>" using p c(1,3) l by (simp add: load_text_def doc_snoc Let_def)
    then show ?thesis using False put_row [OF c(2) _ x(2,3)] c(3,4) assms(3) by simp
  qed
qed

lemma save_chunks_doc:
  assumes "ed_ok b"
  shows "concat (save_chunks b) = doc (ed_text b)"
proof -
  have f: "concat (concat (map (\<lambda>i. g i # (if i + 1 < Suc n then [[10]] else [])) [0..<Suc n])) = concat (map (\<lambda>x. x @ [10]) (map g [0..<n])) @ g n" for g n
  proof -
    have "concat (map (\<lambda>i. g i # (if i + 1 < Suc n then [[10]] else [])) [0..<n]) = concat (map (\<lambda>i. [g i, [10]]) [0..<n])" by (intro arg_cong [where f = concat] map_cong) auto
    moreover have "concat (concat (map (\<lambda>i. [g i, [10]]) xs)) = concat (map (\<lambda>x. x @ [10]) (map g xs))" for xs by (induction xs) simp_all
    ultimately show ?thesis by simp
  qed
  obtain n where n: "line_count b = Suc n" using ed_okD(4) [OF assms] by (cases "line_count b") auto
  have t: "ed_text b = map (\<lambda>i. cstr (ed_lines b ! i)) [0..<n] @ [cstr (ed_lines b ! n)]"
    using n ed_okD(1,3) [OF assms] by (intro nth_equalityI) (auto simp: ed_text_def nth_append less_Suc_eq)
  show ?thesis unfolding save_chunks_def n f t doc_snoc ..
qed

section \<open>Witnesses\<close>

text \<open>A buffer with the lines ``ab'' and ``c'', the cursor behind the ``a''.\<close>

definition demo_row :: "bytes \<Rightarrow> bytes" where
  "demo_row x = x @ replicate (256 - length x) 0"

definition demo_buffer :: editor_buffer where
  "demo_buffer = \<lparr>ed_lines = demo_row [97, 98] # demo_row [99] # replicate 998 (demo_row []), line_count = 2, cursor_line = 0, cursor_col = 1,
     scroll_offset = 0, filepath = [], modified = False\<rparr>"

lemma demo_row: "length x \<le> 255 \<Longrightarrow> 0 \<notin> set x \<Longrightarrow> is_line (demo_row x) \<and> cstr (demo_row x) = x"
  by (cases "256 - length x") (auto simp: demo_row_def is_line_def EDITOR_MAX_LINE_LENGTH_def cstr_append_nul)

lemma demo_buffer: "ed_ok demo_buffer" "ed_text demo_buffer = [[97, 98], [99]]" "rows_sized demo_buffer"
proof -
  have rows: "is_line (demo_row [97, 98])" "cstr (demo_row [97, 98]) = [97, 98]" "is_line (demo_row [99])" "cstr (demo_row [99]) = [99]" "is_line (demo_row [])"
    using demo_row [of "[97, 98]"] demo_row [of "[99]"] demo_row [of "[]"] by simp_all
  then show "ed_text demo_buffer = [[97, 98], [99]]" "ed_ok demo_buffer"
    by (auto simp: ed_ok_def ed_text_def demo_buffer_def EDITOR_MAX_LINES_def numeral_2_eq_2)
  have "\<forall>a \<in> set (ed_lines demo_buffer). length a = 256" "length (ed_lines demo_buffer) = 1000"
    using rows by (auto simp: demo_buffer_def is_line_def EDITOR_MAX_LINE_LENGTH_def)
  then show "rows_sized demo_buffer" by (simp add: rows_sized_def)
qed

theorem key_acts_on_text_witness:
  "(\<exists>b'. text_editor_handle_key 500 0x2D demo_buffer = Some b' \<and> ed_view b' = ([97, 120], [98, 10, 99])) \<and>
   (\<exists>b'. text_editor_handle_key 500 0x50 demo_buffer = Some b' \<and> ed_text b' = [[97, 98], [99]] \<and> cursor_line b' = 1 \<and> cursor_col b' = 1)"
proof
  have c: "cursor_line demo_buffer = 0" "cursor_col demo_buffer = 1" by (simp_all add: demo_buffer_def)
  then have v: "ed_view demo_buffer = ([97], [98, 10, 99])" unfolding ed_view_def demo_buffer(2) by (simp add: before_def after_def)
  have "key_char 0x2D = 120" by code_simp
  then show "\<exists>b'. text_editor_handle_key 500 0x2D demo_buffer = Some b' \<and> ed_view b' = ([97, 120], [98, 10, 99])"
    using key_acts_on_text [OF demo_buffer(1), of 500 "0x2D"] demo_buffer(2) c v by (auto simp: Let_def case_prod_beta prod_eq_iff)
  show "\<exists>b'. text_editor_handle_key 500 0x50 demo_buffer = Some b' \<and> ed_text b' = [[97, 98], [99]] \<and> cursor_line b' = 1 \<and> cursor_col b' = 1"
    using key_acts_on_text [OF demo_buffer(1), of 500 "0x50"] demo_buffer(2) c by (auto simp: Let_def case_prod_beta arrow_def)
qed

theorem editor_keys_safe_witness:
  "\<exists>go ext rest b'. editor_keys 500 [0x1C, 0xE0, 0x4B, 0x0E, 0x01, 0x02] False demo_buffer = Some (go, ext, rest, b') \<and> ed_ok b'"
  using editor_keys_safe [OF demo_buffer(1), of 500 "[0x1C, 0xE0, 0x4B, 0x0E, 0x01, 0x02]" False] by blast

end
