(* ===== verification/Editor_Files.thy ===== *)
theory Editor_Files
  imports Editor_Props VFS_Files
begin

text \<open>
  The files of the text editor, end to end: what a save writes to TinyFS through the virtual file system is what a load reads, up to
  the 4095 bytes that a load takes.
\<close>

section \<open>Saving\<close>

text \<open>Writing pieces one after the other writes what they are together.\<close>

lemma write_chunks_spec:
  assumes "block_device ops ok content" "open_file ops ok content bb k dir name i cap j p pos xs s" "length bb = 512"
    "unat pos \<le> length xs" "unat pos + length (concat cs) < 2 ^ 31" "unat pos + length (concat cs) + 1 \<le> 512 * cap"
  shows "\<exists>s'. write_chunks (int j) cs s = Some s' \<and> beside p s s' \<and>
    open_file ops ok content bb k dir name i cap j p (pos + of_nat (length (concat cs))) (overwrite (unat pos) (concat cs) xs) s'"
  using assms(2,4-6)
proof (induction cs arbitrary: pos xs s)
  case Nil
  then show ?case by (simp add: overwrite_def)
next
  case (Cons c cs)
  obtain s1 where s1: "vfs_write (int j) c s = Some (int (length c), s1)" "beside p s s1"
    "open_file ops ok content bb k dir name i cap j p (pos + of_nat (length c)) (overwrite (unat pos) c xs) s1"
  proof -
    have "unat pos + length c < 2 ^ 31" "unat pos + max 1 (length c) \<le> 512 * cap" using Cons.prems(3,4) by auto
    then show thesis using write_piece [OF assms(1) Cons.prems(1) assms(3) Cons.prems(2), of c] that by blast
  qed
  have u: "unat (pos + of_nat (length c)) = unat pos + length c" using end_pos(1) [of pos "length c"] Cons.prems(3) by simp
  have l: "unat (pos + of_nat (length c)) \<le> length (overwrite (unat pos) c xs)" unfolding u length_overwrite [OF Cons.prems(2)] by simp
  obtain s2 where s2: "write_chunks (int j) cs s1 = Some s2" "beside p s1 s2"
    "open_file ops ok content bb k dir name i cap j p (pos + of_nat (length c) + of_nat (length (concat cs)))
       (overwrite (unat pos + length c) (concat cs) (overwrite (unat pos) c xs)) s2"
    using Cons.IH [OF s1(3) l] Cons.prems(3,4) unfolding u by auto
  then show ?case using s1(1,2) beside_trans overwrite_app [OF Cons.prems(2), of c "concat cs"] by (auto simp: add.assoc)
qed


section \<open>The lines of a text\<close>

fun text_lines :: "bytes \<Rightarrow> bytes list" where
  "text_lines [] = [[]]"
| "text_lines (c # cs) = (if c = 10 then [] # text_lines cs else (c # hd (text_lines cs)) # tl (text_lines cs))"

lemma text_lines_ne [simp]: "text_lines cs \<noteq> []"
  by (cases cs) simp_all

lemma text_lines_append: "text_lines (xs @ ys) = butlast (text_lines xs) @ (last (text_lines xs) @ hd (text_lines ys)) # tl (text_lines ys)"
proof (induction xs)
  case (Cons c xs)
  obtain l ls where "text_lines xs = l # ls" by (cases "text_lines xs") auto
  then show ?case using Cons by (cases ls) auto
qed simp

lemma text_lines_plain: "10 \<notin> set x \<Longrightarrow> text_lines x = [x]"
  by (induction x) auto

lemma text_lines_doc: "T \<noteq> [] \<Longrightarrow> \<forall>x \<in> set T. 10 \<notin> set x \<Longrightarrow> text_lines (doc T) = T"
proof (induction T rule: rev_induct)
  case (snoc x T)
  have "text_lines (concat (map (\<lambda>x. x @ [10]) U) @ ys) = U @ text_lines ys" if "\<forall>x \<in> set U. 10 \<notin> set x" for U ys
    using that by (induction U) (auto simp: text_lines_append text_lines_plain)
  then show ?case using snoc.prems by (simp add: doc_snoc text_lines_plain)
qed simp

lemma doc_Cons: "T \<noteq> [] \<Longrightarrow> doc (x # T) = x @ 10 # doc T"
  by (cases T) (simp_all add: doc_def)

lemma doc_text_lines: "doc (text_lines cs) = cs"
proof (induction cs)
  case (Cons c cs)
  obtain l ls where l: "text_lines cs = l # ls" by (cases "text_lines cs") auto
  then show ?case using Cons by (auto simp: doc_Cons) (simp add: doc_def)
qed (simp add: doc_def)

lemma text_lines_loadable:
  assumes "loadable (text_lines (xs @ ys))"
  shows "loadable (text_lines xs)" "length (text_lines xs) \<le> length (text_lines (xs @ ys))"
proof -
  have "text_lines xs = butlast (text_lines xs) @ [last (text_lines xs)]" by simp
  then have "set (text_lines xs) = insert (last (text_lines xs)) (set (butlast (text_lines xs)))" by (metis Un_insert_right list.set(1,2) set_append sup_bot_right)
  then show "loadable (text_lines xs)" using assms unfolding text_lines_append loadable_def by auto
  show "length (text_lines xs) \<le> length (text_lines (xs @ ys))" unfolding text_lines_append by (cases "text_lines xs"; cases "text_lines ys") auto
qed

lemma load_lines_of:
  assumes "loadable (text_lines cs)" "length (text_lines cs) \<le> 1000" "rows_sized b"
  shows "ed_text (load_text cs b) = (let L = text_lines cs in if last L = [] \<and> length L > 1 then butlast L else L)"
proof -
  let ?L = "text_lines cs"
  have L: "?L = butlast ?L @ [last ?L]" by simp
  have "ed_text (load_text (doc (butlast ?L @ [last ?L])) b) = (if last ?L = [] \<and> butlast ?L \<noteq> [] then butlast ?L else butlast ?L @ [last ?L])"
    by (rule load_doc) (use assms L in \<open>auto simp: Suc_le_eq\<close>)
  moreover have "butlast ?L \<noteq> [] \<longleftrightarrow> length ?L > 1" by (cases ?L rule: rev_cases) auto
  ultimately show ?thesis using L doc_text_lines [of cs] by (simp add: Let_def)
qed

section \<open>Save and load\<close>

lemma loadable_text:
  assumes "ed_ok b" "\<forall>x \<in> set (ed_text b). 10 \<notin> set x"
  shows "loadable (ed_text b)" "ed_text b \<noteq> []" "length (ed_text b) \<le> 1000"
proof -
  note d = ed_okD [OF assms(1)]
  have "length x \<le> 255 \<and> 0 \<notin> set x" if "x \<in> set (ed_text b)" for x
  proof -
    obtain i where "i < length (ed_text b)" "x = ed_text b ! i" using \<open>x \<in> set (ed_text b)\<close> by (auto simp: in_set_conv_nth)
    then have "x = cstr (ed_lines b ! i)" "is_line (ed_lines b ! i)" using d(2) [of i] d(3,6) d(7) [of i] by simp_all
    then show ?thesis using is_line_cstr by simp
  qed
  then show "loadable (ed_text b)" using assms(2) by (auto simp: loadable_def)
  show "ed_text b \<noteq> []" "length (ed_text b) \<le> 1000" using d(3,4,6) by auto
qed

lemma save_spec:
  assumes "block_device ops ok content" "vfs_ok s" "tinyfs_at ops bb k data d s" "root_at r rn k s" "stored ok content (n_inode rn) name i cap xs data d"
    and "length bb = 512" "name \<noteq> []" "0 \<notin> set name" "47 \<notin> set name" "length name \<le> 255"
    and "\<exists>j. 3 \<le> j \<and> j < 256 \<and> \<not> fd_used (vfs_fd_table s ! j)" "node_mem s (length (vnodes s)) \<noteq> None"
    and "ed_ok b" "filepath b = 47 # name" "length (doc (ed_text b)) < 2 ^ 31" "length (doc (ed_text b)) + 1 \<le> 512 * cap"
  shows "\<exists>s' data' d'. text_editor_save b s = Some (b\<lparr>modified := False\<rparr>, s') \<and> vfs_ok s' \<and> tinyfs_at ops bb k data' d' s' \<and> root_at r rn k s' \<and>
    stored ok content (n_inode rn) name i cap (overwrite 0 (doc (ed_text b)) xs) data' d' \<and>
    (\<exists>j. 3 \<le> j \<and> j < 256 \<and> \<not> fd_used (vfs_fd_table s' ! j)) \<and> length (vnodes s') = Suc (length (vnodes s)) \<and> node_mem s' = node_mem s"
proof -
  let ?p = "length (vnodes s)" and ?doc = "doc (ed_text b)"
  obtain j s1 where o: "vfs_open (Some (47 # name)) FILE_WRITE s = Some (int j, s1)"
    "open_file ops ok content bb k (n_inode rn) name i cap j ?p 0 xs s1" "root_at r rn k s1" "r < ?p" "j < 256"
    "length (vnodes s1) = Suc ?p" "node_mem s1 = node_mem s"
    using open_stored [OF assms(2-5) assms(7-12), of FILE_WRITE] by blast
  have c: "concat (save_chunks b) = ?doc" by (rule save_chunks_doc [OF assms(13)])
  obtain s2 where w: "write_chunks (int j) (save_chunks b) s1 = Some s2" "beside ?p s1 s2"
    "open_file ops ok content bb k (n_inode rn) name i cap j ?p (of_nat (length ?doc)) (overwrite 0 ?doc xs) s2"
    using write_chunks_spec [OF assms(1) o(2) assms(6), of "save_chunks b"] assms(15,16) unfolding c by auto
  obtain s3 data' d' where cl: "vfs_close (int j) s2 = Some (0, s3)" "beside ?p s2 s3" "vfs_ok s3" "\<not> fd_used (vfs_fd_table s3 ! j)"
    "tinyfs_at ops bb k data' d' s3" "stored ok content (n_inode rn) name i cap (overwrite 0 ?doc xs) data' d'"
    using close_file [OF w(3)] by blast
  have b: "beside ?p s1 s3" by (rule beside_trans [OF w(2) cl(2)])
  have "text_editor_save b s = Some (b\<lparr>modified := False\<rparr>, s3)" using o(1) w(1) cl(1) assms(14) by (simp add: text_editor_save_def)
  moreover have "root_at r rn k s3" using beside_root [OF b o(3)] o(4) by simp
  moreover have "3 \<le> j" using o(2) by (simp add: open_file_def)
  ultimately show ?thesis using cl o(5-7) b unfolding beside_def by metis
qed

lemma load_spec:
  assumes "block_device ops ok content" "vfs_ok s" "tinyfs_at ops bb k data d s" "root_at r rn k s" "stored ok content (n_inode rn) name i cap xs data d"
    and "length bb = 512" "name \<noteq> []" "0 \<notin> set name" "47 \<notin> set name" "length name \<le> 255"
    and "\<exists>j. 3 \<le> j \<and> j < 256 \<and> \<not> fd_used (vfs_fd_table s ! j)" "node_mem s (length (vnodes s)) \<noteq> None"
    and "length xs < 2 ^ 31" "length junk = 4096"
  shows "\<exists>s'. text_editor_load junk (47 # name) c s = Some (load_text (take 4095 xs) c, s')"
proof -
  let ?p = "length (vnodes s)"
  obtain j s1 where o: "vfs_open (Some (47 # name)) FILE_READ s = Some (int j, s1)"
    "open_file ops ok content bb k (n_inode rn) name i cap j ?p 0 xs s1"
    using open_stored [OF assms(2-5) assms(7-12), of FILE_READ] by blast
  obtain s2 where rd: "vfs_read (int j) junk 4095 s1 = Some (int (min 4095 (length xs)), put_at 0 (take 4095 xs) junk, s2)"
    "open_file ops ok content bb k (n_inode rn) name i cap j ?p (of_nat (min 4095 (length xs))) xs s2"
    using read_from_start [OF assms(1) o(2) assms(6,13), of 4095 junk] assms(14) by auto
  obtain s3 where cl: "vfs_close (int j) s2 = Some (0, s3)" using close_file [OF rd(2)] by blast
  have "take (min 4095 (length xs)) (put_at 0 (take 4095 xs) junk) = take 4095 xs" by (simp add: put_at_def min_def)
  then show ?thesis using o(1) rd(1) cl by (simp add: text_editor_load_def nat_int del: of_nat_min)
qed

text \<open>
  C14: A save followed by a load, through the virtual file system and TinyFS, for a file of the root directory that is not longer than the
  text and has room for it: both succeed, and the editor that loads holds the lines of the first 4095 bytes of the text,
  whatever its rows held before, without the last line if that is empty. A text of at most 4095 bytes is loaded as it
  was saved, except for an empty last line.
\<close>

theorem saved_text_loaded:
  assumes "block_device ops ok content" "vfs_ok s" "tinyfs_at ops bb k data d s" "root_at r rn k s"
    and "ok d" "tables_ok data" "find_idx (named_in (n_inode rn) name) (dirents data) = Some i" "file_chain data i bs"
    and "unat (d_size (dirents data ! i)) \<le> 512 * length bs" "unat (d_size (dirents data ! i)) \<le> length (doc (ed_text b))"
    and "length bb = 512" "name \<noteq> []" "0 \<notin> set name" "47 \<notin> set name" "length name \<le> 255"
    and "\<exists>j. 3 \<le> j \<and> j < 256 \<and> \<not> fd_used (vfs_fd_table s ! j)" "\<forall>n \<le> Suc (length (vnodes s)). node_mem s n \<noteq> None"
    and "ed_ok b" "\<forall>x \<in> set (ed_text b). 10 \<notin> set x" "filepath b = 47 # name"
    and "length (doc (ed_text b)) < 512 * (length bs + card (free_set (fat data)))" "length (doc (ed_text b)) < 2 ^ 31"
    and "rows_sized c" "length junk = 4096"
  shows "\<exists>s1 c' s2. text_editor_save b s = Some (b\<lparr>modified := False\<rparr>, s1) \<and> text_editor_load junk (47 # name) c s1 = Some (c', s2) \<and>
    (let L = text_lines (take 4095 (doc (ed_text b))) in
     ed_text c' = (if last L = [] \<and> length L > 1 then butlast L else L) \<and> (length (doc (ed_text b)) \<le> 4095 \<longrightarrow> L = ed_text b))"
proof -
  let ?doc = "doc (ed_text b)" and ?xs = "take (unat (d_size (dirents data ! i))) (file_bytes (content d) bs)" and ?cap = "length bs + card (free_set (fat data))"
  have "length (file_bytes (content d) bs) = 512 * length bs"
    using assms(8) fchain_block(3) block_device.file_bytes_length [OF assms(1,5)] by (auto simp: file_chain_def)
  then have l: "length ?xs = unat (d_size (dirents data ! i))" using assms(9) by simp
  then have st: "stored ok content (n_inode rn) name i ?cap ?xs data d" using assms(5-9) by (auto simp: stored_def contents_def min_def)
  have new: "overwrite 0 ?doc ?xs = ?doc" using l assms(10) by (simp add: overwrite_def)
  have mem: "node_mem s (length (vnodes s)) \<noteq> None" "node_mem s (Suc (length (vnodes s))) \<noteq> None" using assms(17) by simp_all
  obtain s1 data1 d1 where s1: "text_editor_save b s = Some (b\<lparr>modified := False\<rparr>, s1)" "vfs_ok s1" "tinyfs_at ops bb k data1 d1 s1" "root_at r rn k s1"
    "stored ok content (n_inode rn) name i ?cap ?doc data1 d1" "\<exists>j. 3 \<le> j \<and> j < 256 \<and> \<not> fd_used (vfs_fd_table s1 ! j)"
    "length (vnodes s1) = Suc (length (vnodes s))" "node_mem s1 = node_mem s"
    using save_spec [OF assms(1-4) st assms(11-16) mem(1) assms(18,20,22)] assms(21) unfolding new by auto
  obtain s2 where s2: "text_editor_load junk (47 # name) c s1 = Some (load_text (take 4095 ?doc) c, s2)"
    using load_spec [OF assms(1) s1(2-5) assms(11-15) s1(6) _ assms(22,24)] s1(7,8) mem(2) by auto
  note t = loadable_text [OF assms(18,19)]
  have td: "text_lines ?doc = ed_text b" by (rule text_lines_doc [OF t(2) assms(19)])
  have sp: "?doc = take 4095 ?doc @ drop 4095 ?doc" by simp
  have "loadable (text_lines (take 4095 ?doc))" "length (text_lines (take 4095 ?doc)) \<le> 1000"
    using text_lines_loadable [of "take 4095 ?doc" "drop 4095 ?doc"] t td by simp_all
  from load_lines_of [OF this assms(23)] show ?thesis using s1(1) s2 td by (auto simp: Let_def)
qed

section \<open>Witness\<close>

text \<open>A disk with an empty file ``a'' and an editor with the lines ``ab'' and ``c''.\<close>

lemma created_file:
  "\<exists>data d s i. tinyfs_at ramdisk_ops (replicate 512 0) 0 data d s \<and> vfs_ok s \<and> root_at 0 root_node 0 s \<and> ramdisk_ok d \<and> tables_ok data \<and>
     find_idx (named_in (n_inode root_node) [97]) (dirents data) = Some i \<and> file_chain data i [] \<and> d_size (dirents data ! i) = 0 \<and>
     fat data = fat (empty_fs []) \<and> \<not> fd_used (vfs_fd_table s ! 3) \<and> (\<forall>n. node_mem s n \<noteq> None)"
proof -
  obtain d where d: "ramdisk_ok d" "synced (empty_fs []) (ramdisk_content d)" using format_blank by blast
  have none: "find_idx (named_in (n_inode root_node) [97]) (dirents (empty_fs [])) = None"
    by (rule find_empty) (simp add: named_in_def empty_dirent_def dirent_dec_def segment_def)
  have free: "\<exists>j. 1 \<le> j \<and> j < 256 \<and> used (dirents (empty_fs []) ! j) = 0"
    by (rule exI [of _ 1]) (simp add: empty_fs_def empty_dirent_def dirent_dec_def segment_def)
  have ty: "n_type root_node = FILE_TYPE_DIRECTORY" by (simp add: root_node_def)
  obtain data1 d1 node i where c: "ramdisk_ok d1" "tables_ok data1" "tinyfs_finddir (Some data1) (Some root_node) [97] (Some (demo_node 0)) = Some node"
    "n_dirent node = Some i" "n_size node = 0" "file_chain data1 i []" "fat data1 = fat (empty_fs [])"
    using create_then_find [OF rdisk.block_device_axioms d(1) empty_fs_ok d(2) ty _ none free, of FILE_TYPE_REGULAR 3 "demo_node 0"] by (auto simp: cstr_def)
  have f: "find_idx (named_in (n_inode root_node) [97]) (dirents data1) = Some i" "d_size (dirents data1 ! i) = 0"
    using c(2-5) by (auto simp: tinyfs_finddir_def dirent_node_def Let_def TINYFS_MAX_FILES_def tables_ok_def dirents_ok_def split: if_splits option.splits)
  let ?s = "set_fs 0 (Some data1) d1 (demo_tinyfs d)"
  have "tinyfs_at ramdisk_ops (replicate 512 0) 0 data1 d1 ?s" by (rule tinyfs_at_set_fs [OF demo_tinyfs_ok(2)])
  moreover have "vfs_ok ?s" by (rule set_fs_ok [OF demo_tinyfs_ok(1)])
  moreover have "root_at 0 root_node 0 ?s" using demo_tinyfs_ok(3) [of d] by (simp add: root_at_def set_fs_def)
  moreover have "\<not> fd_used (vfs_fd_table ?s ! 3)" "\<forall>n. node_mem ?s n \<noteq> None"
    by (simp_all add: set_fs_def demo_tinyfs_def vfs_init_def vfs_boot_def closed_fd_def MAX_OPEN_FILES_def)
  ultimately show ?thesis using c(1,2,6,7) f by blast
qed

theorem saved_text_loaded_witness:
  "\<exists>v s1 c' s2. text_editor_save (demo_buffer\<lparr>filepath := [47, 97]\<rparr>) (v :: (tinyfs_data option, ramdisk) vfs) = Some (demo_buffer\<lparr>filepath := [47, 97]\<rparr>, s1) \<and>
    text_editor_load (replicate 4096 0) [47, 97] demo_buffer s1 = Some (c', s2) \<and> ed_text c' = [[97, 98], [99]]"
proof -
  let ?b = "demo_buffer\<lparr>filepath := [47, 97]\<rparr>"
  have b: "ed_ok ?b" "ed_text ?b = [[97, 98], [99]]" "?b\<lparr>modified := False\<rparr> = ?b" "doc [[97, 98], [99]] = [97, 98, 10, 99]"
    using demo_buffer by (simp_all add: ed_ok_def ed_text_def demo_buffer_def doc_def)
  obtain data d s i where v: "tinyfs_at ramdisk_ops (replicate 512 0) 0 data d s" "vfs_ok s" "root_at 0 root_node 0 s" "ramdisk_ok d" "tables_ok data"
     "find_idx (named_in (n_inode root_node) [97]) (dirents data) = Some i" "file_chain data i []" "d_size (dirents data ! i) = 0"
     "fat data = fat (empty_fs [])" "\<not> fd_used (vfs_fd_table s ! 3)" "\<forall>n. node_mem s n \<noteq> None" using created_file by blast
  have fd: "\<exists>j. 3 \<le> j \<and> j < 256 \<and> \<not> fd_used (vfs_fd_table s ! j)" using v(10) by (intro exI [of _ 3]) simp
  have mem: "\<forall>n \<le> Suc (length (vnodes s)). node_mem s n \<noteq> None" using v(11) by blast
  have "\<exists>s1 c' s2. text_editor_save ?b s = Some (?b\<lparr>modified := False\<rparr>, s1) \<and> text_editor_load (replicate 4096 0) (47 # [97]) demo_buffer s1 = Some (c', s2) \<and>
    (let L = text_lines (take 4095 (doc (ed_text ?b))) in
     ed_text c' = (if last L = [] \<and> length L > 1 then butlast L else L) \<and> (length (doc (ed_text ?b)) \<le> 4095 \<longrightarrow> L = ed_text ?b))"
    by (rule saved_text_loaded [OF rdisk.block_device_axioms v(2,1,3-7) _ _ _ _ _ _ _ fd mem b(1)])
      (use v(8,9) b(2,4) demo_buffer(3) empty_fs_free [of "[]"] in simp_all)
  then show ?thesis unfolding b(2,3,4) by (auto simp: Let_def)
qed

end
