(* ===== verification/Keyboard.thy ===== *)
theory Keyboard
  imports VFS
begin

unbundle bit_operations_syntax

text \<open>
  The keyboard and the command line: the command history (\<open>command_history.h\<close>), the ring of scan codes that the interrupt
  handler fills (\<open>Tables/idt.c\<close>), their translation, the editing of the input line, and the arrow keys (\<open>Shell/shell.c\<close>). Echo on the
  screen and on the serial line is not part of the state. The result \<open>None\<close> stands for an access outside an array.
\<close>

section \<open>Command history\<close>

definition HISTORY_SIZE :: nat where "HISTORY_SIZE = 50"
definition CMD_MAX_LENGTH :: nat where "CMD_MAX_LENGTH = 256"

text \<open>A row of \<open>commands\<close> is the text before its NUL; \<open>current\<close> is -1 while no command is recalled.\<close>

record command_history =
  commands :: "bytes list"
  count :: nat
  current :: int
  write_pos :: nat

text \<open>The comparison of two strings up to their ends.\<close>

fun strings_equal :: "bytes \<Rightarrow> bytes \<Rightarrow> bool" where
  "strings_equal (a # s1) (b # s2) = (if a \<noteq> b then False else strings_equal s1 s2)"
| "strings_equal [] [] = True"
| "strings_equal _ _ = False"

definition history_add :: "bytes option \<Rightarrow> command_history \<Rightarrow> command_history" where
  "history_add cmd h =
     (case cmd of
        None \<Rightarrow> h
      | Some c \<Rightarrow>
          if c = [] then h
          else if count h > 0 \<and> strings_equal (commands h ! ((write_pos h + HISTORY_SIZE - 1) mod HISTORY_SIZE)) c then h
          else h\<lparr>commands := (commands h)[write_pos h := take (CMD_MAX_LENGTH - 1) c], write_pos := (write_pos h + 1) mod HISTORY_SIZE,
                 count := (if count h < HISTORY_SIZE then count h + 1 else count h), current := -1\<rparr>)"

text \<open>The loop that counts the steps from a row to the next row to be written.\<close>

partial_function (option) steps_back :: "nat \<Rightarrow> nat \<Rightarrow> nat \<Rightarrow> nat option" where
  "steps_back wp pos n = (if pos \<noteq> wp then steps_back wp ((pos + 1) mod HISTORY_SIZE) (n + 1) else Some n)"

definition history_prev :: "command_history \<Rightarrow> (bytes option \<times> command_history) option" where
  "history_prev h =
     (if count h = 0 then Some (None, h)
      else do {
        h \<leftarrow> (if current h = -1 then Some (h\<lparr>current := int ((write_pos h + HISTORY_SIZE - 1) mod HISTORY_SIZE)\<rparr>)
              else do {
                n \<leftarrow> steps_back (write_pos h) (nat (current h)) 0;
                Some (if n < count h then h\<lparr>current := int ((nat (current h) + HISTORY_SIZE - 1) mod HISTORY_SIZE)\<rparr> else h) });
        Some (Some (commands h ! nat (current h)), h) })"

definition history_next :: "command_history \<Rightarrow> bytes option \<times> command_history" where
  "history_next h =
     (if current h = -1 then (None, h)
      else let next_pos = (nat (current h) + 1) mod HISTORY_SIZE in
        if next_pos = write_pos h then (Some [], h\<lparr>current := -1\<rparr>)
        else (Some (commands h ! next_pos), h\<lparr>current := int next_pos\<rparr>))"

definition history_reset :: "command_history \<Rightarrow> command_history" where
  "history_reset h = h\<lparr>current := -1\<rparr>"

text \<open>The commands that are listed, with their numbers.\<close>

definition history_list :: "command_history \<Rightarrow> (nat \<times> bytes) list" where
  "history_list h =
     (let start = (if count h < HISTORY_SIZE then 0 else write_pos h)
      in map (\<lambda>i. (i + 1, commands h ! ((start + i) mod HISTORY_SIZE))) [0..<count h])"

section \<open>Scan codes\<close>

definition INPUT_BUFFER_SIZE :: nat where "INPUT_BUFFER_SIZE = 256"

record keyboard =
  scancode_buffer :: "u8 list"
  scancode_read_pos :: u8
  scancode_write_pos :: u8
  interrupt_counter :: u32
  last_scancode :: u8
  input_buffer :: bytes
  input_pos :: nat
  input_ready :: bool
  shift_pressed :: bool
  cmd_history :: command_history

definition keyboard_handler :: "u8 \<Rightarrow> keyboard \<Rightarrow> keyboard" where
  "keyboard_handler al k =
     k\<lparr>interrupt_counter := interrupt_counter k + 1, last_scancode := al,
       scancode_buffer := (scancode_buffer k)[unat (scancode_write_pos k) := al], scancode_write_pos := scancode_write_pos k + 1\<rparr>"

text \<open>The keys of both tables, in the order of the scan codes; 0 stands for no character.\<close>

definition key_codes :: "nat list" where
  "key_codes = [0x02..<0x0E] @ [0x10..<0x1C] @ [0x1E..<0x2A] @ [0x2B..<0x36]"

definition plain_keys :: bytes where
  "plain_keys = of_string ''1234567890-='' @ of_string ''qwertyuiop[]'' @ of_string ''asdfghjkl;'' @ [39, 96] @ [92] @ of_string ''zxcvbnm,./''"

definition shifted_keys :: bytes where
  "shifted_keys = of_string ''!@#$%^&*()_+'' @ of_string ''QWERTYUIOP{}'' @ of_string ''ASDFGHJKL:'' @ [34, 126] @ of_string ''|ZXCVBNM<>?''"

definition scancode_to_ascii :: "u8 \<Rightarrow> bool \<Rightarrow> u8" where
  "scancode_to_ascii scancode shifted =
     (case map_of (zip key_codes (if shifted then shifted_keys else plain_keys) @
                   (if shifted then [] else [(0x0E, 8), (0x1C, 10), (0x39, 32)])) (unat scancode) of
        None \<Rightarrow> 0 | Some c \<Rightarrow> c)"

section \<open>The input line\<close>

definition handle_backspace :: "keyboard \<Rightarrow> keyboard option" where
  "handle_backspace k =
     (if input_pos k > 0 then
        if input_pos k - 1 < length (input_buffer k)
        then Some (k\<lparr>input_pos := input_pos k - 1, input_buffer := (input_buffer k)[input_pos k - 1 := 0]\<rparr>) else None
      else Some k)"

definition replace_input_line :: "bytes \<Rightarrow> keyboard \<Rightarrow> keyboard option" where
  "replace_input_line new_input k =
     (let t = take (INPUT_BUFFER_SIZE - 1) new_input in
      if length t < length (input_buffer k)
      then Some (k\<lparr>input_pos := length t, input_buffer := t @ 0 # drop (length t + 1) (input_buffer k)\<rparr>) else None)"

definition handle_arrow_up :: "keyboard \<Rightarrow> keyboard option" where
  "handle_arrow_up k = do {
     (prev, h) \<leftarrow> history_prev (cmd_history k);
     let k = k\<lparr>cmd_history := h\<rparr>;
     case prev of None \<Rightarrow> Some k | Some s \<Rightarrow> replace_input_line s k }"

definition handle_arrow_down :: "keyboard \<Rightarrow> keyboard option" where
  "handle_arrow_down k =
     (let (nxt, h) = history_next (cmd_history k); k = k\<lparr>cmd_history := h\<rparr>
      in case nxt of None \<Rightarrow> replace_input_line [] k | Some s \<Rightarrow> replace_input_line s k)"

text \<open>One scan code: the body of the loop of \<open>process_keyboard_buffer\<close>.\<close>

definition handle_scancode :: "u8 \<Rightarrow> keyboard \<Rightarrow> keyboard option" where
  "handle_scancode scancode k =
     (if scancode = 0x2A \<or> scancode = 0x36 then Some (k\<lparr>shift_pressed := True\<rparr>)
      else if scancode = 0xAA \<or> scancode = 0xB6 then Some (k\<lparr>shift_pressed := False\<rparr>)
      else if scancode AND 0x80 \<noteq> 0 then Some k
      else if scancode = 0x48 then handle_arrow_up k
      else if scancode = 0x50 then handle_arrow_down k
      else let ascii = scancode_to_ascii scancode (shift_pressed k) in
        if ascii = 0 then Some k
        else if ascii = 8 then handle_backspace k
        else if ascii = 10 then
          if input_pos k < length (input_buffer k)
          then Some (k\<lparr>input_buffer := (input_buffer k)[input_pos k := 0], input_ready := True\<rparr>) else None
        else if input_pos k < INPUT_BUFFER_SIZE - 1 then
          if input_pos k < length (input_buffer k)
          then Some (k\<lparr>input_buffer := (input_buffer k)[input_pos k := ascii], input_pos := input_pos k + 1\<rparr>) else None
        else Some k)"

lemma replace_input_line_pos:
  "replace_input_line s k = Some k' \<Longrightarrow> scancode_read_pos k' = scancode_read_pos k \<and> scancode_write_pos k' = scancode_write_pos k \<and> scancode_buffer k' = scancode_buffer k"
  by (auto simp: replace_input_line_def Let_def split: if_splits)

lemma handle_scancode_pos:
  "handle_scancode c k = Some k' \<Longrightarrow> scancode_read_pos k' = scancode_read_pos k \<and> scancode_write_pos k' = scancode_write_pos k \<and> scancode_buffer k' = scancode_buffer k"
  by (auto simp: handle_scancode_def handle_arrow_up_def handle_arrow_down_def handle_backspace_def Let_def bind_eq_Some_conv
      dest!: replace_input_line_pos split: if_splits option.splits prod.splits)

function process_keyboard_buffer :: "keyboard \<Rightarrow> keyboard option" where
  "process_keyboard_buffer k =
     (if scancode_read_pos k = scancode_write_pos k then Some k
      else case handle_scancode (scancode_buffer k ! unat (scancode_read_pos k)) (k\<lparr>scancode_read_pos := scancode_read_pos k + 1\<rparr>) of
             None \<Rightarrow> None | Some k \<Rightarrow> process_keyboard_buffer k)"
  by pat_completeness auto

termination
proof (relation "measure (\<lambda>k. unat (scancode_write_pos k - scancode_read_pos k))")
  fix k k'
  assume ne: "scancode_read_pos k \<noteq> scancode_write_pos k"
    and h: "handle_scancode (scancode_buffer k ! unat (scancode_read_pos k)) (k\<lparr>scancode_read_pos := scancode_read_pos k + 1\<rparr>) = Some k'"
  have "scancode_write_pos k' - scancode_read_pos k' = scancode_write_pos k - scancode_read_pos k - 1" using handle_scancode_pos [OF h] by simp
  moreover have "unat (x - 1) < unat x" if "x \<noteq> 0" for x :: u8 using that by (metis measure_unat)
  ultimately show "(k', k) \<in> measure (\<lambda>k. unat (scancode_write_pos k - scancode_read_pos k))" using ne by simp
qed simp

declare process_keyboard_buffer.simps [simp del]

text \<open>
  Waiting for a line: between two polls the keyboard interrupt delivers some scan codes. The text is missing when the codes run out
  before a line has been entered.
\<close>

fun input_wait :: "u8 list list \<Rightarrow> keyboard \<Rightarrow> (bytes option \<times> keyboard) option" where
  "input_wait codes k =
     (if input_ready k then Some (Some (input_buffer k), k)
      else case codes of
        [] \<Rightarrow> Some (None, k)
      | c # r \<Rightarrow> Option.bind (process_keyboard_buffer (fold keyboard_handler c k)) (input_wait r))"

definition get_input_line :: "u8 list list \<Rightarrow> keyboard \<Rightarrow> (bytes option \<times> keyboard) option" where
  "get_input_line codes k = input_wait codes (k\<lparr>input_ready := False, input_pos := 0\<rparr>)"

definition input_available :: "keyboard \<Rightarrow> bool" where
  "input_available k = input_ready k"

definition get_input_and_reset :: "keyboard \<Rightarrow> bytes option \<times> keyboard" where
  "get_input_and_reset k = (if input_ready k then (Some (input_buffer k), k\<lparr>input_ready := False, input_pos := 0\<rparr>) else (None, k))"

end
