(* ===== verification/Keyboard_Props.thy ===== *)
theory Keyboard_Props
  imports Keyboard
begin

unbundle bit_operations_syntax

text \<open>
  The command history as a list of the latest commands with a position in it, and the input line as the text that the keys
  produce: the ring of rows, the ring of scan codes and the input buffer implement both, without leaving their arrays.
\<close>

section \<open>Recalling commands\<close>

text \<open>
  What the user does at the command line: a command is entered, or the up or the down key is pressed. What this means is said of a
  list of commands, oldest first, at most \<open>cap\<close> of them, and a position that counts back from the newest one, \<open>None\<close> while no command
  is recalled. An empty command and a repetition of the newest command change nothing, the position included. Above the oldest command
  the position stays, or starts again at the newest when the list is full. The first component of the result is the text shown.
\<close>

datatype hist_event = Enter bytes | Up | Down

fun recall_step :: "nat \<Rightarrow> nat \<Rightarrow> hist_event \<Rightarrow> bytes list \<times> nat option \<Rightarrow> bytes option \<times> bytes list \<times> nat option" where
  "recall_step cap width (Enter c) (es, p) =
     (None, if c = [] \<or> es \<noteq> [] \<and> last es = c then (es, p)
            else let l = es @ [take width c] in (drop (length l - cap) l, None))"
| "recall_step cap width Up (es, p) =
     (if es = [] then (None, es, p)
      else let q = (case p of None \<Rightarrow> 0 | Some k \<Rightarrow> if k + 1 < length es then k + 1 else if length es = cap then 0 else k)
           in (Some (rev es ! q), es, Some q))"
| "recall_step cap width Down (es, p) =
     (case p of None \<Rightarrow> (None, es, None) | Some 0 \<Rightarrow> (Some [], es, None) | Some (Suc k) \<Rightarrow> (Some (rev es ! k), es, Some k))"

fun recall_run :: "nat \<Rightarrow> nat \<Rightarrow> hist_event list \<Rightarrow> bytes list \<times> nat option \<Rightarrow> bytes option list \<times> bytes list \<times> nat option" where
  "recall_run cap width [] s = ([], s)"
| "recall_run cap width (e # evs) s =
     (let (out, s') = recall_step cap width e s; (outs, s'') = recall_run cap width evs s' in (out # outs, s''))"

text \<open>A history whose operations refine the steps, from every one of its states, refines every sequence of them.\<close>

locale recall =
  fixes ok :: "'h \<Rightarrow> bool" and valid :: "bytes \<Rightarrow> bool" and abs :: "'h \<Rightarrow> bytes list \<times> nat option"
    and add :: "bytes \<Rightarrow> 'h \<Rightarrow> 'h" and older :: "'h \<Rightarrow> (bytes option \<times> 'h) option" and newer :: "'h \<Rightarrow> bytes option \<times> 'h"
    and cap :: nat and width :: nat
  assumes add_ok: "ok h \<Longrightarrow> valid c \<Longrightarrow> ok (add c h)"
    and add_abs: "ok h \<Longrightarrow> recall_step cap width (Enter c) (abs h) = (None, abs (add c h))"
    and older_abs: "ok h \<Longrightarrow> \<exists>out h'. older h = Some (out, h') \<and> ok h' \<and> recall_step cap width Up (abs h) = (out, abs h')"
    and newer_abs: "ok h \<Longrightarrow> ok (snd (newer h)) \<and> recall_step cap width Down (abs h) = (fst (newer h), abs (snd (newer h)))"
begin

fun step :: "hist_event \<Rightarrow> 'h \<Rightarrow> (bytes option \<times> 'h) option" where
  "step (Enter c) h = Some (None, add c h)"
| "step Up h = older h"
| "step Down h = Some (newer h)"

fun run :: "hist_event list \<Rightarrow> 'h \<Rightarrow> (bytes option list \<times> 'h) option" where
  "run [] h = Some ([], h)"
| "run (e # evs) h = Option.bind (step e h) (\<lambda>(out, h'). Option.bind (run evs h') (\<lambda>(outs, h''). Some (out # outs, h'')))"

lemma step_refines:
  assumes "ok h" "\<forall>c. e = Enter c \<longrightarrow> valid c"
  shows "\<exists>out h'. step e h = Some (out, h') \<and> ok h' \<and> recall_step cap width e (abs h) = (out, abs h')"
proof (cases e)
  case Up
  then show ?thesis using older_abs [OF assms(1)] by simp
next
  case Down
  then show ?thesis using newer_abs [OF assms(1)] by (cases "newer h") simp
qed (use assms add_ok add_abs in simp)

lemma run_refines:
  assumes "ok h" "\<forall>c. Enter c \<in> set evs \<longrightarrow> valid c"
  shows "\<exists>outs h'. run evs h = Some (outs, h') \<and> ok h' \<and> recall_run cap width evs (abs h) = (outs, abs h')"
  using assms
proof (induction evs arbitrary: h)
  case (Cons e evs)
  obtain out h' where s: "step e h = Some (out, h')" "ok h'" "recall_step cap width e (abs h) = (out, abs h')"
    using step_refines [of h e] Cons.prems by auto
  from Cons.IH [OF s(2)] Cons.prems(2) obtain outs h'' where "run evs h' = Some (outs, h'')" "ok h''" "recall_run cap width evs (abs h') = (outs, abs h'')"
    by auto
  then show ?case using s by simp
qed simp

end

section \<open>The ring of commands\<close>

lemma strings_equal_iff [simp]: "strings_equal s t \<longleftrightarrow> s = t"
  by (induction s t rule: strings_equal.induct) auto

definition hist_ok :: "command_history \<Rightarrow> bool" where
  "hist_ok h \<longleftrightarrow> length (commands h) = 50 \<and> write_pos h < 50 \<and> count h \<le> 50 \<and> (count h < 50 \<longrightarrow> write_pos h = count h) \<and>
     (\<forall>s \<in> set (commands h). length s \<le> 255 \<and> 0 \<notin> set s) \<and>
     (current h \<noteq> -1 \<longrightarrow> 0 \<le> current h \<and> current h < 50 \<and> (write_pos h + 49 - nat (current h)) mod 50 < count h)"

definition hist_entries :: "command_history \<Rightarrow> bytes list" where
  "hist_entries h = map (\<lambda>i. commands h ! ((write_pos h + 50 - count h + i) mod 50)) [0..<count h]"

definition hist_position :: "command_history \<Rightarrow> nat option" where
  "hist_position h = (if current h = -1 then None else Some ((write_pos h + 49 - nat (current h)) mod 50))"

text \<open>Distances in the ring.\<close>

lemma ring_up: "(x :: nat) < 50 \<Longrightarrow> Suc x mod 50 = (if x = 49 then 0 else x + 1)"
  by auto

lemma ring_down: "(x :: nat) < 50 \<Longrightarrow> (x + 49) mod 50 = (if x = 0 then 49 else x - 1)"
  by (auto simp: mod_if)

lemma ring_dist: "(a :: nat) < 50 \<Longrightarrow> b < 50 \<Longrightarrow> (a + 50 - b) mod 50 = (if b \<le> a then a - b else a + 50 - b)"
  by (auto simp: mod_if)

lemma ring_dist': "(a :: nat) < 50 \<Longrightarrow> b < 50 \<Longrightarrow> (a + 49 - b) mod 50 = (if b < a then a - 1 - b else a + 49 - b)"
  by (auto simp: mod_if)

lemma steps_back:
  assumes "wp < 50" "pos < 50"
  shows "steps_back wp pos n = Some (n + (wp + 50 - pos) mod 50)"
  using assms(2)
proof (induction "(wp + 50 - pos) mod 50" arbitrary: pos n rule: less_induct)
  case less
  show ?case
  proof (cases "pos = wp")
    case True
    then show ?thesis using assms by (simp add: steps_back.simps)
  next
    case False
    let ?p = "(pos + 1) mod 50"
    have d: "?p < 50" "(wp + 50 - pos) mod 50 = (wp + 50 - ?p) mod 50 + 1"
      using False assms(1) less.prems by (auto simp: ring_up ring_dist)
    then have "steps_back wp ?p (n + 1) = Some (n + 1 + (wp + 50 - ?p) mod 50)" using less.hyps by simp
    then show ?thesis using False d by (subst steps_back.simps) (simp add: HISTORY_SIZE_def)
  qed
qed

lemma hist_position_lt: "hist_ok h \<Longrightarrow> hist_position h = Some k \<Longrightarrow> k < count h"
  by (auto simp: hist_ok_def hist_position_def split: if_splits)

lemma length_hist_entries [simp]: "length (hist_entries h) = count h"
  by (simp add: hist_entries_def)

text \<open>The row at a distance back from the newest one.\<close>

lemma hist_rev_nth:
  assumes "hist_ok h" "k < count h"
  shows "rev (hist_entries h) ! k = commands h ! ((write_pos h + 49 - k) mod 50)"
proof -
  have "write_pos h + 50 - count h + (count h - Suc k) = write_pos h + 49 - k" using assms by (auto simp: hist_ok_def)
  then show ?thesis using assms by (simp add: hist_entries_def rev_nth)
qed

lemma hist_row:
  assumes "hist_ok h" "current h \<noteq> -1"
  shows "commands h ! nat (current h) = rev (hist_entries h) ! the (hist_position h)"
proof -
  have c: "nat (current h) < 50" "write_pos h < 50" "(write_pos h + 49 - nat (current h)) mod 50 < count h" using assms by (auto simp: hist_ok_def)
  have "(write_pos h + 49 - (write_pos h + 49 - nat (current h)) mod 50) mod 50 = nat (current h)" using c(1,2) by (auto simp: ring_dist')
  then show ?thesis using hist_rev_nth [OF assms(1) c(3)] assms(2) by (simp add: hist_position_def)
qed

lemma history_add_ok:
  assumes "hist_ok h" "0 \<notin> set c"
  shows "hist_ok (history_add (Some c) h)"
  using assms set_update_subset_insert [of "commands h" "write_pos h" "take 255 c"]
  by (auto simp: hist_ok_def history_add_def HISTORY_SIZE_def CMD_MAX_LENGTH_def ring_up dest: in_set_takeD)

lemma history_add_entries:
  assumes "hist_ok h"
  shows "hist_entries (history_add (Some c) h) =
    (if c = [] \<or> hist_entries h \<noteq> [] \<and> last (hist_entries h) = c then hist_entries h
     else (let l = hist_entries h @ [take 255 c] in drop (length l - 50) l))"
proof -
  have w: "write_pos h < 50" "length (commands h) = 50" "count h \<le> 50" "count h < 50 \<longrightarrow> write_pos h = count h" using assms by (auto simp: hist_ok_def)
  have e: "hist_entries h \<noteq> [] \<longleftrightarrow> count h > 0" by (metis length_greater_0_conv length_hist_entries)
  have l: "last (hist_entries h) = commands h ! ((write_pos h + 50 - 1) mod 50)" if "count h > 0"
    using hist_rev_nth [OF assms that] e that by (simp add: rev_nth last_conv_nth add.commute)
  show ?thesis
  proof (cases "c = [] \<or> hist_entries h \<noteq> [] \<and> last (hist_entries h) = c")
    case True
    then show ?thesis using e l by (auto simp: history_add_def HISTORY_SIZE_def)
  next
    case False
    let ?h = "h\<lparr>commands := (commands h)[write_pos h := take 255 c], write_pos := (write_pos h + 1) mod 50,
                 count := (if count h < 50 then count h + 1 else count h), current := -1\<rparr>"
    have a: "history_add (Some c) h = ?h" using False e l by (auto simp: history_add_def HISTORY_SIZE_def CMD_MAX_LENGTH_def)
    have "hist_entries ?h = (let l = hist_entries h @ [take 255 c] in drop (length l - 50) l)"
    proof (rule nth_equalityI)
      show "length (hist_entries ?h) = length (let l = hist_entries h @ [take 255 c] in drop (length l - 50) l)" using w by (simp add: Let_def)
      fix i
      assume i: "i < length (hist_entries ?h)"
      show "hist_entries ?h ! i = (let l = hist_entries h @ [take 255 c] in drop (length l - 50) l) ! i"
      proof (cases "count h < 50")
        case True
        then show ?thesis using i w by (auto simp: hist_entries_def Let_def nth_append ring_up)
      next
        case False
        then have n: "count h = 50" "i < 50" using i w by simp_all
        have "(Suc (write_pos h) mod 50 + i) mod 50 = Suc (write_pos h + i) mod 50" by (simp add: mod_add_left_eq)
        also have "\<dots> = (if write_pos h + i < 49 then Suc (write_pos h + i) else write_pos h + i - 49)" using n w(1) by (auto simp: mod_if)
        finally show ?thesis using n w by (cases "i = 49") (auto simp: hist_entries_def Let_def nth_append mod_add_left_eq)
      qed
    qed
    then show ?thesis unfolding a if_not_P [OF False] .
  qed
qed

lemma hist_ok_current:
  "hist_ok h \<Longrightarrow> 0 \<le> x \<Longrightarrow> x < 50 \<Longrightarrow> (write_pos h + 49 - nat x) mod 50 < count h \<Longrightarrow> hist_ok (h\<lparr>current := x\<rparr>)"
  by (simp add: hist_ok_def)

lemma history_prev_some:
  assumes "hist_ok h" "count h > 0"
  shows "\<exists>h'. history_prev h = Some (Some (rev (hist_entries h) ! the (hist_position h')), h') \<and> hist_ok h' \<and> hist_entries h' = hist_entries h \<and>
    hist_position h' = Some (case hist_position h of None \<Rightarrow> 0
      | Some k \<Rightarrow> if k + 1 < count h then k + 1 else if count h = 50 then 0 else k)"
proof -
  have w: "write_pos h < 50" "count h \<le> 50" using assms by (auto simp: hist_ok_def)
  define h' where "h' = (if current h = -1 then h\<lparr>current := int ((write_pos h + 49) mod 50)\<rparr>
     else if (write_pos h + 50 - nat (current h)) mod 50 < count h then h\<lparr>current := int ((nat (current h) + 49) mod 50)\<rparr> else h)"
  have e: "hist_entries h' = hist_entries h" "commands h' = commands h" "current h' \<noteq> -1" by (auto simp: h'_def hist_entries_def)
  have p: "hist_position h' = Some (case hist_position h of None \<Rightarrow> 0
      | Some k \<Rightarrow> if k + 1 < count h then k + 1 else if count h = 50 then 0 else k)"
  proof (cases "current h = -1")
    case True
    then show ?thesis using w by (auto simp: h'_def hist_position_def ring_dist' ring_down)
  next
    case False
    define c where "c = nat (current h)"
    then have c: "current h = int c" "c < 50" "(write_pos h + 49 - c) mod 50 < count h" using assms(1) False by (auto simp: hist_ok_def)
    define k where "k = (write_pos h + 49 - c) mod 50"
    have k: "k < 50" "k = (if c < write_pos h then write_pos h - 1 - c else write_pos h + 49 - c)" using c(2) w(1) by (auto simp: k_def ring_dist')
    have n: "(write_pos h + 50 - c) mod 50 = Suc k mod 50"
      unfolding ring_dist [OF w(1) c(2)] ring_up [OF k(1)] using k(2) c(2) w(1) by (auto split: if_splits)
    have m: "(write_pos h + 49 - (c + 49) mod 50) mod 50 = Suc k mod 50"
    proof -
      have d: "(c + 49) mod 50 < 50" "(c + 49) mod 50 = (if c = 0 then 49 else c - 1)" using c(2) by (auto simp: ring_down)
      show ?thesis unfolding ring_dist' [OF w(1) d(1)] ring_up [OF k(1)] unfolding d(2) k(2) using c(2) w(1) by auto
    qed
    have pos: "hist_position h = Some k" using False by (simp only: hist_position_def c(1) k_def if_False nat_int)
    have "hist_position (h\<lparr>current := int ((c + 49) mod 50)\<rparr>) = Some (Suc k mod 50)" using m by (simp add: hist_position_def)
    moreover have "h' = (if Suc k mod 50 < count h then h\<lparr>current := int ((c + 49) mod 50)\<rparr> else h)"
      unfolding h'_def c(1) nat_int n using False c(1) by (simp only: if_False)
    moreover have "k < count h" using c(3) k_def by simp
    ultimately show ?thesis using pos w(2) ring_up [OF k(1)] by (auto split: if_splits)
  qed
  have "hist_ok h'"
  proof -
    have "the (hist_position h') < count h" using p assms hist_position_lt [OF assms(1)] by (auto split: option.splits)
    moreover have "0 \<le> current h' \<and> current h' < 50" using assms(1) by (simp add: h'_def hist_ok_def)
    moreover have c: "h' = h\<lparr>current := current h'\<rparr>" "write_pos h' = write_pos h" by (simp_all add: h'_def)
    ultimately have "hist_ok (h\<lparr>current := current h'\<rparr>)" using e(3) by (intro hist_ok_current [OF assms(1)]) (simp_all add: hist_position_def)
    then show ?thesis using c(1) by simp
  qed
  moreover have "history_prev h = Some (Some (commands h' ! nat (current h')), h')"
    using assms w steps_back [of "write_pos h" "nat (current h)" 0]
    by (auto simp: history_prev_def h'_def HISTORY_SIZE_def hist_ok_def add.commute)
  ultimately show ?thesis using hist_row [of h'] e p by auto
qed

lemma history_next_ok:
  assumes "hist_ok h"
  shows "hist_ok (snd (history_next h)) \<and> hist_entries (snd (history_next h)) = hist_entries h \<and>
    history_next h = (case hist_position h of None \<Rightarrow> None | Some k \<Rightarrow> Some (if k = 0 then [] else rev (hist_entries h) ! (k - 1)), snd (history_next h)) \<and>
    hist_position (snd (history_next h)) = (case hist_position h of Some (Suc k) \<Rightarrow> Some k | _ \<Rightarrow> None)"
proof (cases "current h = -1")
  case True
  then show ?thesis using assms by (simp add: history_next_def hist_position_def)
next
  case False
  define c where "c = nat (current h)"
  then have c: "current h = int c" "c < 50" "(write_pos h + 49 - c) mod 50 < count h" "write_pos h < 50" using assms False by (auto simp: hist_ok_def)
  show ?thesis
  proof (cases "Suc c mod 50 = write_pos h")
    case True
    then have "history_next h = (Some [], h\<lparr>current := -1\<rparr>)" "hist_position h = Some 0"
      using False c by (auto simp: history_next_def HISTORY_SIZE_def Let_def hist_position_def ring_up ring_dist' split: if_splits)
    then show ?thesis using assms by (simp add: hist_ok_def hist_entries_def hist_position_def)
  next
    case n: False
    let ?h = "h\<lparr>current := int (Suc c mod 50)\<rparr>"
    have "(write_pos h + 49 - c) mod 50 = Suc ((write_pos h + 49 - Suc c mod 50) mod 50)"
      using n c by (auto simp: ring_up ring_dist' split: if_splits)
    then have p: "hist_position h = Some (Suc (the (hist_position ?h)))" "current ?h \<noteq> -1" "hist_position ?h = Some (the (hist_position ?h))"
      using False c by (auto simp: hist_position_def)
    have ok: "hist_ok ?h" using assms p c by (auto simp: hist_ok_def hist_position_def)
    have r: "history_next h = (Some (commands h ! (Suc c mod 50)), ?h)" using n False c by (simp add: history_next_def HISTORY_SIZE_def Let_def)
    have e: "hist_entries ?h = hist_entries h" by (simp add: hist_entries_def)
    have "commands h ! (Suc c mod 50) = rev (hist_entries h) ! the (hist_position ?h)" using hist_row [OF ok p(2)] e by simp
    then have "history_next h = (Some (rev (hist_entries h) ! the (hist_position ?h)), ?h)" using r by simp
    moreover have "hist_position ?h = (case Some (Suc (the (hist_position ?h))) of Some (Suc k) \<Rightarrow> Some k | _ \<Rightarrow> None)" using p(3) by simp
    ultimately show ?thesis unfolding p(1) using ok e by (simp only: snd_conv option.case) simp
  qed
qed

lemma hist_entries_empty: "hist_entries h = [] \<longleftrightarrow> count h = 0"
  by (metis length_0_conv length_hist_entries)

definition hist_abs :: "command_history \<Rightarrow> bytes list \<times> nat option" where
  "hist_abs h = (hist_entries h, hist_position h)"

lemma history_add_position:
  assumes "hist_ok h"
  shows "hist_position (history_add (Some c) h) = (if c = [] \<or> hist_entries h \<noteq> [] \<and> last (hist_entries h) = c then hist_position h else None)"
proof -
  have e: "hist_entries h \<noteq> [] \<longleftrightarrow> count h > 0" by (simp add: hist_entries_empty)
  have "last (hist_entries h) = commands h ! ((write_pos h + 50 - 1) mod 50)" if "count h > 0"
    using hist_rev_nth [OF assms that] e that by (simp add: rev_nth last_conv_nth add.commute)
  then show ?thesis using e by (auto simp: history_add_def HISTORY_SIZE_def hist_position_def)
qed

interpretation history: recall hist_ok "\<lambda>c. 0 \<notin> set c" hist_abs "\<lambda>c. history_add (Some c)" history_prev history_next 50 255
proof
  fix h c
  assume h: "hist_ok h"
  show "0 \<notin> set c \<Longrightarrow> hist_ok (history_add (Some c) h)" using h by (rule history_add_ok)
  show "recall_step 50 255 (Enter c) (hist_abs h) = (None, hist_abs (history_add (Some c) h))"
    by (simp add: hist_abs_def Let_def history_add_entries [OF h] history_add_position [OF h])
  show "\<exists>out h'. history_prev h = Some (out, h') \<and> hist_ok h' \<and> recall_step 50 255 Up (hist_abs h) = (out, hist_abs h')"
  proof (cases "count h = 0")
    case True
    then show ?thesis using h hist_entries_empty [of h] by (simp add: history_prev_def hist_abs_def)
  next
    case False
    then have "hist_entries h \<noteq> []" by (simp add: hist_entries_empty)
    then show ?thesis using history_prev_some [OF h] False unfolding hist_abs_def recall_step.simps length_hist_entries by (auto simp: Let_def)
  qed
  show "hist_ok (snd (history_next h)) \<and> recall_step 50 255 Down (hist_abs h) = (fst (history_next h), hist_abs (snd (history_next h)))"
    using history_next_ok [OF h] by (cases "history_next h") (auto simp: hist_abs_def split: option.splits nat.splits)
qed

text \<open>The history of the kernel under a sequence of events, with the texts that it shows.\<close>

fun history_step :: "hist_event \<Rightarrow> command_history \<Rightarrow> (bytes option \<times> command_history) option" where
  "history_step (Enter c) h = Some (None, history_add (Some c) h)"
| "history_step Up h = history_prev h"
| "history_step Down h = Some (history_next h)"

fun history_run :: "hist_event list \<Rightarrow> command_history \<Rightarrow> (bytes option list \<times> command_history) option" where
  "history_run [] h = Some ([], h)"
| "history_run (e # evs) h = do { (out, h) \<leftarrow> history_step e h; (outs, h) \<leftarrow> history_run evs h; Some (out # outs, h) }"

lemma history_run: "history_run evs h = history.run evs h"
proof (induction evs arbitrary: h)
  case (Cons e evs)
  have "history_step e h = history.step e h" by (cases e) simp_all
  then show ?case using Cons by simp
qed simp

definition no_history :: "bytes list \<Rightarrow> command_history" where
  "no_history rows = \<lparr>commands = rows, count = 0, current = -1, write_pos = 0\<rparr>"

text \<open>
  C12: Whatever commands are entered and however often the up and down keys are pressed between them, from every well-formed state of
  the history: no call leaves the rows, the text that each key press shows is the one that the list of the last 50 commands and the
  position in it give, and the history goes on implementing that list and that position. A command that is empty or repeats the newest
  one leaves the position where it is, so that up after recalling and entering the newest command gives the one before it.
\<close>

theorem history_recalls:
  assumes "hist_ok h" "\<forall>c. Enter c \<in> set evs \<longrightarrow> 0 \<notin> set c"
  shows "\<exists>outs h'. history_run evs h = Some (outs, h') \<and> hist_ok h' \<and>
    recall_run 50 255 evs (hist_entries h, hist_position h) = (outs, hist_entries h', hist_position h')"
  using history.run_refines [OF assms] by (simp add: history_run hist_abs_def)

section \<open>The keyboard\<close>

definition pending :: "keyboard \<Rightarrow> u8 list" where
  "pending k = map (\<lambda>i. scancode_buffer k ! unat (scancode_read_pos k + of_nat i)) [0..<unat (scancode_write_pos k - scancode_read_pos k)]"

definition kb_line :: "keyboard \<Rightarrow> bytes" where
  "kb_line k = take (input_pos k) (input_buffer k)"

definition kb_ok :: "keyboard \<Rightarrow> bool" where
  "kb_ok k \<longleftrightarrow> length (scancode_buffer k) = 256 \<and> length (input_buffer k) = 256 \<and> input_pos k \<le> 255 \<and> 0 \<notin> set (kb_line k) \<and> hist_ok (cmd_history k)"

text \<open>The line, whether shift is held, whether a line is ready, the commands and the position in them.\<close>

type_synonym typed = "bytes \<times> bool \<times> bool \<times> bytes list \<times> nat option"

definition typed :: "keyboard \<Rightarrow> typed" where
  "typed k = (kb_line k, shift_pressed k, input_ready k, hist_entries (cmd_history k), hist_position (cmd_history k))"

fun type_key :: "u8 \<Rightarrow> typed \<Rightarrow> typed" where
  "type_key c (l, sh, rd, es, p) =
     (if c = 0x2A \<or> c = 0x36 then (l, True, rd, es, p)
      else if c = 0xAA \<or> c = 0xB6 then (l, False, rd, es, p)
      else if c AND 0x80 \<noteq> 0 then (l, sh, rd, es, p)
      else if c = 0x48 then
        (if es = [] then (l, sh, rd, es, p)
         else let q = (case p of None \<Rightarrow> 0 | Some k \<Rightarrow> if k + 1 < length es then k + 1 else if length es = 50 then 0 else k)
              in (rev es ! q, sh, rd, es, Some q))
      else if c = 0x50 then (case p of Some (Suc k) \<Rightarrow> (rev es ! k, sh, rd, es, Some k) | _ \<Rightarrow> ([], sh, rd, es, None))
      else let a = scancode_to_ascii c sh in
        if a = 0 then (l, sh, rd, es, p)
        else if a = 8 then (butlast l, sh, rd, es, p)
        else if a = 10 then (l, sh, True, es, p)
        else (if length l < 255 then l @ [a] else l, sh, rd, es, p))"

lemma hist_entry_text: "hist_ok h \<Longrightarrow> s \<in> set (hist_entries h) \<Longrightarrow> length s \<le> 255 \<and> 0 \<notin> set s"
  by (auto simp: hist_ok_def hist_entries_def)

lemma replace_line:
  assumes "kb_ok k" "hist_ok h" "length s \<le> 255" "0 \<notin> set s"
  shows "\<exists>k'. replace_input_line s (k\<lparr>cmd_history := h\<rparr>) = Some k' \<and> kb_ok k' \<and>
    typed k' = (s, shift_pressed k, input_ready k, hist_entries h, hist_position h)"
  using assms by (auto simp: replace_input_line_def Let_def kb_ok_def kb_line_def typed_def INPUT_BUFFER_SIZE_def)

lemma arrow_up:
  assumes "kb_ok k"
  shows "\<exists>k'. handle_arrow_up k = Some k' \<and> kb_ok k' \<and> typed k' = type_key 0x48 (typed k)"
proof -
  let ?h = "cmd_history k"
  have h: "hist_ok ?h" using assms by (simp add: kb_ok_def)
  show ?thesis
  proof (cases "hist_entries ?h = []")
    case True
    then show ?thesis using assms by (auto simp: handle_arrow_up_def typed_def history_prev_def hist_entries_empty)
  next
    case False
    obtain h' where h': "history_prev ?h = Some (Some (rev (hist_entries ?h) ! the (hist_position h')), h')" "hist_ok h'" "hist_entries h' = hist_entries ?h"
      "hist_position h' = Some (case hist_position ?h of None \<Rightarrow> 0
        | Some k \<Rightarrow> if k + 1 < length (hist_entries ?h) then k + 1 else if length (hist_entries ?h) = 50 then 0 else k)"
      using history_prev_some [OF h] False unfolding length_hist_entries hist_entries_empty by blast
    have "the (hist_position h') < length (hist_entries ?h)" using hist_position_lt [OF h'(2)] h'(3,4) by (metis length_hist_entries option.sel)
    then have "rev (hist_entries ?h) ! the (hist_position h') \<in> set (hist_entries ?h)" by (metis length_rev nth_mem set_rev)
    then show ?thesis using replace_line [OF assms h'(2)] hist_entry_text [OF h] h' False
      by (auto simp: handle_arrow_up_def typed_def Let_def)
  qed
qed

lemma arrow_down:
  assumes "kb_ok k"
  shows "\<exists>k'. handle_arrow_down k = Some k' \<and> kb_ok k' \<and> typed k' = type_key 0x50 (typed k)"
proof -
  let ?h = "cmd_history k"
  have h: "hist_ok ?h" using assms by (simp add: kb_ok_def)
  note n = history_next_ok [OF h]
  have "rev (hist_entries ?h) ! j \<in> set (hist_entries ?h)" if "hist_position ?h = Some (Suc j)" for j
    using hist_position_lt [OF h that] by (metis Suc_lessD length_hist_entries length_rev nth_mem set_rev)
  then have "length (rev (hist_entries ?h) ! j) \<le> 255 \<and> 0 \<notin> set (rev (hist_entries ?h) ! j)" if "hist_position ?h = Some (Suc j)" for j
    using hist_entry_text [OF h] that by blast
  then show ?thesis using n replace_line [OF assms, of "snd (history_next ?h)"]
    by (cases "hist_position ?h"; cases "history_next ?h"; cases "the (hist_position ?h)") (auto simp: handle_arrow_down_def typed_def Let_def)
qed

lemma handle_scancode_typed:
  assumes "kb_ok k"
  shows "\<exists>k'. handle_scancode c k = Some k' \<and> kb_ok k' \<and> typed k' = type_key c (typed k)"
proof -
  have k: "length (input_buffer k) = 256" "input_pos k \<le> 255" using assms by (auto simp: kb_ok_def)
  consider "c = 0x48" | "c = 0x50" | "c \<notin> {0x48, 0x50}" "scancode_to_ascii c (shift_pressed k) = 8"
    | "c \<notin> {0x48, 0x50}" "scancode_to_ascii c (shift_pressed k) \<noteq> 8" by blast
  then show ?thesis
  proof cases
    case 1
    then show ?thesis using arrow_up [OF assms] by (simp add: handle_scancode_def)
  next
    case 2
    then show ?thesis using arrow_down [OF assms] by (simp add: handle_scancode_def)
  next
    case 3
    have "butlast (take (input_pos k) (input_buffer k)) = take (input_pos k - 1) (input_buffer k)" using k by (simp add: butlast_take)
    moreover from this have "0 \<notin> set (take (input_pos k - 1) (input_buffer k))" using assms by (metis in_set_butlastD kb_line_def kb_ok_def)
    ultimately show ?thesis using 3 assms k
      by (auto simp: handle_scancode_def handle_backspace_def Let_def typed_def kb_ok_def kb_line_def)
  next
    case 4
    then show ?thesis using assms k
      by (auto simp: handle_scancode_def Let_def typed_def kb_ok_def kb_line_def INPUT_BUFFER_SIZE_def take_Suc_conv_app_nth)
  qed
qed

text \<open>The ring of scan codes is a queue of at most 255.\<close>

lemma pending_step:
  assumes "scancode_read_pos k \<noteq> scancode_write_pos k"
  shows "pending k = scancode_buffer k ! unat (scancode_read_pos k) # pending (k\<lparr>scancode_read_pos := scancode_read_pos k + 1\<rparr>)"
proof -
  let ?n = "scancode_write_pos k - scancode_read_pos k"
  have ne: "?n \<noteq> 0" using assms by simp
  have n: "unat ?n = Suc (unat (?n - 1))" using ne by (simp add: unat_minus_one unat_gt_0)
  have "[0..<unat ?n] = 0 # map Suc [0..<unat (?n - 1)]" unfolding n by (simp add: upt_conv_Cons map_Suc_upt)
  moreover have e: "unat (scancode_write_pos k - (scancode_read_pos k + 1)) = unat (?n - 1)" by (simp only: diff_diff_eq)
  ultimately show ?thesis unfolding pending_def by (simp add: comp_def add.assoc e)
qed

text \<open>
  The loop over the scan codes ends and handles all of them in order: the line, the shift state, the entered line and the recalled
  command are what the keys produce one after the other, and no access leaves an array.
\<close>

theorem keyboard_types:
  assumes "kb_ok k"
  shows "\<exists>k'. process_keyboard_buffer k = Some k' \<and> kb_ok k' \<and> pending k' = [] \<and> typed k' = fold type_key (pending k) (typed k)"
  using assms
proof (induction k rule: process_keyboard_buffer.induct)
  case (1 k)
  show ?case
  proof (cases "scancode_read_pos k = scancode_write_pos k")
    case True
    then show ?thesis using 1(2) by (subst process_keyboard_buffer.simps) (simp add: pending_def)
  next
    case False
    let ?k = "k\<lparr>scancode_read_pos := scancode_read_pos k + 1\<rparr>" and ?c = "scancode_buffer k ! unat (scancode_read_pos k)"
    have "kb_ok ?k" "typed ?k = typed k" using 1(2) by (simp_all add: kb_ok_def kb_line_def typed_def)
    then obtain k' where k': "handle_scancode ?c ?k = Some k'" "kb_ok k'" "typed k' = type_key ?c (typed k)"
      using handle_scancode_typed [of ?k ?c] by auto
    have "pending k' = pending ?k" using handle_scancode_pos [OF k'(1)] by (simp add: pending_def)
    then show ?thesis using 1(1) [OF False k'(1,2)] k' False pending_step [OF False] by (subst process_keyboard_buffer.simps) simp
  qed
qed

lemma process_last:
  assumes "kb_ok k" "pending k = cs @ [c]"
  shows "\<exists>k1. kb_ok k1 \<and> typed k1 = fold type_key cs (typed k) \<and> process_keyboard_buffer k = handle_scancode c k1"
  using assms
proof (induction k arbitrary: cs rule: process_keyboard_buffer.induct)
  case (1 k)
  have ne: "scancode_read_pos k \<noteq> scancode_write_pos k" using 1(3) by (auto simp: pending_def)
  let ?k = "k\<lparr>scancode_read_pos := scancode_read_pos k + 1\<rparr>" and ?c = "scancode_buffer k ! unat (scancode_read_pos k)"
  have ok: "kb_ok ?k" "typed ?k = typed k" using 1(2) by (simp_all add: kb_ok_def kb_line_def typed_def)
  then obtain k' where k': "handle_scancode ?c ?k = Some k'" "kb_ok k'" "typed k' = type_key ?c (typed k)"
    using handle_scancode_typed [of ?k ?c] by auto
  have p: "pending k' = pending ?k" using handle_scancode_pos [OF k'(1)] by (simp add: pending_def)
  have run: "process_keyboard_buffer k = process_keyboard_buffer k'" using ne k'(1) by (subst process_keyboard_buffer.simps) simp
  show ?case
  proof (cases cs)
    case Nil
    then have "?c = c" "pending k' = []" using 1(3) pending_step [OF ne] p by auto
    moreover from this(2) have "process_keyboard_buffer k' = Some k'" by (subst process_keyboard_buffer.simps) (simp add: pending_def unat_eq_0)
    ultimately show ?thesis using ok k'(1) run Nil by auto
  next
    case (Cons d ds)
    then show ?thesis using 1(1) [OF ne k'(1,2), of ds] 1(3) pending_step [OF ne] p run k'(3) by auto
  qed
qed

lemma handler_pending:
  assumes "length (pending k) < 255" "length (scancode_buffer k) = 256"
  shows "pending (keyboard_handler c k) = pending k @ [c]"
proof -
  let ?r = "scancode_read_pos k" and ?w = "scancode_write_pos k"
  let ?n = "unat (?w - ?r)"
  have n: "?n < 255" using assms(1) by (simp add: pending_def)
  then have "unat (?w - ?r + 1) = Suc ?n" by (subst unat_word_ariths) (simp add: take_bit_eq_mod)
  then have len: "unat (?w + 1 - ?r) = Suc ?n" by (simp add: algebra_simps)
  have w: "?r + of_nat ?n = ?w" by simp
  have "?r + of_nat i \<noteq> ?w" if "i < ?n" for i
  proof
    assume "?r + of_nat i = ?w"
    then have "of_nat i = ?w - ?r" by (simp add: algebra_simps)
    then have "unat (of_nat i :: u8) = ?n" by simp
    then show False using that n by (simp add: unat_of_nat)
  qed
  then have "unat ?w \<noteq> unat (?r + of_nat i)" if "i < ?n" for i using that by (metis word_unat_eq_iff)
  moreover have "unat ?w < 256" using unsigned_less [of ?w, where ?'a = nat] by simp
  ultimately show ?thesis using assms(2) len w by (simp add: pending_def keyboard_handler_def)
qed

lemma handlers_pending:
  "length (pending k) + length cs \<le> 255 \<Longrightarrow> length (scancode_buffer k) = 256 \<Longrightarrow> pending (fold keyboard_handler cs k) = pending k @ cs"
proof (induction cs arbitrary: k)
  case (Cons c cs)
  have "pending (keyboard_handler c k) = pending k @ [c]" "length (scancode_buffer (keyboard_handler c k)) = 256"
    using Cons.prems handler_pending [of k c] by (simp_all add: keyboard_handler_def)
  then show ?case using Cons.IH [of "keyboard_handler c k"] Cons.prems by simp
qed simp

lemma handlers_typed: "typed (fold keyboard_handler cs k) = typed k" "kb_ok k \<Longrightarrow> kb_ok (fold keyboard_handler cs k)"
  by (induction cs arbitrary: k) (simp_all add: typed_def kb_ok_def kb_line_def keyboard_handler_def)

text \<open>
  C11: What is typed is what is entered: after the interrupts for up to 254 keys and the enter key, without shift held, the line that is
  handed out is the text these keys produce.
\<close>

theorem line_entered:
  assumes "kb_ok k" "pending k = []" "length codes \<le> 254" "fold type_key codes (typed k) = (l, False, rd, es, p)"
  shows "\<exists>k' buf. process_keyboard_buffer (fold keyboard_handler (codes @ [0x1C]) k) = Some k' \<and> kb_ok k' \<and>
    get_input_and_reset k' = (Some buf, k'\<lparr>input_ready := False, input_pos := 0\<rparr>) \<and> cstr buf = l"
proof -
  let ?k = "fold keyboard_handler (codes @ [0x1C]) k"
  have ok: "kb_ok ?k" "typed ?k = typed k" using handlers_typed(2) [OF assms(1)] handlers_typed(1) by blast+
  have "pending ?k = codes @ [0x1C]" using handlers_pending [of k "codes @ [0x1C]"] assms by (simp add: kb_ok_def)
  then obtain k1 where k1: "kb_ok k1" "typed k1 = (l, False, rd, es, p)" "process_keyboard_buffer ?k = handle_scancode 0x1C k1"
    using process_last [OF ok(1)] ok(2) assms(4) by metis
  let ?k' = "k1\<lparr>input_buffer := (input_buffer k1)[input_pos k1 := 0], input_ready := True\<rparr>"
  have enter: "scancode_to_ascii 0x1C False = 10" by code_simp
  have b: "length (input_buffer k1) = 256" "input_pos k1 \<le> 255" "kb_line k1 = l" "\<not> shift_pressed k1" "0 \<notin> set l" using k1(1,2) by (auto simp: kb_ok_def typed_def)
  have "handle_scancode 0x1C k1 = Some ?k'" using b enter by (simp add: handle_scancode_def Let_def)
  moreover have "kb_ok ?k'" using k1(1) by (simp add: kb_ok_def kb_line_def)
  moreover have "cstr ((input_buffer k1)[input_pos k1 := 0]) = l"
  proof -
    have "(input_buffer k1)[input_pos k1 := 0] = l @ 0 # drop (Suc (input_pos k1)) (input_buffer k1)"
      using b(1-3) by (simp add: upd_conv_take_nth_drop kb_line_def)
    then show ?thesis using cstr_append_nul [OF b(5)] by simp
  qed
  ultimately show ?thesis using k1(3) by (simp add: get_input_and_reset_def)
qed

text \<open>
  A key that arrives while 255 scan codes wait makes the ring look empty: all of them are lost.
\<close>

theorem scancode_overflow:
  assumes "length (pending k) = 255"
  shows "pending (keyboard_handler c k) = []"
proof -
  have "unat (scancode_write_pos k - scancode_read_pos k) = 255" using assms by (simp add: pending_def)
  then have "scancode_write_pos k - scancode_read_pos k = 255" by (metis of_nat_numeral of_nat_unat ucast_id)
  then have "scancode_write_pos k + 1 - scancode_read_pos k = 255 + 1" by (simp add: algebra_simps)
  also have "\<dots> = (0 :: u8)" by code_simp
  finally have "scancode_write_pos k + 1 - scancode_read_pos k = 0" .
  then show ?thesis by (simp add: pending_def keyboard_handler_def)
qed

section \<open>Witnesses\<close>

definition demo_keyboard :: keyboard where
  "demo_keyboard = \<lparr>scancode_buffer = replicate 256 0, scancode_read_pos = 0, scancode_write_pos = 0, interrupt_counter = 0, last_scancode = 0,
     input_buffer = replicate 256 0, input_pos = 0, input_ready = False, shift_pressed = False, cmd_history = no_history (replicate 50 [])\<rparr>"

lemma demo_keyboard: "kb_ok demo_keyboard" "pending demo_keyboard = []" "typed demo_keyboard = ([], False, False, [], None)"
  by (simp_all add: demo_keyboard_def kb_ok_def kb_line_def pending_def typed_def no_history_def hist_ok_def hist_entries_def hist_position_def)

theorem history_recalls_witness:
  "\<exists>h'. history_run [Enter [108, 115], Enter [112, 115], Up, Enter [112, 115], Up, Up, Down, Down, Up] (no_history (replicate 50 [])) =
    Some ([None, None, Some [112, 115], None, Some [108, 115], Some [108, 115], Some [112, 115], Some [], Some [112, 115]], h')"
proof -
  let ?evs = "[Enter [108, 115], Enter [112, 115], Up, Enter [112, 115], Up, Up, Down, Down, Up]"
  have "hist_ok (no_history (replicate 50 []))" "hist_entries (no_history (replicate 50 [])) = []" "hist_position (no_history (replicate 50 [])) = None"
    by (simp_all add: no_history_def hist_ok_def hist_entries_def hist_position_def)
  moreover have "fst (recall_run 50 255 ?evs ([], None)) = [None, None, Some [112, 115], None, Some [108, 115], Some [108, 115], Some [112, 115], Some [], Some [112, 115]]"
    by code_simp
  ultimately show ?thesis using history_recalls [of "no_history (replicate 50 [])" ?evs] by auto
qed

theorem keyboard_types_witness:
  "\<exists>k'. process_keyboard_buffer (fold keyboard_handler [0x2A, 0x26, 0xAA, 0x1F] demo_keyboard) = Some k' \<and> kb_line k' = [76, 115]"
proof -
  let ?k = "fold keyboard_handler [0x2A, 0x26, 0xAA, 0x1F] demo_keyboard"
  have "pending ?k = [0x2A, 0x26, 0xAA, 0x1F]" using handlers_pending [of demo_keyboard "[0x2A, 0x26, 0xAA, 0x1F]"] demo_keyboard(1,2) by (simp add: kb_ok_def)
  moreover have "typed ?k = ([], False, False, [], None)" using handlers_typed(1) demo_keyboard(3) by metis
  moreover have "fold type_key [0x2A, 0x26, 0xAA, 0x1F] ([], False, False, [], None) = ([76, 115], False, False, [], None)" by code_simp
  ultimately show ?thesis using keyboard_types [OF handlers_typed(2) [OF demo_keyboard(1)], of "[0x2A, 0x26, 0xAA, 0x1F]"] by (auto simp: typed_def)
qed

theorem line_entered_witness:
  "\<exists>k' buf. process_keyboard_buffer (fold keyboard_handler [0x26, 0x1F, 0x1E, 0x0E, 0x1C] demo_keyboard) = Some k' \<and>
    fst (get_input_and_reset k') = Some buf \<and> cstr buf = [108, 115]"
proof -
  have "fold type_key [0x26, 0x1F, 0x1E, 0x0E] (typed demo_keyboard) = ([108, 115], False, False, [], None)" unfolding demo_keyboard(3) by code_simp
  from line_entered [OF demo_keyboard(1,2) _ this] show ?thesis by fastforce
qed

theorem scancode_overflow_witness:
  "pending (keyboard_handler 0x1C (demo_keyboard\<lparr>scancode_write_pos := 255\<rparr>)) = []"
proof -
  have "length (pending (demo_keyboard\<lparr>scancode_write_pos := 255\<rparr>)) = 255" by (simp add: pending_def demo_keyboard_def)
  then show ?thesis by (rule scancode_overflow)
qed

end
