(* ===== verification/Spec2Isabelle.thy ===== *)
theory Spec2Isabelle
  imports Prelude Bytes AES256 SHA512 Memory Block_Dev TinyFS TinyFS_Tables TinyFS_Files TinyFS_Dirs VFS VFS_Table VFS_TinyFS VFS_Files Sched Sched_Queue Sched_Inv Sched_Run Jobs Jobs_Inv Jobs_Run Net Net_Proto Net_Stack Net_Checksum Net_Frames Net_Hosts Net_Arp Net_Services Net_Steps Net_Tcp Http Http_Props Asm Asm_Props Elf Elf_Props Elf_Run Elf_Run_Props Editor_Props Editor_Files Keyboard_Props
begin

text \<open>
  \<^bold>\<open>AMQ OS: a verified model of the kernel.\<close>

  AMQ OS is a 64-bit hobby operating system in C: a UEFI boot loader starts a kernel with a page allocator and
  a heap, interrupts and a preemptive thread scheduler, a file system on a disk behind a virtual file system,
  a network stack with a web client, cryptographic routines, an assembler, an ELF loader, a shell and a
  small graphical desktop. This library models the parts that keep state and make decisions, function by function, and
  proves what makes them correct; where the code does something else than it means to, the theorem says what it does.

  \<^bold>\<open>How the parts interact.\<close> The heap takes pages from the page allocator. Thread stacks and all dynamic objects come from
  the heap. TinyFS stores its tables and blocks through two sector operations, in the code those of the ATA driver, and is reached
  through the operation tables of the virtual file system. The timer interrupt drives the scheduler and the job table of the shell, which
  wakes sleeping threads. Network packets arrive through the receive ring of the card, pass Ethernet, ARP, IP and the transport
  protocols, and handlers send packets in turn. The web client sits on TCP and DNS and saves files through the virtual file system.
  The assembler turns text into machine code, which the shell wraps into an ELF file that the loader maps again.

  \<^bold>\<open>Conventions.\<close> C integers are words of their width; unbounded integers occur only where the code's range
  makes wrap-around impossible. Structures are records, arrays are lists, strings are byte lists without their NUL. State is passed
  explicitly. A function whose result type is an \<open>option\<close> of a C result answers \<open>None\<close> exactly when the C code would access
  memory outside a buffer or would not return; the C result, error codes included, is inside. What the code takes from
  outside (uninitialised memory, allocation results of the node heap, interrupts that arrive while the processor is halted, frames that the
  card delivers, the addresses of code) is an argument of the definitions. Console output has no effect on the state and is left out.

  \<^bold>\<open>Theories.\<close>

  \<^item> \<open>Prelude\<close>, \<open>Bytes\<close>: integer types, buffers with \<open>put_at\<close> and \<open>segment\<close>, first-match loops over fixed tables, little- and
    big-endian encodings and byte-addressed memory with frame lemmas (\<open>mem_simps\<close>).
  \<^item> \<open>AES256\<close> (\<open>Network/Cryptography/AES256.c\<close>): tables, key schedule, rounds, CBC, CTR and PKCS7. Decryption inverts encryption for
    blocks and for chained messages through the locale \<open>block_cipher\<close>; the cipher never mixes bytes of different index modulo four.
  \<^item> \<open>SHA512\<close> (\<open>SHA512.c\<close>): compression, streaming context, finalisation, HMAC. Any sequence of updates gives the digest of
    the concatenated message as the standard defines it.
  \<^item> \<open>Memory\<close> (\<open>memory/memory.c\<close>): page allocator and first-fit heap over byte-addressed memory, with free lists inside the memory
    they manage. Allocation and release keep the heap sound and the contents of blocks in use; tight fits and some releases corrupt it.
  \<^item> \<open>Block_Dev\<close> (\<open>memory/ramdisk.c\<close>): the contract of a block device, the locale \<open>block_device\<close>, that TinyFS relies on. The
    code calls the ATA driver (port input and output, not modelled) there, so the operations are a parameter of the model; the RAM disk, which has the same
    signature and no callers, is modelled, satisfies the contract and is the device of the examples.
  \<^item> \<open>TinyFS\<close>, \<open>TinyFS_Tables\<close>, \<open>TinyFS_Files\<close>, \<open>TinyFS_Dirs\<close> (\<open>VFS/tinyfs.c\<close>): superblock, allocation table and directory with their on-disk
    encodings, reading and writing files, creating and removing entries. Mounting restores what unmounting saved; a write stores its bytes in place,
    keeps every other file and leaves memory and disk in agreement, as long as the offset can be reached; what happens otherwise is stated too.
  \<^item> \<open>VFS\<close>, \<open>VFS_Table\<close>, \<open>VFS_TinyFS\<close> (\<open>VFS/VFS.c\<close>): mounting, path resolution, descriptors and directories over operation tables. The
    descriptor table refines a finite map; all reachable states are well formed; files written through the system over TinyFS are read back.
  \<^item> \<open>Sched\<close>, \<open>Sched_Queue\<close>, \<open>Sched_Inv\<close>, \<open>Sched_Run\<close> (\<open>Processes/process.c\<close>, \<open>scheduler.c\<close>, the switch in \<open>switch_to_thread\<close>): processes, threads,
    the ready queue as an instance of the locale \<open>fifo_queue\<close>, the invariant of all reachable states, the round-robin order, its liveness and the
    exchange of contexts on the stacks.
  \<^item> \<open>Jobs\<close>, \<open>Jobs_Inv\<close>, \<open>Jobs_Run\<close> (\<open>Processes/fg.c\<close>, \<open>sleep.c\<close>, \<open>threads_init.c\<close>, \<open>Interrupts/irq.c\<close>): jobs, sleeping and the timer interrupt. A sleeping
    thread is woken by the first update at or after its time; one that no job names is never woken.
  \<^item> \<open>Net\<close>, \<open>Net_Proto\<close>, \<open>Net_Stack\<close> (\<open>Network/\<close>): the rings of the card, ARP, IP, ICMP, UDP, TCP, DHCP and DNS. Sending and receiving call each
    other; \<open>depth\<close> bounds the nesting of sends and a call that needs more has the result \<open>None\<close>. \<open>None\<close> also stands for an access outside a buffer and
    for a stalled card, so the theorems show that a result exists, with a depth of one; one shows that for some inputs no depth is enough, and why. The
    set-up of the card is an argument of \<open>net_init\<close>; allocations of packet buffers always succeed in the model. \<open>Net_Checksum\<close>, \<open>Net_Frames\<close>, \<open>Net_Hosts\<close>, \<open>Net_Arp\<close>, \<open>Net_Services\<close>,
    \<open>Net_Steps\<close>, \<open>Net_Tcp\<close> prove checksums, frames and datagrams between two hosts, the address cache (locale \<open>forgetful_table\<close>), the parsers of DHCP and
    DNS, what handling packets can change in calls that return (locale \<open>stack_relation\<close> with three instances), and that a TCP connection follows its state
    machine through every sequence of segments of its peer.
  \<^item> \<open>Http\<close>, \<open>Http_Props\<close> (\<open>Network/Protocols/http.c\<close>): URLs, requests, the response buffer and saving a download.
  \<^item> \<open>Asm\<close>, \<open>Asm_Props\<close> (\<open>assembler/asm.c\<close>): emitters, parsers and programs, against instructions with an encoding and a decoder of their own.
  \<^item> \<open>Elf\<close>, \<open>Elf_Props\<close> (\<open>elf/elf_load.c\<close>): validation, segments, symbols, relocations, thread-local storage. Relative relocations store bias plus
    addend at their targets and nowhere else; the symbol table is an instance of the locale \<open>name_table\<close>; validation accepts a file whatever its offsets are.
  \<^item> \<open>Elf_Run\<close>, \<open>Elf_Run_Props\<close> (\<open>elf/elf_test.c\<close>, \<open>create_elf_from_asm\<close> and the ELF commands of \<open>Shell/shell.c\<close>): files written from assembled code, the
    initial stack, processes. The text of a program ends up as the code it means in the page taken for its segment; the stack is laid out word by word.
  \<^item> \<open>Editor\<close>, \<open>Editor_Props\<close>, \<open>VFS_Files\<close>, \<open>Editor_Files\<close> (\<open>GUI/text_editor.c\<close>): the line buffer, keys, mouse and files of the text editor. Keys refine
    insertion, deletion and movement in a text with a cursor; a saved text is loaded again, end to end through the virtual file system and TinyFS, up to
    the 4095 bytes that a load takes.
  \<^item> \<open>Keyboard\<close>, \<open>Keyboard_Props\<close> (\<open>Tables/idt.c\<close>, \<open>command_history.h\<close>): scan codes, the input line and the command history. What is typed is what is
    entered; the history (locale \<open>recall\<close>) refines a list of commands with a position, through every sequence of entered commands and arrow keys.

  \<^bold>\<open>Bounds and termination.\<close> Loops over tables are recursion on their fixed length. Loops that follow links in memory (heap walks, chains of
  blocks, strings, dynamic sections) are partial functions whose result \<open>None\<close> means that they do not end; theorems about results are stated
  with \<open>Some\<close>, so that they include termination.

  \<^bold>\<open>Not modelled.\<close> Device registers and port input/output (\<open>ata.c\<close>, the set-up of the network card, \<open>AC97.c\<close>, \<open>serial.c\<close>, \<open>mouse.c\<close>, the PIC and
  timer programming of \<open>irq.c\<close>), processor tables and their assembly stubs (\<open>gdt.c\<close>, \<open>idt.c\<close>, \<open>tss.c\<close>, \<open>exception_handler.c\<close>), drawing (\<open>GUI/\<close>, \<open>Print/\<close>, whose
  effects are pixels), the dispatch of shell commands and their console output (\<open>Shell/shell.c\<close> beyond the ELF commands and the input line), the full-screen editor of \<open>Anthropic.c\<close>, the boot loader and firmware calls, and the start-up code, which is a sequence of calls to the parts above.
\<close>

end
